(* ===== verification/Prelude.thy ===== *)
theory Prelude
  imports Main "HOL-Library.Word"
begin

text \<open>
  Shared vocabulary of the development: the machine integers of \<open>inc/my_include.h\<close>,
  bytes and C strings, the big-endian stores that \<open>htons\<close>/\<open>htonl\<close> produce on the
  little-endian build of the server, and the lemma collections every component uses.

  Conventions. \<open>HB_U8\<close>, \<open>HB_U16\<close>, \<open>HB_U32\<close>, \<open>HB_U64\<close> are words of that width,
  \<open>HB_S32\<close> is a 32-bit word where it wraps and an \<open>int\<close> where only its value matters.
  \<open>char\<close> is signed on the x86 build, so a character that takes part in arithmetic is
  sign-extended (\<open>c_char\<close>) before it is added.
\<close>

unbundle bit_operations_syntax

type_synonym u8 = "8 word"
type_synonym u16 = "16 word"
type_synonym u32 = "32 word"
type_synonym u64 = "64 word"
type_synonym bytes = "u8 list"

text \<open>Rewrites that evaluate byte-level layouts, and facts about sizes of encodings.\<close>

named_theorems layout "byte layouts of the packed structures"
named_theorems size_facts "lengths of encodings"

section \<open>Return codes\<close>

definition HB_SUCCESS :: int where "HB_SUCCESS = 0"
definition HB_FAILURE :: int where "HB_FAILURE = -1"

lemma hb_codes_differ [simp]: "HB_SUCCESS \<noteq> HB_FAILURE" "HB_FAILURE \<noteq> HB_SUCCESS"
  by (simp_all add: HB_SUCCESS_def HB_FAILURE_def)

section \<open>Characters\<close>

text \<open>A plain \<open>char\<close> widened to \<open>unsigned int\<close>: sign extension, then reinterpretation.\<close>

definition c_char :: "u8 \<Rightarrow> u32" where
  "c_char c = scast c"

text \<open>An \<open>unsigned char\<close> widened to \<open>unsigned int\<close>: zero extension.\<close>

definition c_uchar :: "u8 \<Rightarrow> u32" where
  "c_uchar c = ucast c"

section \<open>Network byte order\<close>

definition be16 :: "u16 \<Rightarrow> bytes" where
  "be16 w = [ucast (drop_bit 8 w), ucast w]"

definition be32 :: "u32 \<Rightarrow> bytes" where
  "be32 w = [ucast (drop_bit 24 w), ucast (drop_bit 16 w), ucast (drop_bit 8 w), ucast w]"

text \<open>The value of a big-endian byte string.\<close>

fun be_val :: "bytes \<Rightarrow> nat" where
  "be_val [] = 0"
| "be_val (b # bs) = unat b * 256 ^ length bs + be_val bs"

lemma length_be16 [simp, size_facts]: "length (be16 w) = 2"
  by (simp add: be16_def)

lemma length_be32 [simp, size_facts]: "length (be32 w) = 4"
  by (simp add: be32_def)

lemma unat_ucast8: "unat (ucast (w :: 'a :: len word) :: u8) = unat w mod 256"
  by (simp add: unsigned_ucast_eq take_bit_eq_mod)

lemma unat_drop_bit: "unat (drop_bit n (w :: 'a :: len word)) = unat w div 2 ^ n"
  by (simp add: unat_drop_bit_eq drop_bit_eq_div [where 'a = nat])

lemma be_val_be16 [simp]: "be_val (be16 w) = unat w"
proof -
  have "unat w < 65536" using unsigned_less [of w] by simp
  then show ?thesis by (simp add: be16_def unat_ucast8 unat_drop_bit)
qed

lemma be_val_be32 [simp]: "be_val (be32 w) = unat w"
proof -
  let ?n = "unat w"
  have n: "?n < 4294967296" using unsigned_less [of w] by simp
  have "?n div 65536 = 256 * (?n div 16777216) + ?n div 65536 mod 256"
    using div_mult2_eq [of ?n 65536 256] by simp
  moreover have "?n div 256 = 256 * (?n div 65536) + ?n div 256 mod 256"
    using div_mult2_eq [of ?n 256 256] by simp
  moreover have "?n = 256 * (?n div 256) + ?n mod 256" by simp
  ultimately have "?n div 16777216 * 16777216 + (?n div 65536 mod 256 * 65536 +
      (?n div 256 mod 256 * 256 + ?n mod 256)) = ?n" by linarith
  then show ?thesis using n by (simp add: be32_def unat_ucast8 unat_drop_bit)
qed

lemma be_val_append: "be_val (xs @ ys) = be_val xs * 256 ^ length ys + be_val ys"
  by (induction xs) (simp_all add: algebra_simps power_add)

section \<open>Masking\<close>

text \<open>The masks of the source, as numbers of low bits.\<close>

lemma mask_numerals:
  "(x :: 'a :: len word) AND 0x7 = take_bit 3 x"
  "x AND 0x1F = take_bit 5 x"
  "x AND 0xFF = take_bit 8 x"
  "x AND 0x3FF = take_bit 10 x"
  "x AND 0x7FFF = take_bit 15 x"
  by (simp_all add: take_bit_eq_mask mask_eq_exp_minus_1)

lemma unat_take_bit: "unat (take_bit n (x :: 'a :: len word)) = unat x mod 2 ^ n"
  by (metis take_bit_eq_mod unsigned_take_bit_eq)

section \<open>Accumulating bit fields\<close>

text \<open>
  The idiom \<open>acc <<= k; acc |= v;\<close> of the header writers: as long as \<open>v\<close> fits in \<open>k\<close> bits
  and nothing is shifted out, it is \<open>acc * 2 ^ k + v\<close>.
\<close>

definition shift_in :: "nat \<Rightarrow> 'a :: len word \<Rightarrow> 'a word \<Rightarrow> 'a word" where
  "shift_in k a v = push_bit k a OR v"

lemma unat_shift_in:
  fixes a v :: "'a :: len word"
  assumes v: "unat v < 2 ^ k" and fits: "unat a * 2 ^ k + unat v < 2 ^ LENGTH('a)"
  shows "unat (shift_in k a v) = unat a * 2 ^ k + unat v"
proof -
  have "take_bit k v = v"
    using v by (simp add: word_unat_eq_iff unat_take_bit)
  then have low: "bit v n \<Longrightarrow> n < k" for n
    by (metis bit_take_bit_iff)
  have "shift_in k a v = push_bit k a + v"
    unfolding shift_in_def
    by (rule disjunctive_add [symmetric]) (auto simp: bit_simps dest: low)
  also have "\<dots> = a * 2 ^ k + v" by (simp add: push_bit_eq_mult)
  finally have eq: "shift_in k a v = a * 2 ^ k + v" .
  have "a * 2 ^ k + v = word_of_nat (unat a * 2 ^ k + unat v)" by simp
  then show ?thesis
    using fits by (simp only: eq) (simp only: unat_of_nat take_bit_eq_mod mod_less)
qed

section \<open>Memory\<close>

text \<open>
  A buffer is the list of its bytes. A store or a load that leaves the buffer is undefined
  behaviour of the C program: the value \<open>None\<close>.
\<close>

definition mem_write :: "bytes \<Rightarrow> nat \<Rightarrow> bytes \<Rightarrow> bytes option" where
  "mem_write m off bs =
     (if off + length bs \<le> length m
      then Some (take off m @ bs @ drop (off + length bs) m) else None)"

definition mem_read :: "bytes \<Rightarrow> nat \<Rightarrow> nat \<Rightarrow> bytes option" where
  "mem_read m off n = (if off + n \<le> length m then Some (take n (drop off m)) else None)"

lemma mem_write_length: "mem_write m off bs = Some m' \<Longrightarrow> length m' = length m"
  by (auto simp: mem_write_def split: if_splits)

lemma mem_write_defined: "(\<exists>m'. mem_write m off bs = Some m') \<longleftrightarrow> off + length bs \<le> length m"
  by (simp add: mem_write_def)

lemma mem_write_take:
  "mem_write m off bs = Some m' \<Longrightarrow> take (off + length bs) m' = take off m @ bs"
  by (auto simp: mem_write_def min_absorb1 split: if_splits)

lemma mem_write_prefix:
  "mem_write m off bs = Some m' \<Longrightarrow> k \<le> off \<Longrightarrow> take k m' = take k m"
  by (auto simp: mem_write_def min_absorb1 split: if_splits)

lemma mem_write_suffix:
  "mem_write m off bs = Some m' \<Longrightarrow> off + length bs \<le> k \<Longrightarrow> drop k m' = drop k m"
  by (auto simp: mem_write_def split: if_splits)

text \<open>Consecutive stores are one store.\<close>

lemma mem_write_append:
  "mem_write m off (a @ b) = Option.bind (mem_write m off a) (\<lambda>m'. mem_write m' (off + length a) b)"
proof (cases "off + length a \<le> length m")
  case True
  then have "take (off + length a) (take off m @ a @ drop (off + length a) m) = take off m @ a"
    "drop (off + length a + length b) (take off m @ a @ drop (off + length a) m) =
     drop (off + length a + length b) m"
    by (simp_all add: min_absorb1 add.commute)
  then show ?thesis
    using True by (simp add: mem_write_def add.assoc)
next
  case False
  then show ?thesis by (simp add: mem_write_def)
qed

lemma mem_write_step:
  assumes "\<And>b. off + length a \<le> length b \<Longrightarrow> f b = map_option g (mem_write b (off + length a) s)"
  shows "Option.bind (mem_write m off a) f = map_option g (mem_write m off (a @ s))"
proof (cases "mem_write m off a")
  case None
  then show ?thesis by (simp add: mem_write_append)
next
  case (Some b)
  then have "off + length a \<le> length b"
    using mem_write_length mem_write_defined by metis
  then show ?thesis using Some by (simp add: mem_write_append assms)
qed

end
