(* ===== verification/HashFuncs.thy ===== *)
theory HashFuncs
  imports Prelude
begin

text \<open>
  \<open>src/common/hash_table.c\<close>: the nine string hash functions and the selector
  \<open>ChooseHashFunc\<close>. A C string is the list of its bytes before the terminator. Each hash is
  its loop (a tail recursion over the string, the state being the loop's variables) and the
  final mask \<open>hash & 0x7FFFFFFF\<close>. All arithmetic is on 32-bit words, as \<open>unsigned int\<close>;
  a plain \<open>char\<close> is sign-extended before it is added, an \<open>unsigned char\<close> is not.
\<close>

definition hash_out :: "u32 \<Rightarrow> u32" where
  "hash_out h = h AND 0x7FFFFFFF"

section \<open>The hash functions\<close>

fun simple_hash_loop :: "u32 \<Rightarrow> bytes \<Rightarrow> u32" where
  "simple_hash_loop h [] = h"
| "simple_hash_loop h (p # s) = simple_hash_loop (31 * h + c_uchar p) s"

definition simple_hash :: "bytes \<Rightarrow> u32" where
  "simple_hash s = hash_out (simple_hash_loop 0 s)"

fun RS_hash_loop :: "u32 \<Rightarrow> u32 \<Rightarrow> bytes \<Rightarrow> u32" where
  "RS_hash_loop a h [] = h"
| "RS_hash_loop a h (p # s) = RS_hash_loop (a * 378551) (h * a + c_char p) s"

definition RS_hash :: "bytes \<Rightarrow> u32" where
  "RS_hash s = hash_out (RS_hash_loop 63689 0 s)"

fun JS_hash_loop :: "u32 \<Rightarrow> bytes \<Rightarrow> u32" where
  "JS_hash_loop h [] = h"
| "JS_hash_loop h (p # s) =
     JS_hash_loop (h XOR (push_bit 5 h + c_char p + drop_bit 2 h)) s"

definition JS_hash :: "bytes \<Rightarrow> u32" where
  "JS_hash s = hash_out (JS_hash_loop 1315423911 s)"

text \<open>\<open>BitsInUnignedInt\<close> is 32, so \<open>ThreeQuarters\<close> is 24 and \<open>OneEighth\<close> is 4.\<close>

definition PJW_HighBits :: u32 where
  "PJW_HighBits = push_bit (32 - 4) 0xFFFFFFFF"

fun PJW_hash_loop :: "u32 \<Rightarrow> bytes \<Rightarrow> u32" where
  "PJW_hash_loop h [] = h"
| "PJW_hash_loop h (p # s) =
     (let h1 = push_bit 4 h + c_char p; test = h1 AND PJW_HighBits
      in PJW_hash_loop
           (if test \<noteq> 0 then (h1 XOR drop_bit 24 test) AND NOT PJW_HighBits else h1) s)"

definition PJW_hash :: "bytes \<Rightarrow> u32" where
  "PJW_hash s = hash_out (PJW_hash_loop 0 s)"

fun ELF_hash_loop :: "u32 \<Rightarrow> bytes \<Rightarrow> u32" where
  "ELF_hash_loop h [] = h"
| "ELF_hash_loop h (p # s) =
     (let h1 = push_bit 4 h + c_char p; x = h1 AND 0xF0000000
      in ELF_hash_loop
           (if x \<noteq> 0 then (h1 XOR drop_bit 24 x) AND NOT x else h1) s)"

definition ELF_hash :: "bytes \<Rightarrow> u32" where
  "ELF_hash s = hash_out (ELF_hash_loop 0 s)"

fun BKDR_hash_loop :: "u32 \<Rightarrow> bytes \<Rightarrow> u32" where
  "BKDR_hash_loop h [] = h"
| "BKDR_hash_loop h (p # s) = BKDR_hash_loop (h * 131 + c_char p) s"

definition BKDR_hash :: "bytes \<Rightarrow> u32" where
  "BKDR_hash s = hash_out (BKDR_hash_loop 0 s)"

fun SDBM_hash_loop :: "u32 \<Rightarrow> bytes \<Rightarrow> u32" where
  "SDBM_hash_loop h [] = h"
| "SDBM_hash_loop h (p # s) =
     SDBM_hash_loop (c_char p + push_bit 6 h + push_bit 16 h - h) s"

definition SDBM_hash :: "bytes \<Rightarrow> u32" where
  "SDBM_hash s = hash_out (SDBM_hash_loop 0 s)"

fun DJB_hash_loop :: "u32 \<Rightarrow> bytes \<Rightarrow> u32" where
  "DJB_hash_loop h [] = h"
| "DJB_hash_loop h (p # s) = DJB_hash_loop (h + (push_bit 5 h + c_char p)) s"

definition DJB_hash :: "bytes \<Rightarrow> u32" where
  "DJB_hash s = hash_out (DJB_hash_loop 5381 s)"

text \<open>The loop counter \<open>i\<close> is read only through \<open>i & 1\<close>.\<close>

fun AP_hash_loop :: "nat \<Rightarrow> u32 \<Rightarrow> bytes \<Rightarrow> u32" where
  "AP_hash_loop i h [] = h"
| "AP_hash_loop i h (p # s) =
     AP_hash_loop (Suc i)
       (if even i then h XOR (push_bit 7 h XOR c_char p XOR drop_bit 3 h)
        else h XOR NOT (push_bit 11 h XOR c_char p XOR drop_bit 5 h)) s"

definition AP_hash :: "bytes \<Rightarrow> u32" where
  "AP_hash s = hash_out (AP_hash_loop 0 0 s)"

section \<open>The selector\<close>

text \<open>\<open>ChooseHashFunc\<close> stores into \<open>pHashFunc\<close>; \<open>None\<close> is the null pointer it stores for
  an unknown name.\<close>

definition ChooseHashFunc :: "string \<Rightarrow> (bytes \<Rightarrow> u32) option" where
  "ChooseHashFunc n =
     (if n = ''simple_hash'' then Some simple_hash
      else if n = ''RS_hash'' then Some RS_hash
      else if n = ''JS_hash'' then Some JS_hash
      else if n = ''PJW_hash'' then Some PJW_hash
      else if n = ''ELF_hash'' then Some ELF_hash
      else if n = ''BKDR_hash'' then Some BKDR_hash
      else if n = ''SDBM_hash'' then Some SDBM_hash
      else if n = ''DJB_hash'' then Some DJB_hash
      else if n = ''AP_hash'' then Some AP_hash
      else None)"

text \<open>\<open>pHashFunc(key) % len\<close>, the bucket both hash tables compute; on an empty table the
  remainder by zero traps.\<close>

definition hash_bucket :: "(bytes \<Rightarrow> u32) \<Rightarrow> bytes \<Rightarrow> u32 \<Rightarrow> u32 option" where
  "hash_bucket f key len = (if len = 0 then None else Some (f key mod len))"

section \<open>Range\<close>

lemma hash_out_take: "hash_out h = take_bit 31 h"
proof -
  have "(0x7FFFFFFF :: u32) = mask 31" by (simp add: mask_eq_exp_minus_1)
  then show ?thesis by (simp only: hash_out_def take_bit_eq_mask)
qed

lemma unat_hash_out: "unat (hash_out h) = unat h mod 2 ^ 31"
  by (simp add: hash_out_take unat_take_bit)

lemma hash_out_range: "unat (hash_out h) < 2 ^ 31"
  by (simp add: unat_hash_out)

lemmas hash_defs = simple_hash_def RS_hash_def JS_hash_def PJW_hash_def ELF_hash_def
  BKDR_hash_def SDBM_hash_def DJB_hash_def AP_hash_def

lemma ChooseHashFunc_cases:
  "ChooseHashFunc n = Some f \<Longrightarrow>
     f \<in> {simple_hash, RS_hash, JS_hash, PJW_hash, ELF_hash, BKDR_hash, SDBM_hash, DJB_hash, AP_hash}"
  by (simp add: ChooseHashFunc_def split: if_splits)

text \<open>
  C28. every hash function the selector can install maps every string to a value below
  \<open>2 ^ 31\<close>, so its use as a non-negative \<open>int\<close> (\<open>iSipNodeHashValue\<close>) loses nothing.
\<close>

theorem chosen_hash_range:
  assumes "ChooseHashFunc n = Some f"
  shows "unat (f s) < 2 ^ 31"
  using ChooseHashFunc_cases [OF assms] hash_out_range by (auto simp: hash_defs)

theorem chosen_hash_range_witness:
  "ChooseHashFunc ''BKDR_hash'' = Some BKDR_hash \<and> unat (BKDR_hash [0x61, 0xFF]) < 2 ^ 31"
proof -
  have "ChooseHashFunc ''BKDR_hash'' = Some BKDR_hash" by (simp add: ChooseHashFunc_def)
  then show ?thesis using chosen_hash_range by blast
qed

lemma hash_bucket_range: "hash_bucket f key len = Some b \<Longrightarrow> unat b < unat len"
  by (auto simp: hash_bucket_def unat_mod unat_gt_0 split: if_splits)

section \<open>PJW and ELF compute the same function\<close>

lemma PJW_HighBits_eq: "PJW_HighBits = 0xF0000000"
  by (simp add: PJW_HighBits_def)

text \<open>Once the top nibble is moved down, clearing the four high bits or only the set ones of
  them is the same.\<close>

lemma clear_high_nibble:
  fixes h :: u32
  shows "(h XOR drop_bit 24 (h AND 0xF0000000)) AND NOT 0xF0000000 =
         (h XOR drop_bit 24 (h AND 0xF0000000)) AND NOT (h AND 0xF0000000)"
proof (rule bit_word_eqI)
  have hi: "(0xF0000000 :: u32) = push_bit 28 (mask 4)"
    by (simp add: mask_eq_exp_minus_1)
  fix n assume "n < LENGTH(32)"
  then show "bit ((h XOR drop_bit 24 (h AND 0xF0000000)) AND NOT 0xF0000000) n =
        bit ((h XOR drop_bit 24 (h AND 0xF0000000)) AND NOT (h AND 0xF0000000)) n"
    unfolding hi by (auto simp: bit_simps)
qed

lemma PJW_loop_eq_ELF_loop: "PJW_hash_loop h s = ELF_hash_loop h s"
proof (induction s arbitrary: h)
  case (Cons p s)
  show ?case
    by (simp only: PJW_hash_loop.simps ELF_hash_loop.simps Let_def PJW_HighBits_eq
        clear_high_nibble Cons)
qed simp

text \<open>
  \<open>PJW_hash\<close> and \<open>ELF_hash\<close>, written as two functions (one clears the four high bits, the
  other only those that are set), agree on every string: selecting one or the other by name
  gives the same buckets.
\<close>

theorem PJW_hash_eq_ELF_hash: "PJW_hash s = ELF_hash s"
  by (simp add: PJW_hash_def ELF_hash_def PJW_loop_eq_ELF_loop)

section \<open>The multiplicative hashes are polynomials\<close>

text \<open>The reference: Horner's scheme over the integers.\<close>

fun horner :: "int \<Rightarrow> int \<Rightarrow> int list \<Rightarrow> int" where
  "horner b h [] = h"
| "horner b h (c # cs) = horner b (b * h + c) cs"

lemma word_of_int_c_char: "(word_of_int (sint p) :: u32) = c_char p"
  by (simp only: c_char_def scast_eq)

lemma BKDR_loop_horner:
  "BKDR_hash_loop (word_of_int h) s = word_of_int (horner 131 h (map sint s))"
proof (induction s arbitrary: h)
  case (Cons p s)
  have "word_of_int h * 131 + c_char p = (word_of_int (131 * h + sint p) :: u32)"
    by (simp only: word_of_int_c_char [symmetric] wi_hom_syms mult.commute word_of_int_numeral [symmetric])
  then show ?case by (simp only: BKDR_hash_loop.simps list.map horner.simps Cons)
qed simp

lemma DJB_step: "h + (push_bit 5 h + c) = 33 * h + (c :: u32)"
  by (simp add: push_bit_eq_mult)

lemma SDBM_step: "c + push_bit 6 h + push_bit 16 h - h = 65599 * h + (c :: u32)"
  by (simp add: push_bit_eq_mult algebra_simps)

lemma DJB_loop_horner:
  "DJB_hash_loop (word_of_int h) s = word_of_int (horner 33 h (map sint s))"
proof (induction s arbitrary: h)
  case (Cons p s)
  have "33 * word_of_int h + c_char p = (word_of_int (33 * h + sint p) :: u32)"
    by (simp only: word_of_int_c_char [symmetric] wi_hom_syms mult.commute word_of_int_numeral [symmetric])
  then show ?case by (simp only: DJB_hash_loop.simps list.map horner.simps Cons DJB_step)
qed simp

lemma SDBM_loop_horner:
  "SDBM_hash_loop (word_of_int h) s = word_of_int (horner 65599 h (map sint s))"
proof (induction s arbitrary: h)
  case (Cons p s)
  have "65599 * word_of_int h + c_char p = (word_of_int (65599 * h + sint p) :: u32)"
    by (simp only: word_of_int_c_char [symmetric] wi_hom_syms mult.commute word_of_int_numeral [symmetric])
  then show ?case by (simp only: SDBM_hash_loop.simps list.map horner.simps Cons SDBM_step)
qed simp

lemma uint_hash_out_word_of_int: "uint (hash_out (word_of_int k)) = k mod 2 ^ 31"
proof -
  have "uint (take_bit 31 (word_of_int k :: u32)) = (k mod 2 ^ 32) mod 2 ^ 31"
    by (subst unsigned_take_bit_eq) (simp add: uint_word_of_int take_bit_eq_mod [where 'a = int])
  then show ?thesis by (simp add: hash_out_take mod_mod_cancel)
qed

text \<open>
  The hash the server installs, \<open>BKDR_hash\<close>, is the polynomial in 131 over the signed
  bytes of the string, modulo \<open>2 ^ 31\<close>; \<open>DJB_hash\<close> and \<open>SDBM_hash\<close>, written with shifts, are
  the polynomials in 33 (from 5381) and 65599.
\<close>

theorem multiplicative_hashes:
  "uint (BKDR_hash s) = horner 131 0 (map sint s) mod 2 ^ 31 \<and>
   uint (DJB_hash s) = horner 33 5381 (map sint s) mod 2 ^ 31 \<and>
   uint (SDBM_hash s) = horner 65599 0 (map sint s) mod 2 ^ 31"
  using BKDR_loop_horner [of 0 s] DJB_loop_horner [of 5381 s] SDBM_loop_horner [of 0 s]
  by (simp add: BKDR_hash_def DJB_hash_def SDBM_hash_def uint_hash_out_word_of_int)

end
