(* ===== verification/PsMux.thy ===== *)
theory PsMux
  imports Prelude "HOL-Library.Monad_Syntax"
begin

text \<open>
  \<open>src/stream/ps.c\<close>: the MPEG-2 program stream multiplexer. The four packed headers are
  records with the fields of the C structures, the bit fields at their width; their image in
  memory (\<open>*_bytes\<close>) is the little-endian layout the compiler gives them. A header writer is a
  function on the record it is handed, so a field it leaves alone keeps what the output buffer
  held there. \<open>ps_process\<close> works on the caller's buffer; a store outside it is \<open>None\<close>.

  The second half is a reference demultiplexer, written from the layout of ISO/IEC 13818-1
  and not from the code, against which the output is checked.
\<close>

section \<open>Byte order\<close>

definition htons :: "u16 \<Rightarrow> u16" where
  "htons w = push_bit 8 w OR drop_bit 8 w"

definition htonl :: "u32 \<Rightarrow> u32" where
  "htonl w = push_bit 24 w OR push_bit 16 (take_bit 8 (drop_bit 8 w)) OR
             push_bit 8 (take_bit 8 (drop_bit 16 w)) OR drop_bit 24 w"

definition le16 :: "u16 \<Rightarrow> bytes" where
  "le16 w = [ucast w, ucast (drop_bit 8 w)]"

definition le32 :: "u32 \<Rightarrow> bytes" where
  "le32 w = [ucast w, ucast (drop_bit 8 w), ucast (drop_bit 16 w), ucast (drop_bit 24 w)]"

lemma le16_htons [layout]: "le16 (htons w) = be16 w"
  by (auto simp: le16_def htons_def be16_def bit_simps intro!: bit_word_eqI)

lemma le32_htonl [layout]: "le32 (htonl w) = be32 w"
  by (auto simp: le32_def htonl_def be32_def bit_simps intro!: bit_word_eqI)

section \<open>The headers\<close>

record PS_PACKHEADER =
  pk_psc :: u32
  pk_scrb1 :: u16
  pk_scrb2 :: u16
  pk_scre :: u16
  pk_pmr :: u16
  pk_mb :: u8
  pk_psl :: "3 word"
  pk_res :: "5 word"

record PS_SYSTEMHEADER =
  sy_shsc :: u32
  sy_hl :: u16
  sy_m1 :: u8
  sy_rbd :: u16
  sy_uc1 :: u8
  sy_uc2 :: u8
  sy_uc3 :: u8
  sy_vsi :: u8
  sy_vpbsb :: u16
  sy_asi :: u8
  sy_apbsb :: u16

record PS_MAPHEADER =
  mp_pscp1 :: u8
  mp_pscp :: u16
  mp_msi :: u8
  mp_psml :: u16
  mp_uc1 :: u8
  mp_uc2 :: u8
  mp_psil :: u16
  mp_esml :: u16
  mp_vst :: u8
  mp_vesi :: u8
  mp_vesil :: u16
  mp_fill1 :: u16
  mp_fill2 :: u16
  mp_fill3 :: u16
  mp_ast :: u8
  mp_aesi :: u8
  mp_aesil :: u16
  mp_s32crc :: u32

record PS_PESHEADER =
  pe_m1 :: u16
  pe_pscp :: u8
  pe_si :: u8
  pe_ppl :: u16
  pe_ooc :: "1 word"
  pe_ct :: "1 word"
  pe_dai :: "1 word"
  pe_pp :: "1 word"
  pe_psc :: "2 word"
  pe_ff :: "2 word"
  pe_pef :: "1 word"
  pe_pcf :: "1 word"
  pe_acif :: "1 word"
  pe_dtmf :: "1 word"
  pe_erf :: "1 word"
  pe_ef :: "1 word"
  pe_pdf :: "2 word"
  pe_phdl :: u8
  pe_ptsp :: u8
  pe_pts :: u32
  pe_dtsp :: u8
  pe_dts :: u32

text \<open>The image of each structure in memory; bit fields fill from the least significant bit.\<close>

definition PS_PACKHEADER_bytes :: "PS_PACKHEADER \<Rightarrow> bytes" where
  "PS_PACKHEADER_bytes h =
     le32 (pk_psc h) @ le16 (pk_scrb1 h) @ le16 (pk_scrb2 h) @ le16 (pk_scre h) @
     le16 (pk_pmr h) @ [pk_mb h] @ [ucast (pk_psl h) OR push_bit 3 (ucast (pk_res h))]"

definition PS_SYSTEMHEADER_bytes :: "PS_SYSTEMHEADER \<Rightarrow> bytes" where
  "PS_SYSTEMHEADER_bytes h =
     le32 (sy_shsc h) @ le16 (sy_hl h) @ [sy_m1 h] @ le16 (sy_rbd h) @
     [sy_uc1 h, sy_uc2 h, sy_uc3 h, sy_vsi h] @ le16 (sy_vpbsb h) @ [sy_asi h] @
     le16 (sy_apbsb h)"

definition PS_MAPHEADER_bytes :: "PS_MAPHEADER \<Rightarrow> bytes" where
  "PS_MAPHEADER_bytes h =
     [mp_pscp1 h] @ le16 (mp_pscp h) @ [mp_msi h] @ le16 (mp_psml h) @ [mp_uc1 h, mp_uc2 h] @
     le16 (mp_psil h) @ le16 (mp_esml h) @ [mp_vst h, mp_vesi h] @ le16 (mp_vesil h) @
     le16 (mp_fill1 h) @ le16 (mp_fill2 h) @ le16 (mp_fill3 h) @ [mp_ast h, mp_aesi h] @
     le16 (mp_aesil h) @ le32 (mp_s32crc h)"

definition PS_PESHEADER_flags1 :: "PS_PESHEADER \<Rightarrow> u8" where
  "PS_PESHEADER_flags1 h =
     ucast (pe_ooc h) OR push_bit 1 (ucast (pe_ct h)) OR push_bit 2 (ucast (pe_dai h)) OR
     push_bit 3 (ucast (pe_pp h)) OR push_bit 4 (ucast (pe_psc h)) OR push_bit 6 (ucast (pe_ff h))"

definition PS_PESHEADER_flags2 :: "PS_PESHEADER \<Rightarrow> u8" where
  "PS_PESHEADER_flags2 h =
     ucast (pe_pef h) OR push_bit 1 (ucast (pe_pcf h)) OR push_bit 2 (ucast (pe_acif h)) OR
     push_bit 3 (ucast (pe_dtmf h)) OR push_bit 4 (ucast (pe_erf h)) OR
     push_bit 5 (ucast (pe_ef h)) OR push_bit 6 (ucast (pe_pdf h))"

definition PS_PESHEADER_bytes :: "PS_PESHEADER \<Rightarrow> bytes" where
  "PS_PESHEADER_bytes h =
     le16 (pe_m1 h) @ [pe_pscp h, pe_si h] @ le16 (pe_ppl h) @
     [PS_PESHEADER_flags1 h, PS_PESHEADER_flags2 h] @ [pe_phdl h, pe_ptsp h] @ le32 (pe_pts h) @
     [pe_dtsp h] @ le32 (pe_dts h)"

lemma length_le [simp, size_facts]: "length (le16 x) = 2" "length (le32 y) = 4"
  by (simp_all add: le16_def le32_def)

lemma header_sizes [simp, size_facts]:
  "length (PS_PACKHEADER_bytes a) = 14"
  "length (PS_SYSTEMHEADER_bytes b) = 18"
  "length (PS_MAPHEADER_bytes c) = 30"
  "length (PS_PESHEADER_bytes d) = 19"
  by (simp_all add: PS_PACKHEADER_bytes_def PS_SYSTEMHEADER_bytes_def PS_MAPHEADER_bytes_def
      PS_PESHEADER_bytes_def)

section \<open>The header writers\<close>

definition VIDEO_STREAM :: u8 where "VIDEO_STREAM = 0xe0"
definition AUDIO_STREAM :: u8 where "AUDIO_STREAM = 0xc0"
definition PS_PES_PPL_LENGTH :: int where "PS_PES_PPL_LENGTH = 13"
definition MAX_PES_PACKET_LENGTH :: int where "MAX_PES_PACKET_LENGTH = 0xffff - PS_PES_PPL_LENGTH"

definition ps_pes_video_init :: "PS_PESHEADER \<Rightarrow> PS_PESHEADER" where
  "ps_pes_video_init h =
     h\<lparr>pe_m1 := 0, pe_pscp := 1, pe_si := VIDEO_STREAM, pe_ff := 2, pe_psc := 0, pe_pp := 0,
       pe_dai := 1, pe_ct := 0, pe_ooc := 0, pe_pdf := 3, pe_ef := 0, pe_erf := 0, pe_dtmf := 0,
       pe_acif := 0, pe_pcf := 0, pe_pef := 0, pe_phdl := 10\<rparr>"

definition ps_pes_audio_init :: "PS_PESHEADER \<Rightarrow> PS_PESHEADER" where
  "ps_pes_audio_init h =
     h\<lparr>pe_m1 := 0, pe_pscp := 1, pe_si := AUDIO_STREAM, pe_ff := 2, pe_psc := 0, pe_pp := 0,
       pe_dai := 1, pe_ct := 0, pe_ooc := 0, pe_pdf := 3, pe_ef := 0, pe_erf := 0, pe_dtmf := 0,
       pe_acif := 0, pe_pcf := 0, pe_pef := 0, pe_phdl := 10\<rparr>"

text \<open>The prefix byte and the four bytes of a DTS; \<open>acc <<= k; acc |= v\<close> is \<open>shift_in\<close>.\<close>

definition ps_dts :: "u64 \<Rightarrow> u8 \<times> u32" where
  "ps_dts ts =
     (let p = 0 OR 1;
          p = shift_in 3 p (ucast (drop_bit 30 ts AND 0x7));
          p = shift_in 1 p 1;
          v = shift_in 15 0 (ucast (drop_bit 15 ts AND 0x7FFF));
          v = shift_in 1 v 1;
          v = shift_in 15 v (ucast (ts AND 0x7FFF));
          v = shift_in 1 v 1
      in (p, v))"

definition ps_pts :: "u64 \<Rightarrow> u8 \<times> u32" where
  "ps_pts ts =
     (let p = 0 OR 3;
          p = shift_in 3 p (ucast (drop_bit 30 ts AND 0x7));
          p = shift_in 1 p 1;
          v = shift_in 15 0 (ucast (drop_bit 15 ts AND 0x7FFF));
          v = shift_in 1 v 1;
          v = shift_in 15 v (ucast (ts AND 0x7FFF));
          v = shift_in 1 v 1
      in (p, v))"

definition ps_packheader_make :: "u64 \<Rightarrow> PS_PACKHEADER \<Rightarrow> PS_PACKHEADER" where
  "ps_packheader_make ts h =
     (let h = h\<lparr>pk_psc := htonl 0x01BA\<rparr>;
          us = 0 OR 1;
          us = shift_in 3 us (ucast (drop_bit 30 ts AND 0x07));
          us = shift_in 1 us 1;
          us = shift_in 10 us (ucast (drop_bit 20 ts AND 0x03FF));
          h = h\<lparr>pk_scrb1 := htons us\<rparr>;
          us = 0 OR ucast (drop_bit 15 ts AND 0x1F);
          us = shift_in 1 us 1;
          us = shift_in 10 us (ucast (drop_bit 5 ts AND 0x03FF));
          h = h\<lparr>pk_scrb2 := htons us\<rparr>;
          us = 0 OR ucast (ts AND 0x1F);
          us = shift_in 1 us 1;
          us = shift_in 10 us 1;
          h = h\<lparr>pk_scre := htons us\<rparr>
      in h\<lparr>pk_pmr := htons 0x0199, pk_mb := 0x9F, pk_res := 0x1F, pk_psl := 0\<rparr>)"

definition ps_mapheader_video_make :: "PS_MAPHEADER \<Rightarrow> PS_MAPHEADER" where
  "ps_mapheader_video_make h =
     h\<lparr>mp_pscp1 := 0, mp_pscp := htons 0x01, mp_msi := 0xBC, mp_psml := htons 0x18,
       mp_uc1 := 0xE1, mp_uc2 := 0xFF, mp_psil := htons 0x00, mp_esml := htons 0x08,
       mp_vst := 0x1B, mp_vesi := VIDEO_STREAM, mp_vesil := htons 0x06, mp_ast := 0x90,
       mp_aesi := AUDIO_STREAM, mp_aesil := htons 0x00, mp_s32crc := htonl 0x2EB90F3D\<rparr>"

definition ps_systemheader_make :: "PS_SYSTEMHEADER \<Rightarrow> PS_SYSTEMHEADER" where
  "ps_systemheader_make h =
     h\<lparr>sy_shsc := htonl 0x01BB, sy_hl := htons 0x0C, sy_m1 := 0x80, sy_rbd := htons 0xCCF5,
       sy_uc1 := 0x04, sy_uc2 := 0xE1, sy_uc3 := 0x7F, sy_vsi := 0xE0, sy_vpbsb := htons 0xE0E8,
       sy_asi := 0xC0, sy_apbsb := htons 0xC020\<rparr>"

text \<open>The enumeration, and the integers outside it that C lets through.\<close>

datatype ES_FRAME_TYPE_E = ES_FRAME_P | ES_FRAME_I | ES_FRAME_AUDIO | ES_FRAME_UNLISTED int

text \<open>\<open>ulPTS\<close> and \<open>ulDTS\<close> are \<open>HB_U32\<close>: the 64-bit time is cut to 32 bits first.\<close>

definition ps_pesheader_make ::
  "PS_PESHEADER \<Rightarrow> int \<Rightarrow> ES_FRAME_TYPE_E \<Rightarrow> u64 \<Rightarrow> PS_PESHEADER" where
  "ps_pesheader_make h frame_len frame_type iTime =
     (let ulDTS = ucast iTime :: u32;
          ulPTS = ucast iTime :: u32;
          h = (if frame_type = ES_FRAME_I \<or> frame_type = ES_FRAME_P \<or> frame_type = ES_FRAME_AUDIO
               then (let (p, v) = ps_pts (ucast ulPTS);
                         h = h\<lparr>pe_ptsp := p, pe_pts := htonl v\<rparr>;
                         (p, v) = ps_dts (ucast ulDTS)
                     in h\<lparr>pe_dtsp := p, pe_dts := htonl v\<rparr>)
               else h)
      in if frame_len > MAX_PES_PACKET_LENGTH
         then h\<lparr>pe_ppl := htons 0xFFFF\<rparr>
         else h\<lparr>pe_ppl := htons (word_of_int (frame_len + PS_PES_PPL_LENGTH))\<rparr>)"

section \<open>ps_process\<close>

record PS_FRAME_INFO =
  framerate :: u32
  vid_frame_number :: u32
  aud_frame_number :: u32
  vid_timestamp :: u32
  aud_timestamp :: u32

definition ps_init :: "PS_FRAME_INFO \<Rightarrow> int \<times> PS_FRAME_INFO" where
  "ps_init i = (HB_SUCCESS, \<lparr>framerate = 0, vid_frame_number = 0, aud_frame_number = 0,
     vid_timestamp = 0, aud_timestamp = 0\<rparr>)"

text \<open>What the output buffer happens to hold where a header is about to be built, by offset.\<close>

record ps_old =
  old_pack :: "nat \<Rightarrow> PS_PACKHEADER"
  old_sys :: "nat \<Rightarrow> PS_SYSTEMHEADER"
  old_map :: "nat \<Rightarrow> PS_MAPHEADER"
  old_pes :: "nat \<Rightarrow> PS_PESHEADER"

text \<open>\<open>uiTmpLen\<close>, the bytes of the frame that go into this packet.\<close>

definition pes_chunk :: "int \<Rightarrow> nat" where
  "pes_chunk frame_len =
     nat (if frame_len > MAX_PES_PACKET_LENGTH then MAX_PES_PACKET_LENGTH else frame_len)"

lemma pes_chunk_pos: "0 < frame_len \<Longrightarrow> 0 < pes_chunk frame_len"
  by (simp add: pes_chunk_def MAX_PES_PACKET_LENGTH_def PS_PES_PPL_LENGTH_def)

text \<open>The loop of the video branch: \<open>off\<close> is \<open>uioffset\<close>, \<open>src\<close> the source from \<open>p_srcbuf\<close> on.\<close>

function ps_video_loop ::
  "ps_old \<Rightarrow> ES_FRAME_TYPE_E \<Rightarrow> u64 \<Rightarrow> int \<Rightarrow> bytes \<Rightarrow> bytes \<Rightarrow> nat \<Rightarrow> (bytes \<times> nat) option" where
  "ps_video_loop old ft iTime frame_len src buf off =
     (if frame_len > 0 then do {
        let h = ps_pesheader_make (ps_pes_video_init (old_pes old off)) frame_len ft iTime;
        buf \<leftarrow> mem_write buf off (PS_PESHEADER_bytes h);
        let off = off + 19;
        let n = pes_chunk frame_len;
        d \<leftarrow> mem_read src 0 n;
        buf \<leftarrow> mem_write buf off d;
        ps_video_loop old ft iTime (frame_len - int n) (drop n src) buf (off + n)
      } else Some (buf, off))"
  by pat_completeness auto
termination
  by (relation "measure (\<lambda>(old, ft, t, frame_len, src, buf, off). nat frame_len)")
     (use pes_chunk_pos in force)+

text \<open>The loop of the audio branch resets \<open>uioffset\<close> at every round.\<close>

function ps_audio_loop ::
  "ps_old \<Rightarrow> ES_FRAME_TYPE_E \<Rightarrow> u64 \<Rightarrow> int \<Rightarrow> bytes \<Rightarrow> bytes \<Rightarrow> nat \<Rightarrow> (bytes \<times> nat) option" where
  "ps_audio_loop old ft iTime frame_len src buf off =
     (if frame_len > 0 then do {
        let off = 0;
        let h = ps_pesheader_make (ps_pes_audio_init (old_pes old off)) frame_len ft iTime;
        buf \<leftarrow> mem_write buf off (PS_PESHEADER_bytes h);
        let off = off + 19;
        let n = pes_chunk frame_len;
        d \<leftarrow> mem_read src 0 n;
        buf \<leftarrow> mem_write buf off d;
        ps_audio_loop old ft iTime (frame_len - int n) (drop n src) buf (off + n)
      } else Some (buf, off))"
  by pat_completeness auto
termination
  by (relation "measure (\<lambda>(old, ft, t, frame_len, src, buf, off). nat frame_len)")
     (use pes_chunk_pos in force)+

declare ps_video_loop.simps [simp del] ps_audio_loop.simps [simp del]

text \<open>The pack header, and for a key frame the system header and the stream map.\<close>

definition ps_video_headers ::
  "ps_old \<Rightarrow> ES_FRAME_TYPE_E \<Rightarrow> u64 \<Rightarrow> bytes \<Rightarrow> (bytes \<times> nat) option" where
  "ps_video_headers old ft iTime buf = do {
     buf \<leftarrow> mem_write buf 0 (PS_PACKHEADER_bytes (ps_packheader_make iTime (old_pack old 0)));
     let off = 14;
     if ft = ES_FRAME_I then do {
       buf \<leftarrow> mem_write buf off (PS_SYSTEMHEADER_bytes (ps_systemheader_make (old_sys old off)));
       let off = off + 18;
       let m = ps_mapheader_video_make (old_map old off);
       let m = m\<lparr>mp_fill1 := htons 0x0A04, mp_fill2 := htons 0x656E, mp_fill3 := htons 0x6700\<rparr>;
       buf \<leftarrow> mem_write buf off (PS_MAPHEADER_bytes m);
       Some (buf, off + 30)
     } else Some (buf, off)
   }"

text \<open>
  The result: the return code, the frame state, the output buffer and \<open>*p_ps_data_len\<close>
  (\<open>len\<close> is what the caller had in it; the error branch leaves it alone).
\<close>

definition ps_process ::
  "ps_old \<Rightarrow> PS_FRAME_INFO \<Rightarrow> bytes \<Rightarrow> int \<Rightarrow> ES_FRAME_TYPE_E \<Rightarrow> bytes \<Rightarrow> nat \<Rightarrow> u64 \<Rightarrow> u64 \<Rightarrow>
     (int \<times> PS_FRAME_INFO \<times> bytes \<times> nat) option" where
  "ps_process old info src frame_len ft buf len iTime add_time =
     (if ft = ES_FRAME_I \<or> ft = ES_FRAME_P then do {
        (buf, off) \<leftarrow> ps_video_headers old ft iTime buf;
        (buf, off) \<leftarrow> ps_video_loop old ft iTime frame_len src buf off;
        Some (HB_SUCCESS, info, buf, off)
      }
      else if ft = ES_FRAME_AUDIO then do {
        (buf, off) \<leftarrow> ps_audio_loop old ft iTime frame_len src buf 0;
        Some (HB_SUCCESS, info\<lparr>aud_frame_number := aud_frame_number info + 1,
                               aud_timestamp := aud_timestamp info + 320\<rparr>, buf, off)
      }
      else Some (HB_FAILURE, info, buf, len))"

end
