(* ===== verification/PsSpec.thy ===== *)
theory PsSpec
  imports PsMux
begin

text \<open>
  A reference demultiplexer for program streams, and the correctness of the multiplexer of
  \<open>PsMux\<close> against it: what \<open>ps_process\<close> writes is a sequence of well-delimited units whose
  payloads are the frame and whose time stamps are the frame's.
\<close>

section \<open>Reference demultiplexer\<close>

text \<open>A 33-bit time stamp from its prefix byte and the following four bytes.\<close>

definition ts_value :: "nat \<Rightarrow> nat \<Rightarrow> nat" where
  "ts_value p v = (p div 2 mod 8) * 2 ^ 30 + (v div 2 ^ 17 mod 2 ^ 15) * 2 ^ 15 + v div 2 mod 2 ^ 15"

text \<open>The clock base in the six bytes after the pack start code.\<close>

definition scr_value :: "nat \<Rightarrow> nat" where
  "scr_value v = (v div 2 ^ 43 mod 8) * 2 ^ 30 + (v div 2 ^ 27 mod 2 ^ 15) * 2 ^ 15 +
                 v div 2 ^ 11 mod 2 ^ 15"

datatype ps_unit =
    Pack (unit_scr: nat)
  | System bytes
  | StreamMap bytes
  | Pes (unit_stream: nat) (unit_pts: nat) (unit_dts: nat) (unit_payload: bytes)

definition parse_pes_body :: "nat \<Rightarrow> bytes \<Rightarrow> ps_unit option" where
  "parse_pes_body sid b =
     (if length b < 13 \<or> unat (b ! 0) div 64 \<noteq> 2 \<or> unat (b ! 1) div 64 \<noteq> 3 \<or>
         unat (b ! 2) < 10 \<or> length b < 3 + unat (b ! 2) then None
      else Some (Pes sid (ts_value (unat (b ! 3)) (be_val (take 4 (drop 4 b))))
                         (ts_value (unat (b ! 8)) (be_val (take 4 (drop 9 b))))
                         (drop (3 + unat (b ! 2)) b)))"

definition parse_unit :: "bytes \<Rightarrow> (ps_unit \<times> bytes) option" where
  "parse_unit bs =
     (if length bs < 6 \<or> take 3 bs \<noteq> [0, 0, 1] then None
      else if bs ! 3 = 0xBA then
        (if length bs < 14 + unat (bs ! 13) mod 8 then None
         else Some (Pack (scr_value (be_val (take 6 (drop 4 bs)))),
                    drop (14 + unat (bs ! 13) mod 8) bs))
      else let n = be_val (take 2 (drop 4 bs)); body = take n (drop 6 bs); rest = drop (6 + n) bs
        in if length bs < 6 + n then None
           else if bs ! 3 = 0xBB then Some (System body, rest)
           else if bs ! 3 = 0xBC then Some (StreamMap body, rest)
           else map_option (\<lambda>u. (u, rest)) (parse_pes_body (unat (bs ! 3)) body))"

lemma parse_unit_shorter: "parse_unit bs = Some (u, rest) \<Longrightarrow> length rest < length bs"
  by (auto simp: parse_unit_def Let_def split: if_splits)

function ps_demux :: "bytes \<Rightarrow> ps_unit list option" where
  "ps_demux bs =
     (if bs = [] then Some []
      else case parse_unit bs of None \<Rightarrow> None
        | Some (u, rest) \<Rightarrow> map_option (Cons u) (ps_demux rest))"
  by pat_completeness auto
termination
  by (relation "measure length") (auto dest: parse_unit_shorter)

declare ps_demux.simps [simp del]

lemma ps_demux_Nil [simp]: "ps_demux [] = Some []"
  by (simp add: ps_demux.simps)

lemma ps_demux_unit:
  "parse_unit bs = Some (u, rest) \<Longrightarrow> ps_demux bs = map_option (Cons u) (ps_demux rest)"
  by (subst ps_demux.simps) (auto simp: parse_unit_def)

section \<open>Time stamps\<close>

lemma unat_ucast_take:
  fixes t :: u64
  assumes "n \<le> LENGTH('a)"
  shows "unat (ucast (take_bit n (drop_bit k t)) :: 'a :: len word) = unat t div 2 ^ k mod 2 ^ n"
proof -
  have "(2::nat) ^ n \<le> 2 ^ LENGTH('a)" using assms by (simp add: power_increasing)
  moreover have "unat t div 2 ^ k mod 2 ^ n < 2 ^ n" by simp
  ultimately have "unat t div 2 ^ k mod 2 ^ n < 2 ^ LENGTH('a)" by (rule less_le_trans [rotated])
  then show ?thesis
    by (simp add: unsigned_ucast_eq take_bit_eq_mod [where 'a = nat] unat_take_bit unat_drop_bit)
qed

lemmas unat_ucast_take0 = unat_ucast_take [where k = 0, simplified]

text \<open>The two accumulators of \<open>ps_pts\<close> and \<open>ps_dts\<close>.\<close>

lemma ts_prefix:
  fixes t :: u64
  assumes "c < 4"
  shows "unat (shift_in 1 (shift_in 3 (0 OR word_of_nat c) (ucast (drop_bit 30 t AND 0x7))) 1 :: u8)
           = c * 16 + (unat t div 2 ^ 30 mod 8) * 2 + 1"
proof -
  let ?x = "ucast (take_bit 3 (drop_bit 30 t)) :: u8"
  have x: "unat ?x = unat t div 2 ^ 30 mod 8"
    using unat_ucast_take [where 'a = 8, of 3 30 t] by simp
  then have x8: "unat ?x < 8" by simp
  have c: "unat (word_of_nat c :: u8) = c"
    using assms by (simp add: unat_of_nat)
  have s: "unat (shift_in 3 (word_of_nat c) ?x) = c * 8 + unat ?x"
    using assms x8 c by (subst unat_shift_in) simp_all
  have "unat (shift_in 1 (shift_in 3 (word_of_nat c) ?x) 1) = (c * 8 + unat ?x) * 2 + 1"
    using assms x8 s by (subst unat_shift_in) simp_all
  then show ?thesis
    by (simp only: mask_numerals or.left_neutral x) (simp add: algebra_simps)
qed

lemma ts_body:
  fixes t :: u64
  shows "unat (shift_in 1 (shift_in 15 (shift_in 1 (shift_in 15 0 (ucast (drop_bit 15 t AND 0x7FFF)))
             1) (ucast (t AND 0x7FFF))) 1 :: u32)
         = (unat t div 2 ^ 15 mod 2 ^ 15) * 2 ^ 17 + 2 ^ 16 + (unat t mod 2 ^ 15) * 2 + 1"
proof -
  let ?x = "ucast (take_bit 15 (drop_bit 15 t)) :: u32"
  let ?y = "ucast (take_bit 15 t) :: u32"
  have x: "unat ?x = unat t div 2 ^ 15 mod 2 ^ 15"
    using unat_ucast_take [where 'a = 32, of 15 15 t] by simp
  have y: "unat ?y = unat t mod 2 ^ 15"
    using unat_ucast_take0 [where 'a = 32, of 15 t] by simp
  have b: "unat ?x < 32768" "unat ?y < 32768" using x y by simp_all
  have 1: "unat (shift_in 15 0 ?x) = unat ?x"
    using b by (subst unat_shift_in) simp_all
  have 2: "unat (shift_in 1 (shift_in 15 0 ?x) 1) = unat ?x * 2 + 1"
    using b 1 by (subst unat_shift_in) simp_all
  have 3: "unat (shift_in 15 (shift_in 1 (shift_in 15 0 ?x) 1) ?y) = (unat ?x * 2 + 1) * 32768 + unat ?y"
    using b 2 by (subst unat_shift_in) simp_all
  have "unat (shift_in 1 (shift_in 15 (shift_in 1 (shift_in 15 0 ?x) 1) ?y) 1)
      = ((unat ?x * 2 + 1) * 32768 + unat ?y) * 2 + 1"
    using b 3 by (subst unat_shift_in) simp_all
  then show ?thesis
    by (simp only: mask_numerals x y) (simp add: algebra_simps)
qed

lemma ts_value_fields:
  assumes "c < 16" and "a < 8" and "x < 2 ^ 15" and "y < 2 ^ 15"
  shows "ts_value (c * 16 + a * 2 + 1) (x * 2 ^ 17 + 2 ^ 16 + y * 2 + 1) = a * 2 ^ 30 + x * 2 ^ 15 + y"
proof -
  let ?v = "x * 131072 + 65536 + y * 2 + 1"
  have "(c * 16 + a * 2 + 1) div 2 = a + c * 8"
    by (rule div_nat_eqI) simp_all
  then have A: "(c * 16 + a * 2 + 1) div 2 mod 8 = a"
    using assms by (simp only: mod_mult_self1 mod_less)
  have "?v div 131072 = x"
    by (rule div_nat_eqI) (use assms in simp_all)
  then have X: "?v div 131072 mod 32768 = x" using assms by simp
  have "?v div 2 = y + (2 * x + 1) * 32768"
    by (rule div_nat_eqI) simp_all
  then have Y: "?v div 2 mod 32768 = y"
    using assms by (simp only: mod_mult_self1) simp
  show ?thesis
    using A X Y by (simp add: ts_value_def)
qed

lemma split33:
  "(n div 2 ^ 30 mod 8) * 2 ^ 30 + (n div 2 ^ 15 mod 2 ^ 15) * 2 ^ 15 + n mod 2 ^ 15 = n mod 2 ^ 33"
  for n :: nat
proof -
  have "n mod 2 ^ 33 = 2 ^ 30 * (n div 2 ^ 30 mod 2 ^ 3) + n mod 2 ^ 30"
    using mod_mult2_eq [of n "2 ^ 30" "2 ^ 3"] by simp
  moreover have "n mod 2 ^ 30 = 2 ^ 15 * (n div 2 ^ 15 mod 2 ^ 15) + n mod 2 ^ 15"
    using mod_mult2_eq [of n "2 ^ 15" "2 ^ 15"] by simp
  ultimately show ?thesis by simp
qed

lemma ps_pts_value:
  "ts_value (unat (fst (ps_pts t))) (unat (snd (ps_pts t))) = unat t mod 2 ^ 33"
  using ts_prefix [of 3 t] ts_body [of t]
  by (simp only: ps_pts_def Let_def fst_conv snd_conv of_nat_numeral)
     (subst ts_value_fields, simp_all add: split33 [simplified])

lemma ps_dts_value:
  "ts_value (unat (fst (ps_dts t))) (unat (snd (ps_dts t))) = unat t mod 2 ^ 33"
  using ts_prefix [of 1 t] ts_body [of t]
  by (simp only: ps_dts_def Let_def fst_conv snd_conv of_nat_1)
     (subst ts_value_fields, simp_all add: split33 [simplified])

section \<open>The units the header writers produce\<close>

text \<open>The three half words of the clock reference.\<close>

definition scr1 :: "u64 \<Rightarrow> u16" where
  "scr1 t = shift_in 10 (shift_in 1 (shift_in 3 (0 OR 1) (ucast (drop_bit 30 t AND 0x07))) 1)
              (ucast (drop_bit 20 t AND 0x03FF))"

definition scr2 :: "u64 \<Rightarrow> u16" where
  "scr2 t = shift_in 10 (shift_in 1 (0 OR ucast (drop_bit 15 t AND 0x1F)) 1)
              (ucast (drop_bit 5 t AND 0x03FF))"

definition scr3 :: "u64 \<Rightarrow> u16" where
  "scr3 t = shift_in 10 (shift_in 1 (0 OR ucast (t AND 0x1F)) 1) 1"

lemma unat_scr1:
  "unat (scr1 t) = ((8 + unat t div 2 ^ 30 mod 8) * 2 + 1) * 1024 + unat t div 2 ^ 20 mod 1024"
proof -
  let ?x = "ucast (take_bit 3 (drop_bit 30 t)) :: u16"
  let ?y = "ucast (take_bit 10 (drop_bit 20 t)) :: u16"
  have x: "unat ?x = unat t div 2 ^ 30 mod 8"
    using unat_ucast_take [where 'a = 16, of 3 30 t] by simp
  have y: "unat ?y = unat t div 2 ^ 20 mod 1024"
    using unat_ucast_take [where 'a = 16, of 10 20 t] by simp
  have b: "unat ?x < 8" "unat ?y < 1024" using x y by simp_all
  have 1: "unat (shift_in 3 1 ?x) = 8 + unat ?x"
    using b by (subst unat_shift_in) simp_all
  have 2: "unat (shift_in 1 (shift_in 3 1 ?x) 1) = (8 + unat ?x) * 2 + 1"
    using b 1 by (subst unat_shift_in) simp_all
  have "unat (shift_in 10 (shift_in 1 (shift_in 3 1 ?x) 1) ?y) = ((8 + unat ?x) * 2 + 1) * 1024 + unat ?y"
    using b 2 by (subst unat_shift_in) simp_all
  then show ?thesis by (simp only: scr1_def mask_numerals x y or.left_neutral)
qed

lemma unat_scr2:
  "unat (scr2 t) = ((unat t div 2 ^ 15 mod 32) * 2 + 1) * 1024 + unat t div 2 ^ 5 mod 1024"
proof -
  let ?x = "ucast (take_bit 5 (drop_bit 15 t)) :: u16"
  let ?y = "ucast (take_bit 10 (drop_bit 5 t)) :: u16"
  have x: "unat ?x = unat t div 2 ^ 15 mod 32"
    using unat_ucast_take [where 'a = 16, of 5 15 t] by simp
  have y: "unat ?y = unat t div 2 ^ 5 mod 1024"
    using unat_ucast_take [where 'a = 16, of 10 5 t] by simp
  have b: "unat ?x < 32" "unat ?y < 1024" using x y by simp_all
  have 2: "unat (shift_in 1 ?x 1) = unat ?x * 2 + 1"
    using b by (subst unat_shift_in) simp_all
  have "unat (shift_in 10 (shift_in 1 ?x 1) ?y) = (unat ?x * 2 + 1) * 1024 + unat ?y"
    using b 2 by (subst unat_shift_in) simp_all
  then show ?thesis by (simp only: scr2_def mask_numerals x y or.left_neutral)
qed

lemma unat_scr3: "unat (scr3 t) = ((unat t mod 32) * 2 + 1) * 1024 + 1"
proof -
  let ?x = "ucast (take_bit 5 t) :: u16"
  have x: "unat ?x = unat t mod 32"
    using unat_ucast_take0 [where 'a = 16, of 5 t] by simp
  have b: "unat ?x < 32" using x by simp
  have 2: "unat (shift_in 1 ?x 1) = unat ?x * 2 + 1"
    using b by (subst unat_shift_in) simp_all
  have "unat (shift_in 10 (shift_in 1 ?x 1) 1) = (unat ?x * 2 + 1) * 1024 + 1"
    using b 2 by (subst unat_shift_in) simp_all
  then show ?thesis by (simp only: scr3_def mask_numerals x or.left_neutral)
qed

lemma packheader_layout:
  "PS_PACKHEADER_bytes (ps_packheader_make t h) =
     [0, 0, 1, 0xBA] @ (be16 (scr1 t) @ be16 (scr2 t) @ be16 (scr3 t)) @ [1, 0x99, 0x9F, 0xF8]"
  by (simp only: PS_PACKHEADER_bytes_def ps_packheader_make_def Let_def scr1_def scr2_def scr3_def)
     (simp add: layout be16_def be32_def)

lemma scr_value_fields:
  assumes "a < 8" "b < 1024" "c < 32" "d < 1024" "e < 32"
  shows "scr_value ((((8 + a) * 2 + 1) * 1024 + b) * 2 ^ 32 + ((c * 2 + 1) * 1024 + d) * 2 ^ 16 +
           ((e * 2 + 1) * 1024 + 1)) = a * 2 ^ 30 + (b * 32 + c) * 2 ^ 15 + (d * 32 + e)"
proof -
  let ?v = "(((8 + a) * 2 + 1) * 1024 + b) * 4294967296 + ((c * 2 + 1) * 1024 + d) * 65536 +
           ((e * 2 + 1) * 1024 + 1)"
  have "?v div 8796093022208 = a + 8"
    by (rule div_nat_eqI) (use assms in simp_all)
  then have A: "?v div 8796093022208 mod 8 = a" using assms by simp
  have "?v div 134217728 = (b * 32 + c) + ((8 + a) * 2 + 1) * 32768"
    by (rule div_nat_eqI) (use assms in simp_all)
  then have B: "?v div 134217728 mod 32768 = b * 32 + c"
    using assms by (simp only: mod_mult_self1) simp
  have "?v div 2048 = (d * 32 + e) + (((8 + a) * 2 + 1) * 65536 + b * 64 + c * 2 + 1) * 32768"
    by (rule div_nat_eqI) (use assms in simp_all)
  then have C: "?v div 2048 mod 32768 = d * 32 + e"
    using assms by (simp only: mod_mult_self1) simp
  show ?thesis using A B C by (simp add: scr_value_def)
qed

lemma packheader_scr:
  "scr_value (be_val (be16 (scr1 t) @ be16 (scr2 t) @ be16 (scr3 t))) = unat t mod 2 ^ 33"
proof -
  let ?n = "unat t"
  have 1: "?n div 2 ^ 15 mod 2 ^ 15 = (?n div 2 ^ 20 mod 1024) * 32 + ?n div 2 ^ 15 mod 32"
    using mod_mult2_eq [of "?n div 2 ^ 15" 32 1024] by (simp add: div_mult2_eq [symmetric])
  have 2: "?n mod 2 ^ 15 = (?n div 2 ^ 5 mod 1024) * 32 + ?n mod 32"
    using mod_mult2_eq [of ?n 32 1024] by simp
  have "be_val (be16 (scr1 t) @ be16 (scr2 t) @ be16 (scr3 t)) =
      unat (scr1 t) * 2 ^ 32 + unat (scr2 t) * 2 ^ 16 + unat (scr3 t)"
    by (simp add: be_val_append)
  then show ?thesis
    using split33 [of ?n] unfolding 1 2 unat_scr1 unat_scr2 unat_scr3
    by (simp only:) (subst scr_value_fields, simp_all)
qed

lemma parse_pack_unit:
  "parse_unit (PS_PACKHEADER_bytes (ps_packheader_make t h) @ rest) = Some (Pack (unat t mod 2 ^ 33), rest)"
proof -
  let ?s = "be16 (scr1 t) @ be16 (scr2 t) @ be16 (scr3 t)"
  have "take 6 (?s @ xs) = ?s" for xs by simp
  then show ?thesis
    by (simp add: packheader_layout parse_unit_def nth_append packheader_scr [simplified])
qed

text \<open>A unit with a length field.\<close>

lemma parse_unit_sized:
  assumes "take 3 bs = [0, 0, 1]" and "bs ! 3 = sid" and "sid \<noteq> 0xBA"
    and "be_val (take 2 (drop 4 bs)) = length body" and "drop 6 bs = body @ rest"
    and "length bs = 6 + length body + length rest"
  shows "parse_unit bs =
    (if sid = 0xBB then Some (System body, rest) else if sid = 0xBC then Some (StreamMap body, rest)
     else map_option (\<lambda>u. (u, rest)) (parse_pes_body (unat sid) body))"
proof -
  have "drop (6 + length body) bs = drop (length body) (drop 6 bs)"
    by (simp add: add.commute)
  then have "drop (6 + length body) bs = rest"
    using assms(5) by simp
  then show ?thesis
    using assms by (simp add: parse_unit_def Let_def)
qed

lemma parse_sized_unit:
  assumes "length body = unat w" and "sid \<noteq> 0xBA"
  shows "parse_unit ([0, 0, 1, sid] @ be16 w @ body @ rest) =
    (if sid = 0xBB then Some (System body, rest) else if sid = 0xBC then Some (StreamMap body, rest)
     else map_option (\<lambda>u. (u, rest)) (parse_pes_body (unat sid) body))"
proof -
  have "be_val (take 2 (drop 4 ([0, 0, 1, sid] @ be16 w @ body @ rest))) = length body"
    using assms(1) by simp
  then show ?thesis
    by (intro parse_unit_sized) (use assms in \<open>simp_all add: be16_def\<close>)
qed

definition system_body :: bytes where
  "system_body = [0x80, 0xCC, 0xF5, 4, 0xE1, 0x7F, 0xE0, 0xE0, 0xE8, 0xC0, 0xC0, 0x20]"

definition map_body :: bytes where
  "map_body = [0xE1, 0xFF, 0, 0, 0, 8, 0x1B, 0xE0, 0, 6, 0x0A, 4, 0x65, 0x6E, 0x67, 0,
               0x90, 0xC0, 0, 0, 0x2E, 0xB9, 0x0F, 0x3D]"

abbreviation "map_filled m \<equiv>
  (ps_mapheader_video_make m)\<lparr>mp_fill1 := htons 0x0A04, mp_fill2 := htons 0x656E, mp_fill3 := htons 0x6700\<rparr>"

lemma system_layout:
  "PS_SYSTEMHEADER_bytes (ps_systemheader_make h) = [0, 0, 1, 0xBB] @ be16 12 @ system_body"
  by (simp only: PS_SYSTEMHEADER_bytes_def ps_systemheader_make_def system_body_def)
     (simp add: layout be16_def be32_def)

lemma map_layout:
  "PS_MAPHEADER_bytes (map_filled h) = [0, 0, 1, 0xBC] @ be16 24 @ map_body"
  by (simp only: PS_MAPHEADER_bytes_def ps_mapheader_video_make_def map_body_def)
     (simp add: layout be16_def be32_def VIDEO_STREAM_def AUDIO_STREAM_def)

lemma parse_system_unit:
  "parse_unit (PS_SYSTEMHEADER_bytes (ps_systemheader_make h) @ rest) = Some (System system_body, rest)"
  using parse_sized_unit [where body = system_body and w = 12 and sid = "0xBB" and rest = rest]
  by (simp add: system_layout system_body_def)

lemma parse_map_unit:
  "parse_unit (PS_MAPHEADER_bytes (map_filled h) @ rest) = Some (StreamMap map_body, rest)"
  using parse_sized_unit [where body = map_body and w = 24 and sid = "0xBC" and rest = rest]
  by (simp only: map_layout) (simp add: map_body_def)

text \<open>A PES packet. \<open>pes_ppl\<close> is the length field, \<open>pes_time\<close> the time that reaches it.\<close>

definition pes_ppl :: "int \<Rightarrow> u16" where
  "pes_ppl n = (if n > MAX_PES_PACKET_LENGTH then 0xFFFF else word_of_int (n + PS_PES_PPL_LENGTH))"

definition pes_time :: "u64 \<Rightarrow> u64" where
  "pes_time t = ucast (ucast t :: u32)"

lemma unat_pes_time: "unat (pes_time t) = unat t mod 2 ^ 32"
proof -
  have "unat t mod 2 ^ 32 < 2 ^ 64" by (rule less_trans [of _ "2 ^ 32"]) simp_all
  then show ?thesis
    by (simp add: pes_time_def unsigned_ucast_eq take_bit_eq_mod [where 'a = nat] unat_take_bit)
qed

lemma unat_pes_ppl: "0 \<le> n \<Longrightarrow> unat (pes_ppl n) = pes_chunk n + 13"
proof -
  assume n: "0 \<le> n"
  show ?thesis
  proof (cases "n > MAX_PES_PACKET_LENGTH")
    case True
    then show ?thesis
      by (simp add: pes_ppl_def pes_chunk_def MAX_PES_PACKET_LENGTH_def PS_PES_PPL_LENGTH_def)
  next
    case False
    then have "pes_ppl n = word_of_nat (nat n + 13)" and b: "nat n + 13 < 65536"
      using n by (simp_all add: pes_ppl_def MAX_PES_PACKET_LENGTH_def PS_PES_PPL_LENGTH_def)
    then have "unat (pes_ppl n) = nat n + 13"
      by (simp only: unat_of_nat take_bit_eq_mod) simp
    then show ?thesis using False n by (simp add: pes_chunk_def)
  qed
qed

definition pes_fields :: "u64 \<Rightarrow> bytes" where
  "pes_fields t = [0x84, 0xC0, 10, fst (ps_pts t)] @ be32 (snd (ps_pts t)) @ [fst (ps_dts t)] @
                  be32 (snd (ps_dts t))"

lemma length_pes_fields [simp, size_facts]: "length (pes_fields t) = 13"
  by (simp add: pes_fields_def)

definition listed :: "ES_FRAME_TYPE_E \<Rightarrow> bool" where
  "listed ft \<longleftrightarrow> ft = ES_FRAME_I \<or> ft = ES_FRAME_P \<or> ft = ES_FRAME_AUDIO"

lemma le16_zero: "le16 0 = [0, 0]"
  by (simp add: le16_def)

lemma pes_video_layout:
  "listed ft \<Longrightarrow> PS_PESHEADER_bytes (ps_pesheader_make (ps_pes_video_init h) n ft t) =
     [0, 0, 1, 0xE0] @ be16 (pes_ppl n) @ pes_fields (pes_time t)"
  by (auto simp: ps_pesheader_make_def listed_def Let_def split_beta pes_ppl_def pes_time_def
      pes_fields_def PS_PESHEADER_bytes_def PS_PESHEADER_flags1_def PS_PESHEADER_flags2_def
      ps_pes_video_init_def VIDEO_STREAM_def layout le16_zero)

lemma pes_audio_layout:
  "listed ft \<Longrightarrow> PS_PESHEADER_bytes (ps_pesheader_make (ps_pes_audio_init h) n ft t) =
     [0, 0, 1, 0xC0] @ be16 (pes_ppl n) @ pes_fields (pes_time t)"
  by (auto simp: ps_pesheader_make_def listed_def Let_def split_beta pes_ppl_def pes_time_def
      pes_fields_def PS_PESHEADER_bytes_def PS_PESHEADER_flags1_def PS_PESHEADER_flags2_def
      ps_pes_audio_init_def AUDIO_STREAM_def layout le16_zero)

lemma parse_pes_fields:
  "parse_pes_body sid (pes_fields t @ payload) =
     Some (Pes sid (unat t mod 2 ^ 33) (unat t mod 2 ^ 33) payload)"
proof -
  have "ts_value (unat (fst (ps_pts t))) (be_val (be32 (snd (ps_pts t)))) = unat t mod 2 ^ 33"
    "ts_value (unat (fst (ps_dts t))) (be_val (be32 (snd (ps_dts t)))) = unat t mod 2 ^ 33"
    by (simp_all only: be_val_be32 ps_pts_value ps_dts_value)
  then show ?thesis
    by (simp add: parse_pes_body_def pes_fields_def nth_append del: be_val_be32)
qed

lemma parse_pes_unit:
  assumes "sid = 0xE0 \<or> sid = 0xC0" and "0 \<le> n" and "length payload = pes_chunk n"
  shows "parse_unit ([0, 0, 1, sid] @ be16 (pes_ppl n) @ (pes_fields (pes_time t) @ payload) @ rest) =
    Some (Pes (unat sid) (unat t mod 2 ^ 32) (unat t mod 2 ^ 32) payload, rest)"
proof -
  have "unat (pes_time t) mod 2 ^ 33 = unat t mod 2 ^ 32"
    unfolding unat_pes_time by (rule mod_less) (rule less_trans [of _ "2 ^ 32"], simp_all)
  moreover have "length (pes_fields (pes_time t) @ payload) = unat (pes_ppl n)"
    using assms by (simp add: unat_pes_ppl)
  ultimately show ?thesis
    using assms(1) by (subst parse_sized_unit) (auto simp: parse_pes_fields)
qed

section \<open>The stream as a list of bytes\<close>

text \<open>The frame cut into the payloads of its PES packets, and the packets that carry them.\<close>

function payload_chunks :: "bytes \<Rightarrow> bytes list" where
  "payload_chunks d = (if d = [] then [] else take 65522 d # payload_chunks (drop 65522 d))"
  by pat_completeness auto
termination by (relation "measure length") auto

declare payload_chunks.simps [simp del]

lemma payload_chunks_Nil [simp]: "payload_chunks [] = []"
  by (simp add: payload_chunks.simps)

lemma payload_chunks_Cons:
  "d \<noteq> [] \<Longrightarrow> payload_chunks d = take 65522 d # payload_chunks (drop 65522 d)"
  by (subst payload_chunks.simps) simp

lemma concat_payload_chunks: "concat (payload_chunks d) = d"
  by (induction d rule: payload_chunks.induct) (subst payload_chunks.simps, simp)

lemma payload_chunks_sizes: "c \<in> set (payload_chunks d) \<Longrightarrow> 0 < length c \<and> length c \<le> 65522"
  by (induction d rule: payload_chunks.induct)
     (subst (asm) payload_chunks.simps, auto split: if_splits)

lemma length_payload_chunks: "length (payload_chunks d) = (length d + 65521) div 65522"
proof (induction d rule: payload_chunks.induct)
  case (1 d)
  show ?case
  proof (cases "d = []")
    case False
    then have "(length d + 65521) div 65522 = Suc ((length d - 65522 + 65521) div 65522)"
    proof (cases "65522 \<le> length d")
      case True
      then show ?thesis by (simp add: le_div_geq)
    next
      case False
      then have "(length d + 65521) div 65522 = 1"
        using \<open>d \<noteq> []\<close> by (intro div_nat_eqI) (simp_all add: Suc_le_eq)
      then show ?thesis using False by simp
    qed
    then show ?thesis using 1 False by (simp add: payload_chunks_Cons)
  qed simp
qed

fun pes_stream :: "u8 \<Rightarrow> u64 \<Rightarrow> bytes list \<Rightarrow> bytes" where
  "pes_stream sid t [] = []"
| "pes_stream sid t (c # cs) =
     ([0, 0, 1, sid] @ be16 (pes_ppl (int (length (concat (c # cs))))) @ pes_fields (pes_time t)) @
     c @ pes_stream sid t cs"

lemma length_pes_stream: "length (pes_stream sid t cs) = 19 * length cs + length (concat cs)"
  by (induction cs) simp_all

lemma pes_chunk_length: "pes_chunk (int (length d)) = length (take 65522 d)"
  by (simp add: pes_chunk_def MAX_PES_PACKET_LENGTH_def PS_PES_PPL_LENGTH_def)

lemma pes_stream_Cons:
  "d \<noteq> [] \<Longrightarrow> pes_stream sid t (payload_chunks d) =
     ([0, 0, 1, sid] @ be16 (pes_ppl (int (length d))) @ pes_fields (pes_time t)) @
     take 65522 d @ pes_stream sid t (payload_chunks (drop 65522 d))"
  by (simp add: payload_chunks_Cons concat_payload_chunks del: append_assoc)

lemma ps_video_loop_stream:
  assumes "listed ft" and "off \<le> length buf"
  shows "ps_video_loop old ft t (int (length d)) (d @ x) buf off =
    map_option (\<lambda>b. (b, off + length (pes_stream 0xE0 t (payload_chunks d))))
      (mem_write buf off (pes_stream 0xE0 t (payload_chunks d)))"
  using assms(2)
proof (induction d arbitrary: buf off rule: payload_chunks.induct)
  case (1 d)
  show ?case
  proof (cases "d = []")
    case True
    then show ?thesis
      using 1(2) by (subst ps_video_loop.simps) (simp add: mem_write_def)
  next
    case False
    let ?H = "[0, 0, 1, 0xE0] @ be16 (pes_ppl (int (length d))) @ pes_fields (pes_time t)"
    let ?S = "pes_stream 0xE0 t (payload_chunks (drop 65522 d))"
    have n: "int (length d) - int (length (take 65522 d)) = int (length (drop 65522 d))"
      by simp
    have r: "mem_read (d @ x) 0 (length (take 65522 d)) = Some (take 65522 d)"
      by (simp add: mem_read_def min_def)
    have dr: "drop (length (take 65522 d)) (d @ x) = drop 65522 d @ x"
      by (simp add: min_def)
    have H: "length ?H = 19" by simp
    have step: "ps_video_loop old ft t (int (length d)) (d @ x) buf off =
      Option.bind (mem_write buf off ?H) (\<lambda>b. Option.bind (mem_write b (off + 19) (take 65522 d))
        (\<lambda>b. ps_video_loop old ft t (int (length (drop 65522 d))) (drop 65522 d @ x) b
               (off + 19 + length (take 65522 d))))"
      using False
      by (subst ps_video_loop.simps)
         (simp only: Let_def pes_video_layout [OF assms(1)] pes_chunk_length n r dr bind.bind_lunit
           length_greater_0_conv of_nat_0_less_iff if_True not_False_eq_True simp_thms)
    have IH: "off + 19 + length (take 65522 d) \<le> length b \<Longrightarrow>
      ps_video_loop old ft t (int (length (drop 65522 d))) (drop 65522 d @ x) b
               (off + 19 + length (take 65522 d)) =
      map_option (\<lambda>b. (b, off + length (?H @ take 65522 d @ ?S)))
         (mem_write b (off + 19 + length (take 65522 d)) ?S)" for b
      using 1(1) [OF False, of "off + 19 + length (take 65522 d)" b] by (simp add: add.assoc)
    show ?thesis
      unfolding pes_stream_Cons [OF False] step
      by (rule mem_write_step, simp only: H, rule mem_write_step, rule IH, simp only: H)
  qed
qed

section \<open>The whole output\<close>

definition pack0 :: PS_PACKHEADER where
  "pack0 = \<lparr>pk_psc = 0, pk_scrb1 = 0, pk_scrb2 = 0, pk_scre = 0, pk_pmr = 0, pk_mb = 0, pk_psl = 0, pk_res = 0\<rparr>"

definition ps_headers :: "ES_FRAME_TYPE_E \<Rightarrow> u64 \<Rightarrow> bytes" where
  "ps_headers ft t =
     PS_PACKHEADER_bytes (ps_packheader_make t pack0) @
     (if ft = ES_FRAME_I then ([0, 0, 1, 0xBB] @ be16 12 @ system_body) @ [0, 0, 1, 0xBC] @ be16 24 @ map_body
      else [])"

lemma length_bodies [simp, size_facts]: "length system_body = 12" "length map_body = 24"
  by (simp_all add: system_body_def map_body_def)

lemma packheader_old: "PS_PACKHEADER_bytes (ps_packheader_make t h) = PS_PACKHEADER_bytes (ps_packheader_make t h')"
  by (simp only: packheader_layout)

lemma length_ps_headers: "length (ps_headers ft t) = (if ft = ES_FRAME_I then 62 else 14)"
  by (simp add: ps_headers_def)

lemma bind_Some_pair: "Option.bind x (\<lambda>b. Some (b, k)) = map_option (\<lambda>b. (b, k)) x"
  by (cases x) simp_all

lemma ps_video_headers_stream:
  "ps_video_headers old ft t buf =
     map_option (\<lambda>b. (b, length (ps_headers ft t))) (mem_write buf 0 (ps_headers ft t))"
proof (cases "ft = ES_FRAME_I")
  case True
  have p: "length (PS_PACKHEADER_bytes (ps_packheader_make t pack0)) = 14"
    and q: "length ([0, 0, 1, 0xBB] @ be16 12 @ system_body) = 18" by simp_all
  show ?thesis
    unfolding ps_video_headers_def Let_def system_layout map_layout
      packheader_old [of t "old_pack old 0" pack0] length_ps_headers
    using True
    by (simp only: if_True ps_headers_def simp_thms)
       (rule mem_write_step, simp only: p add_0, rule mem_write_step, simp only: q, simp add: bind_Some_pair)
next
  case False
  show ?thesis
    unfolding ps_video_headers_def Let_def packheader_old [of t "old_pack old 0" pack0] length_ps_headers
    using False by (cases "mem_write buf 0 (ps_headers ft t)") (simp_all add: ps_headers_def)
qed

definition ps_video_stream :: "ES_FRAME_TYPE_E \<Rightarrow> u64 \<Rightarrow> bytes \<Rightarrow> bytes" where
  "ps_video_stream ft t d = ps_headers ft t @ pes_stream 0xE0 t (payload_chunks d)"

lemma length_ps_video_stream:
  "length (ps_video_stream ft t d) =
     (if ft = ES_FRAME_I then 62 else 14) + 19 * ((length d + 65521) div 65522) + length d"
  by (simp add: ps_video_stream_def length_ps_headers length_pes_stream length_payload_chunks
      concat_payload_chunks)

lemma ps_process_video_stream:
  assumes "ft = ES_FRAME_I \<or> ft = ES_FRAME_P"
  shows "ps_process old info (d @ x) (int (length d)) ft buf len t add =
    map_option (\<lambda>b. (HB_SUCCESS, info, b, length (ps_video_stream ft t d)))
      (mem_write buf 0 (ps_video_stream ft t d))"
proof -
  let ?H = "ps_headers ft t" and ?S = "pes_stream 0xE0 t (payload_chunks d)"
  have l: "listed ft" using assms by (auto simp: listed_def)
  have loop: "Option.bind (ps_video_loop old ft t (int (length d)) (d @ x) b (0 + length ?H))
      (\<lambda>(b, off). Some (HB_SUCCESS, info, b, off)) =
      map_option (\<lambda>b. (HB_SUCCESS, info, b, length (?H @ ?S))) (mem_write b (0 + length ?H) ?S)"
    if "0 + length ?H \<le> length b" for b
    using that by (simp add: ps_video_loop_stream [OF l]) (simp add: map_option_case split: option.split)
  have "ps_process old info (d @ x) (int (length d)) ft buf len t add =
    Option.bind (mem_write buf 0 ?H) (\<lambda>b.
      Option.bind (ps_video_loop old ft t (int (length d)) (d @ x) b (0 + length ?H))
      (\<lambda>(b, off). Some (HB_SUCCESS, info, b, off)))"
    using assms by (cases "mem_write buf 0 ?H") (auto simp: ps_process_def ps_video_headers_stream)
  then show ?thesis
    by (simp only: ps_video_stream_def) (rule mem_write_step, rule loop)
qed

lemma demux_pes_stream:
  assumes "sid = 0xE0 \<or> sid = 0xC0"
  shows "ps_demux (pes_stream sid t (payload_chunks d)) =
    Some (map (Pes (unat sid) (unat t mod 2 ^ 32) (unat t mod 2 ^ 32)) (payload_chunks d))"
proof (induction d rule: payload_chunks.induct)
  case (1 d)
  show ?case
  proof (cases "d = []")
    case False
    have "parse_unit (pes_stream sid t (payload_chunks d)) =
      Some (Pes (unat sid) (unat t mod 2 ^ 32) (unat t mod 2 ^ 32) (take 65522 d),
        pes_stream sid t (payload_chunks (drop 65522 d)))"
      unfolding pes_stream_Cons [OF False]
      using parse_pes_unit [OF assms, of "int (length d)" "take 65522 d"]
      by (simp add: pes_chunk_length)
    then show ?thesis
      using 1 False by (simp add: ps_demux_unit payload_chunks_Cons)
  qed simp
qed

definition header_units :: "ES_FRAME_TYPE_E \<Rightarrow> u64 \<Rightarrow> ps_unit list" where
  "header_units ft t = Pack (unat t mod 2 ^ 33) #
     (if ft = ES_FRAME_I then [System system_body, StreamMap map_body] else [])"

lemma demux_headers:
  "ps_demux (ps_headers ft t @ rest) = map_option ((@) (header_units ft t)) (ps_demux rest)"
proof -
  have s: "parse_unit (([0, 0, 1, 0xBB] @ be16 12 @ system_body) @ r) = Some (System system_body, r)" for r
    using parse_system_unit [of undefined r] by (simp only: system_layout)
  have m: "parse_unit (([0, 0, 1, 0xBC] @ be16 24 @ map_body) @ r) = Some (StreamMap map_body, r)" for r
    using parse_map_unit [of undefined r] by (simp only: map_layout)
  show ?thesis
  proof (cases "ft = ES_FRAME_I")
    case True
    then have "ps_headers ft t @ rest = PS_PACKHEADER_bytes (ps_packheader_make t pack0) @
        (([0, 0, 1, 0xBB] @ be16 12 @ system_body) @ (([0, 0, 1, 0xBC] @ be16 24 @ map_body) @ rest))"
      by (simp add: ps_headers_def)
    then show ?thesis
      using True
      by (simp only: ps_demux_unit [OF parse_pack_unit] ps_demux_unit [OF s] ps_demux_unit [OF m])
         (cases "ps_demux rest"; simp add: header_units_def)
  next
    case False
    then show ?thesis
      by (cases "ps_demux rest"; simp add: ps_headers_def header_units_def ps_demux_unit [OF parse_pack_unit])
  qed
qed

lemma demux_video_stream:
  "ps_demux (ps_video_stream ft t d) =
     Some (header_units ft t @ map (Pes 0xE0 (unat t mod 2 ^ 32) (unat t mod 2 ^ 32)) (payload_chunks d))"
  using demux_pes_stream [of "0xE0" t d] by (simp add: ps_video_stream_def demux_headers)

section \<open>Audio frames\<close>

lemma ps_audio_loop_last:
  assumes "listed ft" and "d \<noteq> []" and "19 + min 65522 (length d) \<le> length buf"
  shows "\<exists>buf'. ps_audio_loop old ft t (int (length d)) (d @ x) buf off =
      Some (buf', 19 + length (last (payload_chunks d))) \<and> length buf' = length buf \<and>
    take (19 + length (last (payload_chunks d))) buf' =
      pes_stream 0xC0 t (payload_chunks (last (payload_chunks d)))"
  using assms(2,3)
proof (induction d arbitrary: buf off rule: payload_chunks.induct)
  case (1 d)
  let ?H = "[0, 0, 1, 0xC0] @ be16 (pes_ppl (int (length d))) @ pes_fields (pes_time t)"
  let ?c = "take 65522 d" and ?d = "drop 65522 d"
  have n: "int (length d) - int (length ?c) = int (length ?d)" by simp
  have r: "mem_read (d @ x) 0 (length ?c) = Some ?c" by (simp add: mem_read_def min_def)
  have dr: "drop (length ?c) (d @ x) = ?d @ x" by (simp add: min_def)
  have H: "length ?H = 19" by simp
  have "Option.bind (mem_write buf 0 ?H) (\<lambda>b. mem_write b (0 + 19) ?c) = mem_write buf 0 (?H @ ?c)"
    by (simp only: mem_write_append H add_0)
  moreover obtain b where b: "mem_write buf 0 (?H @ ?c) = Some b"
    using 1(3) mem_write_defined [of buf 0 "?H @ ?c"] H by (auto simp: min.commute)
  ultimately have w: "Option.bind (mem_write buf 0 ?H) (\<lambda>b. Option.bind (mem_write b (0 + 19) ?c) f) = f b"
    for f :: "bytes \<Rightarrow> (bytes \<times> nat) option"
    by (simp only: Option.bind_assoc [symmetric] Option.bind.simps)
  have step: "ps_audio_loop old ft t (int (length d)) (d @ x) buf off =
      ps_audio_loop old ft t (int (length ?d)) (?d @ x) b (0 + 19 + length ?c)"
    using 1(2)
    by (subst ps_audio_loop.simps)
       (simp only: Let_def pes_audio_layout [OF assms(1)] pes_chunk_length n r dr bind.bind_lunit
          length_greater_0_conv of_nat_0_less_iff if_True not_False_eq_True simp_thms w)
  have lb: "length b = length buf" and tb: "take (length (?H @ ?c)) b = ?H @ ?c"
    using mem_write_length [OF b] mem_write_take [OF b] by simp_all
  show ?case
  proof (cases "?d = []")
    case True
    then have "payload_chunks d = [d]" and c: "?c = d"
      using 1(2) by (simp_all add: payload_chunks_Cons)
    moreover have "pes_stream 0xC0 t (payload_chunks d) = ?H @ ?c"
      using pes_stream_Cons [OF 1(2), of "0xC0" t] True by simp
    ultimately show ?thesis
      using step lb tb True H by (subst (asm) ps_audio_loop.simps) simp
  next
    case False
    then have "last (payload_chunks d) = last (payload_chunks ?d)"
      using 1(2) by (simp add: payload_chunks_Cons [of d] payload_chunks_Cons [of ?d])
    moreover have "19 + min 65522 (length ?d) \<le> length b"
      using 1(3) lb by auto
    ultimately show ?thesis
      using 1(1) [OF 1(2) False, of b "0 + 19 + length ?c"] step lb by simp
  qed
qed

section \<open>Correctness of the multiplexer\<close>

definition blank_old :: ps_old where
  "blank_old = \<lparr>old_pack = \<lambda>_. pack0,
     old_sys = \<lambda>_. \<lparr>sy_shsc = 0, sy_hl = 0, sy_m1 = 0, sy_rbd = 0, sy_uc1 = 0, sy_uc2 = 0, sy_uc3 = 0,
       sy_vsi = 0, sy_vpbsb = 0, sy_asi = 0, sy_apbsb = 0\<rparr>,
     old_map = \<lambda>_. \<lparr>mp_pscp1 = 0, mp_pscp = 0, mp_msi = 0, mp_psml = 0, mp_uc1 = 0, mp_uc2 = 0,
       mp_psil = 0, mp_esml = 0, mp_vst = 0, mp_vesi = 0, mp_vesil = 0, mp_fill1 = 0, mp_fill2 = 0,
       mp_fill3 = 0, mp_ast = 0, mp_aesi = 0, mp_aesil = 0, mp_s32crc = 0\<rparr>,
     old_pes = \<lambda>_. \<lparr>pe_m1 = 0, pe_pscp = 0, pe_si = 0, pe_ppl = 0, pe_ooc = 0, pe_ct = 0, pe_dai = 0,
       pe_pp = 0, pe_psc = 0, pe_ff = 0, pe_pef = 0, pe_pcf = 0, pe_acif = 0, pe_dtmf = 0, pe_erf = 0,
       pe_ef = 0, pe_pdf = 0, pe_phdl = 0, pe_ptsp = 0, pe_pts = 0, pe_dtsp = 0, pe_dts = 0\<rparr>\<rparr>"

definition info0 :: PS_FRAME_INFO where
  "info0 = \<lparr>framerate = 0, vid_frame_number = 0, aud_frame_number = 0, vid_timestamp = 0, aud_timestamp = 0\<rparr>"

definition video_size :: "ES_FRAME_TYPE_E \<Rightarrow> nat \<Rightarrow> nat" where
  "video_size ft n = (if ft = ES_FRAME_I then 62 else 14) + 19 * ((n + 65521) div 65522) + n"

text \<open>
  C5. Round trip of a video frame. Whatever the output buffer held before and whatever follows the
  frame in the source, when the buffer has the \<open>video_size\<close> bytes \<open>ps_process\<close> succeeds and reports
  exactly that length; a demultiplexer written from the standard reads back a pack whose clock is
  the frame's time modulo 2^33, for a key frame the system header and the stream map, and then video
  PES packets that carry the frame's time modulo 2^32 twice and whose payloads, each non-empty and
  at most 65522 bytes, are the frame. The rest of the buffer is not touched.
\<close>

theorem ps_process_video_roundtrip:
  assumes "ft = ES_FRAME_I \<or> ft = ES_FRAME_P" and "video_size ft (length frame) \<le> length buf"
  shows "\<exists>buf' n cs. ps_process old info (frame @ tail) (int (length frame)) ft buf len t add =
      Some (HB_SUCCESS, info, buf', n) \<and> n = video_size ft (length frame) \<and>
    ps_demux (take n buf') = Some (header_units ft t @
      map (Pes 0xE0 (unat t mod 2 ^ 32) (unat t mod 2 ^ 32)) cs) \<and>
    concat cs = frame \<and> (\<forall>c\<in>set cs. 0 < length c \<and> length c \<le> 65522) \<and>
    length buf' = length buf \<and> drop n buf' = drop n buf"
proof -
  let ?S = "ps_video_stream ft t frame"
  have n: "length ?S = video_size ft (length frame)"
    by (simp add: length_ps_video_stream video_size_def)
  have "mem_write buf 0 ?S = Some (?S @ drop (length ?S) buf)"
    using assms(2) n by (simp add: mem_write_def)
  then have "ps_process old info (frame @ tail) (int (length frame)) ft buf len t add =
      Some (HB_SUCCESS, info, ?S @ drop (length ?S) buf, length ?S)"
    by (simp add: ps_process_video_stream [OF assms(1)])
  then show ?thesis
    using assms(2) n demux_video_stream [of ft t frame] payload_chunks_sizes [of _ frame]
    by (intro exI [of _ "?S @ drop (length ?S) buf"] exI [of _ "length ?S"]
          exI [of _ "payload_chunks frame"]) (auto simp: concat_payload_chunks)
qed

theorem ps_process_video_roundtrip_witness:
  "\<exists>buf' n cs. ps_process blank_old info0 ([7, 8, 9] @ [5]) (int (length [7, 8, 9 :: u8]))
      ES_FRAME_I (replicate 100 0) 0 (2 ^ 32 + 5) 0 = Some (HB_SUCCESS, info0, buf', n) \<and>
    n = video_size ES_FRAME_I (length [7, 8, 9 :: u8]) \<and>
    ps_demux (take n buf') = Some (header_units ES_FRAME_I (2 ^ 32 + 5) @
      map (Pes 0xE0 (unat (2 ^ 32 + 5 :: u64) mod 2 ^ 32) (unat (2 ^ 32 + 5 :: u64) mod 2 ^ 32)) cs) \<and>
    concat cs = [7, 8, 9] \<and> (\<forall>c\<in>set cs. 0 < length c \<and> length c \<le> 65522) \<and>
    length buf' = length (replicate 100 (0 :: u8)) \<and> drop n buf' = drop n (replicate 100 0)"
  by (rule ps_process_video_roundtrip) (simp_all add: video_size_def)

text \<open>
  C25. The room a video frame needs. The call is defined, that is, every store is inside the buffer,
  exactly when the buffer has 14 bytes (62 for a key frame), 19 per 65522 bytes of frame begun, and
  the frame's own: the code checks none of this itself.
\<close>

theorem ps_process_video_room:
  assumes "ft = ES_FRAME_I \<or> ft = ES_FRAME_P"
  shows "ps_process old info (frame @ tail) (int (length frame)) ft buf len t add \<noteq> None \<longleftrightarrow>
    (if ft = ES_FRAME_I then 62 else 14) + 19 * ((length frame + 65521) div 65522) + length frame
      \<le> length buf"
  using mem_write_defined [of buf 0 "ps_video_stream ft t frame"]
  by (simp add: ps_process_video_stream [OF assms] length_ps_video_stream)

theorem ps_process_video_room_witness:
  "ps_process blank_old info0 ([7, 8, 9] @ []) (int (length [7, 8, 9 :: u8])) ES_FRAME_P
     (replicate 36 0) 0 9 0 \<noteq> None"
  by (subst ps_process_video_room) simp_all

text \<open>
  C26. Audio frames. The loop rewinds the output offset at every packet, so the call reports one PES
  packet only: the one with the last piece of the frame, which is the whole frame just when it has
  at most 65522 bytes. The audio counters advance by one frame and 320 ticks.
\<close>

theorem ps_process_audio_last_packet:
  assumes "frame \<noteq> []" and "19 + min 65522 (length frame) \<le> length buf"
  shows "\<exists>buf' n. ps_process old info (frame @ tail) (int (length frame)) ES_FRAME_AUDIO buf len t add =
      Some (HB_SUCCESS, info\<lparr>aud_frame_number := aud_frame_number info + 1,
                            aud_timestamp := aud_timestamp info + 320\<rparr>, buf', n) \<and>
    ps_demux (take n buf') = Some [Pes 0xC0 (unat t mod 2 ^ 32) (unat t mod 2 ^ 32)
      (last (payload_chunks frame))] \<and>
    (last (payload_chunks frame) = frame \<longleftrightarrow> length frame \<le> 65522)"
proof -
  let ?c = "last (payload_chunks frame)"
  have ne: "payload_chunks frame \<noteq> []" using assms(1) by (simp add: payload_chunks_Cons)
  then have c: "0 < length ?c" "length ?c \<le> 65522" using payload_chunks_sizes [of ?c frame] by simp_all
  then have pc: "payload_chunks ?c = [?c]" by (subst payload_chunks.simps) auto
  have "?c = frame \<longleftrightarrow> length frame \<le> 65522"
    using assms(1) c by (auto simp: payload_chunks_Cons [of frame])
  moreover have "listed ES_FRAME_AUDIO" by (simp add: listed_def)
  from ps_audio_loop_last [OF this assms, of old t tail 0] obtain buf' where
    "ps_audio_loop old ES_FRAME_AUDIO t (int (length frame)) (frame @ tail) buf 0 = Some (buf', 19 + length ?c)"
    "take (19 + length ?c) buf' = pes_stream 0xC0 t (payload_chunks ?c)" by blast
  moreover have "ps_demux (pes_stream 0xC0 t (payload_chunks ?c)) =
      Some [Pes 0xC0 (unat t mod 2 ^ 32) (unat t mod 2 ^ 32) ?c]"
    using demux_pes_stream [of "0xC0" t ?c] pc by simp
  ultimately show ?thesis
    by (intro exI [of _ buf'] exI [of _ "19 + length ?c"]) (simp add: ps_process_def)
qed

theorem ps_process_audio_last_packet_witness:
  "\<exists>buf' n. ps_process blank_old info0 ([1, 2] @ []) (int (length [1, 2 :: u8]))
      ES_FRAME_AUDIO (replicate 50 0) 0 7 0 =
    Some (HB_SUCCESS, info0\<lparr>aud_frame_number := aud_frame_number info0 + 1,
       aud_timestamp := aud_timestamp info0 + 320\<rparr>, buf', n) \<and>
    ps_demux (take n buf') = Some [Pes 0xC0 (unat (7 :: u64) mod 2 ^ 32) (unat (7 :: u64) mod 2 ^ 32)
      (last (payload_chunks [1, 2]))] \<and>
    (last (payload_chunks [1, 2]) = [1, 2] \<longleftrightarrow> length [1, 2 :: u8] \<le> 65522)"
  by (rule ps_process_audio_last_packet) simp_all

end
