(* ===== verification/ListApi.thy ===== *)
theory ListApi
  imports Prelude "HOL-Library.Monad_Syntax"
begin

text \<open>
  What the server's components may assume of a \<open>simclist\<close> list (\<open>src/common/simclist.c\<close>): the
  list of the pointers it holds, in order. \<open>SimcList\<close> models the linked list itself and shows
  that every operation has the effect stated here.
\<close>

definition la_size :: "'a list \<Rightarrow> int" where
  "la_size xs = int (length xs)"

text \<open>\<open>list_get_at\<close>: \<open>None\<close> is the null pointer it returns out of range.\<close>

definition la_get_at :: "'a list \<Rightarrow> int \<Rightarrow> 'a option" where
  "la_get_at xs i = (if 0 \<le> i \<and> i < int (length xs) then Some (xs ! nat i) else None)"

definition la_append :: "'a list \<Rightarrow> 'a \<Rightarrow> 'a list" where
  "la_append xs x = xs @ [x]"

text \<open>\<open>list_delete\<close> without a comparator: the first cell that holds this pointer, if any.\<close>

definition la_delete :: "'a list \<Rightarrow> 'a \<Rightarrow> 'a list" where
  "la_delete xs x = remove1 x xs"

text \<open>\<open>list_seek\<close>: the first element the seeker accepts.\<close>

definition la_seek :: "('a \<Rightarrow> bool) \<Rightarrow> 'a list \<Rightarrow> 'a option" where
  "la_seek p xs = find p xs"

lemma la_get_at_nth [simp]: "i < length xs \<Longrightarrow> la_get_at xs (int i) = Some (xs ! i)"
  by (simp add: la_get_at_def)

lemma la_get_at_Cons_0 [simp]: "la_get_at (x # xs) 0 = Some x"
  by (simp add: la_get_at_def)

lemma la_get_at_append [simp]: "la_get_at (pre @ x # xs) (int (length pre)) = Some x"
  by (simp add: la_get_at_def)

lemma la_delete_head [simp]: "la_delete (x # xs) x = xs"
  by (simp add: la_delete_def)

lemma la_delete_middle: "x \<notin> set pre \<Longrightarrow> la_delete (pre @ x # xs) x = pre @ xs"
  by (simp add: la_delete_def remove1_append)

lemma la_size_simps [simp]: "la_size [] = 0" "la_size (x # xs) = la_size xs + 1"
  by (simp_all add: la_size_def)

lemma la_seek_Some: "la_seek p xs = Some x \<Longrightarrow> x \<in> set xs \<and> p x"
  by (auto simp: la_seek_def find_Some_iff)

lemma la_seek_None: "la_seek p xs = None \<longleftrightarrow> (\<forall>x\<in>set xs. \<not> p x)"
  by (auto simp: la_seek_def find_None_iff)

end
