(* ===== verification/ClientOpt.thy ===== *)
theory ClientOpt
  imports ListApi
begin

text \<open>
  \<open>src/stream/client_opt.c\<close>: the clients of a stream. A client node lives on the heap and is
  reached through its address, from the client list of its stream; what the server asks of the
  kernel and of libevent is recorded in a trace, in order. Access to a freed node is undefined
  behaviour: the value \<open>None\<close>.
\<close>

section \<open>Nodes\<close>

type_synonym handle = nat
type_synonym sockaddr_in = "u32 \<times> u16"

record port_pair =
  pp_RTP :: int
  pp_RTCP :: int

record udp_info =
  rtp_peer :: sockaddr_in
  rtcp_peer :: sockaddr_in
  cli_ports :: port_pair
  ser_ports :: port_pair
  evUdpSendRtcpEvent :: "handle option"
  evUdpRtcpListenEvent :: "handle option"
  iUdpRtcpSockFd :: int
  iUdpVideoFd :: int

record RTP_CLIENT_TRANSPORT =
  cCallId :: bytes
  pSendStreamBev :: "handle option"
  hEventArgs :: "handle option"
  iDeleteFlag :: int
  iSendIframeFlag :: int
  stUdpVideoInfo :: udp_info
  u32Ssrc :: u32

datatype effect =
    Bufferevent_disable handle
  | Bufferevent_free handle
  | Event_del handle
  | Free_args handle
  | Close int
  | Free_client nat
  | Sendto int bytes sockaddr_in
  | Lock u32
  | Unlock u32
  | Event_add handle int
  | Bufferevent_write handle bytes
  | Set_timeouts handle int
  | Set_watermark handle int int
  | Set_max_single handle int
  | Bufferevent_connect handle bytes int
  | Task_queue nat
  | Task_delete nat
  | Usleep int
  | Tell_stop bytes

record client_world =
  clients :: "nat \<rightharpoonup> RTP_CLIENT_TRANSPORT"
  trace :: "effect list"

definition emit :: "effect \<Rightarrow> client_world \<Rightarrow> client_world" where
  "emit e w = w\<lparr>trace := trace w @ [e]\<rparr>"

definition put_client :: "nat \<Rightarrow> RTP_CLIENT_TRANSPORT \<Rightarrow> client_world \<Rightarrow> client_world" where
  "put_client a c w = w\<lparr>clients := (clients w)(a \<mapsto> c)\<rparr>"

lemma emit_simps [simp]:
  "clients (emit e w) = clients w" "trace (emit e w) = trace w @ [e]"
  by (simp_all add: emit_def)

lemma put_client_simps [simp]:
  "clients (put_client a c w) = (clients w)(a \<mapsto> c)" "trace (put_client a c w) = trace w"
  by (simp_all add: put_client_def)

text \<open>\<open>free(pClientNode)\<close>.\<close>

definition free_client :: "nat \<Rightarrow> client_world \<Rightarrow> client_world option" where
  "free_client a w =
     (if clients w a = None then None
      else Some (emit (Free_client a) w\<lparr>clients := (clients w)(a := None)\<rparr>))"

section \<open>Releasing what a node holds\<close>

text \<open>The six conditional releases, in the order of the code; each clears its field.\<close>

definition release_bev :: "RTP_CLIENT_TRANSPORT \<Rightarrow> RTP_CLIENT_TRANSPORT \<times> effect list" where
  "release_bev c = (case pSendStreamBev c of None \<Rightarrow> (c, [])
     | Some h \<Rightarrow> (c\<lparr>pSendStreamBev := None\<rparr>, [Bufferevent_free h]))"

definition release_send_event :: "RTP_CLIENT_TRANSPORT \<Rightarrow> RTP_CLIENT_TRANSPORT \<times> effect list" where
  "release_send_event c = (case evUdpSendRtcpEvent (stUdpVideoInfo c) of None \<Rightarrow> (c, [])
     | Some h \<Rightarrow> (c\<lparr>stUdpVideoInfo := (stUdpVideoInfo c)\<lparr>evUdpSendRtcpEvent := None\<rparr>\<rparr>, [Event_del h]))"

definition release_listen_event :: "RTP_CLIENT_TRANSPORT \<Rightarrow> RTP_CLIENT_TRANSPORT \<times> effect list" where
  "release_listen_event c = (case evUdpRtcpListenEvent (stUdpVideoInfo c) of None \<Rightarrow> (c, [])
     | Some h \<Rightarrow> (c\<lparr>stUdpVideoInfo := (stUdpVideoInfo c)\<lparr>evUdpRtcpListenEvent := None\<rparr>\<rparr>, [Event_del h]))"

definition release_args :: "RTP_CLIENT_TRANSPORT \<Rightarrow> RTP_CLIENT_TRANSPORT \<times> effect list" where
  "release_args c = (case hEventArgs c of None \<Rightarrow> (c, [])
     | Some h \<Rightarrow> (c\<lparr>hEventArgs := None\<rparr>, [Free_args h]))"

definition release_video_fd :: "RTP_CLIENT_TRANSPORT \<Rightarrow> RTP_CLIENT_TRANSPORT \<times> effect list" where
  "release_video_fd c = (if iUdpVideoFd (stUdpVideoInfo c) > 0
     then (c\<lparr>stUdpVideoInfo := (stUdpVideoInfo c)\<lparr>iUdpVideoFd := -1\<rparr>\<rparr>, [Close (iUdpVideoFd (stUdpVideoInfo c))])
     else (c, []))"

definition release_rtcp_fd :: "RTP_CLIENT_TRANSPORT \<Rightarrow> RTP_CLIENT_TRANSPORT \<times> effect list" where
  "release_rtcp_fd c = (if iUdpRtcpSockFd (stUdpVideoInfo c) > 0
     then (c\<lparr>stUdpVideoInfo := (stUdpVideoInfo c)\<lparr>iUdpRtcpSockFd := -1\<rparr>\<rparr>, [Close (iUdpRtcpSockFd (stUdpVideoInfo c))])
     else (c, []))"

fun run_releases ::
  "(RTP_CLIENT_TRANSPORT \<Rightarrow> RTP_CLIENT_TRANSPORT \<times> effect list) list \<Rightarrow> RTP_CLIENT_TRANSPORT \<Rightarrow>
     RTP_CLIENT_TRANSPORT \<times> effect list" where
  "run_releases [] c = (c, [])"
| "run_releases (r # rs) c =
     (let (c, es) = r c; (c, es') = run_releases rs c in (c, es @ es'))"

definition release_all :: "RTP_CLIENT_TRANSPORT \<Rightarrow> RTP_CLIENT_TRANSPORT \<times> effect list" where
  "release_all =
     run_releases [release_bev, release_send_event, release_listen_event, release_args,
                   release_video_fd, release_rtcp_fd]"

definition release_client :: "nat \<Rightarrow> client_world \<Rightarrow> client_world option" where
  "release_client a w = do {
     c \<leftarrow> clients w a;
     let (c', es) = release_all c;
     Some (w\<lparr>clients := (clients w)(a \<mapsto> c'), trace := trace w @ es\<rparr>)
   }"

section \<open>The operations\<close>

text \<open>\<open>del_one_client_node\<close> takes the node off the list and releases it, but does not free it.\<close>

definition del_one_client_node ::
  "nat list \<Rightarrow> nat \<Rightarrow> u32 \<Rightarrow> client_world \<Rightarrow> (nat list \<times> client_world) option" where
  "del_one_client_node cl a hash w = do {
     let w = emit (Lock hash) w;
     let cl = la_delete cl a;
     let w = emit (Unlock hash) w;
     w \<leftarrow> release_client a w;
     Some (cl, w)
   }"

text \<open>The loop of \<open>destory_client_list\<close>: always the first node, as often as there were nodes.\<close>

fun destory_loop :: "nat \<Rightarrow> nat list \<Rightarrow> client_world \<Rightarrow> (nat list \<times> client_world) option" where
  "destory_loop 0 cl w = Some (cl, w)"
| "destory_loop (Suc n) cl w = do {
     a \<leftarrow> la_get_at cl 0;
     let cl = la_delete cl a;
     w \<leftarrow> release_client a w;
     w \<leftarrow> free_client a w;
     destory_loop n cl w
   }"

text \<open>\<open>list_destroy\<close> leaves an empty list.\<close>

definition destory_client_list :: "nat list \<Rightarrow> client_world \<Rightarrow> (nat list \<times> client_world) option" where
  "destory_client_list cl w = do {
     (cl, w) \<leftarrow> destory_loop (nat (la_size cl)) cl w;
     Some ([], w)
   }"

text \<open>\<open>disable_client_rtp_list_bev\<close> goes from the last node to the first.\<close>

fun disable_loop :: "nat \<Rightarrow> nat list \<Rightarrow> client_world \<Rightarrow> client_world option" where
  "disable_loop 0 cl w = Some w"
| "disable_loop (Suc n) cl w = do {
     a \<leftarrow> la_get_at cl (int (Suc n) - 1);
     c \<leftarrow> clients w a;
     disable_loop n cl (case pSendStreamBev c of None \<Rightarrow> w | Some h \<Rightarrow> emit (Bufferevent_disable h) w)
   }"

definition disable_client_rtp_list_bev :: "nat list \<Rightarrow> client_world \<Rightarrow> client_world option" where
  "disable_client_rtp_list_bev cl w = disable_loop (nat (la_size cl)) cl w"

section \<open>Facts\<close>

text \<open>A client list is sound: its nodes are distinct and allocated.\<close>

definition clients_ok :: "nat list \<Rightarrow> client_world \<Rightarrow> bool" where
  "clients_ok cl w \<longleftrightarrow> distinct cl \<and> set cl \<subseteq> dom (clients w)"

text \<open>What a node holds, as the effects that give it back.\<close>

definition holdings :: "RTP_CLIENT_TRANSPORT \<Rightarrow> effect list" where
  "holdings c =
     map Bufferevent_free (case pSendStreamBev c of None \<Rightarrow> [] | Some h \<Rightarrow> [h]) @
     map Event_del (case evUdpSendRtcpEvent (stUdpVideoInfo c) of None \<Rightarrow> [] | Some h \<Rightarrow> [h]) @
     map Event_del (case evUdpRtcpListenEvent (stUdpVideoInfo c) of None \<Rightarrow> [] | Some h \<Rightarrow> [h]) @
     map Free_args (case hEventArgs c of None \<Rightarrow> [] | Some h \<Rightarrow> [h]) @
     map Close (filter (\<lambda>fd. fd > 0) [iUdpVideoFd (stUdpVideoInfo c), iUdpRtcpSockFd (stUdpVideoInfo c)])"

lemmas release_defs = release_bev_def release_send_event_def release_listen_event_def
  release_args_def release_video_fd_def release_rtcp_fd_def

lemma release_all_effects: "snd (release_all c) = holdings c"
  by (simp add: release_all_def release_defs holdings_def split: option.split)

lemma release_all_rest: "holdings (fst (release_all c)) = []"
  by (simp add: release_all_def release_defs holdings_def split: option.split)

lemma release_all_flags:
  "iDeleteFlag (fst (release_all c)) = iDeleteFlag c"
  "iSendIframeFlag (fst (release_all c)) = iSendIframeFlag c"
  by (simp_all add: release_all_def release_defs split: option.split)

lemma release_client_Some:
  "clients w a = Some c \<Longrightarrow> release_client a w =
     Some (w\<lparr>clients := (clients w)(a \<mapsto> fst (release_all c)), trace := trace w @ holdings c\<rparr>)"
  by (simp add: release_client_def split_beta release_all_effects)

lemma clients_ok_Cons:
  "clients_ok (a # cl) w \<longleftrightarrow> a \<notin> set cl \<and> clients w a \<noteq> None \<and> clients_ok cl w"
  by (auto simp: clients_ok_def)

lemma clients_ok_cong:
  "(\<And>b. b \<in> set cl \<Longrightarrow> clients w' b = clients w b) \<Longrightarrow> clients_ok cl w' = clients_ok cl w"
  by (auto simp: clients_ok_def dom_def subset_iff)

lemma destory_loop_correct:
  assumes "clients_ok cl w"
  shows "destory_loop (length cl) cl w = Some ([],
    w\<lparr>clients := clients w |` (- set cl),
      trace := trace w @ concat (map (\<lambda>a. holdings (the (clients w a)) @ [Free_client a]) cl)\<rparr>)"
  using assms
proof (induction cl arbitrary: w)
  case Nil
  then show ?case by (simp add: restrict_map_def)
next
  case (Cons a cl)
  then obtain c where c: "clients w a = Some c" by (auto simp: clients_ok_Cons)
  let ?w = "w\<lparr>trace := trace w @ holdings c @ [Free_client a],
              clients := (clients w)(a := None)\<rparr>"
  have a: "a \<notin> set cl" and ok: "clients_ok cl w" using Cons.prems by (simp_all add: clients_ok_Cons)
  have ok': "clients_ok cl ?w"
    by (subst clients_ok_cong [of cl _ w]) (use ok a in auto)
  have 1: "clients ?w |` (- set cl) = clients w |` (- set (a # cl))"
    by (auto simp: restrict_map_def fun_eq_iff)
  have 2: "map (\<lambda>b. holdings (the (clients ?w b)) @ [Free_client b]) cl =
      map (\<lambda>b. holdings (the (clients w b)) @ [Free_client b]) cl"
    using a by auto
  have 3: "destory_loop (length (a # cl)) (a # cl) w = destory_loop (length cl) cl ?w"
    using c by (simp add: release_client_Some free_client_def emit_def)
  show ?case
    unfolding 3 Cons.IH [OF ok'] 1 2 using c by simp
qed

text \<open>
  C20. Tearing down the clients of a stream. On a list of distinct live nodes the whole teardown
  touches no freed node; afterwards the list is empty, exactly its nodes are freed, and for each of
  them, in list order, everything it held (its bufferevent, its two RTCP events, the event
  arguments, its open sockets) is given back once, before the node itself is freed.
\<close>

theorem destory_client_list_releases_all:
  assumes "clients_ok cl w"
  shows "destory_client_list cl w = Some ([],
    w\<lparr>clients := clients w |` (- set cl),
      trace := trace w @ concat (map (\<lambda>a. holdings (the (clients w a)) @ [Free_client a]) cl)\<rparr>)"
  using destory_loop_correct [OF assms] by (simp add: destory_client_list_def la_size_def)

definition client0 :: RTP_CLIENT_TRANSPORT where
  "client0 = \<lparr>cCallId = [0x61], pSendStreamBev = None, hEventArgs = Some 9, iDeleteFlag = 0,
     iSendIframeFlag = 0, stUdpVideoInfo = \<lparr>rtp_peer = (1, 2), rtcp_peer = (1, 3),
       cli_ports = \<lparr>pp_RTP = 2, pp_RTCP = 3\<rparr>, ser_ports = \<lparr>pp_RTP = 4, pp_RTCP = 5\<rparr>,
       evUdpSendRtcpEvent = Some 7, evUdpRtcpListenEvent = None, iUdpRtcpSockFd = -1,
       iUdpVideoFd = 12\<rparr>, u32Ssrc = 5\<rparr>"

theorem destory_client_list_releases_all_witness:
  "destory_client_list [3] \<lparr>clients = [3 \<mapsto> client0], trace = []\<rparr> =
     Some ([], \<lparr>clients = [3 \<mapsto> client0] |` (- {3}),
                trace = [Event_del 7, Free_args 9, Close 12, Free_client 3]\<rparr>)"
  by (subst destory_client_list_releases_all)
     (simp_all add: clients_ok_def holdings_def client0_def)

lemma disable_loop_frame: "disable_loop n cl w = Some w' \<Longrightarrow> clients w' = clients w"
  by (induction n arbitrary: w) (auto split: bind_splits option.splits)

end
