(* ===== verification/RtpPack.thy ===== *)
theory RtpPack
  imports ClientOpt
begin

text \<open>
  \<open>src/stream/rtp_pack.c\<close>: cutting a program stream into RTP packets in place and sending each
  packet to the clients of the stream. A \<open>char *\<close> into the data buffer is its offset there, the null
  pointer \<open>None\<close>; the twelve bytes of an RTP header are written over what precedes the payload, which
  is the tail of the packet sent before.
\<close>

section \<open>State\<close>

definition MAX_RTP_PACKET_SIZE :: int where "MAX_RTP_PACKET_SIZE = 1400"
definition RTP_VERSION :: "2 word" where "RTP_VERSION = 2"

record NAL_msg =
  eoFrame :: u32
  nal_type :: u8
  nal_start :: "nat option"
  nal_end :: "nat option"
  nal_size :: u64

record RTP_header =
  csrc_len :: "4 word"
  extension :: "1 word"
  padding :: "1 word"
  version :: "2 word"
  payload :: "7 word"
  marker :: "1 word"
  seq_no :: u16
  timestamp :: u32
  ssrc :: u32

record rtp_info_t =
  nal :: NAL_msg
  rtp_hdr :: RTP_header
  hdr_len :: int
  pRTP :: "nat option"
  ri_start :: "nat option"
  ri_end :: "nat option"
  ri_seq_num :: u16
  ri_timestamp :: u32
  ri_ssrc :: u32
  s_bit :: u32
  e_bit :: u32
  FU_flag :: bool
  beginNAL :: bool

text \<open>The image of \<open>memset(rtp_info, 0, ...)\<close>.\<close>

definition rtp_info_zero :: rtp_info_t where
  "rtp_info_zero =
     \<lparr>nal = \<lparr>eoFrame = 0, nal_type = 0, nal_start = None, nal_end = None, nal_size = 0\<rparr>,
      rtp_hdr = \<lparr>csrc_len = 0, extension = 0, padding = 0, version = 0, payload = 0, marker = 0,
                 seq_no = 0, timestamp = 0, ssrc = 0\<rparr>,
      hdr_len = 0, pRTP = None, ri_start = None, ri_end = None, ri_seq_num = 0, ri_timestamp = 0,
      ri_ssrc = 0, s_bit = 0, e_bit = 0, FU_flag = False, beginNAL = False\<rparr>"

definition rtp_info_init :: "rtp_info_t \<Rightarrow> int \<Rightarrow> u32 \<Rightarrow> rtp_info_t" where
  "rtp_info_init r pt u32ssrc =
     rtp_info_zero\<lparr>rtp_hdr := (rtp_hdr rtp_info_zero)\<lparr>payload := word_of_int pt, ssrc := u32ssrc,
       version := RTP_VERSION, seq_no := 0, timestamp := 0\<rparr>\<rparr>"

text \<open>The first two bytes of the header structure: bit fields from the least significant bit.\<close>

definition RTP_header_byte0 :: "RTP_header \<Rightarrow> u8" where
  "RTP_header_byte0 h =
     ucast (csrc_len h) OR push_bit 4 (ucast (extension h)) OR push_bit 5 (ucast (padding h)) OR
     push_bit 6 (ucast (version h))"

definition RTP_header_byte1 :: "RTP_header \<Rightarrow> u8" where
  "RTP_header_byte1 h = ucast (payload h) OR push_bit 7 (ucast (marker h))"

definition RTP_header_wire :: "RTP_header \<Rightarrow> bytes" where
  "RTP_header_wire h =
     [RTP_header_byte0 h, RTP_header_byte1 h] @ be16 (seq_no h) @ be32 (timestamp h) @ be32 (ssrc h)"

section \<open>Operations\<close>

text \<open>A value stored into an \<open>HB_S32\<close>.\<close>

definition to_s32 :: "int \<Rightarrow> int" where
  "to_s32 x = sint (word_of_int x :: u32)"

definition set_rtp_pack1 :: "rtp_info_t \<Rightarrow> nat \<Rightarrow> u32 \<Rightarrow> u32 \<Rightarrow> u32 \<Rightarrow> rtp_info_t" where
  "set_rtp_pack1 r data_buf data_size time_stamp end_of_frame =
     (let r = r\<lparr>nal := (nal r)\<lparr>nal_start := Some data_buf, nal_size := ucast data_size,
                  eoFrame := end_of_frame, nal_type := 0, nal_end := Some (data_buf + unat data_size)\<rparr>,
                rtp_hdr := (rtp_hdr r)\<lparr>timestamp := time_stamp\<rparr>\<rparr>;
          r = (if uint (nal_size (nal r)) > MAX_RTP_PACKET_SIZE
               then r\<lparr>FU_flag := True, s_bit := 1, e_bit := 0\<rparr>
               else r\<lparr>FU_flag := False, s_bit := 0, e_bit := 0\<rparr>)
      in r\<lparr>ri_start := nal_start (nal r), ri_end := nal_start (nal r), beginNAL := True\<rparr>)"

text \<open>A pointer moved by a signed amount; in front of the buffer it is undefined.\<close>

definition ptr_add :: "nat \<Rightarrow> int \<Rightarrow> nat option" where
  "ptr_add p d = (if 0 \<le> int p + d then Some (nat (int p + d)) else None)"

text \<open>Where the next packet ends: \<open>bytes_left\<close> is an \<open>HB_S32\<close>.\<close>

definition next_end :: "nat \<Rightarrow> nat \<Rightarrow> nat option" where
  "next_end st nend =
     (let bytes_left = to_s32 (int nend - int st); max_size = MAX_RTP_PACKET_SIZE
      in if bytes_left > max_size then ptr_add st max_size else ptr_add st bytes_left)"

definition next_seq :: "u16 \<Rightarrow> u16" where
  "next_seq s = (if s < 65535 then s + 1 else 0)"

text \<open>The packet: its offset and its size, or \<open>None\<close> at the end of the data.\<close>

definition get_rtp_ps_pack ::
  "rtp_info_t \<Rightarrow> bytes \<Rightarrow> (rtp_info_t \<times> bytes \<times> (nat \<times> u32) option) option" where
  "get_rtp_ps_pack r buf =
     (if ri_end r = nal_end (nal r) then Some (r, buf, None)
      else do {
        let r = (if beginNAL r then r\<lparr>beginNAL := False\<rparr> else r\<lparr>ri_start := ri_end r\<rparr>);
        st \<leftarrow> ri_start r;
        nend \<leftarrow> nal_end (nal r);
        en \<leftarrow> next_end st nend;
        let r = r\<lparr>ri_end := Some en\<rparr>;
        let r = (if FU_flag r \<and> en = nend then r\<lparr>e_bit := 1\<rparr> else r);
        let r = r\<lparr>rtp_hdr := (rtp_hdr r)\<lparr>marker := (if eoFrame (nal r) \<noteq> 0 then 1 else 0)\<rparr>\<rparr>;
        let r = (if FU_flag r \<and> e_bit r = 0 then r\<lparr>rtp_hdr := (rtp_hdr r)\<lparr>marker := 0\<rparr>\<rparr> else r);
        cp \<leftarrow> ptr_add st (-12);
        let r = r\<lparr>pRTP := Some cp\<rparr>;
        buf \<leftarrow> mem_write buf cp (RTP_header_wire (rtp_hdr r));
        let r = r\<lparr>rtp_hdr := (rtp_hdr r)\<lparr>seq_no := next_seq (seq_no (rtp_hdr r))\<rparr>\<rparr>;
        let r = r\<lparr>hdr_len := 12, ri_start := Some (cp + 12)\<rparr>;
        Some (r, buf, Some (cp, word_of_int (hdr_len r + (int en - int (cp + 12)))))
      })"

section \<open>Sending\<close>

text \<open>
  The inner loop over the clients: \<open>k\<close> is \<open>tmp_list_size\<close>, \<open>i\<close> the index, \<open>csize\<close>
  \<open>client_list_size\<close>.
\<close>

fun send_to_clients ::
  "u32 \<Rightarrow> int \<Rightarrow> bytes \<Rightarrow> nat \<Rightarrow> int \<Rightarrow> int \<Rightarrow> nat list \<Rightarrow> client_world \<Rightarrow>
     (int \<times> nat list \<times> client_world) option" where
  "send_to_clients hash ft pkt 0 i csize cl w = Some (csize, cl, w)"
| "send_to_clients hash ft pkt (Suc k) i csize cl w = do {
     a \<leftarrow> la_get_at cl i;
     c \<leftarrow> clients w a;
     if iDeleteFlag c = 1 then do {
       (cl, w) \<leftarrow> del_one_client_node cl a hash w;
       w \<leftarrow> free_client a w;
       send_to_clients hash ft pkt k (i - 1 + 1) (csize - 1) cl w
     } else
       send_to_clients hash ft pkt k (i + 1) csize cl
         (if iSendIframeFlag c = 1
          then emit (Sendto (iUdpVideoFd (stUdpVideoInfo c)) pkt (rtp_peer (stUdpVideoInfo c))) w
          else if ft = 1 then put_client a (c\<lparr>iSendIframeFlag := 1\<rparr>) w
          else w)
   }"

text \<open>The packet loop; a loop that does not return is \<open>None\<close>, like undefined behaviour.\<close>

partial_function (option) rtp_send_loop ::
  "u32 \<Rightarrow> int \<Rightarrow> rtp_info_t \<Rightarrow> bytes \<Rightarrow> int \<Rightarrow> nat list \<Rightarrow> client_world \<Rightarrow>
     (rtp_info_t \<times> bytes \<times> nat list \<times> client_world) option" where
  "rtp_send_loop hash ft r buf csize cl w =
     Option.bind (get_rtp_ps_pack r buf) (\<lambda>(r, buf, pkt).
       case pkt of None \<Rightarrow> Some (r, buf, cl, w)
       | Some (p, n) \<Rightarrow>
           Option.bind (mem_read buf p (unat n)) (\<lambda>d.
           Option.bind (send_to_clients hash ft d (nat csize) 0 csize cl w) (\<lambda>(csize, cl, w).
             rtp_send_loop hash ft r buf csize cl w)))"

text \<open>
  \<open>pack_ps_rtp_and_add_node\<close>: the body of its outer loop returns, so it runs at most once. The
  first component of the result is the return value.
\<close>

definition pack_ps_rtp_and_add_node ::
  "u32 \<Rightarrow> rtp_info_t \<Rightarrow> nat list \<Rightarrow> bytes \<Rightarrow> u32 \<Rightarrow> u64 \<Rightarrow> u32 \<Rightarrow> int \<Rightarrow> client_world \<Rightarrow>
     (u32 \<times> rtp_info_t \<times> bytes \<times> nat list \<times> client_world) option" where
  "pack_ps_rtp_and_add_node hash r cl buf data_size time_stamp pre_size ft w =
     (if data_size > 3 then do {
        let r = set_rtp_pack1 r (unat pre_size) data_size (ucast time_stamp) 1;
        (r, buf, cl, w) \<leftarrow> rtp_send_loop hash ft r buf (la_size cl) cl w;
        Some (0, r, buf, cl, w)
      } else Some (0, r, buf, cl, w))"

end
