(* ===== verification/RtpSpec.thy ===== *)
theory RtpSpec
  imports RtpPack
begin

text \<open>
  Correctness of \<open>RtpPack\<close>: the packets of a frame as a list computed from the data alone, the
  effect of one packet on the clients as a fold, and the whole call in terms of the two.
\<close>

section \<open>One packet\<close>

lemma to_s32_id: "- (2 ^ 31) \<le> x \<Longrightarrow> x < 2 ^ 31 \<Longrightarrow> to_s32 x = x"
  by (simp add: to_s32_def signed_of_int signed_take_bit_int_eq_self)

lemma next_seq_add: "next_seq s = s + 1"
proof (cases "s < 65535")
  case False
  then have "s = 65535"
    using unsigned_less [where 'a = nat, of s] by (simp add: word_less_nat_alt word_unat_eq_iff)
  then show ?thesis by (simp add: next_seq_def)
qed (simp add: next_seq_def)

lemma length_RTP_header_wire [simp, size_facts]: "length (RTP_header_wire h) = 12"
  by (simp add: RTP_header_wire_def)

text \<open>The packet cutter stands at offset \<open>p\<close> of data that ends at \<open>e\<close>.\<close>

definition cutting :: "rtp_info_t \<Rightarrow> nat \<Rightarrow> nat \<Rightarrow> bool" where
  "cutting r p e \<longleftrightarrow>
     nal_end (nal r) = Some e \<and> eoFrame (nal r) \<noteq> 0 \<and> ri_end r = Some p \<and>
     (beginNAL r \<longrightarrow> ri_start r = Some p) \<and> (p < e \<longrightarrow> e_bit r = 0) \<and> (\<not> FU_flag r \<longrightarrow> e - p \<le> 1400)"

definition marked :: "RTP_header \<Rightarrow> bool \<Rightarrow> RTP_header" where
  "marked h b = h\<lparr>marker := (if b then 1 else 0)\<rparr>"

lemma next_end_min:
  assumes "p \<le> e" and "e - p < 2 ^ 31"
  shows "next_end p e = Some (p + min 1400 (e - p))"
proof -
  have "to_s32 (int e - int p) = int (e - p)"
    using assms by (subst to_s32_id) (simp_all add: of_nat_diff)
  then show ?thesis
    by (simp add: next_end_def MAX_RTP_PACKET_SIZE_def ptr_add_def min_def nat_add_distrib)
qed

lemma get_rtp_ps_pack_step:
  assumes "cutting r p e" and "p < e" and "12 \<le> p" and "e \<le> length buf" and "e - p < 2 ^ 31"
  defines "n \<equiv> min 1400 (e - p)"
  shows "\<exists>r'. get_rtp_ps_pack r buf =
      Some (r', take (p - 12) buf @ RTP_header_wire (marked (rtp_hdr r) (p + n = e)) @ drop p buf,
            Some (p - 12, word_of_nat (12 + n))) \<and>
    cutting r' (p + n) e \<and>
    rtp_hdr r' = (marked (rtp_hdr r) (p + n = e))\<lparr>seq_no := seq_no (rtp_hdr r) + 1\<rparr>"
proof -
  have cp: "ptr_add p (-12) = Some (p - 12)"
    using assms(3) by (simp add: ptr_add_def nat_diff_distrib)
  have len: "p - 12 + 12 = p" using assms(3) by simp
  have n: "0 < n" "p + n \<le> e" and ne: "next_end p e = Some (p + n)"
    using assms(2) next_end_min [of p e] assms(5) by (simp_all add: n_def)
  have w: "mem_write buf (p - 12) (RTP_header_wire h) = Some (take (p - 12) buf @ RTP_header_wire h @ drop p buf)" for h
    using assms(2-4) len by (simp add: mem_write_def)
  have sz: "word_of_nat e - word_of_nat p = (word_of_nat n :: u32)" if "p + n = e"
    using that by (simp flip: that)
  have "ri_end r \<noteq> nal_end (nal r)" and f: "nal_end (nal r) = Some e" "eoFrame (nal r) \<noteq> 0"
    "(if beginNAL r then ri_start r else ri_end r) = Some p" "e_bit r = 0"
    and fu: "\<not> FU_flag r \<Longrightarrow> p + n = e"
    using assms(1,2) by (auto simp: cutting_def n_def)
  then show ?thesis
    using cp len ne n w sz fu
    by (cases "beginNAL r"; cases "FU_flag r"; cases "p + n = e")
       (simp_all add: get_rtp_ps_pack_def Let_def cutting_def marked_def next_seq_add)
qed

section \<open>The packets of a frame\<close>

function rtp_packets :: "RTP_header \<Rightarrow> bytes \<Rightarrow> bytes list" where
  "rtp_packets h d =
     (if d = [] then []
      else let h' = marked h (drop 1400 d = [])
        in (RTP_header_wire h' @ take 1400 d) # rtp_packets (h'\<lparr>seq_no := seq_no h + 1\<rparr>) (drop 1400 d))"
  by pat_completeness auto
termination by (relation "measure (\<lambda>(h, d). length d)") auto

declare rtp_packets.simps [simp del]

lemma rtp_packets_Nil [simp]: "rtp_packets h [] = []"
  by (simp add: rtp_packets.simps)

text \<open>One packet after the other, to the clients that are left.\<close>

fun send_packets ::
  "u32 \<Rightarrow> int \<Rightarrow> bytes list \<Rightarrow> int \<Rightarrow> nat list \<Rightarrow> client_world \<Rightarrow> (nat list \<times> client_world) option" where
  "send_packets hash ft [] n cl w = Some (cl, w)"
| "send_packets hash ft (p # ps) n cl w =
     Option.bind (send_to_clients hash ft p (nat n) 0 n cl w) (\<lambda>(n, cl, w). send_packets hash ft ps n cl w)"

lemma rtp_send_loop_packets:
  assumes "cutting r p e" and "p \<le> e" and "12 \<le> p" and "e \<le> length buf" and "e - p < 2 ^ 31"
    and "d = take (e - p) (drop p buf)"
  shows "map_option (\<lambda>(r, b, cl, w). (cl, w)) (rtp_send_loop hash ft r buf n cl w) =
    send_packets hash ft (rtp_packets (rtp_hdr r) d) n cl w"
  using assms
proof (induction "rtp_hdr r" d arbitrary: r p buf n cl w rule: rtp_packets.induct)
  case (1 d)
  show ?case
  proof (cases "p = e")
    case True
    then show ?thesis
      using 1(2,7) by (subst rtp_send_loop.simps) (simp add: get_rtp_ps_pack_def cutting_def)
  next
    case False
    then have pe: "p < e" using 1(3) by simp
    let ?n = "min 1400 (e - p)"
    let ?h = "marked (rtp_hdr r) (p + ?n = e)"
    let ?b = "take (p - 12) buf @ RTP_header_wire ?h @ drop p buf"
    obtain r' where get: "get_rtp_ps_pack r buf = Some (r', ?b, Some (p - 12, word_of_nat (12 + ?n)))"
      and cut: "cutting r' (p + ?n) e" and h: "rtp_hdr r' = ?h\<lparr>seq_no := seq_no (rtp_hdr r) + 1\<rparr>"
      using get_rtp_ps_pack_step [OF 1(2) pe 1(4-6)] by blast
    have d: "length d = e - p" using 1(5,7) by simp
    then have dne: "d \<noteq> []" and last: "drop 1400 d = [] \<longleftrightarrow> p + ?n = e"
      using pe by (auto simp: min_def)
    have sz: "unat (word_of_nat (12 + ?n) :: u32) = 12 + ?n"
      by (simp only: unat_of_nat take_bit_eq_mod) (simp add: min_def)
    have b12: "take p ?b = take (p - 12) buf @ RTP_header_wire ?h" "drop p ?b = drop p buf"
      using 1(4,5) pe by simp_all
    have rd: "mem_read ?b (p - 12) (12 + ?n) = Some (RTP_header_wire ?h @ take 1400 d)"
      using 1(4,5,7) pe by (simp add: mem_read_def min.commute)
    have tl: "drop 1400 d = take (e - (p + ?n)) (drop (p + ?n) ?b)"
    proof -
      have "drop (p + ?n) ?b = drop ?n (drop p ?b)" by (simp only: drop_drop add.commute)
      then have *: "drop (p + ?n) ?b = drop ?n (drop p buf)" by (simp only: b12)
      show ?thesis
      proof (cases "e - p \<le> 1400")
        case True
        then show ?thesis using d by simp
      next
        case False
        then show ?thesis unfolding * 1(7) by (simp add: drop_take min_def add.commute)
      qed
    qed
    have IH: "map_option (\<lambda>(r, b, cl, w). (cl, w)) (rtp_send_loop hash ft r' ?b n cl w) =
      send_packets hash ft (rtp_packets (rtp_hdr r') (drop 1400 d)) n cl w" for n cl w
      by (rule 1(1) [OF dne refl _ cut]) (use h last tl 1(4,5,6) pe in auto)
    have "rtp_send_loop hash ft r buf n cl w =
      Option.bind (send_to_clients hash ft (RTP_header_wire ?h @ take 1400 d) (nat n) 0 n cl w)
        (\<lambda>(n, cl, w). rtp_send_loop hash ft r' ?b n cl w)"
      by (subst rtp_send_loop.simps) (simp only: get sz rd bind.simps prod.case option.case)
    moreover have "rtp_packets (rtp_hdr r) d =
      (RTP_header_wire ?h @ take 1400 d) # rtp_packets (rtp_hdr r') (drop 1400 d)"
      using dne last h by (subst rtp_packets.simps) (simp add: Let_def)
    ultimately show ?thesis
      using IH by (simp only: send_packets.simps map_option_bind)
        (rule Option.bind_cong [OF refl], auto)
  qed
qed

lemma rtp_packets_Cons:
  "d \<noteq> [] \<Longrightarrow> rtp_packets h d =
     (RTP_header_wire (marked h (length d \<le> 1400)) @ take 1400 d) #
     rtp_packets ((marked h (length d \<le> 1400))\<lparr>seq_no := seq_no h + 1\<rparr>) (drop 1400 d)"
  by (subst rtp_packets.simps) (simp add: Let_def)

lemma length_rtp_packets: "length (rtp_packets h d) = (length d + 1399) div 1400"
proof (induction h d rule: rtp_packets.induct)
  case (1 h d)
  show ?case
  proof (cases "d = []")
    case False
    have "(length d + 1399) div 1400 = Suc ((length d - 1400 + 1399) div 1400)"
    proof (cases "1400 \<le> length d")
      case True
      then show ?thesis by (simp add: le_div_geq)
    next
      case shorter: False
      then have "(length d + 1399) div 1400 = 1"
        using False by (intro div_nat_eqI) (simp_all add: Suc_le_eq)
      then show ?thesis using shorter by simp
    qed
    then show ?thesis using 1 False by (simp add: rtp_packets_Cons)
  qed simp
qed

lemma marked_marked [simp]:
  "marked (h\<lparr>seq_no := s\<rparr>) b = (marked h b)\<lparr>seq_no := s\<rparr>" "marked (marked h a) b = marked h b"
  "seq_no (marked h b) = seq_no h"
  by (simp_all add: marked_def)

lemma rtp_packets_nth:
  assumes "k < length (rtp_packets h d)"
  shows "rtp_packets h d ! k =
    RTP_header_wire ((marked h (k + 1 = length (rtp_packets h d)))\<lparr>seq_no := seq_no h + of_nat k\<rparr>) @
    take 1400 (drop (1400 * k) d)"
  using assms
proof (induction h d arbitrary: k rule: rtp_packets.induct)
  case (1 h d)
  then have d: "d \<noteq> []" by auto
  let ?h = "(marked h (length d \<le> 1400))\<lparr>seq_no := seq_no h + 1\<rparr>"
  have one: "length (rtp_packets h d) = Suc (length (rtp_packets ?h (drop 1400 d)))"
    using d by (simp add: rtp_packets_Cons)
  show ?case
  proof (cases k)
    case 0
    have "(1 = length (rtp_packets h d)) = (length d \<le> 1400)"
      using one by (cases "drop 1400 d = []") (auto simp: rtp_packets_Cons)
    moreover have "h'\<lparr>seq_no := seq_no h'\<rparr> = h'" for h' :: RTP_header by simp
    ultimately show ?thesis
      using d 0 by (simp add: rtp_packets_Cons [of d] marked_def)
  next
    case (Suc j)
    then have j: "j < length (rtp_packets ?h (drop 1400 d))" using 1(2) one by simp
    have "rtp_packets ?h (drop 1400 d) ! j =
        RTP_header_wire ((marked ?h (j + 1 = length (rtp_packets ?h (drop 1400 d))))\<lparr>seq_no := seq_no ?h + of_nat j\<rparr>) @
        take 1400 (drop (1400 * j) (drop 1400 d))"
      by (rule 1(1) [OF d _ j]) simp
    then show ?thesis
      using d one Suc by (simp add: rtp_packets_Cons [of d] add.commute add.left_commute)
  qed
qed

section \<open>One packet and the clients\<close>

definition doomed :: "client_world \<Rightarrow> nat \<Rightarrow> bool" where
  "doomed w a \<longleftrightarrow> iDeleteFlag (the (clients w a)) = 1"

definition sendto_client :: "RTP_CLIENT_TRANSPORT \<Rightarrow> bytes \<Rightarrow> effect" where
  "sendto_client c pkt = Sendto (iUdpVideoFd (stUdpVideoInfo c)) pkt (rtp_peer (stUdpVideoInfo c))"

text \<open>What the loop does with one client.\<close>

definition visit :: "u32 \<Rightarrow> int \<Rightarrow> bytes \<Rightarrow> nat \<Rightarrow> client_world \<Rightarrow> client_world" where
  "visit hash ft pkt a w =
     (let c = the (clients w a)
      in if iDeleteFlag c = 1
         then w\<lparr>trace := trace w @ [Lock hash, Unlock hash] @ holdings c @ [Free_client a],
                clients := (clients w)(a := None)\<rparr>
         else if iSendIframeFlag c = 1 then emit (sendto_client c pkt) w
         else if ft = 1 then put_client a (c\<lparr>iSendIframeFlag := 1\<rparr>) w
         else w)"

lemma visit_other: "b \<noteq> a \<Longrightarrow> clients (visit hash ft pkt a w) b = clients w b"
  by (simp add: visit_def Let_def)

lemma visit_ok: "a \<notin> set cl \<Longrightarrow> clients_ok cl (visit hash ft pkt a w) = clients_ok cl w"
  by (rule clients_ok_cong, rule visit_other) auto

lemma doomed_visit: "b \<noteq> a \<Longrightarrow> doomed (visit hash ft pkt a w) b = doomed w b"
  by (simp add: doomed_def visit_other)

lemma send_to_clients_fold:
  assumes "clients_ok (pre @ cl) w"
  shows "send_to_clients hash ft pkt (length cl) (int (length pre)) n (pre @ cl) w =
    Some (n - int (length (filter (doomed w) cl)), pre @ filter (\<lambda>a. \<not> doomed w a) cl,
          fold (visit hash ft pkt) cl w)"
  using assms
proof (induction cl arbitrary: pre n w)
  case (Cons a cl)
  obtain c where c: "clients w a = Some c" using Cons.prems by (auto simp: clients_ok_def)
  have a: "a \<notin> set pre" "a \<notin> set cl" and ok: "clients_ok (pre @ cl) w"
    using Cons.prems by (auto simp: clients_ok_def)
  let ?w = "visit hash ft pkt a w"
  have ok': "clients_ok (pre @ cl) ?w" using ok a by (simp add: visit_ok)
  have ok1: "clients_ok ((pre @ [a]) @ cl) ?w" if "\<not> doomed w a"
    using Cons.prems that by (auto simp: clients_ok_def visit_def doomed_def Let_def)
  have same: "filter (doomed ?w) cl = filter (doomed w) cl" "filter (\<lambda>x. \<not> doomed ?w x) cl = filter (\<lambda>x. \<not> doomed w x) cl"
  proof -
    have "x \<in> set cl \<Longrightarrow> doomed ?w x = doomed w x" for x
      by (rule doomed_visit) (use a(2) in auto)
    then show "filter (doomed ?w) cl = filter (doomed w) cl"
      "filter (\<lambda>x. \<not> doomed ?w x) cl = filter (\<lambda>x. \<not> doomed w x) cl"
      by (simp_all cong: filter_cong)
  qed
  show ?case
  proof (cases "doomed w a")
    case True
    then have "send_to_clients hash ft pkt (length (a # cl)) (int (length pre)) n (pre @ a # cl) w =
        send_to_clients hash ft pkt (length cl) (int (length pre)) (n - 1) (pre @ cl) ?w"
      using c a by (simp add: del_one_client_node_def release_client_Some free_client_def
          la_delete_middle visit_def doomed_def Let_def emit_def)
    then show ?thesis
      using Cons.IH [OF ok', of "n - 1"] True same by simp
  next
    case False
    then have "send_to_clients hash ft pkt (length (a # cl)) (int (length pre)) n (pre @ a # cl) w =
        send_to_clients hash ft pkt (length cl) (int (length (pre @ [a]))) n ((pre @ [a]) @ cl) ?w"
      using c by (simp add: visit_def doomed_def Let_def sendto_client_def add.commute)
    then show ?thesis
      using Cons.IH [OF ok1 [OF False], of n] False same by simp
  qed
qed simp

section \<open>The fold, client by client\<close>

fun is_sendto :: "effect \<Rightarrow> bool" where
  "is_sendto (Sendto fd d p) = True"
| "is_sendto _ = False"

definition sends :: "client_world \<Rightarrow> effect list" where
  "sends w = filter is_sendto (trace w)"

lemma holdings_no_sendto: "filter is_sendto (holdings c) = []"
  by (auto simp: holdings_def split: option.split)

text \<open>The node after one packet.\<close>

definition after_visit :: "int \<Rightarrow> RTP_CLIENT_TRANSPORT \<Rightarrow> RTP_CLIENT_TRANSPORT option" where
  "after_visit ft c = (if iDeleteFlag c = 1 then None
     else if ft = 1 then Some (c\<lparr>iSendIframeFlag := 1\<rparr>) else Some c)"

lemma visit_clients:
  "clients w a = Some c \<Longrightarrow> clients (visit hash ft pkt a w) a = after_visit ft c"
  by (cases "iSendIframeFlag c = 1") (auto simp: visit_def after_visit_def Let_def)

lemma visit_sends:
  "sends (visit hash ft pkt a w) = sends w @
     (if \<not> doomed w a \<and> iSendIframeFlag (the (clients w a)) = 1
      then [sendto_client (the (clients w a)) pkt] else [])"
  by (simp add: visit_def sends_def doomed_def Let_def holdings_no_sendto sendto_client_def)

lemma fold_visit_other: "a \<notin> set cl \<Longrightarrow> clients (fold (visit hash ft pkt) cl w) a = clients w a"
  by (induction cl arbitrary: w) (auto simp: visit_other)

lemma fold_visit_clients:
  "clients_ok cl w \<Longrightarrow> a \<in> set cl \<Longrightarrow>
     clients (fold (visit hash ft pkt) cl w) a = after_visit ft (the (clients w a))"
proof (induction cl arbitrary: w)
  case (Cons b cl)
  then have b: "b \<notin> set cl" "clients_ok cl (visit hash ft pkt b w)" "clients w b \<noteq> None"
    by (auto simp: clients_ok_Cons visit_ok)
  show ?case
  proof (cases "a = b")
    case True
    then show ?thesis using b by (auto simp: fold_visit_other visit_clients)
  next
    case False
    then show ?thesis using Cons b by (simp add: visit_other)
  qed
qed simp

lemma fold_visit_sends:
  "clients_ok cl w \<Longrightarrow> sends (fold (visit hash ft pkt) cl w) = sends w @
     map (\<lambda>a. sendto_client (the (clients w a)) pkt)
       (filter (\<lambda>a. \<not> doomed w a \<and> iSendIframeFlag (the (clients w a)) = 1) cl)"
proof (induction cl arbitrary: w)
  case (Cons b cl)
  then have b: "b \<notin> set cl" "clients_ok cl (visit hash ft pkt b w)"
    by (auto simp: clients_ok_Cons visit_ok)
  have "map (\<lambda>a. sendto_client (the (clients (visit hash ft pkt b w) a)) pkt)
       (filter (\<lambda>a. \<not> doomed (visit hash ft pkt b w) a \<and>
          iSendIframeFlag (the (clients (visit hash ft pkt b w) a)) = 1) cl) =
     map (\<lambda>a. sendto_client (the (clients w a)) pkt)
       (filter (\<lambda>a. \<not> doomed w a \<and> iSendIframeFlag (the (clients w a)) = 1) cl)"
    using b(1) by (induction cl) (auto simp: visit_other doomed_visit)
  then show ?case
    using Cons.IH [OF b(2)] by (simp add: visit_sends)
qed simp

section \<open>All packets\<close>

definition flagged :: "client_world \<Rightarrow> nat \<Rightarrow> bool" where
  "flagged w a \<longleftrightarrow> iSendIframeFlag (the (clients w a)) = 1"

definition send_all :: "client_world \<Rightarrow> nat list \<Rightarrow> bytes \<Rightarrow> effect list" where
  "send_all w cl pkt = map (\<lambda>a. sendto_client (the (clients w a)) pkt) cl"

lemma send_to_clients_all:
  assumes "clients_ok cl w"
  shows "send_to_clients hash ft pkt (nat (la_size cl)) 0 (la_size cl) cl w =
    Some (la_size (filter (\<lambda>a. \<not> doomed w a) cl), filter (\<lambda>a. \<not> doomed w a) cl, fold (visit hash ft pkt) cl w)"
proof -
  have "length cl = length (filter (doomed w) cl) + length (filter (\<lambda>a. \<not> doomed w a) cl)"
    by (simp add: sum_length_filter_compl)
  then have "int (length cl) - int (length (filter (doomed w) cl)) = int (length (filter (\<lambda>a. \<not> doomed w a) cl))"
    by linarith
  then show ?thesis
    using send_to_clients_fold [of "[]" cl w hash ft pkt "la_size cl"] assms by (simp add: la_size_def)
qed

text \<open>After the first packet nobody is to be deleted and, in a key frame, everybody receives.\<close>

definition settled :: "int \<Rightarrow> nat list \<Rightarrow> client_world \<Rightarrow> bool" where
  "settled ft cl w \<longleftrightarrow> clients_ok cl w \<and> (\<forall>a\<in>set cl. \<not> doomed w a \<and> (ft = 1 \<longrightarrow> flagged w a))"

lemma settled_fold:
  assumes "settled ft cl w" and "a \<in> set cl"
  shows "clients (fold (visit hash ft pkt) cl w) a = clients w a"
proof -
  obtain c where c: "clients w a = Some c" using assms by (auto simp: settled_def clients_ok_def)
  have "ft = 1 \<Longrightarrow> c\<lparr>iSendIframeFlag := 1\<rparr> = c"
    using assms c by (auto simp: settled_def flagged_def)
  then show ?thesis
    using assms c fold_visit_clients [of cl w a hash ft pkt]
    by (auto simp: settled_def doomed_def after_visit_def)
qed

lemma settled_send_packets:
  "settled ft cl w \<Longrightarrow> \<exists>w'. send_packets hash ft pkts (la_size cl) cl w = Some (cl, w') \<and>
     clients w' = clients w \<and>
     sends w' = sends w @ concat (map (send_all w (filter (flagged w) cl)) pkts)"
proof (induction pkts arbitrary: w)
  case (Cons p ps)
  let ?w = "fold (visit hash ft p) cl w"
  have all: "filter (\<lambda>a. \<not> doomed w a) cl = cl"
    using Cons.prems by (auto simp: settled_def intro: filter_True)
  have same: "clients ?w = clients w"
    using settled_fold [OF Cons.prems] fold_visit_other by (intro ext) metis
  then have s: "settled ft cl ?w" and f: "filter (flagged ?w) cl = filter (flagged w) cl"
    "\<And>q. send_all ?w (filter (flagged w) cl) q = send_all w (filter (flagged w) cl) q"
    using Cons.prems
    by (auto simp: settled_def doomed_def flagged_def send_all_def clients_ok_cong [of cl ?w w] intro!: filter_cong)
  obtain w' where w': "send_packets hash ft ps (la_size cl) cl ?w = Some (cl, w')"
    "clients w' = clients ?w"
    "sends w' = sends ?w @ concat (map (send_all ?w (filter (flagged ?w) cl)) ps)"
    using Cons.IH [OF s] by blast
  have ok: "clients_ok cl w" using Cons.prems by (simp add: settled_def)
  have "filter (\<lambda>a. \<not> doomed w a \<and> iSendIframeFlag (the (clients w a)) = 1) cl = filter (flagged w) cl"
    using Cons.prems by (auto simp: settled_def flagged_def intro!: filter_cong)
  then have "sends ?w = sends w @ send_all w (filter (flagged w) cl) p"
    using fold_visit_sends [OF ok, of hash ft p] by (simp add: send_all_def)
  moreover have "send_all ?w (filter (flagged w) cl) = send_all w (filter (flagged w) cl)"
    by (rule ext, rule f(2))
  ultimately show ?case
    using send_to_clients_all [OF ok, of hash ft p] w' same f(1) all by simp
qed simp

text \<open>The clients that get packet \<open>k\<close> of a frame.\<close>

definition receivers :: "int \<Rightarrow> client_world \<Rightarrow> nat list \<Rightarrow> nat \<Rightarrow> nat list" where
  "receivers ft w cl k =
     filter (\<lambda>a. \<not> doomed w a \<and> (flagged w a \<or> ft = 1 \<and> 0 < k)) cl"

lemma send_packets_correct:
  assumes ok: "clients_ok cl w" and ne: "pkts \<noteq> []"
  shows "\<exists>w'. send_packets hash ft pkts (la_size cl) cl w = Some (filter (\<lambda>a. \<not> doomed w a) cl, w') \<and>
    clients w' = (\<lambda>a. if a \<in> set cl then after_visit ft (the (clients w a)) else clients w a) \<and>
    sends w' = sends w @ concat (map (\<lambda>k. send_all w (receivers ft w cl k) (pkts ! k)) [0..<length pkts])"
proof -
  obtain p ps where pkts: "pkts = p # ps" using ne by (cases pkts) auto
  let ?w = "fold (visit hash ft p) cl w" and ?L = "filter (\<lambda>a. \<not> doomed w a) cl"
  have cl: "clients ?w a = after_visit ft (the (clients w a))" if "a \<in> set cl" for a
    using fold_visit_clients [OF ok that] .
  have out: "clients ?w a = clients w a" if "a \<notin> set cl" for a
    using fold_visit_other [OF that] .
  have live: "\<exists>c. clients ?w a = Some c \<and> \<not> doomed ?w a \<and> (ft = 1 \<longrightarrow> flagged ?w a) \<and>
      sendto_client (the (clients ?w a)) = sendto_client (the (clients w a)) \<and>
      (flagged ?w a \<longleftrightarrow> flagged w a \<or> ft = 1)" if "a \<in> set ?L" for a
    using that cl [of a] by (auto simp: after_visit_def doomed_def flagged_def sendto_client_def fun_eq_iff)
  then have s: "settled ft ?L ?w"
    using ok by (force simp: settled_def clients_ok_def)
  obtain w' where w': "send_packets hash ft ps (la_size ?L) ?L ?w = Some (?L, w')"
    "clients w' = clients ?w"
    "sends w' = sends ?w @ concat (map (send_all ?w (filter (flagged ?w) ?L)) ps)"
    using settled_send_packets [OF s] by blast
  have "filter (flagged ?w) ?L = receivers ft w cl (Suc k)" for k
    using live by (auto simp: receivers_def filter_filter intro!: filter_cong)
  moreover have "send_all ?w (receivers ft w cl (Suc k)) q = send_all w (receivers ft w cl (Suc k)) q" for k q
    using live by (auto simp: send_all_def receivers_def)
  ultimately have rest: "map (send_all ?w (filter (flagged ?w) ?L)) ps =
      map (\<lambda>k. send_all w (receivers ft w cl (Suc k)) (ps ! k)) [0..<length ps]"
    by (intro nth_equalityI) auto
  have "sends ?w = sends w @ send_all w (receivers ft w cl 0) p"
    using fold_visit_sends [OF ok, of hash ft p] by (simp add: send_all_def receivers_def flagged_def)
  moreover have "map (\<lambda>k. send_all w (receivers ft w cl k) (pkts ! k)) [0..<length pkts] =
      send_all w (receivers ft w cl 0) p #
      map (\<lambda>k. send_all w (receivers ft w cl (Suc k)) (ps ! k)) [0..<length ps]"
    unfolding pkts by (subst upt_conv_Cons) (simp_all add: map_Suc_upt [symmetric] comp_def del: upt_Suc map_Suc_upt)
  ultimately show ?thesis
    using send_to_clients_all [OF ok, of hash ft p] w' rest cl out pkts by auto
qed

section \<open>Correctness of pack_ps_rtp_and_add_node\<close>

text \<open>The header of packet \<open>k\<close> of \<open>m\<close>.\<close>

definition packet_header :: "RTP_header \<Rightarrow> u32 \<Rightarrow> nat \<Rightarrow> nat \<Rightarrow> RTP_header" where
  "packet_header h t m k =
     h\<lparr>timestamp := t, marker := (if k + 1 = m then 1 else 0), seq_no := seq_no h + of_nat k\<rparr>"

definition rtp_packet :: "RTP_header \<Rightarrow> u32 \<Rightarrow> bytes \<Rightarrow> nat \<Rightarrow> bytes" where
  "rtp_packet h t d k =
     RTP_header_wire (packet_header h t ((length d + 1399) div 1400) k) @ take 1400 (drop (1400 * k) d)"

text \<open>The payloads of the packets are the frame.\<close>

lemma concat_pieces: "concat (map (\<lambda>k. take 1400 (drop (1400 * k) d)) [0..<m]) = take (1400 * m) d"
proof (induction m)
  case (Suc m)
  then show ?case by (simp add: take_add [symmetric] add.commute)
qed simp

lemma rtp_packets_reassemble:
  "concat (map (\<lambda>k. drop 12 (rtp_packet h t d k)) [0..<(length d + 1399) div 1400]) = d \<and>
   (\<forall>k < (length d + 1399) div 1400. 12 < length (rtp_packet h t d k) \<and> length (rtp_packet h t d k) \<le> 1412)"
proof -
  have "length d \<le> 1400 * ((length d + 1399) div 1400)" by linarith
  moreover have "k < (length d + 1399) div 1400 \<Longrightarrow> 1400 * k < length d" for k by linarith
  ultimately show ?thesis
    by (auto simp: rtp_packet_def concat_pieces)
qed

lemma frame_delivered:
  assumes ok: "clients_ok cl w" and big: "3 < data_size" and small: "unat data_size < 2 ^ 31"
    and pre: "12 \<le> unat pre_size" and room: "unat pre_size + unat data_size \<le> length buf"
  defines "d \<equiv> take (unat data_size) (drop (unat pre_size) buf)"
  shows "\<exists>r' buf' w'. pack_ps_rtp_and_add_node hash r cl buf data_size ts pre_size ft w =
      Some (0, r', buf', filter (\<lambda>a. \<not> doomed w a) cl, w') \<and>
    clients w' = (\<lambda>a. if a \<in> set cl then after_visit ft (the (clients w a)) else clients w a) \<and>
    sends w' = sends w @ concat (map (\<lambda>k. send_all w (receivers ft w cl k)
      (rtp_packet (rtp_hdr r) (ucast ts) d k)) [0..<(length d + 1399) div 1400]) \<and>
    concat (map (\<lambda>k. drop 12 (rtp_packet (rtp_hdr r) (ucast ts) d k)) [0..<(length d + 1399) div 1400]) = d"
proof -
  let ?r = "set_rtp_pack1 r (unat pre_size) data_size (ucast ts) 1"
  let ?p = "unat pre_size" and ?n = "unat data_size"
  have n: "3 < ?n" using big by (simp add: word_less_nat_alt)
  have "uint data_size < 2 ^ 64"
    by (rule less_trans [OF unsigned_less]) simp
  then have "uint (ucast data_size :: u64) = uint data_size"
    by (simp add: unsigned_ucast_eq take_bit_int_eq_self)
  then have u: "(1400 < uint (ucast data_size :: u64)) = (1400 < ?n)"
    using of_nat_unat [of data_size, where 'a = int] by linarith
  have cut: "cutting ?r ?p (?p + ?n)" and h: "rtp_hdr ?r = (rtp_hdr r)\<lparr>timestamp := ucast ts\<rparr>"
    by (simp_all add: cutting_def set_rtp_pack1_def Let_def MAX_RTP_PACKET_SIZE_def u)
  let ?pk = "rtp_packets (rtp_hdr ?r) d"
  have dl: "length d = ?n" using room by (simp add: d_def)
  then have ne: "?pk \<noteq> []" using n by (simp add: rtp_packets_Cons flip: length_greater_0_conv)
  have loop: "map_option (\<lambda>(r, b, cl, w). (cl, w)) (rtp_send_loop hash ft ?r buf (la_size cl) cl w) =
      send_packets hash ft ?pk (la_size cl) cl w"
    by (rule rtp_send_loop_packets [OF cut]) (use pre room small in \<open>simp_all add: d_def\<close>)
  obtain w' where w': "send_packets hash ft ?pk (la_size cl) cl w = Some (filter (\<lambda>a. \<not> doomed w a) cl, w')"
    "clients w' = (\<lambda>a. if a \<in> set cl then after_visit ft (the (clients w a)) else clients w a)"
    "sends w' = sends w @ concat (map (\<lambda>k. send_all w (receivers ft w cl k) (?pk ! k)) [0..<length ?pk])"
    using send_packets_correct [OF ok ne] by blast
  have "map (\<lambda>k. send_all w (receivers ft w cl k) (?pk ! k)) [0..<length ?pk] =
      map (\<lambda>k. send_all w (receivers ft w cl k) (rtp_packet (rtp_hdr r) (ucast ts) d k))
        [0..<(length d + 1399) div 1400]"
    by (rule map_cong)
       (simp_all add: length_rtp_packets rtp_packets_nth rtp_packet_def packet_header_def marked_def h)
  moreover obtain r' buf' where "rtp_send_loop hash ft ?r buf (la_size cl) cl w =
      Some (r', buf', filter (\<lambda>a. \<not> doomed w a) cl, w')"
    using loop w'(1) by auto
  ultimately show ?thesis
    using w'(2,3) big rtp_packets_reassemble [of "rtp_hdr r" "ucast ts" d]
    by (simp add: pack_ps_rtp_and_add_node_def)
qed

text \<open>
  C6. Cutting and sending a frame. When the frame lies in the buffer behind at least twelve bytes, is
  longer than three bytes and below 2^31, and the client list is sound, the call returns. The frame
  leaves as one packet per 1400 bytes begun; packet \<open>k\<close> has the session's fixed header fields, the
  frame's time stamp cut to 32 bits, the session's sequence number plus \<open>k\<close> modulo 2^16, the
  marker on the last packet only, and exactly bytes \<open>1400 k\<close> to \<open>1400 k + 1399\<close> of the frame, although
  each header is written over the packet before it: without their headers the packets are the frame. Packet by packet, in list order, every client that
  is not to be deleted and already receives gets it once; in a key frame the others get all packets
  but the first. The clients to be deleted are off the list and freed, the others are kept.
\<close>

theorem pack_ps_rtp_delivers:
  assumes ok: "clients_ok cl w" and big: "3 < data_size" and small: "unat data_size < 2 ^ 31"
    and pre: "12 \<le> unat pre_size" and room: "unat pre_size + unat data_size \<le> length buf"
  defines "d \<equiv> take (unat data_size) (drop (unat pre_size) buf)"
  shows "\<exists>r' buf' w'. pack_ps_rtp_and_add_node hash r cl buf data_size ts pre_size ft w =
      Some (0, r', buf', filter (\<lambda>a. \<not> doomed w a) cl, w') \<and>
    clients w' = (\<lambda>a. if a \<in> set cl then after_visit ft (the (clients w a)) else clients w a) \<and>
    sends w' = sends w @ concat (map (\<lambda>k. send_all w (receivers ft w cl k)
      (rtp_packet (rtp_hdr r) (ucast ts) d k)) [0..<(length d + 1399) div 1400]) \<and>
    concat (map (\<lambda>k. drop 12 (rtp_packet (rtp_hdr r) (ucast ts) d k)) [0..<(length d + 1399) div 1400]) = d"
  unfolding d_def by (rule frame_delivered [OF ok big small pre room])

theorem pack_ps_rtp_delivers_witness:
  "\<exists>r' buf' w'. pack_ps_rtp_and_add_node 1 (rtp_info_init rtp_info_zero 96 5) [3] (replicate 30 7) 10 90 14 1
      \<lparr>clients = [3 \<mapsto> client0], trace = []\<rparr> =
      Some (0, r', buf', filter (\<lambda>a. \<not> doomed \<lparr>clients = [3 \<mapsto> client0], trace = []\<rparr> a) [3], w') \<and>
    clients w' = (\<lambda>a. if a \<in> set [3] then after_visit 1 (the (clients \<lparr>clients = [3 \<mapsto> client0], trace = []\<rparr> a))
      else clients \<lparr>clients = [3 \<mapsto> client0], trace = []\<rparr> a) \<and>
    sends w' = sends \<lparr>clients = [3 \<mapsto> client0], trace = []\<rparr> @ concat (map (\<lambda>k.
      send_all \<lparr>clients = [3 \<mapsto> client0], trace = []\<rparr> (receivers 1 \<lparr>clients = [3 \<mapsto> client0], trace = []\<rparr> [3] k)
      (rtp_packet (rtp_hdr (rtp_info_init rtp_info_zero 96 5)) (ucast (90 :: u64))
         (take (unat (10 :: u32)) (drop (unat (14 :: u32)) (replicate 30 7))) k))
      [0..<(length (take (unat (10 :: u32)) (drop (unat (14 :: u32)) (replicate 30 (7 :: u8)))) + 1399) div 1400]) \<and>
    concat (map (\<lambda>k. drop 12 (rtp_packet (rtp_hdr (rtp_info_init rtp_info_zero 96 5)) (ucast (90 :: u64))
         (take (unat (10 :: u32)) (drop (unat (14 :: u32)) (replicate 30 7))) k))
      [0..<(length (take (unat (10 :: u32)) (drop (unat (14 :: u32)) (replicate 30 (7 :: u8)))) + 1399) div 1400]) =
      take (unat (10 :: u32)) (drop (unat (14 :: u32)) (replicate 30 7))"
  by (rule pack_ps_rtp_delivers) (simp_all add: clients_ok_def)

end
