(* ===== verification/RtcpPack.thy ===== *)
theory RtcpPack
  imports ClientOpt
begin

text \<open>
  \<open>src/stream/rtcp_pack.c\<close>: sender reports and source descriptions. The writers store into the
  caller's buffer; a store outside it is \<open>None\<close>. The functions return the number of bytes the packet
  has, or needs when \<open>bytes\<close> says there is too little room.
\<close>

section \<open>Fields\<close>

record rtcp_header_t =
  rh_v :: "2 word"
  rh_p :: "1 word"
  rh_rc :: "5 word"
  rh_pt :: "8 word"
  rh_length :: u16

definition RTCP_SR :: u8 where "RTCP_SR = 200"
definition RTCP_SDES :: u8 where "RTCP_SDES = 202"

definition rtp_write_uint32 :: "bytes \<Rightarrow> nat \<Rightarrow> u32 \<Rightarrow> bytes option" where
  "rtp_write_uint32 buf ptr val =
     mem_write buf ptr [ucast (drop_bit 24 val), ucast (drop_bit 16 val), ucast (drop_bit 8 val), ucast val]"

definition nbo_write_rtcp_header :: "bytes \<Rightarrow> nat \<Rightarrow> rtcp_header_t \<Rightarrow> bytes option" where
  "nbo_write_rtcp_header buf ptr h =
     mem_write buf ptr [push_bit 6 (ucast (rh_v h)) OR push_bit 5 (ucast (rh_p h)) OR ucast (rh_rc h),
       rh_pt h, ucast (drop_bit 8 (rh_length h)), ucast (rh_length h AND 0xFF)]"

section \<open>Clocks\<close>

text \<open>\<open>gettimeofday\<close> answers \<open>tv_sec\<close> and \<open>tv_usec\<close>.\<close>

definition rtpclock :: "u64 \<Rightarrow> u64 \<Rightarrow> u64" where
  "rtpclock tv_sec tv_usec = tv_sec * 1000 + tv_usec div 1000"

definition clock2ntp :: "u64 \<Rightarrow> u64" where
  "clock2ntp clock =
     push_bit 32 (clock div 1000 + 0x83AA7E80) OR (clock mod 1000 * 1000) * 0x4000000 div 15625"

section \<open>Packets\<close>

text \<open>The static counters of the code never change; \<open>(HB_U32)bytes\<close> makes a negative size large.\<close>

definition rtcp_sr_pack :: "RTP_CLIENT_TRANSPORT \<Rightarrow> bytes \<Rightarrow> nat \<Rightarrow> int \<Rightarrow> (int \<times> bytes) option" where
  "rtcp_sr_pack c buf ptr bs =
     (let timestamp = 162007200; count = 16436; iSendBytes = 20971520;
          h = \<lparr>rh_v = 2, rh_p = 0, rh_rc = 0, rh_pt = RTCP_SR, rh_length = (24 + 0 * 24) div 4\<rparr>;
          need = (uint (rh_length h) + 1) * 4;
          ntp = 0x09a7ec8009a7fa90 :: u64
      in if uint (word_of_int bs :: u32) < need then Some (need, buf)
         else do {
           buf \<leftarrow> nbo_write_rtcp_header buf ptr h;
           buf \<leftarrow> rtp_write_uint32 buf (ptr + 4) (u32Ssrc c);
           buf \<leftarrow> rtp_write_uint32 buf (ptr + 8) (ucast (drop_bit 32 ntp));
           buf \<leftarrow> rtp_write_uint32 buf (ptr + 12) (ucast (ntp AND 0xFFFFFFFF));
           buf \<leftarrow> rtp_write_uint32 buf (ptr + 16) timestamp;
           buf \<leftarrow> rtp_write_uint32 buf (ptr + 20) count;
           buf \<leftarrow> rtp_write_uint32 buf (ptr + 24) iSendBytes;
           Some (need, buf)
         })"

text \<open>\<open>bytes\<close> is a \<open>size_t\<close> here: \<open>bytes - 8\<close> of the caller wraps when it has less than 8.\<close>

definition rtcp_sdes_append_item :: "bytes \<Rightarrow> nat \<Rightarrow> u64 \<Rightarrow> bytes \<Rightarrow> (nat \<times> bytes) option" where
  "rtcp_sdes_append_item buf ptr bs cname =
     (if unat bs \<ge> length cname + 2 then do {
        buf \<leftarrow> mem_write buf ptr [1, word_of_nat (length cname)];
        buf \<leftarrow> mem_write buf (ptr + 2) cname;
        Some (length cname + 2, buf)
      } else Some (length cname + 2, buf))"

text \<open>\<open>"fibernetwork"\<close>.\<close>

definition sdes_cname :: bytes where
  "sdes_cname = [0x66, 0x69, 0x62, 0x65, 0x72, 0x6E, 0x65, 0x74, 0x77, 0x6F, 0x72, 0x6B]"

definition rtcp_sdes_pack :: "RTP_CLIENT_TRANSPORT \<Rightarrow> bytes \<Rightarrow> nat \<Rightarrow> int \<Rightarrow> (int \<times> bytes) option" where
  "rtcp_sdes_pack c buf ptr bs =
     (let h = \<lparr>rh_v = 2, rh_p = 0, rh_rc = 1, rh_pt = RTCP_SDES, rh_length = 0\<rparr>
      in do {
        (n, buf) \<leftarrow> rtcp_sdes_append_item buf (ptr + 8) (word_of_int (bs - 8)) sdes_cname;
        if bs < 8 + int n then Some (8 + int n, buf)
        else do {
          let h = h\<lparr>rh_length := word_of_nat ((n + 4 + 3) div 4)\<rparr>;
          buf \<leftarrow> nbo_write_rtcp_header buf ptr h;
          buf \<leftarrow> rtp_write_uint32 buf (ptr + 4) (u32Ssrc c);
          Some ((uint (rh_length h) + 1) * 4, buf)
        }
      })"

section \<open>Properties\<close>

lemma write_uint32_be: "rtp_write_uint32 buf ptr v = mem_write buf ptr (be32 v)"
  by (simp add: rtp_write_uint32_def be32_def)

lemma ucast_low_byte: "(ucast (w AND 0xFF :: u16) :: u8) = ucast w"
  by (simp only: mask_numerals) (rule bit_word_eqI, simp add: bit_simps)

definition rtcp_byte0 :: "rtcp_header_t \<Rightarrow> u8" where
  "rtcp_byte0 h = push_bit 6 (ucast (rh_v h)) OR push_bit 5 (ucast (rh_p h)) OR ucast (rh_rc h)"

lemma write_header_bytes:
  "nbo_write_rtcp_header buf ptr h = mem_write buf ptr ([rtcp_byte0 h, rh_pt h] @ be16 (rh_length h))"
  by (simp add: nbo_write_rtcp_header_def be16_def ucast_low_byte rtcp_byte0_def)

text \<open>The stores of a packet one after the other, with the offsets the code gives.\<close>

lemma mem_write_chain:
  assumes "n = off + length a" and "\<And>b. f b = map_option g (mem_write b n s)"
  shows "Option.bind (mem_write m off a) f = map_option g (mem_write m off (a @ s))"
  using assms by (intro mem_write_step) simp

lemma bind_Some_Pair: "Option.bind x (\<lambda>b. Some (k, b)) = map_option (Pair k) x"
  by (cases x) simp_all

definition sr_bytes :: "u32 \<Rightarrow> bytes" where
  "sr_bytes ssrc = ([0x80, 200] @ be16 6) @ be32 ssrc @ be32 0x09a7ec80 @ be32 0x09a7fa90 @ be32 162007200 @
     be32 16436 @ be32 20971520"

lemma length_sr_bytes [simp, size_facts]: "length (sr_bytes x) = 28"
  by (simp add: sr_bytes_def)

lemma rtcp_sr_pack_bytes:
  assumes "28 \<le> bs" and "bs < 2 ^ 31"
  shows "rtcp_sr_pack c buf ptr bs = map_option (Pair 28) (mem_write buf ptr (sr_bytes (u32Ssrc c)))"
proof -
  have u: "uint (word_of_int bs :: u32) = bs"
    using assms by (simp only: uint_word_of_int take_bit_eq_mod [where 'a = int]) simp
  have n: "ucast (drop_bit 32 (0x09a7ec8009a7fa90 :: u64)) = (0x09a7ec80 :: u32)"
    "ucast ((0x09a7ec8009a7fa90 :: u64) AND 0xFFFFFFFF) = (0x09a7fa90 :: u32)" by simp_all
  have h: "[rtcp_byte0 \<lparr>rh_v = 2, rh_p = 0, rh_rc = 0, rh_pt = RTCP_SR, rh_length = (24 + 0 * 24) div 4\<rparr>,
      rh_pt \<lparr>rh_v = 2, rh_p = 0, rh_rc = 0, rh_pt = RTCP_SR, rh_length = (24 + 0 * 24) div 4\<rparr>] = [0x80, 200]"
    "(24 + 0 * 24) div 4 = (6 :: u16)"
    by (simp_all add: rtcp_byte0_def RTCP_SR_def)
  have "rtcp_sr_pack c buf ptr bs =
    Option.bind (mem_write buf ptr ([0x80, 200] @ be16 6)) (\<lambda>b.
    Option.bind (mem_write b (ptr + 4) (be32 (u32Ssrc c))) (\<lambda>b.
    Option.bind (mem_write b (ptr + 8) (be32 0x09a7ec80)) (\<lambda>b.
    Option.bind (mem_write b (ptr + 12) (be32 0x09a7fa90)) (\<lambda>b.
    Option.bind (mem_write b (ptr + 16) (be32 162007200)) (\<lambda>b.
    Option.bind (mem_write b (ptr + 20) (be32 16436)) (\<lambda>b.
    Option.bind (mem_write b (ptr + 24) (be32 20971520)) (\<lambda>b. Some (28, b))))))))"
    unfolding rtcp_sr_pack_def Let_def u write_header_bytes write_uint32_be n h
    using assms(1) by (simp add: rtcp_byte0_def RTCP_SR_def)
  also have "\<dots> = map_option (Pair 28) (mem_write buf ptr (sr_bytes (u32Ssrc c)))"
    unfolding sr_bytes_def
    by (rule mem_write_chain [where n = "ptr + 4"], simp, rule mem_write_chain [where n = "ptr + 8"], simp,
        rule mem_write_chain [where n = "ptr + 12"], simp, rule mem_write_chain [where n = "ptr + 16"], simp,
        rule mem_write_chain [where n = "ptr + 20"], simp, rule mem_write_chain [where n = "ptr + 24"], simp,
        rule bind_Some_Pair)
  finally show ?thesis .
qed

text \<open>The source description fills bytes 0 to 21 of its 24; the end of the chunk is not written.\<close>

definition sdes_bytes :: "u32 \<Rightarrow> bytes" where
  "sdes_bytes ssrc = ([0x81, 202] @ be16 5) @ be32 ssrc @ [1, 12] @ sdes_cname"

lemma length_sdes_cname [simp]: "length sdes_cname = 12"
  by (simp add: sdes_cname_def)

lemma length_sdes_bytes [simp, size_facts]: "length (sdes_bytes x) = 22"
  by (simp add: sdes_bytes_def)

text \<open>A store just in front of one already made.\<close>

lemma mem_write_before:
  "Option.bind (mem_write m (off + length h) i) (\<lambda>b. mem_write b off h) = mem_write m off (h @ i)"
  by (auto simp: mem_write_def min_absorb1 add.assoc)

lemma rtcp_sdes_pack_bytes:
  assumes "22 \<le> bs" and "bs < 2 ^ 31"
  shows "rtcp_sdes_pack c buf ptr bs = map_option (Pair 24) (mem_write buf ptr (sdes_bytes (u32Ssrc c)))"
proof -
  have u: "unat (word_of_int (bs - 8) :: u64) = nat (bs - 8)"
    using assms by (simp only: unat_eq_nat_uint uint_word_of_int take_bit_eq_mod [where 'a = int]) simp
  let ?h = "[0x81, 202] @ be16 5" and ?i = "[1, 12] @ sdes_cname"
  have item: "rtcp_sdes_append_item buf (ptr + 8) (word_of_int (bs - 8)) sdes_cname =
      map_option (Pair 14) (mem_write buf (ptr + 8) ?i)"
    unfolding rtcp_sdes_append_item_def u mem_write_append using assms(1) le_nat_iff [of "bs - 8" 14]
    by (cases "mem_write buf (ptr + 8) [1, 12]") (simp_all add: bind_Some_Pair)
  have hd: "Option.bind (mem_write b ptr ?h) (\<lambda>b. Option.bind (mem_write b (ptr + 4) (be32 (u32Ssrc c)))
      (\<lambda>b. Some (24, b))) = map_option (Pair 24) (mem_write b ptr (?h @ be32 (u32Ssrc c)))" for b :: bytes
    by (rule mem_write_chain, simp, rule bind_Some_Pair)
  have "rtcp_sdes_pack c buf ptr bs =
      Option.bind (mem_write buf (ptr + 8) ?i) (\<lambda>b.
      Option.bind (mem_write b ptr ?h) (\<lambda>b. Option.bind (mem_write b (ptr + 4) (be32 (u32Ssrc c)))
      (\<lambda>b. Some (24, b))))"
    unfolding rtcp_sdes_pack_def Let_def item write_header_bytes write_uint32_be
    using assms(1) by (cases "mem_write buf (ptr + 8) ?i") (simp_all add: rtcp_byte0_def RTCP_SDES_def)
  also have "\<dots> = map_option (Pair 24) (Option.bind (mem_write buf (ptr + length (?h @ be32 (u32Ssrc c))) ?i)
      (\<lambda>b. mem_write b ptr (?h @ be32 (u32Ssrc c))))"
    by (simp only: hd) (simp add: map_option_bind comp_def)
  also have "\<dots> = map_option (Pair 24) (mem_write buf ptr (sdes_bytes (u32Ssrc c)))"
    by (simp only: mem_write_before sdes_bytes_def append_assoc)
  finally show ?thesis .
qed

end
