(* ===== verification/LfQueue.thy ===== *)
theory LfQueue
  imports Prelude "HOL-Library.Monad_Syntax"
begin

text \<open>
  \<open>src/common/lf_queue.c\<close>: the bounded queue between the thread that receives a stream and the task
  that sends it. Its memory is a head and the units \<open>-1 .. max_unit_num\<close>, unit \<open>-1\<close> (\<open>LIST_END\<close>) being the
  first list sentinel; a unit's data is a value of type \<open>'u\<close>, copied whole by \<open>memcpy\<close>. A unit outside
  the memory is undefined behaviour, \<open>None\<close>, and so is a loop that does not end. The operations
  are modelled here as one thread runs them: nothing else changes the memory between two of
  their steps, so a compare-and-swap on a value just read succeeds. \<open>LfSteps\<close> interleaves two threads.
\<close>

section \<open>State\<close>

definition LIST_END :: int where "LIST_END = -1"
definition INT32_MAX :: int where "INT32_MAX = 2 ^ 31 - 1"

record 'u lf_unit =
  u_next :: int
  use_flag :: bool
  u_data :: 'u

record 'u lf_queue =
  unit_size :: int
  max_unit_num :: int
  p_head :: int
  p_tail :: int
  w_tail :: int
  w_len :: int
  r_len :: int
  units :: "int \<rightharpoonup> 'u lf_unit"

definition set_unit :: "'u lf_queue \<Rightarrow> int \<Rightarrow> 'u lf_unit \<Rightarrow> 'u lf_queue" where
  "set_unit q i u = q\<lparr>units := (units q)(i \<mapsto> u)\<rparr>"

lemma set_unit_simps [simp]:
  "units (set_unit q i u) = (units q)(i \<mapsto> u)" "max_unit_num (set_unit q i u) = max_unit_num q"
  "p_head (set_unit q i u) = p_head q" "p_tail (set_unit q i u) = p_tail q"
  "w_tail (set_unit q i u) = w_tail q" "w_len (set_unit q i u) = w_len q"
  "r_len (set_unit q i u) = r_len q"
  by (simp_all add: set_unit_def)

section \<open>nolock_queue_init\<close>

text \<open>
  What the system answers: for \<open>shm_key = 0\<close> whether \<open>calloc\<close> succeeds, otherwise a shared segment that
  existed, with its contents, a new one, or none.
\<close>

datatype 'u memory = New_memory | Old_segment "'u lf_queue" | No_memory

text \<open>The zeroed memory; \<open>z\<close> is a unit's data when all its bytes are zero.\<close>

definition zero_queue :: "'u \<Rightarrow> int \<Rightarrow> 'u lf_queue" where
  "zero_queue z n =
     \<lparr>unit_size = 0, max_unit_num = 0, p_head = 0, p_tail = 0, w_tail = 0, w_len = 0, r_len = 0,
      units = (\<lambda>i. if -1 \<le> i \<and> i \<le> n then Some \<lparr>u_next = 0, use_flag = False, u_data = z\<rparr> else None)\<rparr>"

text \<open>The result code and the queue, when there is one; \<open>sizeof(unit_head)\<close> is 8.\<close>

definition nolock_queue_init ::
  "'u \<Rightarrow> 'u memory \<Rightarrow> int \<Rightarrow> int \<Rightarrow> (int \<times> 'u lf_queue option) option" where
  "nolock_queue_init z mem usize n =
     (if usize = 0 \<or> n = 0 then Some (-2, None)
      else if usize < 0 \<or> usize > INT32_MAX - 8 then Some (-3, None)
      else if n + 2 > INT32_MAX \<or> (8 + usize) * (n + 2) > INT32_MAX \<or> (8 + usize) * (n + 2) < - INT32_MAX - 1
      then None
      else case mem of No_memory \<Rightarrow> Some (-1, None)
        | Old_segment q \<Rightarrow> Some (0, Some q)
        | New_memory \<Rightarrow> do {
            let q = (zero_queue z n)\<lparr>unit_size := usize, max_unit_num := n, p_head := LIST_END, p_tail := LIST_END\<rparr>;
            u \<leftarrow> units q LIST_END;
            Some (0, Some (set_unit q LIST_END (u\<lparr>u_next := LIST_END\<rparr>)))
          })"

section \<open>nolock_queue_push\<close>

text \<open>Reserving a unit: the first one, from \<open>w_tail\<close> on and round the array, that is not in use.\<close>

partial_function (option) alloc_unit :: "'u lf_queue \<Rightarrow> ('u lf_queue \<times> int) option" where
  "alloc_unit q =
     (let w = w_tail q mod (max_unit_num q + 1); q' = q\<lparr>w_tail := w + 1\<rparr>
      in case units q' w of None \<Rightarrow> None
        | Some u \<Rightarrow> if use_flag u then alloc_unit q' else Some (q', w))"

text \<open>From \<open>p\<close> to the unit whose \<open>next\<close> is \<open>LIST_END\<close>.\<close>

partial_function (option) walk_tail :: "'u lf_queue \<Rightarrow> int \<Rightarrow> int option" where
  "walk_tail q p =
     (case units q p of None \<Rightarrow> None
      | Some u \<Rightarrow> if u_next u = LIST_END then Some p else walk_tail q (u_next u))"

text \<open>Linking unit \<open>w\<close> behind the tail; from the third try on the list is walked.\<close>

partial_function (option) link_unit :: "int \<Rightarrow> 'u lf_queue \<Rightarrow> int \<Rightarrow> ('u lf_queue \<times> int) option" where
  "link_unit tries q w =
     Option.bind (if tries + 1 \<ge> 3 then walk_tail q (p_tail q) else Some (p_tail q)) (\<lambda>p.
       case units q p of None \<Rightarrow> None
       | Some u \<Rightarrow>
           if u_next u = LIST_END then Some (set_unit q p (u\<lparr>u_next := w\<rparr>), p_tail q)
           else link_unit (tries + 1) q w)"

definition nolock_queue_push :: "'u \<Rightarrow> 'u lf_queue \<Rightarrow> (int \<times> 'u lf_queue) option" where
  "nolock_queue_push d q =
     (if w_len q \<ge> max_unit_num q then Some (-1, q)
      else do {
        let q = q\<lparr>w_len := w_len q + 1\<rparr>;
        (q, w) \<leftarrow> alloc_unit q;
        u \<leftarrow> units q w;
        let q = set_unit q w (u\<lparr>u_next := LIST_END, use_flag := True\<rparr>);
        u \<leftarrow> units q w;
        let q = set_unit q w (u\<lparr>u_data := d\<rparr>);
        (q, old_p_tail) \<leftarrow> link_unit 0 q w;
        let q = (if p_tail q = old_p_tail then q\<lparr>p_tail := w\<rparr> else q);
        Some (0, q\<lparr>r_len := r_len q + 1\<rparr>)
      })"

section \<open>nolock_queue_pop, nolock_queue_len\<close>

definition nolock_queue_pop :: "'u lf_queue \<Rightarrow> (int \<times> 'u option \<times> 'u lf_queue) option" where
  "nolock_queue_pop q =
     (if r_len q \<le> 0 then Some (-1, None, q)
      else do {
        let q = q\<lparr>r_len := r_len q - 1\<rparr>;
        u \<leftarrow> units q (p_head q);
        let q = q\<lparr>p_head := u_next u\<rparr>;
        v \<leftarrow> units q (u_next u);
        let q = set_unit q (u_next u) (v\<lparr>use_flag := False\<rparr>);
        Some (0, Some (u_data v), q\<lparr>w_len := w_len q - 1\<rparr>)
      })"

definition nolock_queue_len :: "'u lf_queue \<Rightarrow> int" where
  "nolock_queue_len q = r_len q"

section \<open>The queue contract\<close>

text \<open>
  What the stream code relies on: a bounded first-in first-out queue. \<open>content\<close> is the list of the
  units that were pushed and not yet popped.
\<close>

datatype 'u queue_op = Push 'u | Pop | Len

datatype 'u queue_result = Pushed int | Popped int "'u option" | Length int

text \<open>A history of calls on an implementation, and on the abstract queue.\<close>

fun run_ops ::
  "('u \<Rightarrow> 'q \<Rightarrow> (int \<times> 'q) option) \<Rightarrow> ('q \<Rightarrow> (int \<times> 'u option \<times> 'q) option) \<Rightarrow> ('q \<Rightarrow> int) \<Rightarrow>
     'u queue_op list \<Rightarrow> 'q \<Rightarrow> ('u queue_result list \<times> 'q) option" where
  "run_ops psh pp ln [] q = Some ([], q)"
| "run_ops psh pp ln (Push d # ops) q = Option.bind (psh d q) (\<lambda>(rc, q).
     map_option (\<lambda>(rs, q). (Pushed rc # rs, q)) (run_ops psh pp ln ops q))"
| "run_ops psh pp ln (Pop # ops) q = Option.bind (pp q) (\<lambda>(rc, x, q).
     map_option (\<lambda>(rs, q). (Popped rc x # rs, q)) (run_ops psh pp ln ops q))"
| "run_ops psh pp ln (Len # ops) q =
     map_option (\<lambda>(rs, q'). (Length (ln q) # rs, q')) (run_ops psh pp ln ops q)"

fun spec_ops :: "int \<Rightarrow> 'u queue_op list \<Rightarrow> 'u list \<Rightarrow> 'u queue_result list \<times> 'u list" where
  "spec_ops n [] xs = ([], xs)"
| "spec_ops n (Push d # ops) xs =
     (if int (length xs) < n then apfst ((#) (Pushed 0)) (spec_ops n ops (xs @ [d]))
      else apfst ((#) (Pushed (-1))) (spec_ops n ops xs))"
| "spec_ops n (Pop # ops) xs =
     (case xs of [] \<Rightarrow> apfst ((#) (Popped (-1) None)) (spec_ops n ops [])
      | x # xs \<Rightarrow> apfst ((#) (Popped 0 (Some x))) (spec_ops n ops xs))"
| "spec_ops n (Len # ops) xs = apfst ((#) (Length (int (length xs)))) (spec_ops n ops xs)"

locale bounded_fifo =
  fixes push :: "'u \<Rightarrow> 'q \<Rightarrow> (int \<times> 'q) option"
    and pop :: "'q \<Rightarrow> (int \<times> 'u option \<times> 'q) option"
    and len :: "'q \<Rightarrow> int"
    and inv :: "'q \<Rightarrow> bool"
    and content :: "'q \<Rightarrow> 'u list"
    and capacity :: "'q \<Rightarrow> int"
  assumes len_content: "inv q \<Longrightarrow> len q = int (length (content q))"
    and push_room: "inv q \<Longrightarrow> int (length (content q)) < capacity q \<Longrightarrow>
      \<exists>q'. push d q = Some (0, q') \<and> inv q' \<and> content q' = content q @ [d] \<and> capacity q' = capacity q"
    and push_full: "inv q \<Longrightarrow> capacity q \<le> int (length (content q)) \<Longrightarrow> push d q = Some (-1, q)"
    and pop_nonempty: "inv q \<Longrightarrow> content q = d # ds \<Longrightarrow>
      \<exists>q'. pop q = Some (0, Some d, q') \<and> inv q' \<and> content q' = ds \<and> capacity q' = capacity q"
    and pop_empty: "inv q \<Longrightarrow> content q = [] \<Longrightarrow> pop q = Some (-1, None, q)"
begin

lemma run_ops_spec:
  "inv q \<Longrightarrow> \<exists>q'. run_ops push pop len ops q = Some (fst (spec_ops (capacity q) ops (content q)), q') \<and>
     inv q' \<and> content q' = snd (spec_ops (capacity q) ops (content q)) \<and> capacity q' = capacity q"
proof (induction ops arbitrary: q)
  case (Cons o' ops)
  show ?case
  proof (cases o')
    case (Push d)
    show ?thesis
    proof (cases "int (length (content q)) < capacity q")
      case True
      then obtain q' where q': "push d q = Some (0, q')" "inv q'" "content q' = content q @ [d]" "capacity q' = capacity q"
        using push_room [OF Cons.prems] by blast
      show ?thesis using Cons.IH [OF q'(2)] q' Push True by auto
    next
      case False
      then have "push d q = Some (-1, q)" using push_full [OF Cons.prems] by simp
      then show ?thesis using Cons.IH [OF Cons.prems] Push False by auto
    qed
  next
    case Pop
    show ?thesis
    proof (cases "content q")
      case Nil
      then show ?thesis using pop_empty [OF Cons.prems] Cons.IH [OF Cons.prems] Pop by auto
    next
      case (Cons d ds)
      then obtain q' where q': "pop q = Some (0, Some d, q')" "inv q'" "content q' = ds" "capacity q' = capacity q"
        using pop_nonempty \<open>inv q\<close> by blast
      show ?thesis using Cons.IH [OF q'(2)] q' Pop Cons by auto
    qed
  next
    case Len
    then show ?thesis using Cons.IH [OF Cons.prems] len_content [OF Cons.prems] by auto
  qed
qed simp

end

section \<open>The list behind the sentinel\<close>

text \<open>
  The elements occupy consecutive units behind the sentinel \<open>p_head\<close>, wrapping at
  \<open>max_unit_num + 1\<close>: element \<open>k\<close> (from 1) is in \<open>slot q k\<close>.
\<close>

definition slot :: "'u lf_queue \<Rightarrow> int \<Rightarrow> int" where
  "slot q k = (p_head q + k) mod (max_unit_num q + 1)"

definition node_at :: "'u lf_queue \<Rightarrow> int \<Rightarrow> int" where
  "node_at q k = (if k = 0 then p_head q else slot q k)"

definition lf_ok :: "'u lf_queue \<Rightarrow> bool" where
  "lf_ok q \<longleftrightarrow>
     1 \<le> max_unit_num q \<and> -1 \<le> p_head q \<and> p_head q \<le> max_unit_num q \<and>
     0 \<le> r_len q \<and> r_len q \<le> max_unit_num q \<and> w_len q = r_len q \<and> 0 \<le> w_tail q \<and>
     w_tail q mod (max_unit_num q + 1) = slot q (r_len q + 1) \<and>
     p_tail q = node_at q (r_len q) \<and>
     (\<forall>i. units q i \<noteq> None \<longleftrightarrow> -1 \<le> i \<and> i \<le> max_unit_num q) \<and>
     (\<forall>k. 0 \<le> k \<and> k < r_len q \<longrightarrow> u_next (the (units q (node_at q k))) = slot q (k + 1)) \<and>
     u_next (the (units q (p_tail q))) = LIST_END \<and>
     (\<forall>i. 0 \<le> i \<and> i \<le> max_unit_num q \<longrightarrow>
        (use_flag (the (units q i)) \<longleftrightarrow> (\<exists>k. 1 \<le> k \<and> k \<le> r_len q \<and> i = slot q k)))"

definition lf_content :: "'u lf_queue \<Rightarrow> 'u list" where
  "lf_content q = map (\<lambda>k. u_data (the (units q (slot q (int k))))) [1..<nat (r_len q) + 1]"

lemma length_lf_content: "lf_ok q \<Longrightarrow> int (length (lf_content q)) = r_len q"
  by (auto simp: lf_content_def lf_ok_def)

lemma slot_range: "1 \<le> max_unit_num q \<Longrightarrow> 0 \<le> slot q k \<and> slot q k \<le> max_unit_num q"
  using pos_mod_bound [of "max_unit_num q + 1" "p_head q + k"]
  by (simp add: slot_def)

lemma slot_inj:
  assumes "slot q j = slot q k" and "0 \<le> j" "j \<le> max_unit_num q" and "0 \<le> k" "k \<le> max_unit_num q"
  shows "j = k"
proof -
  have "(max_unit_num q + 1) dvd (p_head q + j) - (p_head q + k)"
    using assms(1) unfolding slot_def by (simp only: mod_eq_dvd_iff)
  then have "(max_unit_num q + 1) dvd j - k" by simp
  then show ?thesis
    using assms zdvd_not_zless [of "j - k" "max_unit_num q + 1"] zdvd_not_zless [of "k - j" "max_unit_num q + 1"]
    by (cases j k rule: linorder_cases) (auto simp: dvd_diff_commute)
qed

lemma slot_0: "0 \<le> p_head q \<Longrightarrow> p_head q \<le> max_unit_num q \<Longrightarrow> slot q 0 = p_head q"
  by (simp add: slot_def)

text \<open>No element lies in the sentinel's unit.\<close>

lemma slot_not_head:
  assumes "lf_ok q" and "1 \<le> k" and "k \<le> max_unit_num q"
  shows "slot q k \<noteq> p_head q"
proof (cases "0 \<le> p_head q")
  case True
  then have "slot q 0 = p_head q" using assms(1) by (simp add: slot_0 lf_ok_def)
  then show ?thesis using slot_inj [of q k 0] assms by auto
next
  case False
  then show ?thesis using slot_range [of q k] assms by (auto simp: lf_ok_def)
qed

lemma node_at_inj:
  assumes "lf_ok q" "node_at q j = node_at q k" "0 \<le> j" "j \<le> max_unit_num q" "0 \<le> k" "k \<le> max_unit_num q"
  shows "j = k"
  using assms slot_not_head [OF assms(1), of j] slot_not_head [OF assms(1), of k] slot_inj [of q j k]
  by (auto simp: node_at_def split: if_splits)

lemma node_unit: "lf_ok q \<Longrightarrow> \<exists>u. units q (node_at q k) = Some u"
  using slot_range [of q k] by (cases "k = 0") (auto simp: node_at_def lf_ok_def)

lemma slot_unit: "lf_ok q \<Longrightarrow> \<exists>u. units q (slot q k) = Some u"
  using slot_range [of q k] by (auto simp: lf_ok_def)

lemma push_full_lf: "lf_ok q \<Longrightarrow> max_unit_num q \<le> r_len q \<Longrightarrow> nolock_queue_push d q = Some (-1, q)"
  by (simp add: nolock_queue_push_def lf_ok_def)

definition pushed :: "'u \<Rightarrow> 'u lf_queue \<Rightarrow> 'u lf_queue" where
  "pushed d q =
     (let w = slot q (r_len q + 1)
      in q\<lparr>w_len := r_len q + 1, r_len := r_len q + 1, w_tail := w + 1, p_tail := w,
           units := (units q)(w \<mapsto> \<lparr>u_next = LIST_END, use_flag = True, u_data = d\<rparr>,
             p_tail q \<mapsto> (the (units q (p_tail q)))\<lparr>u_next := w\<rparr>)\<rparr>)"

lemma pushed_simps:
  "max_unit_num (pushed d q) = max_unit_num q" "p_head (pushed d q) = p_head q"
  "r_len (pushed d q) = r_len q + 1" "w_len (pushed d q) = r_len q + 1"
  "p_tail (pushed d q) = slot q (r_len q + 1)" "w_tail (pushed d q) = slot q (r_len q + 1) + 1"
  "slot (pushed d q) k = slot q k" "node_at (pushed d q) k = node_at q k"
  by (simp_all add: pushed_def Let_def slot_def node_at_def)

lemma push_target:
  assumes "lf_ok q" and "r_len q < max_unit_num q"
  shows "slot q (r_len q + 1) \<noteq> p_tail q" and "\<not> use_flag (the (units q (slot q (r_len q + 1))))"
proof -
  have m: "1 \<le> max_unit_num q" "0 \<le> r_len q" "p_tail q = node_at q (r_len q)"
    using assms(1) by (simp_all add: lf_ok_def)
  show "slot q (r_len q + 1) \<noteq> p_tail q"
    using node_at_inj [OF assms(1), of "r_len q + 1" "r_len q"] m assms(2) by (auto simp: node_at_def)
  show "\<not> use_flag (the (units q (slot q (r_len q + 1))))"
  proof
    assume "use_flag (the (units q (slot q (r_len q + 1))))"
    then obtain k where "1 \<le> k" "k \<le> r_len q" "slot q (r_len q + 1) = slot q k"
      using assms(1) slot_range [OF m(1), of "r_len q + 1"] unfolding lf_ok_def by blast
    then show False using slot_inj [of q "r_len q + 1" k] assms(2) m by auto
  qed
qed

lemma push_room_lf:
  assumes ok: "lf_ok q" and room: "r_len q < max_unit_num q"
  shows "nolock_queue_push d q = Some (0, pushed d q)"
proof -
  let ?w = "slot q (r_len q + 1)"
  have m: "1 \<le> max_unit_num q" "w_len q = r_len q" "0 \<le> r_len q" "p_tail q = node_at q (r_len q)"
    "w_tail q mod (max_unit_num q + 1) = ?w" using ok by (simp_all add: lf_ok_def)
  obtain u where u: "units q ?w = Some u" using slot_unit [OF ok] by blast
  obtain v where v: "units q (p_tail q) = Some v" using node_unit [OF ok] m(4) by auto
  have nx: "u_next v = LIST_END" using ok v by (simp add: lf_ok_def)
  have "alloc_unit (q\<lparr>w_len := w_len q + 1\<rparr>) = Some (q\<lparr>w_len := w_len q + 1, w_tail := ?w + 1\<rparr>, ?w)"
    using u m push_target [OF ok room] by (subst alloc_unit.simps) (simp add: Let_def)
  moreover have "link_unit 0 q' ?w = Some (set_unit q' (p_tail q) (v\<lparr>u_next := ?w\<rparr>), p_tail q)"
    if "p_tail q' = p_tail q" "units q' (p_tail q) = Some v" for q'
    using that nx by (subst link_unit.simps) simp
  ultimately show ?thesis
    using room m push_target [OF ok room] u v
    by (simp add: nolock_queue_push_def pushed_def Let_def set_unit_def) (cases u, cases q, simp)
qed

lemma pushed_ok:
  assumes ok: "lf_ok q" and room: "r_len q < max_unit_num q"
  shows "lf_ok (pushed d q)"
proof -
  let ?w = "slot q (r_len q + 1)"
  have m: "1 \<le> max_unit_num q" "w_len q = r_len q" "0 \<le> r_len q" "p_tail q = node_at q (r_len q)"
    using ok by (simp_all add: lf_ok_def)
  have r: "0 \<le> ?w" "?w \<le> max_unit_num q" using slot_range [OF m(1)] by simp_all
  have t: "?w \<noteq> p_tail q" using push_target [OF ok room] by simp
  obtain v where v: "units q (p_tail q) = Some v" using node_unit [OF ok] m(4) by auto
  have un: "units (pushed d q) = (units q)(?w \<mapsto> \<lparr>u_next = LIST_END, use_flag = True, u_data = d\<rparr>,
             p_tail q \<mapsto> v\<lparr>u_next := ?w\<rparr>)" using v by (simp add: pushed_def Let_def)
  have "(?w + 1) mod (max_unit_num q + 1) = slot q (r_len q + 1 + 1)"
    by (simp add: slot_def mod_simps algebra_simps)
  moreover have "u_next (the (units (pushed d q) (node_at q k))) = slot q (k + 1)"
    if "0 \<le> k" "k < r_len q + 1" for k
  proof (cases "k = r_len q")
    case True
    then show ?thesis using m(4) un by simp
  next
    case False
    then have k: "k < r_len q" using that by simp
    have "node_at q k \<noteq> p_tail q" using node_at_inj [OF ok, of k "r_len q"] k that room m by auto
    moreover have "node_at q k \<noteq> ?w"
      using node_at_inj [OF ok, of k "r_len q + 1"] k that room m by (auto simp: node_at_def split: if_splits)
    ultimately show ?thesis using ok k that un by (simp add: lf_ok_def)
  qed
  moreover have "use_flag (the (units (pushed d q) i)) \<longleftrightarrow> (\<exists>k. 1 \<le> k \<and> k \<le> r_len q + 1 \<and> i = slot q k)"
    if "0 \<le> i" "i \<le> max_unit_num q" for i
  proof (cases "i = ?w")
    case True
    then show ?thesis using t un m by (auto intro!: exI [of _ "r_len q + 1"])
  next
    case False
    then have "use_flag (the (units (pushed d q) i)) = use_flag (the (units q i))"
      using un v by simp
    moreover have "(\<exists>k. 1 \<le> k \<and> k \<le> r_len q + 1 \<and> i = slot q k) = (\<exists>k. 1 \<le> k \<and> k \<le> r_len q \<and> i = slot q k)"
      using False by (metis add1_zle_eq less_le zle_add1_eq_le)
    ultimately show ?thesis using ok that by (simp add: lf_ok_def)
  qed
  moreover have "(units (pushed d q) i \<noteq> None) = (-1 \<le> i \<and> i \<le> max_unit_num q)" for i
    using ok un r v unfolding lf_ok_def by auto
  moreover have "u_next (the (units (pushed d q) ?w)) = LIST_END"
    using un t by simp
  ultimately show ?thesis
    using ok room r m unfolding lf_ok_def pushed_simps
    by (simp add: node_at_def)
qed

lemma pushed_content:
  assumes ok: "lf_ok q" and room: "r_len q < max_unit_num q"
  shows "lf_content (pushed d q) = lf_content q @ [d]"
proof -
  let ?w = "slot q (r_len q + 1)"
  have m: "0 \<le> r_len q" "p_tail q = node_at q (r_len q)" using ok by (simp_all add: lf_ok_def)
  obtain v where v: "units q (p_tail q) = Some v" using node_unit [OF ok] m(2) by auto
  have un: "units (pushed d q) = (units q)(?w \<mapsto> \<lparr>u_next = LIST_END, use_flag = True, u_data = d\<rparr>,
             p_tail q \<mapsto> v\<lparr>u_next := ?w\<rparr>)" using v by (simp add: pushed_def Let_def)
  have "u_data (the (units (pushed d q) (slot q (int k)))) = u_data (the (units q (slot q (int k))))"
    if "k \<in> set [1..<nat (r_len q) + 1]" for k
  proof -
    have "1 \<le> int k" "int k \<le> r_len q" using that m(1) by auto
    then have "slot q (int k) \<noteq> ?w"
      using slot_inj [of q "int k" "r_len q + 1"] room by auto
    then show ?thesis using un v by simp
  qed
  moreover have "[1..<nat (r_len q + 1) + 1] = [1..<nat (r_len q) + 1] @ [nat (r_len q) + 1]"
    using m(1) by (simp add: nat_add_distrib)
  moreover have "u_data (the (units (pushed d q) ?w)) = d"
    using un push_target [OF ok room] by simp
  ultimately show ?thesis
    using m(1) unfolding lf_content_def pushed_simps by (simp add: add.commute)
qed

text \<open>Taking the first element: its unit becomes the sentinel.\<close>

definition popped :: "'u lf_queue \<Rightarrow> 'u lf_queue" where
  "popped q =
     (let s = slot q 1
      in q\<lparr>r_len := r_len q - 1, w_len := r_len q - 1, p_head := s,
           units := (units q)(s \<mapsto> (the (units q s))\<lparr>use_flag := False\<rparr>)\<rparr>)"

lemma slot_popped: "slot (popped q) k = slot q (k + 1)"
  by (simp add: popped_def Let_def slot_def mod_simps algebra_simps)

lemma popped_simps:
  "max_unit_num (popped q) = max_unit_num q" "p_head (popped q) = slot q 1"
  "r_len (popped q) = r_len q - 1" "w_len (popped q) = r_len q - 1"
  "p_tail (popped q) = p_tail q" "w_tail (popped q) = w_tail q"
  "units (popped q) = (units q)(slot q 1 \<mapsto> (the (units q (slot q 1)))\<lparr>use_flag := False\<rparr>)"
  by (simp_all add: popped_def Let_def)

lemma node_at_popped: "0 \<le> k \<Longrightarrow> node_at (popped q) k = node_at q (k + 1)"
  by (auto simp: node_at_def slot_popped popped_simps)

lemma next_of_head: "lf_ok q \<Longrightarrow> 0 < r_len q \<Longrightarrow> u_next (the (units q (p_head q))) = slot q 1"
  unfolding lf_ok_def by (metis add_0 node_at_def order_refl)

lemma pop_lf:
  assumes ok: "lf_ok q" and ne: "0 < r_len q"
  shows "nolock_queue_pop q = Some (0, Some (u_data (the (units q (slot q 1)))), popped q)"
proof -
  obtain u where u: "units q (p_head q) = Some u" using node_unit [OF ok, of 0] by (auto simp: node_at_def)
  then have nx: "u_next u = slot q 1" using next_of_head [OF ok ne] by simp
  obtain v where v: "units q (slot q 1) = Some v" using slot_unit [OF ok] by blast
  have "w_len q = r_len q" using ok by (simp add: lf_ok_def)
  then show ?thesis
    using ne u nx v by (simp add: nolock_queue_pop_def popped_def Let_def set_unit_def)
qed

lemma popped_ok:
  assumes ok: "lf_ok q" and ne: "0 < r_len q"
  shows "lf_ok (popped q)"
proof -
  have m: "1 \<le> max_unit_num q" "p_tail q = node_at q (r_len q)" "r_len q \<le> max_unit_num q"
    using ok by (simp_all add: lf_ok_def)
  have r: "0 \<le> slot q 1" "slot q 1 \<le> max_unit_num q" using slot_range [OF m(1)] by simp_all
  obtain v where v: "units q (slot q 1) = Some v" using slot_unit [OF ok] by blast
  have nx: "u_next (the (units (popped q) i)) = u_next (the (units q i))" for i
    using v by (simp add: popped_simps)
  have "use_flag (the (units (popped q) i)) \<longleftrightarrow> (\<exists>k. 1 \<le> k \<and> k \<le> r_len q - 1 \<and> i = slot q (k + 1))"
    if "0 \<le> i" "i \<le> max_unit_num q" for i
  proof (cases "i = slot q 1")
    case True
    have "slot q 1 \<noteq> slot q (k + 1)" if "1 \<le> k" "k \<le> r_len q - 1" for k
      using slot_inj [of q 1 "k + 1"] that m by auto
    then show ?thesis using True v by (auto simp: popped_simps)
  next
    case False
    then have "use_flag (the (units (popped q) i)) = (\<exists>k. 1 \<le> k \<and> k \<le> r_len q \<and> i = slot q k)"
      using ok that by (simp add: popped_simps lf_ok_def)
    also have "\<dots> = (\<exists>k. 1 \<le> k \<and> k \<le> r_len q - 1 \<and> i = slot q (k + 1))" (is "?l = ?r")
    proof
      assume ?l
      then obtain k where "1 \<le> k" "k \<le> r_len q" "i = slot q k" by blast
      then show ?r using False by (intro exI [of _ "k - 1"]) (auto simp: le_less)
    next
      assume ?r
      then obtain k where "1 \<le> k" "k \<le> r_len q - 1" "i = slot q (k + 1)" by blast
      then show ?l by (intro exI [of _ "k + 1"]) auto
    qed
    finally show ?thesis .
  qed
  moreover have "(units (popped q) i \<noteq> None) = (-1 \<le> i \<and> i \<le> max_unit_num q)" for i
    using ok r unfolding lf_ok_def popped_simps by auto
  moreover have "u_next (the (units (popped q) (node_at (popped q) k))) = slot q (k + 1 + 1)"
    if "0 \<le> k" "k < r_len q - 1" for k
  proof -
    have "u_next (the (units q (node_at q (k + 1)))) = slot q (k + 1 + 1)"
      using ok that unfolding lf_ok_def by (metis add_nonneg_nonneg less_diff_eq zero_le_one)
    then show ?thesis using that by (simp only: nx node_at_popped)
  qed
  moreover have "node_at (popped q) (r_len q - 1) = p_tail q"
    using ne m(2) by (simp add: node_at_popped)
  moreover have "u_next (the (units (popped q) (p_tail q))) = LIST_END"
    using ok unfolding nx lf_ok_def by blast
  ultimately show ?thesis
    using ok ne r unfolding lf_ok_def popped_simps(1-6) slot_popped by simp
qed

lemma popped_content:
  assumes ok: "lf_ok q" and ne: "0 < r_len q"
  shows "lf_content q = u_data (the (units q (slot q 1))) # lf_content (popped q)"
proof -
  obtain n where n: "nat (r_len q) = Suc n" using ne by (metis gr0_implies_Suc zero_less_nat_eq)
  have "u_data (the (units (popped q) i)) = u_data (the (units q i))" for i
    by (simp add: popped_simps)
  moreover have "nat (r_len q - 1) = n" using n by simp
  moreover have "[1..<Suc n + 1] = 1 # map Suc [1..<n + 1]"
    by (simp add: upt_conv_Cons map_Suc_upt del: upt_Suc)
  ultimately show ?thesis
    unfolding lf_content_def n popped_simps(3) slot_popped by (simp add: comp_def add.commute del: upt_Suc)
qed

text \<open>The contract holds of the code.\<close>

interpretation lfq: bounded_fifo nolock_queue_push nolock_queue_pop nolock_queue_len lf_ok lf_content max_unit_num
proof
  fix q :: "'u lf_queue" and d :: 'u and ds :: "'u list"
  assume ok: "lf_ok q"
  have l: "int (length (lf_content q)) = r_len q" using length_lf_content [OF ok] .
  show "nolock_queue_len q = int (length (lf_content q))" by (simp add: l nolock_queue_len_def)
  show "int (length (lf_content q)) < max_unit_num q \<Longrightarrow>
      \<exists>q'. nolock_queue_push d q = Some (0, q') \<and> lf_ok q' \<and> lf_content q' = lf_content q @ [d] \<and>
        max_unit_num q' = max_unit_num q"
    unfolding l
    by (rule exI [of _ "pushed d q"])
       (simp add: push_room_lf [OF ok] pushed_ok [OF ok] pushed_content [OF ok] pushed_simps(1))
  show "max_unit_num q \<le> int (length (lf_content q)) \<Longrightarrow> nolock_queue_push d q = Some (-1, q)"
    unfolding l by (rule push_full_lf [OF ok])
  show "\<exists>q'. nolock_queue_pop q = Some (0, Some d, q') \<and> lf_ok q' \<and> lf_content q' = ds \<and>
        max_unit_num q' = max_unit_num q" if "lf_content q = d # ds"
  proof -
    have "0 < r_len q" using l that by simp
    then show ?thesis
      using pop_lf [OF ok] popped_ok [OF ok] popped_content [OF ok] popped_simps(1) that by auto
  qed
  show "lf_content q = [] \<Longrightarrow> nolock_queue_pop q = Some (-1, None, q)"
    using l ok by (simp add: nolock_queue_pop_def lf_ok_def)
qed

section \<open>Properties\<close>

lemma init_lf:
  assumes "0 < usize" "0 < n" "(8 + usize) * (n + 2) \<le> INT32_MAX"
  shows "\<exists>q. nolock_queue_init z New_memory usize n = Some (0, Some q) \<and> lf_ok q \<and> lf_content q = [] \<and>
    max_unit_num q = n"
proof -
  have "0 < usize * n" using assms(1,2) by simp
  then have "n + 2 \<le> INT32_MAX" "usize \<le> INT32_MAX - 8" "\<not> (8 + usize) * (n + 2) < - INT32_MAX - 1"
    using assms unfolding INT32_MAX_def distrib_left distrib_right by linarith+
  then show ?thesis
    using assms
    by (auto simp: nolock_queue_init_def zero_queue_def LIST_END_def set_unit_def lf_ok_def lf_content_def
        slot_def node_at_def)
qed

text \<open>
  C9. The queue is a bounded first-in first-out queue. After \<open>nolock_queue_init\<close> on fresh memory whose
  size fits an \<open>int\<close>, any sequence of pushes, pops and length queries made one after the other
  returns (no memory access outside the queue, no loop that spins) and answers exactly as a list
  of at most \<open>max_unit_num\<close> units does: a push into a full queue is refused with \<open>-1\<close>, a pop gives the
  oldest unit or \<open>-1\<close>, and the length is the number of units in it.
\<close>

theorem lf_queue_refines_fifo:
  assumes "0 < usize" and "0 < n" and "(8 + usize) * (n + 2) \<le> INT32_MAX"
  shows "\<exists>q q'. nolock_queue_init z New_memory usize n = Some (0, Some q) \<and>
    run_ops nolock_queue_push nolock_queue_pop nolock_queue_len ops q = Some (fst (spec_ops n ops []), q') \<and>
    lf_content q' = snd (spec_ops n ops [])"
proof -
  obtain q where q: "nolock_queue_init z New_memory usize n = Some (0, Some q)" "lf_ok q"
    "lf_content q = []" "max_unit_num q = n" using init_lf [OF assms] by metis
  obtain q' where "run_ops nolock_queue_push nolock_queue_pop nolock_queue_len ops q =
      Some (fst (spec_ops n ops []), q')" "lf_content q' = snd (spec_ops n ops [])"
    using lfq.run_ops_spec [OF q(2), of ops] unfolding q(3,4) by metis
  then show ?thesis using q(1) by metis
qed

theorem lf_queue_refines_fifo_witness:
  "\<exists>q q'. nolock_queue_init 0 New_memory 16 2 = Some (0, Some q) \<and>
    run_ops nolock_queue_push nolock_queue_pop nolock_queue_len [Push 5, Push 6, Push (7 :: nat), Pop, Len] q =
      Some ([Pushed 0, Pushed 0, Pushed (-1), Popped 0 (Some 5), Length 1], q') \<and> lf_content q' = [6]"
  using lf_queue_refines_fifo [of 16 2 "0 :: nat" "[Push 5, Push 6, Push 7, Pop, Len]"]
  by (simp add: INT32_MAX_def)

end
