(* ===== verification/LfSteps.thy ===== *)
theory LfSteps
  imports LfQueue
begin

text \<open>
  The queue of \<open>src/common/lf_queue.c\<close> under two threads: the one that receives a stream pushes, the task that sends it
  pops. Every access to the shared memory is one step, and the steps of the two interleave in any order; the
  \<open>__sync\<close> calls are full barriers and the fields are \<open>volatile\<close>, so that the steps of a thread take place in the order of the code.
\<close>

section \<open>The two threads\<close>

text \<open>Where the pushing thread stands, with its local variables: \<open>d\<close> is the unit to push, \<open>w\<close> the unit it takes.\<close>

datatype 'u push_pc =
  Push_idle
| Push_len 'u
| Push_count 'u int
| Push_tail 'u
| Push_take 'u int
| Push_look 'u int
| Push_end 'u int
| Push_use 'u int
| Push_data 'u int
| Push_find 'u int int
| Push_walk 'u int int int int
| Push_move 'u int int int int
| Push_link 'u int int int int
| Push_swing 'u int int
| Push_up 'u

text \<open>The next access, what follows, and the result code when the call returns. \<open>None\<close> is an access outside the memory.\<close>

fun push_step :: "'u lf_queue \<Rightarrow> 'u push_pc \<Rightarrow> ('u lf_queue \<times> 'u push_pc \<times> int option) option" where
  "push_step q Push_idle = Some (q, Push_idle, None)"
| "push_step q (Push_len d) =
     Some (if w_len q \<ge> max_unit_num q then (q, Push_idle, Some (-1)) else (q, Push_count d (w_len q), None))"
| "push_step q (Push_count d n) =
     Some (if w_len q = n then (q\<lparr>w_len := n + 1\<rparr>, Push_tail d, None) else (q, Push_len d, None))"
| "push_step q (Push_tail d) = Some (q, Push_take d (w_tail q), None)"
| "push_step q (Push_take d old) =
     (let w = old mod (max_unit_num q + 1)
      in Some (if w_tail q = old then (q\<lparr>w_tail := w + 1\<rparr>, Push_look d w, None) else (q, Push_tail d, None)))"
| "push_step q (Push_look d w) = do {
     u \<leftarrow> units q w;
     Some (q, if use_flag u then Push_tail d else Push_end d w, None) }"
| "push_step q (Push_end d w) = do {
     u \<leftarrow> units q w;
     Some (set_unit q w (u\<lparr>u_next := LIST_END\<rparr>), Push_use d w, None) }"
| "push_step q (Push_use d w) = do {
     u \<leftarrow> units q w;
     Some (set_unit q w (u\<lparr>use_flag := True\<rparr>), Push_data d w, None) }"
| "push_step q (Push_data d w) = do {
     u \<leftarrow> units q w;
     Some (set_unit q w (u\<lparr>u_data := d\<rparr>), Push_find d w 0, None) }"
| "push_step q (Push_find d w tries) =
     Some (q, if tries + 1 \<ge> 3 then Push_walk d w (tries + 1) (p_tail q) (p_tail q)
              else Push_link d w (tries + 1) (p_tail q) (p_tail q), None)"
| "push_step q (Push_walk d w tries old p) = do {
     u \<leftarrow> units q p;
     Some (q, if u_next u \<noteq> LIST_END then Push_move d w tries old p else Push_link d w tries old p, None) }"
| "push_step q (Push_move d w tries old p) = do {
     u \<leftarrow> units q p;
     Some (q, Push_walk d w tries old (u_next u), None) }"
| "push_step q (Push_link d w tries old p) = do {
     u \<leftarrow> units q p;
     Some (if u_next u = LIST_END then (set_unit q p (u\<lparr>u_next := w\<rparr>), Push_swing d w old, None)
           else (q, Push_find d w tries, None)) }"
| "push_step q (Push_swing d w old) = Some (if p_tail q = old then q\<lparr>p_tail := w\<rparr> else q, Push_up d, None)"
| "push_step q (Push_up d) = Some (q\<lparr>r_len := r_len q + 1\<rparr>, Push_idle, Some 0)"

text \<open>The popping thread: \<open>p\<close> is the head it takes; its \<open>next\<close> is read three times. \<open>d\<close> is the unit that was read.\<close>

datatype 'u pop_pc =
  Pop_idle
| Pop_len
| Pop_count int
| Pop_head
| Pop_next int
| Pop_take int int
| Pop_unit int
| Pop_data int int
| Pop_again int 'u
| Pop_free int 'u
| Pop_down 'u

fun pop_step :: "'u lf_queue \<Rightarrow> 'u pop_pc \<Rightarrow> ('u lf_queue \<times> 'u pop_pc \<times> (int \<times> 'u option) option) option" where
  "pop_step q Pop_idle = Some (q, Pop_idle, None)"
| "pop_step q Pop_len = Some (if r_len q \<le> 0 then (q, Pop_idle, Some (-1, None)) else (q, Pop_count (r_len q), None))"
| "pop_step q (Pop_count n) =
     Some (if r_len q = n then (q\<lparr>r_len := n - 1\<rparr>, Pop_head, None) else (q, Pop_len, None))"
| "pop_step q Pop_head = Some (q, Pop_next (p_head q), None)"
| "pop_step q (Pop_next p) = do { u \<leftarrow> units q p; Some (q, Pop_take p (u_next u), None) }"
| "pop_step q (Pop_take p nx) =
     Some (if p_head q = p then (q\<lparr>p_head := nx\<rparr>, Pop_unit p, None) else (q, Pop_head, None))"
| "pop_step q (Pop_unit p) = do { u \<leftarrow> units q p; Some (q, Pop_data p (u_next u), None) }"
| "pop_step q (Pop_data p i) = do { v \<leftarrow> units q i; Some (q, Pop_again p (u_data v), None) }"
| "pop_step q (Pop_again p d) = do { u \<leftarrow> units q p; Some (q, Pop_free (u_next u) d, None) }"
| "pop_step q (Pop_free i d) = do {
     v \<leftarrow> units q i;
     Some (set_unit q i (v\<lparr>use_flag := False\<rparr>), Pop_down d, None) }"
| "pop_step q (Pop_down d) = Some (q\<lparr>w_len := w_len q - 1\<rparr>, Pop_idle, Some (0, Some d))"

section \<open>Runs\<close>

text \<open>The calls that have returned, in the order they did, with their results.\<close>

record 'u lf_run =
  lq :: "'u lf_queue"
  pusher :: "'u push_pc"
  popper :: "'u pop_pc"
  calls :: "('u queue_op \<times> 'u queue_result) list"

fun push_arg :: "'u push_pc \<Rightarrow> 'u option" where
  "push_arg (Push_len d) = Some d"
| "push_arg (Push_up d) = Some d"
| "push_arg _ = None"

inductive pusher_step :: "'u lf_run \<Rightarrow> 'u lf_run \<Rightarrow> bool" where
  Call_push: "pusher \<sigma> = Push_idle \<Longrightarrow> pusher_step \<sigma> (\<sigma>\<lparr>pusher := Push_len d\<rparr>)"
| Push_on: "push_step (lq \<sigma>) (pusher \<sigma>) = Some (q, pc, None) \<Longrightarrow> pusher_step \<sigma> (\<sigma>\<lparr>lq := q, pusher := pc\<rparr>)"
| Push_return: "push_step (lq \<sigma>) (pusher \<sigma>) = Some (q, pc, Some rc) \<Longrightarrow> push_arg (pusher \<sigma>) = Some d \<Longrightarrow>
     pusher_step \<sigma> (\<sigma>\<lparr>lq := q, pusher := pc, calls := calls \<sigma> @ [(Push d, Pushed rc)]\<rparr>)"

inductive popper_step :: "'u lf_run \<Rightarrow> 'u lf_run \<Rightarrow> bool" where
  Call_pop: "popper \<sigma> = Pop_idle \<Longrightarrow> popper_step \<sigma> (\<sigma>\<lparr>popper := Pop_len\<rparr>)"
| Pop_on: "pop_step (lq \<sigma>) (popper \<sigma>) = Some (q, pc, None) \<Longrightarrow> popper_step \<sigma> (\<sigma>\<lparr>lq := q, popper := pc\<rparr>)"
| Pop_return: "pop_step (lq \<sigma>) (popper \<sigma>) = Some (q, pc, Some (rc, x)) \<Longrightarrow>
     popper_step \<sigma> (\<sigma>\<lparr>lq := q, popper := pc, calls := calls \<sigma> @ [(Pop, Popped rc x)]\<rparr>)"

definition lf_step :: "'u lf_run \<Rightarrow> 'u lf_run \<Rightarrow> bool" where
  "lf_step \<sigma> \<sigma>' \<longleftrightarrow> pusher_step \<sigma> \<sigma>' \<or> popper_step \<sigma> \<sigma>'"

definition lf_start :: "'u lf_queue \<Rightarrow> 'u lf_run" where
  "lf_start q = \<lparr>lq = q, pusher = Push_idle, popper = Pop_idle, calls = []\<rparr>"

section \<open>Where things are\<close>

text \<open>
  The oldest list node is \<open>s\<close>, a sentinel; behind it are \<open>m\<close> linked units, in consecutive cells. Once the popping thread
  has moved the head on, the sentinel is the unit it came from until it has given the element back.
\<close>

definition cell :: "'u lf_queue \<Rightarrow> int \<Rightarrow> int \<Rightarrow> int" where
  "cell q s k = (s + k) mod (max_unit_num q + 1)"

definition node :: "'u lf_queue \<Rightarrow> int \<Rightarrow> int \<Rightarrow> int" where
  "node q s k = (if k = 0 then s else cell q s k)"

definition nxt :: "'u lf_queue \<Rightarrow> int \<Rightarrow> int" where "nxt q i = u_next (the (units q i))"
definition flagged :: "'u lf_queue \<Rightarrow> int \<Rightarrow> bool" where "flagged q i = use_flag (the (units q i))"
definition dat :: "'u lf_queue \<Rightarrow> int \<Rightarrow> 'u" where "dat q i = u_data (the (units q i))"

definition sized :: "'u lf_queue \<Rightarrow> bool" where
  "sized q \<longleftrightarrow> 1 \<le> max_unit_num q \<and> (\<forall>i. units q i \<noteq> None \<longleftrightarrow> -1 \<le> i \<and> i \<le> max_unit_num q)"

definition ring :: "'u lf_queue \<Rightarrow> int \<Rightarrow> int \<Rightarrow> bool" where
  "ring q s m \<longleftrightarrow> -1 \<le> s \<and> s \<le> max_unit_num q \<and> 0 \<le> m \<and>
     (\<forall>k. 0 \<le> k \<and> k < m \<longrightarrow> nxt q (node q s k) = cell q s (k + 1)) \<and> nxt q (node q s m) = LIST_END"

definition flags :: "'u lf_queue \<Rightarrow> int \<Rightarrow> int \<Rightarrow> int \<Rightarrow> bool" where
  "flags q s a b \<longleftrightarrow> (\<forall>i. 0 \<le> i \<and> i \<le> max_unit_num q \<longrightarrow> (flagged q i \<longleftrightarrow> (\<exists>k. a \<le> k \<and> k \<le> b \<and> i = cell q s k)))"

definition elems :: "'u lf_queue \<Rightarrow> int \<Rightarrow> int \<Rightarrow> 'u list" where
  "elems q s j = map (\<lambda>k. dat q (cell q s (int k))) [1..<nat j + 1]"

text \<open>What the threads have done so far, as numbers: the pushing one counted, took, flagged, linked; the popping one reserved, moved, cleared.\<close>

fun counted :: "'u push_pc \<Rightarrow> int" where
  "counted (Push_tail d) = 1" | "counted (Push_take d old) = 1" | "counted (Push_look d w) = 1" | "counted (Push_end d w) = 1"
| "counted (Push_use d w) = 1" | "counted (Push_data d w) = 1" | "counted (Push_find d w t) = 1" | "counted (Push_link d w t old p) = 1"
| "counted _ = 0"

fun taken :: "'u push_pc \<Rightarrow> int" where
  "taken (Push_look d w) = 1" | "taken (Push_end d w) = 1" | "taken (Push_use d w) = 1" | "taken (Push_data d w) = 1"
| "taken (Push_find d w t) = 1" | "taken (Push_link d w t old p) = 1" | "taken _ = 0"

fun marked :: "'u push_pc \<Rightarrow> int" where
  "marked (Push_data d w) = 1" | "marked (Push_find d w t) = 1" | "marked (Push_link d w t old p) = 1" | "marked _ = 0"

fun linked :: "'u push_pc \<Rightarrow> int" where
  "linked (Push_swing d w old) = 1" | "linked (Push_up d) = 1" | "linked _ = 0"

fun unswung :: "'u push_pc \<Rightarrow> int" where
  "unswung (Push_swing d w old) = 1" | "unswung _ = 0"

fun reserved :: "'u pop_pc \<Rightarrow> int" where
  "reserved Pop_idle = 0" | "reserved Pop_len = 0" | "reserved (Pop_count n) = 0" | "reserved _ = 1"

fun moved :: "'u pop_pc \<Rightarrow> bool" where
  "moved (Pop_unit p) = True" | "moved (Pop_data p i) = True" | "moved (Pop_again p d) = True" | "moved (Pop_free i d) = True"
| "moved (Pop_down d) = True" | "moved _ = False"

fun cleared :: "'u pop_pc \<Rightarrow> int" where
  "cleared (Pop_down d) = 1" | "cleared _ = 0"

fun push_locals :: "'u lf_queue \<Rightarrow> int \<Rightarrow> int \<Rightarrow> 'u push_pc \<Rightarrow> bool" where
  "push_locals q s m (Push_count d n) = (n < max_unit_num q)"
| "push_locals q s m (Push_take d old) = (old = w_tail q)"
| "push_locals q s m (Push_look d w) = (w = cell q s (m + 1))"
| "push_locals q s m (Push_end d w) = (w = cell q s (m + 1))"
| "push_locals q s m (Push_use d w) = (w = cell q s (m + 1) \<and> nxt q w = LIST_END)"
| "push_locals q s m (Push_data d w) = (w = cell q s (m + 1) \<and> nxt q w = LIST_END)"
| "push_locals q s m (Push_find d w t) = (w = cell q s (m + 1) \<and> nxt q w = LIST_END \<and> dat q w = d \<and> t = 0)"
| "push_locals q s m (Push_walk d w t old p) = False"
| "push_locals q s m (Push_move d w t old p) = False"
| "push_locals q s m (Push_link d w t old p) =
     (w = cell q s (m + 1) \<and> nxt q w = LIST_END \<and> dat q w = d \<and> old = node q s m \<and> p = node q s m)"
| "push_locals q s m (Push_swing d w old) = (w = cell q s m \<and> old = node q s (m - 1) \<and> dat q w = d)"
| "push_locals q s m (Push_up d) = (dat q (cell q s m) = d)"
| "push_locals q s m _ = True"

fun pop_locals :: "'u lf_queue \<Rightarrow> int \<Rightarrow> 'u pop_pc \<Rightarrow> bool" where
  "pop_locals q s (Pop_count n) = (0 < n)"
| "pop_locals q s (Pop_next p) = (p = s)"
| "pop_locals q s (Pop_take p nx) = (p = s \<and> nx = cell q s 1)"
| "pop_locals q s (Pop_unit p) = (p = s)"
| "pop_locals q s (Pop_data p i) = (p = s \<and> i = cell q s 1)"
| "pop_locals q s (Pop_again p d) = (p = s \<and> d = dat q (cell q s 1))"
| "pop_locals q s (Pop_free i d) = (i = cell q s 1 \<and> d = dat q (cell q s 1))"
| "pop_locals q s (Pop_down d) = (d = dat q (cell q s 1))"
| "pop_locals q s _ = True"

definition lf_inv :: "'u lf_queue \<Rightarrow> 'u push_pc \<Rightarrow> 'u pop_pc \<Rightarrow> int \<Rightarrow> int \<Rightarrow> bool" where
  "lf_inv q pp cp s m \<longleftrightarrow> sized q \<and> ring q s m \<and> flags q s (1 + cleared cp) (m + marked pp) \<and>
     0 \<le> w_tail q \<and> w_tail q mod (max_unit_num q + 1) = cell q s (m + 1 + taken pp) \<and>
     w_len q = m + counted pp \<and> w_len q \<le> max_unit_num q \<and>
     r_len q = m - linked pp - reserved cp \<and> 0 \<le> r_len q \<and>
     p_head q = (if moved cp then cell q s 1 else s) \<and> p_tail q = node q s (m - unswung pp) \<and>
     push_locals q s m pp \<and> pop_locals q s cp"

definition lf_holds :: "'u lf_queue \<Rightarrow> 'u push_pc \<Rightarrow> 'u pop_pc \<Rightarrow> 'u list \<Rightarrow> bool" where
  "lf_holds q pp cp xs \<longleftrightarrow> (\<exists>s m. lf_inv q pp cp s m \<and> xs = elems q s (m - linked pp))"

section \<open>Cells\<close>

lemma cell_range: "sized q \<Longrightarrow> 0 \<le> cell q s k \<and> cell q s k \<le> max_unit_num q"
  using pos_mod_bound [of "max_unit_num q + 1" "s + k"] by (simp add: cell_def sized_def)

lemma cell_inj: "j < k \<Longrightarrow> k - j \<le> max_unit_num q \<Longrightarrow> cell q s j \<noteq> cell q s k"
proof
  assume j: "j < k" "k - j \<le> max_unit_num q" and "cell q s j = cell q s k"
  then have "(s + k - (s + j)) mod (max_unit_num q + 1) = 0" by (metis cell_def mod_eq_dvd_iff dvd_imp_mod_0)
  then show False using j by (simp add: mod_pos_pos_trivial)
qed

lemma cell_eq: "\<bar>k - j\<bar> \<le> max_unit_num q \<Longrightarrow> cell q s j = cell q s k \<longleftrightarrow> j = k"
  using cell_inj [of j k q s] cell_inj [of k j q s] by (cases "j = k"; cases "j < k") auto

lemma sentinel_not_cell: "-1 \<le> s \<Longrightarrow> s \<le> max_unit_num q \<Longrightarrow> sized q \<Longrightarrow> 0 < k \<Longrightarrow> k \<le> max_unit_num q \<Longrightarrow> cell q s k \<noteq> s"
proof
  assume s: "-1 \<le> s" "s \<le> max_unit_num q" "sized q" "0 < k" "k \<le> max_unit_num q" and e: "cell q s k = s"
  then have "0 \<le> s" using cell_range [of q s k] by simp
  then have "cell q s 0 = s" using s by (simp add: cell_def)
  then show False using cell_inj [of 0 k q s] s e by simp
qed

lemma node_eq: "sized q \<Longrightarrow> -1 \<le> s \<Longrightarrow> s \<le> max_unit_num q \<Longrightarrow> 0 \<le> j \<Longrightarrow> 0 \<le> k \<Longrightarrow> j \<le> max_unit_num q \<Longrightarrow> k \<le> max_unit_num q \<Longrightarrow>
   node q s j = node q s k \<longleftrightarrow> j = k"
  using sentinel_not_cell [of s q j] sentinel_not_cell [of s q k] cell_eq [of k j q s] by (auto simp: node_def)

lemma node_range: "sized q \<Longrightarrow> -1 \<le> s \<Longrightarrow> s \<le> max_unit_num q \<Longrightarrow> -1 \<le> node q s k \<and> node q s k \<le> max_unit_num q"
  using cell_range [of q s k] by (auto simp: node_def)

lemma node_cell: "k \<noteq> 0 \<Longrightarrow> node q s k = cell q s k"
  by (simp add: node_def)

lemma cell_cell: "cell q (cell q s j) k = cell q s (j + k)"
  by (simp add: cell_def mod_add_left_eq add.assoc)

lemma unit_there: "sized q \<Longrightarrow> -1 \<le> i \<Longrightarrow> i \<le> max_unit_num q \<Longrightarrow> \<exists>u. units q i = Some u"
  by (simp add: sized_def) 

text \<open>A write to one unit.\<close>

lemma put_simps [simp]:
  "nxt (set_unit q i u) j = (if j = i then u_next u else nxt q j)" "flagged (set_unit q i u) j = (if j = i then use_flag u else flagged q j)"
  "dat (set_unit q i u) j = (if j = i then u_data u else dat q j)" "cell (set_unit q i u) s k = cell q s k" "node (set_unit q i u) s k = node q s k"
  by (simp_all add: nxt_def flagged_def dat_def cell_def node_def)

lemma field_simps_lf [simp]:
  "nxt (q\<lparr>w_len := a\<rparr>) = nxt q" "nxt (q\<lparr>r_len := a\<rparr>) = nxt q" "nxt (q\<lparr>w_tail := a\<rparr>) = nxt q" "nxt (q\<lparr>p_head := a\<rparr>) = nxt q" "nxt (q\<lparr>p_tail := a\<rparr>) = nxt q"
  "flagged (q\<lparr>w_len := a\<rparr>) = flagged q" "flagged (q\<lparr>r_len := a\<rparr>) = flagged q" "flagged (q\<lparr>w_tail := a\<rparr>) = flagged q"
  "flagged (q\<lparr>p_head := a\<rparr>) = flagged q" "flagged (q\<lparr>p_tail := a\<rparr>) = flagged q"
  "dat (q\<lparr>w_len := a\<rparr>) = dat q" "dat (q\<lparr>r_len := a\<rparr>) = dat q" "dat (q\<lparr>w_tail := a\<rparr>) = dat q" "dat (q\<lparr>p_head := a\<rparr>) = dat q" "dat (q\<lparr>p_tail := a\<rparr>) = dat q"
  "cell (q\<lparr>w_len := a\<rparr>) = cell q" "cell (q\<lparr>r_len := a\<rparr>) = cell q" "cell (q\<lparr>w_tail := a\<rparr>) = cell q" "cell (q\<lparr>p_head := a\<rparr>) = cell q" "cell (q\<lparr>p_tail := a\<rparr>) = cell q"
  "node (q\<lparr>w_len := a\<rparr>) = node q" "node (q\<lparr>r_len := a\<rparr>) = node q" "node (q\<lparr>w_tail := a\<rparr>) = node q" "node (q\<lparr>p_head := a\<rparr>) = node q" "node (q\<lparr>p_tail := a\<rparr>) = node q"
  by (simp_all add: nxt_def flagged_def dat_def cell_def node_def fun_eq_iff)

lemma parts_fields [simp]:
  "sized (q\<lparr>w_len := a\<rparr>) = sized q" "sized (q\<lparr>r_len := a\<rparr>) = sized q" "sized (q\<lparr>w_tail := a\<rparr>) = sized q" "sized (q\<lparr>p_head := a\<rparr>) = sized q" "sized (q\<lparr>p_tail := a\<rparr>) = sized q"
  "ring (q\<lparr>w_len := a\<rparr>) = ring q" "ring (q\<lparr>r_len := a\<rparr>) = ring q" "ring (q\<lparr>w_tail := a\<rparr>) = ring q" "ring (q\<lparr>p_head := a\<rparr>) = ring q" "ring (q\<lparr>p_tail := a\<rparr>) = ring q"
  "flags (q\<lparr>w_len := a\<rparr>) = flags q" "flags (q\<lparr>r_len := a\<rparr>) = flags q" "flags (q\<lparr>w_tail := a\<rparr>) = flags q" "flags (q\<lparr>p_head := a\<rparr>) = flags q" "flags (q\<lparr>p_tail := a\<rparr>) = flags q"
  "elems (q\<lparr>w_len := a\<rparr>) = elems q" "elems (q\<lparr>r_len := a\<rparr>) = elems q" "elems (q\<lparr>w_tail := a\<rparr>) = elems q" "elems (q\<lparr>p_head := a\<rparr>) = elems q" "elems (q\<lparr>p_tail := a\<rparr>) = elems q"
  by (simp_all add: sized_def ring_def flags_def elems_def fun_eq_iff)

section \<open>One write\<close>

lemma pop_locals_fields [simp]:
  "pop_locals (q\<lparr>w_len := a\<rparr>) s cp = pop_locals q s cp" "pop_locals (q\<lparr>r_len := a\<rparr>) s cp = pop_locals q s cp"
  "pop_locals (q\<lparr>w_tail := a\<rparr>) s cp = pop_locals q s cp" "pop_locals (q\<lparr>p_head := a\<rparr>) s cp = pop_locals q s cp"
  "pop_locals (q\<lparr>p_tail := a\<rparr>) s cp = pop_locals q s cp"
  by (cases cp; simp)+

lemma push_locals_fields [simp]:
  "push_locals (q\<lparr>w_len := a\<rparr>) s m pp = push_locals q s m pp" "push_locals (q\<lparr>r_len := a\<rparr>) s m pp = push_locals q s m pp"
  "push_locals (q\<lparr>p_head := a\<rparr>) s m pp = push_locals q s m pp" "push_locals (q\<lparr>p_tail := a\<rparr>) s m pp = push_locals q s m pp"
  by (cases pp; simp)+

lemma sized_put: "units q i \<noteq> None \<Longrightarrow> sized (set_unit q i u) = sized q"
  by (auto simp: sized_def)

lemma ring_put: "ring q s m \<Longrightarrow> (\<forall>k. 0 \<le> k \<and> k \<le> m \<longrightarrow> node q s k \<noteq> i) \<or> u_next u = nxt q i \<Longrightarrow> ring (set_unit q i u) s m"
  by (fastforce simp: ring_def)

lemma flags_put: "use_flag u = flagged q i \<Longrightarrow> flags (set_unit q i u) s a b = flags q s a b"
proof -
  assume "use_flag u = flagged q i"
  then have "flagged (set_unit q i u) = flagged q" by (simp add: fun_eq_iff)
  then show ?thesis by (simp add: flags_def del: put_simps(2))
qed

lemma elems_put: "(\<forall>k. 1 \<le> k \<and> k \<le> j \<longrightarrow> cell q s k \<noteq> i) \<or> u_data u = dat q i \<Longrightarrow> elems (set_unit q i u) s j = elems q s j"
proof -
  assume h: "(\<forall>k. 1 \<le> k \<and> k \<le> j \<longrightarrow> cell q s k \<noteq> i) \<or> u_data u = dat q i"
  have "dat (set_unit q i u) (cell q s (int k)) = dat q (cell q s (int k))" if "k \<in> set [1..<nat j + 1]" for k
    using h that by (auto dest!: spec [of _ "int k"])
  then show ?thesis by (simp add: elems_def)
qed

text \<open>A free unit is none of the list's.\<close>

lemma free_unit:
  assumes "sized q" "-1 \<le> s" "s \<le> max_unit_num q" "0 \<le> m" "m + 1 \<le> max_unit_num q"
  shows "0 \<le> k \<Longrightarrow> k \<le> m \<Longrightarrow> node q s k \<noteq> cell q s (m + 1)" "1 \<le> k \<Longrightarrow> k \<le> m \<Longrightarrow> cell q s k \<noteq> cell q s (m + 1)"
    "s \<noteq> cell q s (m + 1)" "\<exists>u. units q (cell q s (m + 1)) = Some u"
proof -
  show "node q s k \<noteq> cell q s (m + 1)" if "0 \<le> k" "k \<le> m"
    using node_eq [of q s k "m + 1"] that assms by (auto simp: node_cell)
  show "1 \<le> k \<Longrightarrow> k \<le> m \<Longrightarrow> cell q s k \<noteq> cell q s (m + 1)" using cell_inj [of k "m + 1" q s] assms by simp
  show "s \<noteq> cell q s (m + 1)" using sentinel_not_cell [of s q "m + 1"] assms by auto
  show "\<exists>u. units q (cell q s (m + 1)) = Some u"
    using unit_there [OF assms(1)] cell_range [OF assms(1), of s "m + 1"] by simp
qed

lemma pop_locals_put:
  assumes "pop_locals q s cp" "i \<noteq> cell q s 1 \<or> u_data u = dat q i"
  shows "pop_locals (set_unit q i u) s cp"
  using assms by (cases cp) auto

lemma flags_more:
  assumes f: "flags q s a b" and z: "sized q" and ab: "a \<le> b + 1" "b + 1 - a \<le> max_unit_num q"
  shows "flags (set_unit q (cell q s (b + 1)) ((the (units q (cell q s (b + 1))))\<lparr>use_flag := True\<rparr>)) s a (b + 1)"
proof -
  have e: "(\<exists>k. a \<le> k \<and> k \<le> b + 1 \<and> i = cell q s k) \<longleftrightarrow> i = cell q s (b + 1) \<or> (\<exists>k. a \<le> k \<and> k \<le> b \<and> i = cell q s k)" for i
  proof
    assume "\<exists>k. a \<le> k \<and> k \<le> b + 1 \<and> i = cell q s k"
    then obtain k where "a \<le> k" "k \<le> b + 1" "i = cell q s k" by blast
    then show "i = cell q s (b + 1) \<or> (\<exists>k. a \<le> k \<and> k \<le> b \<and> i = cell q s k)" by (cases "k = b + 1") auto
  next
    assume "i = cell q s (b + 1) \<or> (\<exists>k. a \<le> k \<and> k \<le> b \<and> i = cell q s k)"
    then show "\<exists>k. a \<le> k \<and> k \<le> b + 1 \<and> i = cell q s k" using ab(1) by (elim disjE exE) (auto intro: exI [of _ "b + 1"])
  qed
  show ?thesis using f by (simp add: flags_def e)
qed

lemma flags_less:
  assumes f: "flags q s a b" and z: "sized q" and ab: "a \<le> b" "b - a \<le> max_unit_num q"
  shows "flags (set_unit q (cell q s a) ((the (units q (cell q s a)))\<lparr>use_flag := False\<rparr>)) s (a + 1) b"
proof -
  have e: "i \<noteq> cell q s a \<Longrightarrow> (\<exists>k. a \<le> k \<and> k \<le> b \<and> i = cell q s k) \<longleftrightarrow> (\<exists>k. a + 1 \<le> k \<and> k \<le> b \<and> i = cell q s k)" for i
    by (metis dual_order.order_iff_strict zless_imp_add1_zle add1_zle_eq order.strict_implies_order)
  have n: "\<not> (\<exists>k. a + 1 \<le> k \<and> k \<le> b \<and> cell q s a = cell q s k)" using cell_inj [of a _ q s] ab(2) by auto
  show ?thesis using f n by (auto simp: flags_def e)
qed

section \<open>Every step keeps it\<close>

lemma inv_parts:
  assumes "lf_inv q pp cp s m"
  shows "sized q" "-1 \<le> s" "s \<le> max_unit_num q" "0 \<le> m" "linked pp + reserved cp \<le> m" "m + counted pp \<le> max_unit_num q"
  using assms by (auto simp: lf_inv_def ring_def)

lemma phases: "0 \<le> reserved cp" "reserved cp \<le> 1" "0 \<le> cleared cp" "cleared cp \<le> reserved cp"
  by (cases cp; simp)+

lemma push_phases: "0 \<le> linked pp" "linked pp \<le> 1" "0 \<le> marked pp" "marked pp \<le> counted pp" "unswung pp \<le> linked pp" "0 \<le> unswung pp"
  by (cases pp; simp)+

text \<open>The steps that only read, or write a counter.\<close>

lemma push_plain:
  assumes inv: "lf_inv q pp cp s m"
  shows "pp = Push_len d \<Longrightarrow> w_len q < max_unit_num q \<Longrightarrow> lf_inv q (Push_count d (w_len q)) cp s m"
    "pp = Push_len d \<Longrightarrow> lf_inv q Push_idle cp s m"
    "pp = Push_count d n \<Longrightarrow> w_len q = n \<Longrightarrow> lf_inv (q\<lparr>w_len := n + 1\<rparr>) (Push_tail d) cp s m"
    "pp = Push_count d n \<Longrightarrow> lf_inv q (Push_len d) cp s m"
    "pp = Push_tail d \<Longrightarrow> lf_inv q (Push_take d (w_tail q)) cp s m"
    "pp = Push_find d w t \<Longrightarrow> t = 0 \<and> lf_inv q (Push_link d w (t + 1) (p_tail q) (p_tail q)) cp s m"
    "pp = Push_swing d w old \<Longrightarrow> p_tail q = old \<and> lf_inv (q\<lparr>p_tail := w\<rparr>) (Push_up d) cp s m"
    "pp = Push_up d \<Longrightarrow> lf_inv (q\<lparr>r_len := r_len q + 1\<rparr>) Push_idle cp s m"
  using inv inv_parts [OF inv] phases(1) [of cp] by (auto simp: lf_inv_def node_cell node_def)

lemma push_take_inv:
  assumes inv: "lf_inv q (Push_take d old) cp s m"
  shows "w_tail q = old \<and> lf_inv (q\<lparr>w_tail := old mod (max_unit_num q + 1) + 1\<rparr>) (Push_look d (old mod (max_unit_num q + 1))) cp s m"
proof -
  let ?N = "max_unit_num q + 1"
  have N: "0 < ?N" using inv_parts [OF inv] by (simp add: sized_def)
  have c: "old mod ?N = cell q s (m + 1)" using inv by (simp add: lf_inv_def)
  have "(cell q s (m + 1) + 1) mod ?N = (s + (m + 1) + 1) mod ?N" by (simp only: cell_def mod_add_left_eq)
  also have "\<dots> = cell q s (2 + m)" by (simp add: cell_def algebra_simps)
  finally have "(cell q s (m + 1) + 1) mod ?N = cell q s (2 + m)" .
  then show ?thesis using inv c N by (auto simp: lf_inv_def cell_def)
qed

lemma push_look_inv:
  assumes inv: "lf_inv q (Push_look d w) cp s m"
  shows "\<exists>u. units q w = Some u \<and> \<not> use_flag u \<and> lf_inv q (Push_end d w) cp s m"
proof -
  note p = inv_parts [OF inv]
  have w: "w = cell q s (m + 1)" using inv by (simp add: lf_inv_def)
  obtain u where u: "units q w = Some u" using free_unit(4) [of q s m] p w by auto
  have "flags q s (1 + cleared cp) m" using inv by (simp add: lf_inv_def)
  moreover have "0 \<le> cleared cp" by (rule phases)
  ultimately have "\<not> flagged q w"
    using free_unit(2) [of q s m] p w cell_range [OF p(1), of s "m + 1"] by (fastforce simp: flags_def)
  then show ?thesis using inv u by (auto simp: lf_inv_def flagged_def)
qed

text \<open>A write to the unit that the pushing thread holds.\<close>

lemma pop_locals_write:
  assumes "pop_locals q s cp" "reserved cp = 1 \<longrightarrow> i \<noteq> cell q s 1 \<or> u_data u = dat q i"
  shows "pop_locals (set_unit q i u) s cp"
  using assms by (cases cp) auto

lemma write_free:
  assumes inv: "lf_inv q pp cp s m" and w: "w = cell q s (m + 1)" and u: "units q w = Some u"
    and c: "counted pp = 1" "linked pp = 0" "counted pp' = 1" "taken pp' = taken pp" "linked pp' = 0"
    and new: "flags (set_unit q w u') s (1 + cleared cp) (m + marked pp')" "push_locals (set_unit q w u') s m pp'"
  shows "lf_inv (set_unit q w u') pp' cp s m \<and> elems (set_unit q w u') s m = elems q s m"
proof -
  note p = inv_parts [OF inv]
  have m: "m + 1 \<le> max_unit_num q" using p(6) c(1) by simp
  note f = free_unit [OF p(1-4) m]
  have s: "unswung pp = 0" "unswung pp' = 0" using push_phases [of pp] push_phases [of pp'] c(2,5) by simp_all
  have "ring (set_unit q w u') s m" by (rule ring_put) (use inv f(1) w in \<open>auto simp: lf_inv_def\<close>)
  moreover have "pop_locals (set_unit q w u') s cp"
  proof (rule pop_locals_write)
    show "reserved cp = 1 \<longrightarrow> w \<noteq> cell q s 1 \<or> u_data u' = dat q w" using f(2) [of 1] p(5) c(2) w by auto
  qed (use inv in \<open>simp add: lf_inv_def\<close>)
  moreover have "elems (set_unit q w u') s m = elems q s m" by (rule elems_put) (use f(2) w in auto)
  ultimately show ?thesis using inv new c s u sized_put [of q w u'] by (simp add: lf_inv_def)
qed

lemma push_write_inv:
  assumes inv: "lf_inv q pp cp s m"
  shows "pp = Push_end d w \<Longrightarrow> \<exists>u. units q w = Some u \<and>
      (let q' = set_unit q w (u\<lparr>u_next := LIST_END\<rparr>) in lf_inv q' (Push_use d w) cp s m \<and> elems q' s m = elems q s m)"
    "pp = Push_use d w \<Longrightarrow> \<exists>u. units q w = Some u \<and>
      (let q' = set_unit q w (u\<lparr>use_flag := True\<rparr>) in lf_inv q' (Push_data d w) cp s m \<and> elems q' s m = elems q s m)"
    "pp = Push_data d w \<Longrightarrow> \<exists>u. units q w = Some u \<and>
      (let q' = set_unit q w (u\<lparr>u_data := d\<rparr>) in lf_inv q' (Push_find d w 0) cp s m \<and> elems q' s m = elems q s m)"
proof -
  note p = inv_parts [OF inv]
  have fl: "flags q s (1 + cleared cp) (m + marked pp)" using inv by (simp add: lf_inv_def)
  {
    assume pp: "pp = Push_end d w"
    then have w: "w = cell q s (m + 1)" and m: "m + 1 \<le> max_unit_num q" using inv p(6) by (simp_all add: lf_inv_def)
    obtain u where u: "units q w = Some u" using free_unit(4) [OF p(1-4) m] w by blast
    have "flags (set_unit q w (u\<lparr>u_next := LIST_END\<rparr>)) s (1 + cleared cp) m"
      using fl pp u by (subst flags_put) (simp_all add: flagged_def)
    then show "\<exists>u. units q w = Some u \<and>
      (let q' = set_unit q w (u\<lparr>u_next := LIST_END\<rparr>) in lf_inv q' (Push_use d w) cp s m \<and> elems q' s m = elems q s m)"
      using write_free [OF inv w u, of "Push_use d w"] u pp w by (auto simp: Let_def)
  next
    assume pp: "pp = Push_use d w"
    then have w: "w = cell q s (m + 1)" and e: "nxt q w = LIST_END" and m: "m + 1 \<le> max_unit_num q"
      using inv p(6) by (auto simp: lf_inv_def)
    obtain u where u: "units q w = Some u" using free_unit(4) [OF p(1-4) m] w by blast
    have "flags (set_unit q w (u\<lparr>use_flag := True\<rparr>)) s (1 + cleared cp) (m + 1)"
      using flags_more [of q s "1 + cleared cp" m] fl pp p u w phases [of cp] by simp
    then show "\<exists>u. units q w = Some u \<and>
      (let q' = set_unit q w (u\<lparr>use_flag := True\<rparr>) in lf_inv q' (Push_data d w) cp s m \<and> elems q' s m = elems q s m)"
      using write_free [OF inv w u, of "Push_data d w"] u pp w e by (auto simp: Let_def nxt_def)
  next
    assume pp: "pp = Push_data d w"
    then have w: "w = cell q s (m + 1)" and e: "nxt q w = LIST_END" and m: "m + 1 \<le> max_unit_num q"
      using inv p(6) by (auto simp: lf_inv_def)
    obtain u where u: "units q w = Some u" using free_unit(4) [OF p(1-4) m] w by blast
    have "flags (set_unit q w (u\<lparr>u_data := d\<rparr>)) s (1 + cleared cp) (m + 1)"
      using fl pp u by (subst flags_put) (simp_all add: flagged_def)
    then show "\<exists>u. units q w = Some u \<and>
      (let q' = set_unit q w (u\<lparr>u_data := d\<rparr>) in lf_inv q' (Push_find d w 0) cp s m \<and> elems q' s m = elems q s m)"
      using write_free [OF inv w u, of "Push_find d w 0"] u pp w e by (auto simp: Let_def nxt_def)
  }
qed

text \<open>The new unit is linked: it counts as one of the list from here on.\<close>

lemma push_link_inv:
  assumes inv: "lf_inv q (Push_link d w t old p) cp s m"
  shows "\<exists>u. units q p = Some u \<and> u_next u = LIST_END \<and>
    (let q' = set_unit q p (u\<lparr>u_next := w\<rparr>) in lf_inv q' (Push_swing d w old) cp s (m + 1) \<and> elems q' s m = elems q s m)"
proof -
  note a = inv_parts [OF inv]
  have l: "w = cell q s (m + 1)" "nxt q w = LIST_END" "dat q w = d" "old = node q s m" "p = node q s m" and m: "m + 1 \<le> max_unit_num q"
    using inv a(6) by (auto simp: lf_inv_def)
  obtain u where u: "units q p = Some u" using unit_there [OF a(1)] node_range [OF a(1-3), of m] l(5) by auto
  have r: "ring q s m" and f: "flags q s (1 + cleared cp) (m + 1)" using inv by (simp_all add: lf_inv_def)
  have e: "u_next u = LIST_END" using r u l(5) by (simp add: ring_def nxt_def)
  have np: "node q s k \<noteq> p" if "0 \<le> k" "k < m" for k using node_eq [of q s k m] that a m l(5) by simp
  have pw: "p \<noteq> w" using free_unit(1) [OF a(1-4) m, of m] l(1,5) a(4) by simp
  have nw: "node q s (m + 1) = w" using l(1) a(4) by (simp add: node_cell)
  let ?q = "set_unit q p (u\<lparr>u_next := w\<rparr>)"
  have "nxt ?q (node q s k) = cell q s (k + 1)" if k: "0 \<le> k" "k < m + 1" for k
  proof (cases "k = m")
    case True
    then show ?thesis using l(1,5) by simp
  next
    case False
    then show ?thesis using np [of k] k r by (simp add: ring_def)
  qed
  then have ring: "ring ?q s (m + 1)" using r pw nw l(2) a(4) by (simp add: ring_def)
  have fl: "flags ?q s (1 + cleared cp) (m + 1)" using f u by (subst flags_put) (simp_all add: flagged_def)
  have pl: "pop_locals ?q s cp" by (rule pop_locals_write) (use inv u in \<open>simp_all add: lf_inv_def dat_def\<close>)
  have el: "elems ?q s m = elems q s m" by (rule elems_put) (use u in \<open>simp add: dat_def\<close>)
  have "lf_inv ?q (Push_swing d w old) cp s (m + 1)"
    using inv ring fl pl u l pw sized_put [of q p "u\<lparr>u_next := w\<rparr>"] by (auto simp: lf_inv_def)
  then show ?thesis using u e el by (auto simp: Let_def)
qed

section \<open>The popping thread\<close>

lemma pop_plain:
  assumes inv: "lf_inv q pp cp s m"
  shows "cp = Pop_len \<Longrightarrow> 0 < r_len q \<Longrightarrow> lf_inv q pp (Pop_count (r_len q)) s m"
    "cp = Pop_len \<Longrightarrow> lf_inv q pp Pop_idle s m"
    "cp = Pop_count n \<Longrightarrow> r_len q = n \<Longrightarrow> lf_inv (q\<lparr>r_len := n - 1\<rparr>) pp Pop_head s m"
    "cp = Pop_count n \<Longrightarrow> lf_inv q pp Pop_len s m"
    "cp = Pop_head \<Longrightarrow> lf_inv q pp (Pop_next (p_head q)) s m"
    "cp = Pop_take p nx \<Longrightarrow> p_head q = p \<and> lf_inv (q\<lparr>p_head := nx\<rparr>) pp (Pop_unit p) s m"
  using inv by (auto simp: lf_inv_def)

lemma pop_read_inv:
  assumes inv: "lf_inv q pp cp s m"
  shows "cp = Pop_next p \<Longrightarrow> \<exists>u. units q p = Some u \<and> lf_inv q pp (Pop_take p (u_next u)) s m"
    "cp = Pop_unit p \<Longrightarrow> \<exists>u. units q p = Some u \<and> lf_inv q pp (Pop_data p (u_next u)) s m"
    "cp = Pop_data p i \<Longrightarrow> \<exists>v. units q i = Some v \<and> lf_inv q pp (Pop_again p (u_data v)) s m"
    "cp = Pop_again p d \<Longrightarrow> \<exists>u. units q p = Some u \<and> lf_inv q pp (Pop_free (u_next u) d) s m"
proof -
  note a = inv_parts [OF inv]
  obtain u where u: "units q s = Some u" using unit_there [OF a(1-3)] by blast
  obtain v where v: "units q (cell q s 1) = Some v" using unit_there [OF a(1), of "cell q s 1"] cell_range [OF a(1), of s 1] by auto
  have n: "u_next u = cell q s 1" if "reserved cp = 1"
  proof -
    have "0 < m" using a(5) that push_phases(1) [of pp] by simp
    then have "nxt q (node q s 0) = cell q s (0 + 1)" using inv by (simp add: lf_inv_def ring_def)
    then show ?thesis using u by (simp add: nxt_def node_def)
  qed
  show "cp = Pop_next p \<Longrightarrow> \<exists>u. units q p = Some u \<and> lf_inv q pp (Pop_take p (u_next u)) s m"
    "cp = Pop_unit p \<Longrightarrow> \<exists>u. units q p = Some u \<and> lf_inv q pp (Pop_data p (u_next u)) s m"
    "cp = Pop_again p d \<Longrightarrow> \<exists>u. units q p = Some u \<and> lf_inv q pp (Pop_free (u_next u) d) s m"
    using inv u n by (auto simp: lf_inv_def)
  show "cp = Pop_data p i \<Longrightarrow> \<exists>v. units q i = Some v \<and> lf_inv q pp (Pop_again p (u_data v)) s m"
    using inv v by (auto simp: lf_inv_def dat_def)
qed

lemma push_locals_write:
  "u_next u = nxt q i \<Longrightarrow> u_data u = dat q i \<Longrightarrow> push_locals (set_unit q i u) s m pp = push_locals q s m pp"
  by (cases pp) auto

lemma pop_free_inv:
  assumes inv: "lf_inv q pp (Pop_free i d) s m"
  shows "\<exists>v. units q i = Some v \<and> (let q' = set_unit q i (v\<lparr>use_flag := False\<rparr>) in lf_inv q' pp (Pop_down d) s m \<and> elems q' s j = elems q s j)"
proof -
  note a = inv_parts [OF inv]
  have i: "i = cell q s 1" and f: "flags q s 1 (m + marked pp)" and r: "ring q s m" using inv by (simp_all add: lf_inv_def)
  obtain v where v: "units q i = Some v" using unit_there [OF a(1), of i] cell_range [OF a(1), of s 1] i by auto
  have b: "1 \<le> m + marked pp" "m + marked pp - 1 \<le> max_unit_num q" using a(5,6) push_phases [of pp] by simp_all
  let ?q = "set_unit q i (v\<lparr>use_flag := False\<rparr>)"
  have "flags ?q s 2 (m + marked pp)" using flags_less [OF f a(1) b] v i by simp
  moreover have "ring ?q s m" by (rule ring_put [OF r]) (use v in \<open>simp add: nxt_def\<close>)
  moreover have "push_locals ?q s m pp = push_locals q s m pp" by (rule push_locals_write) (use v in \<open>simp_all add: nxt_def dat_def\<close>)
  moreover have "elems ?q s j = elems q s j" by (rule elems_put) (use v in \<open>simp add: dat_def\<close>)
  ultimately show ?thesis
    using inv v i sized_put [of q i] by (auto simp: lf_inv_def Let_def dat_def)
qed

lemma node_shift: "0 \<le> k \<Longrightarrow> node q (cell q s 1) k = node q s (k + 1)"
  by (auto simp: node_def cell_cell add.commute)

lemma elems_shift: "1 \<le> j \<Longrightarrow> elems q s j = dat q (cell q s 1) # elems q (cell q s 1) (j - 1)"
proof -
  assume j: "1 \<le> j"
  have "[1..<nat j + 1] = 1 # map Suc [1..<nat (j - 1) + 1]"
    using j by (subst upt_conv_Cons) (auto simp: map_Suc_upt nat_diff_distrib)
  then show ?thesis using j by (simp add: elems_def cell_cell comp_def add.commute)
qed

lemma flags_shift: "flags q s 2 b = flags q (cell q s 1) 1 (b - 1)"
proof -
  have "(\<exists>k. 2 \<le> k \<and> k \<le> b \<and> i = cell q s k) \<longleftrightarrow> (\<exists>k. 1 \<le> k \<and> k \<le> b - 1 \<and> i = cell q (cell q s 1) k)" for i
  proof
    assume "\<exists>k. 2 \<le> k \<and> k \<le> b \<and> i = cell q s k"
    then obtain k where "2 \<le> k" "k \<le> b" "i = cell q s k" by blast
    then show "\<exists>k. 1 \<le> k \<and> k \<le> b - 1 \<and> i = cell q (cell q s 1) k" by (intro exI [of _ "k - 1"]) (simp add: cell_cell)
  next
    assume "\<exists>k. 1 \<le> k \<and> k \<le> b - 1 \<and> i = cell q (cell q s 1) k"
    then obtain k where "1 \<le> k" "k \<le> b - 1" "i = cell q s (1 + k)" by (auto simp: cell_cell)
    then show "\<exists>k. 2 \<le> k \<and> k \<le> b \<and> i = cell q s k" by (intro exI [of _ "1 + k"]) simp
  qed
  then show ?thesis by (simp add: flags_def)
qed

lemma ring_shift: "sized q \<Longrightarrow> ring q s m \<Longrightarrow> 1 \<le> m \<Longrightarrow> ring q (cell q s 1) (m - 1)"
  using cell_range [of q s 1] by (simp add: ring_def node_shift cell_cell add.commute)

lemma push_locals_shift:
  "push_locals q s m pp \<Longrightarrow> 1 + linked pp \<le> m \<Longrightarrow> push_locals q (cell q s 1) (m - 1) pp"
  by (cases pp) (auto simp: cell_cell node_shift add.commute)

text \<open>The element is given back: the list now starts at its unit.\<close>

lemma pop_down_inv:
  assumes inv: "lf_inv q pp (Pop_down d) s m"
  shows "lf_inv (q\<lparr>w_len := w_len q - 1\<rparr>) pp Pop_idle (cell q s 1) (m - 1)"
    "elems q s (m - linked pp) = d # elems q (cell q s 1) (m - 1 - linked pp)"
proof -
  note a = inv_parts [OF inv]
  have m: "1 + linked pp \<le> m" using a(5) by simp
  have m1: "1 \<le> m" using m push_phases [of pp] by simp
  have p: "p_tail q = node q (cell q s 1) (m - 1 - unswung pp)"
    using inv m push_phases [of pp] node_shift [of "m - 1 - unswung pp" q s] by (simp add: lf_inv_def)
  have f: "flags q (cell q s 1) 1 (m - 1 + marked pp)" using inv flags_shift [of q s "m + marked pp"] by (simp add: lf_inv_def add.commute add_diff_eq)
  have r: "ring q (cell q s 1) (m - 1)" using ring_shift [OF a(1) _ m1, of s] inv by (simp add: lf_inv_def)
  have l: "push_locals q (cell q s 1) (m - 1) pp" using push_locals_shift [OF _ m] inv by (simp add: lf_inv_def)
  have t: "w_tail q mod (max_unit_num q + 1) = cell q (cell q s 1) (m - 1 + 1 + taken pp)" using inv by (simp add: lf_inv_def cell_cell add.commute add.left_commute)
  show "lf_inv (q\<lparr>w_len := w_len q - 1\<rparr>) pp Pop_idle (cell q s 1) (m - 1)"
    using inv a m m1 p f r l t by (simp add: lf_inv_def)
  show "elems q s (m - linked pp) = d # elems q (cell q s 1) (m - 1 - linked pp)"
    using elems_shift [of "m - linked pp" q s] m inv by (simp add: lf_inv_def diff_diff_eq add.commute)
qed

section \<open>Steps and contents\<close>

lemma length_elems: "length (elems q s j) = nat j"
  by (simp add: elems_def)

lemma elems_snoc: "1 \<le> j \<Longrightarrow> elems q s j = elems q s (j - 1) @ [dat q (cell q s j)]"
proof -
  assume j: "1 \<le> j"
  then have "nat (j - 1) + 1 = nat j" by simp
  then have "[1..<nat j + 1] = [1..<nat (j - 1) + 1] @ [nat j]" using j by simp
  then show ?thesis using j by (simp add: elems_def del: upt_Suc)
qed

lemma lf_holdsI: "lf_inv q pp cp s m \<Longrightarrow> xs = elems q s (m - linked pp) \<Longrightarrow> lf_holds q pp cp xs"
  by (auto simp: lf_holds_def)

text \<open>A step of the pushing thread is defined; it leaves the contents, or returns and then adds the unit, or refuses it when there is no room.\<close>

lemma push_step_holds:
  assumes "lf_holds q pp cp xs"
  shows "\<exists>q' pc r. push_step q pp = Some (q', pc, r) \<and> max_unit_num q' = max_unit_num q \<and>
    (case r of None \<Rightarrow> lf_holds q' pc cp xs
     | Some rc \<Rightarrow> (\<exists>d. push_arg pp = Some d \<and>
         (if int (length xs) < max_unit_num q then rc = 0 \<and> lf_holds q' pc cp (xs @ [d]) else rc = -1 \<and> lf_holds q' pc cp xs)))"
proof -
  obtain s m where inv: "lf_inv q pp cp s m" and xs: "xs = elems q s (m - linked pp)" using assms by (auto simp: lf_holds_def)
  note a = inv_parts [OF inv] and plain = push_plain [OF inv] and writes = push_write_inv [OF inv]
  show ?thesis
  proof (cases pp)
    case Push_idle
    then show ?thesis using assms by simp
  next
    case (Push_len d)
    have "w_len q = m" using inv Push_len by (simp add: lf_inv_def)
    then show ?thesis using plain(1,2) [OF Push_len] xs Push_len a(4) by (auto intro!: lf_holdsI simp: length_elems)
  next
    case (Push_count d n)
    then show ?thesis using plain(3,4) xs by (auto intro!: lf_holdsI)
  next
    case (Push_tail d)
    then show ?thesis using plain(5) xs by (auto intro!: lf_holdsI)
  next
    case (Push_take d old)
    then show ?thesis using push_take_inv [of q d old cp s m] inv xs by (auto simp: Let_def intro!: lf_holdsI)
  next
    case (Push_look d w)
    then show ?thesis using push_look_inv [of q d w cp s m] inv xs by (auto intro!: lf_holdsI)
  next
    case (Push_end d w)
    then show ?thesis using writes(1) xs by (auto simp: Let_def intro!: lf_holdsI)
  next
    case (Push_use d w)
    then show ?thesis using writes(2) xs by (auto simp: Let_def intro!: lf_holdsI)
  next
    case (Push_data d w)
    then show ?thesis using writes(3) xs by (auto simp: Let_def intro!: lf_holdsI)
  next
    case (Push_find d w t)
    then show ?thesis using plain(6) xs by (auto intro!: lf_holdsI)
  next
    case (Push_walk d w t old p)
    then show ?thesis using inv by (simp add: lf_inv_def)
  next
    case (Push_move d w t old p)
    then show ?thesis using inv by (simp add: lf_inv_def)
  next
    case (Push_link d w t old p)
    then show ?thesis using push_link_inv [of q d w t old p cp s m] inv xs by (auto simp: Let_def intro!: lf_holdsI)
  next
    case (Push_swing d w old)
    then show ?thesis using plain(7) xs by (auto intro!: lf_holdsI)
  next
    case (Push_up d)
    have m: "1 \<le> m" using a(5) phases(1) [of cp] Push_up by simp
    have "dat q (cell q s m) = d" "m \<le> max_unit_num q" using inv Push_up by (auto simp: lf_inv_def)
    then show ?thesis using plain(8) [OF Push_up] xs Push_up m elems_snoc [OF m, of q s] by (auto intro!: lf_holdsI simp: length_elems)
  qed
qed

lemma pop_step_holds:
  assumes "lf_holds q pp cp xs"
  shows "\<exists>q' pc r. pop_step q cp = Some (q', pc, r) \<and> max_unit_num q' = max_unit_num q \<and>
    (case r of None \<Rightarrow> lf_holds q' pp pc xs
     | Some (rc, x) \<Rightarrow> (case xs of [] \<Rightarrow> rc = -1 \<and> x = None \<and> lf_holds q' pp pc [] | d # ds \<Rightarrow> rc = 0 \<and> x = Some d \<and> lf_holds q' pp pc ds))"
proof -
  obtain s m where inv: "lf_inv q pp cp s m" and xs: "xs = elems q s (m - linked pp)" using assms by (auto simp: lf_holds_def)
  note a = inv_parts [OF inv] and plain = pop_plain [OF inv] and reads = pop_read_inv [OF inv]
  show ?thesis
  proof (cases cp)
    case Pop_idle
    then show ?thesis using assms by simp
  next
    case Pop_len
    have "r_len q = m - linked pp" using inv Pop_len by (simp add: lf_inv_def)
    then have "r_len q \<le> 0 \<Longrightarrow> xs = []" using xs length_elems [of q s "m - linked pp"] by simp
    then show ?thesis using plain(1,2) [OF Pop_len] xs Pop_len by (auto intro!: lf_holdsI)
  next
    case (Pop_count n)
    then show ?thesis using plain(3,4) xs by (auto intro!: lf_holdsI)
  next
    case Pop_head
    then show ?thesis using plain(5) xs by (auto intro!: lf_holdsI)
  next
    case (Pop_next p)
    then show ?thesis using reads(1) xs by (auto intro!: lf_holdsI)
  next
    case (Pop_take p nx)
    then show ?thesis using plain(6) xs by (auto intro!: lf_holdsI)
  next
    case (Pop_unit p)
    then show ?thesis using reads(2) xs by (auto intro!: lf_holdsI)
  next
    case (Pop_data p i)
    then show ?thesis using reads(3) xs by (auto intro!: lf_holdsI)
  next
    case (Pop_again p d)
    then show ?thesis using reads(4) xs by (auto intro!: lf_holdsI)
  next
    case (Pop_free i d)
    then show ?thesis using pop_free_inv [of q pp i d s m "m - linked pp"] inv xs by (auto simp: Let_def intro!: lf_holdsI)
  next
    case (Pop_down d)
    then show ?thesis using pop_down_inv [of q pp d s m] inv xs by (auto intro!: lf_holdsI)
  qed
qed

section \<open>Runs of both\<close>

lemma spec_ops_append:
  "spec_ops n (ops @ [c]) xs = (fst (spec_ops n ops xs) @ fst (spec_ops n [c] (snd (spec_ops n ops xs))), snd (spec_ops n [c] (snd (spec_ops n ops xs))))"
  by (induction n ops xs rule: spec_ops.induct) (auto simp: apfst_def map_prod_def split: prod.splits list.splits)

definition lf_run_ok :: "int \<Rightarrow> 'u list \<Rightarrow> 'u lf_run \<Rightarrow> bool" where
  "lf_run_ok n xs \<sigma> \<longleftrightarrow> max_unit_num (lq \<sigma>) = n \<and> fst (spec_ops n (map fst (calls \<sigma>)) xs) = map snd (calls \<sigma>) \<and>
     lf_holds (lq \<sigma>) (pusher \<sigma>) (popper \<sigma>) (snd (spec_ops n (map fst (calls \<sigma>)) xs))"

text \<open>The queue as one thread leaves it is a queue that two threads can go on with.\<close>

lemma lf_ok_holds: "lf_ok q \<Longrightarrow> lf_holds q Push_idle Pop_idle (lf_content q)"
proof (rule lf_holdsI)
  assume ok: "lf_ok q"
  have c: "cell q (p_head q) = slot q" "node q (p_head q) = node_at q"
    by (simp_all add: cell_def slot_def node_def node_at_def fun_eq_iff)
  show "lf_inv q Push_idle Pop_idle (p_head q) (r_len q)"
    using ok by (auto simp: lf_inv_def sized_def ring_def flags_def c nxt_def flagged_def lf_ok_def)
  show "lf_content q = elems q (p_head q) (r_len q - linked Push_idle)"
    by (simp add: lf_content_def elems_def dat_def c)
qed

lemma lf_start_ok:
  assumes "lf_ok q"
  shows "lf_run_ok (max_unit_num q) (lf_content q) (lf_start q)"
  using lf_ok_holds [OF assms] by (simp add: lf_run_ok_def lf_start_def)

lemma pusher_step_ok: "pusher_step \<sigma> \<sigma>' \<Longrightarrow> lf_run_ok n xs \<sigma> \<Longrightarrow> lf_run_ok n xs \<sigma>'"
proof (induction rule: pusher_step.induct)
  case (Call_push \<sigma> d)
  then show ?case by (auto simp: lf_run_ok_def lf_holds_def lf_inv_def)
next
  case (Push_on \<sigma> q pc)
  then show ?case using push_step_holds [of "lq \<sigma>" "pusher \<sigma>" "popper \<sigma>"] by (fastforce simp: lf_run_ok_def)
next
  case (Push_return \<sigma> q pc rc d)
  then show ?case using push_step_holds [of "lq \<sigma>" "pusher \<sigma>" "popper \<sigma>"]
    by (fastforce simp: lf_run_ok_def spec_ops_append split: if_splits)
qed

lemma popper_step_ok: "popper_step \<sigma> \<sigma>' \<Longrightarrow> lf_run_ok n xs \<sigma> \<Longrightarrow> lf_run_ok n xs \<sigma>'"
proof (induction rule: popper_step.induct)
  case (Call_pop \<sigma>)
  then show ?case by (auto simp: lf_run_ok_def lf_holds_def lf_inv_def)
next
  case (Pop_on \<sigma> q pc)
  then show ?case using pop_step_holds [of "lq \<sigma>" "pusher \<sigma>" "popper \<sigma>"] by (fastforce simp: lf_run_ok_def)
next
  case (Pop_return \<sigma> q pc rc x)
  then show ?case using pop_step_holds [of "lq \<sigma>" "pusher \<sigma>" "popper \<sigma>"]
    by (fastforce simp: lf_run_ok_def spec_ops_append split: list.splits)
qed

lemma lf_step_ok: "lf_step \<sigma> \<sigma>' \<Longrightarrow> lf_run_ok n xs \<sigma> \<Longrightarrow> lf_run_ok n xs \<sigma>'"
  using pusher_step_ok popper_step_ok by (auto simp: lf_step_def)

lemma lf_steps_ok: "lf_step\<^sup>*\<^sup>* \<sigma> \<sigma>' \<Longrightarrow> lf_run_ok n xs \<sigma> \<Longrightarrow> lf_run_ok n xs \<sigma>'"
  by (induction rule: rtranclp_induct) (auto intro: lf_step_ok)

lemma lf_reachable:
  assumes "0 < usize" "0 < n" "(8 + usize) * (n + 2) \<le> INT32_MAX"
    and "nolock_queue_init z New_memory usize n = Some (0, Some q)" and "lf_step\<^sup>*\<^sup>* (lf_start q) \<sigma>"
  shows "lf_run_ok n [] \<sigma>"
proof -
  have "lf_ok q" "lf_content q = []" "max_unit_num q = n" using init_lf [OF assms(1-3), of z] assms(4) by auto
  then show ?thesis using lf_steps_ok [OF assms(5)] lf_start_ok [of q] by simp
qed

lemma apart:
  assumes "lf_holds q (Push_data d w) (Pop_data p i) xs"
  shows "w \<noteq> i"
proof -
  obtain s m where inv: "lf_inv q (Push_data d w) (Pop_data p i) s m" using assms by (auto simp: lf_holds_def)
  note a = inv_parts [OF inv]
  have "w = cell q s (m + 1)" "i = cell q s 1" using inv by (simp_all add: lf_inv_def)
  then show ?thesis using free_unit(2) [OF a(1-4), of 1] a(5,6) by auto
qed

text \<open>
  C10. Under two threads the queue is still a FIFO. Whatever the order in which the single accesses of one pushing and one popping
  thread interleave after \<open>nolock_queue_init\<close>, the calls that have returned gave, in the order they returned, the
  results a bounded first-in first-out queue gives: nothing is lost, doubled, reordered or refused without
  need. Neither thread ever touches a unit outside the memory, the two never copy the same unit at once, and
  \<open>nolock_queue_len\<close> is at most one behind the contents.
\<close>

theorem lf_queue_two_threads:
  assumes "0 < usize" and "0 < n" and "(8 + usize) * (n + 2) \<le> INT32_MAX"
    and "nolock_queue_init z New_memory usize n = Some (0, Some q)" and "lf_step\<^sup>*\<^sup>* (lf_start q) \<sigma>"
  shows "map snd (calls \<sigma>) = fst (spec_ops n (map fst (calls \<sigma>)) []) \<and>
    push_step (lq \<sigma>) (pusher \<sigma>) \<noteq> None \<and> pop_step (lq \<sigma>) (popper \<sigma>) \<noteq> None \<and>
    (\<forall>d w p i. \<not> (pusher \<sigma> = Push_data d w \<and> popper \<sigma> = Pop_data p i \<and> w = i)) \<and>
    nolock_queue_len (lq \<sigma>) \<in> {int (length (snd (spec_ops n (map fst (calls \<sigma>)) []))) - 1, int (length (snd (spec_ops n (map fst (calls \<sigma>)) [])))}"
proof -
  note ok = lf_reachable [OF assms]
  let ?xs = "snd (spec_ops n (map fst (calls \<sigma>)) [])"
  have h: "lf_holds (lq \<sigma>) (pusher \<sigma>) (popper \<sigma>) ?xs" using ok by (simp add: lf_run_ok_def)
  then obtain s m where inv: "lf_inv (lq \<sigma>) (pusher \<sigma>) (popper \<sigma>) s m" and xs: "?xs = elems (lq \<sigma>) s (m - linked (pusher \<sigma>))"
    by (auto simp: lf_holds_def)
  have "int (length ?xs) = m - linked (pusher \<sigma>)"
    using inv_parts [OF inv] phases [of "popper \<sigma>"] unfolding xs by (simp add: length_elems)
  then have "nolock_queue_len (lq \<sigma>) \<in> {int (length ?xs) - 1, int (length ?xs)}"
    using inv phases [of "popper \<sigma>"] by (cases "reserved (popper \<sigma>) = 0") (auto simp: nolock_queue_len_def lf_inv_def)
  moreover have "\<not> (pusher \<sigma> = Push_data d w \<and> popper \<sigma> = Pop_data p i \<and> w = i)" for d w p i
    using h apart [of "lq \<sigma>" d w p i] by auto
  moreover have "push_step (lq \<sigma>) (pusher \<sigma>) \<noteq> None" "pop_step (lq \<sigma>) (popper \<sigma>) \<noteq> None"
    using push_step_holds [OF h] pop_step_holds [OF h] by auto
  moreover have "map snd (calls \<sigma>) = fst (spec_ops n (map fst (calls \<sigma>)) [])" using ok by (simp add: lf_run_ok_def)
  ultimately show ?thesis by blast
qed

section \<open>Progress\<close>

text \<open>
  A stretch of a run inside one call of a thread: how often the thread has moved without returning, and how many calls of the other
  have returned meanwhile.
\<close>

inductive push_path :: "'u lf_run \<Rightarrow> nat \<Rightarrow> nat \<Rightarrow> 'u lf_run \<Rightarrow> bool" for \<sigma> where
  Push_here: "push_path \<sigma> 0 0 \<sigma>"
| Push_moves: "push_path \<sigma> k j \<sigma>1 \<Longrightarrow> pusher \<sigma>1 \<noteq> Push_idle \<Longrightarrow> pusher_step \<sigma>1 \<sigma>2 \<Longrightarrow> calls \<sigma>2 = calls \<sigma>1 \<Longrightarrow>
     push_path \<sigma> (k + 1) j \<sigma>2"
| Pop_meanwhile: "push_path \<sigma> k j \<sigma>1 \<Longrightarrow> popper_step \<sigma>1 \<sigma>2 \<Longrightarrow>
     push_path \<sigma> k (j + (length (calls \<sigma>2) - length (calls \<sigma>1))) \<sigma>2"

inductive pop_path :: "'u lf_run \<Rightarrow> nat \<Rightarrow> nat \<Rightarrow> 'u lf_run \<Rightarrow> bool" for \<sigma> where
  Pop_here: "pop_path \<sigma> 0 0 \<sigma>"
| Pop_moves: "pop_path \<sigma> k j \<sigma>1 \<Longrightarrow> popper \<sigma>1 \<noteq> Pop_idle \<Longrightarrow> popper_step \<sigma>1 \<sigma>2 \<Longrightarrow> calls \<sigma>2 = calls \<sigma>1 \<Longrightarrow>
     pop_path \<sigma> (k + 1) j \<sigma>2"
| Push_meanwhile: "pop_path \<sigma> k j \<sigma>1 \<Longrightarrow> pusher_step \<sigma>1 \<sigma>2 \<Longrightarrow>
     pop_path \<sigma> k (j + (length (calls \<sigma>2) - length (calls \<sigma>1))) \<sigma>2"

text \<open>How many moves are left at most; the compare-and-swap of a counter that has changed in between costs two more.\<close>

fun push_left :: "'u lf_queue \<Rightarrow> 'u push_pc \<Rightarrow> nat" where
  "push_left q (Push_len d) = 11" | "push_left q (Push_count d n) = (if w_len q = n then 10 else 12)" | "push_left q (Push_tail d) = 9"
| "push_left q (Push_take d old) = 8" | "push_left q (Push_look d w) = 7" | "push_left q (Push_end d w) = 6" | "push_left q (Push_use d w) = 5"
| "push_left q (Push_data d w) = 4" | "push_left q (Push_find d w t) = 3" | "push_left q (Push_link d w t old p) = 2"
| "push_left q (Push_swing d w old) = 1" | "push_left q _ = 0"

fun pop_left :: "'u lf_queue \<Rightarrow> 'u pop_pc \<Rightarrow> nat" where
  "pop_left q Pop_len = 9" | "pop_left q (Pop_count n) = (if r_len q = n then 8 else 10)" | "pop_left q Pop_head = 7"
| "pop_left q (Pop_next p) = 6" | "pop_left q (Pop_take p nx) = 5" | "pop_left q (Pop_unit p) = 4" | "pop_left q (Pop_data p i) = 3"
| "pop_left q (Pop_again p d) = 2" | "pop_left q (Pop_free i d) = 1" | "pop_left q _ = 0"

lemma push_left_less:
  assumes "lf_holds q pp cp xs" "pp \<noteq> Push_idle" "push_step q pp = Some (q', pc, None)"
  shows "push_left q' pc < push_left q pp"
proof -
  obtain s m where inv: "lf_inv q pp cp s m" using assms(1) by (auto simp: lf_holds_def)
  show ?thesis
  proof (cases pp)
    case (Push_take d old)
    then show ?thesis using push_take_inv [of q d old cp s m] inv assms(3) by (auto simp: Let_def)
  next
    case (Push_look d w)
    then show ?thesis using push_look_inv [of q d w cp s m] inv assms(3) by auto
  next
    case (Push_find d w t)
    then show ?thesis using inv assms(3) by (auto simp: lf_inv_def)
  next
    case (Push_link d w t old p)
    then show ?thesis using push_link_inv [of q d w t old p cp s m] inv assms(3) by (auto simp: Let_def)
  qed (use inv assms(2,3) in \<open>auto simp: lf_inv_def split: if_splits bind_splits\<close>)
qed

lemma pop_left_less:
  assumes "lf_holds q pp cp xs" "cp \<noteq> Pop_idle" "pop_step q cp = Some (q', pc, None)"
  shows "pop_left q' pc < pop_left q cp"
proof -
  obtain s m where inv: "lf_inv q pp cp s m" using assms(1) by (auto simp: lf_holds_def)
  show ?thesis using inv assms(2,3) by (cases cp) (auto simp: lf_inv_def split: if_splits bind_splits)
qed

lemma pop_on_push_left:
  assumes "popper_step \<sigma> \<sigma>'"
  shows "pusher \<sigma>' = pusher \<sigma>" "push_left (lq \<sigma>') (pusher \<sigma>') \<le> push_left (lq \<sigma>) (pusher \<sigma>) + 2 * (length (calls \<sigma>') - length (calls \<sigma>))"
proof -
  show p: "pusher \<sigma>' = pusher \<sigma>" using assms by (cases rule: popper_step.cases) simp_all
  have "w_len (lq \<sigma>') = w_len (lq \<sigma>) \<or> length (calls \<sigma>') = length (calls \<sigma>) + 1"
    using assms
  proof (cases rule: popper_step.cases)
    case (Pop_on q pc)
    then show ?thesis by (cases "popper \<sigma>") (auto split: if_splits bind_splits)
  qed simp_all
  then show "push_left (lq \<sigma>') (pusher \<sigma>') \<le> push_left (lq \<sigma>) (pusher \<sigma>) + 2 * (length (calls \<sigma>') - length (calls \<sigma>))"
    unfolding p by (cases "pusher \<sigma>") auto
qed

lemma push_on_pop_left:
  assumes "pusher_step \<sigma> \<sigma>'"
  shows "popper \<sigma>' = popper \<sigma>" "pop_left (lq \<sigma>') (popper \<sigma>') \<le> pop_left (lq \<sigma>) (popper \<sigma>) + 2 * (length (calls \<sigma>') - length (calls \<sigma>))"
proof -
  show p: "popper \<sigma>' = popper \<sigma>" using assms by (cases rule: pusher_step.cases) simp_all
  have "r_len (lq \<sigma>') = r_len (lq \<sigma>) \<or> length (calls \<sigma>') = length (calls \<sigma>) + 1"
    using assms
  proof (cases rule: pusher_step.cases)
    case (Push_on q pc)
    then show ?thesis by (cases "pusher \<sigma>") (auto simp: Let_def split: if_splits bind_splits)
  qed simp_all
  then show "pop_left (lq \<sigma>') (popper \<sigma>') \<le> pop_left (lq \<sigma>) (popper \<sigma>) + 2 * (length (calls \<sigma>') - length (calls \<sigma>))"
    unfolding p by (cases "popper \<sigma>") auto
qed

lemma push_path_bound:
  "push_path \<sigma> k j \<sigma>' \<Longrightarrow> lf_run_ok n xs \<sigma> \<Longrightarrow>
     lf_run_ok n xs \<sigma>' \<and> k + push_left (lq \<sigma>') (pusher \<sigma>') \<le> push_left (lq \<sigma>) (pusher \<sigma>) + 2 * j"
proof (induction rule: push_path.induct)
  case Push_here
  then show ?case by simp
next
  case (Push_moves k j \<sigma>1 \<sigma>2)
  then have ok: "lf_run_ok n xs \<sigma>1" and b: "k + push_left (lq \<sigma>1) (pusher \<sigma>1) \<le> push_left (lq \<sigma>) (pusher \<sigma>) + 2 * j" by simp_all
  have "push_left (lq \<sigma>2) (pusher \<sigma>2) < push_left (lq \<sigma>1) (pusher \<sigma>1)"
    using Push_moves.hyps(3)
  proof (cases rule: pusher_step.cases)
    case (Push_on q pc)
    then show ?thesis using push_left_less [OF _ Push_moves.hyps(2)] ok by (auto simp: lf_run_ok_def)
  qed (use Push_moves.hyps(2,4) in simp_all)
  then show ?case using b pusher_step_ok [OF Push_moves.hyps(3) ok] by simp
next
  case (Pop_meanwhile k j \<sigma>1 \<sigma>2)
  then show ?case using popper_step_ok [OF Pop_meanwhile.hyps(2)] pop_on_push_left [OF Pop_meanwhile.hyps(2)] by auto
qed

lemma pop_path_bound:
  "pop_path \<sigma> k j \<sigma>' \<Longrightarrow> lf_run_ok n xs \<sigma> \<Longrightarrow>
     lf_run_ok n xs \<sigma>' \<and> k + pop_left (lq \<sigma>') (popper \<sigma>') \<le> pop_left (lq \<sigma>) (popper \<sigma>) + 2 * j"
proof (induction rule: pop_path.induct)
  case Pop_here
  then show ?case by simp
next
  case (Pop_moves k j \<sigma>1 \<sigma>2)
  then have ok: "lf_run_ok n xs \<sigma>1" and b: "k + pop_left (lq \<sigma>1) (popper \<sigma>1) \<le> pop_left (lq \<sigma>) (popper \<sigma>) + 2 * j" by simp_all
  have "pop_left (lq \<sigma>2) (popper \<sigma>2) < pop_left (lq \<sigma>1) (popper \<sigma>1)"
    using Pop_moves.hyps(3)
  proof (cases rule: popper_step.cases)
    case (Pop_on q pc)
    then show ?thesis using pop_left_less [OF _ Pop_moves.hyps(2)] ok by (auto simp: lf_run_ok_def)
  qed (use Pop_moves.hyps(2,4) in simp_all)
  then show ?case using b popper_step_ok [OF Pop_moves.hyps(3) ok] by simp
next
  case (Push_meanwhile k j \<sigma>1 \<sigma>2)
  then show ?case using pusher_step_ok [OF Push_meanwhile.hyps(2)] push_on_pop_left [OF Push_meanwhile.hyps(2)] by auto
qed

text \<open>
  C11. A thread's call comes to its end, whatever the other thread does short of returning from calls all the time. In any run after
  \<open>nolock_queue_init\<close>, a push makes at most twelve moves and two for every call of the other thread that returns meanwhile
  before it returns itself, and a pop at most ten and two: a thread that stops in the middle of a call holds up nobody.
\<close>

theorem lf_queue_progress:
  assumes "0 < usize" and "0 < n" and "(8 + usize) * (n + 2) \<le> INT32_MAX"
    and "nolock_queue_init z New_memory usize n = Some (0, Some q)" and "lf_step\<^sup>*\<^sup>* (lf_start q) \<sigma>"
  shows "(push_path \<sigma> k j \<sigma>' \<longrightarrow> k \<le> 12 + 2 * j) \<and> (pop_path \<sigma> k j \<sigma>' \<longrightarrow> k \<le> 10 + 2 * j)"
proof -
  note ok = lf_reachable [OF assms]
  have "push_left q pp \<le> 12" "pop_left q cp \<le> 10" for q :: "'a lf_queue" and pp cp
    by (cases pp; simp) (cases cp; simp)
  then show ?thesis using push_path_bound [OF _ ok] pop_path_bound [OF _ ok] by (meson add_leE add_le_mono1 le_trans)
qed

section \<open>A run\<close>

text \<open>A schedule says which thread moves; one that is idle starts a call, the pushing one with the given unit.\<close>

definition sched_push :: "'u \<Rightarrow> 'u lf_run \<Rightarrow> 'u lf_run option" where
  "sched_push d \<sigma> = (if pusher \<sigma> = Push_idle then Some (\<sigma>\<lparr>pusher := Push_len d\<rparr>) else
     (case push_step (lq \<sigma>) (pusher \<sigma>) of
        Some (q, pc, None) \<Rightarrow> Some (\<sigma>\<lparr>lq := q, pusher := pc\<rparr>)
      | Some (q, pc, Some rc) \<Rightarrow>
          map_option (\<lambda>x. \<sigma>\<lparr>lq := q, pusher := pc, calls := calls \<sigma> @ [(Push x, Pushed rc)]\<rparr>) (push_arg (pusher \<sigma>))
      | None \<Rightarrow> None))"

definition sched_pop :: "'u lf_run \<Rightarrow> 'u lf_run option" where
  "sched_pop \<sigma> = (if popper \<sigma> = Pop_idle then Some (\<sigma>\<lparr>popper := Pop_len\<rparr>) else
     (case pop_step (lq \<sigma>) (popper \<sigma>) of
        Some (q, pc, None) \<Rightarrow> Some (\<sigma>\<lparr>lq := q, popper := pc\<rparr>)
      | Some (q, pc, Some (rc, x)) \<Rightarrow> Some (\<sigma>\<lparr>lq := q, popper := pc, calls := calls \<sigma> @ [(Pop, Popped rc x)]\<rparr>)
      | None \<Rightarrow> None))"

fun lf_sched :: "(bool \<times> 'u) list \<Rightarrow> 'u lf_run \<Rightarrow> 'u lf_run option" where
  "lf_sched [] \<sigma> = Some \<sigma>"
| "lf_sched ((w, d) # ts) \<sigma> = Option.bind (if w then sched_push d \<sigma> else sched_pop \<sigma>) (lf_sched ts)"

lemma sched_push_step: "sched_push d \<sigma> = Some \<sigma>' \<Longrightarrow> pusher_step \<sigma> \<sigma>'"
  by (auto simp: sched_push_def intro: pusher_step.intros split: if_splits option.splits)

lemma sched_pop_step: "sched_pop \<sigma> = Some \<sigma>' \<Longrightarrow> popper_step \<sigma> \<sigma>'"
  by (auto simp: sched_pop_def intro: popper_step.intros split: if_splits option.splits)

lemma lf_sched_steps: "lf_sched ts \<sigma> = Some \<sigma>' \<Longrightarrow> lf_step\<^sup>*\<^sup>* \<sigma> \<sigma>'"
proof (induction ts arbitrary: \<sigma>)
  case (Cons t ts)
  obtain w d where t: "t = (w, d)" by (cases t)
  obtain \<sigma>1 where s: "(if w then sched_push d \<sigma> else sched_pop \<sigma>) = Some \<sigma>1" "lf_sched ts \<sigma>1 = Some \<sigma>'"
    using Cons.prems by (auto simp: t Option.bind_eq_Some_conv)
  then have "lf_step \<sigma> \<sigma>1" using sched_push_step [of d \<sigma>] sched_pop_step [of \<sigma>] by (auto simp: lf_step_def split: if_splits)
  then show ?case using Cons.IH [OF s(2)] by (rule converse_rtranclp_into_rtranclp)
qed simp

definition demo_queue :: "nat lf_queue" where
  "demo_queue = the (snd (the (nolock_queue_init 0 New_memory 4 2)))"

text \<open>A push, then a pop and a push whose moves alternate.\<close>

definition demo_sched :: "(bool \<times> nat) list" where
  "demo_sched = replicate 13 (True, 7) @ concat (replicate 4 [(False, 0), (True, 8)]) @ replicate 7 (False, 0) @ replicate 9 (True, 8)"

lemma demo_queue_init: "nolock_queue_init 0 New_memory 4 2 = Some (0, Some demo_queue)"
  by (simp add: demo_queue_def nolock_queue_init_def INT32_MAX_def zero_queue_def LIST_END_def)

theorem lf_queue_two_threads_witness:
  "\<exists>\<sigma>. lf_step\<^sup>*\<^sup>* (lf_start demo_queue) \<sigma> \<and>
     calls \<sigma> = [(Push 7, Pushed 0), (Pop, Popped 0 (Some 7)), (Push 8, Pushed 0)] \<and>
     map snd (calls \<sigma>) = fst (spec_ops 2 (map fst (calls \<sigma>)) [])"
proof -
  have "map_option calls (lf_sched demo_sched (lf_start demo_queue)) =
    Some [(Push 7, Pushed 0), (Pop, Popped 0 (Some 7)), (Push 8, Pushed 0)]" by code_simp
  then obtain \<sigma> where s: "lf_sched demo_sched (lf_start demo_queue) = Some \<sigma>"
    and c: "calls \<sigma> = [(Push 7, Pushed 0), (Pop, Popped 0 (Some 7)), (Push 8, Pushed 0)]" by blast
  have run: "lf_step\<^sup>*\<^sup>* (lf_start demo_queue) \<sigma>" using lf_sched_steps [OF s] .
  have "map snd (calls \<sigma>) = fst (spec_ops 2 (map fst (calls \<sigma>)) [])"
    using lf_queue_two_threads [OF _ _ _ demo_queue_init run] by (simp add: INT32_MAX_def)
  then show ?thesis using run c by blast
qed

lemma sched_push_path:
  "sched_push d \<sigma>1 = Some \<sigma>2 \<Longrightarrow> push_path \<sigma> k j \<sigma>1 \<Longrightarrow> pusher \<sigma>1 \<noteq> Push_idle \<Longrightarrow> calls \<sigma>2 = calls \<sigma>1 \<Longrightarrow> push_path \<sigma> (Suc k) j \<sigma>2"
  using push_path.Push_moves [of \<sigma> k j \<sigma>1 \<sigma>2] sched_push_step [of d \<sigma>1 \<sigma>2] by simp

theorem lf_queue_progress_witness:
  "\<exists>\<sigma> \<sigma>'. lf_step\<^sup>*\<^sup>* (lf_start demo_queue) \<sigma> \<and> push_path \<sigma> 2 0 \<sigma>' \<and> (2 :: nat) \<le> 12 + 2 * 0"
proof -
  have init: "w_len demo_queue = 0" "max_unit_num demo_queue = 2" by (simp_all add: demo_queue_def nolock_queue_init_def INT32_MAX_def zero_queue_def LIST_END_def)
  obtain \<sigma> where s: "\<sigma> = (lf_start demo_queue)\<lparr>pusher := Push_len 7\<rparr>" by blast
  have "lf_sched [(True, 7)] (lf_start demo_queue) = Some \<sigma>" by (simp add: s sched_push_def lf_start_def)
  then have run: "lf_step\<^sup>*\<^sup>* (lf_start demo_queue) \<sigma>" by (rule lf_sched_steps)
  obtain \<sigma>1 where 1: "sched_push 7 \<sigma> = Some \<sigma>1" "pusher \<sigma>1 = Push_count 7 0" "lq \<sigma>1 = demo_queue" "calls \<sigma>1 = calls \<sigma>"
    using init by (simp add: s sched_push_def lf_start_def)
  obtain \<sigma>2 where 2: "sched_push 7 \<sigma>1 = Some \<sigma>2" "calls \<sigma>2 = calls \<sigma>1"
    using init 1(2,3) by (simp add: sched_push_def)
  have "push_path \<sigma> (Suc (Suc 0)) 0 \<sigma>2"
    using sched_push_path [OF 2(1) sched_push_path [OF 1(1) push_path.Push_here]] 1(2,4) 2(2) by (simp add: s)
  then have path: "push_path \<sigma> 2 0 \<sigma>2" by (simp add: numeral_2_eq_2)
  have "(2 :: nat) \<le> 12 + 2 * 0"
    using lf_queue_progress [OF _ _ _ demo_queue_init run, of 2 0 \<sigma>2] path by (simp add: INT32_MAX_def)
  then show ?thesis using run path by blast
qed

end
