(* ===== verification/CString.thy ===== *)
theory CString
  imports Prelude "HOL-Library.Monad_Syntax"
begin

text \<open>
  The string functions of the C library that the server calls, on fixed character arrays. An array
  is the list of its bytes; the string in it ends at its first NUL, and reading an array that has none is
  undefined behaviour (\<open>None\<close>). A string without its terminator is written as plain bytes.
\<close>

definition c_str :: "bytes \<Rightarrow> bytes option" where
  "c_str b = (if 0 \<in> set b then Some (takeWhile (\<lambda>x. x \<noteq> 0) b) else None)"

text \<open>\<open>strncpy(dst, src, n)\<close> into an array of \<open>n\<close> bytes: the whole array is written.\<close>

definition strncpy :: "nat \<Rightarrow> bytes \<Rightarrow> bytes" where
  "strncpy n s = take n (takeWhile (\<lambda>x. x \<noteq> 0) s @ replicate n 0)"

lemma length_strncpy [simp]: "length (strncpy n s) = n"
  by (simp add: strncpy_def)

lemma c_str_no_nul: "c_str b = Some s \<Longrightarrow> 0 \<notin> set s"
  by (auto simp: c_str_def dest: set_takeWhileD split: if_splits)

lemma c_str_length: "c_str b = Some s \<Longrightarrow> length s < length b"
  by (auto simp: c_str_def split: if_splits)
     (metis (full_types) length_takeWhile_le nat_less_le takeWhile_eq_all_conv takeWhile_eq_take take_all)

lemma takeWhile_nul_app:
  "0 \<notin> set s \<Longrightarrow> takeWhile (\<lambda>x. x \<noteq> 0) (s @ 0 # r) = (s :: bytes)"
  by (subst takeWhile_append2) auto

lemma c_str_app [simp]: "0 \<notin> set s \<Longrightarrow> c_str (s @ 0 # r) = Some s"
  by (simp add: c_str_def takeWhile_nul_app)

text \<open>A terminated string survives the copy into an array at least as large.\<close>

lemma c_str_strncpy:
  assumes "c_str b = Some s" and "length b \<le> n"
  shows "c_str (strncpy n b) = Some s"
proof -
  have s: "takeWhile (\<lambda>x. x \<noteq> 0) b = s" using assms(1) by (auto simp: c_str_def split: if_splits)
  have l: "length s < n" using c_str_length [OF assms(1)] assms(2) by simp
  then have "strncpy n b = s @ 0 # replicate (n - length s - 1) 0"
    by (simp add: strncpy_def s) (metis Suc_diff_Suc diff_Suc_eq_diff_pred min.strict_order_iff replicate_Suc take_replicate
        diff_le_self min_absorb1)
  then show ?thesis using c_str_no_nul [OF assms(1)] by simp
qed

section \<open>Numbers\<close>

definition is_space :: "u8 \<Rightarrow> bool" where
  "is_space c \<longleftrightarrow> c = 0x20 \<or> (0x09 \<le> c \<and> c \<le> 0x0D)"

definition is_digit :: "u8 \<Rightarrow> bool" where
  "is_digit c \<longleftrightarrow> 0x30 \<le> c \<and> c \<le> 0x39"

fun digits_value :: "int \<Rightarrow> bytes \<Rightarrow> int" where
  "digits_value acc [] = acc"
| "digits_value acc (c # cs) = (if is_digit c then digits_value (acc * 10 + (uint c - 0x30)) cs else acc)"

text \<open>\<open>strtol(s, NULL, 10)\<close>, which clamps to a 64-bit \<open>long\<close>, and \<open>atoi\<close>, its value as an \<open>int\<close>.\<close>

definition strtol10 :: "bytes \<Rightarrow> int" where
  "strtol10 s =
     (let s = dropWhile is_space s;
          v = (case s of c # cs \<Rightarrow> if c = 0x2D then - digits_value 0 cs
                                   else if c = 0x2B then digits_value 0 cs else digits_value 0 s
                | [] \<Rightarrow> 0)
      in max (- (2 ^ 63)) (min (2 ^ 63 - 1) v))"

definition atoi :: "bytes \<Rightarrow> u32" where
  "atoi s = word_of_int (strtol10 s)"

definition of_string :: "string \<Rightarrow> bytes" where
  "of_string = map (\<lambda>c. word_of_nat (of_char c))"

text \<open>The decimal digits of a number, as \<open>%d\<close> prints it.\<close>

fun print_nat :: "nat \<Rightarrow> bytes" where
  "print_nat n = (if n < 10 then [word_of_nat (0x30 + n)] else print_nat (n div 10) @ [word_of_nat (0x30 + n mod 10)])"

declare print_nat.simps [simp del]

definition print_int :: "int \<Rightarrow> bytes" where
  "print_int i = (if i < 0 then 0x2D # print_nat (nat (- i)) else print_nat (nat i))"

text \<open>What a number parser makes of the printed digits.\<close>

lemma digits_value_append:
  "\<forall>c\<in>set xs. is_digit c \<Longrightarrow> digits_value a (xs @ ys) = digits_value (digits_value a xs) ys"
  by (induction xs arbitrary: a) auto

lemma digit_char: "n < 10 \<Longrightarrow> is_digit (word_of_nat (0x30 + n)) \<and> uint (word_of_nat (0x30 + n) :: u8) - 0x30 = int n"
proof -
  assume "n < 10"
  then have "unat (word_of_nat (0x30 + n) :: u8) = 0x30 + n"
    by (simp only: unat_of_nat take_bit_eq_mod) simp
  then show ?thesis
    using \<open>n < 10\<close> by (simp only: is_digit_def word_le_nat_alt uint_nat) simp
qed

lemma print_nat_digits: "\<forall>c\<in>set (print_nat n). is_digit c"
proof (induction n rule: print_nat.induct)
  case (1 n)
  then show ?case
    using digit_char [of n] digit_char [of "n mod 10"] by (subst print_nat.simps) auto
qed

lemma digits_value_print: "digits_value 0 (print_nat n) = int n"
proof (induction n rule: print_nat.induct)
  case (1 n)
  show ?case
  proof (cases "n < 10")
    case True
    then show ?thesis using digit_char [of n] by (subst print_nat.simps) auto
  next
    case False
    have "digits_value 0 (print_nat n) = int (n div 10) * 10 + int (n mod 10)"
      using False 1 digit_char [of "n mod 10"] print_nat_digits [of "n div 10"]
      by (subst print_nat.simps) (auto simp: digits_value_append)
    also have "\<dots> = int (n div 10 * 10 + n mod 10)"
      by (simp only: of_nat_add of_nat_mult of_nat_numeral)
    finally show ?thesis by (simp only: div_mult_mod_eq)
  qed
qed

lemma print_nat_Cons: "\<exists>c cs. print_nat n = c # cs \<and> is_digit c"
  using print_nat_digits [of n] by (cases "print_nat n") (auto, subst (asm) print_nat.simps, auto split: if_splits)

lemma digit_not_space: "is_digit c \<Longrightarrow> \<not> is_space c \<and> c \<noteq> 0x2D \<and> c \<noteq> 0x2B \<and> c \<noteq> 0"
  by (auto simp: is_digit_def is_space_def word_le_nat_alt)

lemma digits_value_stop: "r = [] \<or> \<not> is_digit (hd r) \<Longrightarrow> digits_value a r = a"
  by (cases r) auto

lemma strtol10_print:
  assumes "n < 2 ^ 63" and "r = [] \<or> \<not> is_digit (hd r)"
  shows "strtol10 (print_nat n @ r) = int n"
proof -
  obtain c cs where c: "print_nat n = c # cs" "is_digit c" using print_nat_Cons by blast
  have "digits_value 0 (print_nat n @ r) = int n"
    using digits_value_append [OF print_nat_digits] digits_value_print digits_value_stop [OF assms(2)] by metis
  moreover have "dropWhile is_space (print_nat n @ r) = print_nat n @ r"
    using c digit_not_space by simp
  moreover have "int n \<le> 2 ^ 63 - 1" using assms(1) by simp
  ultimately show ?thesis
    using c digit_not_space [OF c(2)] by (simp add: strtol10_def Let_def)
qed

lemma atoi_print: "n < 2 ^ 31 \<Longrightarrow> r = [] \<or> \<not> is_digit (hd r) \<Longrightarrow> atoi (print_nat n @ r) = word_of_nat n"
  by (simp add: atoi_def strtol10_print)

end
