(* ===== verification/ChainTable.thy ===== *)
theory ChainTable
  imports ListApi
begin

text \<open>
  What the two session tables (\<open>sip_hash.c\<close>, \<open>stream_hash.c\<close>) share: chains of node addresses, the
  search of a chain with a seeker that reads the nodes, and the contract of a session registry. The
  tables themselves are in \<open>SipHash\<close> and \<open>StreamHash\<close>, which interpret the contract.
\<close>

section \<open>Searching a chain\<close>

text \<open>\<open>list_seek\<close> with a seeker that may be undefined on an element.\<close>

fun seek_chain :: "('a \<Rightarrow> bool option) \<Rightarrow> 'a list \<Rightarrow> 'a option option" where
  "seek_chain p [] = Some None"
| "seek_chain p (a # as) = do { b \<leftarrow> p a; if b then Some (Some a) else seek_chain p as }"

lemma seek_chain_find:
  "(\<And>a. a \<in> set as \<Longrightarrow> p a = Some (q a)) \<Longrightarrow> seek_chain p as = Some (la_seek q as)"
  by (induction as) (auto simp: la_seek_def)

section \<open>Chains\<close>

text \<open>
  \<open>nkey\<close> reads the key of a node, \<open>hb\<close> is the bucket of a key: every node is in the bucket of its
  key, and no two nodes of a bucket have the same key.
\<close>

definition chains_ok :: "('a \<Rightarrow> 'k option) \<Rightarrow> ('k \<Rightarrow> nat) \<Rightarrow> 'a list list \<Rightarrow> bool" where
  "chains_ok nkey hb bs \<longleftrightarrow>
     (\<forall>i < length bs. distinct (bs ! i) \<and> inj_on nkey (set (bs ! i)) \<and>
        (\<forall>a \<in> set (bs ! i). \<exists>k. nkey a = Some k \<and> hb k = i))"

definition chains_map :: "('a \<Rightarrow> 'k option) \<Rightarrow> ('k \<Rightarrow> nat) \<Rightarrow> 'a list list \<Rightarrow> 'k \<Rightarrow> 'a option" where
  "chains_map nkey hb bs k = la_seek (\<lambda>a. nkey a = Some k) (bs ! hb k)"

lemma chains_member:
  "chains_ok nkey hb bs \<Longrightarrow> i < length bs \<Longrightarrow> a \<in> set (bs ! i) \<Longrightarrow> \<exists>k. nkey a = Some k \<and> hb k = i"
  by (simp add: chains_ok_def)

lemma la_seek_iff:
  "inj_on f (set xs) \<Longrightarrow> la_seek (\<lambda>a. f a = y) xs = Some a \<longleftrightarrow> a \<in> set xs \<and> f a = y"
  by (induction xs) (auto simp: la_seek_def inj_on_def find_Some_iff)

lemma chains_map_Some:
  assumes "chains_ok nkey hb bs" and "hb k < length bs"
  shows "chains_map nkey hb bs k = Some a \<longleftrightarrow> a \<in> set (bs ! hb k) \<and> nkey a = Some k"
  using assms by (simp add: chains_map_def la_seek_iff chains_ok_def)

lemma chains_map_None:
  "chains_map nkey hb bs k = None \<longleftrightarrow> (\<forall>a \<in> set (bs ! hb k). nkey a \<noteq> Some k)"
  by (simp add: chains_map_def la_seek_None)

text \<open>A new node at the end of its chain.\<close>

lemma chains_append:
  assumes ok: "chains_ok nkey hb bs" and i: "hb k < length bs" and new: "chains_map nkey hb bs k = None"
    and a: "\<And>i. i < length bs \<Longrightarrow> a \<notin> set (bs ! i)"
    and nk: "nkey' a = Some k" "\<And>b. b \<noteq> a \<Longrightarrow> nkey' b = nkey b"
    and range: "\<And>k. hb k < length bs"
  defines "bs' \<equiv> bs[hb k := la_append (bs ! hb k) a]"
  shows "chains_ok nkey' hb bs'" and "chains_map nkey' hb bs' = (chains_map nkey hb bs)(k \<mapsto> a)"
proof -
  have same: "b \<in> set (bs ! j) \<Longrightarrow> j < length bs \<Longrightarrow> nkey' b = nkey b" for b j
    using a nk(2) by metis
  have fresh: "\<forall>b \<in> set (bs ! hb k). nkey b \<noteq> Some k" using new by (simp add: chains_map_None)
  show ok': "chains_ok nkey' hb bs'"
    unfolding chains_ok_def
  proof (intro allI impI)
    fix j assume "j < length bs'"
    then have j: "j < length bs" by (simp add: bs'_def)
    have o: "distinct (bs ! j)" "inj_on nkey (set (bs ! j))" "\<forall>b\<in>set (bs ! j). \<exists>k. nkey b = Some k \<and> hb k = j"
      using ok j by (simp_all add: chains_ok_def)
    have inj: "inj_on nkey' (set (bs ! j))" using o(2) same [OF _ j] by (simp add: inj_on_def)
    have all: "\<forall>b\<in>set (bs ! j). \<exists>k. nkey' b = Some k \<and> hb k = j" using o(3) same [OF _ j] by simp
    show "distinct (bs' ! j) \<and> inj_on nkey' (set (bs' ! j)) \<and> (\<forall>a\<in>set (bs' ! j). \<exists>k. nkey' a = Some k \<and> hb k = j)"
    proof (cases "j = hb k")
      case True
      have "inj_on nkey' (insert a (set (bs ! j)))"
        using inj fresh True nk(1) same [OF _ j] by (auto simp: inj_on_def)
      then show ?thesis using True j o(1) all nk(1) a [OF j] by (simp add: bs'_def la_append_def)
    next
      case False
      then show ?thesis using j o(1) inj all by (simp add: bs'_def)
    qed
  qed
  have range': "hb k' < length bs'" for k' using range by (simp add: bs'_def)
  have "chains_map nkey' hb bs' k' = Some b \<longleftrightarrow> ((chains_map nkey hb bs)(k \<mapsto> a)) k' = Some b" for k' b
    using chains_map_Some [OF ok' range'] chains_map_Some [OF ok range, of k' b] i fresh nk same [OF _ range, of b k']
      a [OF range, of k']
    by (cases "hb k' = hb k"; cases "b = a") (auto simp: bs'_def la_append_def)
  then show "chains_map nkey' hb bs' = (chains_map nkey hb bs)(k \<mapsto> a)"
    by (metis (no_types, lifting) not_Some_eq ext)
qed

text \<open>A node taken out of its chain.\<close>

lemma chains_delete:
  assumes ok: "chains_ok nkey hb bs" and range: "\<And>k. hb k < length bs" and a: "chains_map nkey hb bs k = Some a"
  defines "bs' \<equiv> bs[hb k := la_delete (bs ! hb k) a]"
  shows "chains_ok nkey hb bs'" and "chains_map nkey hb bs' = (chains_map nkey hb bs)(k := None)"
proof -
  have mem: "a \<in> set (bs ! hb k)" "nkey a = Some k" using a chains_map_Some [OF ok range] by simp_all
  have d: "distinct (bs ! hb k)" using ok range by (simp add: chains_ok_def)
  have s: "set (la_delete (bs ! hb k) a) = set (bs ! hb k) - {a}" using d by (simp add: la_delete_def)
  show ok': "chains_ok nkey hb bs'"
    unfolding chains_ok_def
  proof (intro allI impI)
    fix j assume "j < length bs'"
    then have j: "j < length bs" by (simp add: bs'_def)
    have o: "distinct (bs ! j)" "inj_on nkey (set (bs ! j))" "\<forall>b\<in>set (bs ! j). \<exists>k. nkey b = Some k \<and> hb k = j"
      using ok j by (simp_all add: chains_ok_def)
    show "distinct (bs' ! j) \<and> inj_on nkey (set (bs' ! j)) \<and> (\<forall>a\<in>set (bs' ! j). \<exists>k. nkey a = Some k \<and> hb k = j)"
    proof (cases "j = hb k")
      case True
      then have "bs' ! j = la_delete (bs ! hb k) a" using j by (simp add: bs'_def)
      moreover have "distinct (la_delete (bs ! hb k) a)" using d by (simp add: la_delete_def)
      ultimately show ?thesis using o True s by (auto simp: inj_on_def)
    next
      case False
      then show ?thesis using o by (simp add: bs'_def)
    qed
  qed
  have range': "hb k' < length bs'" for k' using range by (simp add: bs'_def)
  have inj: "inj_on nkey (set (bs ! hb k))" using ok range by (simp add: chains_ok_def)
  have mb: "b \<in> set (bs' ! hb k') \<longleftrightarrow> b \<in> set (bs ! hb k') \<and> (hb k' = hb k \<longrightarrow> b \<noteq> a)" for b k'
    using s range [of k] by (cases "hb k' = hb k") (auto simp: bs'_def)
  have "b \<in> set (bs' ! hb k') \<and> nkey b = Some k' \<longleftrightarrow> b \<in> set (bs ! hb k') \<and> nkey b = Some k' \<and> k' \<noteq> k" for b k'
  proof (cases "k' = k")
    case True
    have "c \<in> set (bs ! hb k) \<Longrightarrow> nkey c = Some k \<Longrightarrow> c = a" for c
      using inj_onD [OF inj, of c a] mem by simp
    then show ?thesis using mb True by blast
  next
    case False
    then show ?thesis using mb mem(2) by auto
  qed
  then have "chains_map nkey hb bs' k' = Some b \<longleftrightarrow> ((chains_map nkey hb bs)(k := None)) k' = Some b" for k' b
    unfolding chains_map_Some [OF ok' range'] fun_upd_apply using chains_map_Some [OF ok range, of k' b] by auto
  then show "chains_map nkey hb bs' = (chains_map nkey hb bs)(k := None)"
    by (metis (no_types, lifting) not_Some_eq ext)
qed

section \<open>The registry contract\<close>

text \<open>
  A registry of sessions. \<open>sessions\<close> is the map from keys to node addresses it implements; a request
  \<open>r\<close> carries its key; a new node is made at an address the allocator hands out.
\<close>

locale registry =
  fixes inv :: "'t \<Rightarrow> bool"
    and sessions :: "'t \<Rightarrow> 'k \<Rightarrow> nat option"
    and find_node :: "'t \<Rightarrow> 'r \<Rightarrow> nat option option"
    and insert_node :: "'t \<Rightarrow> 'r \<Rightarrow> nat \<Rightarrow> (nat \<times> 't) option"
    and delete_node :: "'t \<Rightarrow> nat \<Rightarrow> 't option"
    and key :: "'r \<Rightarrow> 'k option"
    and unused :: "'t \<Rightarrow> nat \<Rightarrow> bool"
  assumes find_session: "inv t \<Longrightarrow> key r = Some k \<Longrightarrow> find_node t r = Some (sessions t k)"
    and insert_known: "inv t \<Longrightarrow> key r = Some k \<Longrightarrow> sessions t k = Some b \<Longrightarrow> insert_node t r a = Some (b, t)"
    and insert_new: "inv t \<Longrightarrow> key r = Some k \<Longrightarrow> sessions t k = None \<Longrightarrow> unused t a \<Longrightarrow>
      \<exists>t'. insert_node t r a = Some (a, t') \<and> inv t' \<and> sessions t' = (sessions t)(k \<mapsto> a)"
    and delete_session: "inv t \<Longrightarrow> sessions t k = Some a \<Longrightarrow>
      \<exists>t'. delete_node t a = Some t' \<and> inv t' \<and> sessions t' = (sessions t)(k := None)"
    and one_key: "inv t \<Longrightarrow> sessions t k = Some a \<Longrightarrow> sessions t k' = Some a \<Longrightarrow> k = k'"
    and unused_stays: "insert_node t r a = Some (b, t') \<Longrightarrow> unused t a' \<Longrightarrow> a' \<noteq> a \<Longrightarrow> unused t' a'"
begin

text \<open>A request finds its session after it was registered, whether it was new or known.\<close>

lemma register:
  assumes "inv t" and "key r = Some k" and "unused t a"
  shows "\<exists>b t'. insert_node t r a = Some (b, t') \<and> inv t' \<and> find_node t' r = Some (Some b) \<and>
    (b = a \<or> sessions t k = Some b) \<and> (\<forall>k'. k' \<noteq> k \<longrightarrow> sessions t' k' = sessions t k')"
proof (cases "sessions t k")
  case None
  then show ?thesis
    using insert_new [OF assms(1,2) None assms(3)] find_session [OF _ assms(2)] by fastforce
next
  case (Some b)
  then show ?thesis
    using insert_known [OF assms(1,2) Some] find_session [OF assms(1,2)] assms(1) by auto
qed

text \<open>Registering the same session again gives the same node and changes nothing.\<close>

lemma register_again:
  assumes "inv t" and "key r = Some k" and "unused t a" and "key r' = Some k"
  shows "\<exists>b t'. insert_node t r a = Some (b, t') \<and> insert_node t' r' a' = Some (b, t')"
proof -
  obtain b t' where t': "insert_node t r a = Some (b, t')" "inv t'" "find_node t' r = Some (Some b)"
    using register [OF assms(1-3)] by blast
  then have "sessions t' k = Some b" using find_session [OF _ assms(2)] by fastforce
  then show ?thesis using t' insert_known [OF t'(2) assms(4)] by blast
qed

text \<open>After a session ended its request finds nothing; every other session is where it was.\<close>

lemma unregister:
  assumes "inv t" and "key r = Some k" and "find_node t r = Some (Some a)"
  shows "\<exists>t'. delete_node t a = Some t' \<and> inv t' \<and> find_node t' r = Some None \<and>
    (\<forall>r' k'. key r' = Some k' \<and> k' \<noteq> k \<longrightarrow> find_node t' r' = find_node t r')"
proof -
  have "sessions t k = Some a" using find_session [OF assms(1,2)] assms(3) by simp
  then obtain t' where t': "delete_node t a = Some t'" "inv t'" "sessions t' = (sessions t)(k := None)"
    using delete_session [OF assms(1)] by blast
  then show ?thesis using find_session assms(1,2) by auto
qed

text \<open>Two requests share a node exactly when they have the same key.\<close>

lemma two_requests:
  assumes "inv t" and "key r = Some k" and "key r' = Some k'"
    and "unused t a" and "unused t a'" and "a \<noteq> a'"
  shows "\<exists>b t' b' t''. insert_node t r a = Some (b, t') \<and> insert_node t' r' a' = Some (b', t'') \<and> inv t'' \<and>
    (b = b' \<longleftrightarrow> k = k') \<and> find_node t'' r = Some (Some b) \<and> find_node t'' r' = Some (Some b')"
proof -
  obtain b t' where t': "insert_node t r a = Some (b, t')" "inv t'" "find_node t' r = Some (Some b)"
    using register [OF assms(1,2,4)] by blast
  then have kb: "sessions t' k = Some b" using find_session [OF _ assms(2)] by fastforce
  have "unused t' a'" using unused_stays [OF t'(1) assms(5)] assms(6) by simp
  from register [OF t'(2) assms(3) this] obtain b' t'' where
    t'': "insert_node t' r' a' = Some (b', t'')" "inv t''" "find_node t'' r' = Some (Some b')"
      "b' = a' \<or> sessions t' k' = Some b'" "\<forall>k. k \<noteq> k' \<longrightarrow> sessions t'' k = sessions t' k" by blast
  then have kb': "sessions t'' k' = Some b'" using find_session [OF _ assms(3)] by fastforce
  have "sessions t'' k = Some b"
  proof (cases "k = k'")
    case True
    then show ?thesis using insert_known [OF t'(2) assms(3)] kb t''(1,2) by simp
  next
    case False
    then show ?thesis using t''(5) kb by simp
  qed
  then show ?thesis
    using t'(1) t''(1-3) kb' one_key [OF t''(2)] find_session [OF t''(2) assms(2)] by auto
qed

end

end
