(* ===== verification/SipHash.thy ===== *)
theory SipHash
  imports HashFuncs CString ChainTable
begin

text \<open>
  \<open>src/sip_hash.c\<close>: the table of SIP sessions, keyed by call id, and the UDP ports a session binds.
  The character arrays are byte lists of their declared size; a node lives on the heap of the table state.
  \<open>hf\<close> is \<open>pHashFunc\<close>. The answers of \<open>socket\<close>, \<open>bind\<close> and \<open>random_number\<close> are arguments.
\<close>

section \<open>State\<close>

datatype CMD_TYPE = CMD_NONE | PLAY | STOP

record SIP_DEV_ARGS =
  da_cSsrc :: bytes
  da_cCallId :: bytes
  da_cDevSn :: bytes
  da_cPushIp :: bytes
  da_iPushPort :: int
  da_cDevId :: bytes
  da_iDevChnl :: int
  da_iStreamType :: int
  da_cStreamSourceIp :: bytes
  da_iStreamSourcePort :: int

record SIP_NODE =
  sn_enumCmdType :: CMD_TYPE
  sn_u32Ssrc :: u32
  sn_cSipDevSn :: bytes
  sn_cDevId :: bytes
  sn_cCallId :: bytes
  sn_iDevChnl :: int
  sn_cPushIp :: bytes
  sn_iPushPort :: int
  sn_iStreamType :: int
  sn_cStreamSourceIp :: bytes
  sn_iStreamSourcePort :: int
  sn_iSipNodeHashValue :: int
  sn_iUdpSendStreamSockFd :: int
  sn_iUdpSendStreamPort :: int
  sn_iUdpRtcpSockFd :: int
  sn_iUdpRtcpListenPort :: int

record SIP_HASH_TABLE =
  uHashTableLen :: u32
  listSipNodeHead :: "nat list list"
  sip_nodes :: "nat \<rightharpoonup> SIP_NODE"

text \<open>\<open>calloc(1, sizeof(SIP_NODE_OBJ))\<close>.\<close>

definition sip_node_zero :: SIP_NODE where
  "sip_node_zero =
     \<lparr>sn_enumCmdType = CMD_NONE, sn_u32Ssrc = 0, sn_cSipDevSn = replicate 32 0, sn_cDevId = replicate 128 0,
      sn_cCallId = replicate 32 0, sn_iDevChnl = 0, sn_cPushIp = replicate 16 0, sn_iPushPort = 0,
      sn_iStreamType = 0, sn_cStreamSourceIp = replicate 16 0, sn_iStreamSourcePort = 0,
      sn_iSipNodeHashValue = 0, sn_iUdpSendStreamSockFd = 0, sn_iUdpSendStreamPort = 0,
      sn_iUdpRtcpSockFd = 0, sn_iUdpRtcpListenPort = 0\<rparr>"

section \<open>Ports\<close>

text \<open>What the kernel was asked: a descriptor bound to a port, with the answer, or closed.\<close>

datatype net_event = Bind int u16 bool | Close_sock int

record net_answers =
  na_sockets :: "int list"
  na_binds :: "bool list"
  na_random :: int

text \<open>
  The retry loop: each round consumes one answer of \<open>bind\<close>, and a second one when RTCP is used. It
  runs on the answers there are; with none left it has not returned.
\<close>

fun bind_loop ::
  "bool \<Rightarrow> bool list \<Rightarrow> int list \<Rightarrow> SIP_NODE \<Rightarrow> (SIP_NODE \<times> net_event list) option" where
  "bind_loop rtcp [] socks n = None"
| "bind_loop rtcp (b # bs) socks n =
     (let rtp = sn_iUdpSendStreamPort n; ev = Bind (sn_iUdpSendStreamSockFd n) (word_of_int rtp) b
      in if \<not> b
         then map_option (apsnd ((#) ev)) (bind_loop rtcp bs socks (n\<lparr>sn_iUdpSendStreamPort := rtp + 2\<rparr>))
         else if \<not> rtcp then Some (n, [ev])
         else case bs of [] \<Rightarrow> None
           | b' # bs' \<Rightarrow>
             (let n = n\<lparr>sn_iUdpRtcpListenPort := rtp + 1\<rparr>;
                  ev' = Bind (sn_iUdpRtcpSockFd n) (word_of_int (rtp + 1)) b'
              in if b' then Some (n, [ev, ev'])
                 else case socks of [] \<Rightarrow> None
                   | s # socks' \<Rightarrow>
                     map_option (apsnd ((@) [ev, ev', Close_sock (sn_iUdpSendStreamSockFd n)]))
                       (bind_loop rtcp bs' socks'
                         (n\<lparr>sn_iUdpSendStreamPort := rtp + 2, sn_iUdpSendStreamSockFd := s\<rparr>))))"

definition udp_bind_local_port ::
  "bool \<Rightarrow> net_answers \<Rightarrow> SIP_NODE \<Rightarrow> (int \<times> SIP_NODE \<times> net_event list) option" where
  "udp_bind_local_port rtcp na n =
     (case na_sockets na of [] \<Rightarrow> None
      | s # socks \<Rightarrow>
        (let n = n\<lparr>sn_iUdpSendStreamSockFd := s\<rparr>
         in case (if rtcp then (case socks of [] \<Rightarrow> None | s' # socks' \<Rightarrow> Some (n\<lparr>sn_iUdpRtcpSockFd := s'\<rparr>, socks'))
                  else Some (n, socks)) of
              None \<Rightarrow> None
            | Some (n, socks) \<Rightarrow>
                map_option (\<lambda>(n, es). (HB_SUCCESS, n, es))
                  (bind_loop rtcp (na_binds na) socks (n\<lparr>sn_iUdpSendStreamPort := 2 * na_random na\<rparr>))))"

section \<open>Operations\<close>

definition find_call_id :: "SIP_HASH_TABLE \<Rightarrow> bytes \<Rightarrow> nat \<Rightarrow> bool option" where
  "find_call_id t call_id a = do {
     n \<leftarrow> sip_nodes t a;
     s \<leftarrow> c_str (sn_cCallId n);
     Some (s = call_id)
   }"

definition sip_table_create :: "u32 \<Rightarrow> SIP_HASH_TABLE" where
  "sip_table_create len =
     \<lparr>uHashTableLen = len, listSipNodeHead = replicate (unat len) [], sip_nodes = Map.empty\<rparr>"

text \<open>\<open>None\<close> is the null pointer when an allocation fails.\<close>

definition sip_hash_table_create :: "bool \<Rightarrow> bool \<Rightarrow> u32 \<Rightarrow> SIP_HASH_TABLE option" where
  "sip_hash_table_create malloc1 malloc2 len =
     (if \<not> malloc1 then None else if \<not> malloc2 then None else Some (sip_table_create len))"

text \<open>The chain of a call id.\<close>

definition sip_chain :: "(bytes \<Rightarrow> u32) \<Rightarrow> SIP_HASH_TABLE \<Rightarrow> bytes \<Rightarrow> (nat \<times> nat list) option" where
  "sip_chain hf t call_id = do {
     h \<leftarrow> hash_bucket hf call_id (uHashTableLen t);
     if unat h < length (listSipNodeHead t) then Some (unat h, listSipNodeHead t ! unat h) else None
   }"

definition sip_fill_node :: "SIP_DEV_ARGS \<Rightarrow> nat \<Rightarrow> SIP_NODE option" where
  "sip_fill_node d h = do {
     ssrc \<leftarrow> c_str (da_cSsrc d);
     Some (sip_node_zero\<lparr>sn_cSipDevSn := strncpy 32 (da_cDevSn d), sn_cDevId := strncpy 128 (da_cDevId d),
       sn_cCallId := strncpy 32 (da_cCallId d), sn_cStreamSourceIp := strncpy 16 (da_cStreamSourceIp d),
       sn_iStreamSourcePort := da_iStreamSourcePort d, sn_iDevChnl := da_iDevChnl d,
       sn_iStreamType := da_iStreamType d, sn_cPushIp := strncpy 16 (da_cPushIp d),
       sn_iPushPort := da_iPushPort d, sn_iSipNodeHashValue := int h, sn_u32Ssrc := atoi ssrc\<rparr>)
   }"

text \<open>\<open>a\<close> is the address \<open>calloc\<close> returns when a node is made.\<close>

definition insert_node_to_sip_hash_table ::
  "(bytes \<Rightarrow> u32) \<Rightarrow> bool \<Rightarrow> net_answers \<Rightarrow> SIP_HASH_TABLE \<Rightarrow> SIP_DEV_ARGS \<Rightarrow> nat \<Rightarrow>
     (nat \<times> SIP_HASH_TABLE) option" where
  "insert_node_to_sip_hash_table hf rtcp na t d a = do {
     call_id \<leftarrow> c_str (da_cCallId d);
     (h, chain) \<leftarrow> sip_chain hf t call_id;
     found \<leftarrow> seek_chain (find_call_id t call_id) chain;
     case found of Some b \<Rightarrow> Some (b, t)
     | None \<Rightarrow> do {
         n \<leftarrow> sip_fill_node d h;
         (rc, n, es) \<leftarrow> udp_bind_local_port rtcp na n;
         Some (a, t\<lparr>sip_nodes := (sip_nodes t)(a \<mapsto> n),
                    listSipNodeHead := (listSipNodeHead t)[h := la_append chain a]\<rparr>)
       }
   }"

definition find_node_from_sip_hash_table ::
  "(bytes \<Rightarrow> u32) \<Rightarrow> SIP_HASH_TABLE \<Rightarrow> bytes \<Rightarrow> nat option option" where
  "find_node_from_sip_hash_table hf t pCallId = do {
     call_id \<leftarrow> c_str pCallId;
     (h, chain) \<leftarrow> sip_chain hf t call_id;
     seek_chain (find_call_id t call_id) chain
   }"

text \<open>The node leaves its chain, the one its \<open>iSipNodeHashValue\<close> names; it stays allocated.\<close>

definition del_node_from_sip_hash_table :: "SIP_HASH_TABLE \<Rightarrow> nat \<Rightarrow> SIP_HASH_TABLE option" where
  "del_node_from_sip_hash_table t a = do {
     n \<leftarrow> sip_nodes t a;
     let h = unat (word_of_int (sn_iSipNodeHashValue n) :: u32);
     if h < length (listSipNodeHead t)
     then Some (t\<lparr>listSipNodeHead := (listSipNodeHead t)[h := la_delete (listSipNodeHead t ! h) a]\<rparr>)
     else None
   }"

text \<open>The counts of \<open>get_sip_hash_state\<close>, before they are printed: used, summed, longest, conflicts, hits.\<close>

fun sip_hash_state_loop :: "nat list list \<Rightarrow> int \<times> int \<times> u32 \<times> int \<times> int \<Rightarrow> int \<times> int \<times> u32 \<times> int \<times> int" where
  "sip_hash_state_loop [] st = st"
| "sip_hash_state_loop (c # cs) (used, summed, longest, conflicts, hits) =
     (let n = la_size c
      in sip_hash_state_loop cs
        (if n > 0
         then (used + 1, summed + n, (if word_of_int n > longest then word_of_int n else longest),
               (if n > 1 then conflicts + 1 else conflicts), (if n > 1 then hits else hits + 1))
         else (used, summed, longest, conflicts, hits)))"

definition get_sip_hash_state :: "SIP_HASH_TABLE \<Rightarrow> int \<times> int \<times> u32 \<times> int \<times> int" where
  "get_sip_hash_state t = sip_hash_state_loop (listSipNodeHead t) (0, 0, 0, 0, 0)"

section \<open>Ports\<close>

text \<open>The answers let the loop end: sockets are there, and after some refusals both binds succeed.\<close>

definition ports_free :: "bool \<Rightarrow> net_answers \<Rightarrow> bool" where
  "ports_free rtcp na \<longleftrightarrow> 2 \<le> length (na_sockets na) \<and>
     (\<exists>k bs. na_binds na = replicate k False @ True # True # bs)"

lemma bind_loop_returns:
  "bind_loop rtcp (replicate k False @ True # True # bs) socks n \<noteq> None"
  by (induction k arbitrary: n) (auto simp: Let_def)

lemma bind_loop_frame:
  "bind_loop rtcp bs socks n = Some (n', es) \<Longrightarrow>
     sn_cCallId n' = sn_cCallId n \<and> sn_iSipNodeHashValue n' = sn_iSipNodeHashValue n"
  by (induction rtcp bs socks n arbitrary: n' es rule: bind_loop.induct)
     (fastforce simp: Let_def split: if_splits list.splits)+

lemma udp_bind_frame:
  "udp_bind_local_port rtcp na n = Some (rc, n', es) \<Longrightarrow>
     sn_cCallId n' = sn_cCallId n \<and> sn_iSipNodeHashValue n' = sn_iSipNodeHashValue n"
  by (auto simp: udp_bind_local_port_def Let_def split: list.splits if_splits dest: bind_loop_frame)

lemma udp_bind_returns: "ports_free rtcp na \<Longrightarrow> \<exists>n' es. udp_bind_local_port rtcp na n = Some (HB_SUCCESS, n', es)"
  using bind_loop_returns
  by (fastforce simp: udp_bind_local_port_def ports_free_def Let_def Suc_le_length_iff numeral_2_eq_2
      split: list.splits)

definition ports_bound :: "bool \<Rightarrow> SIP_NODE \<Rightarrow> net_event list \<Rightarrow> bool" where
  "ports_bound rtcp n es \<longleftrightarrow>
     (let p = sn_iUdpSendStreamPort n
      in Bind (sn_iUdpSendStreamSockFd n) (word_of_int p) True \<in> set es \<and>
         (rtcp \<longrightarrow> sn_iUdpRtcpListenPort n = p + 1 \<and>
            Bind (sn_iUdpRtcpSockFd n) (word_of_int (p + 1)) True \<in> set es))"

lemma bind_loop_ports:
  "bind_loop rtcp bs socks n = Some (n', es) \<Longrightarrow>
     ports_bound rtcp n' es \<and> even (sn_iUdpSendStreamPort n') = even (sn_iUdpSendStreamPort n) \<and>
     sn_iUdpSendStreamPort n \<le> sn_iUdpSendStreamPort n'"
proof (induction rtcp bs socks n arbitrary: n' es rule: bind_loop.induct)
  case (1 rtcp socks n)
  then show ?case by simp
next
  case (2 rtcp b bs socks n)
  show ?case
  proof (cases b)
    case False
    with 2(3) obtain es' where "bind_loop rtcp bs socks (n\<lparr>sn_iUdpSendStreamPort := sn_iUdpSendStreamPort n + 2\<rparr>) = Some (n', es')"
      "es = Bind (sn_iUdpSendStreamSockFd n) (word_of_int (sn_iUdpSendStreamPort n)) b # es'"
      by (auto simp: Let_def)
    then show ?thesis using 2(1) [OF refl refl _ _] False by (fastforce simp: ports_bound_def Let_def)
  next
    case True
    show ?thesis
    proof (cases rtcp)
      case False
      then show ?thesis using 2(3) True by (auto simp: ports_bound_def Let_def)
    next
      case rtcp: True
      then obtain b' bs' where bs: "bs = b' # bs'" using 2(3) True by (auto simp: Let_def split: list.splits)
      show ?thesis
      proof (cases b')
        case True
        then show ?thesis using 2(3) bs rtcp \<open>b\<close> by (auto simp: ports_bound_def Let_def)
      next
        case False
        then obtain s socks' es' where s: "socks = s # socks'"
          "bind_loop rtcp bs' socks' (n\<lparr>sn_iUdpRtcpListenPort := sn_iUdpSendStreamPort n + 1,
             sn_iUdpSendStreamPort := sn_iUdpSendStreamPort n + 2, sn_iUdpSendStreamSockFd := s\<rparr>) = Some (n', es')"
          "es = [Bind (sn_iUdpSendStreamSockFd n) (word_of_int (sn_iUdpSendStreamPort n)) True,
             Bind (sn_iUdpRtcpSockFd n) (word_of_int (sn_iUdpSendStreamPort n + 1)) False,
             Close_sock (sn_iUdpSendStreamSockFd n)] @ es'"
          using 2(3) bs rtcp \<open>b\<close> by (auto simp: Let_def split: list.splits)
        have "ports_bound rtcp n' es' \<and> even (sn_iUdpSendStreamPort n') = even (sn_iUdpSendStreamPort n + 2) \<and>
            sn_iUdpSendStreamPort n + 2 \<le> sn_iUdpSendStreamPort n'"
          using 2(2) [OF refl refl _ _ bs refl refl _ s(1)] s(2) \<open>b\<close> rtcp False by simp
        then show ?thesis using s(3) by (auto simp: ports_bound_def Let_def)
      qed
    qed
  qed
qed

section \<open>The registry of calls\<close>

definition sip_key :: "SIP_HASH_TABLE \<Rightarrow> nat \<Rightarrow> bytes option" where
  "sip_key t a = do { n \<leftarrow> sip_nodes t a; c_str (sn_cCallId n) }"

definition sip_bucket :: "(bytes \<Rightarrow> u32) \<Rightarrow> SIP_HASH_TABLE \<Rightarrow> bytes \<Rightarrow> nat" where
  "sip_bucket hf t k = unat (hf k mod uHashTableLen t)"

definition sip_ok :: "(bytes \<Rightarrow> u32) \<Rightarrow> SIP_HASH_TABLE \<Rightarrow> bool" where
  "sip_ok hf t \<longleftrightarrow> uHashTableLen t \<noteq> 0 \<and> length (listSipNodeHead t) = unat (uHashTableLen t) \<and>
     chains_ok (sip_key t) (sip_bucket hf t) (listSipNodeHead t) \<and>
     (\<forall>a n k. sip_nodes t a = Some n \<and> sip_key t a = Some k \<longrightarrow> sn_iSipNodeHashValue n = int (sip_bucket hf t k))"

definition sip_sessions :: "(bytes \<Rightarrow> u32) \<Rightarrow> SIP_HASH_TABLE \<Rightarrow> bytes \<Rightarrow> nat option" where
  "sip_sessions hf t = chains_map (sip_key t) (sip_bucket hf t) (listSipNodeHead t)"

text \<open>The call id of a request that fits its fields.\<close>

definition sip_request_key :: "SIP_DEV_ARGS \<Rightarrow> bytes option" where
  "sip_request_key d = (if length (da_cCallId d) \<le> 32 \<and> c_str (da_cSsrc d) \<noteq> None then c_str (da_cCallId d) else None)"

lemma sip_bucket_range: "sip_ok hf t \<Longrightarrow> sip_bucket hf t k < length (listSipNodeHead t)"
  by (simp add: sip_ok_def sip_bucket_def unat_mod) (meson mod_less_divisor unat_gt_0)

lemma sip_chain_ok:
  "sip_ok hf t \<Longrightarrow> sip_chain hf t k = Some (sip_bucket hf t k, listSipNodeHead t ! sip_bucket hf t k)"
  using sip_bucket_range [of hf t k] by (simp add: sip_chain_def hash_bucket_def sip_bucket_def sip_ok_def)

lemma sip_seek:
  assumes "sip_ok hf t"
  shows "seek_chain (find_call_id t k) (listSipNodeHead t ! sip_bucket hf t k) = Some (sip_sessions hf t k)"
proof -
  have "find_call_id t k a = Some (sip_key t a = Some k)" if mem: "a \<in> set (listSipNodeHead t ! sip_bucket hf t k)" for a
  proof -
    obtain k' where "sip_key t a = Some k'"
      using chains_member [OF _ sip_bucket_range [OF assms] mem, of "sip_key t" "sip_bucket hf t"] assms
      by (auto simp: sip_ok_def)
    then show ?thesis by (auto simp: find_call_id_def sip_key_def split: bind_splits)
  qed
  then show ?thesis by (simp add: seek_chain_find sip_sessions_def chains_map_def)
qed

lemma sip_find:
  "sip_ok hf t \<Longrightarrow> c_str cid = Some k \<Longrightarrow> find_node_from_sip_hash_table hf t cid = Some (sip_sessions hf t k)"
  by (simp add: find_node_from_sip_hash_table_def sip_chain_ok sip_seek)

text \<open>What an insertion that returns has done.\<close>

lemma sip_insert_done:
  assumes ok: "sip_ok hf t" and cid: "length (da_cCallId d) \<le> 32" "c_str (da_cCallId d) = Some k" and free: "sip_nodes t a = None"
    and ins: "insert_node_to_sip_hash_table hf rtcp na t d a = Some (b, t')"
  shows "sip_ok hf t' \<and>
    (case sip_sessions hf t k of Some c \<Rightarrow> b = c \<and> t' = t
     | None \<Rightarrow> b = a \<and> sip_sessions hf t' = (sip_sessions hf t)(k \<mapsto> a) \<and>
         (\<exists>n0 n es. sip_fill_node d (sip_bucket hf t k) = Some n0 \<and> udp_bind_local_port rtcp na n0 = Some (HB_SUCCESS, n, es) \<and>
            sip_nodes t' = (sip_nodes t)(a \<mapsto> n)))"
proof (cases "sip_sessions hf t k")
  case (Some c)
  then show ?thesis using ok ins sip_chain_ok [OF ok] sip_seek [OF ok] cid(2) by (simp add: insert_node_to_sip_hash_table_def)
next
  case None
  let ?h = "sip_bucket hf t k"
  obtain n0 rc n es where n0: "sip_fill_node d ?h = Some n0" and n: "udp_bind_local_port rtcp na n0 = Some (rc, n, es)"
    and b: "b = a" and t': "t' = t\<lparr>sip_nodes := (sip_nodes t)(a \<mapsto> n), listSipNodeHead := (listSipNodeHead t)[?h := la_append (listSipNodeHead t ! ?h) a]\<rparr>"
    using ins sip_chain_ok [OF ok] sip_seek [OF ok] cid(2) None
    by (auto simp: insert_node_to_sip_hash_table_def split: bind_splits)
  have rc: "rc = HB_SUCCESS" using n by (auto simp: udp_bind_local_port_def Let_def split: list.splits if_splits)
  have f0: "sn_cCallId n0 = strncpy 32 (da_cCallId d)" "sn_iSipNodeHashValue n0 = int ?h"
    using n0 by (auto simp: sip_fill_node_def split: bind_splits)
  then have f: "c_str (sn_cCallId n) = Some k" "sn_iSipNodeHashValue n = int ?h"
    using udp_bind_frame [OF n] c_str_strncpy [OF cid(2,1)] by simp_all
  have out: "a \<notin> set (listSipNodeHead t ! i)" if "i < length (listSipNodeHead t)" for i
    using ok that free unfolding sip_ok_def chains_ok_def by (fastforce simp: sip_key_def)
  have sb: "sip_bucket hf t' = sip_bucket hf t" by (simp add: t' sip_bucket_def fun_eq_iff)
  have nk: "sip_key t' a = Some k" "\<And>b. b \<noteq> a \<Longrightarrow> sip_key t' b = sip_key t b" using f by (simp_all add: t' sip_key_def)
  have c: "chains_ok (sip_key t) (sip_bucket hf t) (listSipNodeHead t)" using ok by (simp add: sip_ok_def)
  have m: "chains_map (sip_key t) (sip_bucket hf t) (listSipNodeHead t) k = None" using None by (simp add: sip_sessions_def)
  note ch = chains_append [OF c sip_bucket_range [OF ok] m out nk sip_bucket_range [OF ok]]
  have "sip_ok hf t'" unfolding sip_ok_def sb using ok ch(1) f(2) nk by (auto simp: sip_ok_def t')
  moreover have "sip_sessions hf t' = (sip_sessions hf t)(k \<mapsto> a)" unfolding sip_sessions_def sb using ch(2) by (simp add: t')
  moreover have "sip_nodes t' = (sip_nodes t)(a \<mapsto> n)" by (simp add: t')
  ultimately show ?thesis using None b n0 n rc by auto
qed

lemma sip_insert_new:
  assumes ok: "sip_ok hf t" and key: "sip_request_key d = Some k" and new: "sip_sessions hf t k = None"
    and free: "sip_nodes t a = None" and ports: "ports_free rtcp na"
  shows "\<exists>t'. insert_node_to_sip_hash_table hf rtcp na t d a = Some (a, t') \<and> sip_ok hf t' \<and>
    sip_sessions hf t' = (sip_sessions hf t)(k \<mapsto> a)"
proof -
  obtain ssrc where ssrc: "c_str (da_cSsrc d) = Some ssrc" and cid: "c_str (da_cCallId d) = Some k"
    and l: "length (da_cCallId d) \<le> 32" using key by (auto simp: sip_request_key_def split: if_splits)
  obtain n where n: "sip_fill_node d (sip_bucket hf t k) = Some n" using ssrc by (simp add: sip_fill_node_def)
  obtain n' es where "udp_bind_local_port rtcp na n = Some (HB_SUCCESS, n', es)" using udp_bind_returns [OF ports] by blast
  then obtain t' where "insert_node_to_sip_hash_table hf rtcp na t d a = Some (a, t')"
    using cid sip_chain_ok [OF ok] sip_seek [OF ok] new n by (simp add: insert_node_to_sip_hash_table_def)
  then show ?thesis using sip_insert_done [OF ok l cid free] new by auto
qed

lemma sip_delete:
  assumes ok: "sip_ok hf t" and a: "sip_sessions hf t k = Some a"
  shows "\<exists>t'. del_node_from_sip_hash_table t a = Some t' \<and> sip_ok hf t' \<and> sip_sessions hf t' = (sip_sessions hf t)(k := None)"
proof -
  let ?h = "sip_bucket hf t k"
  have c: "chains_ok (sip_key t) (sip_bucket hf t) (listSipNodeHead t)" using ok by (simp add: sip_ok_def)
  have "a \<in> set (listSipNodeHead t ! ?h)" and k: "sip_key t a = Some k"
    using a chains_map_Some [OF c sip_bucket_range [OF ok]] by (simp_all add: sip_sessions_def)
  then obtain n where n: "sip_nodes t a = Some n" "sn_iSipNodeHashValue n = int ?h"
    using ok by (auto simp: sip_key_def sip_ok_def split: bind_splits)
  have "?h < 2 ^ 32"
    using unsigned_less [where 'a = nat, of "hf k mod uHashTableLen t"] by (simp add: sip_bucket_def)
  then have h: "unat (word_of_int (int ?h) :: u32) = ?h"
    by (simp only: of_int_of_nat_eq unat_of_nat take_bit_eq_mod) simp
  let ?t = "t\<lparr>listSipNodeHead := (listSipNodeHead t)[?h := la_delete (listSipNodeHead t ! ?h) a]\<rparr>"
  have del: "del_node_from_sip_hash_table t a = Some ?t"
    using n h sip_bucket_range [OF ok, of k] by (simp add: del_node_from_sip_hash_table_def Let_def)
  have same: "sip_bucket hf ?t = sip_bucket hf t" "sip_key ?t = sip_key t"
    by (simp_all add: sip_bucket_def sip_key_def fun_eq_iff)
  have a': "chains_map (sip_key t) (sip_bucket hf t) (listSipNodeHead t) k = Some a" using a by (simp add: sip_sessions_def)
  note ch = chains_delete [OF c sip_bucket_range [OF ok] a']
  have "sip_ok hf ?t" unfolding sip_ok_def same using ok ch(1) by (auto simp: sip_ok_def)
  moreover have "sip_sessions hf ?t = (sip_sessions hf t)(k := None)"
    unfolding sip_sessions_def same using ch(2) by simp
  ultimately show ?thesis using del by blast
qed

interpretation sip: registry "sip_ok hf" "sip_sessions hf"
  "\<lambda>t d. find_node_from_sip_hash_table hf t (da_cCallId d)"
  "insert_node_to_sip_hash_table hf rtcp na" del_node_from_sip_hash_table sip_request_key
  "\<lambda>t a. sip_nodes t a = None \<and> ports_free rtcp na"
proof
  fix t d k a b
  assume ok: "sip_ok hf t"
  show "sip_request_key d = Some k \<Longrightarrow> find_node_from_sip_hash_table hf t (da_cCallId d) = Some (sip_sessions hf t k)"
    by (rule sip_find [OF ok]) (simp add: sip_request_key_def split: if_splits)
  show "sip_request_key d = Some k \<Longrightarrow> sip_sessions hf t k = Some b \<Longrightarrow>
      insert_node_to_sip_hash_table hf rtcp na t d a = Some (b, t)"
    using sip_chain_ok [OF ok] sip_seek [OF ok]
    by (simp add: insert_node_to_sip_hash_table_def sip_request_key_def split: if_splits)
  show "sip_request_key d = Some k \<Longrightarrow> sip_sessions hf t k = None \<Longrightarrow> sip_nodes t a = None \<and> ports_free rtcp na \<Longrightarrow>
      \<exists>t'. insert_node_to_sip_hash_table hf rtcp na t d a = Some (a, t') \<and> sip_ok hf t' \<and>
        sip_sessions hf t' = (sip_sessions hf t)(k \<mapsto> a)"
    using sip_insert_new [OF ok] by blast
  show "sip_sessions hf t k = Some a \<Longrightarrow>
      \<exists>t'. del_node_from_sip_hash_table t a = Some t' \<and> sip_ok hf t' \<and> sip_sessions hf t' = (sip_sessions hf t)(k := None)"
    by (rule sip_delete [OF ok])
  show "sip_sessions hf t k = Some a \<Longrightarrow> sip_sessions hf t k' = Some a \<Longrightarrow> k = k'" for k'
    using ok sip_bucket_range [OF ok] by (auto simp: sip_sessions_def sip_ok_def chains_map_Some)
next
  fix t d a b t' a'
  show "insert_node_to_sip_hash_table hf rtcp na t d a = Some (b, t') \<Longrightarrow>
      sip_nodes t a' = None \<and> ports_free rtcp na \<Longrightarrow> a' \<noteq> a \<Longrightarrow> sip_nodes t' a' = None \<and> ports_free rtcp na"
    by (auto simp: insert_node_to_sip_hash_table_def split: bind_splits option.splits)
qed

section \<open>Properties\<close>

lemma sip_create_ok: "len \<noteq> 0 \<Longrightarrow> sip_ok hf (sip_table_create len)"
proof -
  assume len: "len \<noteq> 0"
  have "chains_ok nkey hb (replicate n [])" for nkey :: "nat \<Rightarrow> bytes option" and hb n
    by (simp add: chains_ok_def)
  then show ?thesis using len by (simp add: sip_ok_def sip_table_create_def)
qed

text \<open>
  C15. The life of a call. On a sound table, with a request whose call id fits and ports to be had,
  registering the call gives a node (a fresh one exactly when the call was unknown) that the call id
  then finds; a repeated request gives the same node and leaves the table as it is; after the node
  is deleted the call id finds nothing, the table is sound again, and every other call finds what it
  found before the call came.
\<close>

theorem sip_call_life:
  assumes ok: "sip_ok hf t" and key: "sip_request_key d = Some k"
    and free: "sip_nodes t a = None" and ports: "ports_free rtcp na"
  shows "\<exists>b t' t''. insert_node_to_sip_hash_table hf rtcp na t d a = Some (b, t') \<and> sip_ok hf t' \<and>
    (b = a \<or> sip_sessions hf t k = Some b) \<and>
    find_node_from_sip_hash_table hf t' (da_cCallId d) = Some (Some b) \<and>
    insert_node_to_sip_hash_table hf rtcp na' t' d a' = Some (b, t') \<and>
    del_node_from_sip_hash_table t' b = Some t'' \<and> sip_ok hf t'' \<and>
    find_node_from_sip_hash_table hf t'' (da_cCallId d) = Some None \<and>
    (\<forall>d' k'. sip_request_key d' = Some k' \<and> k' \<noteq> k \<longrightarrow>
       find_node_from_sip_hash_table hf t'' (da_cCallId d') = find_node_from_sip_hash_table hf t (da_cCallId d'))"
proof -
  obtain b t' where t': "insert_node_to_sip_hash_table hf rtcp na t d a = Some (b, t')" "sip_ok hf t'"
    "find_node_from_sip_hash_table hf t' (da_cCallId d) = Some (Some b)" "b = a \<or> sip_sessions hf t k = Some b"
    "\<forall>k'. k' \<noteq> k \<longrightarrow> sip_sessions hf t' k' = sip_sessions hf t k'"
    using sip.register [OF ok key] free ports by blast
  have "sip_sessions hf t' k = Some b" using sip.find_session [OF t'(2) key] t'(3) by simp
  then have again: "insert_node_to_sip_hash_table hf rtcp na' t' d a' = Some (b, t')"
    by (rule sip.insert_known [OF t'(2) key])
  obtain t'' where t'': "del_node_from_sip_hash_table t' b = Some t''" "sip_ok hf t''"
    "find_node_from_sip_hash_table hf t'' (da_cCallId d) = Some None"
    "\<forall>d' k'. sip_request_key d' = Some k' \<and> k' \<noteq> k \<longrightarrow>
       find_node_from_sip_hash_table hf t'' (da_cCallId d') = find_node_from_sip_hash_table hf t' (da_cCallId d')"
    using sip.unregister [OF t'(2) key t'(3)] by blast
  have "find_node_from_sip_hash_table hf t' (da_cCallId d') = find_node_from_sip_hash_table hf t (da_cCallId d')"
    if "sip_request_key d' = Some k'" "k' \<noteq> k" for d' k'
    using sip.find_session [OF t'(2) that(1)] sip.find_session [OF ok that(1)] t'(5) that(2) by simp
  then show ?thesis using t' again t'' by auto
qed

definition dev_args0 :: SIP_DEV_ARGS where
  "dev_args0 =
     \<lparr>da_cSsrc = [0x31, 0], da_cCallId = [0x61, 0x62, 0], da_cDevSn = [0], da_cPushIp = [0], da_iPushPort = 6000,
      da_cDevId = [0x64, 0], da_iDevChnl = 1, da_iStreamType = 0, da_cStreamSourceIp = [0], da_iStreamSourcePort = 80\<rparr>"

definition net0 :: net_answers where
  "net0 = \<lparr>na_sockets = [5, 6, 7], na_binds = [False, True, True], na_random = 10001\<rparr>"

lemma net0_free: "ports_free rtcp net0"
  unfolding ports_free_def net0_def by (auto intro!: exI [of _ 1])

theorem sip_call_life_witness:
  "\<exists>b t' t''. insert_node_to_sip_hash_table BKDR_hash True net0 (sip_table_create 16) dev_args0 40 = Some (b, t') \<and>
    sip_ok BKDR_hash t' \<and> (b = 40 \<or> sip_sessions BKDR_hash (sip_table_create 16) [0x61, 0x62] = Some b) \<and>
    find_node_from_sip_hash_table BKDR_hash t' (da_cCallId dev_args0) = Some (Some b) \<and>
    insert_node_to_sip_hash_table BKDR_hash True net0 t' dev_args0 41 = Some (b, t') \<and>
    del_node_from_sip_hash_table t' b = Some t'' \<and> sip_ok BKDR_hash t'' \<and>
    find_node_from_sip_hash_table BKDR_hash t'' (da_cCallId dev_args0) = Some None \<and>
    (\<forall>d' k'. sip_request_key d' = Some k' \<and> k' \<noteq> [0x61, 0x62] \<longrightarrow>
       find_node_from_sip_hash_table BKDR_hash t'' (da_cCallId d') =
       find_node_from_sip_hash_table BKDR_hash (sip_table_create 16) (da_cCallId d'))"
  by (rule sip_call_life, rule sip_create_ok)
     (simp_all add: sip_request_key_def dev_args0_def c_str_def net0_free sip_table_create_def)

text \<open>
  The ports of a call. When the kernel refuses some ports and then accepts two in a row, the retry
  loop returns; whenever it returns, the RTP socket of the node was bound successfully to the node's
  RTP port, which is even, and with RTCP the RTCP socket to the next one.
\<close>

theorem udp_ports_bound:
  "(ports_free rtcp na \<longrightarrow> (\<exists>n' es. udp_bind_local_port rtcp na n = Some (HB_SUCCESS, n', es))) \<and>
   (\<forall>rc n' es. udp_bind_local_port rtcp na n = Some (rc, n', es) \<longrightarrow>
      ports_bound rtcp n' es \<and> even (sn_iUdpSendStreamPort n') \<and> 2 * na_random na \<le> sn_iUdpSendStreamPort n')"
proof (intro conjI impI allI)
  show "ports_free rtcp na \<Longrightarrow> \<exists>n' es. udp_bind_local_port rtcp na n = Some (HB_SUCCESS, n', es)"
    by (rule udp_bind_returns)
  fix rc n' es
  assume "udp_bind_local_port rtcp na n = Some (rc, n', es)"
  then obtain m socks where "bind_loop rtcp (na_binds na) socks (m\<lparr>sn_iUdpSendStreamPort := 2 * na_random na\<rparr>) = Some (n', es)"
    by (auto simp: udp_bind_local_port_def Let_def split: list.splits if_splits)
  from bind_loop_ports [OF this] show "ports_bound rtcp n' es" "even (sn_iUdpSendStreamPort n')"
    "2 * na_random na \<le> sn_iUdpSendStreamPort n'" by simp_all
qed

theorem udp_ports_bound_witness:
  "\<exists>n' es. udp_bind_local_port True net0 sip_node_zero = Some (HB_SUCCESS, n', es) \<and>
     ports_bound True n' es \<and> even (sn_iUdpSendStreamPort n')"
  using udp_ports_bound [of True net0 sip_node_zero] net0_free by blast

end
