(* ===== verification/StreamHash.thy ===== *)
theory StreamHash
  imports SipHash RtpPack
begin

text \<open>
  \<open>src/stream_hash.c\<close>: the table of streams, keyed by device id, channel and stream type, and the
  clients of a stream by call id. A stream node carries the RTP session (\<open>RtpPack\<close>) and the list of its
  clients (\<open>ClientOpt\<close>).
\<close>

section \<open>State\<close>

record STREAM_NODE =
  uStreamNodeHashValue :: u32
  st_cDevId :: bytes
  st_cDevIp :: bytes
  st_iDevPort :: int
  st_iDevChnl :: int
  st_iStreamType :: int
  pConnectHbServerBev :: "nat option"
  uRtspPlayFlag :: u32
  rtp_info_video :: rtp_info_t
  listClientNodeHead :: "nat list"
  uGetStreamThreadStartFlag :: u32
  uRtpClientNodeSendDataThreadFlag :: u32
  hGetStreamFromSource :: "nat option"
  iRecvStreamDataLen :: int
  queueStreamData :: "nat option"

record STREAM_HASH_TABLE =
  uStreamHashTableLen :: u32
  listStreamNodeHead :: "nat list list"
  stream_nodes :: "nat \<rightharpoonup> STREAM_NODE"

text \<open>\<open>calloc(1, sizeof(STREAM_NODE_OBJ))\<close>.\<close>

definition stream_node_zero :: STREAM_NODE where
  "stream_node_zero =
     \<lparr>uStreamNodeHashValue = 0, st_cDevId = replicate 128 0, st_cDevIp = replicate 16 0, st_iDevPort = 0,
      st_iDevChnl = 0, st_iStreamType = 0, pConnectHbServerBev = None, uRtspPlayFlag = 0,
      rtp_info_video = rtp_info_zero, listClientNodeHead = [], uGetStreamThreadStartFlag = 0,
      uRtpClientNodeSendDataThreadFlag = 0, hGetStreamFromSource = None, iRecvStreamDataLen = 0,
      queueStreamData = None\<rparr>"

section \<open>Operations\<close>

text \<open>The seeker: device id, then channel, then stream type.\<close>

definition find_dev_id_chnl_stream_key :: "STREAM_HASH_TABLE \<Rightarrow> SIP_NODE \<Rightarrow> nat \<Rightarrow> bool option" where
  "find_dev_id_chnl_stream_key t s a = do {
     n \<leftarrow> stream_nodes t a;
     d \<leftarrow> c_str (st_cDevId n);
     e \<leftarrow> c_str (sn_cDevId s);
     Some (d = e \<and> st_iDevChnl n = sn_iDevChnl s \<and> st_iStreamType n = sn_iStreamType s)
   }"

definition create_stream_node :: "u32 \<Rightarrow> SIP_NODE \<Rightarrow> STREAM_NODE" where
  "create_stream_node hash s =
     stream_node_zero\<lparr>uStreamNodeHashValue := hash, st_cDevId := strncpy 128 (sn_cDevId s),
       st_iDevChnl := sn_iDevChnl s, st_iStreamType := sn_iStreamType s,
       st_cDevIp := strncpy 16 (sn_cStreamSourceIp s), st_iDevPort := sn_iStreamSourcePort s,
       rtp_info_video := rtp_info_init (rtp_info_video stream_node_zero) 96 (sn_u32Ssrc s),
       listClientNodeHead := []\<rparr>"

definition stream_chain :: "STREAM_HASH_TABLE \<Rightarrow> u32 \<Rightarrow> nat list option" where
  "stream_chain t hash =
     (if unat hash < length (listStreamNodeHead t) then Some (listStreamNodeHead t ! unat hash) else None)"

definition insert_node_to_stream_hash_table ::
  "STREAM_HASH_TABLE \<Rightarrow> u32 \<Rightarrow> SIP_NODE \<Rightarrow> nat \<Rightarrow> (nat \<times> STREAM_HASH_TABLE) option" where
  "insert_node_to_stream_hash_table t hash s a = do {
     chain \<leftarrow> stream_chain t hash;
     found \<leftarrow> seek_chain (find_dev_id_chnl_stream_key t s) chain;
     case found of Some b \<Rightarrow> Some (b, t)
     | None \<Rightarrow> Some (a, t\<lparr>stream_nodes := (stream_nodes t)(a \<mapsto> create_stream_node hash s),
                          listStreamNodeHead := (listStreamNodeHead t)[unat hash := la_append chain a]\<rparr>)
   }"

definition find_node_from_stream_hash_table :: "STREAM_HASH_TABLE \<Rightarrow> u32 \<Rightarrow> SIP_NODE \<Rightarrow> nat option option" where
  "find_node_from_stream_hash_table t hash s = do {
     chain \<leftarrow> stream_chain t hash;
     seek_chain (find_dev_id_chnl_stream_key t s) chain
   }"

definition del_node_from_stream_hash_table :: "STREAM_HASH_TABLE \<Rightarrow> nat \<Rightarrow> STREAM_HASH_TABLE option" where
  "del_node_from_stream_hash_table t a = do {
     n \<leftarrow> stream_nodes t a;
     chain \<leftarrow> stream_chain t (uStreamNodeHashValue n);
     Some (t\<lparr>listStreamNodeHead := (listStreamNodeHead t)[unat (uStreamNodeHashValue n) := la_delete chain a]\<rparr>)
   }"

definition stream_table_create :: "u32 \<Rightarrow> STREAM_HASH_TABLE" where
  "stream_table_create len =
     \<lparr>uStreamHashTableLen = len, listStreamNodeHead = replicate (unat len) [], stream_nodes = Map.empty\<rparr>"

definition stream_hash_table_create :: "bool \<Rightarrow> bool \<Rightarrow> u32 \<Rightarrow> STREAM_HASH_TABLE option" where
  "stream_hash_table_create calloc1 calloc2 len =
     (if \<not> calloc1 then None else if \<not> calloc2 then None else Some (stream_table_create len))"

definition find_client_node_key :: "client_world \<Rightarrow> bytes \<Rightarrow> nat \<Rightarrow> bool option" where
  "find_client_node_key w call_id a = do {
     c \<leftarrow> clients w a;
     s \<leftarrow> c_str (cCallId c);
     Some (s = call_id)
   }"

definition find_client_node :: "STREAM_NODE \<Rightarrow> client_world \<Rightarrow> bytes \<Rightarrow> nat option option" where
  "find_client_node n w pCallId = do {
     call_id \<leftarrow> c_str pCallId;
     seek_chain (find_client_node_key w call_id) (listClientNodeHead n)
   }"

definition get_stream_hash_value :: "(bytes \<Rightarrow> u32) \<Rightarrow> STREAM_HASH_TABLE \<Rightarrow> bytes \<Rightarrow> u32 option" where
  "get_stream_hash_value hf t pKey = do { k \<leftarrow> c_str pKey; hash_bucket hf k (uStreamHashTableLen t) }"

text \<open>The counts \<open>get_stream_hash_state\<close> prints.\<close>

fun stream_hash_state_loop :: "nat list list \<Rightarrow> int \<times> int \<times> u32 \<times> int \<times> int \<Rightarrow> int \<times> int \<times> u32 \<times> int \<times> int" where
  "stream_hash_state_loop [] st = st"
| "stream_hash_state_loop (c # cs) (used, summed, longest, conflicts, hits) =
     (let n = la_size c
      in stream_hash_state_loop cs
        (if n > 0
         then (used + 1, summed + n, (if word_of_int n > longest then word_of_int n else longest),
               (if n > 1 then conflicts + 1 else conflicts), (if n > 1 then hits else hits + 1))
         else (used, summed, longest, conflicts, hits)))"

definition get_stream_hash_state :: "STREAM_HASH_TABLE \<Rightarrow> int \<times> int \<times> u32 \<times> int \<times> int" where
  "get_stream_hash_state t = stream_hash_state_loop (listStreamNodeHead t) (0, 0, 0, 0, 0)"

section \<open>The registry of streams\<close>

text \<open>
  The caller computes the bucket from the text \<open>"<device id>_<channel>_<type>"\<close> that \<open>snprintf\<close> cuts
  to the 127 bytes of its buffer.
\<close>

type_synonym stream_key = "bytes \<times> int \<times> int"

definition hash_source :: "stream_key \<Rightarrow> bytes" where
  "hash_source k = (case k of (d, ch, ty) \<Rightarrow> take 127 (d @ [0x5F] @ print_int ch @ [0x5F] @ print_int ty))"

definition stream_bucket :: "(bytes \<Rightarrow> u32) \<Rightarrow> STREAM_HASH_TABLE \<Rightarrow> stream_key \<Rightarrow> u32" where
  "stream_bucket hf t k = hf (hash_source k) mod uStreamHashTableLen t"

definition stream_node_key :: "STREAM_HASH_TABLE \<Rightarrow> nat \<Rightarrow> stream_key option" where
  "stream_node_key t a = do {
     n \<leftarrow> stream_nodes t a;
     d \<leftarrow> c_str (st_cDevId n);
     Some (d, st_iDevChnl n, st_iStreamType n)
   }"

definition stream_request_key :: "SIP_NODE \<Rightarrow> stream_key option" where
  "stream_request_key s = (if length (sn_cDevId s) \<le> 128
     then map_option (\<lambda>d. (d, sn_iDevChnl s, sn_iStreamType s)) (c_str (sn_cDevId s)) else None)"

text \<open>The request as \<open>stream_read_cb\<close> hands it to the table, with its bucket.\<close>

definition request_bucket :: "(bytes \<Rightarrow> u32) \<Rightarrow> STREAM_HASH_TABLE \<Rightarrow> SIP_NODE \<Rightarrow> u32 option" where
  "request_bucket hf t s = do {
     d \<leftarrow> c_str (sn_cDevId s);
     hash_bucket hf (hash_source (d, sn_iDevChnl s, sn_iStreamType s)) (uStreamHashTableLen t)
   }"

definition stream_ok :: "(bytes \<Rightarrow> u32) \<Rightarrow> STREAM_HASH_TABLE \<Rightarrow> bool" where
  "stream_ok hf t \<longleftrightarrow> uStreamHashTableLen t \<noteq> 0 \<and>
     length (listStreamNodeHead t) = unat (uStreamHashTableLen t) \<and>
     chains_ok (stream_node_key t) (\<lambda>k. unat (stream_bucket hf t k)) (listStreamNodeHead t) \<and>
     (\<forall>a n k. stream_nodes t a = Some n \<and> stream_node_key t a = Some k \<longrightarrow>
        uStreamNodeHashValue n = stream_bucket hf t k)"

definition streams :: "(bytes \<Rightarrow> u32) \<Rightarrow> STREAM_HASH_TABLE \<Rightarrow> stream_key \<Rightarrow> nat option" where
  "streams hf t = chains_map (stream_node_key t) (\<lambda>k. unat (stream_bucket hf t k)) (listStreamNodeHead t)"

lemma stream_bucket_range: "stream_ok hf t \<Longrightarrow> unat (stream_bucket hf t k) < length (listStreamNodeHead t)"
  by (simp add: stream_ok_def stream_bucket_def unat_mod) (meson mod_less_divisor unat_gt_0)

lemma stream_chain_ok:
  "stream_ok hf t \<Longrightarrow> stream_chain t (stream_bucket hf t k) = Some (listStreamNodeHead t ! unat (stream_bucket hf t k))"
  using stream_bucket_range [of hf t k] by (simp add: stream_chain_def)

lemma request_bucket_ok:
  "stream_ok hf t \<Longrightarrow> stream_request_key s = Some k \<Longrightarrow> request_bucket hf t s = Some (stream_bucket hf t k)"
  by (auto simp: request_bucket_def stream_request_key_def hash_bucket_def stream_bucket_def stream_ok_def split: if_splits)

lemma stream_seek:
  assumes "stream_ok hf t" and key: "stream_request_key s = Some k"
  shows "seek_chain (find_dev_id_chnl_stream_key t s) (listStreamNodeHead t ! unat (stream_bucket hf t k)) =
    Some (streams hf t k)"
proof -
  have "find_dev_id_chnl_stream_key t s a = Some (stream_node_key t a = Some k)"
    if mem: "a \<in> set (listStreamNodeHead t ! unat (stream_bucket hf t k))" for a
  proof -
    obtain k' where "stream_node_key t a = Some k'"
      using chains_member [OF _ stream_bucket_range [OF assms(1)] mem, of "stream_node_key t" "\<lambda>k. unat (stream_bucket hf t k)"] assms
      by (auto simp: stream_ok_def)
    then show ?thesis
      using key by (auto simp: find_dev_id_chnl_stream_key_def stream_node_key_def stream_request_key_def
          split: bind_splits if_splits)
  qed
  then show ?thesis by (simp add: seek_chain_find streams_def chains_map_def)
qed

lemma stream_insert_new:
  assumes ok: "stream_ok hf t" and key: "stream_request_key s = Some k" and new: "streams hf t k = None"
    and free: "stream_nodes t a = None"
  shows "\<exists>t'. insert_node_to_stream_hash_table t (stream_bucket hf t k) s a = Some (a, t') \<and> stream_ok hf t' \<and>
    streams hf t' = (streams hf t)(k \<mapsto> a)"
proof -
  let ?b = "stream_bucket hf t k" and ?n = "create_stream_node (stream_bucket hf t k) s"
  obtain d where d: "c_str (sn_cDevId s) = Some d" "length (sn_cDevId s) \<le> 128" "k = (d, sn_iDevChnl s, sn_iStreamType s)"
    using key by (auto simp: stream_request_key_def split: if_splits)
  let ?t = "t\<lparr>stream_nodes := (stream_nodes t)(a \<mapsto> ?n),
     listStreamNodeHead := (listStreamNodeHead t)[unat ?b := la_append (listStreamNodeHead t ! unat ?b) a]\<rparr>"
  have ins: "insert_node_to_stream_hash_table t ?b s a = Some (a, ?t)"
    using stream_chain_ok [OF ok] stream_seek [OF ok key] new by (simp add: insert_node_to_stream_hash_table_def)
  have out: "a \<notin> set (listStreamNodeHead t ! i)" if "i < length (listStreamNodeHead t)" for i
    using ok that free unfolding stream_ok_def chains_ok_def by (fastforce simp: stream_node_key_def)
  have b: "stream_bucket hf ?t = stream_bucket hf t" by (simp add: stream_bucket_def fun_eq_iff)
  have f: "c_str (st_cDevId ?n) = Some d" "st_iDevChnl ?n = sn_iDevChnl s" "st_iStreamType ?n = sn_iStreamType s"
    "uStreamNodeHashValue ?n = ?b" using c_str_strncpy [OF d(1,2)] by (simp_all add: create_stream_node_def)
  have nk: "stream_node_key ?t a = Some k" "\<And>b. b \<noteq> a \<Longrightarrow> stream_node_key ?t b = stream_node_key t b"
    using f d(3) by (simp_all add: stream_node_key_def)
  have c: "chains_ok (stream_node_key t) (\<lambda>k. unat (stream_bucket hf t k)) (listStreamNodeHead t)"
    using ok by (simp add: stream_ok_def)
  have m: "chains_map (stream_node_key t) (\<lambda>k. unat (stream_bucket hf t k)) (listStreamNodeHead t) k = None"
    using new by (simp add: streams_def)
  note ch = chains_append [OF c stream_bucket_range [OF ok] m out nk stream_bucket_range [OF ok]]
  have "stream_ok hf ?t"
    unfolding stream_ok_def b using ok ch(1) f(4) nk by (auto simp: stream_ok_def)
  moreover have "streams hf ?t = (streams hf t)(k \<mapsto> a)"
    unfolding streams_def b using ch(2) by simp
  ultimately show ?thesis using ins by blast
qed

lemma stream_delete:
  assumes ok: "stream_ok hf t" and a: "streams hf t k = Some a"
  shows "\<exists>t'. del_node_from_stream_hash_table t a = Some t' \<and> stream_ok hf t' \<and> streams hf t' = (streams hf t)(k := None)"
proof -
  let ?b = "stream_bucket hf t k"
  have c: "chains_ok (stream_node_key t) (\<lambda>k. unat (stream_bucket hf t k)) (listStreamNodeHead t)"
    using ok by (simp add: stream_ok_def)
  have k: "stream_node_key t a = Some k"
    using a chains_map_Some [OF c stream_bucket_range [OF ok]] by (simp add: streams_def)
  then obtain n where n: "stream_nodes t a = Some n" "uStreamNodeHashValue n = ?b"
    using ok by (auto simp: stream_node_key_def stream_ok_def split: bind_splits)
  let ?t = "t\<lparr>listStreamNodeHead := (listStreamNodeHead t)[unat ?b := la_delete (listStreamNodeHead t ! unat ?b) a]\<rparr>"
  have del: "del_node_from_stream_hash_table t a = Some ?t"
    using n stream_chain_ok [OF ok, of k] by (simp add: del_node_from_stream_hash_table_def)
  have same: "stream_bucket hf ?t = stream_bucket hf t" "stream_node_key ?t = stream_node_key t"
    by (simp_all add: stream_bucket_def stream_node_key_def fun_eq_iff)
  have a': "chains_map (stream_node_key t) (\<lambda>k. unat (stream_bucket hf t k)) (listStreamNodeHead t) k = Some a"
    using a by (simp add: streams_def)
  note ch = chains_delete [OF c stream_bucket_range [OF ok] a']
  have "stream_ok hf ?t" unfolding stream_ok_def same using ok ch(1) by (auto simp: stream_ok_def)
  moreover have "streams hf ?t = (streams hf t)(k := None)"
    unfolding streams_def same using ch(2) by simp
  ultimately show ?thesis using del by blast
qed

interpretation stream: registry "stream_ok hf" "streams hf"
  "\<lambda>t s. Option.bind (request_bucket hf t s) (\<lambda>h. find_node_from_stream_hash_table t h s)"
  "\<lambda>t s a. Option.bind (request_bucket hf t s) (\<lambda>h. insert_node_to_stream_hash_table t h s a)"
  del_node_from_stream_hash_table stream_request_key "\<lambda>t a. stream_nodes t a = None"
proof
  fix t s k a b
  assume ok: "stream_ok hf t"
  show "stream_request_key s = Some k \<Longrightarrow>
      Option.bind (request_bucket hf t s) (\<lambda>h. find_node_from_stream_hash_table t h s) = Some (streams hf t k)"
    using stream_chain_ok [OF ok] stream_seek [OF ok] request_bucket_ok [OF ok]
    by (simp add: find_node_from_stream_hash_table_def)
  show "stream_request_key s = Some k \<Longrightarrow> streams hf t k = Some b \<Longrightarrow>
      Option.bind (request_bucket hf t s) (\<lambda>h. insert_node_to_stream_hash_table t h s a) = Some (b, t)"
    using stream_chain_ok [OF ok] stream_seek [OF ok] request_bucket_ok [OF ok]
    by (simp add: insert_node_to_stream_hash_table_def)
  show "stream_request_key s = Some k \<Longrightarrow> streams hf t k = None \<Longrightarrow> stream_nodes t a = None \<Longrightarrow>
      \<exists>t'. Option.bind (request_bucket hf t s) (\<lambda>h. insert_node_to_stream_hash_table t h s a) = Some (a, t') \<and>
        stream_ok hf t' \<and> streams hf t' = (streams hf t)(k \<mapsto> a)"
    using stream_insert_new [OF ok] request_bucket_ok [OF ok] by simp
  show "streams hf t k = Some a \<Longrightarrow>
      \<exists>t'. del_node_from_stream_hash_table t a = Some t' \<and> stream_ok hf t' \<and> streams hf t' = (streams hf t)(k := None)"
    by (rule stream_delete [OF ok])
  show "streams hf t k = Some a \<Longrightarrow> streams hf t k' = Some a \<Longrightarrow> k = k'" for k'
    using ok stream_bucket_range [OF ok] by (auto simp: streams_def stream_ok_def chains_map_Some)
next
  fix t s a b t' a'
  show "Option.bind (request_bucket hf t s) (\<lambda>h. insert_node_to_stream_hash_table t h s a) = Some (b, t') \<Longrightarrow>
      stream_nodes t a' = None \<Longrightarrow> a' \<noteq> a \<Longrightarrow> stream_nodes t' a' = None"
    by (auto simp: insert_node_to_stream_hash_table_def split: bind_splits option.splits)
qed

section \<open>Properties\<close>

lemma stream_create_ok: "len \<noteq> 0 \<Longrightarrow> stream_ok hf (stream_table_create len)"
proof -
  assume len: "len \<noteq> 0"
  have "chains_ok nkey hb (replicate n [])" for nkey :: "nat \<Rightarrow> stream_key option" and hb n
    by (simp add: chains_ok_def)
  then show ?thesis using len by (simp add: stream_ok_def stream_table_create_def)
qed

text \<open>
  C19. Streams are shared. Two play requests taken one after the other on a sound table are given the same
  stream node exactly when they name the same device, channel and stream type; both then find
  the node they were given, and the table stays sound.
\<close>

theorem streams_shared_by_key:
  assumes "stream_ok hf t" and "stream_request_key s = Some k" and "stream_request_key s' = Some k'"
    and "stream_nodes t a = None" and "stream_nodes t a' = None" and "a \<noteq> a'"
  shows "\<exists>b t' b' t''.
    Option.bind (request_bucket hf t s) (\<lambda>h. insert_node_to_stream_hash_table t h s a) = Some (b, t') \<and>
    Option.bind (request_bucket hf t' s') (\<lambda>h. insert_node_to_stream_hash_table t' h s' a') = Some (b', t'') \<and>
    stream_ok hf t'' \<and> (b = b' \<longleftrightarrow> k = k') \<and>
    Option.bind (request_bucket hf t'' s) (\<lambda>h. find_node_from_stream_hash_table t'' h s) = Some (Some b) \<and>
    Option.bind (request_bucket hf t'' s') (\<lambda>h. find_node_from_stream_hash_table t'' h s') = Some (Some b')"
  by (rule stream.two_requests [OF assms])

theorem streams_shared_by_key_witness:
  "\<exists>b t' b' t''.
    Option.bind (request_bucket BKDR_hash (stream_table_create 4) sip_node_zero)
      (\<lambda>h. insert_node_to_stream_hash_table (stream_table_create 4) h sip_node_zero 7) = Some (b, t') \<and>
    Option.bind (request_bucket BKDR_hash t' (sip_node_zero\<lparr>sn_iDevChnl := 1\<rparr>))
      (\<lambda>h. insert_node_to_stream_hash_table t' h (sip_node_zero\<lparr>sn_iDevChnl := 1\<rparr>) 8) = Some (b', t'') \<and>
    stream_ok BKDR_hash t'' \<and> (b = b' \<longleftrightarrow> ([] :: bytes, 0 :: int, 0 :: int) = ([], 1, 0)) \<and>
    Option.bind (request_bucket BKDR_hash t'' sip_node_zero)
      (\<lambda>h. find_node_from_stream_hash_table t'' h sip_node_zero) = Some (Some b) \<and>
    Option.bind (request_bucket BKDR_hash t'' (sip_node_zero\<lparr>sn_iDevChnl := 1\<rparr>))
      (\<lambda>h. find_node_from_stream_hash_table t'' h (sip_node_zero\<lparr>sn_iDevChnl := 1\<rparr>)) = Some (Some b')"
  by (rule streams_shared_by_key, rule stream_create_ok)
     (simp_all add: stream_request_key_def sip_node_zero_def c_str_def stream_table_create_def)

end
