(* ===== verification/SimcList.thy ===== *)
theory SimcList
  imports ListApi
begin

text \<open>
  \<open>src/common/simclist.c\<close>: the doubly linked list with two sentinels, a pointer to the middle and a
  store of spare cells. The fields of the cells are maps from addresses, with the set of live
  addresses; a null pointer is \<open>None\<close>, and an access through one or to a freed cell makes the whole
  operation \<open>None\<close>. Element data is a pointer of type \<open>'a\<close>. Positions are \<open>int\<close>s: the list has
  fewer than 2^31 elements. Only lists that do not copy their data are modelled, which is how
  the server uses all of its lists.
\<close>

section \<open>State\<close>

definition SIMCLIST_MAX_SPARE_ELEMS :: nat where "SIMCLIST_MAX_SPARE_ELEMS = 5"

record ('a, 'k) list_t =
  head_sentinel :: nat
  tail_sentinel :: nat
  mid :: "nat option"
  numels :: int
  spareels :: "nat list"
  iter_active :: bool
  iter_pos :: int
  iter_curentry :: "nat option"
  comparator :: "('a \<Rightarrow> 'a \<Rightarrow> int) option"
  seeker :: "('a \<Rightarrow> 'k \<Rightarrow> bool) option"
  live :: "nat \<Rightarrow> bool"
  nxt :: "nat \<Rightarrow> nat option"
  prv :: "nat \<Rightarrow> nat option"
  dat :: "nat \<Rightarrow> 'a option"

text \<open>A pointer that may be dereferenced.\<close>

definition deref :: "('a, 'k) list_t \<Rightarrow> nat option \<Rightarrow> nat option" where
  "deref l p = (case p of None \<Rightarrow> None | Some a \<Rightarrow> if live l a then Some a else None)"

definition set_nxt :: "nat \<Rightarrow> nat option \<Rightarrow> ('a, 'k) list_t \<Rightarrow> ('a, 'k) list_t" where
  "set_nxt a p l = l\<lparr>nxt := (nxt l)(a := p)\<rparr>"

definition set_prv :: "nat \<Rightarrow> nat option \<Rightarrow> ('a, 'k) list_t \<Rightarrow> ('a, 'k) list_t" where
  "set_prv a p l = l\<lparr>prv := (prv l)(a := p)\<rparr>"

text \<open>\<open>ptr = ptr->next\<close>, or \<open>prev\<close>, so many times.\<close>

fun walk :: "('a, 'k) list_t \<Rightarrow> (nat \<Rightarrow> nat option) \<Rightarrow> nat \<Rightarrow> nat option \<Rightarrow> nat option option" where
  "walk l f 0 p = Some p"
| "walk l f (Suc k) p = do { a \<leftarrow> deref l p; walk l f k (f a) }"

section \<open>list_init and attributes\<close>

text \<open>\<open>h\<close> and \<open>t\<close> are the addresses \<open>malloc\<close> gives for the sentinels; \<open>l\<close> is the memory before.\<close>

definition list_init :: "nat \<Rightarrow> nat \<Rightarrow> ('a, 'k) list_t \<Rightarrow> ('a, 'k) list_t" where
  "list_init h t l =
     l\<lparr>numels := 0, head_sentinel := h, tail_sentinel := t,
       live := (live l)(h := True, t := True),
       nxt := (nxt l)(h := Some t, t := None), prv := (prv l)(h := None, t := Some h),
       mid := None, dat := (dat l)(h := None, t := None),
       iter_active := False, iter_pos := 0, iter_curentry := None, spareels := [],
       comparator := None, seeker := None\<rparr>"

definition list_attributes_comparator :: "('a \<Rightarrow> 'a \<Rightarrow> int) option \<Rightarrow> ('a, 'k) list_t \<Rightarrow> int \<times> ('a, 'k) list_t" where
  "list_attributes_comparator f l = (0, l\<lparr>comparator := f\<rparr>)"

definition list_attributes_seeker :: "('a \<Rightarrow> 'k \<Rightarrow> bool) option \<Rightarrow> ('a, 'k) list_t \<Rightarrow> int \<times> ('a, 'k) list_t" where
  "list_attributes_seeker f l = (0, l\<lparr>seeker := f\<rparr>)"

section \<open>list_findpos\<close>

text \<open>
  The quarter of the list decides where the walk starts. \<open>x\<close> is a \<open>float\<close> in the code: below 2^23
  elements its comparisons are those of the fraction \<open>(pos + 1) / numels\<close>. For an empty list it is
  not a number or infinite and the last branch is taken.
\<close>

definition list_findpos :: "('a, 'k) list_t \<Rightarrow> int \<Rightarrow> nat option option" where
  "list_findpos l pos =
     (let n = numels l; m = (n - 1) div 2
      in if pos < -1 \<or> pos > n then Some None
         else if n \<noteq> 0 \<and> 4 * (pos + 1) \<le> n then walk l (nxt l) (nat (pos + 1)) (Some (head_sentinel l))
         else if n \<noteq> 0 \<and> 2 * (pos + 1) < n then walk l (prv l) (nat (m - pos)) (mid l)
         else if n \<noteq> 0 \<and> 4 * (pos + 1) \<le> 3 * n then walk l (nxt l) (nat (pos - m)) (mid l)
         else walk l (prv l) (nat (n - pos)) (Some (tail_sentinel l)))"

definition list_get_at :: "('a, 'k) list_t \<Rightarrow> int \<Rightarrow> 'a option option" where
  "list_get_at l pos = do {
     p \<leftarrow> list_findpos l pos;
     case p of None \<Rightarrow> Some None
     | Some a \<Rightarrow> if live l a then Some (dat l a) else None
   }"

section \<open>list_insert_at\<close>

text \<open>A cell from the spares, or from \<open>malloc\<close>, whose answer is \<open>m\<close>.\<close>

definition take_cell :: "nat option \<Rightarrow> ('a, 'k) list_t \<Rightarrow> (nat \<times> ('a, 'k) list_t) option" where
  "take_cell m l =
     (if spareels l \<noteq> [] then Some (last (spareels l), l\<lparr>spareels := butlast (spareels l)\<rparr>)
      else map_option (\<lambda>a. (a, l\<lparr>live := (live l)(a := True)\<rparr>)) m)"

text \<open>Moving the middle pointer one cell on or back.\<close>

definition mid_next :: "('a, 'k) list_t \<Rightarrow> ('a, 'k) list_t option" where
  "mid_next l = map_option (\<lambda>a. l\<lparr>mid := nxt l a\<rparr>) (deref l (mid l))"

definition mid_prev :: "('a, 'k) list_t \<Rightarrow> ('a, 'k) list_t option" where
  "mid_prev l = map_option (\<lambda>a. l\<lparr>mid := prv l a\<rparr>) (deref l (mid l))"

definition insert_fix_mid :: "nat \<Rightarrow> int \<Rightarrow> ('a, 'k) list_t \<Rightarrow> ('a, 'k) list_t option" where
  "insert_fix_mid lent pos l =
     (if numels l = 1 then Some (l\<lparr>mid := Some lent\<rparr>)
      else if numels l mod 2 = 1
      then (if pos \<ge> (numels l - 1) div 2 then mid_next l else Some l)
      else (if pos \<le> (numels l - 1) div 2 then mid_prev l else Some l))"

definition list_insert_at :: "nat option \<Rightarrow> ('a, 'k) list_t \<Rightarrow> 'a \<Rightarrow> int \<Rightarrow> (int \<times> ('a, 'k) list_t) option" where
  "list_insert_at m l d pos =
     (if iter_active l \<or> pos < 0 \<or> pos > numels l then Some (-1, l)
      else case take_cell m l of None \<Rightarrow> Some (-1, l)
        | Some (lent, l) \<Rightarrow> do {
            let l = l\<lparr>dat := (dat l)(lent := Some d)\<rparr>;
            p \<leftarrow> list_findpos l (pos - 1);
            prec \<leftarrow> deref l p;
            succ \<leftarrow> deref l (nxt l prec);
            let l = set_nxt prec (Some lent) l;
            let l = set_prv lent (Some prec) l;
            let l = set_nxt lent (Some succ) l;
            let l = set_prv succ (Some lent) l;
            let l = l\<lparr>numels := numels l + 1\<rparr>;
            l \<leftarrow> insert_fix_mid lent pos l;
            Some (1, l)
          })"

definition list_append :: "nat option \<Rightarrow> ('a, 'k) list_t \<Rightarrow> 'a \<Rightarrow> (int \<times> ('a, 'k) list_t) option" where
  "list_append m l d = list_insert_at m l d (numels l)"

definition list_prepend :: "nat option \<Rightarrow> ('a, 'k) list_t \<Rightarrow> 'a \<Rightarrow> (int \<times> ('a, 'k) list_t) option" where
  "list_prepend m l d = list_insert_at m l d 0"

section \<open>Removal\<close>

definition drop_fix_mid :: "int \<Rightarrow> ('a, 'k) list_t \<Rightarrow> ('a, 'k) list_t option" where
  "drop_fix_mid pos l =
     (if numels l mod 2 = 1
      then (if numels l = 1 then Some (l\<lparr>mid := None\<rparr>)
            else if pos \<ge> numels l div 2 then mid_prev l else Some l)
      else (if pos < numels l div 2 then mid_next l else Some l))"

definition give_cell :: "nat \<Rightarrow> ('a, 'k) list_t \<Rightarrow> ('a, 'k) list_t" where
  "give_cell a l =
     (if length (spareels l) < SIMCLIST_MAX_SPARE_ELEMS then l\<lparr>spareels := spareels l @ [a]\<rparr>
      else l\<lparr>live := (live l)(a := False)\<rparr>)"

definition list_drop_elem :: "('a, 'k) list_t \<Rightarrow> nat option \<Rightarrow> int \<Rightarrow> (int \<times> ('a, 'k) list_t) option" where
  "list_drop_elem l tmp pos =
     (case tmp of None \<Rightarrow> Some (-1, l)
      | Some a \<Rightarrow> do {
          l \<leftarrow> drop_fix_mid pos l;
          a \<leftarrow> deref l (Some a);
          p \<leftarrow> deref l (prv l a);
          let l = set_nxt p (nxt l a) l;
          n \<leftarrow> deref l (nxt l a);
          let l = set_prv n (prv l a) l;
          Some (0, give_cell a l)
        })"

definition list_delete_at :: "('a, 'k) list_t \<Rightarrow> int \<Rightarrow> (int \<times> ('a, 'k) list_t) option" where
  "list_delete_at l pos =
     (if iter_active l \<or> pos < 0 \<or> pos \<ge> numels l then Some (-1, l)
      else do {
        p \<leftarrow> list_findpos l pos;
        (r, l) \<leftarrow> list_drop_elem l p pos;
        Some (0, l\<lparr>numels := numels l - 1\<rparr>)
      })"

definition list_extract_at :: "('a, 'k) list_t \<Rightarrow> int \<Rightarrow> ('a option \<times> ('a, 'k) list_t) option" where
  "list_extract_at l pos =
     (if iter_active l \<or> pos < 0 \<or> pos \<ge> numels l then Some (None, l)
      else do {
        p \<leftarrow> list_findpos l pos;
        a \<leftarrow> deref l p;
        let d = dat l a;
        let l = l\<lparr>dat := (dat l)(a := None)\<rparr>;
        (r, l) \<leftarrow> list_drop_elem l p pos;
        Some (d, l\<lparr>numels := numels l - 1\<rparr>)
      })"

text \<open>The scans from the head run on at most \<open>numels\<close> cells before the tail sentinel.\<close>

fun scan :: "('a, 'k) list_t \<Rightarrow> ('a option \<Rightarrow> bool) \<Rightarrow> nat \<Rightarrow> nat option \<Rightarrow> int \<Rightarrow> (nat \<times> int) option option" where
  "scan l f 0 p pos = (if p = Some (tail_sentinel l) then Some None else None)"
| "scan l f (Suc k) p pos =
     (if p = Some (tail_sentinel l) then Some None
      else do {
        a \<leftarrow> deref l p;
        if f (dat l a) then Some (Some (a, pos)) else scan l f k (nxt l a) (pos + 1)
      })"

definition list_locate :: "('a, 'k) list_t \<Rightarrow> 'a \<Rightarrow> int option" where
  "list_locate l d = do {
     h \<leftarrow> deref l (Some (head_sentinel l));
     r \<leftarrow> scan l (case comparator l of Some c \<Rightarrow> case_option False (\<lambda>y. c d y = 0) | None \<Rightarrow> (\<lambda>x. x = Some d))
           (nat (numels l)) (nxt l h) 0;
     Some (case r of None \<Rightarrow> -1 | Some (a, pos) \<Rightarrow> pos)
   }"

definition list_seek :: "('a, 'k) list_t \<Rightarrow> 'k \<Rightarrow> 'a option option" where
  "list_seek l k =
     (case seeker l of None \<Rightarrow> Some None
      | Some s \<Rightarrow> do {
          h \<leftarrow> deref l (Some (head_sentinel l));
          r \<leftarrow> scan l (case_option False (\<lambda>y. s y k)) (nat (numels l)) (nxt l h) 0;
          Some (case r of None \<Rightarrow> None | Some (a, pos) \<Rightarrow> dat l a)
        })"

definition list_delete :: "('a, 'k) list_t \<Rightarrow> 'a \<Rightarrow> (int \<times> ('a, 'k) list_t) option" where
  "list_delete l d = do {
     pos \<leftarrow> list_locate l d;
     if pos < 0 then Some (-1, l)
     else do {
       (r, l) \<leftarrow> list_delete_at l pos;
       Some ((if r < 0 then -1 else 0), l)
     }
   }"

definition list_size :: "('a, 'k) list_t \<Rightarrow> int" where
  "list_size l = numels l"

section \<open>The chain of cells\<close>

fun linked :: "(nat \<Rightarrow> nat option) \<Rightarrow> (nat \<Rightarrow> nat option) \<Rightarrow> nat list \<Rightarrow> bool" where
  "linked n p [] = True"
| "linked n p [x] = True"
| "linked n p (x # y # xs) = (n x = Some y \<and> p y = Some x \<and> linked n p (y # xs))"

lemma linked_append:
  "linked n p (A @ x # y # B) \<longleftrightarrow>
     linked n p (A @ [x]) \<and> n x = Some y \<and> p y = Some x \<and> linked n p (y # B)"
  by (induction A rule: induct_list012) auto

lemma linked_nth:
  "linked n p xs \<Longrightarrow> Suc i < length xs \<Longrightarrow> n (xs ! i) = Some (xs ! Suc i) \<and> p (xs ! Suc i) = Some (xs ! i)"
proof (induction xs arbitrary: i rule: induct_list012)
  case (3 x y zs)
  then show ?case by (cases i) auto
qed auto

lemma linked_nxt_last: "x \<notin> set A \<Longrightarrow> linked (n(x := v)) p (A @ [x]) = linked n p (A @ [x])"
  by (induction A rule: induct_list012) auto

lemma linked_prv_first: "y \<notin> set B \<Longrightarrow> linked n (p(y := v)) (y # B) = linked n p (y # B)"
proof (cases B)
  case (Cons z zs)
  assume "y \<notin> set B"
  moreover have "y \<notin> set xs \<Longrightarrow> linked n (p(y := v)) xs = linked n p xs" for xs
    by (induction xs rule: induct_list012) auto
  ultimately show ?thesis using Cons by auto
qed simp

lemma linked_nxt_other: "x \<notin> set xs \<Longrightarrow> linked (n(x := v)) p xs = linked n p xs"
  by (induction xs rule: induct_list012) auto

lemma linked_prv_other: "x \<notin> set xs \<Longrightarrow> linked n (p(x := v)) xs = linked n p xs"
  by (induction xs rule: induct_list012) auto

definition cells :: "('a, 'k) list_t \<Rightarrow> nat list \<Rightarrow> nat list" where
  "cells l as = head_sentinel l # as @ [tail_sentinel l]"

definition rep :: "('a, 'k) list_t \<Rightarrow> nat list \<Rightarrow> bool" where
  "rep l as \<longleftrightarrow>
     distinct (cells l as @ spareels l) \<and> linked (nxt l) (prv l) (cells l as) \<and>
     (\<forall>a\<in>set (cells l as @ spareels l). live l a) \<and> numels l = int (length as) \<and>
     mid l = (if as = [] then None else Some (as ! ((length as - 1) div 2))) \<and>
     (\<forall>a\<in>set as. dat l a \<noteq> None) \<and> dat l (head_sentinel l) = None \<and> dat l (tail_sentinel l) = None \<and>
     \<not> iter_active l"

definition contents :: "('a, 'k) list_t \<Rightarrow> nat list \<Rightarrow> 'a list" where
  "contents l as = map (\<lambda>a. the (dat l a)) as"

lemma deref_live [simp]: "live l a \<Longrightarrow> deref l (Some a) = Some a"
  by (simp add: deref_def)

lemma walk_nxt:
  assumes "linked (nxt l) p xs" and "\<forall>a\<in>set xs. live l a"
  shows "i + k < length xs \<Longrightarrow> walk l (nxt l) k (Some (xs ! i)) = Some (Some (xs ! (i + k)))"
proof (induction k arbitrary: i)
  case (Suc k)
  then show ?case using linked_nth [OF assms(1), of i] assms(2) Suc.IH [of "Suc i"] by simp
qed simp

lemma walk_prv:
  assumes "linked n (prv l) xs" and "\<forall>a\<in>set xs. live l a"
  shows "i < length xs \<Longrightarrow> k \<le> i \<Longrightarrow> walk l (prv l) k (Some (xs ! i)) = Some (Some (xs ! (i - k)))"
proof (induction k arbitrary: i)
  case (Suc k)
  then obtain j where "i = Suc j" by (cases i) auto
  then show ?case using Suc linked_nth [OF assms(1), of j] assms(2) Suc.IH [of j] by simp
qed simp

lemma mid_cell:
  assumes "rep l as" and "as \<noteq> []"
  shows "mid l = Some (cells l as ! ((length as - 1) div 2 + 1))"
proof -
  have "(length as - 1) div 2 < length as" using assms(2) by (cases as) auto
  then show ?thesis using assms by (simp add: rep_def cells_def nth_append)
qed

lemma findpos_cell:
  assumes r: "rep l as" and p: "-1 \<le> pos" "pos \<le> numels l"
  shows "list_findpos l pos = Some (Some (cells l as ! nat (pos + 1)))"
proof -
  let ?xs = "cells l as" and ?n = "length as" and ?m = "(length as - 1) div 2"
  have n: "numels l = int ?n" and lk: "linked (nxt l) (prv l) ?xs" and lv: "\<forall>a\<in>set ?xs. live l a"
    using r by (simp_all add: rep_def)
  have len: "length ?xs = ?n + 2" by (simp add: cells_def)
  have h: "?xs ! 0 = head_sentinel l" and t: "?xs ! (?n + 1) = tail_sentinel l"
    by (simp_all add: cells_def nth_append)
  have fwd: "walk l (nxt l) (nat (pos + 1)) (Some (head_sentinel l)) = Some (Some (?xs ! nat (pos + 1)))"
    using walk_nxt [OF lk lv, of 0 "nat (pos + 1)"] h len p n by simp
  have bwd: "walk l (prv l) (nat (int ?n - pos)) (Some (tail_sentinel l)) = Some (Some (?xs ! nat (pos + 1)))"
  proof -
    have "?n + 1 - nat (int ?n - pos) = nat (pos + 1)" using p n by linarith
    then show ?thesis using walk_prv [OF lk lv, of "?n + 1" "nat (int ?n - pos)"] t len p n by simp
  qed
  have m: "(int ?n - 1) div 2 = int ?m" if "?n \<noteq> 0" using that by linarith
  have mid_b: "walk l (prv l) (nat (int ?m - pos)) (mid l) = Some (Some (?xs ! nat (pos + 1)))"
    if "pos \<le> int ?m" "?n \<noteq> 0"
  proof -
    have e: "?m + 1 - nat (int ?m - pos) = nat (pos + 1)" using that p by linarith
    have le: "nat (int ?m - pos) \<le> ?m + 1" using p by linarith
    have "?m + 1 < length ?xs" unfolding len by linarith
    then show ?thesis using le walk_prv [OF lk lv, of "?m + 1" "nat (int ?m - pos)"] mid_cell [OF r] that p e by simp
  qed
  have mid_f: "walk l (nxt l) (nat (pos - int ?m)) (mid l) = Some (Some (?xs ! nat (pos + 1)))"
    if "int ?m \<le> pos" "?n \<noteq> 0"
  proof -
    have e: "?m + 1 + nat (pos - int ?m) = nat (pos + 1)" using that by linarith
    have "nat (pos + 1) < length ?xs" using p n len by linarith
    then show ?thesis using walk_nxt [OF lk lv, of "?m + 1" "nat (pos - int ?m)"] mid_cell [OF r] that e by simp
  qed
  obtain mm where mm: "mm = ?m" by simp
  have lo: "int ?n \<le> 2 * int mm + 2" unfolding mm by linarith
  have hi: "2 * int mm + 1 \<le> int ?n" if "?n \<noteq> 0" using that unfolding mm by linarith
  have "pos \<le> int ?m" if "2 * (pos + 1) < int ?n" using that lo unfolding mm [symmetric] by presburger
  moreover have "int ?m \<le> pos" if "int ?n \<le> 2 * (pos + 1)" "?n \<noteq> 0" using that(1) hi [OF that(2)] unfolding mm [symmetric] by presburger
  ultimately show ?thesis
    using p n fwd bwd mid_b mid_f m by (auto simp: list_findpos_def Let_def)
qed

section \<open>Insertion\<close>

lemma insert_link:
  assumes "linked n p (A @ x # y # B)" and "distinct (A @ x # y # B)" and "c \<notin> set (A @ x # y # B)"
  shows "linked (n(x := Some c, c := Some y)) (p(c := Some x, y := Some c)) (A @ x # c # y # B)"
proof -
  have l: "linked n p (A @ [x])" "linked n p (y # B)" using assms(1) by (simp_all add: linked_append)
  have d: "x \<notin> set A" "y \<notin> set B" "x \<noteq> y" "c \<noteq> x" "c \<noteq> y" "c \<notin> set A" "c \<notin> set B" "y \<notin> set A" "x \<notin> set B"
    using assms(2,3) by auto
  have "linked (n(x := Some c, c := Some y)) (p(c := Some x, y := Some c)) (A @ [x])"
    using l(1) d by (subst linked_prv_other, simp, subst linked_prv_other, simp, subst linked_nxt_other, simp,
        subst linked_nxt_last, simp_all)
  moreover have "linked (n(x := Some c, c := Some y)) (p(c := Some x, y := Some c)) (y # B)"
    using l(2) d by (subst linked_prv_first, simp, subst linked_prv_other, simp, subst linked_nxt_other, simp,
        subst linked_nxt_other, simp_all)
  ultimately show ?thesis using d linked_append [of _ _ A x c "y # B"] by simp
qed

text \<open>The cells around position \<open>pos\<close>.\<close>

lemma cells_split:
  assumes "0 \<le> pos" "pos \<le> int (length as)"
  obtains A x y B where "cells l as = A @ x # y # B" "length A = nat pos" "x = cells l as ! nat pos"
    "cells l (take (nat pos) as @ c # drop (nat pos) as) = A @ x # c # y # B"
proof -
  let ?xs = "cells l as" and ?k = "nat pos"
  have k: "Suc ?k < length ?xs" using assms by (simp add: cells_def)
  have 1: "?xs = take ?k ?xs @ ?xs ! ?k # ?xs ! Suc ?k # drop (Suc (Suc ?k)) ?xs"
    using k by (metis Cons_nth_drop_Suc Suc_lessD append_take_drop_id)
  have 2: "take (Suc ?k) ?xs = head_sentinel l # take ?k as" "drop (Suc ?k) ?xs = drop ?k as @ [tail_sentinel l]"
    using assms by (simp_all add: cells_def)
  have 3: "take (Suc ?k) ?xs = take ?k ?xs @ [?xs ! ?k]" using k by (simp add: take_Suc_conv_app_nth)
  have 4: "drop (Suc ?k) ?xs = ?xs ! Suc ?k # drop (Suc (Suc ?k)) ?xs" using k by (simp add: Cons_nth_drop_Suc)
  have "cells l (take ?k as @ c # drop ?k as) = (head_sentinel l # take ?k as) @ c # drop ?k as @ [tail_sentinel l]"
    by (simp add: cells_def)
  also have "\<dots> = take (Suc ?k) ?xs @ c # drop (Suc ?k) ?xs" by (simp only: 2 append_assoc append_Cons)
  also have "\<dots> = take ?k ?xs @ ?xs ! ?k # c # ?xs ! Suc ?k # drop (Suc (Suc ?k)) ?xs"
    unfolding 3 4 by simp
  finally show ?thesis using that [of "take ?k ?xs" "?xs ! ?k" "?xs ! Suc ?k" "drop (Suc (Suc ?k)) ?xs"] 1 k by simp
qed

text \<open>Taking a cell leaves the list as it is and gives an address outside it.\<close>

definition cell_ok :: "nat option \<Rightarrow> ('a, 'k) list_t \<Rightarrow> bool" where
  "cell_ok m l \<longleftrightarrow> spareels l \<noteq> [] \<or> (\<exists>a. m = Some a \<and> \<not> live l a)"

lemma take_cell_rep:
  assumes "rep l as" and "cell_ok m l"
  shows "\<exists>c l'. take_cell m l = Some (c, l') \<and> rep l' as \<and> contents l' as = contents l as \<and> live l' c \<and>
    c \<notin> set (cells l' as @ spareels l') \<and> head_sentinel l' = head_sentinel l \<and> tail_sentinel l' = tail_sentinel l \<and>
    comparator l' = comparator l \<and> seeker l' = seeker l \<and> numels l' = numels l"
proof (cases "spareels l = []")
  case True
  then obtain a where a: "m = Some a" "\<not> live l a" using assms(2) by (auto simp: cell_ok_def)
  let ?l = "l\<lparr>live := (live l)(a := True)\<rparr>"
  have c: "cells ?l as = cells l as" by (simp add: cells_def)
  have "a \<notin> set (cells l as @ spareels l)" using assms(1) a(2) by (auto simp: rep_def)
  then show ?thesis
    using True a(1) assms(1) by (auto simp: take_cell_def rep_def contents_def c)
next
  case False
  let ?l = "l\<lparr>spareels := butlast (spareels l)\<rparr>"
  have c: "cells ?l as = cells l as" by (simp add: cells_def)
  have sp: "spareels l = butlast (spareels l) @ [last (spareels l)]" using False by simp
  have d: "distinct (cells l as @ butlast (spareels l) @ [last (spareels l)])"
    using assms(1) sp by (metis rep_def)
  have s: "set (spareels l) = insert (last (spareels l)) (set (butlast (spareels l)))"
    using sp by (metis Un_insert_right list.simps(15) set_append sup_bot_right list.set(1))
  have r: "rep ?l as" using assms(1) d s by (auto simp: rep_def c)
  have "last (spareels l) \<notin> set (cells ?l as @ spareels ?l)" using d c by simp
  moreover have "live l (last (spareels l))" using assms(1) s by (auto simp: rep_def)
  ultimately show ?thesis using False r c by (simp add: take_cell_def contents_def)
qed

lemma mid_step:
  assumes "linked (nxt l) (prv l) xs" and "\<forall>a\<in>set xs. live l a" and "mid l = Some (xs ! i)"
  shows "Suc i < length xs \<Longrightarrow> mid_next l = Some (l\<lparr>mid := Some (xs ! Suc i)\<rparr>)"
    and "0 < i \<Longrightarrow> i < length xs \<Longrightarrow> mid_prev l = Some (l\<lparr>mid := Some (xs ! (i - 1))\<rparr>)"
  using assms(2,3) linked_nth [OF assms(1), of i] linked_nth [OF assms(1), of "i - 1"]
  by (auto simp: mid_next_def mid_prev_def)

text \<open>The middle after an insertion, by cases on the parity and the position.\<close>

lemma insert_mid:
  assumes lk: "linked (nxt l) (prv l) (cells l bs)" and lv: "\<forall>a\<in>set (cells l bs). live l a"
    and bs: "bs = take k as @ c # drop k as" and k: "k \<le> length as" and n: "numels l = int (length bs)"
    and m: "mid l = (if as = [] then None else Some (as ! ((length as - 1) div 2)))"
  shows "insert_fix_mid c (int k) l = Some (l\<lparr>mid := Some (bs ! ((length bs - 1) div 2))\<rparr>)"
proof (cases "as = []")
  case True
  then show ?thesis using bs n by (simp add: insert_fix_mid_def)
next
  case False
  let ?j = "(length as - 1) div 2"
  have lb: "length bs = Suc (length as)" using bs k by simp
  have j: "?j < length as" using False by (cases as) auto
  have nth: "cells l bs ! Suc i = bs ! i" if "i < length bs" for i using that by (simp add: cells_def nth_append)
  have len: "length (cells l bs) = length bs + 2" by (simp add: cells_def)
  have asb: "as ! i = (if i < k then bs ! i else bs ! Suc i)" if "i < length as" for i
    using that bs k by (auto simp: nth_append min_def nth_Cons')
  have mb: "mid l = Some (cells l bs ! (if ?j < k then Suc ?j else Suc (Suc ?j)))"
    using m False asb [OF j] nth [of ?j] nth [of "Suc ?j"] j lb by simp
  note st = mid_step [OF lk lv mb]
  show ?thesis
  proof (cases "even (length as)")
    case True
    then obtain h where h: "length as = 2 * h" by blast
    have pos: "0 < h" using h False by (cases h) auto
    have h0: "0 < h" "?j = h - 1" "(length bs - 1) div 2 = h" using pos h lb by linarith+
    have odd: "numels l mod 2 = 1" "numels l \<noteq> 1" "(numels l - 1) div 2 = int h" using n lb h h0 by auto
    show ?thesis
    proof (cases "h \<le> k")
      case True
      then have "mid_next l = Some (l\<lparr>mid := Some (bs ! h)\<rparr>)"
        using st(1) h0 h lb len nth [of h] by simp
      then show ?thesis using odd True h0 by (simp add: insert_fix_mid_def)
    next
      case False
      have "\<not> ?j < k" "Suc (Suc ?j) = Suc h" using False h0 by linarith+
      then have "mid l = Some (bs ! h)" using mb h lb nth [of h] by simp
      then have "l\<lparr>mid := Some (bs ! h)\<rparr> = l" by simp
      then show ?thesis using odd False h0 by (simp add: insert_fix_mid_def)
    qed
  next
    case False
    then obtain h where h: "length as = 2 * h + 1" by (auto elim: oddE)
    then have h0: "?j = h" "(length bs - 1) div 2 = h" using lb by auto
    have ev: "numels l mod 2 \<noteq> 1" "numels l \<noteq> 1" "(numels l - 1) div 2 = int h" using n lb h by auto
    show ?thesis
    proof (cases "k \<le> h")
      case True
      then have "mid_prev l = Some (l\<lparr>mid := Some (bs ! h)\<rparr>)"
        using st(2) h0 h lb len nth [of h] by simp
      then show ?thesis using ev True h0 by (simp add: insert_fix_mid_def)
    next
      case False
      then have "l\<lparr>mid := Some (bs ! h)\<rparr> = l" using mb h0 h lb nth [of h] by simp
      then show ?thesis using ev False h0 by (simp add: insert_fix_mid_def)
    qed
  qed
qed


text \<open>What the list of a state is.\<close>

definition holds :: "('a, 'k) list_t \<Rightarrow> 'a list \<Rightarrow> bool" where
  "holds l xs \<longleftrightarrow> (\<exists>as. rep l as \<and> contents l as = xs)"

definition same_attributes :: "('a, 'k) list_t \<Rightarrow> ('a, 'k) list_t \<Rightarrow> bool" where
  "same_attributes l l' \<longleftrightarrow> comparator l' = comparator l \<and> seeker l' = seeker l"

lemma holds_init:
  assumes "h \<noteq> t"
  shows "holds (list_init h t l) []"
  unfolding holds_def using assms by (intro exI [of _ "[]"]) (auto simp: rep_def contents_def cells_def list_init_def)

lemma contents_cong: "(\<And>a. a \<in> set as \<Longrightarrow> dat l' a = dat l a) \<Longrightarrow> contents l' as = contents l as"
  by (simp add: contents_def)

lemma list_insert_at_holds:
  assumes r: "rep l as" and m: "cell_ok m l" and pos: "0 \<le> pos" "pos \<le> numels l"
  shows "\<exists>c l'. list_insert_at m l d pos = Some (1, l') \<and> rep l' (take (nat pos) as @ c # drop (nat pos) as) \<and>
    contents l' (take (nat pos) as @ c # drop (nat pos) as) = take (nat pos) (contents l as) @ d # drop (nat pos) (contents l as) \<and>
    same_attributes l l'"
proof -
  let ?k = "nat pos"
  obtain c l1 where tc: "take_cell m l = Some (c, l1)" and r1: "rep l1 as" and ct: "contents l1 as = contents l as"
    and lc: "live l1 c" and cn: "c \<notin> set (cells l1 as @ spareels l1)" and at: "comparator l1 = comparator l" "seeker l1 = seeker l"
    and nm: "numels l1 = numels l"
    using take_cell_rep [OF r m] by blast
  define l2 where "l2 = l1\<lparr>dat := (dat l1)(c := Some d)\<rparr>"
  have cnot: "c \<notin> set as" "c \<noteq> head_sentinel l1" "c \<noteq> tail_sentinel l1" using cn by (auto simp: cells_def)
  have cl2: "cells l2 bs = cells l1 bs" for bs by (simp add: l2_def cells_def)
  have r2: "rep l2 as" using r1 cnot unfolding rep_def cl2 by (auto simp: l2_def)
  have n2: "numels l2 = int (length as)" using r2 by (simp add: rep_def)
  have kl: "?k \<le> length as" "pos \<le> int (length as)" using pos n2 nm by (auto simp: l2_def)
  obtain A x y B where sp: "cells l2 as = A @ x # y # B" and lA: "length A = ?k" and x: "x = cells l2 as ! ?k"
    and spn: "cells l2 (take ?k as @ c # drop ?k as) = A @ x # c # y # B"
    using cells_split [OF pos(1) kl(2), of l2 c] by blast
  have lk: "linked (nxt l2) (prv l2) (A @ x # y # B)" and ds: "distinct (A @ x # y # B)"
    and lv: "live l2 x" "live l2 y" and lvs: "\<forall>a\<in>set (A @ x # y # B). live l2 a"
    using r2 unfolding rep_def sp by auto
  have cns: "c \<notin> set (A @ x # y # B)" using cn unfolding cl2 [symmetric] sp by simp
  have ny: "nxt l2 x = Some y" using lk linked_append by blast
  have fp: "list_findpos l2 (pos - 1) = Some (Some x)"
    using findpos_cell [OF r2, of "pos - 1"] pos n2 kl x by simp
  define bs where "bs = take ?k as @ c # drop ?k as"
  define l3 where "l3 = l2\<lparr>nxt := (nxt l2)(x := Some c, c := Some y), prv := (prv l2)(c := Some x, y := Some c), numels := numels l2 + 1\<rparr>"
  have cl3: "cells l3 zs = cells l2 zs" for zs by (simp add: l3_def cells_def)
  have lk3: "linked (nxt l3) (prv l3) (cells l3 bs)"
    using insert_link [OF lk ds cns] spn unfolding cl3 bs_def by (simp add: l3_def)
  have lv3: "\<forall>a\<in>set (cells l3 bs). live l3 a"
    using lvs lc spn unfolding cl3 bs_def by (auto simp: l3_def l2_def)
  have n3: "numels l3 = int (length bs)" using n2 kl(1) by (simp add: l3_def bs_def)
  have m3: "mid l3 = (if as = [] then None else Some (as ! ((length as - 1) div 2)))"
    using r2 by (simp add: rep_def l3_def)
  have fm: "insert_fix_mid c pos l3 = Some (l3\<lparr>mid := Some (bs ! ((length bs - 1) div 2))\<rparr>)"
    using insert_mid [OF lk3 lv3 bs_def kl(1) n3 m3] pos by simp
  define l4 where "l4 = l3\<lparr>mid := Some (bs ! ((length bs - 1) div 2))\<rparr>"
  have na: "\<not> iter_active l" using r by (simp add: rep_def)
  have e: "nxt l1 = nxt l2" "prv l1 = prv l2" "numels l1 = numels l2" by (simp_all add: l2_def)
  have res: "list_insert_at m l d pos = Some (1, l4)"
    using na pos lv ny fp fm tc
    by (simp add: list_insert_at_def l2_def [symmetric] e Let_def set_nxt_def set_prv_def l3_def l4_def fun_upd_twist)
  have cl4: "cells l4 zs = cells l2 zs" for zs by (simp add: l4_def cl3 cells_def l3_def)
  have sets: "set bs = insert c (set as)" unfolding bs_def using append_take_drop_id [of ?k as]
    by (metis Un_insert_right list.simps(15) set_append)
  have r4: "rep l4 bs"
    unfolding rep_def
  proof (intro conjI)
    have "distinct (cells l2 as @ spareels l2)" using r2 by (simp add: rep_def)
    then show "distinct (cells l4 bs @ spareels l4)"
      using cn spn sp unfolding cl4 bs_def cl2 [symmetric] by (auto simp: l4_def l3_def l2_def)
    show "linked (nxt l4) (prv l4) (cells l4 bs)" using lk3 by (simp add: l4_def cells_def)
    show "\<forall>a\<in>set (cells l4 bs @ spareels l4). live l4 a"
      using lv3 r2 by (auto simp: l4_def l3_def rep_def cells_def)
    show "numels l4 = int (length bs)" using n3 by (simp add: l4_def)
    show "mid l4 = (if bs = [] then None else Some (bs ! ((length bs - 1) div 2)))" by (simp add: l4_def bs_def)
    show "\<forall>a\<in>set bs. dat l4 a \<noteq> None" using r1 sets by (auto simp: l4_def l3_def l2_def rep_def)
    show "dat l4 (head_sentinel l4) = None" "dat l4 (tail_sentinel l4) = None"
      using r1 cnot by (simp_all add: l4_def l3_def l2_def rep_def)
    show "\<not> iter_active l4" using r2 by (simp add: l4_def l3_def rep_def)
  qed
  have d4: "dat l4 = (dat l1)(c := Some d)" by (simp add: l4_def l3_def l2_def)
  have "contents l4 bs = take ?k (contents l as) @ d # drop ?k (contents l as)"
    using cnot(1) ct [symmetric]
    by (auto simp: contents_def d4 bs_def take_map drop_map dest: in_set_takeD in_set_dropD)
  moreover have "same_attributes l l4" using at by (simp add: same_attributes_def l4_def l3_def l2_def)
  ultimately show ?thesis using res r4 unfolding bs_def by blast
qed


lemma append_holds:
  assumes "holds l xs" and "cell_ok m l"
  shows "\<exists>l'. list_append m l d = Some (1, l') \<and> holds l' (xs @ [d]) \<and> same_attributes l l'"
proof -
  obtain as where r: "rep l as" "contents l as = xs" using assms(1) by (auto simp: holds_def)
  then have "numels l = int (length as)" "length xs = length as" by (auto simp: rep_def contents_def)
  then show ?thesis using list_insert_at_holds [OF r(1) assms(2), of "numels l" d] r
    by (auto simp: list_append_def holds_def)
qed

lemma insert_refused: "pos < 0 \<or> pos > numels l \<Longrightarrow> list_insert_at m l d pos = Some (-1, l)"
  by (auto simp: list_insert_at_def)

section \<open>Deletion\<close>

lemma drop_mid:
  assumes lk: "linked (nxt l) (prv l) (cells l as)" and lv: "\<forall>a\<in>set (cells l as). live l a"
    and k: "k < length as" and n: "numels l = int (length as)" and bs: "bs = take k as @ drop (Suc k) as"
    and m: "mid l = Some (as ! ((length as - 1) div 2))"
  shows "drop_fix_mid (int k) l = Some (l\<lparr>mid := (if bs = [] then None else Some (bs ! ((length bs - 1) div 2)))\<rparr>)"
proof -
  let ?j = "(length as - 1) div 2"
  have j: "?j < length as" using k by linarith
  have lb: "length bs = length as - 1" using bs k by simp
  have nth: "cells l as ! Suc i = as ! i" if "i < length as" for i using that by (simp add: cells_def nth_append)
  have len: "length (cells l as) = length as + 2" by (simp add: cells_def)
  have bsn: "bs ! i = (if i < k then as ! i else as ! Suc i)" if "i < length bs" for i
    using that bs k by (auto simp: nth_append min_def)
  have mb: "mid l = Some (cells l as ! Suc ?j)" using m nth [OF j] by simp
  note st = mid_step [OF lk lv mb]
  show ?thesis
  proof (cases "even (length as)")
    case True
    then obtain h where h: "length as = 2 * h" by blast
    have pos: "0 < h" using h k by (cases h) auto
    have h0: "?j = h - 1" "(length bs - 1) div 2 = h - 1" "length bs = 2 * h - 1" using pos h lb by linarith+
    have ev: "numels l mod 2 \<noteq> 1" "numels l div 2 = int h" using n h by auto
    have bne: "bs \<noteq> []" using h0(3) pos by auto
    have b: "bs ! (h - 1) = (if h - 1 < k then as ! (h - 1) else as ! h)" using bsn [of "h - 1"] h0 pos by simp
    show ?thesis
    proof (cases "k < h")
      case True
      then have "mid_next l = Some (l\<lparr>mid := Some (as ! h)\<rparr>)" using st(1) h0 h len pos nth [of h] by simp
      moreover have "\<not> h - 1 < k" using True by linarith
      ultimately show ?thesis using ev True h0 b bne by (simp add: drop_fix_mid_def)
    next
      case False
      then have "h - 1 < k" using pos by linarith
      then have "mid l = Some (bs ! (h - 1))" using m b h0 pos by simp
      then have "l\<lparr>mid := Some (bs ! (h - 1))\<rparr> = l" by simp
      then show ?thesis using ev False h0 bne by (simp add: drop_fix_mid_def)
    qed
  next
    case False
    then obtain h where h: "length as = 2 * h + 1" by (auto elim: oddE)
    have od: "numels l mod 2 = 1" "numels l div 2 = int h" "numels l = 1 \<longleftrightarrow> h = 0" using n h by auto
    have h0: "?j = h" "(length bs - 1) div 2 = h - 1" "length bs = 2 * h" using h lb by linarith+
    show ?thesis
    proof (cases "h = 0")
      case True
      then show ?thesis using od h0 by (simp add: drop_fix_mid_def)
    next
      case hn: False
      then have bne: "bs \<noteq> []" using h0(3) by auto
      have b: "bs ! (h - 1) = (if h - 1 < k then as ! (h - 1) else as ! h)" using bsn [of "h - 1"] h0 hn by simp
      show ?thesis
      proof (cases "h \<le> k")
        case True
        then have "mid_prev l = Some (l\<lparr>mid := Some (as ! (h - 1))\<rparr>)"
          using st(2) h0 h len hn nth [of "h - 1"] by simp
        moreover have "h - 1 < k" using True hn by linarith
        ultimately show ?thesis using od True h0 b bne hn by (simp add: drop_fix_mid_def)
      next
        case False
        then have "\<not> h - 1 < k" by linarith
        then have "mid l = Some (bs ! (h - 1))" using m b h0 hn by simp
        then have "l\<lparr>mid := Some (bs ! (h - 1))\<rparr> = l" by simp
        then show ?thesis using od False h0 bne hn by (simp add: drop_fix_mid_def)
      qed
    qed
  qed
qed

lemma drop_link:
  assumes "linked n p (A @ x # a # y # B)" and "distinct (A @ x # a # y # B)"
  shows "linked (n(x := Some y)) (p(y := Some x)) (A @ x # y # B)"
proof -
  have l: "linked n p (A @ [x])" "linked n p (y # B)"
    using assms(1) linked_append [of n p A x a "y # B"] by simp_all
  have d: "x \<notin> set A" "y \<notin> set B" "x \<noteq> y" "y \<notin> set A" "x \<notin> set B" using assms(2) by auto
  have "linked (n(x := Some y)) (p(y := Some x)) (A @ [x])"
    using l(1) d by (subst linked_prv_other, simp, subst linked_nxt_last, simp_all)
  moreover have "linked (n(x := Some y)) (p(y := Some x)) (y # B)"
    using l(2) d by (subst linked_prv_first, simp, subst linked_nxt_other, simp_all)
  ultimately show ?thesis using linked_append [of _ _ A x y B] by simp
qed


lemma cells_split_at:
  assumes "k < length as"
  obtains A x y B where "cells l as = A @ x # as ! k # y # B"
    "cells l (take k as @ drop (Suc k) as) = A @ x # y # B"
proof -
  have s: "as = take k as @ as ! k # drop (Suc k) as" using assms by (simp add: id_take_nth_drop)
  obtain A x where A: "head_sentinel l # take k as = A @ [x]" by (metis list.distinct(1) rev_exhaust)
  obtain y B where B: "drop (Suc k) as @ [tail_sentinel l] = y # B" by (metis append_is_Nil_conv list.exhaust not_Cons_self2)
  have "cells l as = (head_sentinel l # take k as) @ as ! k # (drop (Suc k) as @ [tail_sentinel l])"
    by (subst s) (simp add: cells_def)
  moreover have "cells l (take k as @ drop (Suc k) as) = (head_sentinel l # take k as) @ (drop (Suc k) as @ [tail_sentinel l])"
    by (simp add: cells_def)
  ultimately show ?thesis using that [of A x y B] A B by simp
qed

lemma drop_elem_rep:
  assumes r: "rep l as" and k: "k < length as" and l': "l' = l\<lparr>dat := (dat l)(as ! k := v)\<rparr>"
    and bs: "bs = take k as @ drop (Suc k) as"
  shows "\<exists>l''. list_drop_elem l' (Some (as ! k)) (int k) = Some (0, l'') \<and> rep (l''\<lparr>numels := numels l'' - 1\<rparr>) bs \<and>
    contents l'' bs = take k (contents l as) @ drop (Suc k) (contents l as) \<and> same_attributes l l''"
proof -
  let ?a = "as ! k"
  have c': "cells l' zs = cells l zs" for zs by (simp add: l' cells_def)
  have lk: "linked (nxt l') (prv l') (cells l' as)" and lv: "\<forall>a\<in>set (cells l' as). live l' a"
    and n: "numels l' = int (length as)" and ds: "distinct (cells l as @ spareels l)" and lvs: "\<forall>a\<in>set (spareels l). live l a"
    using r unfolding c' by (auto simp: l' rep_def)
  have m: "mid l' = Some (as ! ((length as - 1) div 2))" using r k by (auto simp: l' rep_def)
  define l1 where "l1 = l'\<lparr>mid := (if bs = [] then None else Some (bs ! ((length bs - 1) div 2)))\<rparr>"
  have dm: "drop_fix_mid (int k) l' = Some l1" unfolding l1_def by (rule drop_mid [OF lk lv k n bs m])
  obtain A x y B where sp: "cells l as = A @ x # ?a # y # B" and spn: "cells l bs = A @ x # y # B"
    using cells_split_at [OF k, of l] bs by blast
  have nb: "nxt l1 x = Some ?a" "prv l1 ?a = Some x" "nxt l1 ?a = Some y"
    using lk linked_append [of "nxt l'" "prv l'" A x ?a "y # B"] unfolding c' sp by (simp_all add: l1_def)
  have lvx: "live l1 x" "live l1 ?a" "live l1 y" using lv unfolding c' sp by (simp_all add: l1_def)
  have ne: "x \<noteq> ?a" "y \<noteq> ?a" "x \<noteq> y" using ds sp by auto
  define l2 where "l2 = l1\<lparr>nxt := (nxt l1)(x := Some y), prv := (prv l1)(y := Some x)\<rparr>"
  have res: "list_drop_elem l' (Some ?a) (int k) = Some (0, give_cell ?a l2)"
    using dm nb lvx ne by (simp add: list_drop_elem_def Let_def set_nxt_def set_prv_def l2_def deref_def)
  have lk0: "linked (nxt l1) (prv l1) (A @ x # ?a # y # B)" using lk unfolding c' sp by (simp add: l1_def)
  have ds0: "distinct (A @ x # ?a # y # B)" using ds unfolding sp by (simp only: distinct_append)
  have lk2: "linked (nxt l2) (prv l2) (cells l bs)"
    unfolding spn using drop_link [OF lk0 ds0] by (simp add: l2_def)
  define g where "g = give_cell ?a l2"
  have eq: "numels l1 = numels l" "spareels l2 = spareels l" "live l2 = live l" "numels l2 = int (length as)"
    using n by (simp_all add: l2_def l1_def l')
  have gs: "head_sentinel g = head_sentinel l" "tail_sentinel g = tail_sentinel l" "nxt g = nxt l2" "prv g = prv l2"
    "dat g = (dat l)(?a := v)" "mid g = mid l1" "numels g = int (length as)" "iter_active g = iter_active l"
    "comparator g = comparator l" "seeker g = seeker l"
    using eq by (simp_all add: g_def give_cell_def l2_def l1_def l')
  have an: "?a \<notin> set bs" "?a \<notin> set (cells l bs)" "?a \<notin> set (spareels l)"
  proof -
    show "?a \<notin> set (cells l bs)" using ds0 unfolding spn by auto
    then show "?a \<notin> set bs" by (simp add: cells_def)
    show "?a \<notin> set (spareels l)" using ds unfolding sp by auto
  qed
  have cg: "cells (g\<lparr>numels := z\<rparr>) zs = cells l zs" "cells g zs = cells l zs" for z zs by (simp_all add: cells_def gs)
  have sg: "(spareels g = spareels l @ [?a] \<and> live g = live l) \<or> (spareels g = spareels l \<and> live g = (live l)(?a := False))"
    by (auto simp: g_def give_cell_def eq)
  have rg: "rep (g\<lparr>numels := numels g - 1\<rparr>) bs"
    unfolding rep_def cg
  proof (intro conjI)
    show "distinct (cells l bs @ spareels (g\<lparr>numels := numels g - 1\<rparr>))"
      using sg ds an unfolding sp spn by auto
    show "linked (nxt (g\<lparr>numels := numels g - 1\<rparr>)) (prv (g\<lparr>numels := numels g - 1\<rparr>)) (cells l bs)"
      using lk2 gs by simp
    show "\<forall>a\<in>set (cells l bs @ spareels (g\<lparr>numels := numels g - 1\<rparr>)). live (g\<lparr>numels := numels g - 1\<rparr>) a"
      using sg an lv lvs unfolding c' sp spn by (auto simp: l')
    show "numels (g\<lparr>numels := numels g - 1\<rparr>) = int (length bs)" using gs(7) k by (simp add: bs)
    show "mid (g\<lparr>numels := numels g - 1\<rparr>) = (if bs = [] then None else Some (bs ! ((length bs - 1) div 2)))"
      using gs(6) by (simp add: l1_def)
    show "\<forall>a\<in>set bs. dat (g\<lparr>numels := numels g - 1\<rparr>) a \<noteq> None"
      using r an(1) gs(5) by (auto simp: rep_def bs dest: in_set_takeD in_set_dropD)
    have "?a \<noteq> head_sentinel l" "?a \<noteq> tail_sentinel l" using ds nth_mem [OF k] by (auto simp: cells_def)
    then show "dat (g\<lparr>numels := numels g - 1\<rparr>) (head_sentinel (g\<lparr>numels := numels g - 1\<rparr>)) = None"
      "dat (g\<lparr>numels := numels g - 1\<rparr>) (tail_sentinel (g\<lparr>numels := numels g - 1\<rparr>)) = None"
      using r gs by (simp_all add: rep_def)
    show "\<not> iter_active (g\<lparr>numels := numels g - 1\<rparr>)" using r gs(8) by (simp add: rep_def)
  qed
  have "contents g bs = take k (contents l as) @ drop (Suc k) (contents l as)"
    using an(1) by (auto simp: contents_def gs(5) bs take_map drop_map)
  then show ?thesis using res rg gs unfolding g_def same_attributes_def by blast
qed


lemma delete_at_holds:
  assumes r: "rep l as" and k: "k < length as"
  shows "\<exists>l'. list_delete_at l (int k) = Some (0, l') \<and> rep l' (take k as @ drop (Suc k) as) \<and>
    contents l' (take k as @ drop (Suc k) as) = take k (contents l as) @ drop (Suc k) (contents l as) \<and>
    same_attributes l l'"
proof -
  have fp: "list_findpos l (int k) = Some (Some (as ! k))"
    using findpos_cell [OF r, of "int k"] r k by (simp add: rep_def cells_def nth_append nat_add_distrib)
  obtain l'' where d: "list_drop_elem l (Some (as ! k)) (int k) = Some (0, l'')"
    and g: "rep (l''\<lparr>numels := numels l'' - 1\<rparr>) (take k as @ drop (Suc k) as)"
      "contents l'' (take k as @ drop (Suc k) as) = take k (contents l as) @ drop (Suc k) (contents l as)"
      "same_attributes l l''"
    using drop_elem_rep [OF r k, of l "dat l (as ! k)"] by auto
  have "list_delete_at l (int k) = Some (0, l''\<lparr>numels := numels l'' - 1\<rparr>)"
    using r k fp d by (simp add: list_delete_at_def rep_def)
  then show ?thesis using g by (auto simp: contents_def same_attributes_def)
qed

lemma extract_at_holds:
  assumes r: "rep l as" and k: "k < length as"
  shows "\<exists>l'. list_extract_at l (int k) = Some (Some (contents l as ! k), l') \<and> rep l' (take k as @ drop (Suc k) as) \<and>
    contents l' (take k as @ drop (Suc k) as) = take k (contents l as) @ drop (Suc k) (contents l as) \<and>
    same_attributes l l'"
proof -
  have fp: "list_findpos l (int k) = Some (Some (as ! k))"
    using findpos_cell [OF r, of "int k"] r k by (simp add: rep_def cells_def nth_append nat_add_distrib)
  have lv: "live l (as ! k)" and dk: "dat l (as ! k) = Some (contents l as ! k)"
    using r k by (auto simp: rep_def cells_def contents_def)
  obtain l'' where d: "list_drop_elem (l\<lparr>dat := (dat l)(as ! k := None)\<rparr>) (Some (as ! k)) (int k) = Some (0, l'')"
    and g: "rep (l''\<lparr>numels := numels l'' - 1\<rparr>) (take k as @ drop (Suc k) as)"
      "contents l'' (take k as @ drop (Suc k) as) = take k (contents l as) @ drop (Suc k) (contents l as)"
      "same_attributes l l''"
    using drop_elem_rep [OF r k refl refl, of None] by auto
  have "list_extract_at l (int k) = Some (Some (contents l as ! k), l''\<lparr>numels := numels l'' - 1\<rparr>)"
    using r k fp d lv dk by (simp add: list_extract_at_def rep_def)
  then show ?thesis using g by (auto simp: contents_def same_attributes_def)
qed

section \<open>Looking elements up\<close>

lemma get_at_holds:
  assumes "holds l xs"
  shows "list_get_at l pos = Some (la_get_at xs pos)"
proof -
  obtain as where r: "rep l as" and xs: "xs = contents l as" using assms by (auto simp: holds_def)
  have n: "numels l = int (length as)" "length xs = length as" using r xs by (simp_all add: rep_def contents_def)
  show ?thesis
  proof (cases "-1 \<le> pos \<and> pos \<le> numels l")
    case False
    then show ?thesis using n by (auto simp: list_get_at_def list_findpos_def Let_def la_get_at_def)
  next
    case True
    let ?a = "cells l as ! nat (pos + 1)"
    have fp: "list_findpos l pos = Some (Some ?a)" using findpos_cell [OF r] True by blast
    have "?a \<in> set (cells l as)" using True n by (intro nth_mem) (simp add: cells_def, linarith)
    then have "live l ?a" using r by (auto simp: rep_def)
    moreover have "dat l ?a = la_get_at xs pos"
    proof (cases "0 \<le> pos \<and> pos < int (length as)")
      case in_range: True
      then have "nat pos < length as" by linarith
      then have "?a = as ! nat pos" using in_range by (simp add: cells_def nth_append nat_add_distrib)
      then show ?thesis using in_range r n xs by (auto simp: rep_def la_get_at_def contents_def)
    next
      case False
      then have "?a = head_sentinel l \<or> ?a = tail_sentinel l"
        using True n by (auto simp: cells_def nth_append nat_add_distrib)
      then show ?thesis using r False n by (auto simp: rep_def la_get_at_def)
    qed
    ultimately show ?thesis using fp by (simp add: list_get_at_def)
  qed
qed

fun first_cell :: "(nat \<Rightarrow> bool) \<Rightarrow> nat list \<Rightarrow> int \<Rightarrow> (nat \<times> int) option" where
  "first_cell f [] pos = None"
| "first_cell f (a # as) pos = (if f a then Some (a, pos) else first_cell f as (pos + 1))"

lemma scan_first:
  assumes "linked (nxt l) (prv l) (h # as @ [tail_sentinel l])" and "\<forall>a\<in>set as. live l a" and "tail_sentinel l \<notin> set as"
  shows "scan l f (length as) (nxt l h) pos = Some (first_cell (\<lambda>a. f (dat l a)) as pos)"
  using assms
proof (induction as arbitrary: h pos)
  case (Cons a as)
  then have "nxt l h = Some a" "linked (nxt l) (prv l) (a # as @ [tail_sentinel l])" by simp_all
  then show ?case using Cons by simp
qed simp

lemma first_cell_position:
  "first_cell f as pos = (if \<exists>a\<in>set as. f a then Some (the (find f as), pos + int (length (takeWhile (\<lambda>a. \<not> f a) as))) else None)"
  by (induction as arbitrary: pos) auto

lemma first_cell_data:
  "\<forall>a\<in>set as. d a \<noteq> None \<Longrightarrow>
   (case first_cell f as pos of None \<Rightarrow> None | Some (a, p) \<Rightarrow> d a) = map_option (\<lambda>a. the (d a)) (find f as)"
  by (induction as arbitrary: pos) auto

lemma scan_holds:
  assumes r: "rep l as"
  shows "deref l (Some (head_sentinel l)) = Some (head_sentinel l)"
    and "scan l f (nat (numels l)) (nxt l (head_sentinel l)) 0 = Some (first_cell (\<lambda>a. f (dat l a)) as 0)"
  using r scan_first [of l "head_sentinel l" as f 0] by (auto simp: rep_def cells_def)

lemma contents_find:
  assumes "rep l as"
  shows "map_option (\<lambda>a. the (dat l a)) (find (\<lambda>a. case_option False Q (dat l a)) as) = find Q (contents l as)"
    and "length (takeWhile (\<lambda>a. \<not> case_option False Q (dat l a)) as) = length (takeWhile (\<lambda>x. \<not> Q x) (contents l as))"
    and "(\<exists>a\<in>set as. case_option False Q (dat l a)) \<longleftrightarrow> (\<exists>x\<in>set (contents l as). Q x)"
proof -
  have "\<forall>a\<in>set as. dat l a \<noteq> None" using assms by (simp add: rep_def)
  then show "map_option (\<lambda>a. the (dat l a)) (find (\<lambda>a. case_option False Q (dat l a)) as) = find Q (contents l as)"
    and "length (takeWhile (\<lambda>a. \<not> case_option False Q (dat l a)) as) = length (takeWhile (\<lambda>x. \<not> Q x) (contents l as))"
    and "(\<exists>a\<in>set as. case_option False Q (dat l a)) \<longleftrightarrow> (\<exists>x\<in>set (contents l as). Q x)"
    by (induction as) (auto simp: contents_def)
qed

definition same_element :: "('a, 'k) list_t \<Rightarrow> 'a \<Rightarrow> 'a \<Rightarrow> bool" where
  "same_element l d y = (case comparator l of Some c \<Rightarrow> c d y = 0 | None \<Rightarrow> y = d)"

lemma locate_holds:
  assumes "holds l xs"
  shows "list_locate l d =
    Some (if \<exists>y\<in>set xs. same_element l d y then int (length (takeWhile (\<lambda>y. \<not> same_element l d y) xs)) else -1)"
proof -
  obtain as where r: "rep l as" and xs: "xs = contents l as" using assms by (auto simp: holds_def)
  have f: "(case comparator l of None \<Rightarrow> \<lambda>x. x = Some d | Some c \<Rightarrow> case_option False (\<lambda>y. c d y = 0)) = case_option False (same_element l d)"
    by (auto simp: same_element_def fun_eq_iff split: option.splits)
  show ?thesis
    using scan_holds(1) [OF r] scan_holds(2) [OF r, where f = "case_option False (same_element l d)"] contents_find [OF r, of "same_element l d"]
    by (simp add: list_locate_def f first_cell_position xs)
qed

lemma seek_holds:
  assumes "holds l xs" and s: "seeker l = Some s"
  shows "list_seek l k = Some (la_seek (\<lambda>y. s y k) xs)"
proof -
  obtain as where r: "rep l as" and xs: "xs = contents l as" using assms by (auto simp: holds_def)
  let ?f = "\<lambda>a. case_option False (\<lambda>y. s y k) (dat l a)"
  have live: "\<forall>a\<in>set as. dat l a \<noteq> None" using r by (simp add: rep_def)
  have "list_seek l k = Some (case first_cell ?f as 0 of None \<Rightarrow> None | Some (a, pos) \<Rightarrow> dat l a)"
    using scan_holds(1) [OF r] scan_holds(2) [OF r, where f = "case_option False (\<lambda>y. s y k)"] s by (simp add: list_seek_def)
  also have "(case first_cell ?f as 0 of None \<Rightarrow> None | Some (a, pos) \<Rightarrow> dat l a) = map_option (\<lambda>a. the (dat l a)) (find ?f as)"
    by (rule first_cell_data [OF live])
  finally show ?thesis using contents_find(1) [OF r] xs by (simp add: la_seek_def)
qed


lemma locate_None:
  assumes "holds l xs" and "comparator l = None"
  shows "list_locate l d = Some (if d \<in> set xs then int (length (takeWhile (\<lambda>y. y \<noteq> d) xs)) else -1)"
  using locate_holds [OF assms(1), of d] assms(2) by (simp add: same_element_def)

lemma delete_at_index:
  assumes "holds l xs" and "k < length xs"
  shows "\<exists>l'. list_delete_at l (int k) = Some (0, l') \<and> holds l' (take k xs @ drop (Suc k) xs) \<and> same_attributes l l'"
  using assms delete_at_holds [of l _ k] unfolding holds_def by (metis contents_def length_map)

lemma remove1_index: "d \<in> set xs \<Longrightarrow>
    remove1 d xs = take (length (takeWhile (\<lambda>y. y \<noteq> d) xs)) xs @ drop (Suc (length (takeWhile (\<lambda>y. y \<noteq> d) xs))) xs"
  by (induction xs) auto

lemma takeWhile_index: "d \<in> set xs \<Longrightarrow> length (takeWhile (\<lambda>y. y \<noteq> d) xs) < length xs"
  by (induction xs) auto

lemma delete_holds:
  assumes h: "holds l xs" and c: "comparator l = None"
  shows "\<exists>l'. list_delete l d = Some ((if d \<in> set xs then 0 else -1), l') \<and> holds l' (la_delete xs d) \<and> same_attributes l l'"
proof (cases "d \<in> set xs")
  case True
  then show ?thesis
    using delete_at_index [OF h takeWhile_index [OF True]] locate_None [OF h c, of d] remove1_index [OF True]
    by (auto simp: list_delete_def la_delete_def)
next
  case False
  then show ?thesis using locate_None [OF h c, of d] h
    by (simp add: list_delete_def la_delete_def remove1_idem same_attributes_def)
qed

lemma size_holds: "holds l xs \<Longrightarrow> list_size l = la_size xs"
  by (auto simp: holds_def rep_def list_size_def la_size_def contents_def)

end
