(* ===== verification/SimcSpec.thy ===== *)
theory SimcSpec
  imports SimcList
begin

text \<open>
  The linked list of \<open>SimcList\<close> against the plain list of \<open>ListApi\<close>: every history of calls gives the
  answers of the plain list and no call touches a pointer it must not. The loops of the server that
  empty a list from its head are proved over the interface alone.
\<close>

section \<open>The interface its clients rely on\<close>

text \<open>The server's clean-up loops: while the list has elements, take the first and delete it.\<close>

fun drain :: "('s \<Rightarrow> int) \<Rightarrow> ('s \<Rightarrow> int \<Rightarrow> 'a option option) \<Rightarrow> ('s \<Rightarrow> 'a \<Rightarrow> (int \<times> 's) option) \<Rightarrow>
    nat \<Rightarrow> 's \<Rightarrow> ('a list \<times> 's) option" where
  "drain sz get del 0 s = (if sz s > 0 then None else Some ([], s))"
| "drain sz get del (Suc k) s =
     (if sz s > 0 then do {
        r \<leftarrow> get s 0;
        x \<leftarrow> r;
        (c, s) \<leftarrow> del s x;
        (ys, s) \<leftarrow> drain sz get del k s;
        Some (x # ys, s)
      } else Some ([], s))"

locale pointer_list =
  fixes is_list :: "'s \<Rightarrow> 'a list \<Rightarrow> bool"
    and has_room :: "'m \<Rightarrow> 's \<Rightarrow> bool"
    and sz :: "'s \<Rightarrow> int"
    and get :: "'s \<Rightarrow> int \<Rightarrow> 'a option option"
    and app :: "'m \<Rightarrow> 's \<Rightarrow> 'a \<Rightarrow> (int \<times> 's) option"
    and del :: "'s \<Rightarrow> 'a \<Rightarrow> (int \<times> 's) option"
  assumes size_law: "is_list s xs \<Longrightarrow> sz s = la_size xs"
    and get_law: "is_list s xs \<Longrightarrow> get s i = Some (la_get_at xs i)"
    and append_law: "is_list s xs \<Longrightarrow> has_room m s \<Longrightarrow> \<exists>s'. app m s x = Some (1, s') \<and> is_list s' (la_append xs x)"
    and delete_law: "is_list s xs \<Longrightarrow>
      \<exists>s'. del s x = Some ((if x \<in> set xs then 0 else -1), s') \<and> is_list s' (la_delete xs x)"
begin

lemma drain_visits_all:
  "is_list s xs \<Longrightarrow> length xs \<le> k \<Longrightarrow> \<exists>s'. drain sz get del k s = Some (xs, s') \<and> is_list s' []"
proof (induction xs arbitrary: s k)
  case Nil
  then show ?case using size_law [OF Nil(1)] by (cases k) (auto simp: la_size_def)
next
  case (Cons x xs)
  then obtain j where k: "k = Suc j" by (cases k) auto
  obtain s1 where d: "del s x = Some (0, s1)" and s1: "is_list s1 xs"
    using delete_law [OF Cons.prems(1), of x] by (auto simp: la_delete_def)
  obtain s2 where "drain sz get del j s1 = Some (xs, s2)" "is_list s2 []"
    using Cons.IH [OF s1, of j] Cons.prems(2) k by auto
  moreover have "sz s > 0" "get s 0 = Some (Some x)"
    using size_law [OF Cons.prems(1)] get_law [OF Cons.prems(1), of 0] by (simp_all add: la_size_def)
  ultimately show ?case using d k by simp
qed

text \<open>An element that was appended is the last one, until something removes it.\<close>

lemma append_then_get:
  assumes "is_list s xs" and "has_room m s"
  shows "\<exists>s'. app m s x = Some (1, s') \<and> get s' (sz s) = Some (Some x) \<and> sz s' = sz s + 1"
proof -
  obtain s' where a: "app m s x = Some (1, s')" and l: "is_list s' (xs @ [x])"
    using append_law [OF assms] by (auto simp: la_append_def)
  have "get s' (sz s) = Some (Some x)"
    using get_law [OF l] size_law [OF assms(1)] by (simp add: la_get_at_def la_size_def)
  then show ?thesis using a size_law [OF l] size_law [OF assms(1)] by (auto simp: la_size_def)
qed

lemma append_then_delete:
  assumes "is_list s xs" and "has_room m s" and "x \<notin> set xs"
  shows "\<exists>s1 s2. app m s x = Some (1, s1) \<and> del s1 x = Some (0, s2) \<and> is_list s2 xs"
proof -
  obtain s' where a: "app m s x = Some (1, s')" and l: "is_list s' (xs @ [x])"
    using append_law [OF assms(1,2)] by (auto simp: la_append_def)
  then show ?thesis using delete_law [OF l, of x] assms(3) by (auto simp: la_delete_def remove1_append)
qed

end

text \<open>A list without a comparator compares the pointers it holds.\<close>

definition plain_list :: "('a, 'k) list_t \<Rightarrow> 'a list \<Rightarrow> bool" where
  "plain_list l xs \<longleftrightarrow> holds l xs \<and> comparator l = None"

interpretation simc: pointer_list plain_list cell_ok list_size list_get_at list_append list_delete
proof (unfold_locales, goal_cases)
  case (1 s xs)
  then show ?case by (simp add: plain_list_def size_holds)
next
  case (2 s xs i)
  then show ?case by (simp add: plain_list_def get_at_holds)
next
  case (3 s xs m x)
  then show ?case using append_holds [of s xs m x] by (auto simp: plain_list_def la_append_def same_attributes_def)
next
  case (4 s xs x)
  then show ?case using delete_holds [of s xs x] unfolding plain_list_def same_attributes_def by metis
qed

section \<open>Histories\<close>

datatype ('a, 'k) list_call =
  Append 'a "nat option"
| Prepend 'a "nat option"
| InsertAt 'a int "nat option"
| DeleteAt int
| ExtractAt int
| Delete 'a
| GetAt int
| Seek 'k
| Locate 'a
| SizeOf

datatype 'a answer = Status int | Pointer "'a option"

fun run_call :: "('a, 'k) list_call \<Rightarrow> ('a, 'k) list_t \<Rightarrow> ('a answer \<times> ('a, 'k) list_t) option" where
  "run_call (Append d m) l = map_option (apfst Status) (list_append m l d)"
| "run_call (Prepend d m) l = map_option (apfst Status) (list_prepend m l d)"
| "run_call (InsertAt d i m) l = map_option (apfst Status) (list_insert_at m l d i)"
| "run_call (DeleteAt i) l = map_option (apfst Status) (list_delete_at l i)"
| "run_call (ExtractAt i) l = map_option (apfst Pointer) (list_extract_at l i)"
| "run_call (Delete d) l = map_option (apfst Status) (list_delete l d)"
| "run_call (GetAt i) l = map_option (\<lambda>p. (Pointer p, l)) (list_get_at l i)"
| "run_call (Seek k) l = map_option (\<lambda>p. (Pointer p, l)) (list_seek l k)"
| "run_call (Locate d) l = map_option (\<lambda>i. (Status i, l)) (list_locate l d)"
| "run_call SizeOf l = Some (Status (list_size l), l)"

fun run_calls :: "('a, 'k) list_call list \<Rightarrow> ('a, 'k) list_t \<Rightarrow> ('a answer list \<times> ('a, 'k) list_t) option" where
  "run_calls [] l = Some ([], l)"
| "run_calls (c # cs) l = do { (r, l) \<leftarrow> run_call c l; (rs, l) \<leftarrow> run_calls cs l; Some (r # rs, l) }"

text \<open>The plain list.\<close>

definition cut :: "nat \<Rightarrow> 'a list \<Rightarrow> 'a list" where
  "cut k xs = take k xs @ drop (Suc k) xs"

fun plain_call :: "('a \<Rightarrow> 'k \<Rightarrow> bool) \<Rightarrow> ('a, 'k) list_call \<Rightarrow> 'a list \<Rightarrow> 'a answer \<times> 'a list" where
  "plain_call s (Append d m) xs = (Status 1, la_append xs d)"
| "plain_call s (Prepend d m) xs = (Status 1, d # xs)"
| "plain_call s (InsertAt d i m) xs =
     (if 0 \<le> i \<and> i \<le> la_size xs then (Status 1, take (nat i) xs @ d # drop (nat i) xs) else (Status (-1), xs))"
| "plain_call s (DeleteAt i) xs = (if 0 \<le> i \<and> i < la_size xs then (Status 0, cut (nat i) xs) else (Status (-1), xs))"
| "plain_call s (ExtractAt i) xs =
     (if 0 \<le> i \<and> i < la_size xs then (Pointer (Some (xs ! nat i)), cut (nat i) xs) else (Pointer None, xs))"
| "plain_call s (Delete d) xs = (Status (if d \<in> set xs then 0 else -1), la_delete xs d)"
| "plain_call s (GetAt i) xs = (Pointer (la_get_at xs i), xs)"
| "plain_call s (Seek k) xs = (Pointer (la_seek (\<lambda>y. s y k) xs), xs)"
| "plain_call s (Locate d) xs = (Status (if d \<in> set xs then int (length (takeWhile (\<lambda>y. y \<noteq> d) xs)) else -1), xs)"
| "plain_call s SizeOf xs = (Status (la_size xs), xs)"

fun plain_calls :: "('a \<Rightarrow> 'k \<Rightarrow> bool) \<Rightarrow> ('a, 'k) list_call list \<Rightarrow> 'a list \<Rightarrow> 'a answer list \<times> 'a list" where
  "plain_calls s [] xs = ([], xs)"
| "plain_calls s (c # cs) xs =
     (let (r, xs) = plain_call s c xs; (rs, xs) = plain_calls s cs xs in (r # rs, xs))"

text \<open>\<open>malloc\<close> never gives memory that is in use, and gives some when a cell is needed.\<close>

fun call_room :: "('a, 'k) list_call \<Rightarrow> ('a, 'k) list_t \<Rightarrow> bool" where
  "call_room (Append d m) l = cell_ok m l"
| "call_room (Prepend d m) l = cell_ok m l"
| "call_room (InsertAt d i m) l = cell_ok m l"
| "call_room _ l = True"

fun calls_room :: "('a, 'k) list_call list \<Rightarrow> ('a, 'k) list_t \<Rightarrow> bool" where
  "calls_room [] l = True"
| "calls_room (c # cs) l = (call_room c l \<and> (case run_call c l of None \<Rightarrow> True | Some (r, l') \<Rightarrow> calls_room cs l'))"

lemma insert_call:
  assumes h: "holds l xs" and m: "cell_ok m l" and i: "0 \<le> i" "i \<le> la_size xs"
  shows "\<exists>l'. list_insert_at m l d i = Some (1, l') \<and> holds l' (take (nat i) xs @ d # drop (nat i) xs) \<and> same_attributes l l'"
proof -
  obtain as where r: "rep l as" and xs: "contents l as = xs" using h by (auto simp: holds_def)
  have "i \<le> numels l" using i r xs by (auto simp: rep_def contents_def la_size_def)
  then show ?thesis using list_insert_at_holds [OF r m i(1)] unfolding xs holds_def by blast
qed

lemma extract_call:
  assumes h: "holds l xs" and k: "k < length xs"
  shows "\<exists>l'. list_extract_at l (int k) = Some (Some (xs ! k), l') \<and> holds l' (cut k xs) \<and> same_attributes l l'"
proof -
  obtain as where r: "rep l as" and xs: "contents l as = xs" using h by (auto simp: holds_def)
  have "k < length as" using k xs by (auto simp: contents_def)
  then show ?thesis using extract_at_holds [OF r, of k] unfolding xs holds_def cut_def by blast
qed

lemma index_range: "0 \<le> i \<Longrightarrow> i < la_size xs \<Longrightarrow> i = int (nat i) \<and> nat i < length xs"
  by (auto simp: la_size_def)

lemma call_refines:
  assumes h: "holds l xs" and c: "comparator l = None" and s: "seeker l = Some s" and m: "call_room call l"
  shows "\<exists>l'. run_call call l = Some (fst (plain_call s call xs), l') \<and>
    holds l' (snd (plain_call s call xs)) \<and> same_attributes l l'"
proof -
  have n: "numels l = la_size xs" using size_holds [OF h] by (simp add: list_size_def)
  have id: "same_attributes l l" by (simp add: same_attributes_def)
  show ?thesis
  proof (cases call)
    case (Append d v)
    then show ?thesis using append_holds [OF h, of v d] m by (auto simp: la_append_def)
  next
    case (Prepend d v)
    then show ?thesis using insert_call [OF h, of v 0 d] m by (auto simp: list_prepend_def la_size_def)
  next
    case (InsertAt d i v)
    then show ?thesis
      using insert_call [OF h, of v i d] insert_refused [of i l v d] m h id n
      by (cases "0 \<le> i \<and> i \<le> la_size xs") auto
  next
    case (DeleteAt i)
    show ?thesis
    proof (cases "0 \<le> i \<and> i < la_size xs")
      case True
      then show ?thesis using delete_at_index [OF h, of "nat i"] index_range [of i xs] DeleteAt by (auto simp: cut_def)
    next
      case False
      then show ?thesis using DeleteAt h id n by (auto simp: list_delete_at_def)
    qed
  next
    case (ExtractAt i)
    show ?thesis
    proof (cases "0 \<le> i \<and> i < la_size xs")
      case True
      then show ?thesis using extract_call [OF h, of "nat i"] index_range [of i xs] ExtractAt by auto
    next
      case False
      then show ?thesis using ExtractAt h id n by (auto simp: list_extract_at_def)
    qed
  next
    case (Delete d)
    then show ?thesis using delete_holds [OF h c, of d] by auto
  next
    case (GetAt i)
    then show ?thesis using get_at_holds [OF h] h id by simp
  next
    case (Seek k)
    then show ?thesis using seek_holds [OF h s] h id by simp
  next
    case (Locate d)
    then show ?thesis using locate_None [OF h c] h id by simp
  next
    case SizeOf
    then show ?thesis using size_holds [OF h] h id by simp
  qed
qed



definition memory0 :: "(nat, nat) list_t" where
  "memory0 = \<lparr>head_sentinel = 0, tail_sentinel = 0, mid = None, numels = 0, spareels = [], iter_active = False,
     iter_pos = 0, iter_curentry = None, comparator = None, seeker = None, live = (\<lambda>a. False),
     nxt = (\<lambda>a. None), prv = (\<lambda>a. None), dat = (\<lambda>a. None)\<rparr>"

definition list0 :: "(nat, nat) list_t" where
  "list0 = snd (list_attributes_seeker (Some (\<lambda>x k. x = k)) (list_init 0 1 memory0))"

definition calls0 :: "(nat, nat) list_call list" where
  "calls0 = [Append 10 (Some 2), Append 11 (Some 3), Prepend 9 (Some 4), InsertAt 12 1 (Some 5), Locate 11,
     Delete 10, ExtractAt 0, Append 13 None, GetAt 2, GetAt 7, Seek 11, DeleteAt 0, SizeOf]"

lemma list0_holds: "holds list0 [] \<and> comparator list0 = None \<and> seeker list0 = Some (\<lambda>x k. x = k)"
proof -
  have "rep list0 []"
    by (simp add: rep_def cells_def list0_def list_init_def list_attributes_seeker_def memory0_def)
  then show ?thesis
    unfolding holds_def by (auto simp: contents_def list0_def list_init_def list_attributes_seeker_def)
qed

lemma calls0_room: "calls_room calls0 list0"
  by (simp add: calls0_def list0_def memory0_def list_init_def list_attributes_seeker_def cell_ok_def
      list_append_def list_prepend_def list_insert_at_def list_delete_at_def list_extract_at_def list_delete_def
      list_locate_def list_get_at_def list_seek_def list_size_def take_cell_def list_findpos_def insert_fix_mid_def
      drop_fix_mid_def mid_next_def mid_prev_def list_drop_elem_def give_cell_def deref_def set_nxt_def set_prv_def
      SIMCLIST_MAX_SPARE_ELEMS_def Let_def eval_nat_numeral)


text \<open>
  The loop that empties a list from its head (\<open>while (list_size(l)) \<close> take the element at 0, delete it),
  with which the sender and the registries tear their lists down, ends after as many rounds as the
  list has elements, has been given every element once and in order, and leaves an empty list.
\<close>

theorem list_drained:
  assumes "plain_list l xs" and "length xs \<le> k"
  shows "\<exists>l'. drain list_size list_get_at list_delete k l = Some (xs, l') \<and> plain_list l' []"
  using assms by (rule simc.drain_visits_all)

theorem list_drained_witness:
  "\<exists>l l'. list_append (Some 2) list0 (10 :: nat) = Some (1, l) \<and>
     drain list_size list_get_at list_delete 1 l = Some ([10], l') \<and> plain_list l' []"
proof -
  have p0: "plain_list list0 []" using list0_holds by (simp add: plain_list_def)
  have "cell_ok (Some 2) list0" by (simp add: cell_ok_def list0_def list_init_def list_attributes_seeker_def memory0_def)
  then obtain l where l: "list_append (Some 2) list0 10 = Some (1, l)" "plain_list l [10]"
    using simc.append_law [OF p0, of "Some 2" 10] by (auto simp: la_append_def)
  then show ?thesis using list_drained [of l "[10]" 1] by auto
qed

end
