(* ===== verification/Sdp.thy ===== *)
theory Sdp
  imports CString
begin

text \<open>
  \<open>src/sdp.c\<close>, the parser. The description is one buffer \<open>raw\<close> that ends in NUL and that the
  parser cuts into strings by writing NULs over separators; a \<open>char *\<close> is an index into it, \<open>None\<close>
  the null pointer. An operation is \<open>None\<close> when the code reads or writes outside an array or when an
  \<open>assert\<close> stops the process (the build does not define \<open>NDEBUG\<close>). \<open>mem n\<close> is whether the
  allocator gives room for so many elements.
\<close>

section \<open>Data\<close>

type_synonym ptr = "nat option"

definition N_EMAIL :: nat where "N_EMAIL = 1"
definition N_PHONE :: nat where "N_PHONE = 1"
definition N_CONNECTION :: nat where "N_CONNECTION = 1"
definition N_BANDWIDTH :: nat where "N_BANDWIDTH = 1"
definition N_TIMING :: nat where "N_TIMING = 1"
definition N_REPEAT :: nat where "N_REPEAT = 1"
definition N_TIMEZONE :: nat where "N_TIMEZONE = 1"
definition N_REPEAT_OFFSET :: nat where "N_REPEAT_OFFSET = 1"
definition N_ATTRIBUTE :: nat where "N_ATTRIBUTE = 5"
definition N_MEDIA :: nat where "N_MEDIA = 3"
definition N_MEDIA_FORMAT :: nat where "N_MEDIA_FORMAT = 5"
definition ENOMEM :: int where "ENOMEM = 12"

text \<open>
  The containers: an array in the structure and, beyond it, one on the heap that grows by eight.
  What \<open>realloc\<close> adds is not initialised (\<open>None\<close>).
\<close>

record 'a vec =
  v_count :: nat
  v_fixed :: "'a list"
  v_ptr :: "'a option list"

record sdp_connection =
  c_network :: ptr
  c_addrtype :: ptr
  c_address :: ptr

record sdp_origin =
  o_username :: ptr
  o_session :: ptr
  o_session_version :: ptr
  o_c :: sdp_connection

record sdp_bandwidth =
  b_bwtype :: ptr
  b_bandwidth :: ptr

record sdp_repeat =
  r_interval :: ptr
  r_duration :: ptr
  r_offsets :: "ptr vec"

record sdp_timezone =
  z_time :: ptr
  z_offset :: ptr

record sdp_timing =
  t_start :: ptr
  t_stop :: ptr
  t_r :: "sdp_repeat vec"
  t_z :: "sdp_timezone vec"

record sdp_encryption =
  k_method :: ptr
  k_key :: ptr

record sdp_attribute =
  a_name :: ptr
  a_value :: ptr

record sdp_media =
  m_media :: ptr
  m_port :: ptr
  m_proto :: ptr
  m_fmt :: "ptr vec"
  m_i :: ptr
  m_c :: "sdp_connection vec"
  m_a :: "sdp_attribute vec"
  m_b :: "sdp_bandwidth vec"
  m_k :: sdp_encryption

record sdp_t =
  raw :: bytes
  offset :: nat
  sdp_v :: int
  sdp_o :: sdp_origin
  sdp_s :: ptr
  sdp_i :: ptr
  sdp_u :: ptr
  sdp_y :: ptr
  sdp_e :: "ptr vec"
  sdp_p :: "ptr vec"
  sdp_c :: sdp_connection
  sdp_b :: "sdp_bandwidth vec"
  sdp_t :: "sdp_timing vec"
  sdp_k :: sdp_encryption
  sdp_a :: "sdp_attribute vec"
  sdp_m :: "sdp_media vec"

text \<open>What \<open>memset(p, 0, sizeof(*p))\<close> makes of each.\<close>

definition vec0 :: "nat \<Rightarrow> 'a \<Rightarrow> 'a vec" where
  "vec0 n x = \<lparr>v_count = 0, v_fixed = replicate n x, v_ptr = []\<rparr>"

definition connection0 :: sdp_connection where
  "connection0 = \<lparr>c_network = None, c_addrtype = None, c_address = None\<rparr>"

definition origin0 :: sdp_origin where
  "origin0 = \<lparr>o_username = None, o_session = None, o_session_version = None, o_c = connection0\<rparr>"

definition bandwidth0 :: sdp_bandwidth where "bandwidth0 = \<lparr>b_bwtype = None, b_bandwidth = None\<rparr>"

definition repeat0 :: sdp_repeat where
  "repeat0 = \<lparr>r_interval = None, r_duration = None, r_offsets = vec0 N_REPEAT_OFFSET None\<rparr>"

definition timezone0 :: sdp_timezone where "timezone0 = \<lparr>z_time = None, z_offset = None\<rparr>"

definition timing0 :: sdp_timing where
  "timing0 = \<lparr>t_start = None, t_stop = None, t_r = vec0 N_REPEAT repeat0, t_z = vec0 N_TIMEZONE timezone0\<rparr>"

definition encryption0 :: sdp_encryption where "encryption0 = \<lparr>k_method = None, k_key = None\<rparr>"

definition attribute0 :: sdp_attribute where "attribute0 = \<lparr>a_name = None, a_value = None\<rparr>"

definition media0 :: sdp_media where
  "media0 = \<lparr>m_media = None, m_port = None, m_proto = None, m_fmt = vec0 N_MEDIA_FORMAT None, m_i = None,
     m_c = vec0 N_EMAIL connection0, m_a = vec0 N_ATTRIBUTE attribute0, m_b = vec0 N_BANDWIDTH bandwidth0,
     m_k = encryption0\<rparr>"

definition sdp0 :: sdp_t where
  "sdp0 = \<lparr>raw = [], offset = 0, sdp_v = 0, sdp_o = origin0, sdp_s = None, sdp_i = None, sdp_u = None,
     sdp_y = None, sdp_e = vec0 N_EMAIL None, sdp_p = vec0 N_PHONE None, sdp_c = connection0,
     sdp_b = vec0 N_BANDWIDTH bandwidth0, sdp_t = vec0 N_TIMING timing0, sdp_k = encryption0,
     sdp_a = vec0 N_ATTRIBUTE attribute0, sdp_m = vec0 N_MEDIA media0\<rparr>"

text \<open>Room for the element at \<open>count\<close>, storing an element, and reading one.\<close>

definition vec_room :: "(nat \<Rightarrow> bool) \<Rightarrow> nat \<Rightarrow> 'a vec \<Rightarrow> int + 'a vec" where
  "vec_room mem n v =
     (if v_count v \<ge> n \<and> v_count v - n \<ge> length (v_ptr v)
      then (if mem (length (v_ptr v) + 8) then Inr (v\<lparr>v_ptr := v_ptr v @ replicate 8 None\<rparr>) else Inl ENOMEM)
      else Inr v)"

definition vec_put :: "nat \<Rightarrow> nat \<Rightarrow> 'a \<Rightarrow> 'a vec \<Rightarrow> 'a vec option" where
  "vec_put n i x v =
     (if i \<ge> n then (if i - n < length (v_ptr v) then Some (v\<lparr>v_ptr := (v_ptr v)[i - n := Some x]\<rparr>) else None)
      else if i < length (v_fixed v) then Some (v\<lparr>v_fixed := (v_fixed v)[i := x]\<rparr>) else None)"

definition vec_get :: "nat \<Rightarrow> nat \<Rightarrow> 'a vec \<Rightarrow> 'a option" where
  "vec_get n i v =
     (if i \<ge> n then (if i - n < length (v_ptr v) then v_ptr v ! (i - n) else None)
      else if i < length (v_fixed v) then Some (v_fixed v ! i) else None)"

definition vec_inc :: "'a vec \<Rightarrow> 'a vec" where
  "vec_inc v = v\<lparr>v_count := Suc (v_count v)\<rparr>"

section \<open>The tokens\<close>

definition blank :: "u8 \<Rightarrow> bool" where "blank c \<longleftrightarrow> c = 0x20 \<or> c = 0x09"

abbreviation CRLF :: bytes where "CRLF \<equiv> [0x0D, 0x0A]"
abbreviation BLANKS_CRLF :: bytes where "BLANKS_CRLF \<equiv> [0x20, 0x09, 0x0D, 0x0A]"
abbreviation COLON_CRLF :: bytes where "COLON_CRLF \<equiv> [0x3A, 0x0D, 0x0A]"

definition current :: "sdp_t \<Rightarrow> u8 option" where
  "current s = (if offset s < length (raw s) then Some (raw s ! offset s) else None)"

definition step :: "sdp_t \<Rightarrow> sdp_t" where
  "step s = s\<lparr>offset := Suc (offset s)\<rparr>"

text \<open>How far a loop over the characters goes: it must find its end inside the buffer.\<close>

definition run_length :: "(u8 \<Rightarrow> bool) \<Rightarrow> bytes \<Rightarrow> nat \<Rightarrow> nat option" where
  "run_length f b i =
     (let n = length (takeWhile f (drop i b)) in if i + n < length b then Some n else None)"

definition sdp_skip_space :: "sdp_t \<Rightarrow> sdp_t option" where
  "sdp_skip_space s = map_option (\<lambda>n. s\<lparr>offset := offset s + n\<rparr>) (run_length blank (raw s) (offset s))"

definition sdp_token_word :: "bytes \<Rightarrow> sdp_t \<Rightarrow> (nat \<times> sdp_t) option" where
  "sdp_token_word esc s =
     map_option (\<lambda>n. (n, s\<lparr>offset := offset s + n\<rparr>)) (run_length (\<lambda>c. c \<notin> set esc \<and> c \<noteq> 0) (raw s) (offset s))"

definition sdp_token_crlf :: "sdp_t \<Rightarrow> (int \<times> sdp_t) option" where
  "sdp_token_crlf s = do {
     c \<leftarrow> current s;
     let s = (if c = 0x0D then step s else s);
     c \<leftarrow> current s;
     if c = 0x0A then Some (0, step s)
     else if c = 0 then Some (0, s)
     else Some (-1, s)
   }"

fun trim_right :: "bytes \<Rightarrow> nat \<Rightarrow> nat \<Rightarrow> nat" where
  "trim_right b p 0 = 0"
| "trim_right b p (Suc n) = (if b ! (p + n) = 0x20 then trim_right b p n else Suc n)"

text \<open>\<open>p[n] = '\0'\<close>.\<close>

definition put_nul :: "nat \<Rightarrow> sdp_t \<Rightarrow> sdp_t option" where
  "put_nul i s = (if i < length (raw s) then Some (s\<lparr>raw := (raw s)[i := 0]\<rparr>) else None)"

text \<open>The parser's usual first step of a field: skip the blanks, remember where it starts, find its end.\<close>

definition sdp_field :: "bytes \<Rightarrow> sdp_t \<Rightarrow> (nat \<times> nat \<times> sdp_t) option" where
  "sdp_field esc s = do {
     s \<leftarrow> sdp_skip_space s;
     (n, s') \<leftarrow> sdp_token_word esc s;
     Some (offset s, n, s')
   }"

definition sdp_get_timing :: "sdp_t \<Rightarrow> nat \<Rightarrow> sdp_timing option" where
  "sdp_get_timing s i = (if i \<ge> v_count (sdp_t s) then None else vec_get N_TIMING i (sdp_t s))"

definition sdp_get_media :: "sdp_t \<Rightarrow> nat \<Rightarrow> sdp_media option" where
  "sdp_get_media s i = (if i \<ge> v_count (sdp_m s) then None else vec_get N_MEDIA i (sdp_m s))"

text \<open>Writing through the pointers these return.\<close>

definition put_timing :: "nat \<Rightarrow> sdp_timing \<Rightarrow> sdp_t \<Rightarrow> sdp_t option" where
  "put_timing i t s = map_option (\<lambda>v. s\<lparr>sdp_t := v\<rparr>) (vec_put N_TIMING i t (sdp_t s))"

definition put_media :: "nat \<Rightarrow> sdp_media \<Rightarrow> sdp_t \<Rightarrow> sdp_t option" where
  "put_media i m s = map_option (\<lambda>v. s\<lparr>sdp_m := v\<rparr>) (vec_put N_MEDIA i m (sdp_m s))"

section \<open>The lines of one value\<close>

definition add_digit :: "int \<Rightarrow> u8 \<Rightarrow> int" where
  "add_digit v c = v * 10 + (uint c - 0x30)"

text \<open>The version is an \<open>int\<close>, whose overflow is undefined.\<close>

definition sdp_parse_version :: "sdp_t \<Rightarrow> (int \<times> sdp_t) option" where
  "sdp_parse_version s = do {
     s \<leftarrow> sdp_skip_space (s\<lparr>sdp_v := 0\<rparr>);
     n \<leftarrow> run_length is_digit (raw s) (offset s);
     let v = foldl add_digit 0 (take n (drop (offset s) (raw s)));
     if v \<ge> 2 ^ 31 then None
     else sdp_token_crlf (s\<lparr>sdp_v := v, offset := offset s + n\<rparr>)
   }"

definition sdp_parse_origin :: "sdp_t \<Rightarrow> (int \<times> sdp_t) option" where
  "sdp_parse_origin s = do {
     (p0, n0, s) \<leftarrow> sdp_field BLANKS_CRLF s;
     (p1, n1, s) \<leftarrow> sdp_field BLANKS_CRLF s;
     (p2, n2, s) \<leftarrow> sdp_field BLANKS_CRLF s;
     (p3, n3, s) \<leftarrow> sdp_field BLANKS_CRLF s;
     (p4, n4, s) \<leftarrow> sdp_field BLANKS_CRLF s;
     (p5, n5, s) \<leftarrow> sdp_field BLANKS_CRLF s;
     let s = s\<lparr>sdp_o := \<lparr>o_username = Some p0, o_session = Some p1, o_session_version = Some p2,
                o_c = \<lparr>c_network = Some p3, c_addrtype = Some p4, c_address = Some p5\<rparr>\<rparr>\<rparr>;
     (r, s) \<leftarrow> sdp_token_crlf s;
     if r = 0 \<and> n0 > 0 \<and> n1 > 0 \<and> n2 > 0 \<and> n3 > 0 \<and> n4 > 0 \<and> n5 > 0 then do {
       s \<leftarrow> put_nul (p0 + n0) s;
       s \<leftarrow> put_nul (p1 + n1) s;
       s \<leftarrow> put_nul (p2 + n2) s;
       s \<leftarrow> put_nul (p3 + n3) s;
       s \<leftarrow> put_nul (p4 + n4) s;
       s \<leftarrow> put_nul (p5 + n5) s;
       Some (0, s)
     } else Some (-1, s)
   }"

text \<open>The rest of a line, from where the parser stands: its start and its length.\<close>

definition sdp_rest :: "sdp_t \<Rightarrow> (int \<times> nat \<times> nat \<times> sdp_t) option" where
  "sdp_rest s = do {
     (n, s') \<leftarrow> sdp_token_word CRLF s;
     (r, s') \<leftarrow> sdp_token_crlf s';
     Some (r, offset s, n, s')
   }"

definition sdp_parse_session :: "sdp_t \<Rightarrow> (int \<times> sdp_t) option" where
  "sdp_parse_session s = do {
     (r, p, n, s) \<leftarrow> sdp_rest (s\<lparr>sdp_s := Some (offset s)\<rparr>);
     if r \<noteq> 0 then Some (-1, s) else map_option (Pair 0) (put_nul (p + n) s)
   }"

definition sdp_parse_y :: "sdp_t \<Rightarrow> (int \<times> sdp_t) option" where
  "sdp_parse_y s = do {
     (r, p, n, s) \<leftarrow> sdp_rest (s\<lparr>sdp_y := Some (offset s)\<rparr>);
     if r \<noteq> 0 then Some (-1, s) else map_option (Pair 0) (put_nul (p + n) s)
   }"

definition sdp_parse_information :: "sdp_t \<Rightarrow> (int \<times> sdp_t) option" where
  "sdp_parse_information s = do {
     s \<leftarrow> (if v_count (sdp_m s) > 0
          then do {
            m \<leftarrow> sdp_get_media s (v_count (sdp_m s) - 1);
            put_media (v_count (sdp_m s) - 1) (m\<lparr>m_i := Some (offset s)\<rparr>) s
          }
          else Some (s\<lparr>sdp_i := Some (offset s)\<rparr>));
     (r, p, n, s) \<leftarrow> sdp_rest s;
     if r \<noteq> 0 then Some (-1, s) else map_option (Pair 0) (put_nul (p + n) s)
   }"

definition sdp_parse_uri :: "sdp_t \<Rightarrow> (int \<times> sdp_t) option" where
  "sdp_parse_uri s =
     (if sdp_u s \<noteq> None then None
      else do {
        (r, p, n, s) \<leftarrow> sdp_rest (s\<lparr>sdp_u := Some (offset s)\<rparr>);
        if r \<noteq> 0 then Some (-1, s) else map_option (Pair 0) (put_nul (p + n) s)
      })"

definition sdp_parse_email :: "(nat \<Rightarrow> bool) \<Rightarrow> sdp_t \<Rightarrow> (int \<times> sdp_t) option" where
  "sdp_parse_email mem s =
     (case vec_room mem N_EMAIL (sdp_e s) of Inl err \<Rightarrow> Some (err, s)
      | Inr e \<Rightarrow> do {
          e \<leftarrow> vec_put N_EMAIL (v_count e) (Some (offset s)) e;
          (r, p, n, s) \<leftarrow> sdp_rest (s\<lparr>sdp_e := e\<rparr>);
          if r \<noteq> 0 then Some (-1, s)
          else do {
            s \<leftarrow> put_nul (p + n) s;
            Some (0, s\<lparr>sdp_e := vec_inc (sdp_e s)\<rparr>)
          }
        })"

definition sdp_parse_phone :: "(nat \<Rightarrow> bool) \<Rightarrow> sdp_t \<Rightarrow> (int \<times> sdp_t) option" where
  "sdp_parse_phone mem s =
     (case vec_room mem N_PHONE (sdp_p s) of Inl err \<Rightarrow> Some (err, s)
      | Inr v \<Rightarrow> do {
          v \<leftarrow> vec_put N_PHONE (v_count v) (Some (offset s)) v;
          (r, p, n, s) \<leftarrow> sdp_rest (s\<lparr>sdp_p := v\<rparr>);
          if r \<noteq> 0 then Some (-1, s)
          else do {
            s \<leftarrow> put_nul (p + trim_right (raw s) p n) s;
            Some (0, s\<lparr>sdp_p := vec_inc (sdp_p s)\<rparr>)
          }
        })"


section \<open>The lines with fields\<close>

text \<open>The three fields of a connection; whether they and the end of the line are there.\<close>

definition connection_fields :: "sdp_t \<Rightarrow> (bool \<times> sdp_connection \<times> sdp_t) option" where
  "connection_fields s = do {
     (p0, n0, s) \<leftarrow> sdp_field BLANKS_CRLF s;
     (p1, n1, s) \<leftarrow> sdp_field BLANKS_CRLF s;
     (p2, n2, s) \<leftarrow> sdp_field CRLF s;
     let n2 = trim_right (raw s) p2 n2;
     let c = \<lparr>c_network = Some p0, c_addrtype = Some p1, c_address = Some p2\<rparr>;
     (r, s) \<leftarrow> sdp_token_crlf s;
     if r = 0 \<and> n0 > 0 \<and> n1 > 0 \<and> n2 > 0 then do {
       s \<leftarrow> put_nul (p0 + n0) s;
       s \<leftarrow> put_nul (p1 + n1) s;
       s \<leftarrow> put_nul (p2 + n2) s;
       Some (True, c, s)
     } else Some (False, c, s)
   }"

definition sdp_parse_connection :: "(nat \<Rightarrow> bool) \<Rightarrow> sdp_t \<Rightarrow> (int \<times> sdp_t) option" where
  "sdp_parse_connection mem s =
     (if v_count (sdp_m s) > 0
      then do {
        let k = v_count (sdp_m s) - 1;
        m \<leftarrow> sdp_get_media s k;
        case vec_room mem N_CONNECTION (m_c m) of Inl err \<Rightarrow> Some (err, s)
        | Inr v \<Rightarrow> do {
            (ok, c, s) \<leftarrow> connection_fields s;
            v \<leftarrow> vec_put N_CONNECTION (v_count v) c v;
            s \<leftarrow> put_media k (m\<lparr>m_c := (if ok then vec_inc v else v)\<rparr>) s;
            Some ((if ok then 0 else -1), s)
          }
      }
      else do {
        (ok, c, s) \<leftarrow> connection_fields s;
        Some ((if ok then 0 else -1), s\<lparr>sdp_c := c\<rparr>)
      })"

text \<open>\<open>name:value\<close>, both trimmed: bandwidths, keys and attributes.\<close>

definition pair_fields :: "sdp_t \<Rightarrow> (int \<times> nat \<times> nat \<times> sdp_t) option" where
  "pair_fields s = do {
     (p0, n0, s) \<leftarrow> sdp_field COLON_CRLF s;
     let n0 = trim_right (raw s) p0 n0;
     c \<leftarrow> current s;
     let s = (if c = 0x3A then step s else s);
     (p1, n1, s) \<leftarrow> sdp_field CRLF s;
     let n1 = trim_right (raw s) p1 n1;
     (r, s) \<leftarrow> sdp_token_crlf s;
     if r = 0 then do {
       s \<leftarrow> put_nul (p0 + n0) s;
       s \<leftarrow> put_nul (p1 + n1) s;
       Some (0, p0, p1, s)
     } else Some (-1, p0, p1, s)
   }"

definition cur_b :: "sdp_t \<Rightarrow> sdp_bandwidth vec option" where
  "cur_b s = (if v_count (sdp_m s) > 0 then map_option m_b (sdp_get_media s (v_count (sdp_m s) - 1)) else Some (sdp_b s))"

definition put_b :: "sdp_bandwidth vec \<Rightarrow> sdp_t \<Rightarrow> sdp_t option" where
  "put_b v s =
     (if v_count (sdp_m s) > 0
      then do { m \<leftarrow> sdp_get_media s (v_count (sdp_m s) - 1); put_media (v_count (sdp_m s) - 1) (m\<lparr>m_b := v\<rparr>) s }
      else Some (s\<lparr>sdp_b := v\<rparr>))"

definition sdp_parse_bandwidth :: "(nat \<Rightarrow> bool) \<Rightarrow> sdp_t \<Rightarrow> (int \<times> sdp_t) option" where
  "sdp_parse_bandwidth mem s = do {
     bs \<leftarrow> cur_b s;
     case vec_room mem N_BANDWIDTH bs of Inl err \<Rightarrow> Some (err, s)
     | Inr bs \<Rightarrow> do {
         (r, p0, p1, s) \<leftarrow> pair_fields s;
         bs \<leftarrow> vec_put N_BANDWIDTH (v_count bs) \<lparr>b_bwtype = Some p0, b_bandwidth = Some p1\<rparr> bs;
         s \<leftarrow> put_b (if r = 0 then vec_inc bs else bs) s;
         Some (r, s)
       }
   }"

definition cur_a :: "sdp_t \<Rightarrow> sdp_attribute vec option" where
  "cur_a s = (if v_count (sdp_m s) > 0 then map_option m_a (sdp_get_media s (v_count (sdp_m s) - 1)) else Some (sdp_a s))"

definition put_a :: "sdp_attribute vec \<Rightarrow> sdp_t \<Rightarrow> sdp_t option" where
  "put_a v s =
     (if v_count (sdp_m s) > 0
      then do { m \<leftarrow> sdp_get_media s (v_count (sdp_m s) - 1); put_media (v_count (sdp_m s) - 1) (m\<lparr>m_a := v\<rparr>) s }
      else Some (s\<lparr>sdp_a := v\<rparr>))"

definition sdp_parse_attribute :: "(nat \<Rightarrow> bool) \<Rightarrow> sdp_t \<Rightarrow> (int \<times> sdp_t) option" where
  "sdp_parse_attribute mem s = do {
     as \<leftarrow> cur_a s;
     case vec_room mem N_ATTRIBUTE as of Inl err \<Rightarrow> Some (err, s)
     | Inr as \<Rightarrow> do {
         (r, p0, p1, s) \<leftarrow> pair_fields s;
         as \<leftarrow> vec_put N_ATTRIBUTE (v_count as) \<lparr>a_name = Some p0, a_value = Some p1\<rparr> as;
         s \<leftarrow> put_a (if r = 0 then vec_inc as else as) s;
         Some (r, s)
       }
   }"

definition put_k :: "sdp_encryption \<Rightarrow> sdp_t \<Rightarrow> sdp_t option" where
  "put_k x s =
     (if v_count (sdp_m s) > 0
      then do { m \<leftarrow> sdp_get_media s (v_count (sdp_m s) - 1); put_media (v_count (sdp_m s) - 1) (m\<lparr>m_k := x\<rparr>) s }
      else Some (s\<lparr>sdp_k := x\<rparr>))"

definition sdp_parse_encryption :: "sdp_t \<Rightarrow> (int \<times> sdp_t) option" where
  "sdp_parse_encryption s = do {
     (r, p0, p1, s) \<leftarrow> pair_fields s;
     s \<leftarrow> put_k \<lparr>k_method = Some p0, k_key = Some p1\<rparr> s;
     Some (r, s)
   }"

definition sdp_parse_timing :: "(nat \<Rightarrow> bool) \<Rightarrow> sdp_t \<Rightarrow> (int \<times> sdp_t) option" where
  "sdp_parse_timing mem s =
     (case vec_room mem N_TIMING (sdp_t s) of Inl err \<Rightarrow> Some (err, s)
      | Inr v \<Rightarrow> do {
          (p0, n0, s) \<leftarrow> sdp_field BLANKS_CRLF s;
          (p1, n1, s) \<leftarrow> sdp_field CRLF s;
          let n1 = trim_right (raw s) p1 n1;
          v \<leftarrow> vec_put N_TIMING (v_count v) (timing0\<lparr>t_start := Some p0, t_stop := Some p1\<rparr>) v;
          (r, s) \<leftarrow> sdp_token_crlf (s\<lparr>sdp_t := v\<rparr>);
          if r = 0 then do {
            s \<leftarrow> put_nul (p0 + n0) s;
            s \<leftarrow> put_nul (p1 + n1) s;
            Some (0, s\<lparr>sdp_t := vec_inc (sdp_t s)\<rparr>)
          } else Some (-1, s)
        })"

section \<open>Repeat times and time zones\<close>

definition sdp_append_timing_repeat_offset :: "(nat \<Rightarrow> bool) \<Rightarrow> nat \<Rightarrow> sdp_repeat \<Rightarrow> (int \<times> sdp_repeat) option" where
  "sdp_append_timing_repeat_offset mem p r =
     (case vec_room mem N_REPEAT_OFFSET (r_offsets r) of Inl err \<Rightarrow> Some (err, r)
      | Inr v \<Rightarrow> do {
          v \<leftarrow> vec_put N_REPEAT_OFFSET (v_count v) (Some p) v;
          Some (0, r\<lparr>r_offsets := vec_inc v\<rparr>)
        })"

text \<open>The offset found last, when there is one, is terminated and appended.\<close>

definition flush_offset :: "(nat \<Rightarrow> bool) \<Rightarrow> sdp_repeat \<Rightarrow> nat option \<Rightarrow> nat \<Rightarrow> sdp_t \<Rightarrow> (int \<times> sdp_repeat \<times> sdp_t) option" where
  "flush_offset mem r off n2 s =
     (case off of
        Some p \<Rightarrow> if n2 > 0 then do {
            s \<leftarrow> put_nul (p + n2) s;
            (e, r) \<leftarrow> sdp_append_timing_repeat_offset mem p r;
            Some (e, r, s)
          } else Some (0, r, s)
      | None \<Rightarrow> Some (0, r, s))"

text \<open>
  The loop over the offsets goes on while \<open>strchr(" \t", c)\<close> finds the character \<open>c\<close>, and \<open>strchr\<close> finds
  the NUL too. One round, and the loop with a bound on its rounds.
\<close>

definition repeat_more :: "sdp_t \<Rightarrow> bool option" where
  "repeat_more s = map_option (\<lambda>c. blank c \<or> c = 0) (current s)"

definition repeat_round :: "(nat \<Rightarrow> bool) \<Rightarrow> sdp_repeat \<times> nat option \<times> nat \<times> sdp_t \<Rightarrow>
    (int \<times> sdp_repeat \<times> nat option \<times> nat \<times> sdp_t) option" where
  "repeat_round mem x = (case x of (r, off, n2, s) \<Rightarrow> do {
     (e, r, s) \<leftarrow> flush_offset mem r off n2 s;
     if e \<noteq> 0 then Some (e, r, off, n2, s)
     else do {
       (p, n, s) \<leftarrow> sdp_field BLANKS_CRLF s;
       Some (0, r, Some p, n, s)
     }
   })"

fun repeat_loop :: "(nat \<Rightarrow> bool) \<Rightarrow> nat \<Rightarrow> sdp_repeat \<times> nat option \<times> nat \<times> sdp_t \<Rightarrow>
    (int \<times> sdp_repeat \<times> nat option \<times> nat \<times> sdp_t) option" where
  "repeat_loop mem 0 x = None"
| "repeat_loop mem (Suc k) x = do {
     more \<leftarrow> repeat_more (snd (snd (snd x)));
     if \<not> more then Some (0, x)
     else do {
       (e, x) \<leftarrow> repeat_round mem x;
       if e \<noteq> 0 then Some (e, x) else repeat_loop mem k x
     }
   }"

text \<open>\<open>fuel\<close> bounds the rounds of the loop.\<close>

definition sdp_parse_repeat :: "(nat \<Rightarrow> bool) \<Rightarrow> nat \<Rightarrow> sdp_t \<Rightarrow> (int \<times> sdp_t) option" where
  "sdp_parse_repeat mem fuel s =
     (if v_count (sdp_t s) < 1 then None
      else do {
        let k = v_count (sdp_t s) - 1;
        t \<leftarrow> sdp_get_timing s k;
        case vec_room mem N_REPEAT (t_r t) of Inl err \<Rightarrow> Some (err, s)
        | Inr v \<Rightarrow> do {
            (p0, n0, s) \<leftarrow> sdp_field BLANKS_CRLF s;
            (p1, n1, s) \<leftarrow> sdp_field BLANKS_CRLF s;
            (e, r, off, n2, s) \<leftarrow>
              repeat_loop mem fuel (repeat0\<lparr>r_interval := Some p0, r_duration := Some p1\<rparr>, None, 0, s);
            (e, ok, r, s) \<leftarrow>
              (if e \<noteq> 0 then Some (e, False, r, s)
               else do {
                 (c, s) \<leftarrow> sdp_token_crlf s;
                 if c \<noteq> 0 then Some (-1, False, r, s)
                 else do {
                   s \<leftarrow> put_nul (p0 + n0) s;
                   s \<leftarrow> put_nul (p1 + n1) s;
                   (e, r, s) \<leftarrow> flush_offset mem r off n2 s;
                   Some (e, e = 0, r, s)
                 }
               });
            v \<leftarrow> vec_put N_REPEAT (v_count v) r v;
            s \<leftarrow> put_timing k (t\<lparr>t_r := (if ok then vec_inc v else v)\<rparr>) s;
            Some (e, s)
          }
      })"

text \<open>
  The slot of a time zone is chosen by the number of time zones, its index by the number of repeats
  (\<open>t->r.count\<close>), as the code has it: \<open>None\<close> where that is outside the array.
\<close>

definition put_timezone :: "sdp_timezone \<Rightarrow> sdp_timing \<Rightarrow> sdp_timing option" where
  "put_timezone z t =
     (let i = v_count (t_r t); v = t_z t
      in if v_count v \<ge> N_TIMEZONE
         then (if i \<ge> N_TIMEZONE \<and> i - N_TIMEZONE < length (v_ptr v)
               then Some (t\<lparr>t_z := v\<lparr>v_ptr := (v_ptr v)[i - N_TIMEZONE := Some z]\<rparr>\<rparr>) else None)
         else (if i < length (v_fixed v) then Some (t\<lparr>t_z := v\<lparr>v_fixed := (v_fixed v)[i := z]\<rparr>\<rparr>) else None))"

fun timezone_loop :: "(nat \<Rightarrow> bool) \<Rightarrow> nat \<Rightarrow> sdp_timing \<Rightarrow> sdp_t \<Rightarrow> (int \<times> sdp_timing \<times> sdp_t) option" where
  "timezone_loop mem 0 t s = None"
| "timezone_loop mem (Suc k) t s = do {
     (p0, n0, s) \<leftarrow> sdp_field BLANKS_CRLF s;
     (p1, n1, s) \<leftarrow> sdp_field BLANKS_CRLF s;
     if n0 < 1 \<or> n1 < 1 then Some (0, t, s)
     else case vec_room mem N_TIMEZONE (t_z t) of Inl err \<Rightarrow> Some (err, t, s)
       | Inr v \<Rightarrow> do {
           t \<leftarrow> put_timezone \<lparr>z_time = Some p0, z_offset = Some p1\<rparr> (t\<lparr>t_z := v\<rparr>);
           timezone_loop mem k (t\<lparr>t_z := vec_inc (t_z t)\<rparr>) s
         }
   }"

definition sdp_parse_timezone :: "(nat \<Rightarrow> bool) \<Rightarrow> sdp_t \<Rightarrow> (int \<times> sdp_t) option" where
  "sdp_parse_timezone mem s =
     (if v_count (sdp_t s) < 1 then None
      else do {
        let k = v_count (sdp_t s) - 1;
        t \<leftarrow> sdp_get_timing s k;
        (e, t, s) \<leftarrow> timezone_loop mem (Suc (length (raw s))) t s;
        s \<leftarrow> put_timing k t s;
        if e \<noteq> 0 then Some (e, s) else sdp_token_crlf s
      })"

section \<open>Media lines\<close>

definition sdp_append_media_format :: "(nat \<Rightarrow> bool) \<Rightarrow> nat \<Rightarrow> sdp_media \<Rightarrow> (int \<times> sdp_media) option" where
  "sdp_append_media_format mem p m =
     (case vec_room mem N_MEDIA_FORMAT (m_fmt m) of Inl err \<Rightarrow> Some (err, m)
      | Inr v \<Rightarrow> do {
          v \<leftarrow> vec_put N_MEDIA_FORMAT (v_count v) (Some p) v;
          Some (0, m\<lparr>m_fmt := vec_inc v\<rparr>)
        })"

text \<open>\<open>for (i = 3; i < 16; ++i)\<close>: the start and length of the last of so many fields.\<close>

fun skip_fields :: "nat \<Rightarrow> sdp_t \<Rightarrow> (nat \<times> nat \<times> sdp_t) option" where
  "skip_fields 0 s = None"
| "skip_fields (Suc 0) s = sdp_field BLANKS_CRLF s"
| "skip_fields (Suc (Suc k)) s = do { (p, n, s) \<leftarrow> sdp_field BLANKS_CRLF s; skip_fields (Suc k) s }"

text \<open>The loop that appends a format when a blank follows it; \<open>fmt[n]\<close> is the current character.\<close>

fun format_loop :: "(nat \<Rightarrow> bool) \<Rightarrow> nat \<Rightarrow> sdp_media \<Rightarrow> nat \<Rightarrow> nat \<Rightarrow> sdp_t \<Rightarrow>
    (int \<times> sdp_media \<times> nat \<times> nat \<times> sdp_t) option" where
  "format_loop mem 0 m p n s = None"
| "format_loop mem (Suc k) m p n s = do {
     c \<leftarrow> (if p + n < length (raw s) then Some (raw s ! (p + n)) else None);
     if \<not> blank c then Some (0, m, p, n, s)
     else do {
       s \<leftarrow> put_nul (p + n) s;
       (e, m) \<leftarrow> sdp_append_media_format mem p m;
       if e \<noteq> 0 then Some (e, m, p, n, s)
       else do {
         (p, n, s) \<leftarrow> sdp_field BLANKS_CRLF s;
         format_loop mem k m p n s
       }
     }
   }"

definition sdp_parse_media :: "(nat \<Rightarrow> bool) \<Rightarrow> sdp_t \<Rightarrow> (int \<times> sdp_t) option" where
  "sdp_parse_media mem s =
     (case vec_room mem N_MEDIA (sdp_m s) of Inl err \<Rightarrow> Some (err, s)
      | Inr v \<Rightarrow> do {
          (p0, n0, s) \<leftarrow> sdp_field BLANKS_CRLF s;
          (p1, n1, s) \<leftarrow> sdp_field BLANKS_CRLF s;
          (p2, n2, s) \<leftarrow> sdp_field BLANKS_CRLF s;
          (p, n, s) \<leftarrow> skip_fields 13 s;
          (e, m, p, n, s) \<leftarrow> format_loop mem (Suc (length (raw s)))
            (media0\<lparr>m_media := Some p0, m_port := Some p1, m_proto := Some p2\<rparr>) p n s;
          (e, ok, m, s) \<leftarrow>
            (if e \<noteq> 0 then Some (e, False, m, s)
             else do {
               (c, s) \<leftarrow> sdp_token_crlf s;
               if c \<noteq> 0 then Some (-1, False, m, s)
               else do {
                 s \<leftarrow> put_nul (p0 + n0) s;
                 s \<leftarrow> put_nul (p1 + n1) s;
                 s \<leftarrow> put_nul (p2 + n2) s;
                 if n > 0 then do {
                   s \<leftarrow> put_nul (p + n) s;
                   (e, m) \<leftarrow> sdp_append_media_format mem p m;
                   Some (e, e = 0, m, s)
                 } else Some (0, True, m, s)
               }
             });
          v \<leftarrow> vec_put N_MEDIA (v_count v) m v;
          Some (e, s\<lparr>sdp_m := (if ok then vec_inc v else v)\<rparr>)
        })"

section \<open>sdp_parse\<close>

text \<open>One line by its type; \<open>assert(0)\<close> stops the process at a type that is not known.\<close>

definition sdp_parse_value :: "(nat \<Rightarrow> bool) \<Rightarrow> nat \<Rightarrow> u8 \<Rightarrow> sdp_t \<Rightarrow> (int \<times> sdp_t) option" where
  "sdp_parse_value mem fuel c s =
     (if c = 0x76 then sdp_parse_version s
      else if c = 0x6F then sdp_parse_origin s
      else if c = 0x73 then sdp_parse_session s
      else if c = 0x69 then sdp_parse_information s
      else if c = 0x75 then sdp_parse_uri s
      else if c = 0x65 then sdp_parse_email mem s
      else if c = 0x70 then sdp_parse_phone mem s
      else if c = 0x63 then sdp_parse_connection mem s
      else if c = 0x62 then sdp_parse_bandwidth mem s
      else if c = 0x74 then sdp_parse_timing mem s
      else if c = 0x72 then sdp_parse_repeat mem fuel s
      else if c = 0x7A then sdp_parse_timezone mem s
      else if c = 0x6B then sdp_parse_encryption s
      else if c = 0x61 then sdp_parse_attribute mem s
      else if c = 0x6D then sdp_parse_media mem s
      else if c = 0x79 then sdp_parse_y s
      else None)"

text \<open>The body of the loop of \<open>sdp_parse\<close>: \<open>False\<close> is \<open>goto parse_failed\<close>.\<close>

definition sdp_parse_line :: "(nat \<Rightarrow> bool) \<Rightarrow> nat \<Rightarrow> sdp_t \<Rightarrow> (bool \<times> sdp_t) option" where
  "sdp_parse_line mem fuel s = do {
     s \<leftarrow> sdp_skip_space s;
     c \<leftarrow> current s;
     s \<leftarrow> sdp_skip_space (step s);
     e \<leftarrow> current s;
     let s = step s;
     if e \<noteq> 0x3D then Some (False, s)
     else do {
       s \<leftarrow> sdp_skip_space s;
       (r, s) \<leftarrow> sdp_parse_value mem fuel c s;
       Some (r = 0, s)
     }
   }"

fun sdp_parse_loop :: "(nat \<Rightarrow> bool) \<Rightarrow> nat \<Rightarrow> sdp_t \<Rightarrow> (bool \<times> sdp_t) option" where
  "sdp_parse_loop mem 0 s = None"
| "sdp_parse_loop mem (Suc k) s = do {
     c \<leftarrow> current s;
     if c = 0 \<or> c = 0x0D \<or> c = 0x0A then Some (True, s)
     else do {
       (ok, s) \<leftarrow> sdp_parse_line mem (Suc (length (raw s))) s;
       if ok then sdp_parse_loop mem k s else Some (False, s)
     }
   }"

definition sdp_create :: "(nat \<Rightarrow> bool) \<Rightarrow> sdp_t option" where
  "sdp_create mem = (if mem 1 then Some sdp0 else None)"

text \<open>
  \<open>sdp_parse\<close> of a string without its terminator: the outer \<open>None\<close> as above, the inner one the null
  pointer. A line takes at least its type and the equals sign, which bounds the rounds.
\<close>

definition sdp_parse :: "(nat \<Rightarrow> bool) \<Rightarrow> bytes \<Rightarrow> sdp_t option option" where
  "sdp_parse mem b =
     (case sdp_create mem of None \<Rightarrow> Some None
      | Some s \<Rightarrow>
          if \<not> mem (length b + 1) then Some None
          else do {
            (ok, s) \<leftarrow> sdp_parse_loop mem (length b + 1) (s\<lparr>raw := b @ [0]\<rparr>);
            Some (if ok then Some s else None)
          })"

end
