(* ===== verification/SdpGet.thy ===== *)
theory SdpGet
  imports Sdp
begin

text \<open>
  \<open>src/sdp.c\<close>, what reads a parsed description: the accessors, the URIs of RTSP and \<open>sdp_destroy\<close>. A
  null pointer that is dereferenced and a read outside an array are \<open>None\<close>.
\<close>

section \<open>Strings\<close>

definition str_at :: "sdp_t \<Rightarrow> nat \<Rightarrow> bytes option" where
  "str_at s p = c_str (drop p (raw s))"

text \<open>The string behind a pointer that the code dereferences.\<close>

definition str_of :: "sdp_t \<Rightarrow> ptr \<Rightarrow> bytes option" where
  "str_of s p = Option.bind p (str_at s)"

definition to_lower :: "u8 \<Rightarrow> u8" where
  "to_lower c = (if 0x41 \<le> c \<and> c \<le> 0x5A then c + 0x20 else c)"

definition strcaseeq :: "bytes \<Rightarrow> bytes \<Rightarrow> bool" where
  "strcaseeq a b \<longleftrightarrow> map to_lower a = map to_lower b"

definition IN_NET :: bytes where "IN_NET = [0x49, 0x4E]"
definition IP4 :: bytes where "IP4 = [0x49, 0x50, 0x34]"
definition IP6 :: bytes where "IP6 = [0x49, 0x50, 0x36]"

text \<open>\<open>SDP_C_NETWORK_...\<close> and \<open>SDP_C_ADDRESS_...\<close>.\<close>

definition network_code :: "bytes \<Rightarrow> int" where
  "network_code w = (if strcaseeq IN_NET w then 1 else 0)"

definition addrtype_code :: "bytes \<Rightarrow> int" where
  "addrtype_code w = (if strcaseeq IP4 w then 1 else if strcaseeq IP6 w then 2 else 0)"

section \<open>The session\<close>

definition sdp_version_get :: "sdp_t \<Rightarrow> int" where
  "sdp_version_get s = sdp_v s"

text \<open>The pointers it stores when it returns 0; \<open>None\<close> when it returns -1.\<close>

definition sdp_origin_get :: "sdp_t \<Rightarrow> nat list option" where
  "sdp_origin_get s =
     (case (o_username (sdp_o s), o_session (sdp_o s), o_session_version (sdp_o s),
            c_network (o_c (sdp_o s)), c_addrtype (o_c (sdp_o s)), c_address (o_c (sdp_o s))) of
        (Some a, Some b, Some c, Some d, Some e, Some f) \<Rightarrow> Some [a, b, c, d, e, f]
      | _ \<Rightarrow> None)"

definition sdp_origin_get_network :: "sdp_t \<Rightarrow> int option" where
  "sdp_origin_get_network s = map_option network_code (str_of s (c_network (o_c (sdp_o s))))"

definition sdp_origin_get_addrtype :: "sdp_t \<Rightarrow> int option" where
  "sdp_origin_get_addrtype s = map_option addrtype_code (str_of s (c_addrtype (o_c (sdp_o s))))"

definition sdp_session_get_name :: "sdp_t \<Rightarrow> ptr" where "sdp_session_get_name s = sdp_s s"
definition sdp_y_get :: "sdp_t \<Rightarrow> ptr" where "sdp_y_get s = sdp_y s"
definition sdp_session_get_information :: "sdp_t \<Rightarrow> ptr" where "sdp_session_get_information s = sdp_i s"
definition sdp_uri_get :: "sdp_t \<Rightarrow> ptr" where "sdp_uri_get s = sdp_u s"
definition sdp_email_count :: "sdp_t \<Rightarrow> int" where "sdp_email_count s = int (v_count (sdp_e s))"
definition sdp_phone_count :: "sdp_t \<Rightarrow> int" where "sdp_phone_count s = int (v_count (sdp_p s))"
definition sdp_bandwidth_count :: "sdp_t \<Rightarrow> int" where "sdp_bandwidth_count s = int (v_count (sdp_b s))"
definition sdp_timing_count :: "sdp_t \<Rightarrow> int" where "sdp_timing_count s = int (v_count (sdp_t s))"
definition sdp_media_count :: "sdp_t \<Rightarrow> int" where "sdp_media_count s = int (v_count (sdp_m s))"
definition sdp_attribute_count :: "sdp_t \<Rightarrow> int" where "sdp_attribute_count s = int (v_count (sdp_a s))"

definition sdp_email_get :: "sdp_t \<Rightarrow> int \<Rightarrow> ptr option" where
  "sdp_email_get s i = (if i \<ge> int (v_count (sdp_e s)) \<or> i < 0 then Some None else vec_get N_EMAIL (nat i) (sdp_e s))"

definition sdp_phone_get :: "sdp_t \<Rightarrow> int \<Rightarrow> ptr option" where
  "sdp_phone_get s i = (if i \<ge> int (v_count (sdp_p s)) \<or> i < 0 then Some None else vec_get N_PHONE (nat i) (sdp_p s))"

definition connection_get :: "sdp_connection \<Rightarrow> (nat \<times> nat \<times> nat) option" where
  "connection_get c =
     (case (c_network c, c_addrtype c, c_address c) of (Some a, Some b, Some d) \<Rightarrow> Some (a, b, d) | _ \<Rightarrow> None)"

definition sdp_connection_get :: "sdp_t \<Rightarrow> (nat \<times> nat \<times> nat) option" where
  "sdp_connection_get s = connection_get (sdp_c s)"

text \<open>
  The copy of the address: the loop of the code advances \<open>ip\<close> and counts \<open>bytes\<close> down, and leaves
  \<open>p\<close> where it is. The result and the bytes written to \<open>ip\<close>.
\<close>

fun copy_address :: "sdp_t \<Rightarrow> nat \<Rightarrow> int \<Rightarrow> bytes \<Rightarrow> (int \<times> bytes) option" where
  "copy_address s p room out =
     (if p \<ge> length (raw s) then None
      else let c = raw s ! p
           in if c \<noteq> 0 \<and> c \<noteq> 0x2F \<and> room > 1 then copy_address s p (room - 1) (out @ [c])
              else if c = 0 \<or> c = 0x2F then Some (0, out @ [0])
              else Some (-1, out))"

declare copy_address.simps [simp del]

definition connection_address :: "sdp_t \<Rightarrow> sdp_connection \<Rightarrow> int \<Rightarrow> (int \<times> bytes) option" where
  "connection_address s c room =
     (case c_address c of Some p \<Rightarrow> if room > 0 then copy_address s p room [] else Some (-1, [])
      | None \<Rightarrow> Some (-1, []))"

definition sdp_connection_get_address :: "sdp_t \<Rightarrow> int \<Rightarrow> (int \<times> bytes) option" where
  "sdp_connection_get_address s room = connection_address s (sdp_c s) room"

definition sdp_connection_get_network :: "sdp_t \<Rightarrow> int option" where
  "sdp_connection_get_network s = map_option network_code (str_of s (c_network (sdp_c s)))"

definition sdp_connection_get_addrtype :: "sdp_t \<Rightarrow> int option" where
  "sdp_connection_get_addrtype s = map_option addrtype_code (str_of s (c_addrtype (sdp_c s)))"

definition bandwidth_type :: "sdp_bandwidth vec \<Rightarrow> int \<Rightarrow> ptr option" where
  "bandwidth_type v i =
     (if i \<ge> int (v_count v) \<or> i < 0 then Some None else map_option b_bwtype (vec_get N_BANDWIDTH (nat i) v))"

definition bandwidth_value :: "sdp_t \<Rightarrow> sdp_bandwidth vec \<Rightarrow> int \<Rightarrow> int option" where
  "bandwidth_value s v i =
     (if i \<ge> int (v_count v) \<or> i < 0 then Some (-1)
      else do { b \<leftarrow> vec_get N_BANDWIDTH (nat i) v; w \<leftarrow> str_of s (b_bandwidth b); Some (sint (atoi w)) })"

definition sdp_bandwidth_get_type :: "sdp_t \<Rightarrow> int \<Rightarrow> ptr option" where
  "sdp_bandwidth_get_type s i = bandwidth_type (sdp_b s) i"

definition sdp_bandwidth_get_value :: "sdp_t \<Rightarrow> int \<Rightarrow> int option" where
  "sdp_bandwidth_get_value s i = bandwidth_value s (sdp_b s) i"

section \<open>The media\<close>

text \<open>\<open>sdp_get_media(sdp, media)\<close>: a negative index is a \<open>size_t\<close> above every count.\<close>

definition media_at :: "sdp_t \<Rightarrow> int \<Rightarrow> sdp_media option" where
  "media_at s i = (if i < 0 then None else sdp_get_media s (nat i))"

definition sdp_media_type :: "sdp_t \<Rightarrow> int \<Rightarrow> ptr" where
  "sdp_media_type s i = (case media_at s i of Some m \<Rightarrow> m_media m | None \<Rightarrow> None)"

definition sdp_media_proto :: "sdp_t \<Rightarrow> int \<Rightarrow> ptr" where
  "sdp_media_proto s i = (case media_at s i of Some m \<Rightarrow> m_proto m | None \<Rightarrow> None)"

text \<open>\<open>port/num\<close>: the result, and the two numbers when it is 0.\<close>

definition sdp_media_port :: "sdp_t \<Rightarrow> int \<Rightarrow> (int \<times> (int \<times> int) option) option" where
  "sdp_media_port s i =
     (case media_at s i of None \<Rightarrow> Some (-1, None)
      | Some m \<Rightarrow> do {
          w \<leftarrow> str_of s (m_port m);
          let t = dropWhile (\<lambda>c. c \<noteq> 0x2F) w;
          Some (0, Some (sint (atoi w), sint (atoi (if t = [] then [0x31] else tl t))))
        })"

definition sdp_media_format_value :: "bytes \<Rightarrow> int" where
  "sdp_media_format_value w =
     (case w of
        c # r \<Rightarrow> if c = 0x61 then (if r \<noteq> [] \<and> hd r = 0x75 then 1001 else 1004)
                 else if c = 0x76 then 1002 else if c = 0x74 then 1003 else if c = 0x6D then 1005
                 else sint (atoi w)
      | [] \<Rightarrow> sint (atoi w))"

fun format_values :: "sdp_t \<Rightarrow> ptr vec \<Rightarrow> nat \<Rightarrow> nat \<Rightarrow> int list option" where
  "format_values s v i 0 = Some []"
| "format_values s v i (Suc k) = do {
     p \<leftarrow> vec_get N_MEDIA_FORMAT i v;
     w \<leftarrow> str_of s p;
     xs \<leftarrow> format_values s v (Suc i) k;
     Some (sdp_media_format_value w # xs)
   }"

text \<open>The count it returns, and the values it stores. A negative \<open>count\<close> is a huge \<open>size_t\<close>.\<close>

definition sdp_media_formats :: "sdp_t \<Rightarrow> int \<Rightarrow> int \<Rightarrow> (int \<times> int list) option" where
  "sdp_media_formats s i room =
     (case media_at s i of None \<Rightarrow> Some (-1, [])
      | Some m \<Rightarrow> do {
          let n = v_count (m_fmt m);
          xs \<leftarrow> format_values s (m_fmt m) 0 (if room < 0 then n else min (nat room) n);
          Some (int n, xs)
        })"

text \<open>The connection of a media, or else of the session.\<close>

definition media_connection :: "sdp_t \<Rightarrow> int \<Rightarrow> sdp_connection option" where
  "media_connection s i =
     (case media_at s i of
        Some m \<Rightarrow> if v_count (m_c m) > 0 then vec_get N_EMAIL 0 (m_c m) else Some (sdp_c s)
      | None \<Rightarrow> Some (sdp_c s))"

definition sdp_media_get_connection_address :: "sdp_t \<Rightarrow> int \<Rightarrow> int \<Rightarrow> (int \<times> bytes) option" where
  "sdp_media_get_connection_address s i room = do { c \<leftarrow> media_connection s i; connection_address s c room }"

definition sdp_media_get_connection_network :: "sdp_t \<Rightarrow> int \<Rightarrow> int option" where
  "sdp_media_get_connection_network s i = do {
     c \<leftarrow> media_connection s i;
     case c_network c of None \<Rightarrow> Some 0 | Some p \<Rightarrow> map_option network_code (str_at s p)
   }"

definition sdp_media_get_connection_addrtype :: "sdp_t \<Rightarrow> int \<Rightarrow> int option" where
  "sdp_media_get_connection_addrtype s i = do {
     c \<leftarrow> media_connection s i;
     case c_addrtype c of None \<Rightarrow> Some 0 | Some p \<Rightarrow> map_option addrtype_code (str_at s p)
   }"

definition sdp_media_bandwidth_count :: "sdp_t \<Rightarrow> int \<Rightarrow> int" where
  "sdp_media_bandwidth_count s i = (case media_at s i of None \<Rightarrow> 0 | Some m \<Rightarrow> int (v_count (m_b m)))"

definition sdp_media_bandwidth_get_type :: "sdp_t \<Rightarrow> int \<Rightarrow> int \<Rightarrow> ptr option" where
  "sdp_media_bandwidth_get_type s i j =
     (case media_at s i of None \<Rightarrow> Some None | Some m \<Rightarrow> bandwidth_type (m_b m) j)"

definition sdp_media_bandwidth_get_value :: "sdp_t \<Rightarrow> int \<Rightarrow> int \<Rightarrow> int option" where
  "sdp_media_bandwidth_get_value s i j =
     (case media_at s i of None \<Rightarrow> Some (-1) | Some m \<Rightarrow> bandwidth_value s (m_b m) j)"

section \<open>Attributes\<close>

text \<open>From index \<open>i\<close>, so many of them: the value of the first with this name.\<close>

fun attribute_scan :: "sdp_t \<Rightarrow> sdp_attribute vec \<Rightarrow> bytes \<Rightarrow> nat \<Rightarrow> nat \<Rightarrow> ptr option" where
  "attribute_scan s v name i 0 = Some None"
| "attribute_scan s v name i (Suc k) = do {
     a \<leftarrow> vec_get N_ATTRIBUTE i v;
     case a_name a of None \<Rightarrow> attribute_scan s v name (Suc i) k
     | Some p \<Rightarrow> do {
         w \<leftarrow> str_at s p;
         if w = name then Some (a_value a) else attribute_scan s v name (Suc i) k
       }
   }"

text \<open>The pairs handed to the callback, in order.\<close>

fun attribute_calls :: "sdp_t \<Rightarrow> sdp_attribute vec \<Rightarrow> bytes option \<Rightarrow> nat \<Rightarrow> nat \<Rightarrow> (ptr \<times> ptr) list option" where
  "attribute_calls s v name i 0 = Some []"
| "attribute_calls s v name i (Suc k) = do {
     a \<leftarrow> vec_get N_ATTRIBUTE i v;
     hit \<leftarrow> (case name of None \<Rightarrow> Some True
            | Some nm \<Rightarrow> (case a_name a of None \<Rightarrow> Some False | Some p \<Rightarrow> map_option (\<lambda>w. w = nm) (str_at s p)));
     xs \<leftarrow> attribute_calls s v name (Suc i) k;
     Some (if hit then (a_name a, a_value a) # xs else xs)
   }"

definition sdp_attribute_find :: "sdp_t \<Rightarrow> bytes option \<Rightarrow> ptr option" where
  "sdp_attribute_find s name =
     (case name of None \<Rightarrow> Some None | Some w \<Rightarrow> attribute_scan s (sdp_a s) w 0 (v_count (sdp_a s)))"

definition sdp_media_attribute_find :: "sdp_t \<Rightarrow> int \<Rightarrow> bytes option \<Rightarrow> ptr option" where
  "sdp_media_attribute_find s i name =
     (case (name, media_at s i) of
        (Some w, Some m) \<Rightarrow> attribute_scan s (m_a m) w 0 (v_count (m_a m))
      | _ \<Rightarrow> Some None)"

definition sdp_attribute_list :: "sdp_t \<Rightarrow> bytes option \<Rightarrow> (ptr \<times> ptr) list option" where
  "sdp_attribute_list s name = attribute_calls s (sdp_a s) name 0 (v_count (sdp_a s))"

definition sdp_media_attribute_list :: "sdp_t \<Rightarrow> int \<Rightarrow> bytes option \<Rightarrow> (ptr \<times> ptr) list option" where
  "sdp_media_attribute_list s i name =
     (case media_at s i of None \<Rightarrow> Some [] | Some m \<Rightarrow> attribute_calls s (m_a m) name 0 (v_count (m_a m)))"

text \<open>The bound is \<open>idx > count\<close>, as the code has it.\<close>

definition sdp_attribute_get :: "sdp_t \<Rightarrow> int \<Rightarrow> (int \<times> (ptr \<times> ptr) option) option" where
  "sdp_attribute_get s i =
     (if i < 0 \<or> i > int (v_count (sdp_a s)) then Some (-1, None)
      else map_option (\<lambda>a. (0, Some (a_name a, a_value a))) (vec_get N_ATTRIBUTE (nat i) (sdp_a s)))"

section \<open>URIs of RTSP\<close>

fun isAbsoluteURL :: "bytes \<Rightarrow> bool" where
  "isAbsoluteURL [] = False"
| "isAbsoluteURL (c # cs) = (if c = 0x2F then False else if c = 0x3A then True else isAbsoluteURL cs)"

definition slash :: "u8 \<Rightarrow> bool" where "slash c \<longleftrightarrow> c = 0x2F \<or> c = 0x5C"

text \<open>\<open>snprintf(buf, n, "%s", w)\<close>, for \<open>n\<close> above 0, as the string then in the buffer.\<close>

definition snprintf_s :: "nat \<Rightarrow> bytes \<Rightarrow> bytes" where
  "snprintf_s n w = take (n - 1) w"

text \<open>The string in \<open>uri\<close> after the call, which leaves it as it was when the result does not fit.\<close>

definition uri_join :: "bytes \<Rightarrow> nat \<Rightarrow> bytes \<Rightarrow> bytes \<Rightarrow> bytes" where
  "uri_join uri room base path =
     (if length base < 1 \<or> length path < 1 \<or> length base + length path + 2 > room then uri
      else (if slash (last base) then butlast base else base) @ 0x2F # (if slash (hd path) then tl path else path))"

text \<open>One of the three tries: the URI and the local \<open>path\<close>, whose text stays from one try to the next.\<close>

definition uri_try :: "nat \<Rightarrow> bytes option \<Rightarrow> bytes \<times> bytes \<Rightarrow> bytes \<times> bytes" where
  "uri_try room base x = (case x of (uri, path) \<Rightarrow>
     (case base of None \<Rightarrow> (uri, path)
      | Some b \<Rightarrow>
          if \<not> isAbsoluteURL uri \<and> b \<noteq> []
          then (if uri \<noteq> [] then let path = uri_join path 256 b uri in (snprintf_s room path, path)
                else (snprintf_s room b, path))
          else (uri, path)))"

definition CONTROL :: bytes where "CONTROL = [0x63, 0x6F, 0x6E, 0x74, 0x72, 0x6F, 0x6C]"

definition rtsp_get_session_uri :: "sdp_t \<Rightarrow> nat \<Rightarrow> bytes option \<Rightarrow> bytes option \<Rightarrow> bytes option \<Rightarrow> bytes option" where
  "rtsp_get_session_uri s room requri baseuri location = do {
     p \<leftarrow> sdp_attribute_find s (Some CONTROL);
     w \<leftarrow> (case p of None \<Rightarrow> Some [] | Some q \<Rightarrow> str_at s q);
     let w = (if w \<noteq> [] \<and> hd w = 0x2A then [] else w);
     Some (fst (uri_try room requri (uri_try room location (uri_try room baseuri (snprintf_s room w, [])))))
   }"

definition rtsp_media_aggregate_control_enable :: "sdp_t \<Rightarrow> int option" where
  "rtsp_media_aggregate_control_enable s = do {
     p \<leftarrow> sdp_attribute_find s (Some CONTROL);
     w \<leftarrow> (case p of None \<Rightarrow> Some [] | Some q \<Rightarrow> str_at s q);
     Some (if w \<noteq> [] then 1 else 0)
   }"

section \<open>sdp_destroy\<close>

text \<open>The heap blocks of a description, besides the structure and the buffer.\<close>

datatype block = EmailBlock | PhoneBlock | BandwidthBlock | TimingBlock | AttributeBlock | MediaBlock
  | RepeatBlock nat | TimezoneBlock nat | OffsetsBlock nat nat
  | FormatBlock nat | MediaAttributeBlock nat | ConnectionBlock nat | MediaBandwidthBlock nat

definition free_if :: "bool \<Rightarrow> block \<Rightarrow> block list" where
  "free_if b x = (if b then [x] else [])"

fun destroy_timings :: "sdp_t \<Rightarrow> nat \<Rightarrow> nat \<Rightarrow> block list option" where
  "destroy_timings s i 0 = Some []"
| "destroy_timings s i (Suc k) = do {
     t \<leftarrow> sdp_get_timing s i;
     bs \<leftarrow> destroy_timings s (Suc i) k;
     Some (free_if (v_count (t_r t) > N_REPEAT) (RepeatBlock i) @
           free_if (v_count (t_z t) > N_TIMEZONE) (TimezoneBlock i) @ bs)
   }"

fun destroy_medias :: "sdp_t \<Rightarrow> nat \<Rightarrow> nat \<Rightarrow> block list option" where
  "destroy_medias s i 0 = Some []"
| "destroy_medias s i (Suc k) = do {
     m \<leftarrow> sdp_get_media s i;
     bs \<leftarrow> destroy_medias s (Suc i) k;
     Some (free_if (v_count (m_fmt m) > N_MEDIA_FORMAT) (FormatBlock i) @
           free_if (v_count (m_a m) > N_ATTRIBUTE) (MediaAttributeBlock i) @
           free_if (v_count (m_c m) > N_CONNECTION) (ConnectionBlock i) @ bs)
   }"

text \<open>The blocks it frees, in order; the buffer and the structure follow.\<close>

definition sdp_destroy :: "sdp_t \<Rightarrow> block list option" where
  "sdp_destroy s = do {
     ts \<leftarrow> destroy_timings s 0 (v_count (sdp_t s));
     ms \<leftarrow> destroy_medias s 0 (v_count (sdp_m s));
     Some (free_if (v_count (sdp_e s) > N_EMAIL) EmailBlock @ free_if (v_count (sdp_p s) > N_PHONE) PhoneBlock @
           free_if (v_count (sdp_b s) > N_BANDWIDTH) BandwidthBlock @ ts @
           free_if (v_count (sdp_t s) > N_TIMING) TimingBlock @
           free_if (v_count (sdp_a s) > N_ATTRIBUTE) AttributeBlock @ ms @
           free_if (v_count (sdp_m s) > N_MEDIA) MediaBlock)
   }"

end
