(* ===== verification/SdpSpec.thy ===== *)
theory SdpSpec
  imports SdpGet
begin

text \<open>
  What the parser of \<open>Sdp\<close> makes of a well-formed description: the lines are printed, parsed, and every
  field is found behind the pointer the structure holds for it. The relation \<open>sees\<close> says that the
  buffer holds a string, with its NUL, below a bound that later lines do not write under.
\<close>

section \<open>Strings in the buffer\<close>

definition sees :: "bytes \<Rightarrow> nat \<Rightarrow> ptr \<Rightarrow> bytes \<Rightarrow> bool" where
  "sees b q p w \<longleftrightarrow> (\<exists>i. p = Some i \<and> i + length w < q \<and> take (Suc (length w)) (drop i b) = w @ [0] \<and> 0 \<notin> set w)"

fun nuls :: "nat list \<Rightarrow> bytes \<Rightarrow> bytes" where
  "nuls [] b = b"
| "nuls (i # ps) b = (nuls ps b)[i := 0]"

lemma length_nuls [simp]: "length (nuls ps b) = length b"
  by (induction ps) auto

lemma nth_nuls: "i < length b \<Longrightarrow> nuls ps b ! i = (if i \<in> set ps then 0 else b ! i)"
proof (induction ps)
  case (Cons a ps)
  then show ?case by (cases "a = i") auto
qed simp

lemma take_nuls: "\<forall>i\<in>set ps. q \<le> i \<Longrightarrow> take q (nuls ps b) = take q b"
  by (rule nth_equalityI) (auto simp: nth_nuls)

lemma drop_nuls: "\<forall>i\<in>set ps. i < q \<Longrightarrow> drop q (nuls ps b) = drop q b"
  by (rule nth_equalityI) (auto simp: nth_nuls)

lemma sees_frame:
  assumes "sees b q p w" and "take q b' = take q b" and "q \<le> q'"
  shows "sees b' q' p w"
proof -
  obtain i where i: "p = Some i" "i + length w < q" "take (Suc (length w)) (drop i b) = w @ [0]" "0 \<notin> set w"
    using assms(1) by (auto simp: sees_def)
  have "take (Suc (length w)) (drop i b) = drop i (take (i + Suc (length w)) (take q b))"
    using i(2) by (simp add: take_drop min_def add.commute)
  moreover have "take (Suc (length w)) (drop i b') = drop i (take (i + Suc (length w)) (take q b'))"
    using i(2) by (simp add: take_drop min_def add.commute)
  ultimately show ?thesis using i assms(2,3) by (auto simp: sees_def)
qed

lemma sees_nuls:
  assumes d: "drop p b = w @ c # r" and e: "p + length w \<in> set ps"
    and o: "\<forall>i\<in>set ps. i < p \<or> p + length w \<le> i" and z: "0 \<notin> set w" and q: "p + length w < q"
  shows "sees (nuls ps b) q (Some p) w"
proof -
  have "length (drop p b) = length w + 1 + length r" using d by simp
  then have l: "length b = p + (length w + 1 + length r)" by simp
  have n: "b ! (p + j) = (w @ c # r) ! j" for j using d by (metis nth_drop l le_add1)
  have "take (Suc (length w)) (drop p (nuls ps b)) = w @ [0]"
  proof (rule nth_equalityI)
    show "length (take (Suc (length w)) (drop p (nuls ps b))) = length (w @ [0 :: u8])" using l by simp
  next
    fix j assume "j < length (take (Suc (length w)) (drop p (nuls ps b)))"
    then have j: "j < Suc (length w)" by simp
    have "take (Suc (length w)) (drop p (nuls ps b)) ! j = (if p + j \<in> set ps then 0 else b ! (p + j))"
      using j l by (simp add: nth_nuls)
    also have "\<dots> = (w @ [0]) ! j"
    proof (cases "j = length w")
      case True
      then show ?thesis using e by simp
    next
      case False
      then have "j < length w" using j by simp
      moreover from this have "p + j \<notin> set ps" using o by auto
      ultimately show ?thesis using n by (simp add: nth_append)
    qed
    finally show "take (Suc (length w)) (drop p (nuls ps b)) ! j = (w @ [0]) ! j" .
  qed
  then show ?thesis using z q by (auto simp: sees_def)
qed

lemma sees_str_at: "sees (raw s) q p w \<Longrightarrow> str_of s p = Some w"
proof -
  assume "sees (raw s) q p w"
  then obtain i where i: "p = Some i" "take (Suc (length w)) (drop i (raw s)) = w @ [0]" "0 \<notin> set w"
    by (auto simp: sees_def)
  have "drop i (raw s) = (w @ [0]) @ drop (Suc (length w)) (drop i (raw s))"
    using i(2) append_take_drop_id [of "Suc (length w)" "drop i (raw s)"] by simp
  then have "drop i (raw s) = w @ 0 # drop (Suc (length w)) (drop i (raw s))" by simp
  then show ?thesis using i(1,3) c_str_app [of w] by (metis str_of_def str_at_def bind.bind_lunit)
qed

section \<open>Containers\<close>

definition vec_ok :: "nat \<Rightarrow> 'a vec \<Rightarrow> bool" where
  "vec_ok n v \<longleftrightarrow> length (v_fixed v) = n \<and> (\<forall>i<v_count v. vec_get n i v \<noteq> None)"

definition vec_elems :: "nat \<Rightarrow> 'a vec \<Rightarrow> 'a list" where
  "vec_elems n v = map (\<lambda>i. the (vec_get n i v)) [0..<v_count v]"

lemma length_vec_elems [simp]: "length (vec_elems n v) = v_count v"
  by (simp add: vec_elems_def)

lemma vec_ok_vec0 [simp]: "vec_ok n (vec0 n x)" "vec_elems n (vec0 n x) = []"
  by (simp_all add: vec_ok_def vec_elems_def vec0_def)

lemma vec_get_elems: "vec_ok n v \<Longrightarrow> i < v_count v \<Longrightarrow> vec_get n i v = Some (vec_elems n v ! i)"
  by (auto simp: vec_ok_def vec_elems_def)

lemma vec_get_put:
  assumes "vec_put n i x v = Some v'"
  shows "vec_get n j v' = (if j = i then Some x else vec_get n j v)"
    and "v_count v' = v_count v" and "length (v_fixed v') = length (v_fixed v)"
  using assms by (auto simp: vec_put_def vec_get_def nth_list_update split: if_splits)

lemma vec_room_push:
  assumes v: "vec_ok n v" and mem: "\<And>k. mem k"
  obtains v1 where "vec_room mem n v = Inr v1" "v_count v1 = v_count v"
    "\<And>x. \<exists>v2. vec_put n (v_count v) x v1 = Some v2 \<and> v_count v2 = v_count v \<and>
       vec_ok n (vec_inc v2) \<and> vec_elems n (vec_inc v2) = vec_elems n v @ [x]"
proof -
  define v1 where "v1 = (if v_count v \<ge> n \<and> v_count v - n \<ge> length (v_ptr v) then v\<lparr>v_ptr := v_ptr v @ replicate 8 None\<rparr> else v)"
  have room: "vec_room mem n v = Inr v1" using mem by (simp add: vec_room_def v1_def)
  have same: "vec_get n i v1 = vec_get n i v" if "i < v_count v" for i
    using v that by (auto simp: vec_ok_def vec_get_def nth_append v1_def)
  have c1: "v_count v1 = v_count v" "length (v_fixed v1) = n" using v by (auto simp: vec_ok_def v1_def)
  have "v_count v - n \<le> length (v_ptr v)"
  proof (cases "v_count v \<le> n")
    case False
    then have "vec_get n (v_count v - 1) v \<noteq> None" using v by (simp add: vec_ok_def)
    then show ?thesis using False by (auto simp: vec_get_def split: if_splits)
  qed simp
  then have fits: "v_count v \<ge> n \<Longrightarrow> v_count v - n < length (v_ptr v1)" by (auto simp: v1_def)
  have "\<exists>v2. vec_put n (v_count v) x v1 = Some v2 \<and> v_count v2 = v_count v \<and>
       vec_ok n (vec_inc v2) \<and> vec_elems n (vec_inc v2) = vec_elems n v @ [x]" for x
  proof -
    obtain v2 where p: "vec_put n (v_count v) x v1 = Some v2"
      using fits c1 unfolding vec_put_def by (metis not_le_imp_less)
    note g = vec_get_put [OF p]
    have get_inc: "vec_get n i (vec_inc v2) = vec_get n i v2" for i by (simp add: vec_get_def vec_inc_def)
    have cnt: "v_count v2 = v_count v" using g(2) c1 by simp
    have "vec_ok n (vec_inc v2)"
      using v g(3) c1(2) cnt unfolding vec_ok_def get_inc
      by (auto simp: vec_inc_def g(1) same less_Suc_eq)
    moreover have "vec_elems n (vec_inc v2) = vec_elems n v @ [x]"
    proof -
      have "v_count (vec_inc v2) = Suc (v_count v)" by (simp add: vec_inc_def cnt)
      then show ?thesis by (simp add: vec_elems_def get_inc g(1) same)
    qed
    ultimately show ?thesis using p cnt by blast
  qed
  then show ?thesis using that [OF room c1(1)] by blast
qed

lemma vec_set_last:
  assumes v: "vec_ok n v" and c: "0 < v_count v"
  shows "vec_get n (v_count v - 1) v = Some (last (vec_elems n v))"
    and "\<exists>v2. vec_put n (v_count v - 1) x v = Some v2 \<and> v_count v2 = v_count v \<and> vec_ok n v2 \<and>
       vec_elems n v2 = butlast (vec_elems n v) @ [x]"
proof -
  let ?k = "v_count v - 1"
  have k: "?k < v_count v" using c by simp
  have ne: "vec_elems n v \<noteq> []" using c by (metis length_vec_elems length_0_conv less_numeral_extra(3))
  show get: "vec_get n ?k v = Some (last (vec_elems n v))"
    using vec_get_elems [OF v k] ne by (simp add: last_conv_nth)
  obtain v2 where p: "vec_put n ?k x v = Some v2"
    using get v unfolding vec_put_def vec_get_def vec_ok_def by (auto split: if_splits)
  note g = vec_get_put [OF p]
  have "vec_ok n v2" using v g unfolding vec_ok_def by auto
  moreover have "vec_elems n v2 = butlast (vec_elems n v) @ [x]"
  proof (rule nth_equalityI)
    fix i assume "i < length (vec_elems n v2)"
    then show "vec_elems n v2 ! i = (butlast (vec_elems n v) @ [x]) ! i"
      using c by (auto simp: vec_elems_def g nth_append nth_butlast)
  qed (use c g(2) in simp)
  ultimately show "\<exists>v2. vec_put n ?k x v = Some v2 \<and> v_count v2 = v_count v \<and> vec_ok n v2 \<and>
       vec_elems n v2 = butlast (vec_elems n v) @ [x]"
    using p g(2) by blast
qed


section \<open>Descriptions and what the structure holds of them\<close>

record media_desc =
  md_media :: bytes
  md_port :: bytes
  md_proto :: bytes
  md_fmt :: "bytes list"
  md_i :: "bytes option"
  md_c :: "(bytes \<times> bytes \<times> bytes) list"
  md_a :: "(bytes \<times> bytes) list"
  md_b :: "(bytes \<times> bytes) list"
  md_k :: "(bytes \<times> bytes) option"

record desc =
  d_v :: int
  d_o :: "bytes list"
  d_s :: "bytes option"
  d_i :: "bytes option"
  d_u :: "bytes option"
  d_y :: "bytes option"
  d_e :: "bytes list"
  d_p :: "bytes list"
  d_c :: "(bytes \<times> bytes \<times> bytes) option"
  d_b :: "(bytes \<times> bytes) list"
  d_t :: "(bytes \<times> bytes) list"
  d_k :: "(bytes \<times> bytes) option"
  d_a :: "(bytes \<times> bytes) list"
  d_m :: "media_desc list"

definition desc0 :: desc where
  "desc0 = \<lparr>d_v = 0, d_o = [], d_s = None, d_i = None, d_u = None, d_y = None, d_e = [], d_p = [], d_c = None,
     d_b = [], d_t = [], d_k = None, d_a = [], d_m = []\<rparr>"

text \<open>\<open>R p w\<close> is that the pointer \<open>p\<close> has the string \<open>w\<close>.\<close>

type_synonym ptr_rel = "ptr \<Rightarrow> bytes \<Rightarrow> bool"

definition opt_rel :: "ptr_rel \<Rightarrow> ptr \<Rightarrow> bytes option \<Rightarrow> bool" where
  "opt_rel R p x = (case x of None \<Rightarrow> p = None | Some w \<Rightarrow> R p w)"

definition conn_rel :: "ptr_rel \<Rightarrow> sdp_connection \<Rightarrow> bytes \<times> bytes \<times> bytes \<Rightarrow> bool" where
  "conn_rel R c x \<longleftrightarrow> R (c_network c) (fst x) \<and> R (c_addrtype c) (fst (snd x)) \<and> R (c_address c) (snd (snd x))"

definition pair_rel :: "('r \<Rightarrow> ptr) \<Rightarrow> ('r \<Rightarrow> ptr) \<Rightarrow> ptr_rel \<Rightarrow> 'r \<Rightarrow> bytes \<times> bytes \<Rightarrow> bool" where
  "pair_rel f g R r x \<longleftrightarrow> R (f r) (fst x) \<and> R (g r) (snd x)"

abbreviation "attr_rel \<equiv> pair_rel a_name a_value"
abbreviation "band_rel \<equiv> pair_rel b_bwtype b_bandwidth"
abbreviation "time_rel \<equiv> pair_rel t_start t_stop"

definition key_rel :: "ptr_rel \<Rightarrow> sdp_encryption \<Rightarrow> (bytes \<times> bytes) option \<Rightarrow> bool" where
  "key_rel R k x = (case x of None \<Rightarrow> k = encryption0 | Some y \<Rightarrow> pair_rel k_method k_key R k y)"

definition vec_rel :: "('a \<Rightarrow> 'b \<Rightarrow> bool) \<Rightarrow> nat \<Rightarrow> 'a vec \<Rightarrow> 'b list \<Rightarrow> bool" where
  "vec_rel Q n v xs \<longleftrightarrow> vec_ok n v \<and> list_all2 Q (vec_elems n v) xs"

definition media_rel :: "ptr_rel \<Rightarrow> sdp_media \<Rightarrow> media_desc \<Rightarrow> bool" where
  "media_rel R m d \<longleftrightarrow> R (m_media m) (md_media d) \<and> R (m_port m) (md_port d) \<and> R (m_proto m) (md_proto d) \<and>
     vec_rel R N_MEDIA_FORMAT (m_fmt m) (md_fmt d) \<and> opt_rel R (m_i m) (md_i d) \<and>
     vec_rel (conn_rel R) N_CONNECTION (m_c m) (md_c d) \<and> vec_rel (attr_rel R) N_ATTRIBUTE (m_a m) (md_a d) \<and>
     vec_rel (band_rel R) N_BANDWIDTH (m_b m) (md_b d) \<and> key_rel R (m_k m) (md_k d)"

definition origin_ptrs :: "sdp_origin \<Rightarrow> ptr list" where
  "origin_ptrs x = [o_username x, o_session x, o_session_version x, c_network (o_c x), c_addrtype (o_c x), c_address (o_c x)]"

definition origin_rel :: "ptr_rel \<Rightarrow> sdp_origin \<Rightarrow> bytes list \<Rightarrow> bool" where
  "origin_rel R x ws \<longleftrightarrow> (if ws = [] then x = origin0 else list_all2 R (origin_ptrs x) ws)"

definition sess_rel :: "ptr_rel \<Rightarrow> sdp_connection \<Rightarrow> (bytes \<times> bytes \<times> bytes) option \<Rightarrow> bool" where
  "sess_rel R c x = (case x of None \<Rightarrow> c = connection0 | Some y \<Rightarrow> conn_rel R c y)"

definition rel :: "ptr_rel \<Rightarrow> sdp_t \<Rightarrow> desc \<Rightarrow> bool" where
  "rel R s d \<longleftrightarrow> sdp_v s = d_v d \<and> origin_rel R (sdp_o s) (d_o d) \<and> opt_rel R (sdp_s s) (d_s d) \<and>
     opt_rel R (sdp_i s) (d_i d) \<and> opt_rel R (sdp_u s) (d_u d) \<and> opt_rel R (sdp_y s) (d_y d) \<and>
     vec_rel R N_EMAIL (sdp_e s) (d_e d) \<and> vec_rel R N_PHONE (sdp_p s) (d_p d) \<and> sess_rel R (sdp_c s) (d_c d) \<and>
     vec_rel (band_rel R) N_BANDWIDTH (sdp_b s) (d_b d) \<and> vec_rel (time_rel R) N_TIMING (sdp_t s) (d_t d) \<and>
     key_rel R (sdp_k s) (d_k d) \<and> vec_rel (attr_rel R) N_ATTRIBUTE (sdp_a s) (d_a d) \<and>
     vec_rel (media_rel R) N_MEDIA (sdp_m s) (d_m d)"

text \<open>What a structure holds, at the end of the parse.\<close>

definition holds_desc :: "sdp_t \<Rightarrow> desc \<Rightarrow> bool" where
  "holds_desc s d \<longleftrightarrow> rel (sees (raw s) (length (raw s))) s d"

lemma vec_rel_mono: "vec_rel Q n v xs \<Longrightarrow> (\<And>x y. Q x y \<Longrightarrow> Q' x y) \<Longrightarrow> vec_rel Q' n v xs"
  by (auto simp: vec_rel_def elim: list_all2_mono)

lemma small_rels_mono:
  assumes "\<And>p w. R p w \<Longrightarrow> R' p w"
  shows "opt_rel R p x \<Longrightarrow> opt_rel R' p x"
    and "conn_rel R c y \<Longrightarrow> conn_rel R' c y"
    and "pair_rel f g R r z \<Longrightarrow> pair_rel f g R' r z"
    and "key_rel R k u \<Longrightarrow> key_rel R' k u"
    and "sess_rel R c v \<Longrightarrow> sess_rel R' c v"
    and "origin_rel R o' ws \<Longrightarrow> origin_rel R' o' ws"
  using assms
  by (auto simp: opt_rel_def conn_rel_def pair_rel_def key_rel_def sess_rel_def origin_rel_def
      split: option.splits if_splits elim: list_all2_mono)

lemma media_rel_mono:
  assumes m: "\<And>p w. R p w \<Longrightarrow> R' p w" and r: "media_rel R x y"
  shows "media_rel R' x y"
  using r m unfolding media_rel_def
  by (auto intro: small_rels_mono [OF m] elim!: vec_rel_mono)

lemma rel_mono:
  assumes m: "\<And>p w. R p w \<Longrightarrow> R' p w" and r: "rel R s d"
  shows "rel R' s d"
  using r m unfolding rel_def
  by (auto intro: small_rels_mono [OF m] media_rel_mono [OF m] elim!: vec_rel_mono)

lemma vec_rel_count: "vec_rel Q n v xs \<Longrightarrow> v_count v = length xs"
  by (auto simp: vec_rel_def dest: list_all2_lengthD)

lemma vec_rel_vec0 [simp]: "vec_rel Q n (vec0 n x) []"
  by (simp add: vec_rel_def)

lemma rel_sdp0: "rel R (sdp0\<lparr>raw := b\<rparr>) desc0"
  by (simp add: rel_def sdp0_def desc0_def origin_rel_def opt_rel_def sess_rel_def key_rel_def)

text \<open>The last element of a container.\<close>

lemma vec_rel_last:
  assumes "vec_rel Q n v xs" and "xs \<noteq> []"
  shows "vec_get n (v_count v - 1) v = Some (last (vec_elems n v))" and "Q (last (vec_elems n v)) (last xs)"
proof -
  have ok: "vec_ok n v" and l2: "list_all2 Q (vec_elems n v) xs" using assms by (auto simp: vec_rel_def)
  have c: "0 < v_count v" using vec_rel_count [OF assms(1)] assms(2) by simp
  show "vec_get n (v_count v - 1) v = Some (last (vec_elems n v))" by (rule vec_set_last(1) [OF ok c])
  show "Q (last (vec_elems n v)) (last xs)"
    using l2 assms(2) list_all2_nthD2 [OF l2, of "length xs - 1"] list_all2_lengthD [OF l2]
    by (metis diff_less last_conv_nth length_greater_0_conv zero_less_one list_all2_Nil)
qed

section \<open>The tokens on a known input\<close>

abbreviation inp :: "sdp_t \<Rightarrow> bytes" where "inp s \<equiv> drop (offset s) (raw s)"

lemma drop_app: "drop k b = u @ v \<Longrightarrow> drop (k + length u) b = v"
  by (metis add.commute append_eq_conv_conj drop_drop)

lemma drop_in: "drop k b = c # r \<Longrightarrow> k < length b \<and> b ! k = c"
  by (metis drop_eq_Nil linorder_not_le list.distinct(1) nth_via_drop)

lemma current_at: "inp s = c # r \<Longrightarrow> current s = Some c"
  by (simp add: current_def drop_in)

lemma run_length_at:
  assumes "drop k b = w @ c # r" and "\<forall>x\<in>set w. f x" and "\<not> f c"
  shows "run_length f b k = Some (length w)"
proof -
  have "length (drop k b) = length w + 1 + length r" using assms(1) by simp
  then have "k + length w < length b" by simp
  then show ?thesis using assms by (simp add: run_length_def takeWhile_append2 takeWhile_tail)
qed

lemma skip_space_at:
  assumes "inp s = bl @ c # r" and "\<forall>x\<in>set bl. blank x" and "\<not> blank c"
  shows "sdp_skip_space s = Some (s\<lparr>offset := offset s + length bl\<rparr>)"
  using run_length_at [OF assms] by (simp add: sdp_skip_space_def)

definition plain :: "bytes \<Rightarrow> bytes \<Rightarrow> bool" where
  "plain esc w \<longleftrightarrow> (\<forall>x\<in>set w. x \<notin> set esc \<and> x \<noteq> 0)"

lemma token_at:
  assumes "inp s = w @ c # r" and "plain esc w" and "c \<in> set esc"
  shows "sdp_token_word esc s = Some (length w, s\<lparr>offset := offset s + length w\<rparr>)"
  using run_length_at [OF assms(1), of "\<lambda>c. c \<notin> set esc \<and> c \<noteq> 0"] assms(2,3)
  by (simp add: sdp_token_word_def plain_def)

lemma field_at:
  assumes "inp s = bl @ w @ c # r" and "\<forall>x\<in>set bl. blank x" and "\<not> blank (hd (w @ [c]))"
    and "plain esc w" and "c \<in> set esc"
  shows "sdp_field esc s = Some (offset s + length bl, length w, s\<lparr>offset := offset s + length bl + length w\<rparr>)"
proof -
  obtain h t where h: "w @ c # r = h # t" "h = hd (w @ [c])" by (cases w) auto
  have "sdp_skip_space s = Some (s\<lparr>offset := offset s + length bl\<rparr>)"
    using skip_space_at [of s bl h t] assms(1-3) h by simp
  moreover have "sdp_token_word esc (s\<lparr>offset := offset s + length bl\<rparr>) =
      Some (length w, s\<lparr>offset := offset s + length bl + length w\<rparr>)"
    using token_at [of "s\<lparr>offset := offset s + length bl\<rparr>" w c r esc] drop_app [OF assms(1)] assms(4,5) by simp
  ultimately show ?thesis by (simp add: sdp_field_def)
qed

lemma crlf_at:
  assumes "inp s = 0x0D # 0x0A # r"
  shows "sdp_token_crlf s = Some (0, s\<lparr>offset := offset s + 2\<rparr>)"
proof -
  have "inp (step s) = 0x0A # r" using drop_app [of "offset s" "raw s" "[0x0D]"] assms by (simp add: step_def)
  then show ?thesis using current_at [OF assms] current_at [of "step s"]
    by (simp add: sdp_token_crlf_def step_def)
qed

lemma rest_at:
  assumes "inp s = w @ 0x0D # 0x0A # r" and "plain CRLF w"
  shows "sdp_rest s = Some (0, offset s, length w, s\<lparr>offset := offset s + length w + 2\<rparr>)"
  using token_at [OF assms] crlf_at [of "s\<lparr>offset := offset s + length w\<rparr>" r] drop_app [OF assms(1)]
  by (simp add: sdp_rest_def)

lemma put_nul_at: "i < length (raw s) \<Longrightarrow> put_nul i s = Some (s\<lparr>raw := nuls [i] (raw s)\<rparr>)"
  by (simp add: put_nul_def)

lemma trim_right_none: "n = 0 \<or> b ! (p + n - 1) \<noteq> 0x20 \<Longrightarrow> trim_right b p n = n"
  by (cases n) auto

lemma trim_text:
  assumes "drop p b = w @ r" and "w = [] \<or> last w \<noteq> 0x20"
  shows "trim_right b p (length w) = length w"
proof (cases "w = []")
  case False
  have "p + length w - 1 = p + (length w - 1)" using False by (cases w) auto
  moreover have "b ! (p + (length w - 1)) = (w @ r) ! (length w - 1)"
    using assms(1) False by (metis nth_drop drop_eq_Nil append_is_Nil_conv nat_le_linear)
  ultimately show ?thesis using assms(2) False by (intro trim_right_none) (simp add: nth_append last_conv_nth)
qed simp

end
