(* ===== verification/SdpLines.thy ===== *)
theory SdpLines
  imports SdpSpec
begin

text \<open>
  The lines of a description, how they are printed and what each adds, and one lemma for each line that
  is a single text: it takes the relation of \<open>SdpSpec\<close> over the line.
\<close>

section \<open>Lines\<close>

datatype sdp_line =
  VLine nat
| OLine bytes bytes bytes bytes bytes bytes
| SLine bytes | ILine bytes | ULine bytes | YLine bytes | ELine bytes | PLine bytes
| CLine bytes bytes bytes
| BLine bytes bytes
| TLine bytes bytes
| KLine bytes bytes
| ALine bytes bytes
| MLine bytes bytes bytes "bytes list"

fun line_type :: "sdp_line \<Rightarrow> u8" where
  "line_type (VLine n) = 0x76"
| "line_type (OLine a b c d e f) = 0x6F"
| "line_type (SLine w) = 0x73"
| "line_type (ILine w) = 0x69"
| "line_type (ULine w) = 0x75"
| "line_type (YLine w) = 0x79"
| "line_type (ELine w) = 0x65"
| "line_type (PLine w) = 0x70"
| "line_type (CLine a b c) = 0x63"
| "line_type (BLine a b) = 0x62"
| "line_type (TLine a b) = 0x74"
| "line_type (KLine a b) = 0x6B"
| "line_type (ALine a b) = 0x61"
| "line_type (MLine a b c fs) = 0x6D"

definition print_pair :: "bytes \<Rightarrow> bytes \<Rightarrow> bytes" where
  "print_pair a b = (if b = [] then a else a @ 0x3A # b)"

definition print_words :: "bytes list \<Rightarrow> bytes" where
  "print_words ws = concat (map (\<lambda>w. 0x20 # w) ws)"

fun line_body :: "sdp_line \<Rightarrow> bytes" where
  "line_body (VLine n) = print_nat n"
| "line_body (OLine a b c d e f) = a @ print_words [b, c, d, e, f]"
| "line_body (SLine w) = w"
| "line_body (ILine w) = w"
| "line_body (ULine w) = w"
| "line_body (YLine w) = w"
| "line_body (ELine w) = w"
| "line_body (PLine w) = w"
| "line_body (CLine a b c) = a @ print_words [b, c]"
| "line_body (BLine a b) = print_pair a b"
| "line_body (TLine a b) = a @ print_words [b]"
| "line_body (KLine a b) = print_pair a b"
| "line_body (ALine a b) = print_pair a b"
| "line_body (MLine a b c fs) = a @ print_words (b # c # fs)"

definition print_line :: "sdp_line \<Rightarrow> bytes" where
  "print_line l = line_type l # 0x3D # line_body l @ [0x0D, 0x0A]"

text \<open>A word has no blanks; a text may, but neither first nor last.\<close>

definition is_word :: "bytes \<Rightarrow> bool" where
  "is_word w \<longleftrightarrow> w \<noteq> [] \<and> plain BLANKS_CRLF w"

definition is_text :: "bytes \<Rightarrow> bool" where
  "is_text w \<longleftrightarrow> plain CRLF w \<and> (w = [] \<or> \<not> blank (hd w) \<and> last w \<noteq> 0x20)"

fun line_ok :: "sdp_line \<Rightarrow> bool" where
  "line_ok (VLine n) = (n < 2 ^ 31)"
| "line_ok (OLine a b c d e f) = list_all is_word [a, b, c, d, e, f]"
| "line_ok (SLine w) = is_text w"
| "line_ok (ILine w) = is_text w"
| "line_ok (ULine w) = is_text w"
| "line_ok (YLine w) = is_text w"
| "line_ok (ELine w) = is_text w"
| "line_ok (PLine w) = is_text w"
| "line_ok (CLine a b c) = (is_word a \<and> is_word b \<and> is_text c \<and> c \<noteq> [])"
| "line_ok (BLine a b) = (is_text a \<and> 0x3A \<notin> set a \<and> is_text b)"
| "line_ok (TLine a b) = (is_word a \<and> is_text b)"
| "line_ok (KLine a b) = (is_text a \<and> 0x3A \<notin> set a \<and> is_text b)"
| "line_ok (ALine a b) = (is_text a \<and> 0x3A \<notin> set a \<and> is_text b)"
| "line_ok (MLine a b c fs) = (list_all is_word (a # b # c # fs) \<and> length fs \<le> 13)"

text \<open>What a line adds to a description: after a media line, to that media.\<close>

definition on_media :: "(media_desc \<Rightarrow> media_desc) \<Rightarrow> (desc \<Rightarrow> desc) \<Rightarrow> desc \<Rightarrow> desc" where
  "on_media f g d = (if d_m d = [] then g d else d\<lparr>d_m := butlast (d_m d) @ [f (last (d_m d))]\<rparr>)"

text \<open>The loop that skips to field 16 keeps none of the first twelve formats.\<close>

fun apply_line :: "sdp_line \<Rightarrow> desc \<Rightarrow> desc" where
  "apply_line (VLine n) d = d\<lparr>d_v := int n\<rparr>"
| "apply_line (OLine a b c e f g) d = d\<lparr>d_o := [a, b, c, e, f, g]\<rparr>"
| "apply_line (SLine w) d = d\<lparr>d_s := Some w\<rparr>"
| "apply_line (ILine w) d = on_media (\<lambda>m. m\<lparr>md_i := Some w\<rparr>) (\<lambda>d. d\<lparr>d_i := Some w\<rparr>) d"
| "apply_line (ULine w) d = d\<lparr>d_u := Some w\<rparr>"
| "apply_line (YLine w) d = d\<lparr>d_y := Some w\<rparr>"
| "apply_line (ELine w) d = d\<lparr>d_e := d_e d @ [w]\<rparr>"
| "apply_line (PLine w) d = d\<lparr>d_p := d_p d @ [w]\<rparr>"
| "apply_line (CLine a b c) d = on_media (\<lambda>m. m\<lparr>md_c := md_c m @ [(a, b, c)]\<rparr>) (\<lambda>d. d\<lparr>d_c := Some (a, b, c)\<rparr>) d"
| "apply_line (BLine a b) d = on_media (\<lambda>m. m\<lparr>md_b := md_b m @ [(a, b)]\<rparr>) (\<lambda>d. d\<lparr>d_b := d_b d @ [(a, b)]\<rparr>) d"
| "apply_line (TLine a b) d = d\<lparr>d_t := d_t d @ [(a, b)]\<rparr>"
| "apply_line (KLine a b) d = on_media (\<lambda>m. m\<lparr>md_k := Some (a, b)\<rparr>) (\<lambda>d. d\<lparr>d_k := Some (a, b)\<rparr>) d"
| "apply_line (ALine a b) d = on_media (\<lambda>m. m\<lparr>md_a := md_a m @ [(a, b)]\<rparr>) (\<lambda>d. d\<lparr>d_a := d_a d @ [(a, b)]\<rparr>) d"
| "apply_line (MLine a b c fs) d =
     d\<lparr>d_m := d_m d @ [\<lparr>md_media = a, md_port = b, md_proto = c, md_fmt = drop 12 fs, md_i = None,
                 md_c = [], md_a = [], md_b = [], md_k = None\<rparr>]\<rparr>"

section \<open>What a line does to the buffer\<close>

text \<open>The parser stands behind the line; NULs were written inside it; the structure holds the new description.\<close>

definition line_done :: "sdp_t \<Rightarrow> nat \<Rightarrow> desc \<Rightarrow> sdp_t \<Rightarrow> bool" where
  "line_done s n d s' \<longleftrightarrow> offset s' = offset s + n \<and>
     (\<exists>ps. raw s' = nuls ps (raw s) \<and> (\<forall>i\<in>set ps. offset s \<le> i \<and> i < offset s + n)) \<and>
     rel (sees (raw s') (offset s')) s' d"

lemma sees_line:
  assumes "sees (raw s) (offset s) p w" and "raw s' = nuls ps (raw s)" and "\<forall>i\<in>set ps. offset s \<le> i"
    and "offset s \<le> offset s'"
  shows "sees (raw s') (offset s') p w"
  using sees_frame [OF assms(1) _ assms(4)] take_nuls [OF assms(3)] assms(2) by metis

text \<open>A string the line leaves between \<open>p\<close> and its NUL.\<close>

lemma sees_new:
  assumes "drop p (raw s) = w @ c # r" and "plain esc w" and "raw s' = nuls ps (raw s)" and "p + length w \<in> set ps"
    and "\<forall>i\<in>set ps. i < p \<or> p + length w \<le> i" and "p + length w < offset s'"
  shows "sees (raw s') (offset s') (Some p) w"
  using sees_nuls [OF assms(1) assms(4,5) _ assms(6)] assms(2,3) by (auto simp: plain_def)

lemma is_text_plain: "is_text w \<Longrightarrow> plain CRLF w" by (simp add: is_text_def)

lemma is_text_head: "is_text w \<Longrightarrow> \<not> blank (hd (w @ [0x0D]))"
  by (auto simp: is_text_def blank_def hd_append)

lemma is_word_head: "is_word w \<Longrightarrow> \<not> blank (hd (w @ [c]))"
  by (cases w) (auto simp: is_word_def plain_def blank_def)

lemma is_word_plain: "is_word w \<Longrightarrow> plain BLANKS_CRLF w" by (simp add: is_word_def)

section \<open>The lines of one text\<close>

lemma line_doneI:
  assumes "offset s' = offset s + n" "raw s' = nuls ps (raw s)" "\<forall>i\<in>set ps. offset s \<le> i \<and> i < offset s + n"
    and "rel (sees (raw s') (offset s')) s' d"
  shows "line_done s n d s'"
  using assms by (auto simp: line_done_def)

lemma rel_buffer [simp]: "rel R (s\<lparr>raw := b\<rparr>) d = rel R s d" "rel R (s\<lparr>offset := k\<rparr>) d = rel R s d"
  by (simp_all add: rel_def)

text \<open>Updates of the buffer and the offset are kept outermost.\<close>

lemma buffer_last:
  "s\<lparr>raw := b, offset := k\<rparr> = s\<lparr>offset := k, raw := b\<rparr>"
  "s\<lparr>raw := b, sdp_e := ve\<rparr> = s\<lparr>sdp_e := ve, raw := b\<rparr>"
  "s\<lparr>offset := k, sdp_e := ve\<rparr> = s\<lparr>sdp_e := ve, offset := k\<rparr>"
  "s\<lparr>raw := b, sdp_p := ve\<rparr> = s\<lparr>sdp_p := ve, raw := b\<rparr>"
  "s\<lparr>offset := k, sdp_p := ve\<rparr> = s\<lparr>sdp_p := ve, offset := k\<rparr>"
  "s\<lparr>raw := b, sdp_c := vc\<rparr> = s\<lparr>sdp_c := vc, raw := b\<rparr>"
  "s\<lparr>offset := k, sdp_c := vc\<rparr> = s\<lparr>sdp_c := vc, offset := k\<rparr>"
  "s\<lparr>raw := b, sdp_b := vb\<rparr> = s\<lparr>sdp_b := vb, raw := b\<rparr>"
  "s\<lparr>offset := k, sdp_b := vb\<rparr> = s\<lparr>sdp_b := vb, offset := k\<rparr>"
  "s\<lparr>raw := b, sdp_t := vt\<rparr> = s\<lparr>sdp_t := vt, raw := b\<rparr>"
  "s\<lparr>offset := k, sdp_t := vt\<rparr> = s\<lparr>sdp_t := vt, offset := k\<rparr>"
  "s\<lparr>raw := b, sdp_k := vk\<rparr> = s\<lparr>sdp_k := vk, raw := b\<rparr>"
  "s\<lparr>offset := k, sdp_k := vk\<rparr> = s\<lparr>sdp_k := vk, offset := k\<rparr>"
  "s\<lparr>raw := b, sdp_a := va\<rparr> = s\<lparr>sdp_a := va, raw := b\<rparr>"
  "s\<lparr>offset := k, sdp_a := va\<rparr> = s\<lparr>sdp_a := va, offset := k\<rparr>"
  "s\<lparr>raw := b, sdp_m := vm\<rparr> = s\<lparr>sdp_m := vm, raw := b\<rparr>"
  "s\<lparr>offset := k, sdp_m := vm\<rparr> = s\<lparr>sdp_m := vm, offset := k\<rparr>"
  "s\<lparr>raw := b, sdp_o := vo\<rparr> = s\<lparr>sdp_o := vo, raw := b\<rparr>"
  "s\<lparr>offset := k, sdp_o := vo\<rparr> = s\<lparr>sdp_o := vo, offset := k\<rparr>"
  "s\<lparr>offset := k, sdp_v := v\<rparr> = s\<lparr>sdp_v := v, offset := k\<rparr>"
  by simp_all

text \<open>Storing one field.\<close>

lemma rel_store:
  assumes "rel R s d"
  shows "rel R (s\<lparr>sdp_v := v\<rparr>) (d\<lparr>d_v := v\<rparr>)"
    and "origin_rel R x ws \<Longrightarrow> rel R (s\<lparr>sdp_o := x\<rparr>) (d\<lparr>d_o := ws\<rparr>)"
    and "R p w \<Longrightarrow> rel R (s\<lparr>sdp_s := p\<rparr>) (d\<lparr>d_s := Some w\<rparr>)"
    and "R p w \<Longrightarrow> rel R (s\<lparr>sdp_i := p\<rparr>) (d\<lparr>d_i := Some w\<rparr>)"
    and "R p w \<Longrightarrow> rel R (s\<lparr>sdp_u := p\<rparr>) (d\<lparr>d_u := Some w\<rparr>)"
    and "R p w \<Longrightarrow> rel R (s\<lparr>sdp_y := p\<rparr>) (d\<lparr>d_y := Some w\<rparr>)"
    and "vec_rel R N_EMAIL v1 es \<Longrightarrow> rel R (s\<lparr>sdp_e := v1\<rparr>) (d\<lparr>d_e := es\<rparr>)"
    and "vec_rel R N_PHONE v1 es \<Longrightarrow> rel R (s\<lparr>sdp_p := v1\<rparr>) (d\<lparr>d_p := es\<rparr>)"
    and "conn_rel R c y \<Longrightarrow> rel R (s\<lparr>sdp_c := c\<rparr>) (d\<lparr>d_c := Some y\<rparr>)"
    and "vec_rel (band_rel R) N_BANDWIDTH v2 bs \<Longrightarrow> rel R (s\<lparr>sdp_b := v2\<rparr>) (d\<lparr>d_b := bs\<rparr>)"
    and "vec_rel (time_rel R) N_TIMING v3 ts \<Longrightarrow> rel R (s\<lparr>sdp_t := v3\<rparr>) (d\<lparr>d_t := ts\<rparr>)"
    and "pair_rel k_method k_key R k z \<Longrightarrow> rel R (s\<lparr>sdp_k := k\<rparr>) (d\<lparr>d_k := Some z\<rparr>)"
    and "vec_rel (attr_rel R) N_ATTRIBUTE v4 as \<Longrightarrow> rel R (s\<lparr>sdp_a := v4\<rparr>) (d\<lparr>d_a := as\<rparr>)"
    and "vec_rel (media_rel R) N_MEDIA v5 ms \<Longrightarrow> rel R (s\<lparr>sdp_m := v5\<rparr>) (d\<lparr>d_m := ms\<rparr>)"
  using assms by (simp_all add: rel_def opt_rel_def sess_rel_def key_rel_def)

lemma rel_parts:
  assumes "rel R s d"
  shows "vec_rel R N_EMAIL (sdp_e s) (d_e d)" "vec_rel R N_PHONE (sdp_p s) (d_p d)"
    "vec_rel (band_rel R) N_BANDWIDTH (sdp_b s) (d_b d)" "vec_rel (time_rel R) N_TIMING (sdp_t s) (d_t d)"
    "vec_rel (attr_rel R) N_ATTRIBUTE (sdp_a s) (d_a d)" "vec_rel (media_rel R) N_MEDIA (sdp_m s) (d_m d)"
    "opt_rel R (sdp_u s) (d_u d)"
  using assms by (simp_all add: rel_def)

text \<open>
  After NULs at \<open>ps\<close> inside a line of \<open>n\<close> characters: the old strings are still there, and a state
  with this buffer and offset that holds a description is a finished line.
\<close>

definition after_line :: "sdp_t \<Rightarrow> nat \<Rightarrow> nat list \<Rightarrow> ptr_rel" where
  "after_line s n ps = sees (nuls ps (raw s)) (offset s + n)"

lemma after_line_old:
  assumes "rel (sees (raw s) (offset s)) s d" and "\<forall>i\<in>set ps. offset s \<le> i"
  shows "rel (after_line s n ps) s d"
  using rel_mono [OF _ assms(1), of "after_line s n ps"] sees_frame take_nuls [OF assms(2)]
  unfolding after_line_def by (metis le_add1)

lemma after_line_new:
  assumes "drop p (raw s) = w @ c # r" and "plain esc w" and "p + length w \<in> set ps"
    and "\<forall>i\<in>set ps. i < p \<or> p + length w \<le> i" and "p + length w < offset s + n"
  shows "after_line s n ps (Some p) w"
  using sees_nuls [OF assms(1) assms(3,4) _ assms(5)] assms(2) by (auto simp: plain_def after_line_def)

lemma after_line_done:
  assumes "rel (after_line s n ps) s1 d" and "\<forall>i\<in>set ps. offset s \<le> i \<and> i < offset s + n"
    and "raw s2 = nuls ps (raw s)" and "offset s2 = offset s + n" and "rel (after_line s n ps) s1 d = rel (after_line s n ps) s2 d"
  shows "line_done s n d s2"
  using assms by (intro line_doneI [of _ _ _ ps]) (simp_all add: after_line_def)

text \<open>A text to the end of the line.\<close>

lemma rest_line:
  assumes i: "inp s = w @ 0x0D # 0x0A # r" and t: "is_text w" and s1: "raw s1 = raw s" "offset s1 = offset s"
  shows "sdp_rest s1 = Some (0, offset s, length w, s1\<lparr>offset := offset s + length w + 2\<rparr>)"
    and "put_nul (offset s + length w) (s1\<lparr>offset := offset s + length w + 2\<rparr>) =
      Some (s1\<lparr>offset := offset s + length w + 2, raw := nuls [offset s + length w] (raw s)\<rparr>)"
    and "after_line s (length w + 2) [offset s + length w] (Some (offset s)) w"
proof -
  show "sdp_rest s1 = Some (0, offset s, length w, s1\<lparr>offset := offset s + length w + 2\<rparr>)"
    using rest_at [of s1 w r] i is_text_plain [OF t] s1 by simp
  have "length (inp s) = length w + 2 + length r" using i by simp
  then show "put_nul (offset s + length w) (s1\<lparr>offset := offset s + length w + 2\<rparr>) =
      Some (s1\<lparr>offset := offset s + length w + 2, raw := nuls [offset s + length w] (raw s)\<rparr>)"
    using put_nul_at [of "offset s + length w" "s1\<lparr>offset := offset s + length w + 2\<rparr>"] s1 by simp
  show "after_line s (length w + 2) [offset s + length w] (Some (offset s)) w"
    by (rule after_line_new [OF i is_text_plain [OF t]]) simp_all
qed

lemma text_line_done:
  assumes "rel (after_line s (length w + 2) [offset s + length w]) s1 d"
  shows "line_done s (length w + 2) d (s1\<lparr>offset := offset s + length w + 2, raw := nuls [offset s + length w] (raw s)\<rparr>)"
  by (rule after_line_done [OF assms]) simp_all

lemma session_line:
  assumes r: "rel (sees (raw s) (offset s)) s d" and i: "inp s = w @ 0x0D # 0x0A # rs" and t: "is_text w"
  shows "\<exists>s'. sdp_parse_session s = Some (0, s') \<and> line_done s (length w + 2) (d\<lparr>d_s := Some w\<rparr>) s'"
proof -
  let ?s1 = "s\<lparr>sdp_s := Some (offset s)\<rparr>" and ?ps = "[offset s + length w]"
  note l = rest_line [OF i t, of ?s1]
  have "rel (after_line s (length w + 2) ?ps) s d" by (rule after_line_old [OF r]) simp
  then have "rel (after_line s (length w + 2) ?ps) ?s1 (d\<lparr>d_s := Some w\<rparr>)" by (rule rel_store) (use l(3) in simp)
  note text_line_done [OF this]
  then show ?thesis using l(1,2) by (simp add: sdp_parse_session_def del: nuls.simps)
qed


lemma y_line:
  assumes r: "rel (sees (raw s) (offset s)) s d" and i: "inp s = w @ 0x0D # 0x0A # rs" and t: "is_text w"
  shows "\<exists>s'. sdp_parse_y s = Some (0, s') \<and> line_done s (length w + 2) (d\<lparr>d_y := Some w\<rparr>) s'"
proof -
  let ?s1 = "s\<lparr>sdp_y := Some (offset s)\<rparr>" and ?ps = "[offset s + length w]"
  note l = rest_line [OF i t, of ?s1]
  have "rel (after_line s (length w + 2) ?ps) s d" by (rule after_line_old [OF r]) simp
  then have "rel (after_line s (length w + 2) ?ps) ?s1 (d\<lparr>d_y := Some w\<rparr>)" by (rule rel_store) (use l(3) in simp)
  note text_line_done [OF this]
  then show ?thesis using l(1,2) by (simp add: sdp_parse_y_def del: nuls.simps)
qed

lemma uri_line:
  assumes r: "rel (sees (raw s) (offset s)) s d" and i: "inp s = w @ 0x0D # 0x0A # rs" and t: "is_text w"
    and u: "d_u d = None"
  shows "\<exists>s'. sdp_parse_uri s = Some (0, s') \<and> line_done s (length w + 2) (d\<lparr>d_u := Some w\<rparr>) s'"
proof -
  let ?s1 = "s\<lparr>sdp_u := Some (offset s)\<rparr>" and ?ps = "[offset s + length w]"
  note l = rest_line [OF i t, of ?s1]
  have n: "sdp_u s = None" using rel_parts(7) [OF r] u by (simp add: opt_rel_def)
  have "rel (after_line s (length w + 2) ?ps) s d" by (rule after_line_old [OF r]) simp
  then have "rel (after_line s (length w + 2) ?ps) ?s1 (d\<lparr>d_u := Some w\<rparr>)" by (rule rel_store) (use l(3) in simp)
  note text_line_done [OF this]
  then show ?thesis using l(1,2) n by (simp add: sdp_parse_uri_def del: nuls.simps)
qed

text \<open>The last media, storing into it, and appending to a container.\<close>

lemma media_get:
  assumes "rel R s d" and "d_m d \<noteq> []"
  obtains m where "v_count (sdp_m s) > 0" "vec_get N_MEDIA (v_count (sdp_m s) - 1) (sdp_m s) = Some m"
    "media_rel R m (last (d_m d))"
proof -
  note v = rel_parts(6) [OF assms(1)]
  have c: "v_count (sdp_m s) > 0" using vec_rel_count [OF v] assms(2) by simp
  show ?thesis by (rule that [OF c vec_rel_last(1,2) [OF v assms(2)]])
qed

lemma put_last:
  assumes "vec_rel Q n v xs" and "xs \<noteq> []" and "Q x y"
  obtains v2 where "vec_put n (v_count v - 1) x v = Some v2" "vec_rel Q n v2 (butlast xs @ [y])"
proof -
  have ok: "vec_ok n v" and l2: "list_all2 Q (vec_elems n v) xs" using assms(1) by (auto simp: vec_rel_def)
  have c: "0 < v_count v" using vec_rel_count [OF assms(1)] assms(2) by simp
  obtain v2 where v2: "vec_put n (v_count v - 1) x v = Some v2" "vec_ok n v2"
      "vec_elems n v2 = butlast (vec_elems n v) @ [x]"
    using vec_set_last(2) [OF ok c] by blast
  have "list_all2 Q (butlast (vec_elems n v)) (butlast xs)"
    using l2 vec_rel_count [OF assms(1)] by (simp add: butlast_conv_take list_all2_takeI)
  then have "vec_rel Q n v2 (butlast xs @ [y])" using v2(2,3) assms(3) by (simp add: vec_rel_def list_all2_appendI)
  then show ?thesis by (rule that [OF v2(1)])
qed

lemma media_store:
  assumes "rel R s d" and "d_m d \<noteq> []" and "media_rel R m' md"
  obtains v where "vec_put N_MEDIA (v_count (sdp_m s) - 1) m' (sdp_m s) = Some v"
    "rel R (s\<lparr>sdp_m := v\<rparr>) (d\<lparr>d_m := butlast (d_m d) @ [md]\<rparr>)"
proof -
  note v = rel_parts(6) [OF assms(1)]
  obtain v2 where v2: "vec_put N_MEDIA (v_count (sdp_m s) - 1) m' (sdp_m s) = Some v2"
      and q: "vec_rel (media_rel R) N_MEDIA v2 (butlast (d_m d) @ [md])"
    by (rule put_last [where x = m', OF v assms(2,3)])
  show ?thesis by (rule that [OF v2 rel_store(14) [where s = s and d = d, OF assms(1) q]])
qed

lemma push_at:
  assumes "vec_rel Q n v xs" and "Q x y" and "\<And>k. mem k"
  obtains v1 v2 where "vec_room mem n v = Inr v1" "v_count v1 = v_count v" "vec_put n (v_count v) x v1 = Some v2"
    "vec_rel Q n (vec_inc v2) (xs @ [y])"
proof -
  have v: "vec_ok n v" using assms(1) by (simp add: vec_rel_def)
  obtain v1 where v1: "vec_room mem n v = Inr v1" "v_count v1 = v_count v"
    and put: "\<exists>v2. vec_put n (v_count v) x v1 = Some v2 \<and> v_count v2 = v_count v \<and>
       vec_ok n (vec_inc v2) \<and> vec_elems n (vec_inc v2) = vec_elems n v @ [x]"
    using vec_room_push [OF v, of mem] assms(3) by metis
  obtain v2 where v2: "vec_put n (v_count v) x v1 = Some v2" "vec_ok n (vec_inc v2)"
      "vec_elems n (vec_inc v2) = vec_elems n v @ [x]"
    using put by blast
  have "vec_rel Q n (vec_inc v2) (xs @ [y])"
    using v2 assms(1,2) by (simp add: vec_rel_def list_all2_appendI)
  then show ?thesis by (rule that [OF v1 v2(1)])
qed

lemma get_last_media:
  "v_count (sdp_m s) > 0 \<Longrightarrow> vec_get N_MEDIA (v_count (sdp_m s) - 1) (sdp_m s) = Some m \<Longrightarrow>
   sdp_get_media s (v_count (sdp_m s) - 1) = Some m"
  by (simp add: sdp_get_media_def)

lemma information_line:
  assumes r: "rel (sees (raw s) (offset s)) s d" and i: "inp s = w @ 0x0D # 0x0A # rs" and t: "is_text w"
  shows "\<exists>s'. sdp_parse_information s = Some (0, s') \<and> line_done s (length w + 2) (apply_line (ILine w) d) s'"
proof -
  let ?ps = "[offset s + length w]" and ?R = "after_line s (length w + 2) [offset s + length w]"
  have old: "rel ?R s d" by (rule after_line_old [OF r]) simp
  show ?thesis
  proof (cases "d_m d = []")
    case True
    let ?s1 = "s\<lparr>sdp_i := Some (offset s)\<rparr>"
    note l = rest_line [OF i t, of ?s1]
    have c: "v_count (sdp_m s) = 0" using vec_rel_count [OF rel_parts(6) [OF r]] True by simp
    have new: "rel ?R ?s1 (d\<lparr>d_i := Some w\<rparr>)" by (rule rel_store(4) [OF old]) (use l(3) in simp)
    have d: "apply_line (ILine w) d = d\<lparr>d_i := Some w\<rparr>" using True by (simp add: on_media_def)
    show ?thesis using text_line_done [OF new] l(1,2) c unfolding d
      by (simp add: sdp_parse_information_def del: nuls.simps)
  next
    case False
    obtain m where m: "v_count (sdp_m s) > 0" "vec_get N_MEDIA (v_count (sdp_m s) - 1) (sdp_m s) = Some m"
        "media_rel ?R m (last (d_m d))"
      by (rule media_get [OF old False])
    have n: "?R (Some (offset s)) w" using rest_line(3) [OF i t refl refl] .
    have mr: "media_rel ?R (m\<lparr>m_i := Some (offset s)\<rparr>) ((last (d_m d))\<lparr>md_i := Some w\<rparr>)"
      using m(3) n by (simp add: media_rel_def opt_rel_def)
    obtain v where v: "vec_put N_MEDIA (v_count (sdp_m s) - 1) (m\<lparr>m_i := Some (offset s)\<rparr>) (sdp_m s) = Some v"
      and new: "rel ?R (s\<lparr>sdp_m := v\<rparr>) (d\<lparr>d_m := butlast (d_m d) @ [(last (d_m d))\<lparr>md_i := Some w\<rparr>]\<rparr>)"
      by (rule media_store [OF old False mr])
    note l = rest_line [OF i t, of "s\<lparr>sdp_m := v\<rparr>"]
    have d: "apply_line (ILine w) d = d\<lparr>d_m := butlast (d_m d) @ [(last (d_m d))\<lparr>md_i := Some w\<rparr>]\<rparr>"
      using False by (simp add: on_media_def)
    show ?thesis using text_line_done [OF new] l(1,2) m(1) v get_last_media [OF m(1,2)] unfolding d
      by (simp add: sdp_parse_information_def put_media_def del: nuls.simps)
  qed
qed

lemma email_line:
  assumes r: "rel (sees (raw s) (offset s)) s d" and i: "inp s = w @ 0x0D # 0x0A # rs" and t: "is_text w"
    and mem: "\<And>n. mem n"
  shows "\<exists>s'. sdp_parse_email mem s = Some (0, s') \<and> line_done s (length w + 2) (d\<lparr>d_e := d_e d @ [w]\<rparr>) s'"
proof -
  let ?ps = "[offset s + length w]" and ?R = "after_line s (length w + 2) [offset s + length w]"
  have old: "rel ?R s d" by (rule after_line_old [OF r]) simp
  have n: "?R (Some (offset s)) w" using rest_line(3) [OF i t refl refl] .
  obtain v1 v2 where v1: "vec_room mem N_EMAIL (sdp_e s) = Inr v1" "v_count v1 = v_count (sdp_e s)"
    and v2: "vec_put N_EMAIL (v_count (sdp_e s)) (Some (offset s)) v1 = Some v2"
    and pr: "vec_rel ?R N_EMAIL (vec_inc v2) (d_e d @ [w])"
    by (rule push_at [where mem = mem, OF rel_parts(1) [OF old] n mem])
  note l = rest_line [OF i t, of "s\<lparr>sdp_e := v2\<rparr>"]
  have "rel ?R (s\<lparr>sdp_e := vec_inc v2\<rparr>) (d\<lparr>d_e := d_e d @ [w]\<rparr>)"
    by (rule rel_store(7) [OF old pr])
  then have "line_done s (length w + 2) (d\<lparr>d_e := d_e d @ [w]\<rparr>)
      (s\<lparr>sdp_e := vec_inc v2, offset := offset s + length w + 2, raw := nuls ?ps (raw s)\<rparr>)"
    by (rule text_line_done)
  then show ?thesis using l(1,2) v1 v2 by (simp add: sdp_parse_email_def buffer_last del: nuls.simps)
qed

lemma phone_line:
  assumes r: "rel (sees (raw s) (offset s)) s d" and i: "inp s = w @ 0x0D # 0x0A # rs" and t: "is_text w"
    and mem: "\<And>n. mem n"
  shows "\<exists>s'. sdp_parse_phone mem s = Some (0, s') \<and> line_done s (length w + 2) (d\<lparr>d_p := d_p d @ [w]\<rparr>) s'"
proof -
  let ?ps = "[offset s + length w]" and ?R = "after_line s (length w + 2) [offset s + length w]"
  have old: "rel ?R s d" by (rule after_line_old [OF r]) simp
  have n: "?R (Some (offset s)) w" using rest_line(3) [OF i t refl refl] .
  obtain v1 v2 where v1: "vec_room mem N_PHONE (sdp_p s) = Inr v1" "v_count v1 = v_count (sdp_p s)"
    and v2: "vec_put N_PHONE (v_count (sdp_p s)) (Some (offset s)) v1 = Some v2"
    and pr: "vec_rel ?R N_PHONE (vec_inc v2) (d_p d @ [w])"
    by (rule push_at [where mem = mem, OF rel_parts(2) [OF old] n mem])
  note l = rest_line [OF i t, of "s\<lparr>sdp_p := v2\<rparr>"]
  have tr: "trim_right (raw s) (offset s) (length w) = length w"
    by (rule trim_text [OF i]) (use t in \<open>auto simp: is_text_def\<close>)
  have "rel ?R (s\<lparr>sdp_p := vec_inc v2\<rparr>) (d\<lparr>d_p := d_p d @ [w]\<rparr>)"
    by (rule rel_store(8) [OF old pr])
  then have "line_done s (length w + 2) (d\<lparr>d_p := d_p d @ [w]\<rparr>)
      (s\<lparr>sdp_p := vec_inc v2, offset := offset s + length w + 2, raw := nuls ?ps (raw s)\<rparr>)"
    by (rule text_line_done)
  then show ?thesis using l(1,2) v1 v2 tr by (simp add: sdp_parse_phone_def buffer_last del: nuls.simps)
qed

end
