(* ===== verification/SdpFields.thy ===== *)
theory SdpFields
  imports SdpLines
begin

text \<open>The lines with several fields: versions, origins, connections, times, pairs and media.\<close>

section \<open>Fields at known places\<close>

lemma first_word:
  assumes "inp s = w @ c # r" and "is_word w" and "c \<in> set BLANKS_CRLF"
  shows "sdp_field BLANKS_CRLF s = Some (offset s, length w, s\<lparr>offset := offset s + length w\<rparr>)"
    and "drop (offset s + length w) (raw s) = c # r"
  using field_at [of s "[]" w c r BLANKS_CRLF] is_word_head [OF assms(2)] is_word_plain [OF assms(2)] assms(1,3)
    drop_app [OF assms(1)] by simp_all

lemma next_word:
  assumes "drop e (raw s) = 0x20 # w @ c # r" and "is_word w" and "c \<in> set BLANKS_CRLF"
  shows "sdp_field BLANKS_CRLF (s\<lparr>offset := e\<rparr>) = Some (e + 1, length w, s\<lparr>offset := e + 1 + length w\<rparr>)"
    and "drop (e + 1) (raw s) = w @ c # r" and "drop (e + 1 + length w) (raw s) = c # r"
proof -
  show 1: "drop (e + 1) (raw s) = w @ c # r" using drop_app [of e "raw s" "[0x20]"] assms(1) by simp
  show "drop (e + 1 + length w) (raw s) = c # r" by (rule drop_app [OF 1])
  show "sdp_field BLANKS_CRLF (s\<lparr>offset := e\<rparr>) = Some (e + 1, length w, s\<lparr>offset := e + 1 + length w\<rparr>)"
    using field_at [of "s\<lparr>offset := e\<rparr>" "[0x20]" w c r BLANKS_CRLF] is_word_head [OF assms(2)] is_word_plain [OF assms(2)]
      assms(1,3) by (simp add: blank_def)
qed

text \<open>The text that ends the line, after a blank or at once.\<close>

lemma next_text:
  assumes "drop e (raw s) = 0x20 # w @ 0x0D # r" and "is_text w"
  shows "sdp_field CRLF (s\<lparr>offset := e\<rparr>) = Some (e + 1, length w, s\<lparr>offset := e + 1 + length w\<rparr>)"
    and "drop (e + 1) (raw s) = w @ 0x0D # r" and "drop (e + 1 + length w) (raw s) = 0x0D # r"
    and "trim_right (raw s) (e + 1) (length w) = length w"
proof -
  show 1: "drop (e + 1) (raw s) = w @ 0x0D # r" using drop_app [of e "raw s" "[0x20]"] assms(1) by simp
  show "drop (e + 1 + length w) (raw s) = 0x0D # r" by (rule drop_app [OF 1])
  show "sdp_field CRLF (s\<lparr>offset := e\<rparr>) = Some (e + 1, length w, s\<lparr>offset := e + 1 + length w\<rparr>)"
    using field_at [of "s\<lparr>offset := e\<rparr>" "[0x20]" w "0x0D" r CRLF] is_text_head [OF assms(2)] is_text_plain [OF assms(2)]
      assms(1) by (simp add: blank_def)
  show "trim_right (raw s) (e + 1) (length w) = length w"
    by (rule trim_text [OF 1]) (use assms(2) in \<open>auto simp: is_text_def\<close>)
qed

lemma text_here:
  assumes "inp s = w @ c # r" and "is_text w" and "plain esc w" and "c \<in> set esc" and "\<not> blank c"
  shows "sdp_field esc s = Some (offset s, length w, s\<lparr>offset := offset s + length w\<rparr>)"
    and "drop (offset s + length w) (raw s) = c # r"
    and "trim_right (raw s) (offset s) (length w) = length w"
proof -
  have "\<not> blank (hd (w @ [c]))" using assms(2,5) by (auto simp: is_text_def hd_append)
  then show "sdp_field esc s = Some (offset s, length w, s\<lparr>offset := offset s + length w\<rparr>)"
    using field_at [of s "[]" w c r esc] assms(1,3,4) by simp
  show "drop (offset s + length w) (raw s) = c # r" by (rule drop_app [OF assms(1)])
  show "trim_right (raw s) (offset s) (length w) = length w"
    by (rule trim_text [OF assms(1)]) (use assms(2) in \<open>auto simp: is_text_def\<close>)
qed

lemma put_nul_nuls: "i < length b \<Longrightarrow> raw s = nuls ps b \<Longrightarrow> put_nul i s = Some (s\<lparr>raw := nuls (i # ps) b\<rparr>)"
  by (simp add: put_nul_def)

lemma crlf_here: "drop e (raw s) = 0x0D # 0x0A # r \<Longrightarrow> sdp_token_crlf (s\<lparr>offset := e\<rparr>) = Some (0, s\<lparr>offset := e + 2\<rparr>)"
  using crlf_at [of "s\<lparr>offset := e\<rparr>" r] by simp

text \<open>Three fields: the strings are there and nothing before them has changed.\<close>

lemma connection_fields_steps:
  "sdp_field BLANKS_CRLF s = Some (p, k, sa) \<Longrightarrow> sdp_field BLANKS_CRLF sa = Some (q, l, sb) \<Longrightarrow>
   sdp_field CRLF sb = Some (r, m, sc) \<Longrightarrow> trim_right (raw sc) r m = m \<Longrightarrow> k > 0 \<Longrightarrow> l > 0 \<Longrightarrow> m > 0 \<Longrightarrow>
   sdp_token_crlf sc = Some (0, sd) \<Longrightarrow> put_nul (p + k) sd = Some se \<Longrightarrow> put_nul (q + l) se = Some sf \<Longrightarrow>
   put_nul (r + m) sf = Some sg \<Longrightarrow>
   connection_fields s = Some (True, \<lparr>c_network = Some p, c_addrtype = Some q, c_address = Some r\<rparr>, sg)"
  by (simp add: connection_fields_def Let_def)

lemma put_nul_next:
  "i < length (raw s) \<Longrightarrow> put_nul i (s\<lparr>offset := k, raw := nuls ps (raw s)\<rparr>) = Some (s\<lparr>offset := k, raw := nuls (i # ps) (raw s)\<rparr>)"
  "i < length (raw s) \<Longrightarrow> put_nul i (s\<lparr>offset := k\<rparr>) = Some (s\<lparr>offset := k, raw := nuls [i] (raw s)\<rparr>)"
  by (simp_all add: put_nul_def)

lemma connection_fields_at:
  assumes i: "inp s = (a @ print_words [b, c]) @ 0x0D # 0x0A # r"
    and w: "is_word a" "is_word b" "is_text c" "c \<noteq> []"
  shows "\<exists>ps x. connection_fields s =
      Some (True, x, s\<lparr>offset := offset s + (length (a @ print_words [b, c]) + 2), raw := nuls ps (raw s)\<rparr>) \<and>
    (\<forall>i\<in>set ps. offset s \<le> i \<and> i < offset s + (length (a @ print_words [b, c]) + 2)) \<and>
    conn_rel (after_line s (length (a @ print_words [b, c]) + 2) ps) x (a, b, c)"
proof -
  let ?q = "offset s" and ?n = "length (a @ print_words [b, c]) + 2"
  let ?e0 = "?q + length a" let ?e1 = "?e0 + 1 + length b" let ?e2 = "?e1 + 1 + length c"
  let ?ps = "[?e2, ?e1, ?e0]"
  have l: "length (inp s) = ?n + length r" using i by simp
  have i0: "inp s = a @ 0x20 # b @ 0x20 # c @ 0x0D # 0x0A # r" using i by (simp add: print_words_def)
  have n: "?q + ?n = ?e2 + 2" by (simp add: print_words_def)
  have len: "?e2 < length (raw s)" "?e1 < length (raw s)" "?e0 < length (raw s)" using l n unfolding length_drop by linarith+
  note f0 = first_word [OF i0 w(1)]
  note f1 = next_word [where s = s, OF f0(2) w(2)]
  note f2 = next_text [where s = s, OF f1(3) w(3)]
  have pos: "length a > 0" "length b > 0" "length c > 0" using w by (auto simp: is_word_def)
  let ?x = "\<lparr>c_network = Some ?q, c_addrtype = Some (?e0 + 1), c_address = Some (?e1 + 1)\<rparr>"
  have pf: "connection_fields s = Some (True, ?x, s\<lparr>offset := ?e2 + 2, raw := nuls ?ps (raw s)\<rparr>)"
    by (rule connection_fields_steps [OF f0(1) f1(1) f2(1) _ pos crlf_here [OF f2(3)] put_nul_next(2) [OF len(3)]
        put_nul_next(1) [OF len(2)] put_nul_next(1) [OF len(1)]]) (use f2(4) in simp_all)
  have A: "conn_rel (after_line s ?n ?ps) ?x (a, b, c)"
    unfolding conn_rel_def
    using after_line_new [OF i0 is_word_plain [OF w(1)], of ?ps ?n] after_line_new [OF f1(2) is_word_plain [OF w(2)], of ?ps ?n]
      after_line_new [OF f2(2) is_text_plain [OF w(3)], of ?ps ?n] n by simp
  have B: "\<forall>i\<in>set ?ps. ?q \<le> i \<and> i < ?q + ?n" using n by simp
  show ?thesis using pf unfolding n [symmetric] by (intro exI conjI) (assumption, rule B, rule A)
qed


lemma connection_line:
  assumes r: "rel (sees (raw s) (offset s)) s d" and i: "inp s = (a @ print_words [b, c]) @ 0x0D # 0x0A # rs"
    and w: "is_word a" "is_word b" "is_text c" "c \<noteq> []" and mem: "\<And>n. mem n"
  shows "\<exists>s'. sdp_parse_connection mem s = Some (0, s') \<and>
    line_done s (length (a @ print_words [b, c]) + 2) (apply_line (CLine a b c) d) s'"
proof -
  let ?n = "length (a @ print_words [b, c]) + 2"
  obtain ps x where cf: "connection_fields s = Some (True, x, s\<lparr>offset := offset s + ?n, raw := nuls ps (raw s)\<rparr>)"
    and ps: "\<forall>i\<in>set ps. offset s \<le> i \<and> i < offset s + ?n" and cr: "conn_rel (after_line s ?n ps) x (a, b, c)"
    using connection_fields_at [OF i w] by blast
  let ?R = "after_line s ?n ps"
  have old: "rel ?R s d" by (rule after_line_old [OF r]) (use ps in simp)
  show ?thesis
  proof (cases "d_m d = []")
    case True
    have k: "v_count (sdp_m s) = 0" using vec_rel_count [OF rel_parts(6) [OF r]] True by simp
    have new: "rel ?R (s\<lparr>sdp_c := x\<rparr>) (d\<lparr>d_c := Some (a, b, c)\<rparr>)" by (rule rel_store(9) [OF old cr])
    have d: "apply_line (CLine a b c) d = d\<lparr>d_c := Some (a, b, c)\<rparr>" using True by (simp add: on_media_def)
    have "line_done s ?n (d\<lparr>d_c := Some (a, b, c)\<rparr>) (s\<lparr>sdp_c := x, offset := offset s + ?n, raw := nuls ps (raw s)\<rparr>)"
      by (rule after_line_done [OF new ps]) simp_all
    then show ?thesis using k cf unfolding d by (simp add: sdp_parse_connection_def buffer_last)
  next
    case False
    obtain m where m: "v_count (sdp_m s) > 0" "vec_get N_MEDIA (v_count (sdp_m s) - 1) (sdp_m s) = Some m"
        "media_rel ?R m (last (d_m d))"
      by (rule media_get [OF old False])
    have vm: "vec_rel (conn_rel ?R) N_CONNECTION (m_c m) (md_c (last (d_m d)))" using m(3) by (simp add: media_rel_def)
    obtain v1 v2 where v1: "vec_room mem N_CONNECTION (m_c m) = Inr v1" "v_count v1 = v_count (m_c m)"
      and v2: "vec_put N_CONNECTION (v_count (m_c m)) x v1 = Some v2"
      and pr: "vec_rel (conn_rel ?R) N_CONNECTION (vec_inc v2) (md_c (last (d_m d)) @ [(a, b, c)])"
      by (rule push_at [where mem = mem, OF vm cr mem])
    let ?md = "(last (d_m d))\<lparr>md_c := md_c (last (d_m d)) @ [(a, b, c)]\<rparr>"
    have mr: "media_rel ?R (m\<lparr>m_c := vec_inc v2\<rparr>) ?md" using m(3) pr by (simp add: media_rel_def)
    obtain v where v: "vec_put N_MEDIA (v_count (sdp_m s) - 1) (m\<lparr>m_c := vec_inc v2\<rparr>) (sdp_m s) = Some v"
      and new: "rel ?R (s\<lparr>sdp_m := v\<rparr>) (d\<lparr>d_m := butlast (d_m d) @ [?md]\<rparr>)"
      by (rule media_store [OF old False mr])
    have d: "apply_line (CLine a b c) d = d\<lparr>d_m := butlast (d_m d) @ [?md]\<rparr>" using False by (simp add: on_media_def)
    have "line_done s ?n (d\<lparr>d_m := butlast (d_m d) @ [?md]\<rparr>) (s\<lparr>sdp_m := v, offset := offset s + ?n, raw := nuls ps (raw s)\<rparr>)"
      by (rule after_line_done [OF new ps]) simp_all
    then show ?thesis using m(1) cf v1 v2 v get_last_media [OF m(1,2)] unfolding d
      by (simp add: sdp_parse_connection_def put_media_def buffer_last)
  qed
qed

section \<open>Pairs\<close>

lemma pair_fields_steps:
  "sdp_field COLON_CRLF s = Some (p, k, sa) \<Longrightarrow> trim_right (raw sa) p k = k \<Longrightarrow> current sa = Some c \<Longrightarrow>
   sdp_field CRLF (if c = 0x3A then step sa else sa) = Some (q, l, sb) \<Longrightarrow> trim_right (raw sb) q l = l \<Longrightarrow>
   sdp_token_crlf sb = Some (0, sc) \<Longrightarrow> put_nul (p + k) sc = Some sd \<Longrightarrow> put_nul (q + l) sd = Some se \<Longrightarrow>
   pair_fields s = Some (0, p, q, se)"
  by (simp add: pair_fields_def Let_def)

lemma pair_fields_at:
  assumes i: "inp s = print_pair a b @ 0x0D # 0x0A # r" and t: "is_text a" "0x3A \<notin> set a" "is_text b"
  shows "\<exists>ps p0 p1. pair_fields s =
      Some (0, p0, p1, s\<lparr>offset := offset s + (length (print_pair a b) + 2), raw := nuls ps (raw s)\<rparr>) \<and>
    (\<forall>i\<in>set ps. offset s \<le> i \<and> i < offset s + (length (print_pair a b) + 2)) \<and>
    after_line s (length (print_pair a b) + 2) ps (Some p0) a \<and> after_line s (length (print_pair a b) + 2) ps (Some p1) b"
proof -
  let ?q = "offset s" and ?e0 = "offset s + length a" and ?n = "length (print_pair a b) + 2"
  have pa: "plain COLON_CRLF a" using t(1,2) by (auto simp: is_text_def plain_def)
  have l: "length (inp s) = ?n + length r" using i by simp
  show ?thesis
  proof (cases "b = []")
    case True
    then have i0: "inp s = a @ 0x0D # 0x0A # r" and n: "?n = length a + 2" using i by (simp_all add: print_pair_def)
    note f0 = text_here [OF i0 t(1) pa]
    have i1: "inp (s\<lparr>offset := ?e0\<rparr>) = [] @ 0x0D # 0x0A # r" using f0(2) by (simp add: blank_def)
    have e: "is_text []" "plain CRLF []" by (simp_all add: is_text_def plain_def)
    note f1 = text_here [OF i1 e]
    have len: "?e0 < length (raw s)" using l n unfolding length_drop by linarith
    let ?ps = "[?e0, ?e0]"
    have c: "current (s\<lparr>offset := ?e0\<rparr>) = Some 0x0D" using current_at [of "s\<lparr>offset := ?e0\<rparr>"] i1 by simp
    have pf: "pair_fields s = Some (0, ?q, ?e0, s\<lparr>offset := ?e0 + 2, raw := nuls ?ps (raw s)\<rparr>)"
    proof (rule pair_fields_steps [where k = "length a" and l = 0 and c = "0x0D"])
      show "sdp_field COLON_CRLF s = Some (?q, length a, s\<lparr>offset := ?e0\<rparr>)" using f0(1) by (simp add: blank_def)
      show "trim_right (raw (s\<lparr>offset := ?e0\<rparr>)) ?q (length a) = length a" using f0(3) by (simp add: blank_def)
      show "current (s\<lparr>offset := ?e0\<rparr>) = Some 0x0D" by (rule c)
      show "sdp_field CRLF (if (0x0D :: u8) = 0x3A then step (s\<lparr>offset := ?e0\<rparr>) else s\<lparr>offset := ?e0\<rparr>) =
          Some (?e0, 0, s\<lparr>offset := ?e0\<rparr>)" using f1(1) by (simp add: blank_def)
      show "sdp_token_crlf (s\<lparr>offset := ?e0\<rparr>) = Some (0, s\<lparr>offset := ?e0 + 2\<rparr>)" by (rule crlf_here) (use i1 in simp)
      show "put_nul (?q + length a) (s\<lparr>offset := ?e0 + 2\<rparr>) = Some (s\<lparr>offset := ?e0 + 2, raw := nuls [?e0] (raw s)\<rparr>)"
        by (rule put_nul_next(2) [OF len])
      show "put_nul (?e0 + 0) (s\<lparr>offset := ?e0 + 2, raw := nuls [?e0] (raw s)\<rparr>) =
          Some (s\<lparr>offset := ?e0 + 2, raw := nuls ?ps (raw s)\<rparr>)"
        unfolding add_0_right by (rule put_nul_next(1) [OF len])
    qed simp
    have A: "after_line s ?n ?ps (Some ?q) a" using after_line_new [OF i0 pa, of ?ps ?n] n by simp
    have B: "after_line s ?n ?ps (Some ?e0) b"
      using after_line_new [of ?e0 s "[]" "0x0D" "0x0A # r" CRLF ?ps ?n] i1 e n True by simp
    have C: "\<forall>i\<in>set ?ps. ?q \<le> i \<and> i < ?q + ?n" using n by simp
    have N: "?e0 + 2 = ?q + ?n" using n by simp
    show ?thesis using pf unfolding N by (intro exI conjI) (assumption, rule C, rule A, rule B)
  next
    case False
    let ?e1 = "?e0 + 1 + length b" let ?ps = "[?e1, ?e0]"
    from False have i0: "inp s = a @ 0x3A # b @ 0x0D # 0x0A # r" and n: "?n = length a + 1 + length b + 2"
      using i by (simp_all add: print_pair_def)
    note f0 = text_here [OF i0 t(1) pa]
    have d0: "drop ?e0 (raw s) = [0x3A] @ b @ 0x0D # 0x0A # r" using f0(2) by (simp add: blank_def)
    have d1: "drop (?e0 + 1) (raw s) = b @ 0x0D # 0x0A # r" using drop_app [OF d0] by simp
    have i1: "inp (s\<lparr>offset := ?e0 + 1\<rparr>) = b @ 0x0D # 0x0A # r" using d1 by simp
    note f1 = text_here [OF i1 t(3) is_text_plain [OF t(3)]]
    have len: "?e1 < length (raw s)" "?e0 < length (raw s)" using l n unfolding length_drop by linarith+
    have c: "current (s\<lparr>offset := ?e0\<rparr>) = Some 0x3A" using current_at [of "s\<lparr>offset := ?e0\<rparr>"] d0 by simp
    have d2: "drop ?e1 (raw s) = 0x0D # 0x0A # r" using drop_app [OF d1] by simp
    have pf: "pair_fields s = Some (0, ?q, ?e0 + 1, s\<lparr>offset := ?e1 + 2, raw := nuls ?ps (raw s)\<rparr>)"
    proof (rule pair_fields_steps [where k = "length a" and l = "length b" and c = "0x3A"])
      show "sdp_field COLON_CRLF s = Some (?q, length a, s\<lparr>offset := ?e0\<rparr>)" using f0(1) by (simp add: blank_def)
      show "trim_right (raw (s\<lparr>offset := ?e0\<rparr>)) ?q (length a) = length a" using f0(3) by (simp add: blank_def)
      show "current (s\<lparr>offset := ?e0\<rparr>) = Some 0x3A" by (rule c)
      show "sdp_field CRLF (if (0x3A :: u8) = 0x3A then step (s\<lparr>offset := ?e0\<rparr>) else s\<lparr>offset := ?e0\<rparr>) =
          Some (?e0 + 1, length b, s\<lparr>offset := ?e1\<rparr>)" using f1(1) by (simp add: blank_def step_def)
      show "trim_right (raw (s\<lparr>offset := ?e1\<rparr>)) (?e0 + 1) (length b) = length b" using f1(3) by (simp add: blank_def)
      show "sdp_token_crlf (s\<lparr>offset := ?e1\<rparr>) = Some (0, s\<lparr>offset := ?e1 + 2\<rparr>)" by (rule crlf_here [OF d2])
      show "put_nul (?q + length a) (s\<lparr>offset := ?e1 + 2\<rparr>) = Some (s\<lparr>offset := ?e1 + 2, raw := nuls [?e0] (raw s)\<rparr>)"
        by (rule put_nul_next(2) [OF len(2)])
      show "put_nul (?e0 + 1 + length b) (s\<lparr>offset := ?e1 + 2, raw := nuls [?e0] (raw s)\<rparr>) =
          Some (s\<lparr>offset := ?e1 + 2, raw := nuls ?ps (raw s)\<rparr>)"
        by (rule put_nul_next(1) [OF len(1)])
    qed
    have A: "after_line s ?n ?ps (Some ?q) a" using after_line_new [OF i0 pa, of ?ps ?n] n by simp
    have B: "after_line s ?n ?ps (Some (?e0 + 1)) b"
      using after_line_new [OF d1 is_text_plain [OF t(3)], of ?ps ?n] n by simp
    have C: "\<forall>i\<in>set ?ps. ?q \<le> i \<and> i < ?q + ?n" using n by simp
    have N: "?e1 + 2 = ?q + ?n" using n by simp
    show ?thesis using pf unfolding N by (intro exI conjI) (assumption, rule C, rule A, rule B)
  qed
qed

lemma bandwidth_line:
  assumes r: "rel (sees (raw s) (offset s)) s d" and i: "inp s = print_pair a b @ 0x0D # 0x0A # rs"
    and t: "is_text a" "0x3A \<notin> set a" "is_text b" and mem: "\<And>n. mem n"
  shows "\<exists>s'. sdp_parse_bandwidth mem s = Some (0, s') \<and>
    line_done s (length (print_pair a b) + 2) (apply_line (BLine a b) d) s'"
proof -
  let ?n = "length (print_pair a b) + 2"
  obtain ps p0 p1 where pf: "pair_fields s = Some (0, p0, p1, s\<lparr>offset := offset s + ?n, raw := nuls ps (raw s)\<rparr>)"
    and ps: "\<forall>i\<in>set ps. offset s \<le> i \<and> i < offset s + ?n"
    and ra: "after_line s ?n ps (Some p0) a" and rb: "after_line s ?n ps (Some p1) b"
    using pair_fields_at [OF i t] by blast
  let ?R = "after_line s ?n ps" and ?x = "\<lparr>b_bwtype = Some p0, b_bandwidth = Some p1\<rparr>"
  have old: "rel ?R s d" by (rule after_line_old [OF r]) (use ps in simp)
  have pr: "band_rel ?R ?x (a, b)" using ra rb by (simp add: pair_rel_def)
  show ?thesis
  proof (cases "d_m d = []")
    case True
    have k: "v_count (sdp_m s) = 0" using vec_rel_count [OF rel_parts(6) [OF r]] True by simp
    obtain v1 v2 where v1: "vec_room mem N_BANDWIDTH (sdp_b s) = Inr v1" "v_count v1 = v_count (sdp_b s)"
      and v2: "vec_put N_BANDWIDTH (v_count (sdp_b s)) ?x v1 = Some v2"
      and pv: "vec_rel (band_rel ?R) N_BANDWIDTH (vec_inc v2) (d_b d @ [(a, b)])"
      by (rule push_at [where mem = mem, OF rel_parts(3) [OF old] pr mem])
    have new: "rel ?R (s\<lparr>sdp_b := vec_inc v2\<rparr>) (d\<lparr>d_b := d_b d @ [(a, b)]\<rparr>)" by (rule rel_store(10) [OF old pv])
    have d: "apply_line (BLine a b) d = d\<lparr>d_b := d_b d @ [(a, b)]\<rparr>" using True by (simp add: on_media_def)
    have "line_done s ?n (d\<lparr>d_b := d_b d @ [(a, b)]\<rparr>)
        (s\<lparr>sdp_b := vec_inc v2, offset := offset s + ?n, raw := nuls ps (raw s)\<rparr>)"
      by (rule after_line_done [OF new ps]) simp_all
    then show ?thesis using k pf v1 v2 unfolding d
      by (simp add: sdp_parse_bandwidth_def cur_b_def put_b_def buffer_last)
  next
    case False
    obtain m where m: "v_count (sdp_m s) > 0" "vec_get N_MEDIA (v_count (sdp_m s) - 1) (sdp_m s) = Some m"
        "media_rel ?R m (last (d_m d))"
      by (rule media_get [OF old False])
    have vm: "vec_rel (band_rel ?R) N_BANDWIDTH (m_b m) (md_b (last (d_m d)))" using m(3) by (simp add: media_rel_def)
    obtain v1 v2 where v1: "vec_room mem N_BANDWIDTH (m_b m) = Inr v1" "v_count v1 = v_count (m_b m)"
      and v2: "vec_put N_BANDWIDTH (v_count (m_b m)) ?x v1 = Some v2"
      and pv: "vec_rel (band_rel ?R) N_BANDWIDTH (vec_inc v2) (md_b (last (d_m d)) @ [(a, b)])"
      by (rule push_at [where mem = mem, OF vm pr mem])
    let ?md = "(last (d_m d))\<lparr>md_b := md_b (last (d_m d)) @ [(a, b)]\<rparr>"
    have mr: "media_rel ?R (m\<lparr>m_b := vec_inc v2\<rparr>) ?md" using m(3) pv by (simp add: media_rel_def)
    obtain v where v: "vec_put N_MEDIA (v_count (sdp_m s) - 1) (m\<lparr>m_b := vec_inc v2\<rparr>) (sdp_m s) = Some v"
      and new: "rel ?R (s\<lparr>sdp_m := v\<rparr>) (d\<lparr>d_m := butlast (d_m d) @ [?md]\<rparr>)"
      by (rule media_store [OF old False mr])
    have d: "apply_line (BLine a b) d = d\<lparr>d_m := butlast (d_m d) @ [?md]\<rparr>" using False by (simp add: on_media_def)
    have "line_done s ?n (d\<lparr>d_m := butlast (d_m d) @ [?md]\<rparr>) (s\<lparr>sdp_m := v, offset := offset s + ?n, raw := nuls ps (raw s)\<rparr>)"
      by (rule after_line_done [OF new ps]) simp_all
    then show ?thesis using m(1,2) pf v1 v2 v unfolding d
      by (simp add: sdp_parse_bandwidth_def cur_b_def put_b_def sdp_get_media_def put_media_def buffer_last)
  qed
qed

lemma attribute_line:
  assumes r: "rel (sees (raw s) (offset s)) s d" and i: "inp s = print_pair a b @ 0x0D # 0x0A # rs"
    and t: "is_text a" "0x3A \<notin> set a" "is_text b" and mem: "\<And>n. mem n"
  shows "\<exists>s'. sdp_parse_attribute mem s = Some (0, s') \<and>
    line_done s (length (print_pair a b) + 2) (apply_line (ALine a b) d) s'"
proof -
  let ?n = "length (print_pair a b) + 2"
  obtain ps p0 p1 where pf: "pair_fields s = Some (0, p0, p1, s\<lparr>offset := offset s + ?n, raw := nuls ps (raw s)\<rparr>)"
    and ps: "\<forall>i\<in>set ps. offset s \<le> i \<and> i < offset s + ?n"
    and ra: "after_line s ?n ps (Some p0) a" and rb: "after_line s ?n ps (Some p1) b"
    using pair_fields_at [OF i t] by blast
  let ?R = "after_line s ?n ps" and ?x = "\<lparr>a_name = Some p0, a_value = Some p1\<rparr>"
  have old: "rel ?R s d" by (rule after_line_old [OF r]) (use ps in simp)
  have pr: "attr_rel ?R ?x (a, b)" using ra rb by (simp add: pair_rel_def)
  show ?thesis
  proof (cases "d_m d = []")
    case True
    have k: "v_count (sdp_m s) = 0" using vec_rel_count [OF rel_parts(6) [OF r]] True by simp
    obtain v1 v2 where v1: "vec_room mem N_ATTRIBUTE (sdp_a s) = Inr v1" "v_count v1 = v_count (sdp_a s)"
      and v2: "vec_put N_ATTRIBUTE (v_count (sdp_a s)) ?x v1 = Some v2"
      and pv: "vec_rel (attr_rel ?R) N_ATTRIBUTE (vec_inc v2) (d_a d @ [(a, b)])"
      by (rule push_at [where mem = mem, OF rel_parts(5) [OF old] pr mem])
    have new: "rel ?R (s\<lparr>sdp_a := vec_inc v2\<rparr>) (d\<lparr>d_a := d_a d @ [(a, b)]\<rparr>)" by (rule rel_store(13) [OF old pv])
    have d: "apply_line (ALine a b) d = d\<lparr>d_a := d_a d @ [(a, b)]\<rparr>" using True by (simp add: on_media_def)
    have "line_done s ?n (d\<lparr>d_a := d_a d @ [(a, b)]\<rparr>)
        (s\<lparr>sdp_a := vec_inc v2, offset := offset s + ?n, raw := nuls ps (raw s)\<rparr>)"
      by (rule after_line_done [OF new ps]) simp_all
    then show ?thesis using k pf v1 v2 unfolding d
      by (simp add: sdp_parse_attribute_def cur_a_def put_a_def buffer_last)
  next
    case False
    obtain m where m: "v_count (sdp_m s) > 0" "vec_get N_MEDIA (v_count (sdp_m s) - 1) (sdp_m s) = Some m"
        "media_rel ?R m (last (d_m d))"
      by (rule media_get [OF old False])
    have vm: "vec_rel (attr_rel ?R) N_ATTRIBUTE (m_a m) (md_a (last (d_m d)))" using m(3) by (simp add: media_rel_def)
    obtain v1 v2 where v1: "vec_room mem N_ATTRIBUTE (m_a m) = Inr v1" "v_count v1 = v_count (m_a m)"
      and v2: "vec_put N_ATTRIBUTE (v_count (m_a m)) ?x v1 = Some v2"
      and pv: "vec_rel (attr_rel ?R) N_ATTRIBUTE (vec_inc v2) (md_a (last (d_m d)) @ [(a, b)])"
      by (rule push_at [where mem = mem, OF vm pr mem])
    let ?md = "(last (d_m d))\<lparr>md_a := md_a (last (d_m d)) @ [(a, b)]\<rparr>"
    have mr: "media_rel ?R (m\<lparr>m_a := vec_inc v2\<rparr>) ?md" using m(3) pv by (simp add: media_rel_def)
    obtain v where v: "vec_put N_MEDIA (v_count (sdp_m s) - 1) (m\<lparr>m_a := vec_inc v2\<rparr>) (sdp_m s) = Some v"
      and new: "rel ?R (s\<lparr>sdp_m := v\<rparr>) (d\<lparr>d_m := butlast (d_m d) @ [?md]\<rparr>)"
      by (rule media_store [OF old False mr])
    have d: "apply_line (ALine a b) d = d\<lparr>d_m := butlast (d_m d) @ [?md]\<rparr>" using False by (simp add: on_media_def)
    have "line_done s ?n (d\<lparr>d_m := butlast (d_m d) @ [?md]\<rparr>) (s\<lparr>sdp_m := v, offset := offset s + ?n, raw := nuls ps (raw s)\<rparr>)"
      by (rule after_line_done [OF new ps]) simp_all
    then show ?thesis using m(1,2) pf v1 v2 v unfolding d
      by (simp add: sdp_parse_attribute_def cur_a_def put_a_def sdp_get_media_def put_media_def buffer_last)
  qed
qed

lemma encryption_line:
  assumes r: "rel (sees (raw s) (offset s)) s d" and i: "inp s = print_pair a b @ 0x0D # 0x0A # rs"
    and t: "is_text a" "0x3A \<notin> set a" "is_text b"
  shows "\<exists>s'. sdp_parse_encryption s = Some (0, s') \<and>
    line_done s (length (print_pair a b) + 2) (apply_line (KLine a b) d) s'"
proof -
  let ?n = "length (print_pair a b) + 2"
  obtain ps p0 p1 where pf: "pair_fields s = Some (0, p0, p1, s\<lparr>offset := offset s + ?n, raw := nuls ps (raw s)\<rparr>)"
    and ps: "\<forall>i\<in>set ps. offset s \<le> i \<and> i < offset s + ?n"
    and ra: "after_line s ?n ps (Some p0) a" and rb: "after_line s ?n ps (Some p1) b"
    using pair_fields_at [OF i t] by blast
  let ?R = "after_line s ?n ps" and ?x = "\<lparr>k_method = Some p0, k_key = Some p1\<rparr>"
  have old: "rel ?R s d" by (rule after_line_old [OF r]) (use ps in simp)
  have pr: "pair_rel k_method k_key ?R ?x (a, b)" using ra rb by (simp add: pair_rel_def)
  show ?thesis
  proof (cases "d_m d = []")
    case True
    have k: "v_count (sdp_m s) = 0" using vec_rel_count [OF rel_parts(6) [OF r]] True by simp
    have new: "rel ?R (s\<lparr>sdp_k := ?x\<rparr>) (d\<lparr>d_k := Some (a, b)\<rparr>)" by (rule rel_store(12) [OF old pr])
    have d: "apply_line (KLine a b) d = d\<lparr>d_k := Some (a, b)\<rparr>" using True by (simp add: on_media_def)
    have "line_done s ?n (d\<lparr>d_k := Some (a, b)\<rparr>) (s\<lparr>sdp_k := ?x, offset := offset s + ?n, raw := nuls ps (raw s)\<rparr>)"
      by (rule after_line_done [OF new ps]) simp_all
    then show ?thesis using k pf unfolding d by (simp add: sdp_parse_encryption_def put_k_def buffer_last)
  next
    case False
    obtain m where m: "v_count (sdp_m s) > 0" "vec_get N_MEDIA (v_count (sdp_m s) - 1) (sdp_m s) = Some m"
        "media_rel ?R m (last (d_m d))"
      by (rule media_get [OF old False])
    let ?md = "(last (d_m d))\<lparr>md_k := Some (a, b)\<rparr>"
    have mr: "media_rel ?R (m\<lparr>m_k := ?x\<rparr>) ?md" using m(3) pr by (simp add: media_rel_def key_rel_def)
    obtain v where v: "vec_put N_MEDIA (v_count (sdp_m s) - 1) (m\<lparr>m_k := ?x\<rparr>) (sdp_m s) = Some v"
      and new: "rel ?R (s\<lparr>sdp_m := v\<rparr>) (d\<lparr>d_m := butlast (d_m d) @ [?md]\<rparr>)"
      by (rule media_store [OF old False mr])
    have d: "apply_line (KLine a b) d = d\<lparr>d_m := butlast (d_m d) @ [?md]\<rparr>" using False by (simp add: on_media_def)
    have "line_done s ?n (d\<lparr>d_m := butlast (d_m d) @ [?md]\<rparr>) (s\<lparr>sdp_m := v, offset := offset s + ?n, raw := nuls ps (raw s)\<rparr>)"
      by (rule after_line_done [OF new ps]) simp_all
    then show ?thesis using m(1,2) pf v unfolding d
      by (simp add: sdp_parse_encryption_def put_k_def sdp_get_media_def put_media_def buffer_last)
  qed
qed

section \<open>Times, versions and origins\<close>

lemma timing_line:
  assumes r: "rel (sees (raw s) (offset s)) s d" and i: "inp s = (a @ print_words [b]) @ 0x0D # 0x0A # rs"
    and w: "is_word a" "is_text b" and mem: "\<And>n. mem n"
  shows "\<exists>s'. sdp_parse_timing mem s = Some (0, s') \<and>
    line_done s (length (a @ print_words [b]) + 2) (apply_line (TLine a b) d) s'"
proof -
  let ?q = "offset s" and ?n = "length (a @ print_words [b]) + 2"
  let ?e0 = "?q + length a" let ?e1 = "?e0 + 1 + length b" let ?ps = "[?e1, ?e0]"
  let ?R = "after_line s ?n ?ps"
  have i0: "inp s = a @ 0x20 # b @ 0x0D # 0x0A # rs" and n: "?q + ?n = ?e1 + 2" using i by (simp_all add: print_words_def)
  have l: "length (inp s) = ?n + length rs" using i by simp
  have len: "?e1 < length (raw s)" "?e0 < length (raw s)" using l n unfolding length_drop by linarith+
  note f0 = first_word [OF i0 w(1)]
  note f1 = next_text [where s = s, OF f0(2) w(2)]
  have old: "rel ?R s d" by (rule after_line_old [OF r]) simp
  define x where "x = timing0\<lparr>t_start := Some ?q, t_stop := Some (?e0 + 1)\<rparr>"
  have pr: "time_rel ?R x (a, b)"
  proof -
    have "?R (Some ?q) a" by (rule after_line_new [OF i0 is_word_plain [OF w(1)]]) (simp_all add: print_words_def)
    moreover have "?R (Some (?e0 + 1)) b"
      by (rule after_line_new [OF f1(2) is_text_plain [OF w(2)]]) (simp_all add: print_words_def)
    ultimately show ?thesis by (simp add: pair_rel_def x_def)
  qed
  obtain v1 v2 where v1: "vec_room mem N_TIMING (sdp_t s) = Inr v1" "v_count v1 = v_count (sdp_t s)"
    and v2: "vec_put N_TIMING (v_count (sdp_t s)) x v1 = Some v2"
    and pv: "vec_rel (time_rel ?R) N_TIMING (vec_inc v2) (d_t d @ [(a, b)])"
    by (rule push_at [where mem = mem, OF rel_parts(4) [OF old] pr mem])
  have new: "rel ?R (s\<lparr>sdp_t := vec_inc v2\<rparr>) (d\<lparr>d_t := d_t d @ [(a, b)]\<rparr>)" by (rule rel_store(11) [OF old pv])
  have "line_done s ?n (d\<lparr>d_t := d_t d @ [(a, b)]\<rparr>) (s\<lparr>sdp_t := vec_inc v2, offset := ?e1 + 2, raw := nuls ?ps (raw s)\<rparr>)"
    by (rule after_line_done [OF new]) (simp_all add: print_words_def)
  moreover have "sdp_parse_timing mem s = Some (0, s\<lparr>sdp_t := vec_inc v2, offset := ?e1 + 2, raw := nuls ?ps (raw s)\<rparr>)"
  proof -
    have c: "sdp_token_crlf ((s\<lparr>sdp_t := v2\<rparr>)\<lparr>offset := ?e1\<rparr>) = Some (0, (s\<lparr>sdp_t := v2\<rparr>)\<lparr>offset := ?e1 + 2\<rparr>)"
      by (rule crlf_here) (use f1(3) in simp)
    have p0: "put_nul ?e0 ((s\<lparr>sdp_t := v2\<rparr>)\<lparr>offset := ?e1 + 2\<rparr>) = Some ((s\<lparr>sdp_t := v2\<rparr>)\<lparr>offset := ?e1 + 2, raw := nuls [?e0] (raw s)\<rparr>)"
      using put_nul_next(2) [of ?e0 "s\<lparr>sdp_t := v2\<rparr>"] len by simp
    have p1: "put_nul ?e1 ((s\<lparr>sdp_t := v2\<rparr>)\<lparr>offset := ?e1 + 2, raw := nuls [?e0] (raw s)\<rparr>) =
        Some ((s\<lparr>sdp_t := v2\<rparr>)\<lparr>offset := ?e1 + 2, raw := nuls ?ps (raw s)\<rparr>)"
      using put_nul_next(1) [of ?e1 "s\<lparr>sdp_t := v2\<rparr>" "[?e0]" "?e1 + 2"] len by simp
    show ?thesis using f0(1) f1(1,4) v1 v2 [unfolded x_def] c p0 p1
      by (simp add: sdp_parse_timing_def Let_def buffer_last del: nuls.simps)
  qed
  ultimately show ?thesis by simp
qed


lemma add_digit_print: "foldl add_digit 0 (print_nat n) = int n"
proof -
  have "\<forall>c\<in>set ws. is_digit c \<Longrightarrow> foldl add_digit a ws = digits_value a ws" for a ws
    by (induction ws arbitrary: a) (auto simp: add_digit_def)
  then show ?thesis using print_nat_digits digits_value_print by metis
qed

lemma version_line:
  assumes r: "rel (sees (raw s) (offset s)) s d" and i: "inp s = print_nat n @ 0x0D # 0x0A # rs" and n: "n < 2 ^ 31"
  shows "\<exists>s'. sdp_parse_version s = Some (0, s') \<and> line_done s (length (print_nat n) + 2) (d\<lparr>d_v := int n\<rparr>) s'"
proof -
  let ?n = "length (print_nat n)"
  obtain c cs where c: "print_nat n = c # cs" "is_digit c" using print_nat_Cons by blast
  have c9: "c \<noteq> 9"
  proof
    assume "c = 9"
    then show False using c(2) by (simp add: is_digit_def)
  qed
  have sk: "sdp_skip_space (s\<lparr>sdp_v := 0\<rparr>) = Some (s\<lparr>sdp_v := 0\<rparr>)"
    using skip_space_at [of "s\<lparr>sdp_v := 0\<rparr>" "[]" c "cs @ 0x0D # 0x0A # rs"] i c digit_not_space [OF c(2)] c9
    by (simp add: blank_def is_space_def)
  have rl: "run_length is_digit (raw s) (offset s) = Some ?n"
    by (rule run_length_at [OF i print_nat_digits]) (simp add: is_digit_def word_le_nat_alt)
  have tk: "take ?n (inp s) = print_nat n" using i by simp
  have cr: "sdp_token_crlf ((s\<lparr>sdp_v := int n\<rparr>)\<lparr>offset := offset s + ?n\<rparr>) = Some (0, (s\<lparr>sdp_v := int n\<rparr>)\<lparr>offset := offset s + ?n + 2\<rparr>)"
    by (rule crlf_here) (use drop_app [OF i] in simp)
  have pv: "sdp_parse_version s = Some (0, s\<lparr>sdp_v := int n, offset := offset s + ?n + 2\<rparr>)"
    using sk rl tk cr n by (simp add: sdp_parse_version_def Let_def add_digit_print)
  have old: "rel (after_line s (?n + 2) []) s d" by (rule after_line_old [OF r]) simp
  have "line_done s (?n + 2) (d\<lparr>d_v := int n\<rparr>) (s\<lparr>sdp_v := int n, offset := offset s + ?n + 2\<rparr>)"
    by (rule after_line_done [OF rel_store(1) [OF old]]) simp_all
  then show ?thesis using pv by simp
qed

lemma origin_steps:
  "sdp_field BLANKS_CRLF s = Some (p, k, sa) \<Longrightarrow> sdp_field BLANKS_CRLF sa = Some (q, l, sb) \<Longrightarrow>
   sdp_field BLANKS_CRLF sb = Some (r, m, sc) \<Longrightarrow> sdp_field BLANKS_CRLF sc = Some (t, n, sd) \<Longrightarrow>
   sdp_field BLANKS_CRLF sd = Some (u, x, se) \<Longrightarrow> sdp_field BLANKS_CRLF se = Some (v, y, sf) \<Longrightarrow>
   k > 0 \<Longrightarrow> l > 0 \<Longrightarrow> m > 0 \<Longrightarrow> n > 0 \<Longrightarrow> x > 0 \<Longrightarrow> y > 0 \<Longrightarrow>
   sdp_token_crlf (sf\<lparr>sdp_o := \<lparr>o_username = Some p, o_session = Some q, o_session_version = Some r,
     o_c = \<lparr>c_network = Some t, c_addrtype = Some u, c_address = Some v\<rparr>\<rparr>\<rparr>) = Some (0, sg) \<Longrightarrow>
   put_nul (p + k) sg = Some sh \<Longrightarrow> put_nul (q + l) sh = Some si \<Longrightarrow> put_nul (r + m) si = Some sj \<Longrightarrow>
   put_nul (t + n) sj = Some sk \<Longrightarrow> put_nul (u + x) sk = Some sl \<Longrightarrow> put_nul (v + y) sl = Some sm \<Longrightarrow>
   sdp_parse_origin s = Some (0, sm)"
  by (simp add: sdp_parse_origin_def Let_def)

lemma origin_line:
  assumes r: "rel (sees (raw s) (offset s)) s d" and i: "inp s = (a @ print_words [b, c, e, f, g]) @ 0x0D # 0x0A # rs"
    and w: "is_word a" "is_word b" "is_word c" "is_word e" "is_word f" "is_word g"
  shows "\<exists>s'. sdp_parse_origin s = Some (0, s') \<and>
    line_done s (length (a @ print_words [b, c, e, f, g]) + 2) (d\<lparr>d_o := [a, b, c, e, f, g]\<rparr>) s'"
proof -
  let ?q = "offset s" and ?n = "length (a @ print_words [b, c, e, f, g]) + 2"
  let ?e0 = "?q + length a" let ?e1 = "?e0 + 1 + length b" let ?e2 = "?e1 + 1 + length c"
  let ?e3 = "?e2 + 1 + length e" let ?e4 = "?e3 + 1 + length f" let ?e5 = "?e4 + 1 + length g"
  let ?ps = "[?e5, ?e4, ?e3, ?e2, ?e1, ?e0]"
  have i0: "inp s = a @ 0x20 # b @ 0x20 # c @ 0x20 # e @ 0x20 # f @ 0x20 # g @ 0x0D # 0x0A # rs"
    using i by (simp add: print_words_def)
  have n: "?q + ?n = ?e5 + 2" by (simp add: print_words_def)
  have l: "length (inp s) = ?n + length rs" using i by simp
  have len: "?e5 < length (raw s)" using l n unfolding length_drop by linarith
  have lens: "?e4 < length (raw s)" "?e3 < length (raw s)" "?e2 < length (raw s)" "?e1 < length (raw s)" "?e0 < length (raw s)"
    using len by linarith+
  note f0 = first_word [OF i0 w(1)]
  note f1 = next_word [where s = s, OF f0(2) w(2)]
  note f2 = next_word [where s = s, OF f1(3) w(3)]
  note f3 = next_word [where s = s, OF f2(3) w(4)]
  note f4 = next_word [where s = s, OF f3(3) w(5)]
  note f5 = next_word [where s = s, OF f4(3) w(6)]
  have pos: "length a > 0" "length b > 0" "length c > 0" "length e > 0" "length f > 0" "length g > 0"
    using w by (auto simp: is_word_def)
  define x where "x = \<lparr>o_username = Some ?q, o_session = Some (?e0 + 1), o_session_version = Some (?e1 + 1),
     o_c = \<lparr>c_network = Some (?e2 + 1), c_addrtype = Some (?e3 + 1), c_address = Some (?e4 + 1)\<rparr>\<rparr>"
  let ?s1 = "s\<lparr>sdp_o := x\<rparr>"
  have cr: "sdp_token_crlf (s\<lparr>offset := ?e5, sdp_o := x\<rparr>) = Some (0, ?s1\<lparr>offset := ?e5 + 2\<rparr>)"
    unfolding buffer_last by (rule crlf_here [of ?e5 ?s1 rs]) (use f5(3) in simp)
  have len1: "i < length (raw s) \<Longrightarrow> i < length (raw ?s1)" for i by simp
  note nul = put_nul_next(1) [of _ ?s1, OF len1]
  have "sdp_parse_origin s = Some (0, ?s1\<lparr>offset := ?e5 + 2, raw := nuls ?ps (raw ?s1)\<rparr>)"
    by (rule origin_steps [OF f0(1) f1(1) f2(1) f3(1) f4(1) f5(1) pos cr [unfolded x_def]
          put_nul_next(2) [of _ "s\<lparr>sdp_o := _\<rparr>", OF len1 [unfolded x_def, OF lens(5)]]
          nul [unfolded x_def, OF lens(4)] nul [unfolded x_def, OF lens(3)] nul [unfolded x_def, OF lens(2)]
          nul [unfolded x_def, OF lens(1)] nul [unfolded x_def, OF len], folded x_def]) simp_all
  moreover have "rel (after_line s ?n ?ps) ?s1 (d\<lparr>d_o := [a, b, c, e, f, g]\<rparr>)"
  proof (rule rel_store(2))
    show "rel (after_line s ?n ?ps) s d" by (rule after_line_old [OF r]) simp
    have "after_line s ?n ?ps (Some ?q) a" by (rule after_line_new [OF i0 is_word_plain [OF w(1)]]) (simp_all add: print_words_def)
    moreover have "after_line s ?n ?ps (Some (?e0 + 1)) b"
      by (rule after_line_new [OF f1(2) is_word_plain [OF w(2)]]) (simp_all add: print_words_def)
    moreover have "after_line s ?n ?ps (Some (?e1 + 1)) c"
      by (rule after_line_new [OF f2(2) is_word_plain [OF w(3)]]) (simp_all add: print_words_def)
    moreover have "after_line s ?n ?ps (Some (?e2 + 1)) e"
      by (rule after_line_new [OF f3(2) is_word_plain [OF w(4)]]) (simp_all add: print_words_def)
    moreover have "after_line s ?n ?ps (Some (?e3 + 1)) f"
      by (rule after_line_new [OF f4(2) is_word_plain [OF w(5)]]) (simp_all add: print_words_def)
    moreover have "after_line s ?n ?ps (Some (?e4 + 1)) g"
      by (rule after_line_new [OF f5(2) is_word_plain [OF w(6)]]) (simp_all add: print_words_def)
    ultimately show "origin_rel (after_line s ?n ?ps) x [a, b, c, e, f, g]"
      by (simp add: origin_rel_def origin_ptrs_def x_def)
  qed
  then have "line_done s ?n (d\<lparr>d_o := [a, b, c, e, f, g]\<rparr>) (?s1\<lparr>offset := ?e5 + 2, raw := nuls ?ps (raw s)\<rparr>)"
    by (rule after_line_done) (simp_all add: print_words_def)
  ultimately show ?thesis by simp
qed


section \<open>Media lines\<close>

lemma print_words_Cons [simp]: "print_words (w # ws) = 0x20 # w @ print_words ws" "print_words [] = []"
  by (simp_all add: print_words_def)

lemma after_words: "\<exists>c r'. c \<in> set BLANKS_CRLF \<and> print_words ws @ 0x0D # r = c # r'"
  by (cases ws) auto

lemma field_at_end:
  assumes "drop e (raw s) = 0x0D # r"
  shows "sdp_field BLANKS_CRLF (s\<lparr>offset := e\<rparr>) = Some (e, 0, s\<lparr>offset := e\<rparr>)"
  using field_at [of "s\<lparr>offset := e\<rparr>" "[]" "[]" "0x0D" r BLANKS_CRLF] assms by (simp add: blank_def plain_def)

text \<open>The fields the \<open>for\<close> loop goes over: with as many words as rounds the last is kept, with fewer none.\<close>

definition kept_field :: "nat \<Rightarrow> nat \<Rightarrow> bytes list \<Rightarrow> nat \<Rightarrow> nat \<Rightarrow> bytes \<Rightarrow> bytes \<Rightarrow> bool" where
  "kept_field k e ws p n b r \<longleftrightarrow> p + n = e + length (print_words ws) \<and>
     (if length ws = k then n = length (last ws) \<and> drop p b = last ws @ 0x0D # r \<and> e < p else n = 0)"

lemma skip_fields_at:
  assumes "drop e (raw s) = print_words ws @ 0x0D # r" and "list_all is_word ws" and "length ws \<le> Suc k"
  shows "\<exists>p n. skip_fields (Suc k) (s\<lparr>offset := e\<rparr>) = Some (p, n, s\<lparr>offset := e + length (print_words ws)\<rparr>) \<and>
    kept_field (Suc k) e ws p n (raw s) r"
  using assms
proof (induction k arbitrary: ws e)
  case 0
  show ?case
  proof (cases ws)
    case Nil
    then show ?thesis using field_at_end [of e s r] 0 by (simp add: kept_field_def)
  next
    case (Cons w vs)
    then have d: "drop e (raw s) = 0x20 # w @ 0x0D # r" "is_word w" "vs = []" using 0 by auto
    have in_set: "0x0D \<in> set BLANKS_CRLF" by simp
    show ?thesis using next_word [where s = s, OF d(1,2) in_set] d(3) Cons by (simp add: kept_field_def)
  qed
next
  case (Suc k)
  show ?case
  proof (cases ws)
    case Nil
    then have d: "drop e (raw s) = 0x0D # r" using Suc.prems(1) by simp
    obtain p n where "skip_fields (Suc k) (s\<lparr>offset := e\<rparr>) = Some (p, n, s\<lparr>offset := e\<rparr>)" "kept_field (Suc k) e [] p n (raw s) r"
      using Suc.IH [of e "[]"] d by auto
    then show ?thesis using field_at_end [OF d] Nil by (auto simp: kept_field_def)
  next
    case (Cons w vs)
    obtain c r' where c: "c \<in> set BLANKS_CRLF" "print_words vs @ 0x0D # r = c # r'" using after_words by blast
    have d: "drop e (raw s) = 0x20 # w @ c # r'" "is_word w" using Suc.prems Cons c(2) by auto
    let ?e = "e + 1 + length w"
    note f = next_word [where s = s, OF d c(1)]
    have d2: "drop ?e (raw s) = print_words vs @ 0x0D # r" using f(3) c(2) by simp
    have vs: "list_all is_word vs" "length vs \<le> Suc k" using Suc.prems(2,3) Cons by auto
    obtain p n where pn: "skip_fields (Suc k) (s\<lparr>offset := ?e\<rparr>) = Some (p, n, s\<lparr>offset := ?e + length (print_words vs)\<rparr>)"
      "kept_field (Suc k) ?e vs p n (raw s) r"
      using Suc.IH [OF d2 vs] by blast
    have l: "?e + length (print_words vs) = e + length (print_words ws)" using Cons by simp
    have "skip_fields (Suc (Suc k)) (s\<lparr>offset := e\<rparr>) = Some (p, n, s\<lparr>offset := e + length (print_words ws)\<rparr>)"
      using f(1) pn(1) unfolding l by simp
    moreover have "kept_field (Suc (Suc k)) e ws p n (raw s) r"
      using pn(2) Cons l by (auto simp: kept_field_def split: if_splits)
    ultimately show ?thesis by blast
  qed
qed

lemma media_steps:
  assumes "vec_room mem N_MEDIA (sdp_m s) = Inr v" and "sdp_field BLANKS_CRLF s = Some (p, k, sa)"
    and "sdp_field BLANKS_CRLF sa = Some (q, l, sb)" and "sdp_field BLANKS_CRLF sb = Some (r, m, sc)"
    and "skip_fields 13 sc = Some (t, n, sd)"
    and "t + n < length (raw sd)" and "\<not> blank (raw sd ! (t + n))"
    and "sdp_token_crlf sd = Some (0, se)" and "put_nul (p + k) se = Some sf" and "put_nul (q + l) sf = Some sg"
    and "put_nul (r + m) sg = Some sh"
    and "(if n > 0 then do { s \<leftarrow> put_nul (t + n) sh;
            (e, m) \<leftarrow> sdp_append_media_format mem t (media0\<lparr>m_media := Some p, m_port := Some q, m_proto := Some r\<rparr>);
            Some (e, e = 0, m, s) }
          else Some (0, True, media0\<lparr>m_media := Some p, m_port := Some q, m_proto := Some r\<rparr>, sh)) = Some (0, True, m', si)"
    and "vec_put N_MEDIA (v_count v) m' v = Some v'"
  shows "sdp_parse_media mem s = Some (0, si\<lparr>sdp_m := vec_inc v'\<rparr>)"
  using assms by (simp add: sdp_parse_media_def)


text \<open>The formats the line leaves in the structure, with the NULs it writes.\<close>

lemma kept_format:
  assumes "kept_field 13 e fs p n (raw s) r" and "length fs \<le> 13" and "list_all is_word fs" and "\<And>j. mem j"
    and "p + n < length (raw s)" and "raw sh = nuls ps (raw s)" and "m_fmt m = vec0 N_MEDIA_FORMAT None"
  shows "\<exists>v. (if n > 0 then do { s \<leftarrow> put_nul (p + n) sh; (e, m) \<leftarrow> sdp_append_media_format mem p m; Some (e, e = 0, m, s) }
          else Some (0, True, m, sh)) = Some (0, True, m\<lparr>m_fmt := v\<rparr>,
            sh\<lparr>raw := nuls (if length fs = 13 then (p + n) # ps else ps) (raw s)\<rparr>) \<and>
      (\<forall>R. (length fs = 13 \<longrightarrow> R (Some p) (last fs)) \<longrightarrow> vec_rel R N_MEDIA_FORMAT v (drop 12 fs))"
proof (cases "length fs = 13")
  case True
  then have n: "n = length (last fs)" using assms(1) by (simp add: kept_field_def)
  have "fs \<noteq> []" using True by auto
  then have "is_word (last fs)" using assms(3) by (simp add: list_all_iff)
  then have n0: "n > 0" using n by (auto simp: is_word_def)
  obtain v1 v2 where v: "vec_room mem N_MEDIA_FORMAT (vec0 N_MEDIA_FORMAT None) = Inr v1" "v_count v1 = v_count (vec0 N_MEDIA_FORMAT (None :: ptr))"
      "vec_put N_MEDIA_FORMAT (v_count (vec0 N_MEDIA_FORMAT (None :: ptr))) (Some p) v1 = Some v2"
    and ok: "vec_rel (=) N_MEDIA_FORMAT (vec_inc v2) ([] @ [Some p])"
    using push_at [where mem = mem and Q = "(=)" and v = "vec0 N_MEDIA_FORMAT None" and xs = "[]" and x = "Some p" and y = "Some p"
        and n = N_MEDIA_FORMAT] assms(4) vec_rel_vec0 by metis
  have d: "drop 12 fs = [last fs]"
  proof -
    have "fs = butlast fs @ [last fs]" using \<open>fs \<noteq> []\<close> by simp
    moreover have "length (butlast fs) = 12" using True by simp
    ultimately show ?thesis by (metis append_eq_conv_conj)
  qed
  have "vec_elems N_MEDIA_FORMAT (vec_inc v2) = [Some p]" "vec_ok N_MEDIA_FORMAT (vec_inc v2)"
    using ok by (simp_all add: vec_rel_def list_all2_eq)
  then have "vec_rel R N_MEDIA_FORMAT (vec_inc v2) (drop 12 fs)" if "R (Some p) (last fs)" for R
    using that by (simp add: vec_rel_def d)
  moreover have "put_nul (p + n) sh = Some (sh\<lparr>raw := nuls ((p + n) # ps) (raw s)\<rparr>)"
    by (rule put_nul_nuls) (use assms(5,6) in auto)
  moreover have "sdp_append_media_format mem p m = Some (0, m\<lparr>m_fmt := vec_inc v2\<rparr>)"
    using v assms(7) by (simp add: sdp_append_media_format_def)
  ultimately show ?thesis using n0 True by (intro exI [of _ "vec_inc v2"]) (simp del: nuls.simps)
next
  case False
  then have "n = 0" "drop 12 fs = []" using assms(1,2) by (auto simp: kept_field_def)
  moreover have "m\<lparr>m_fmt := vec0 N_MEDIA_FORMAT None\<rparr> = m" using assms(7) by simp
  moreover have "sh\<lparr>raw := nuls ps (raw s)\<rparr> = sh" using assms(6) by simp
  ultimately show ?thesis using False by (intro exI [of _ "vec0 N_MEDIA_FORMAT None"]) simp
qed

lemma media_line:
  assumes r: "rel (sees (raw s) (offset s)) s d" and i: "inp s = (a @ print_words (b # c # fs)) @ 0x0D # 0x0A # rs"
    and w: "is_word a" "is_word b" "is_word c" "list_all is_word fs" "length fs \<le> 13" and mem: "\<And>n. mem n"
  shows "\<exists>s'. sdp_parse_media mem s = Some (0, s') \<and>
    line_done s (length (a @ print_words (b # c # fs)) + 2) (apply_line (MLine a b c fs) d) s'"
proof -
  let ?q = "offset s" and ?n = "length (a @ print_words (b # c # fs)) + 2"
  let ?e0 = "?q + length a" let ?e1 = "?e0 + 1 + length b" let ?e2 = "?e1 + 1 + length c"
  let ?E = "?e2 + length (print_words fs)"
  have i0: "inp s = a @ 0x20 # b @ 0x20 # c @ print_words fs @ 0x0D # 0x0A # rs" using i by simp
  have n: "?q + ?n = ?E + 2" by simp
  have l: "length (inp s) = ?n + length rs" using i by simp
  have len: "?E < length (raw s)" using l n unfolding length_drop by linarith
  have lens: "?e2 < length (raw s)" "?e1 < length (raw s)" "?e0 < length (raw s)" using len by linarith+
  obtain x r' where x: "x \<in> set BLANKS_CRLF" "print_words fs @ 0x0D # 0x0A # rs = x # r'" using after_words by blast
  have b20: "0x20 \<in> set BLANKS_CRLF" by simp
  note f0 = first_word [OF i0 w(1) b20]
  note f1 = next_word [where s = s, OF f0(2) w(2) b20]
  note f2 = next_word [where s = s, OF f1(3) [unfolded x(2)] w(3) x(1)]
  have d2: "drop ?e2 (raw s) = print_words fs @ 0x0D # 0x0A # rs" using f2(3) x(2) by simp
  have "length fs \<le> Suc 12" using w(5) by simp
  then obtain p k where sf: "skip_fields 13 (s\<lparr>offset := ?e2\<rparr>) = Some (p, k, s\<lparr>offset := ?E\<rparr>)"
    and kf: "kept_field 13 ?e2 fs p k (raw s) (0x0A # rs)"
    using skip_fields_at [where k = 12, OF d2 w(4)] by (auto simp: eval_nat_numeral)
  have dE: "drop ?E (raw s) = 0x0D # 0x0A # rs" by (rule drop_app [OF d2])
  have pk: "p + k = ?E" using kf by (simp add: kept_field_def)
  have nb: "\<not> blank (raw s ! (p + k))" using drop_in [OF dE] pk by (simp add: blank_def)
  let ?s1 = "s\<lparr>offset := ?E + 2\<rparr>" and ?p3 = "[?e2, ?e1, ?e0]"
  let ?m = "media0\<lparr>m_media := Some ?q, m_port := Some (?e0 + 1), m_proto := Some (?e1 + 1)\<rparr>"
  let ?sh = "s\<lparr>offset := ?E + 2, raw := nuls ?p3 (raw s)\<rparr>"
  have fm: "m_fmt ?m = vec0 N_MEDIA_FORMAT None" by (simp add: media0_def)
  have sh: "raw ?sh = nuls ?p3 (raw s)" by simp
  have pkl: "p + k < length (raw s)" using pk len by simp
  define qs where "qs = (if length fs = 13 then (p + k) # ?p3 else ?p3)"
  obtain v where both: "(if k > 0 then do { s \<leftarrow> put_nul (p + k) ?sh; (e, m) \<leftarrow> sdp_append_media_format mem p ?m; Some (e, e = 0, m, s) }
          else Some (0, True, ?m, ?sh)) = Some (0, True, ?m\<lparr>m_fmt := v\<rparr>, ?sh\<lparr>raw := nuls qs (raw s)\<rparr>) \<and>
      (\<forall>R. (length fs = 13 \<longrightarrow> R (Some p) (last fs)) \<longrightarrow> vec_rel R N_MEDIA_FORMAT v (drop 12 fs))"
    using kept_format [OF kf w(5,4) mem pkl sh fm] unfolding qs_def by (rule exE)
  note app = conjunct1 [OF both] and vr = conjunct2 [OF both]
  have qs: "qs = ?p3 \<or> qs = (p + k) # ?p3" by (simp add: qs_def)
  have qb: "\<forall>i\<in>set qs. ?q \<le> i \<and> i < ?q + ?n" using qs pk n by auto
  let ?R = "after_line s ?n qs"
  have old: "rel ?R s d" by (rule after_line_old [OF r]) (use qb in blast)
  have ra: "?R (Some ?q) a"
    by (rule after_line_new [OF i0 is_word_plain [OF w(1)]]) (use qs pk in auto)
  have rb: "?R (Some (?e0 + 1)) b"
    by (rule after_line_new [OF f1(2) is_word_plain [OF w(2)]]) (use qs pk in auto)
  have rc: "?R (Some (?e1 + 1)) c"
    by (rule after_line_new [OF f2(2) is_word_plain [OF w(3)]]) (use qs pk in auto)
  have vf: "vec_rel ?R N_MEDIA_FORMAT v (drop 12 fs)"
  proof -
    have "?R (Some p) (last fs)" if l13: "length fs = 13"
    proof -
      have k: "k = length (last fs)" "drop p (raw s) = last fs @ 0x0D # 0x0A # rs" "?e2 < p"
        using kf l13 by (simp_all add: kept_field_def)
      have lw: "is_word (last fs)" using w(4) l13 by (cases fs rule: rev_cases) auto
      show ?thesis by (rule after_line_new [OF k(2) is_word_plain [OF lw]]) (use l13 k pk in \<open>auto simp: qs_def\<close>)
    qed
    then show ?thesis using vr by blast
  qed
  have mr: "media_rel ?R (?m\<lparr>m_fmt := v\<rparr>) \<lparr>md_media = a, md_port = b, md_proto = c, md_fmt = drop 12 fs, md_i = None,
                 md_c = [], md_a = [], md_b = [], md_k = None\<rparr>" (is "media_rel _ _ ?md")
    using ra rb rc vf by (simp add: media_rel_def media0_def opt_rel_def key_rel_def N_EMAIL_def N_CONNECTION_def)
  obtain v1 v2 where v1: "vec_room mem N_MEDIA (sdp_m s) = Inr v1" "v_count v1 = v_count (sdp_m s)"
    and v2: "vec_put N_MEDIA (v_count (sdp_m s)) (?m\<lparr>m_fmt := v\<rparr>) v1 = Some v2"
    and pv: "vec_rel (media_rel ?R) N_MEDIA (vec_inc v2) (d_m d @ [?md])"
    by (rule push_at [where mem = mem and Q = "media_rel ?R" and x = "?m\<lparr>m_fmt := v\<rparr>" and y = ?md, OF rel_parts(6) [OF old] mr mem])
  have new: "rel ?R (s\<lparr>sdp_m := vec_inc v2\<rparr>) (d\<lparr>d_m := d_m d @ [?md]\<rparr>)" by (rule rel_store(14) [OF old pv])
  have "sdp_parse_media mem s = Some (0, (?sh\<lparr>raw := nuls qs (raw s)\<rparr>)\<lparr>sdp_m := vec_inc v2\<rparr>)"
    by (rule media_steps [OF v1(1) f0(1) f1(1) f2(1) sf _ _ crlf_here [OF dE] put_nul_next(2) [OF lens(3)] put_nul_next(1) [OF lens(2)]
        put_nul_next(1) [OF lens(1)] app v2 [folded v1(2)]]) (use pkl nb in simp_all)
  moreover have "(?sh\<lparr>raw := nuls qs (raw s)\<rparr>)\<lparr>sdp_m := vec_inc v2\<rparr> =
      s\<lparr>sdp_m := vec_inc v2, offset := ?q + ?n, raw := nuls qs (raw s)\<rparr>"
    unfolding n by simp
  moreover have "line_done s ?n (d\<lparr>d_m := d_m d @ [?md]\<rparr>) (s\<lparr>sdp_m := vec_inc v2, offset := ?q + ?n, raw := nuls qs (raw s)\<rparr>)"
    by (rule after_line_done [OF new qb]) simp_all
  ultimately show ?thesis by (intro exI conjI) (simp only:, simp only: apply_line.simps)
qed

end
