(* ===== verification/SdpRound.thy ===== *)
theory SdpRound
  imports SdpFields
begin

text \<open>
  The parser on whole descriptions: a printed description is read back, what the accessors give for
  it, and where the parser does not come back.
\<close>

section \<open>One line\<close>

fun is_uri :: "sdp_line \<Rightarrow> bool" where
  "is_uri (ULine w) = True"
| "is_uri _ = False"

lemma value_line:
  assumes r: "rel (sees (raw s) (offset s)) s d" and i: "inp s = line_body l @ 0x0D # 0x0A # rs" and ok: "line_ok l"
    and u: "is_uri l \<longrightarrow> d_u d = None" and mem: "\<And>n. mem n"
  shows "\<exists>s'. sdp_parse_value mem k (line_type l) s = Some (0, s') \<and>
    line_done s (length (line_body l) + 2) (apply_line l d) s'"
proof (cases l)
  case (VLine n)
  then show ?thesis using version_line [OF r, of n rs] i ok by (simp add: sdp_parse_value_def)
next
  case (OLine a b c e f g)
  then show ?thesis using origin_line [OF r, of a b c e f g rs] i ok
    by (simp add: sdp_parse_value_def del: print_words_Cons)
next
  case (SLine w)
  then show ?thesis using session_line [OF r, of w rs] i ok by (simp add: sdp_parse_value_def)
next
  case (ILine w)
  then show ?thesis using information_line [OF r, of w rs] i ok by (simp add: sdp_parse_value_def)
next
  case (ULine w)
  then show ?thesis using uri_line [OF r, of w rs] i ok u by (simp add: sdp_parse_value_def)
next
  case (YLine w)
  then show ?thesis using y_line [OF r, of w rs] i ok by (simp add: sdp_parse_value_def)
next
  case (ELine w)
  then show ?thesis using email_line [OF r, of w rs mem] i ok mem by (simp add: sdp_parse_value_def)
next
  case (PLine w)
  then show ?thesis using phone_line [OF r, of w rs mem] i ok mem by (simp add: sdp_parse_value_def)
next
  case (CLine a b c)
  then show ?thesis using connection_line [OF r, of a b c rs mem] i ok mem
    by (simp add: sdp_parse_value_def del: print_words_Cons)
next
  case (BLine a b)
  then show ?thesis using bandwidth_line [OF r, of a b rs mem] i ok mem by (simp add: sdp_parse_value_def)
next
  case (TLine a b)
  then show ?thesis using timing_line [OF r, of a b rs mem] i ok mem
    by (simp add: sdp_parse_value_def del: print_words_Cons)
next
  case (KLine a b)
  then show ?thesis using encryption_line [OF r, of a b rs] i ok by (simp add: sdp_parse_value_def)
next
  case (ALine a b)
  then show ?thesis using attribute_line [OF r, of a b rs mem] i ok mem by (simp add: sdp_parse_value_def)
next
  case (MLine a b c fs)
  then show ?thesis using media_line [OF r, of a b c fs rs mem] i ok mem
    by (simp add: sdp_parse_value_def del: print_words_Cons)
qed

lemma digit_not_blank: "is_digit c \<Longrightarrow> \<not> blank c"
  by (auto simp: is_digit_def blank_def word_le_nat_alt)

lemma body_head: "line_ok l \<Longrightarrow> \<not> blank (hd (line_body l @ [0x0D]))"
proof (cases l)
  case (VLine n)
  then show ?thesis using print_nat_Cons [of n] digit_not_blank by auto
next
  case (BLine a b)
  assume "line_ok l"
  then show ?thesis using BLine by (auto simp: print_pair_def is_text_def hd_append blank_def)
next
  case (KLine a b)
  assume "line_ok l"
  then show ?thesis using KLine by (auto simp: print_pair_def is_text_def hd_append blank_def)
next
  case (ALine a b)
  assume "line_ok l"
  then show ?thesis using ALine by (auto simp: print_pair_def is_text_def hd_append blank_def)
next
  case (OLine a b c e f g)
  assume "line_ok l"
  then show ?thesis using OLine is_word_head [of a] by (auto simp: is_word_def hd_append)
next
  case (CLine a b c)
  assume "line_ok l"
  then show ?thesis using CLine is_word_head [of a] by (auto simp: is_word_def hd_append)
next
  case (TLine a b)
  assume "line_ok l"
  then show ?thesis using TLine is_word_head [of a] by (auto simp: is_word_def hd_append)
next
  case (MLine a b c fs)
  assume "line_ok l"
  then show ?thesis using MLine is_word_head [of a] by (auto simp: is_word_def hd_append)
qed (use is_text_head in auto)

lemma skip_space_stay: "inp s = c # r \<Longrightarrow> \<not> blank c \<Longrightarrow> sdp_skip_space s = Some s"
  using skip_space_at [of s "[]" c r] by simp

lemma line_type_plain: "\<not> blank (line_type l) \<and> line_type l \<noteq> 0 \<and> line_type l \<noteq> 0x0D \<and> line_type l \<noteq> 0x0A"
  by (cases l) (simp_all add: blank_def)

text \<open>The type and the equals sign, for any type.\<close>

lemma parse_line_value:
  assumes i: "inp s = c # 0x3D # b # r" and c: "\<not> blank c" and b: "\<not> blank b"
  shows "sdp_parse_line mem k s = map_option (\<lambda>(r, s). (r = 0, s)) (sdp_parse_value mem k c (s\<lparr>offset := offset s + 2\<rparr>))"
    and "inp (s\<lparr>offset := offset s + 2\<rparr>) = b # r"
proof -
  have i1: "inp (step s) = 0x3D # b # r" using drop_app [of "offset s" "raw s" "[c]"] i by (simp add: step_def)
  have i2: "inp (step (step s)) = b # r" using drop_app [of "offset s" "raw s" "[c, 0x3D]"] i by (simp add: step_def)
  have ss: "step (step s) = s\<lparr>offset := offset s + 2\<rparr>" by (simp add: step_def)
  have "\<not> blank 0x3D" by (simp add: blank_def)
  then show "sdp_parse_line mem k s = map_option (\<lambda>(r, s). (r = 0, s)) (sdp_parse_value mem k c (s\<lparr>offset := offset s + 2\<rparr>))"
    using skip_space_stay [OF i c] skip_space_stay [OF i1] skip_space_stay [OF i2 b] current_at [OF i] current_at [OF i1]
    unfolding ss [symmetric]
    by (simp add: sdp_parse_line_def Let_def split: option.splits) (auto split: Option.bind_splits)
  show "inp (s\<lparr>offset := offset s + 2\<rparr>) = b # r" using i2 ss by simp
qed

text \<open>The round of the loop for one printed line.\<close>

definition stands :: "sdp_t \<Rightarrow> desc \<Rightarrow> bool" where
  "stands s d \<longleftrightarrow> rel (sees (raw s) (offset s)) s d"

lemma round_line:
  assumes r: "stands s d" and i: "inp s = print_line l @ rs" and ok: "line_ok l"
    and u: "is_uri l \<longrightarrow> d_u d = None" and mem: "\<And>n. mem n"
  shows "\<exists>s'. sdp_parse_loop mem (Suc k) s = sdp_parse_loop mem k s' \<and> stands s' (apply_line l d) \<and>
    inp s' = rs \<and> length (raw s') = length (raw s)"
proof -
  let ?b = "line_body l" and ?s = "s\<lparr>offset := offset s + 2\<rparr>"
  obtain h t where h: "?b @ 0x0D # 0x0A # rs = h # t" "h = hd (?b @ [0x0D])" by (cases ?b) auto
  have i': "inp s = line_type l # 0x3D # h # t" using i h(1) by (simp add: print_line_def)
  note pl = parse_line_value [OF i']
  have hb: "\<not> blank h" using body_head [OF ok] h(2) by simp
  have old: "rel (sees (raw ?s) (offset ?s)) ?s d"
    using rel_mono [OF _ r [unfolded stands_def]] sees_frame [of "raw s" "offset s" _ _ "raw s" "offset s + 2"] by simp
  have ib: "inp ?s = ?b @ 0x0D # 0x0A # rs" using pl(2) line_type_plain [of l] hb h(1) by simp
  obtain s' where s': "sdp_parse_value mem (Suc (length (raw s))) (line_type l) ?s = Some (0, s')"
      "line_done ?s (length ?b + 2) (apply_line l d) s'"
    using value_line [where mem = mem and k = "Suc (length (raw s))", OF old ib ok u mem] by auto
  have "sdp_parse_loop mem (Suc k) s = sdp_parse_loop mem k s'"
    using pl(1) line_type_plain [of l] hb s'(1) current_at [OF i'] by simp
  moreover obtain ps where ps: "offset s' = offset s + 2 + (length ?b + 2)" "raw s' = nuls ps (raw s)"
      "\<forall>i\<in>set ps. i < offset s'" "rel (sees (raw s') (offset s')) s' (apply_line l d)"
    using s'(2) unfolding line_done_def by auto
  moreover have "inp s' = rs"
  proof -
    have "inp s' = drop (offset s') (raw s)" unfolding ps(2) by (rule drop_nuls [OF ps(3)])
    also have "\<dots> = drop (length ?b + 2) (inp ?s)" using ps(1) by (simp add: add.commute add.left_commute)
    also have "\<dots> = rs" using ib by simp
    finally show ?thesis .
  qed
  ultimately show ?thesis by (intro exI [of _ s']) (simp add: stands_def)
qed

section \<open>Whole descriptions\<close>

definition print_sdp :: "sdp_line list \<Rightarrow> bytes" where
  "print_sdp ls = concat (map print_line ls)"

definition lines_ok :: "sdp_line list \<Rightarrow> bool" where
  "lines_ok ls \<longleftrightarrow> list_all line_ok ls \<and> length (filter is_uri ls) \<le> 1"

definition describes :: "sdp_line list \<Rightarrow> desc" where
  "describes ls = fold apply_line ls desc0"

lemma d_u_apply: "\<not> is_uri l \<Longrightarrow> d_u (apply_line l d) = d_u d"
  by (cases l) (simp_all add: on_media_def)

lemma loop_lines:
  assumes "stands s d" and "inp s = print_sdp ls @ rest" and "list_all line_ok ls"
    and "length (filter is_uri ls) \<le> (if d_u d = None then 1 else 0)" and mem: "\<And>n. mem n"
  shows "\<exists>s'. sdp_parse_loop mem (length ls + k) s = sdp_parse_loop mem k s' \<and> stands s' (fold apply_line ls d) \<and>
    inp s' = rest \<and> length (raw s') = length (raw s)"
  using assms(1-4)
proof (induction ls arbitrary: s d)
  case Nil
  then show ?case by (auto simp: print_sdp_def)
next
  case (Cons l ls)
  have i: "inp s = print_line l @ print_sdp ls @ rest" using Cons.prems(2) by (simp add: print_sdp_def)
  have u: "is_uri l \<longrightarrow> d_u d = None" using Cons.prems(4) by (auto split: if_splits)
  have ok: "line_ok l" "list_all line_ok ls" using Cons.prems(3) by simp_all
  obtain s1 where s1: "sdp_parse_loop mem (Suc (length ls + k)) s = sdp_parse_loop mem (length ls + k) s1"
      "stands s1 (apply_line l d)" "inp s1 = print_sdp ls @ rest" "length (raw s1) = length (raw s)"
    using round_line [where mem = mem and k = "length ls + k", OF Cons.prems(1) i ok(1) u mem] by (elim exE conjE)
  have "length (filter is_uri ls) \<le> (if d_u (apply_line l d) = None then 1 else 0)"
    using Cons.prems(4) d_u_apply [of l d] by (cases "is_uri l") (auto split: if_splits)
  then obtain s2 where "sdp_parse_loop mem (length ls + k) s1 = sdp_parse_loop mem k s2"
      "stands s2 (fold apply_line ls (apply_line l d))" "inp s2 = rest" "length (raw s2) = length (raw s1)"
    using Cons.IH [OF s1(2,3) ok(2)] by auto
  then show ?case using s1(1,4) by (simp del: sdp_parse_loop.simps) metis
qed

lemma print_sdp_length: "length ls \<le> length (print_sdp ls)"
  by (induction ls) (auto simp: print_sdp_def print_line_def)

text \<open>The loop of \<open>sdp_parse\<close> on a text that starts with printed lines.\<close>

lemma parse_lines:
  assumes "lines_ok ls" and mem: "\<And>n. mem n"
  obtains s k where "sdp_parse mem (print_sdp ls @ rest) =
      Option.bind (sdp_parse_loop mem (Suc k) s) (\<lambda>(ok, s). Some (if ok then Some s else None))"
    "stands s (describes ls)" "inp s = rest @ [0]" "length rest \<le> k"
proof -
  let ?b = "print_sdp ls @ rest" and ?s = "sdp0\<lparr>raw := (print_sdp ls @ rest) @ [0]\<rparr>"
  have st: "stands ?s desc0" unfolding stands_def by (rule rel_sdp0)
  have i: "inp ?s = print_sdp ls @ rest @ [0]" by (simp add: sdp0_def)
  have u: "length (filter is_uri ls) \<le> (if d_u desc0 = None then 1 else 0)" using assms(1) by (simp add: lines_ok_def desc0_def)
  let ?k = "length ?b - length ls"
  have k: "length ls + Suc ?k = length ?b + 1" using print_sdp_length [of ls] by simp
  have ok: "list_all line_ok ls" using assms(1) by (simp add: lines_ok_def)
  obtain s' where s': "sdp_parse_loop mem (length ls + Suc ?k) ?s = sdp_parse_loop mem (Suc ?k) s'"
      "stands s' (fold apply_line ls desc0)" "inp s' = rest @ [0]"
    using loop_lines [where mem = mem and k = "Suc ?k", OF st i ok u mem] by (elim exE conjE)
  have "sdp_parse mem ?b = Option.bind (sdp_parse_loop mem (Suc ?k) s') (\<lambda>(ok, s). Some (if ok then Some s else None))"
    using s'(1) mem unfolding k by (simp add: sdp_parse_def sdp_create_def del: sdp_parse_loop.simps)
  moreover have "length rest \<le> ?k" using print_sdp_length [of ls] by simp
  ultimately show ?thesis using that [of ?k s'] s'(2,3) unfolding describes_def by blast
qed

lemma parse_printed_rest:
  assumes "lines_ok ls" and "\<And>n. mem n" and "rest = [] \<or> hd rest \<in> {0x0D, 0x0A}"
  shows "\<exists>s. sdp_parse mem (print_sdp ls @ rest) = Some (Some s) \<and> holds_desc s (describes ls)"
proof -
  obtain s k where s: "sdp_parse mem (print_sdp ls @ rest) =
      Option.bind (sdp_parse_loop mem (Suc k) s) (\<lambda>(ok, s). Some (if ok then Some s else None))"
    "stands s (describes ls)" "inp s = rest @ [0]"
    using parse_lines [where mem = mem and rest = rest, OF assms(1,2)] by blast
  obtain c r where c: "rest @ [0] = c # r" "c \<in> {0, 0x0D, 0x0A}" using assms(3) by (cases rest) auto
  have "offset s \<le> length (raw s)" using s(3) drop_in [of "offset s" "raw s" c r] c(1) by simp
  then have "holds_desc s (describes ls)"
    using rel_mono [OF _ s(2) [unfolded stands_def]] sees_frame [of "raw s" "offset s" _ _ "raw s" "length (raw s)"]
    by (simp add: holds_desc_def)
  then show ?thesis using s(1) current_at [of s c r] s(3) c by auto
qed

lemma parse_printed:
  "lines_ok ls \<Longrightarrow> (\<And>n. mem n) \<Longrightarrow> \<exists>s. sdp_parse mem (print_sdp ls) = Some (Some s) \<and> holds_desc s (describes ls)"
  using parse_printed_rest [where rest = "[]"] by simp


text \<open>A play request of GB/T 28181.\<close>

definition play_lines :: "sdp_line list" where
  "play_lines =
    [VLine 0,
     OLine (of_string ''34020000001320000001'') [0x30] [0x30] (of_string ''IN'') (of_string ''IP4'') (of_string ''10.0.0.9''),
     SLine (of_string ''Play''),
     CLine (of_string ''IN'') (of_string ''IP4'') (of_string ''10.0.0.9''),
     TLine [0x30] [0x30],
     MLine (of_string ''video'') (print_nat 6000) (of_string ''RTP/AVP'') [of_string ''96''],
     ALine (of_string ''recvonly'') [],
     ALine (of_string ''sms'') (of_string ''0''),
     ALine (of_string ''streamMode'') (of_string ''MAIN''),
     YLine (of_string ''0100000001'')]"

lemma play_lines_ok: "lines_ok play_lines"
  by (simp add: lines_ok_def play_lines_def of_string_def is_word_def is_text_def plain_def blank_def print_nat.simps)


end
