(* ===== verification/SdpUse.thy ===== *)
theory SdpUse
  imports SdpRound
begin

text \<open>
  What the accessors of \<open>sdp.c\<close> give for a parsed description, the lines the parser does not come back
  from, and the copy of the connection address.
\<close>

section \<open>Accessors\<close>

lemma vec_rel_get:
  assumes "vec_rel Q n v xs" and "i < length xs"
  shows "\<exists>x. vec_get n i v = Some x \<and> Q x (xs ! i)"
proof -
  have ok: "vec_ok n v" and l: "list_all2 Q (vec_elems n v) xs" using assms(1) by (auto simp: vec_rel_def)
  have i: "i < v_count v" using vec_rel_count [OF assms(1)] assms(2) by simp
  show ?thesis using vec_get_elems [OF ok i] list_all2_nthD [OF l, of i] i by auto
qed

lemma attribute_scan_finds:
  assumes v: "vec_rel (attr_rel (sees (raw s) q)) N_ATTRIBUTE v xs"
  shows "i + k = length xs \<Longrightarrow>
    \<exists>p. attribute_scan s v name i k = Some p \<and> str_of s p = map_of (drop i xs) name \<and> (p = None \<longleftrightarrow> map_of (drop i xs) name = None)"
proof (induction k arbitrary: i)
  case 0
  then show ?case by (simp add: str_of_def)
next
  case (Suc k)
  then have i: "i < length xs" by simp
  obtain a where a: "vec_get N_ATTRIBUTE i v = Some a" "attr_rel (sees (raw s) q) a (xs ! i)" using vec_rel_get [OF v i] by blast
  have n: "str_of s (a_name a) = Some (fst (xs ! i))" and sv: "str_of s (a_value a) = Some (snd (xs ! i))"
    using a(2) by (auto simp: pair_rel_def dest: sees_str_at)
  obtain p where p: "a_name a = Some p" "str_at s p = Some (fst (xs ! i))" using n by (cases "a_name a") (auto simp: str_of_def)
  have m: "map_of (drop i xs) name = (if fst (xs ! i) = name then Some (snd (xs ! i)) else map_of (drop (Suc i) xs) name)"
    by (subst Cons_nth_drop_Suc [OF i, symmetric]) (cases "xs ! i", simp)
  have "a_value a \<noteq> None" using sv by (cases "a_value a") (simp_all add: str_of_def)
  then show ?case using Suc.IH [of "Suc i"] Suc.prems a p m sv by (cases "fst (xs ! i) = name") simp_all
qed

lemma holds_media:
  assumes "holds_desc s d" and "i < length (d_m d)"
  obtains m where "media_at s (int i) = Some m" "media_rel (sees (raw s) (length (raw s))) m (d_m d ! i)"
proof -
  have v: "vec_rel (media_rel (sees (raw s) (length (raw s)))) N_MEDIA (sdp_m s) (d_m d)"
    using assms(1) by (auto simp: holds_desc_def dest: rel_parts(6))
  obtain m where "vec_get N_MEDIA i (sdp_m s) = Some m" "media_rel (sees (raw s) (length (raw s))) m (d_m d ! i)"
    using vec_rel_get [OF v assms(2)] by blast
  then show ?thesis using that vec_rel_count [OF v] assms(2) by (simp add: media_at_def sdp_get_media_def)
qed

lemma opt_rel_str: "opt_rel (sees (raw s) q) p x \<Longrightarrow> str_of s p = x"
  by (auto simp: opt_rel_def str_of_def split: option.splits dest: sees_str_at [unfolded str_of_def])

lemma media_values:
  assumes "holds_desc s d" and "i < length (d_m d)"
  shows "str_of s (sdp_session_get_name s) = d_s d \<and> str_of s (sdp_y_get s) = d_y d \<and>
    sdp_media_count s = int (length (d_m d)) \<and>
    str_of s (sdp_media_type s (int i)) = Some (md_media (d_m d ! i)) \<and>
    str_of s (sdp_media_proto s (int i)) = Some (md_proto (d_m d ! i)) \<and>
    (\<exists>p. sdp_media_attribute_find s (int i) (Some name) = Some p \<and> str_of s p = map_of (md_a (d_m d ! i)) name \<and>
       (p = None \<longleftrightarrow> map_of (md_a (d_m d ! i)) name = None))"
proof -
  obtain m where m: "media_at s (int i) = Some m" "media_rel (sees (raw s) (length (raw s))) m (d_m d ! i)"
    by (rule holds_media [OF assms])
  have r: "rel (sees (raw s) (length (raw s))) s d" using assms(1) by (simp add: holds_desc_def)
  have 1: "str_of s (sdp_s s) = d_s d" "str_of s (sdp_y s) = d_y d"
    using r opt_rel_str by (auto simp: rel_def)
  have 2: "v_count (sdp_m s) = length (d_m d)" using vec_rel_count [OF rel_parts(6) [OF r]] .
  have 3: "str_of s (m_media m) = Some (md_media (d_m d ! i))" "str_of s (m_proto m) = Some (md_proto (d_m d ! i))"
    using m(2) sees_str_at by (auto simp: media_rel_def)
  have va: "vec_rel (attr_rel (sees (raw s) (length (raw s)))) N_ATTRIBUTE (m_a m) (md_a (d_m d ! i))"
    using m(2) by (simp add: media_rel_def)
  have "\<exists>p. sdp_media_attribute_find s (int i) (Some name) = Some p \<and> str_of s p = map_of (md_a (d_m d ! i)) name \<and>
      (p = None \<longleftrightarrow> map_of (md_a (d_m d ! i)) name = None)"
    using attribute_scan_finds [OF va, of 0 "v_count (m_a m)" name] vec_rel_count [OF va] m(1)
    by (simp add: sdp_media_attribute_find_def)
  then show ?thesis
    using 1 2 3 m(1) by (simp add: sdp_session_get_name_def sdp_y_get_def sdp_media_count_def sdp_media_type_def sdp_media_proto_def)
qed


lemma sint_small: "n < 2 ^ 31 \<Longrightarrow> sint (word_of_nat n :: u32) = int n"
proof -
  assume "n < 2 ^ 31"
  then have "sint (word_of_int (int n) :: u32) = int n"
    by (simp only: signed_of_int) (simp add: signed_take_bit_int_eq_self)
  then show ?thesis by simp
qed

lemma sint_atoi_print: "n < 2 ^ 31 \<Longrightarrow> r = [] \<or> \<not> is_digit (hd r) \<Longrightarrow> sint (atoi (print_nat n @ r)) = int n"
  by (simp only: atoi_print sint_small)

lemma no_slash: "0x2F \<notin> set (print_nat n)"
  using print_nat_digits [of n] by (auto simp: is_digit_def)

lemma media_port_value:
  assumes "holds_desc s d" and "i < length (d_m d)" and "n < 2 ^ 31" and "k < 2 ^ 31"
    and "md_port (d_m d ! i) = (if one then print_nat n else print_nat n @ 0x2F # print_nat k)"
  shows "sdp_media_port s (int i) = Some (0, Some (int n, if one then 1 else int k))"
proof -
  obtain m where m: "media_at s (int i) = Some m" "media_rel (sees (raw s) (length (raw s))) m (d_m d ! i)"
    by (rule holds_media [OF assms(1,2)])
  have p: "str_of s (m_port m) = Some (md_port (d_m d ! i))" using m(2) sees_str_at by (auto simp: media_rel_def)
  have s1: "sint (atoi (print_nat n)) = int n" using sint_atoi_print [OF assms(3), of "[]"] by simp
  have dw: "dropWhile (\<lambda>c. c \<noteq> 0x2F) (print_nat n @ r) = dropWhile (\<lambda>c. c \<noteq> 0x2F) r" for r
    using no_slash [of n] by (intro dropWhile_append2) auto
  have one: "sint (atoi [0x31]) = 1" using sint_atoi_print [of 1 "[]"] by (simp add: print_nat.simps)
  show ?thesis
  proof (cases one)
    case True
    then show ?thesis using m(1) p assms(5) s1 dw [of "[]"] one by (simp add: sdp_media_port_def)
  next
    case False
    have "sint (atoi (print_nat n @ 0x2F # print_nat k)) = int n"
      by (rule sint_atoi_print [OF assms(3)]) (simp add: is_digit_def)
    moreover have "sint (atoi (print_nat k)) = int k" using sint_atoi_print [OF assms(4), of "[]"] by simp
    ultimately show ?thesis using False m(1) p assms(5) dw [of "0x2F # print_nat k"] by (simp add: sdp_media_port_def)
  qed
qed

text \<open>
  The port field \<open>port\<close> or \<open>port/number\<close> of a media line is read back as the port and the number,
  which is 1 when it is not given.
\<close>

theorem media_port_reads:
  assumes "holds_desc s d" and "i < length (d_m d)" and "n < 2 ^ 31" and "k < 2 ^ 31"
    and "md_port (d_m d ! i) = (if one then print_nat n else print_nat n @ 0x2F # print_nat k)"
  shows "sdp_media_port s (int i) = Some (0, Some (int n, if one then 1 else int k))"
  by (rule media_port_value [OF assms])

lemma play_structure: "\<exists>s. holds_desc s (describes play_lines)"
  using parse_printed [OF play_lines_ok, of "\<lambda>n. True"] by blast


theorem media_port_reads_witness:
  "\<exists>s. holds_desc s (describes play_lines) \<and> sdp_media_port s 0 = Some (0, Some (6000, 1))"
proof -
  obtain s where s: "holds_desc s (describes play_lines)" using play_structure by blast
  have "md_port (d_m (describes play_lines) ! 0) = (if True then print_nat 6000 else print_nat 6000 @ 0x2F # print_nat 0)"
      "0 < length (d_m (describes play_lines))"
    by (simp_all add: describes_def play_lines_def desc0_def on_media_def)
  then show ?thesis using s media_port_reads [OF s, of 0 6000 0 True] by auto
qed

section \<open>Lines the parser does not come back from\<close>

text \<open>
  Once a NUL stands where the loop over the offsets of a repeat line looks, its condition holds and a
  round changes nothing more: \<open>strchr\<close> finds the NUL.
\<close>

lemma field_at_nul:
  assumes "current s = Some 0"
  shows "sdp_field BLANKS_CRLF s = Some (offset s, 0, s)"
proof -
  have t: "inp s = [] @ 0 # drop (Suc (offset s)) (raw s)"
    using assms Cons_nth_drop_Suc [of "offset s" "raw s"] by (auto simp: current_def split: if_splits)
  have "run_length f (raw s) (offset s) = Some 0" if "\<not> f 0" for f
    using run_length_at [of "offset s" "raw s" "[]" 0 _ f, OF t] that by simp
  then show ?thesis by (simp add: sdp_field_def sdp_skip_space_def sdp_token_word_def blank_def)
qed

lemma repeat_round_stuck:
  assumes "current s = Some 0"
  shows "repeat_more s = Some True" and "repeat_round mem (r, off, 0, s) = Some (0, r, Some (offset s), 0, s)"
  using assms field_at_nul [OF assms]
  by (simp_all add: repeat_more_def repeat_round_def flush_offset_def split: option.splits)

lemma repeat_loop_stuck: "current s = Some 0 \<Longrightarrow> repeat_loop mem k (r, off, 0, s) = None"
  by (induction k arbitrary: r off) (simp_all add: repeat_round_stuck)



definition repeat_state :: sdp_t where
  "repeat_state = sdp0\<lparr>raw := of_string ''7d 1h 0 25h'' @ [0x0D, 0x0A, 0],
     sdp_t := \<lparr>v_count = 1, v_fixed = [timing0], v_ptr = []\<rparr>\<rparr>"


definition known_type :: "u8 \<Rightarrow> bool" where
  "known_type c \<longleftrightarrow> c \<in> set (of_string ''vosiuepcbtrzkamy'')"

text \<open>
  After any well-formed lines, a line whose type is not one of the sixteen stops the process at
  \<open>assert(0)\<close>: so does the \<open>f=\<close> line of GB/T 28181 itself.
\<close>

theorem unknown_line_aborts:
  assumes "lines_ok ls" and "\<And>n. mem n" and "\<not> known_type c" and "c \<notin> {0, 0x0D, 0x0A}" and "\<not> blank c" and "\<not> blank b"
  shows "sdp_parse mem (print_sdp ls @ c # 0x3D # b # r) = None"
proof -
  obtain s k where s: "sdp_parse mem (print_sdp ls @ c # 0x3D # b # r) =
      Option.bind (sdp_parse_loop mem (Suc k) s) (\<lambda>(ok, s). Some (if ok then Some s else None))"
    "stands s (describes ls)" "inp s = (c # 0x3D # b # r) @ [0]" "length (c # 0x3D # b # r) \<le> k"
    by (rule parse_lines [where mem = mem and rest = "c # 0x3D # b # r", OF assms(1,2)])
  have i: "inp s = c # 0x3D # b # r @ [0]" using s(3) by simp
  have "sdp_parse_value mem j c t = None" for j t
    using assms(3) by (simp add: sdp_parse_value_def known_type_def of_string_def)
  then have "sdp_parse_loop mem (Suc k) s = None"
    using parse_line_value(1) [OF i assms(5,6)] current_at [OF i] assms(4) by simp
  then show ?thesis using s(1) by simp
qed

theorem unknown_line_aborts_witness:
  "sdp_parse (\<lambda>n. True) (print_sdp play_lines @ of_string ''f=v/2/4/25/1/512a/1/8/1'' @ [0x0D, 0x0A]) = None"
proof -
  have t: "of_string ''f=v/2/4/25/1/512a/1/8/1'' @ [0x0D, 0x0A] = 0x66 # 0x3D # 0x76 # of_string ''/2/4/25/1/512a/1/8/1'' @ [0x0D, 0x0A]"
    by (simp add: of_string_def)
  show ?thesis unfolding t
    by (rule unknown_line_aborts [OF play_lines_ok]) (simp_all add: known_type_def of_string_def blank_def)
qed

section \<open>The connection address\<close>

lemma copy_address_repeats:
  assumes "p < length (raw s)" and "raw s ! p \<noteq> 0" and "raw s ! p \<noteq> 0x2F"
  shows "room > 0 \<Longrightarrow> copy_address s p room out = Some (-1, out @ replicate (nat room - 1) (raw s ! p))"
proof (induction "nat room" arbitrary: room out)
  case (Suc n)
  show ?case
  proof (cases "room > 1")
    case True
    have h: "copy_address s p (room - 1) (out @ [raw s ! p]) =
        Some (-1, (out @ [raw s ! p]) @ replicate (nat (room - 1) - 1) (raw s ! p))"
      using Suc.hyps(1) [of "room - 1" "out @ [raw s ! p]"] Suc.hyps(2) True by simp
    have "replicate (nat room - 1) (raw s ! p) = raw s ! p # replicate (nat (room - 1) - 1) (raw s ! p)"
    proof -
      have "nat room - 1 = Suc (nat (room - 1) - 1)" using True by linarith
      then show ?thesis by (simp only: replicate_Suc)
    qed
    then show ?thesis using h True assms by (subst copy_address.simps) (simp add: Let_def)
  next
    case False
    then have "room = 1" using Suc.prems by simp
    then show ?thesis using assms by (subst copy_address.simps) (simp add: Let_def)
  qed
qed simp

text \<open>
  \<open>sdp_connection_get_address\<close> never moves along the address: it succeeds, with an empty string,
  only for an address that is empty or starts with a slash; for any other it fills the caller's array
  with copies of the first character, writes no terminator and reports failure.
\<close>

theorem connection_address_first_char:
  assumes "str_of s (c_address (sdp_c s)) = Some w" and "room > 0"
  shows "sdp_connection_get_address s room =
    (if w = [] \<or> hd w = 0x2F then Some (0, [0]) else Some (-1, replicate (nat room - 1) (hd w)))"
proof -
  obtain p where p: "c_address (sdp_c s) = Some p" "str_at s p = Some w"
    using assms(1) by (cases "c_address (sdp_c s)") (auto simp: str_of_def)
  have z: "0 \<in> set (drop p (raw s))" and w: "w = takeWhile (\<lambda>x. x \<noteq> 0) (drop p (raw s))"
    using p(2) by (auto simp: str_at_def c_str_def split: if_splits)
  have len: "p < length (raw s)" using z by (metis drop_eq_Nil empty_iff list.set(1) not_le_imp_less)
  obtain t where t: "drop p (raw s) = raw s ! p # t" using len by (simp add: Cons_nth_drop_Suc [symmetric])
  have hw: "w = [] \<longleftrightarrow> raw s ! p = 0" "raw s ! p \<noteq> 0 \<Longrightarrow> hd w = raw s ! p" using w t by simp_all
  show ?thesis
  proof (cases "w = [] \<or> hd w = 0x2F")
    case True
    then have "raw s ! p = 0 \<or> raw s ! p = 0x2F" using hw by (cases "raw s ! p = 0") auto
    then have "copy_address s p room [] = Some (0, [0])"
      using len by (subst copy_address.simps) (auto simp: Let_def)
    then show ?thesis using p(1) True assms(2) by (simp add: sdp_connection_get_address_def connection_address_def)
  next
    case False
    then show ?thesis using p(1) copy_address_repeats [OF len _ _ assms(2), of "[]"] hw assms(2)
      by (simp add: sdp_connection_get_address_def connection_address_def)
  qed
qed

theorem connection_address_first_char_witness:
  "sdp_connection_get_address (sdp0\<lparr>raw := of_string ''10.0.0.9'' @ [0], sdp_c := connection0\<lparr>c_address := Some 0\<rparr>\<rparr>) 16 =
     Some (-1, replicate 15 0x31)"
proof -
  have "str_of (sdp0\<lparr>raw := of_string ''10.0.0.9'' @ [0], sdp_c := connection0\<lparr>c_address := Some 0\<rparr>\<rparr>) (Some 0) = Some (of_string ''10.0.0.9'')"
    by (simp add: str_of_def str_at_def of_string_def c_str_def)
  then show ?thesis
    using connection_address_first_char [of "sdp0\<lparr>raw := of_string ''10.0.0.9'' @ [0], sdp_c := connection0\<lparr>c_address := Some 0\<rparr>\<rparr>"
        "of_string ''10.0.0.9''" 16]
    by (simp add: of_string_def)
qed

end
