(* ===== verification/StreamWorld.thy ===== *)
theory StreamWorld
  imports StreamHash LfQueue
begin

text \<open>
  The state the stream side of the server runs on: the table of streams, the clients, the frame
  queues, the heap blocks of frames and receive buffers, the buffered sockets of libevent with their
  registered callbacks, and the tasks in the thread pool. An access to something that was freed, or
  through a null pointer, is undefined behaviour: \<open>None\<close>. What is asked of the kernel, of libevent
  and of the pool is recorded in the trace of \<open>ClientOpt\<close>.
\<close>

section \<open>State\<close>

record QUEUE_ARGS =
  qa_iDataPreBufSize :: int
  qa_iDataLen :: int
  qa_pDataBuf :: "nat option"

text \<open>The callbacks a buffered socket can have, by the name of the function.\<close>

datatype data_cb = Recv_cmd_from_hbserver | Recv_stream_cb | Client_read_cb
datatype event_cb = Connect_event_cb | Recv_stream_err_cb | Client_event_cb

record bufev =
  bv_input :: bytes
  bv_read :: "data_cb option"
  bv_event :: "event_cb option"
  bv_arg :: nat

record stream_world =
  table :: STREAM_HASH_TABLE
  cw :: client_world
  queues :: "nat \<rightharpoonup> QUEUE_ARGS lf_queue"
  blocks :: "nat \<rightharpoonup> bytes"
  bevs :: "nat \<rightharpoonup> bufev"
  pool :: "nat set"

section \<open>Access\<close>

definition get_stream :: "stream_world \<Rightarrow> nat \<Rightarrow> STREAM_NODE option" where
  "get_stream w n = stream_nodes (table w) n"

definition put_stream :: "nat \<Rightarrow> STREAM_NODE \<Rightarrow> stream_world \<Rightarrow> stream_world" where
  "put_stream n s w = w\<lparr>table := (table w)\<lparr>stream_nodes := (stream_nodes (table w))(n \<mapsto> s)\<rparr>\<rparr>"

definition note_effect :: "effect \<Rightarrow> stream_world \<Rightarrow> stream_world" where
  "note_effect e w = w\<lparr>cw := emit e (cw w)\<rparr>"

definition lock_stream :: "u32 \<Rightarrow> stream_world \<Rightarrow> stream_world" where
  "lock_stream h = note_effect (Lock h)"

definition unlock_stream :: "u32 \<Rightarrow> stream_world \<Rightarrow> stream_world" where
  "unlock_stream h = note_effect (Unlock h)"

lemma put_stream_simps [simp]:
  "get_stream (put_stream n s w) m = (if m = n then Some s else get_stream w m)"
  "cw (put_stream n s w) = cw w" "queues (put_stream n s w) = queues w" "blocks (put_stream n s w) = blocks w"
  "bevs (put_stream n s w) = bevs w" "pool (put_stream n s w) = pool w"
  "listStreamNodeHead (table (put_stream n s w)) = listStreamNodeHead (table w)"
  by (simp_all add: put_stream_def get_stream_def)

lemma get_stream_update [simp]:
  "get_stream (w\<lparr>cw := c\<rparr>) = get_stream w" "get_stream (w\<lparr>blocks := b\<rparr>) = get_stream w"
  "get_stream (w\<lparr>bevs := v\<rparr>) = get_stream w" "get_stream (w\<lparr>queues := q\<rparr>) = get_stream w"
  "get_stream (w\<lparr>pool := p\<rparr>) = get_stream w"
  by (simp_all add: get_stream_def fun_eq_iff)

lemma note_effect_simps [simp]:
  "get_stream (note_effect e w) = get_stream w" "queues (note_effect e w) = queues w"
  "blocks (note_effect e w) = blocks w" "bevs (note_effect e w) = bevs w" "pool (note_effect e w) = pool w"
  "table (note_effect e w) = table w" "cw (note_effect e w) = emit e (cw w)"
  by (simp_all add: note_effect_def)

section \<open>Releasing\<close>

definition free_stream :: "nat \<Rightarrow> stream_world \<Rightarrow> stream_world option" where
  "free_stream n w =
     (if get_stream w n = None then None
      else Some (w\<lparr>table := (table w)\<lparr>stream_nodes := (stream_nodes (table w))(n := None)\<rparr>\<rparr>))"

definition free_block :: "nat \<Rightarrow> stream_world \<Rightarrow> stream_world option" where
  "free_block a w = (if blocks w a = None then None else Some (w\<lparr>blocks := (blocks w)(a := None)\<rparr>))"

definition free_bev :: "nat \<Rightarrow> stream_world \<Rightarrow> stream_world option" where
  "free_bev b w =
     (if bevs w b = None then None
      else Some (note_effect (Bufferevent_free b) (w\<lparr>bevs := (bevs w)(b := None)\<rparr>)))"

text \<open>\<open>if (p != NULL) { free(p); p = NULL; }\<close> for the receive buffer of a stream.\<close>

definition free_source :: "nat \<Rightarrow> stream_world \<Rightarrow> stream_world option" where
  "free_source n w = do {
     s \<leftarrow> get_stream w n;
     case hGetStreamFromSource s of None \<Rightarrow> Some w
     | Some a \<Rightarrow> do {
         w \<leftarrow> free_block a w;
         Some (put_stream n (s\<lparr>hGetStreamFromSource := None\<rparr>) w)
       }
   }"

section \<open>Lists and queues\<close>

definition destroy_clients :: "nat \<Rightarrow> stream_world \<Rightarrow> stream_world option" where
  "destroy_clients n w = do {
     s \<leftarrow> get_stream w n;
     (cl, c) \<leftarrow> destory_client_list (listClientNodeHead s) (cw w);
     Some (put_stream n (s\<lparr>listClientNodeHead := cl\<rparr>) (w\<lparr>cw := c\<rparr>))
   }"

definition unlink_stream :: "nat \<Rightarrow> stream_world \<Rightarrow> stream_world option" where
  "unlink_stream n w = map_option (\<lambda>t. w\<lparr>table := t\<rparr>) (del_node_from_stream_hash_table (table w) n)"

text \<open>The queue functions through a handle: a null handle is refused with -2.\<close>

definition queue_len :: "nat option \<Rightarrow> stream_world \<Rightarrow> int option" where
  "queue_len h w = (case h of None \<Rightarrow> Some (-2) | Some q \<Rightarrow> map_option nolock_queue_len (queues w q))"

definition queue_push :: "QUEUE_ARGS \<Rightarrow> nat option \<Rightarrow> stream_world \<Rightarrow> (int \<times> stream_world) option" where
  "queue_push d h w =
     (case h of None \<Rightarrow> Some (-2, w)
      | Some q \<Rightarrow> do {
          f \<leftarrow> queues w q;
          (r, f) \<leftarrow> nolock_queue_push d f;
          Some (r, w\<lparr>queues := (queues w)(q \<mapsto> f)\<rparr>)
        })"

definition queue_pop :: "nat option \<Rightarrow> stream_world \<Rightarrow> (int \<times> QUEUE_ARGS option \<times> stream_world) option" where
  "queue_pop h w =
     (case h of None \<Rightarrow> Some (-2, None, w)
      | Some q \<Rightarrow> do {
          f \<leftarrow> queues w q;
          (r, d, f) \<leftarrow> nolock_queue_pop f;
          Some (r, d, w\<lparr>queues := (queues w)(q \<mapsto> f)\<rparr>)
        })"

definition queue_destroy :: "nat \<Rightarrow> stream_world \<Rightarrow> stream_world option" where
  "queue_destroy n w = do {
     s \<leftarrow> get_stream w n;
     case queueStreamData s of None \<Rightarrow> Some w
     | Some q \<Rightarrow>
         if queues w q = None then None
         else Some (put_stream n (s\<lparr>queueStreamData := None\<rparr>) (w\<lparr>queues := (queues w)(q := None)\<rparr>))
   }"

text \<open>
  \<open>clear_rtp_data_from_queue\<close> (one copy in each of the three files): pop and free while the length is positive. The
  argument \<open>k\<close> bounds the rounds.
\<close>

fun clear_rounds :: "nat \<Rightarrow> nat option \<Rightarrow> stream_world \<Rightarrow> stream_world option" where
  "clear_rounds 0 h w = None"
| "clear_rounds (Suc k) h w = do {
     l \<leftarrow> queue_len h w;
     if l \<le> 0 then Some w
     else do {
       (r, d, w) \<leftarrow> queue_pop h w;
       d \<leftarrow> d;
       w \<leftarrow> (case qa_pDataBuf d of None \<Rightarrow> Some w | Some a \<Rightarrow> free_block a w);
       clear_rounds k h w
     }
   }"

text \<open>A queue of length \<open>l\<close> is empty after \<open>l\<close> rounds.\<close>

definition clear_rtp_data_from_queue :: "nat option \<Rightarrow> stream_world \<Rightarrow> stream_world option" where
  "clear_rtp_data_from_queue h w = do {
     l \<leftarrow> queue_len h w;
     clear_rounds (Suc (nat l)) h w
   }"

end
