(* ===== verification/NetLayer.thy ===== *)
theory NetLayer
  imports StreamWorld
begin

text \<open>
  The framing of the media server's protocol (\<open>NET_LAYER\<close> of \<open>inc/stream/get_frame.h\<close>) as
  \<open>src/stream/get_frame_from_hbserver.c\<close> writes and reads it: a 28-byte little-endian header, then at
  most 8192 bytes of a message that is cut into blocks with a head and a tail flag.
\<close>

section \<open>Little-endian fields\<close>

definition le32 :: "int \<Rightarrow> bytes" where
  "le32 x = rev (be32 (word_of_int x))"

definition le64 :: "u64 \<Rightarrow> bytes" where
  "le64 x = rev (be32 (ucast x)) @ rev (be32 (ucast (drop_bit 32 x)))"

text \<open>An \<open>int\<close> read back from its four bytes, and an unsigned value from its bytes.\<close>

definition le_value :: "bytes \<Rightarrow> nat" where
  "le_value bs = be_val (rev bs)"

definition le_s32 :: "bytes \<Rightarrow> int" where
  "le_s32 bs = to_s32 (int (le_value bs))"

lemma length_le32 [simp, size_facts]: "length (le32 x) = 4"
  by (simp add: le32_def)

lemma length_le64 [simp, size_facts]: "length (le64 x) = 8"
  by (simp add: le64_def)

lemma le_value_le32: "le_value (le32 x) = unat (word_of_int x :: u32)"
  by (simp add: le_value_def le32_def)

lemma le_s32_le32: "le_s32 (le32 x) = to_s32 x"
  by (simp add: le_s32_def le_value_le32 to_s32_def)

section \<open>NET_LAYER\<close>

definition NET_BUFFER_LEN :: nat where "NET_BUFFER_LEN = 8 * 1024"
definition Net_LAYER_STRUCT_LEN :: nat where "Net_LAYER_STRUCT_LEN = 28 + NET_BUFFER_LEN"
definition PACKAGE_EXTRA_LEN :: nat where "PACKAGE_EXTRA_LEN = Net_LAYER_STRUCT_LEN - NET_BUFFER_LEN"

definition DATA_TYPE_SMS_CMD :: int where "DATA_TYPE_SMS_CMD = 12"
definition DATA_TYPE_SMS_MEDIA :: int where "DATA_TYPE_SMS_MEDIA = 13"

record NET_LAYER =
  iActLength :: int
  byProtocolType :: u8
  byProtocolVer :: u8
  byDataType :: u8
  byFrameType :: u8
  iTimeStampHigh :: int
  iTimeStampLow :: int
  iVodFilePercent :: int
  iVodCurFrameNo :: int
  byBlockHeadFlag :: u8
  byBlockEndFlag :: u8
  byReserved1 :: u8
  byReserved2 :: u8

text \<open>The bytes of the header, and the header read from the first 28 bytes that arrived.\<close>

definition NET_LAYER_bytes :: "NET_LAYER \<Rightarrow> bytes" where
  "NET_LAYER_bytes l =
     le32 (iActLength l) @ [byProtocolType l, byProtocolVer l, byDataType l, byFrameType l] @
     le32 (iTimeStampHigh l) @ le32 (iTimeStampLow l) @ le32 (iVodFilePercent l) @ le32 (iVodCurFrameNo l) @
     [byBlockHeadFlag l, byBlockEndFlag l, byReserved1 l, byReserved2 l]"

definition NET_LAYER_read :: "bytes \<Rightarrow> NET_LAYER" where
  "NET_LAYER_read b =
     \<lparr>iActLength = le_s32 (take 4 b), byProtocolType = b ! 4, byProtocolVer = b ! 5, byDataType = b ! 6,
      byFrameType = b ! 7, iTimeStampHigh = le_s32 (take 4 (drop 8 b)), iTimeStampLow = le_s32 (take 4 (drop 12 b)),
      iVodFilePercent = le_s32 (take 4 (drop 16 b)), iVodCurFrameNo = le_s32 (take 4 (drop 20 b)),
      byBlockHeadFlag = b ! 24, byBlockEndFlag = b ! 25, byReserved1 = b ! 26, byReserved2 = b ! 27\<rparr>"

lemma length_NET_LAYER_bytes [simp, size_facts]: "length (NET_LAYER_bytes l) = 28"
  by (simp add: NET_LAYER_bytes_def)

definition s32_fields :: "NET_LAYER \<Rightarrow> bool" where
  "s32_fields l \<longleftrightarrow> to_s32 (iActLength l) = iActLength l \<and> to_s32 (iTimeStampHigh l) = iTimeStampHigh l \<and>
     to_s32 (iTimeStampLow l) = iTimeStampLow l \<and> to_s32 (iVodFilePercent l) = iVodFilePercent l \<and>
     to_s32 (iVodCurFrameNo l) = iVodCurFrameNo l"

lemma NET_LAYER_read_bytes: "s32_fields l \<Longrightarrow> NET_LAYER_read (NET_LAYER_bytes l @ r) = l"
  by (simp add: NET_LAYER_read_def NET_LAYER_bytes_def le_s32_le32 s32_fields_def nth_append)

section \<open>SendDataToStream\<close>

text \<open>One block of the message: the header fields this round sets, and its data.\<close>

definition send_block :: "bytes \<Rightarrow> nat \<Rightarrow> nat \<Rightarrow> nat \<Rightarrow> NET_LAYER \<Rightarrow> (NET_LAYER \<times> bytes) option" where
  "send_block pCmd iSplit iLastBlockLength i l =
     (if i = iSplit - 1 then do {
        d \<leftarrow> mem_read pCmd (i * NET_BUFFER_LEN) iLastBlockLength;
        let l = l\<lparr>iActLength := int (PACKAGE_EXTRA_LEN + iLastBlockLength)\<rparr>;
        Some (if iSplit = 1 then l\<lparr>byBlockHeadFlag := 1, byBlockEndFlag := 1\<rparr>
              else l\<lparr>byBlockHeadFlag := 0, byBlockEndFlag := 1\<rparr>, d)
      } else do {
        d \<leftarrow> mem_read pCmd (i * NET_BUFFER_LEN) NET_BUFFER_LEN;
        let l = l\<lparr>iActLength := int Net_LAYER_STRUCT_LEN\<rparr>;
        Some (if i = 0 then l\<lparr>byBlockHeadFlag := 1, byBlockEndFlag := 0\<rparr>
              else l\<lparr>byBlockHeadFlag := 0, byBlockEndFlag := 0\<rparr>, d)
      })"

fun send_rounds :: "bytes \<Rightarrow> nat \<Rightarrow> nat \<Rightarrow> nat list \<Rightarrow> NET_LAYER \<Rightarrow> bytes list option" where
  "send_rounds pCmd iSplit iLast [] l = Some []"
| "send_rounds pCmd iSplit iLast (i # is) l = do {
     (l, d) \<leftarrow> send_block pCmd iSplit iLast i l;
     out \<leftarrow> send_rounds pCmd iSplit iLast is l;
     Some ((NET_LAYER_bytes l @ d) # out)
   }"

text \<open>The number of blocks and the length of the last.\<close>

definition split_of :: "nat \<Rightarrow> nat \<times> nat" where
  "split_of nLength =
     (if nLength mod NET_BUFFER_LEN = 0 then (nLength div NET_BUFFER_LEN, NET_BUFFER_LEN)
      else ((nLength + NET_BUFFER_LEN) div NET_BUFFER_LEN, nLength mod NET_BUFFER_LEN))"

text \<open>The header on the stack: \<open>r1\<close> and \<open>r2\<close> are the reserved bytes, which the code does not set.\<close>

definition net_layer0 :: "u8 \<Rightarrow> u8 \<Rightarrow> int \<Rightarrow> NET_LAYER" where
  "net_layer0 r1 r2 nDataType =
     \<lparr>iActLength = 0, byProtocolType = 0, byProtocolVer = 9, byDataType = word_of_int nDataType, byFrameType = 0,
      iTimeStampHigh = 0, iTimeStampLow = 0, iVodFilePercent = 0, iVodCurFrameNo = 0,
      byBlockHeadFlag = 0, byBlockEndFlag = 0, byReserved1 = r1, byReserved2 = r2\<rparr>"

text \<open>The blocks in the order they are written; the function returns 0 whatever was sent.\<close>

definition data_blocks :: "u8 \<Rightarrow> u8 \<Rightarrow> bytes \<Rightarrow> nat \<Rightarrow> int \<Rightarrow> bytes list option" where
  "data_blocks r1 r2 pCmd nLength nDataType =
     (let (iSplit, iLast) = split_of nLength
      in send_rounds pCmd iSplit iLast [0..<iSplit] (net_layer0 r1 r2 nDataType))"

definition SendDataToStream ::
  "u8 \<Rightarrow> u8 \<Rightarrow> nat \<Rightarrow> bytes \<Rightarrow> nat \<Rightarrow> int \<Rightarrow> stream_world \<Rightarrow> (int \<times> stream_world) option" where
  "SendDataToStream r1 r2 b pCmd nLength nDataType w = do {
     bev \<leftarrow> bevs w b;
     out \<leftarrow> data_blocks r1 r2 pCmd nLength nDataType;
     Some (0, fold (\<lambda>d. note_effect (Bufferevent_write b d)) out w)
   }"

section \<open>Receiving\<close>

text \<open>
  The loop that both receive callbacks share: blocks go one behind the other into the receive buffer \<open>buf\<close>, of
  which \<open>len\<close> bytes are used, until a tail block has come or the input ends. The length of a block is an \<open>int\<close> compared
  with a \<open>size_t\<close>; what is less than the header's own 28 bytes makes the size of the second read
  wrap, and \<open>bufferevent_read\<close> then gives all there is. The result: the header of the tail block if
  there was one, the input left, the buffer and its length.
\<close>

function recv_blocks :: "bytes \<Rightarrow> bytes \<Rightarrow> int \<Rightarrow> (NET_LAYER option \<times> bytes \<times> bytes \<times> int) option" where
  "recv_blocks inp buf len =
     (if length inp < 28 then Some (None, inp, buf, len)
      else let l = NET_LAYER_read inp in
        if length inp < unat (word_of_int (iActLength l) :: u64) then Some (None, inp, buf, len)
        else do {
          let inp = drop 28 inp;
          let n = min (length inp) (unat (word_of_int (iActLength l - 28) :: u64));
          off \<leftarrow> ptr_add 0 len;
          buf \<leftarrow> mem_write buf off (take n inp);
          let len = to_s32 (len + (iActLength l - 28));
          if byBlockEndFlag l \<noteq> 0 then Some (Some l, drop n inp, buf, len)
          else recv_blocks (drop n inp) buf len
        })"
  by pat_completeness auto
termination
  by (relation "measure (\<lambda>(inp, buf, len). length inp)") auto

declare recv_blocks.simps [simp del]

end
