(* ===== verification/NetSpec.thy ===== *)
theory NetSpec
  imports NetLayer RtpSpec
begin

text \<open>
  The framing is faithful: what \<open>SendDataToStream\<close> writes, the receive loop of the callbacks puts
  together again, however the bytes are cut by the transport on their way.
\<close>

section \<open>One block\<close>

lemma s32_small: "0 \<le> x \<Longrightarrow> x < 2 ^ 31 \<Longrightarrow> to_s32 x = x"
  by (simp add: to_s32_id)

lemma unat_u64_small: "0 \<le> x \<Longrightarrow> x < 2 ^ 31 \<Longrightarrow> unat (word_of_int x :: u64) = nat x"
  by (simp add: unsigned_of_int take_bit_int_eq_self)

lemma recv_blocks_one:
  assumes l: "s32_fields l" "iActLength l = int (28 + length d)" and off: "off + length d < 2 ^ 31"
  shows "recv_blocks (NET_LAYER_bytes l @ d @ rest) buf (int off) =
    Option.bind (mem_write buf off d) (\<lambda>buf.
      if byBlockEndFlag l \<noteq> 0 then Some (Some l, rest, buf, int (off + length d))
      else recv_blocks rest buf (int (off + length d)))"
proof -
  have s: "0 \<le> iActLength l" "iActLength l < 2 ^ 31"
  proof -
    have "to_s32 (iActLength l) = iActLength l" using l(1) by (simp add: s32_fields_def)
    moreover have "to_s32 x < 2 ^ 31" for x using sint_lt [of "word_of_int x :: u32"] by (simp add: to_s32_def)
    ultimately show "iActLength l < 2 ^ 31" by metis
  qed (simp add: l(2))
  then have n: "unat (word_of_int (iActLength l) :: u64) = 28 + length d"
    by (subst unat_u64_small [OF s]) (simp add: l(2))
  have m: "unat (word_of_int (iActLength l - 28) :: u64) = length d"
    using s l(2) by (subst unat_u64_small) simp_all
  have t: "to_s32 (int off + (iActLength l - 28)) = int (off + length d)"
    using off l(2) by (subst s32_small) simp_all
  show ?thesis
    by (subst recv_blocks.simps) (simp add: NET_LAYER_read_bytes [OF l(1)] n m t ptr_add_def Let_def del: of_int_diff cong: if_cong)
qed

section \<open>Arrival in pieces\<close>

text \<open>No block that has come is shorter than its own header.\<close>

function sane :: "bytes \<Rightarrow> bool" where
  "sane inp =
     (if length inp < 28 then True
      else if iActLength (NET_LAYER_read inp) < 28 then False
      else if int (length inp) < iActLength (NET_LAYER_read inp) then True
      else sane (drop (nat (iActLength (NET_LAYER_read inp))) inp))"
  by pat_completeness auto
termination
  by (relation "measure length") auto

declare sane.simps [simp del]

lemma NET_LAYER_read_append: "28 \<le> length inp \<Longrightarrow> NET_LAYER_read (inp @ ys) = NET_LAYER_read inp"
  by (simp add: NET_LAYER_read_def nth_append)

lemma iActLength_read: "iActLength (NET_LAYER_read inp) < 2 ^ 31"
  using sint_lt [where 'a = 32] by (simp add: NET_LAYER_read_def le_s32_def to_s32_def)

lemma sane_prefix: "sane (p @ q) \<Longrightarrow> sane p"
proof (induction p rule: sane.induct)
  case (1 p)
  let ?a = "iActLength (NET_LAYER_read p)"
  show ?case
  proof (cases "length p < 28 \<or> int (length p) < ?a")
    case True
    then show ?thesis using "1.prems" by (subst sane.simps) (subst (asm) sane.simps, auto simp: NET_LAYER_read_append split: if_splits)
  next
    case False
    then have "28 \<le> ?a \<and> sane (drop (nat ?a) p @ q)"
      using "1.prems" by (subst (asm) sane.simps) (auto simp: NET_LAYER_read_append split: if_splits)
    then show ?thesis using False "1.IH" by (subst sane.simps) auto
  qed
qed

lemma recv_blocks_append:
  "sane inp \<Longrightarrow> recv_blocks (inp @ ys) buf len = Option.bind (recv_blocks inp buf len)
     (\<lambda>(h, i, b, l). case h of None \<Rightarrow> recv_blocks (i @ ys) b l | Some _ \<Rightarrow> Some (h, i @ ys, b, l))"
proof (induction inp arbitrary: buf len rule: measure_induct_rule [where f = length])
  case (less inp)
  let ?l = "NET_LAYER_read inp"
  let ?a = "iActLength ?l"
  consider "length inp < 28" | "28 \<le> length inp" "28 \<le> ?a" "int (length inp) < ?a" |
    "28 \<le> length inp" "28 \<le> ?a" "?a \<le> int (length inp)" "sane (drop (nat ?a) inp)"
    using less.prems by (subst (asm) sane.simps) (metis linorder_not_less)
  then show ?case
  proof cases
    case 1
    then show ?thesis by (subst (2) recv_blocks.simps) simp
  next
    case 2
    then have "length inp < unat (word_of_int ?a :: u64)"
      using unat_u64_small [of ?a] iActLength_read [of inp] by simp
    then have "recv_blocks inp buf len = Some (None, inp, buf, len)"
      by (subst recv_blocks.simps) (simp add: Let_def)
    then show ?thesis by simp
  next
    case 3
    have "unat (word_of_int ?a :: u64) = nat ?a"
      by (rule unat_u64_small) (use 3 iActLength_read [of inp] in simp_all)
    moreover have "unat (word_of_int (?a - 28) :: u64) = nat ?a - 28"
      by (subst unat_u64_small) (use 3 iActLength_read [of inp] in simp_all)
    ultimately have a: "unat (word_of_int ?a :: u64) = nat ?a" "unat (word_of_int (?a - 28) :: u64) = nat ?a - 28" .
    have le: "nat ?a \<le> length inp" "28 \<le> nat ?a" using 3 by simp_all
    have step: "recv_blocks (inp @ r) buf len = Option.bind (ptr_add 0 len) (\<lambda>off.
        Option.bind (mem_write buf off (take (nat ?a - 28) (drop 28 inp))) (\<lambda>buf.
          if byBlockEndFlag ?l \<noteq> 0 then Some (Some ?l, drop (nat ?a) inp @ r, buf, to_s32 (len + (?a - 28)))
          else recv_blocks (drop (nat ?a) inp @ r) buf (to_s32 (len + (?a - 28)))))" for r
      using 3(1) le by (subst recv_blocks.simps) (simp add: NET_LAYER_read_append a Let_def del: of_int_diff cong: if_cong)
    have "length (drop (nat ?a) inp) < length inp" using le by simp
    note ih = less.IH [OF this 3(4)]
    show ?thesis
      using step [of "[]"] by (simp add: step ih cong: if_cong) (auto split: bind_splits)
  qed
qed

lemma sane_block:
  assumes "s32_fields l" "iActLength l = int (28 + length d)"
  shows "sane (NET_LAYER_bytes l @ d @ rest) = sane rest"
  by (subst sane.simps) (simp add: NET_LAYER_read_bytes [OF assms(1)] assms(2) nat_add_distrib)

section \<open>The whole message\<close>

lemma send_block_fields:
  assumes "send_block pCmd iSplit iLast i l = Some (l', d)" and "0 < iLast" "iLast \<le> NET_BUFFER_LEN"
  shows "iActLength l' = int (28 + length d)" "byBlockEndFlag l' = (if i = iSplit - 1 then 1 else 0)"
    "byBlockHeadFlag l' = (if i = 0 then 1 else 0) \<or> i = iSplit - 1"
    "byDataType l' = byDataType l" "s32_fields l \<Longrightarrow> s32_fields l'" "length d \<le> NET_BUFFER_LEN"
  using assms
  by (auto simp: send_block_def mem_read_def s32_fields_def s32_small NET_BUFFER_LEN_def PACKAGE_EXTRA_LEN_def
        Net_LAYER_STRUCT_LEN_def Let_def split: if_splits bind_splits)

lemma send_block_ok:
  assumes "c = (if i = iSplit - 1 then iLast else NET_BUFFER_LEN)" and "i * NET_BUFFER_LEN + c \<le> length pCmd"
  shows "\<exists>l'. send_block pCmd iSplit iLast i l = Some (l', take c (drop (i * NET_BUFFER_LEN) pCmd))"
  using assms by (cases "i = iSplit - 1") (simp_all add: send_block_def mem_read_def Let_def)

text \<open>The blocks from \<open>i\<close> on, and what the loop makes of them.\<close>

lemma send_rounds_received:
  assumes "i < iSplit" and "0 < iLast" "iLast \<le> NET_BUFFER_LEN"
    and n: "(iSplit - 1) * NET_BUFFER_LEN + iLast = n" "n \<le> length pCmd"
    and "s32_fields l" and "off + (n - i * NET_BUFFER_LEN) \<le> length buf" "length buf < 2 ^ 31"
  shows "\<exists>out l'. send_rounds pCmd iSplit iLast [i..<iSplit] l = Some out \<and> length out = iSplit - i \<and>
    (\<forall>d\<in>set out. length d \<le> Net_LAYER_STRUCT_LEN) \<and> byDataType l' = byDataType l \<and> byBlockEndFlag l' = 1 \<and>
    (sane rest \<longrightarrow> sane (concat out @ rest)) \<and>
    recv_blocks (concat out @ rest) buf (int off) =
      map_option (\<lambda>buf. (Some l', rest, buf, int (off + (n - i * NET_BUFFER_LEN))))
        (mem_write buf off (drop (i * NET_BUFFER_LEN) (take n pCmd)))"
  using assms
proof (induction "iSplit - i" arbitrary: i l off buf)
  case (Suc k)
  let ?B = NET_BUFFER_LEN
  define c where "c = (if i = iSplit - 1 then iLast else ?B)"
  have in_cmd: "i * ?B + c \<le> n"
  proof (cases "i = iSplit - 1")
    case False
    then have "(i + 1) * ?B \<le> (iSplit - 1) * ?B" using Suc.prems(1) by (intro mult_right_mono) simp_all
    then show ?thesis using Suc.prems(4) False by (simp add: c_def)
  qed (use Suc.prems(4) in \<open>simp add: c_def\<close>)
  obtain l1 where b: "send_block pCmd iSplit iLast i l = Some (l1, take c (drop (i * ?B) pCmd))"
    using send_block_ok [OF c_def, of pCmd l] in_cmd Suc.prems(5) by (meson le_trans)
  define d where "d = take c (drop (i * ?B) pCmd)"
  have ld: "length d = c" using in_cmd Suc.prems(5) by (simp add: d_def)
  note b = b [folded d_def]
  note f = send_block_fields [OF b Suc.prems(2,3)]
  have up: "[i..<iSplit] = i # [Suc i..<iSplit]" using Suc.prems(1) by (simp add: upt_rec)
  have room: "off + c \<le> length buf" using in_cmd Suc.prems(7) by simp
  have one: "recv_blocks (NET_LAYER_bytes l1 @ d @ r) buf (int off) = Option.bind (mem_write buf off d) (\<lambda>buf.
      if byBlockEndFlag l1 \<noteq> 0 then Some (Some l1, r, buf, int (off + c)) else recv_blocks r buf (int (off + c)))" for r
    using recv_blocks_one [OF f(5) [OF Suc.prems(6)] f(1), of off r buf] Suc.prems(8) room unfolding ld by simp
  show ?case
  proof (cases "i = iSplit - 1")
    case True
    then have c: "c = iLast" "n - i * ?B = iLast" "i * ?B + iLast = n" using Suc.prems(4) by (auto simp: c_def)
    then have "drop (i * ?B) (take n pCmd) = d" by (metis d_def take_drop add.commute)
    moreover have last: "[Suc i..<iSplit] = []" "iSplit - i = 1" using True Suc.prems(1) by auto
    moreover have fl: "byBlockEndFlag l1 = 1" "length (NET_LAYER_bytes l1 @ d) \<le> Net_LAYER_STRUCT_LEN"
      using f(2,6) True by (simp_all add: Net_LAYER_STRUCT_LEN_def)
    moreover have "recv_blocks (concat [NET_LAYER_bytes l1 @ d] @ rest) buf (int off) =
        map_option (\<lambda>buf. (Some l1, rest, buf, int (off + iLast))) (mem_write buf off d)"
      using one [of rest] fl(1) c(1) by (cases "mem_write buf off d") simp_all
    moreover have "send_rounds pCmd iSplit iLast [i..<iSplit] l = Some [NET_LAYER_bytes l1 @ d]"
      using b last(1) by (simp only: up) simp
    moreover have "sane rest \<Longrightarrow> sane (concat [NET_LAYER_bytes l1 @ d] @ rest)"
      using sane_block [OF f(5) [OF Suc.prems(6)] f(1), of rest] by simp
    ultimately show ?thesis
      using f(4) c(2) by (intro exI [of _ "[NET_LAYER_bytes l1 @ d]"] exI [of _ l1]) simp
  next
    case False
    then have lt: "Suc i < iSplit" and c: "c = ?B" using Suc.prems(1) by (simp_all add: c_def)
    obtain buf' where w: "mem_write buf off d = Some buf'"
      using mem_write_defined [of buf off d] ld room by auto
    have lb: "length buf' = length buf" using mem_write_length [OF w] .
    have n1: "n - i * ?B = ?B + (n - Suc i * ?B)" using in_cmd c by simp
    obtain out l' where o: "send_rounds pCmd iSplit iLast [Suc i..<iSplit] l1 = Some out" "length out = iSplit - Suc i"
      "\<forall>d\<in>set out. length d \<le> Net_LAYER_STRUCT_LEN" "byDataType l' = byDataType l1" "byBlockEndFlag l' = 1"
      "sane rest \<Longrightarrow> sane (concat out @ rest)"
      "recv_blocks (concat out @ rest) buf' (int (off + ?B)) =
        map_option (\<lambda>buf. (Some l', rest, buf, int (off + ?B + (n - Suc i * ?B))))
        (mem_write buf' (off + ?B) (drop (Suc i * ?B) (take n pCmd)))"
    proof -
      have "k = iSplit - Suc i" "off + ?B + (n - Suc i * ?B) \<le> length buf'" "length buf' < 2 ^ 31"
        using Suc.hyps(2) Suc.prems(7,8) lb n1 by simp_all
      then show thesis
        using Suc.hyps(1) [OF _ lt Suc.prems(2-5) f(5) [OF Suc.prems(6)]] that by blast
    qed
    have cut: "drop (i * ?B) (take n pCmd) = d @ drop (Suc i * ?B) (take n pCmd)"
    proof -
      have "d = take ?B (drop (i * ?B) (take n pCmd))"
        using in_cmd c by (simp add: d_def drop_take min_absorb1)
      moreover have "drop (Suc i * ?B) (take n pCmd) = drop ?B (drop (i * ?B) (take n pCmd))" by (simp add: add.commute)
      ultimately show ?thesis by (metis append_take_drop_id)
    qed
    have fl: "byBlockEndFlag l1 = 0" "length (NET_LAYER_bytes l1 @ d) \<le> Net_LAYER_STRUCT_LEN"
      using f(2,6) False by (simp_all add: Net_LAYER_STRUCT_LEN_def)
    have "recv_blocks (concat ((NET_LAYER_bytes l1 @ d) # out) @ rest) buf (int off) =
        map_option (\<lambda>buf. (Some l', rest, buf, int (off + (n - i * ?B)))) (mem_write buf off (drop (i * ?B) (take n pCmd)))"
      unfolding cut using one [of "concat out @ rest"] o(7) w ld c fl(1) n1 by (simp add: mem_write_append add.assoc)
    moreover have "send_rounds pCmd iSplit iLast [i..<iSplit] l = Some ((NET_LAYER_bytes l1 @ d) # out)"
      using b o(1) by (simp add: up)
    moreover have "sane rest \<Longrightarrow> sane (concat ((NET_LAYER_bytes l1 @ d) # out) @ rest)"
      using sane_block [OF f(5) [OF Suc.prems(6)] f(1), of "concat out @ rest"] o(6) by simp
    ultimately show ?thesis
      using o(2-5) f(4) fl(2) lt by (intro exI [of _ "(NET_LAYER_bytes l1 @ d) # out"] exI [of _ l']) auto
  qed
qed simp

lemma split_of_parts:
  assumes "0 < n" and "split_of n = (iSplit, iLast)"
  shows "0 < iSplit" "0 < iLast" "iLast \<le> NET_BUFFER_LEN" "(iSplit - 1) * NET_BUFFER_LEN + iLast = n"
    "iSplit = (n + (NET_BUFFER_LEN - 1)) div NET_BUFFER_LEN"
proof -
  show "0 < iSplit" "0 < iLast" "iLast \<le> NET_BUFFER_LEN"
    using assms by (auto simp: split_of_def NET_BUFFER_LEN_def split: if_splits)
  define q m where "q = n div 8192" and "m = n mod 8192"
  have n: "n = 8192 * q + m" "m < 8192" by (simp_all add: q_def m_def)
  have s: "iSplit = (if m = 0 then q else q + 1)" "iLast = (if m = 0 then 8192 else m)"
    using assms(2) by (auto simp: split_of_def NET_BUFFER_LEN_def q_def m_def split: if_splits)
  show "(iSplit - 1) * NET_BUFFER_LEN + iLast = n"
    using n assms(1) by (cases q) (auto simp: s NET_BUFFER_LEN_def)
  have "(n + 8191) div 8192 = iSplit"
    by (rule div_nat_eqI) (use n in \<open>auto simp: s\<close>)
  then show "iSplit = (n + (NET_BUFFER_LEN - 1)) div NET_BUFFER_LEN" by (simp add: NET_BUFFER_LEN_def)
qed

lemma sent_is_received:
  assumes "0 < n" "n \<le> length pCmd" and "off + n \<le> length buf" "length buf < 2 ^ 31"
  shows "\<exists>out l. data_blocks ra rb pCmd n t = Some out \<and> length out = (n + 8191) div 8192 \<and>
    (\<forall>d\<in>set out. length d \<le> Net_LAYER_STRUCT_LEN) \<and> byDataType l = word_of_int t \<and> byBlockEndFlag l = 1 \<and>
    (sane rest \<longrightarrow> sane (concat out @ rest)) \<and>
    recv_blocks (concat out @ rest) buf (int off) =
      Some (Some l, rest, take off buf @ take n pCmd @ drop (off + n) buf, int (off + n))"
proof -
  obtain iSplit iLast where s: "split_of n = (iSplit, iLast)" by fastforce
  note p = split_of_parts [OF assms(1) s]
  have "s32_fields (net_layer0 ra rb t)" by (simp add: s32_fields_def net_layer0_def s32_small)
  then obtain out l where o: "send_rounds pCmd iSplit iLast [0..<iSplit] (net_layer0 ra rb t) = Some out"
    "length out = iSplit" "\<forall>d\<in>set out. length d \<le> Net_LAYER_STRUCT_LEN" "byDataType l = word_of_int t"
    "byBlockEndFlag l = 1" "sane rest \<Longrightarrow> sane (concat out @ rest)" "recv_blocks (concat out @ rest) buf (int off) =
      map_option (\<lambda>buf. (Some l, rest, buf, int (off + n))) (mem_write buf off (take n pCmd))"
    using send_rounds_received [OF p(1-4) assms(2), of "net_layer0 ra rb t" off buf rest] assms(3,4)
    by (auto simp: net_layer0_def)
  moreover have "mem_write buf off (take n pCmd) = Some (take off buf @ take n pCmd @ drop (off + n) buf)"
    using assms(2,3) by (simp add: mem_write_def min_absorb2)
  moreover have "iSplit = (n + 8191) div 8192" using p(5) by (simp add: NET_BUFFER_LEN_def)
  ultimately show ?thesis
    using s by (intro exI [of _ out] exI [of _ l]) (simp add: data_blocks_def)
qed

text \<open>
  C8. Framing round trip, however the transport cuts it. A message of \<open>n > 0\<close> bytes leaves as one
  block per 8192 bytes begun, none larger than the structure. The receive loop that is given any first
  part of what was written does not yet report a message; given the rest, it reports the tail block with
  the data type that was sent, and the receive buffer holds the message behind what was there,
  everything else in it and the bytes that follow the message being untouched.
\<close>

theorem message_framing:
  assumes "0 < n" "n \<le> length pCmd" and "off + n \<le> length buf" "length buf < 2 ^ 31"
  shows "\<exists>out l. data_blocks ra rb pCmd n t = Some out \<and> length out = (n + 8191) div 8192 \<and>
    (\<forall>d\<in>set out. length d \<le> 28 + 8192) \<and> byDataType l = word_of_int t \<and>
    (\<forall>p q. concat out = p @ q \<and> q \<noteq> [] \<longrightarrow>
       (\<exists>inp buf' len. recv_blocks p buf (int off) = Some (None, inp, buf', len) \<and>
          recv_blocks (inp @ q @ rest) buf' len =
            Some (Some l, rest, take off buf @ take n pCmd @ drop (off + n) buf, int (off + n))))"
proof -
  let ?res = "\<lambda>r. (r, take off buf @ take n pCmd @ drop (off + n) buf, int (off + n))"
  obtain out l where o: "data_blocks ra rb pCmd n t = Some out" "length out = (n + 8191) div 8192"
    "\<forall>d\<in>set out. length d \<le> Net_LAYER_STRUCT_LEN" "byDataType l = word_of_int t"
    "sane [] \<longrightarrow> sane (concat out @ [])" "recv_blocks (concat out @ []) buf (int off) = Some (Some l, ?res [])"
    using sent_is_received [OF assms, where rest = "[]" and t = t and ra = ra and rb = rb] by metis
  have sane: "sane (concat out)" using o(5) by (simp add: sane.simps)
  have all: "recv_blocks (concat out @ rest) buf (int off) = Some (Some l, ?res rest)"
    using recv_blocks_append [OF sane] o(6) by simp
  have "\<exists>inp buf' len. recv_blocks p buf (int off) = Some (None, inp, buf', len) \<and>
      recv_blocks (inp @ q @ rest) buf' len = Some (Some l, ?res rest)" if pq: "concat out = p @ q" "q \<noteq> []" for p q
  proof -
    have p: "sane p" using sane sane_prefix unfolding pq(1) by blast
    note app = recv_blocks_append [OF p]
    obtain h inp buf' len where r: "recv_blocks p buf (int off) = Some (h, inp, buf', len)"
      using all app [of "q @ rest" buf "int off"] by (cases "recv_blocks p buf (int off)") (auto simp: pq(1))
    have "h = None"
      using o(6) app [of q buf "int off"] r pq by (cases h) auto
    then show ?thesis using r all app [of "q @ rest" buf "int off"] by (simp add: pq(1))
  qed
  then show ?thesis using o(1-4) by (intro exI [of _ out] exI [of _ l]) (simp add: Net_LAYER_STRUCT_LEN_def NET_BUFFER_LEN_def)
qed

theorem message_framing_witness:
  "\<exists>out l. data_blocks 0 0 [7, 8, 9] 3 12 = Some out \<and> length out = (3 + 8191) div 8192 \<and>
    (\<forall>d\<in>set out. length d \<le> 28 + 8192) \<and> byDataType l = word_of_int 12 \<and>
    (\<forall>p q. concat out = p @ q \<and> q \<noteq> [] \<longrightarrow>
       (\<exists>inp buf' len. recv_blocks p [0, 0, 0, 0] (int 1) = Some (None, inp, buf', len) \<and>
          recv_blocks (inp @ q @ [5]) buf' len =
            Some (Some l, [5], take 1 [0, 0, 0, 0] @ take 3 [7, 8, 9] @ drop (1 + 3) [0, 0, 0, 0], int (1 + 3))))"
  by (rule message_framing) simp_all

end
