(* ===== verification/HbServer.thy ===== *)
theory HbServer
  imports NetLayer
begin

text \<open>
  \<open>src/stream/get_frame_from_hbserver.c\<close>: fetching a stream from the media server. Each function that
  libevent calls is one operation on the stream world; \<open>n\<close> is the address of the stream node it was
  registered with, \<open>b\<close> the buffered socket. What the allocator, the thread pool and the kernel answer
  is an argument.
\<close>

section \<open>Text\<close>

text \<open>\<open>strstr(s, pat) != NULL\<close>.\<close>

fun has_prefix :: "bytes \<Rightarrow> bytes \<Rightarrow> bool" where
  "has_prefix [] s = True"
| "has_prefix (p # ps) [] = False"
| "has_prefix (p # ps) (c # cs) = (p = c \<and> has_prefix ps cs)"

fun strstr_in :: "bytes \<Rightarrow> bytes \<Rightarrow> bool" where
  "strstr_in pat [] = has_prefix pat []"
| "strstr_in pat (c # cs) = (has_prefix pat (c # cs) \<or> strstr_in pat cs)"

definition SUCCESS :: bytes where "SUCCESS = of_string ''SUCCESS''"
definition ImOK :: bytes where "ImOK = of_string ''<TYPE>ImOK</TYPE>''"

section \<open>BOX_CTRL_CMD\<close>

definition I_FRAME :: int where "I_FRAME = 1"
definition BP_FRAME :: int where "BP_FRAME = 2"
definition AUDIO_FRAME :: int where "AUDIO_FRAME = 3"

record BOX_CTRL_CMD =
  box_header :: bytes
  cmd_length :: int
  data_type :: int
  cmd_type :: int
  cmd_code :: int
  v_pts :: u64

definition box_cmd_zero :: BOX_CTRL_CMD where
  "box_cmd_zero = \<lparr>box_header = replicate 8 0, cmd_length = 0, data_type = 0, cmd_type = 0, cmd_code = 0, v_pts = 0\<rparr>"

definition BOX_CTRL_CMD_bytes :: "BOX_CTRL_CMD \<Rightarrow> bytes" where
  "BOX_CTRL_CMD_bytes c =
     box_header c @ le32 (cmd_length c) @ le32 (data_type c) @ le32 (cmd_type c) @ le32 (cmd_code c) @ le64 (v_pts c)"

definition BOX_CTRL_CMD_read :: "bytes \<Rightarrow> BOX_CTRL_CMD" where
  "BOX_CTRL_CMD_read b =
     \<lparr>box_header = take 8 b, cmd_length = le_s32 (take 4 (drop 8 b)), data_type = le_s32 (take 4 (drop 12 b)),
      cmd_type = le_s32 (take 4 (drop 16 b)), cmd_code = le_s32 (take 4 (drop 20 b)),
      v_pts = word_of_nat (le_value (take 8 (drop 24 b)))\<rparr>"

section \<open>recv_stream_cb\<close>

record recv_answers =
  ra_task_set_ok :: bool
  ra_malloc :: "nat option"
  ra_junk :: "nat \<Rightarrow> u8"

text \<open>
  The head of the frame. The two halves of the time are \<open>int\<close>s: the lower one is sign-extended when
  it is added. A frame type other than the three listed leaves \<open>data_type\<close> zero.
\<close>

definition frame_head :: "NET_LAYER \<Rightarrow> int \<Rightarrow> BOX_CTRL_CMD" where
  "frame_head l len =
     (let c = box_cmd_zero\<lparr>box_header := of_string ''hBzHbox@'', cmd_length := len\<rparr>;
          c = (if byFrameType l = 0 then c\<lparr>data_type := BP_FRAME\<rparr>
               else if byFrameType l = 1 then c\<lparr>data_type := I_FRAME\<rparr>
               else if byFrameType l = 4 then c\<lparr>data_type := AUDIO_FRAME\<rparr>
               else c)
      in c\<lparr>v_pts := (push_bit 32 (word_of_int (iTimeStampHigh l)) + word_of_int (iTimeStampLow l)) * 90\<rparr>)"

text \<open>\<open>iRtpDataBufPreSize\<close>: room for the RTP headers in front of the frame.\<close>

definition pre_size :: "int \<Rightarrow> int" where
  "pre_size len = (len div MAX_RTP_PACKET_SIZE + 1) * 20 + MAX_RTP_PACKET_SIZE"

text \<open>The block a frame is queued in: junk from \<open>malloc\<close>, the head, the frame.\<close>

definition frame_block :: "(nat \<Rightarrow> u8) \<Rightarrow> BOX_CTRL_CMD \<Rightarrow> bytes \<Rightarrow> bytes" where
  "frame_block junk c d = map junk [0..<nat (pre_size (int (length d)))] @ BOX_CTRL_CMD_bytes c @ d"

text \<open>
  A negative length makes the size of the copy wrap. The pointer that \<open>malloc\<close> gives is not checked, nor is the
  result of the push.
\<close>

definition queue_frame :: "recv_answers \<Rightarrow> nat \<Rightarrow> NET_LAYER \<Rightarrow> stream_world \<Rightarrow> stream_world option" where
  "queue_frame e n l w = do {
     s \<leftarrow> get_stream w n;
     let c = frame_head l (iRecvStreamDataLen s);
     let iDataLen = cmd_length c;
     a \<leftarrow> ra_malloc e;
     if iDataLen < 0 then None
     else do {
       src \<leftarrow> hGetStreamFromSource s;
       buf \<leftarrow> blocks w src;
       d \<leftarrow> mem_read buf 0 (nat iDataLen);
       let w = w\<lparr>blocks := (blocks w)(a \<mapsto> frame_block (ra_junk e) c d)\<rparr>;
       (r, w) \<leftarrow> queue_push \<lparr>qa_iDataPreBufSize = pre_size iDataLen, qa_iDataLen = iDataLen + 32,
                    qa_pDataBuf = Some a\<rparr> (queueStreamData s) w;
       Some (put_stream n (s\<lparr>iRecvStreamDataLen := 0\<rparr>) w)
     }
   }"

text \<open>Starting the send task on the first key frame; the flag tells whether the callback goes on.\<close>

definition start_send_task :: "recv_answers \<Rightarrow> nat \<Rightarrow> stream_world \<Rightarrow> (bool \<times> stream_world) option" where
  "start_send_task e n w = do {
     s \<leftarrow> get_stream w n;
     if ra_task_set_ok e
     then Some (True, put_stream n (s\<lparr>uRtpClientNodeSendDataThreadFlag := 1\<rparr>)
                       (note_effect (Task_queue n) (w\<lparr>pool := insert n (pool w)\<rparr>)))
     else do {
       let h = uStreamNodeHashValue s;
       let w = lock_stream h w;
       w \<leftarrow> destroy_clients n w;
       w \<leftarrow> clear_rtp_data_from_queue (queueStreamData s) w;
       w \<leftarrow> queue_destroy n w;
       w \<leftarrow> free_source n w;
       w \<leftarrow> free_stream n w;
       Some (False, unlock_stream h w)
     }
   }"

text \<open>What follows the loop after a \<open>break\<close>.\<close>

definition recv_stream_fail :: "nat \<Rightarrow> nat \<Rightarrow> stream_world \<Rightarrow> stream_world option" where
  "recv_stream_fail b n w = do {
     w \<leftarrow> free_bev b w;
     s \<leftarrow> get_stream w n;
     let h = uStreamNodeHashValue s;
     if uRtpClientNodeSendDataThreadFlag s = 0 then do {
       let w = lock_stream h w;
       w \<leftarrow> unlink_stream n w;
       w \<leftarrow> destroy_clients n w;
       let w = unlock_stream h w;
       w \<leftarrow> clear_rtp_data_from_queue (queueStreamData s) w;
       w \<leftarrow> queue_destroy n w;
       w \<leftarrow> free_source n w;
       free_stream n w
     }
     else if uRtpClientNodeSendDataThreadFlag s = 1 \<or> uRtpClientNodeSendDataThreadFlag s = 2 then do {
       let w = lock_stream h w;
       c \<leftarrow> disable_client_rtp_list_bev (listClientNodeHead s) (cw w);
       let w = unlock_stream h (w\<lparr>cw := c\<rparr>);
       s \<leftarrow> get_stream w n;
       Some (put_stream n (s\<lparr>uGetStreamThreadStartFlag := 2\<rparr>) w)
     }
     else Some w
   }"

text \<open>
  The blocks that are there, taken from the socket into the receive buffer. The buffer is only touched
  when a whole block is there: a buffer that is not allocated has no room for it.
\<close>

definition source_data :: "STREAM_NODE \<Rightarrow> stream_world \<Rightarrow> bytes" where
  "source_data s w =
     (case hGetStreamFromSource s of None \<Rightarrow> [] | Some a \<Rightarrow> (case blocks w a of None \<Rightarrow> [] | Some d \<Rightarrow> d))"

definition put_source :: "STREAM_NODE \<Rightarrow> bytes \<Rightarrow> stream_world \<Rightarrow> stream_world" where
  "put_source s d w =
     (case hGetStreamFromSource s of None \<Rightarrow> w
      | Some a \<Rightarrow> if blocks w a = None then w else w\<lparr>blocks := (blocks w)(a \<mapsto> d)\<rparr>)"

definition take_blocks :: "nat \<Rightarrow> nat \<Rightarrow> stream_world \<Rightarrow> (NET_LAYER option \<times> stream_world) option" where
  "take_blocks b n w = do {
     s \<leftarrow> get_stream w n;
     v \<leftarrow> bevs w b;
     (l, inp, buf, len) \<leftarrow> recv_blocks (bv_input v) (source_data s w) (iRecvStreamDataLen s);
     Some (l, put_stream n (s\<lparr>iRecvStreamDataLen := len\<rparr>)
            (put_source s buf (w\<lparr>bevs := (bevs w)(b \<mapsto> v\<lparr>bv_input := inp\<rparr>)\<rparr>)))
   }"

definition recv_stream_cb :: "recv_answers \<Rightarrow> nat \<Rightarrow> nat \<Rightarrow> stream_world \<Rightarrow> stream_world option" where
  "recv_stream_cb e b n w = do {
     (l, w) \<leftarrow> take_blocks b n w;
     case l of None \<Rightarrow> Some w
     | Some l \<Rightarrow> do {
         s \<leftarrow> get_stream w n;
         if la_size (listClientNodeHead s) = 0 \<or> uRtpClientNodeSendDataThreadFlag s = 2
         then recv_stream_fail b n w
         else do {
           (go_on, w) \<leftarrow> (if uRtpClientNodeSendDataThreadFlag s = 0 \<and> byFrameType l = 1
                         then start_send_task e n w else Some (True, w));
           if \<not> go_on then Some w
           else do {
             s \<leftarrow> get_stream w n;
             if uRtpClientNodeSendDataThreadFlag s = 0 \<or> byDataType l \<noteq> 13
             then Some (put_stream n (s\<lparr>iRecvStreamDataLen := 0\<rparr>) w)
             else do {
               len \<leftarrow> queue_len (queueStreamData s) w;
               if len \<ge> 512 then recv_stream_fail b n w else queue_frame e n l w
             }
           }
         }
       }
   }"

section \<open>recv_stream_err_cb\<close>

definition recv_stream_err_cb :: "nat \<Rightarrow> nat \<Rightarrow> stream_world \<Rightarrow> stream_world option" where
  "recv_stream_err_cb b n w = do {
     w \<leftarrow> free_bev b w;
     s \<leftarrow> get_stream w n;
     let h = uStreamNodeHashValue s;
     if uRtpClientNodeSendDataThreadFlag s = 0 then do {
       let w = lock_stream h w;
       w \<leftarrow> unlink_stream n w;
       w \<leftarrow> destroy_clients n w;
       w \<leftarrow> clear_rtp_data_from_queue (queueStreamData s) w;
       w \<leftarrow> queue_destroy n w;
       w \<leftarrow> free_source n w;
       w \<leftarrow> free_stream n w;
       Some (unlock_stream h w)
     }
     else if uRtpClientNodeSendDataThreadFlag s = 1 \<or> uRtpClientNodeSendDataThreadFlag s = 2 then do {
       let w = lock_stream h w;
       c \<leftarrow> disable_client_rtp_list_bev (listClientNodeHead s) (cw w);
       Some (unlock_stream h (put_stream n (s\<lparr>uGetStreamThreadStartFlag := 2\<rparr>) (w\<lparr>cw := c\<rparr>)))
     }
     else Some w
   }"

section \<open>recv_cmd_from_hbserver\<close>

record cmd_answers =
  ca_reserved :: "u8 \<times> u8"
  ca_memory :: "QUEUE_ARGS memory"
  ca_queue :: nat

definition queue_args_zero :: QUEUE_ARGS where
  "queue_args_zero = \<lparr>qa_iDataPreBufSize = 0, qa_iDataLen = 0, qa_pDataBuf = None\<rparr>"

definition set_callbacks :: "nat \<Rightarrow> data_cb option \<Rightarrow> event_cb option \<Rightarrow> nat \<Rightarrow> stream_world \<Rightarrow> stream_world option" where
  "set_callbacks b r ev n w = map_option
     (\<lambda>v. w\<lparr>bevs := (bevs w)(b \<mapsto> v\<lparr>bv_read := r, bv_event := ev, bv_arg := n\<rparr>)\<rparr>) (bevs w b)"

text \<open>\<open>memset(hGetStreamFromSource, 0, 2048)\<close>.\<close>

definition clear_source :: "nat \<Rightarrow> stream_world \<Rightarrow> stream_world option" where
  "clear_source n w = do {
     s \<leftarrow> get_stream w n;
     src \<leftarrow> hGetStreamFromSource s;
     buf \<leftarrow> blocks w src;
     buf \<leftarrow> mem_write buf 0 (replicate 2048 0);
     Some (w\<lparr>blocks := (blocks w)(src \<mapsto> buf)\<rparr>)
   }"

text \<open>The end of a stream that could not be started: everything is given back.\<close>

definition cmd_fail :: "nat \<Rightarrow> nat \<Rightarrow> stream_world \<Rightarrow> stream_world option" where
  "cmd_fail b n w = do {
     w \<leftarrow> free_bev b w;
     s \<leftarrow> get_stream w n;
     let h = uStreamNodeHashValue s;
     let w = lock_stream h w;
     w \<leftarrow> unlink_stream n w;
     w \<leftarrow> destroy_clients n w;
     w \<leftarrow> free_source n w;
     w \<leftarrow> free_stream n w;
     Some (unlock_stream h w)
   }"

text \<open>The \<open>SUCCESS\<close> branch: the answer to the server, then the queue; the flag is the result of its creation.\<close>

definition stream_accepted :: "cmd_answers \<Rightarrow> nat \<Rightarrow> nat \<Rightarrow> stream_world \<Rightarrow> (bool \<times> stream_world) option" where
  "stream_accepted e b n w = do {
     s \<leftarrow> get_stream w n;
     let s = s\<lparr>iRecvStreamDataLen := 0\<rparr>;
     let w = put_stream n s w;
     (r, w) \<leftarrow> SendDataToStream (fst (ca_reserved e)) (snd (ca_reserved e)) b ImOK (length ImOK) DATA_TYPE_SMS_CMD w;
     (r, q) \<leftarrow> nolock_queue_init queue_args_zero (ca_memory e) 16 512;
     case q of None \<Rightarrow> Some (False, w)
     | Some q \<Rightarrow>
         if r \<noteq> 0 then Some (False, w)
         else do {
           let w = put_stream n (s\<lparr>queueStreamData := Some (ca_queue e)\<rparr>)
             (w\<lparr>queues := (queues w)(ca_queue e \<mapsto> q)\<rparr>);
           let w = note_effect (Set_timeouts b 15) w;
           let w = note_effect (Set_watermark b 65536 (128 * 1024)) w;
           let w = note_effect (Set_max_single b 65536) w;
           w \<leftarrow> set_callbacks b (Some Recv_stream_cb) (Some Recv_stream_err_cb) n w;
           Some (True, w)
         }
   }"

definition recv_cmd_from_hbserver :: "cmd_answers \<Rightarrow> nat \<Rightarrow> nat \<Rightarrow> stream_world \<Rightarrow> stream_world option" where
  "recv_cmd_from_hbserver e b n w = do {
     w \<leftarrow> clear_source n w;
     (l, w) \<leftarrow> take_blocks b n w;
     case l of None \<Rightarrow> Some w
     | Some l \<Rightarrow> do {
         s \<leftarrow> get_stream w n;
         src \<leftarrow> hGetStreamFromSource s;
         buf \<leftarrow> blocks w src;
         reply \<leftarrow> c_str buf;
         if strstr_in SUCCESS reply then do {
           (ok, w) \<leftarrow> stream_accepted e b n w;
           if ok then Some w else cmd_fail b n w
         } else cmd_fail b n w
       }
   }"

section \<open>connect_event_cb\<close>

definition BEV_EVENT_EOF :: u16 where "BEV_EVENT_EOF = 0x10"
definition BEV_EVENT_ERROR :: u16 where "BEV_EVENT_ERROR = 0x20"
definition BEV_EVENT_TIMEOUT :: u16 where "BEV_EVENT_TIMEOUT = 0x40"
definition BEV_EVENT_CONNECTED :: u16 where "BEV_EVENT_CONNECTED = 0x80"

text \<open>\<open>snprintf(cmd_buf, 1024, ...)\<close>, without its terminator; the device id ends at its first NUL.\<close>

definition start_command :: "STREAM_NODE \<Rightarrow> bytes option" where
  "start_command s = do {
     d \<leftarrow> c_str (st_cDevId s);
     Some (take 1023 (of_string ''<TYPE>StartStream</TYPE><DVRName>'' @ d @ of_string ''</DVRName><ChnNo>'' @
       print_int (st_iDevChnl s) @ of_string ''</ChnNo><StreamType>'' @ print_int (st_iStreamType s) @
       of_string ''</StreamType><TType>0</TType>''))
   }"

definition connected :: "u16 \<Rightarrow> bool" where
  "connected iEvent \<longleftrightarrow> iEvent AND BEV_EVENT_TIMEOUT = 0 \<and> iEvent AND BEV_EVENT_EOF = 0 \<and>
     iEvent AND BEV_EVENT_ERROR = 0 \<and> iEvent AND BEV_EVENT_CONNECTED \<noteq> 0"

text \<open>\<open>m\<close> is the answer of \<open>calloc\<close>, which is not checked here; a failure shows at the next use.\<close>

definition connect_event_cb :: "nat option \<Rightarrow> u8 \<times> u8 \<Rightarrow> u16 \<Rightarrow> nat \<Rightarrow> nat \<Rightarrow> stream_world \<Rightarrow> stream_world option" where
  "connect_event_cb m res iEvent b n w = do {
     s \<leftarrow> get_stream w n;
     if connected iEvent then do {
       cmd \<leftarrow> start_command s;
       (r, w) \<leftarrow> SendDataToStream (fst res) (snd res) b cmd (length cmd) DATA_TYPE_SMS_CMD w;
       let w = put_stream n (s\<lparr>hGetStreamFromSource := m\<rparr>) w;
       let w = (case m of None \<Rightarrow> w | Some a \<Rightarrow> w\<lparr>blocks := (blocks w)(a \<mapsto> replicate (1024 * 1024) 0)\<rparr>);
       let w = note_effect (Set_timeouts b 15) w;
       set_callbacks b (Some Recv_cmd_from_hbserver) (Some Recv_stream_err_cb) n w
     }
     else do {
       let w = note_effect (Bufferevent_disable b) w;
       w \<leftarrow> free_bev b w;
       let w = put_stream n (s\<lparr>pConnectHbServerBev := None\<rparr>) w;
       let h = uStreamNodeHashValue s;
       let w = lock_stream h w;
       w \<leftarrow> unlink_stream n w;
       w \<leftarrow> destroy_clients n w;
       w \<leftarrow> free_stream n w;
       Some (unlock_stream h w)
     }
   }"

section \<open>play_rtsp_video_from_hbserver\<close>

record connect_answers =
  na_bev :: "nat option"
  na_enable :: bool
  na_connect :: bool

definition give_up :: "nat \<Rightarrow> STREAM_NODE \<Rightarrow> nat \<Rightarrow> stream_world \<Rightarrow> (int \<times> stream_world) option" where
  "give_up n s b w = do {
     w \<leftarrow> free_bev b w;
     Some (HB_FAILURE, put_stream n (s\<lparr>pConnectHbServerBev := None\<rparr>) w)
   }"

definition play_rtsp_video_from_hbserver :: "connect_answers \<Rightarrow> nat \<Rightarrow> stream_world \<Rightarrow> (int \<times> stream_world) option" where
  "play_rtsp_video_from_hbserver e n w = do {
     s \<leftarrow> get_stream w n;
     if uRtspPlayFlag s = 1 then Some (HB_FAILURE, w)
     else case na_bev e of None \<Rightarrow> Some (HB_FAILURE, w)
     | Some b \<Rightarrow> do {
         let w = w\<lparr>bevs := (bevs w)(b \<mapsto> \<lparr>bv_input = [], bv_read = None, bv_event = None, bv_arg = 0\<rparr>)\<rparr>;
         let s = s\<lparr>pConnectHbServerBev := Some b\<rparr>;
         let w = note_effect (Set_watermark b 29 0) w;
         w \<leftarrow> set_callbacks b None (Some Connect_event_cb) n w;
         if \<not> na_enable e then give_up n s b w
         else do {
           let w = note_effect (Bufferevent_connect b (st_cDevIp s) (st_iDevPort s)) w;
           if \<not> na_connect e then give_up n s b w
           else Some (HB_SUCCESS, put_stream n (s\<lparr>uRtspPlayFlag := 1\<rparr>) (note_effect (Set_timeouts b 15) w))
         }
       }
   }"

end
