(* ===== verification/SendTask.thy ===== *)
theory SendTask
  imports HbServer RtpSpec PsSpec
begin

text \<open>
  \<open>src/stream/send_av_data.c\<close>: the task that takes the frames of one stream from its queue, packs each as
  a program stream and sends it in RTP packets to the clients. A round of the endless loop is one
  operation on the stream world and on the variables of the task.
\<close>

section \<open>Variables of the task\<close>

definition STREAM_DATA_FRAME_BUFFER_NUMS :: int where "STREAM_DATA_FRAME_BUFFER_NUMS = 100"

record timing_vars =
  u64AddTime :: u64
  u64Time :: u64
  u64TimestampOld :: u64
  u64TimestampCurrent :: u64
  iErrTimestampTimes :: int

record send_vars =
  stPsInfo :: PS_FRAME_INFO
  pPsData :: "nat option"
  iPsDataLen :: nat
  timing :: timing_vars

definition timing0 :: timing_vars where
  "timing0 = \<lparr>u64AddTime = 0, u64Time = 0, u64TimestampOld = 0, u64TimestampCurrent = 0, iErrTimestampTimes = 0\<rparr>"

definition PS_DATA_SIZE :: nat where "PS_DATA_SIZE = 512 * 1400"

text \<open>The start of the task: \<open>m\<close> is the answer of \<open>calloc\<close>.\<close>

definition send_task_start :: "nat option \<Rightarrow> stream_world \<Rightarrow> send_vars \<times> stream_world" where
  "send_task_start m w =
     (\<lparr>stPsInfo = \<lparr>framerate = 0, vid_frame_number = 0, aud_frame_number = 0, vid_timestamp = 0, aud_timestamp = 0\<rparr>,
       pPsData = m, iPsDataLen = 0, timing = timing0\<rparr>,
      case m of None \<Rightarrow> w | Some a \<Rightarrow> w\<lparr>blocks := (blocks w)(a \<mapsto> replicate PS_DATA_SIZE 0)\<rparr>)"

section \<open>Time stamps\<close>

definition timestamp_add :: "u64 \<Rightarrow> timing_vars \<Rightarrow> timing_vars" where
  "timestamp_add pts t =
     (if u64TimestampOld t = 0
      then (let t = t\<lparr>u64AddTime := 0, u64TimestampOld := pts\<rparr>
            in if u64TimestampOld t = 0 then t\<lparr>u64AddTime := 3600\<rparr> else t)
      else (let t = t\<lparr>u64TimestampCurrent := pts\<rparr>
            in if u64TimestampCurrent t = 0 then t\<lparr>u64AddTime := 3600\<rparr>
               else (let d = sint (u64TimestampCurrent t) - sint (u64TimestampOld t);
                         t = (if d < 0 then t\<lparr>iErrTimestampTimes := iErrTimestampTimes t + 1\<rparr>
                              else if d = 0 then t\<lparr>u64AddTime := 3600\<rparr>
                              else t\<lparr>u64AddTime := u64TimestampCurrent t - u64TimestampOld t\<rparr>)
                     in t\<lparr>u64TimestampOld := u64TimestampCurrent t\<rparr>)))"

definition timestamp_step :: "u64 \<Rightarrow> timing_vars \<Rightarrow> timing_vars" where
  "timestamp_step pts t =
     (let t = timestamp_add pts t;
          t = t\<lparr>u64Time := u64Time t + u64AddTime t\<rparr>
      in if u64AddTime t \<le> 0 then t\<lparr>u64AddTime := 3600\<rparr> else t)"

section \<open>Sending a frame\<close>

text \<open>
  \<open>ps_process\<close> into the scratch buffer behind \<open>pre\<close> bytes, then \<open>pack_ps_rtp_and_add_node\<close> on it. The result
  of \<open>ps_process\<close> is not looked at.
\<close>

definition send_frame ::
  "ps_old \<Rightarrow> nat \<Rightarrow> ES_FRAME_TYPE_E \<Rightarrow> int \<Rightarrow> bytes \<Rightarrow> int \<Rightarrow> nat \<Rightarrow> send_vars \<Rightarrow> stream_world \<Rightarrow>
     (send_vars \<times> stream_world) option" where
  "send_frame old n ft ftn src len pre v w = do {
     s \<leftarrow> get_stream w n;
     a \<leftarrow> pPsData v;
     buf \<leftarrow> blocks w a;
     (r, info, out, k) \<leftarrow> (if pre \<le> length buf
        then ps_process old (stPsInfo v) src len ft (drop pre buf) (iPsDataLen v)
               (u64Time (timing v)) (u64AddTime (timing v))
        else None);
     let buf = take pre buf @ out;
     (r, rtp, buf, cl, c) \<leftarrow> pack_ps_rtp_and_add_node (uStreamNodeHashValue s) (rtp_info_video s)
        (listClientNodeHead s) buf (word_of_nat k) (u64Time (timing v)) (word_of_nat pre) ftn (cw w);
     Some (v\<lparr>stPsInfo := info, iPsDataLen := k\<rparr>,
           put_stream n (s\<lparr>rtp_info_video := rtp, listClientNodeHead := cl\<rparr>)
             (w\<lparr>cw := c, blocks := (blocks w)(a \<mapsto> buf)\<rparr>))
   }"

section \<open>A round of the loop\<close>

text \<open>How the loop goes on: to the next round, or out of the loop with \<open>iRet\<close>.\<close>

datatype round_end = Go_on | Leave int

definition send_interval :: "int \<Rightarrow> int" where
  "send_interval len =
     (if len \<ge> STREAM_DATA_FRAME_BUFFER_NUMS then 20000
      else if len < STREAM_DATA_FRAME_BUFFER_NUMS \<and> len > 15 then 40000
      else 60000)"

definition handle_frame ::
  "ps_old \<Rightarrow> nat \<Rightarrow> int \<Rightarrow> nat \<Rightarrow> int \<Rightarrow> send_vars \<Rightarrow> stream_world \<Rightarrow> (send_vars \<times> stream_world) option" where
  "handle_frame old n interval a pre v w = do {
     blk \<leftarrow> blocks w a;
     p \<leftarrow> ptr_add 0 pre;
     h \<leftarrow> mem_read blk p 32;
     let c = BOX_CTRL_CMD_read h;
     let v = v\<lparr>timing := timestamp_step (v_pts c) (timing v)\<rparr>;
     let src = drop (p + 32) blk;
     if data_type c = I_FRAME then do {
       (v, w) \<leftarrow> send_frame old n ES_FRAME_I 1 src (cmd_length c) p v w;
       w \<leftarrow> free_block a w;
       Some (v, note_effect (Usleep interval) w)
     }
     else if data_type c = BP_FRAME then do {
       (v, w) \<leftarrow> send_frame old n ES_FRAME_P 0 src (cmd_length c) p v w;
       w \<leftarrow> free_block a w;
       Some (v, note_effect (Usleep interval) w)
     }
     else do {
       w \<leftarrow> free_block a w;
       Some (v, w)
     }
   }"

definition send_round :: "ps_old \<Rightarrow> nat \<Rightarrow> send_vars \<Rightarrow> stream_world \<Rightarrow> (round_end \<times> send_vars \<times> stream_world) option" where
  "send_round old n v w = do {
     s \<leftarrow> get_stream w n;
     if uGetStreamThreadStartFlag s = 2 then Some (Leave (-101), v, w)
     else if la_size (listClientNodeHead s) = 0
     then Some (Leave (-102), v, put_stream n (s\<lparr>uRtpClientNodeSendDataThreadFlag := 2\<rparr>) w)
     else do {
       len \<leftarrow> queue_len (queueStreamData s) w;
       if len > 15 then do {
         let interval = send_interval len;
         (r, d, w) \<leftarrow> queue_pop (queueStreamData s) w;
         d \<leftarrow> d;
         (v, w) \<leftarrow> (case qa_pDataBuf d of
             None \<Rightarrow> Some (v, note_effect (Usleep interval) w)
           | Some a \<Rightarrow> handle_frame old n interval a (qa_iDataPreBufSize d) v w);
         Some (Go_on, v, w)
       }
       else Some (Go_on, v, note_effect (Usleep 50000) w)
     }
   }"

section \<open>The end of the task\<close>

text \<open>\<open>free(pPsData)\<close>, then the wait for the receiver: the task goes on when this holds.\<close>

definition send_leave :: "send_vars \<Rightarrow> stream_world \<Rightarrow> (send_vars \<times> stream_world) option" where
  "send_leave v w =
     (case pPsData v of None \<Rightarrow> Some (v, w)
      | Some a \<Rightarrow> map_option (\<lambda>w. (v\<lparr>pPsData := None\<rparr>, w)) (free_block a w))"

definition send_may_end :: "STREAM_NODE \<Rightarrow> bool" where
  "send_may_end s \<longleftrightarrow> (uRtpClientNodeSendDataThreadFlag s = 2 \<longrightarrow> uGetStreamThreadStartFlag s = 2)"

text \<open>\<open>send_rtp_to_client_task_err_cb\<close>, whose flag was set when the task was queued.\<close>

definition send_rtp_to_client_task_err_cb :: "nat \<Rightarrow> stream_world \<Rightarrow> stream_world option" where
  "send_rtp_to_client_task_err_cb n w =
     (if n \<in> pool w then Some (note_effect (Task_delete n) (w\<lparr>pool := pool w - {n}\<rparr>)) else None)"

definition send_teardown :: "nat \<Rightarrow> stream_world \<Rightarrow> stream_world option" where
  "send_teardown n w = do {
     s \<leftarrow> get_stream w n;
     let h = uStreamNodeHashValue s;
     let w = lock_stream h w;
     w \<leftarrow> unlink_stream n w;
     w \<leftarrow> clear_rtp_data_from_queue (queueStreamData s) w;
     w \<leftarrow> queue_destroy n w;
     w \<leftarrow> destroy_clients n w;
     w \<leftarrow> free_source n w;
     w \<leftarrow> free_stream n w;
     w \<leftarrow> send_rtp_to_client_task_err_cb n w;
     Some (unlock_stream h w)
   }"

end
