(* ===== verification/SendSpec.thy ===== *)
theory SendSpec
  imports SendTask NetSpec
begin

text \<open>
  What a round of the send task does: the clock it keeps, and the way of a frame from its queue
  block to the packets of the clients.
\<close>

section \<open>The clock\<close>

text \<open>The clock after each frame of a list of time stamps.\<close>

fun clocks :: "u64 list \<Rightarrow> timing_vars \<Rightarrow> u64 list" where
  "clocks [] t = []"
| "clocks (p # ps) t = (let t = timestamp_step p t in u64Time t # clocks ps t)"

lemma sint_unat: "unat (x :: u64) < 2 ^ 63 \<Longrightarrow> sint x = int (unat x)"
proof -
  assume "unat x < 2 ^ 63"
  then have "int (unat x) < int (2 ^ 63)" by (simp only: of_nat_less_iff)
  then have "uint x < 2 ^ 63" by simp
  moreover have "- (2 ^ 63) \<le> uint x" by (rule order_trans [of _ 0]) simp_all
  ultimately have "signed_take_bit 63 (uint x) = uint x" by (rule signed_take_bit_int_eq_self [rotated])
  then show ?thesis by (simp add: sint_uint)
qed

lemma timestamp_forward:
  assumes "0 < unat (u64TimestampOld t)" "unat (u64TimestampOld t) < unat p" "unat p < 2 ^ 63"
  shows "u64Time (timestamp_step p t) = u64Time t + (p - u64TimestampOld t)"
    "u64TimestampOld (timestamp_step p t) = p"
proof -
  let ?o = "u64TimestampOld t"
  have s: "sint p = int (unat p)" "sint ?o = int (unat ?o)"
    using sint_unat [of p] sint_unat [of ?o] assms by simp_all
  have d: "\<not> sint p - sint ?o < 0" "sint p - sint ?o \<noteq> 0"
    unfolding s using assms(2) by (simp_all only: of_nat_less_iff)
  have nz: "?o \<noteq> 0" "p \<noteq> 0" "p - ?o \<noteq> 0" using assms by auto
  then have "timestamp_add p t = t\<lparr>u64TimestampCurrent := p, u64AddTime := p - ?o, u64TimestampOld := p\<rparr>"
    using d by (simp add: timestamp_add_def Let_def)
  then show "u64Time (timestamp_step p t) = u64Time t + (p - ?o)" "u64TimestampOld (timestamp_step p t) = p"
    using nz by (simp_all add: timestamp_step_def Let_def)
qed

lemma clocks_forward:
  "sorted_wrt (\<lambda>p q. unat p < unat q) (u64TimestampOld t # ps) \<Longrightarrow> 0 < unat (u64TimestampOld t) \<Longrightarrow>
   \<forall>p\<in>set ps. unat p < 2 ^ 63 \<Longrightarrow> clocks ps t = map (\<lambda>p. u64Time t + (p - u64TimestampOld t)) ps"
proof (induction ps arbitrary: t)
  case (Cons p ps)
  let ?t = "timestamp_step p t"
  have p: "u64Time ?t = u64Time t + (p - u64TimestampOld t)" "u64TimestampOld ?t = p"
    using timestamp_forward [of t p] Cons.prems by simp_all
  have "clocks ps ?t = map (\<lambda>q. u64Time ?t + (q - u64TimestampOld ?t)) ps"
    by (rule Cons.IH) (use Cons.prems p(2) in auto)
  then show ?case by (simp add: p Let_def)
qed simp

text \<open>
  The time stamps that are sent follow those that are received. While the frames come with positive
  time stamps that grow, the clock given to the packers at each frame is exactly the time that has
  passed since the first of them, whatever the distances.
\<close>

theorem clock_follows_frames:
  assumes "sorted_wrt (\<lambda>p q. unat p < unat q) (p # ps)" and "0 < unat p" and "\<forall>q\<in>set (p # ps). unat q < 2 ^ 63"
  shows "clocks (p # ps) timing0 = map (\<lambda>q. q - p) (p # ps)"
proof -
  let ?t = "timestamp_step p timing0"
  have t: "u64Time ?t = 0" "u64TimestampOld ?t = p"
    using assms(2) by (auto simp: timestamp_step_def timestamp_add_def timing0_def Let_def)
  have "clocks ps ?t = map (\<lambda>q. u64Time ?t + (q - u64TimestampOld ?t)) ps"
    by (rule clocks_forward) (use assms t in auto)
  then show ?thesis by (simp add: t Let_def)
qed

theorem clock_follows_frames_witness:
  "clocks [90, 3690, 7200] timing0 = map (\<lambda>q. q - 90) [90, 3690, 7200]"
  by (rule clock_follows_frames) simp_all

section \<open>The head of a frame in its block\<close>

lemma le_value_le64: "le_value (le64 x) = unat x"
proof -
  have l: "unat (ucast x :: u32) = unat x mod 2 ^ 32" and h: "unat (ucast (drop_bit 32 x) :: u32) = unat x div 2 ^ 32"
    using unsigned_less [of x, where 'a = nat]
    by (simp_all add: unsigned_ucast_eq take_bit_eq_mod unat_drop_bit less_mult_imp_div_less)
  have "le_value (le64 x) = unat x div 2 ^ 32 * 2 ^ 32 + unat x mod 2 ^ 32"
    by (simp add: le_value_def le64_def be_val_append l h)
  then show ?thesis by simp
qed

definition box_ok :: "BOX_CTRL_CMD \<Rightarrow> bool" where
  "box_ok c \<longleftrightarrow> length (box_header c) = 8 \<and> to_s32 (cmd_length c) = cmd_length c \<and> to_s32 (data_type c) = data_type c \<and>
     to_s32 (cmd_type c) = cmd_type c \<and> to_s32 (cmd_code c) = cmd_code c"

lemma length_BOX_CTRL_CMD_bytes: "box_ok c \<Longrightarrow> length (BOX_CTRL_CMD_bytes c) = 32"
  by (simp add: BOX_CTRL_CMD_bytes_def box_ok_def)

lemma BOX_CTRL_CMD_read_bytes: "box_ok c \<Longrightarrow> BOX_CTRL_CMD_read (BOX_CTRL_CMD_bytes c) = c"
  by (simp add: BOX_CTRL_CMD_read_def BOX_CTRL_CMD_bytes_def box_ok_def le_s32_le32 le_value_le64)

lemma frame_head_ok: "to_s32 len = len \<Longrightarrow> box_ok (frame_head l len)"
  by (simp add: frame_head_def box_ok_def box_cmd_zero_def Let_def of_string_def s32_small I_FRAME_def BP_FRAME_def
      AUDIO_FRAME_def)

lemma frame_head_fields [simp]: "cmd_length (frame_head l len) = len"
  by (simp add: frame_head_def Let_def)

lemma frame_block_parts:
  assumes "box_ok c"
  shows "mem_read (frame_block junk c d) (nat (pre_size (int (length d)))) 32 = Some (BOX_CTRL_CMD_bytes c)"
    "drop (nat (pre_size (int (length d))) + 32) (frame_block junk c d) = d"
  using length_BOX_CTRL_CMD_bytes [OF assms] by (simp_all add: frame_block_def mem_read_def)

section \<open>Packing and sending one frame\<close>

lemma get_rtp_ps_pack_length: "get_rtp_ps_pack r buf = Some (r', buf', p) \<Longrightarrow> length buf' = length buf"
  by (auto simp: get_rtp_ps_pack_def Let_def dest: mem_write_length split: if_splits bind_splits)

lemma rtp_send_loop_length:
  assumes "rtp_send_loop hash ft r buf csize cl w = Some y"
  shows "length (fst (snd y)) = length buf"
  by (rule rtp_send_loop.raw_induct [OF _ assms, where P = "\<lambda>hash ft r buf csize cl w y. length (fst (snd y)) = length buf"])
     (auto split: bind_splits option.splits dest!: get_rtp_ps_pack_length)

lemma pack_length:
  "pack_ps_rtp_and_add_node hash r cl buf k ts pre ft w = Some (x, r', buf', cl', w') \<Longrightarrow> length buf' = length buf"
  by (auto simp: pack_ps_rtp_and_add_node_def Let_def dest!: rtp_send_loop_length split: if_splits bind_splits)

lemma sends_emit [simp]: "\<not> is_sendto e \<Longrightarrow> sends (emit e c) = sends c"
  by (simp add: sends_def)

definition frame_packets :: "rtp_info_t \<Rightarrow> u64 \<Rightarrow> bytes \<Rightarrow> nat \<Rightarrow> bytes" where
  "frame_packets r t S k = rtp_packet (rtp_hdr r) (ucast t) S k"

definition packet_count :: "bytes \<Rightarrow> nat" where
  "packet_count S = (length S + 1399) div 1400"

lemma send_frame_delivers:
  assumes s: "get_stream w n = Some s" and a: "pPsData v = Some a" "blocks w a = Some buf" "length buf = PS_DATA_SIZE"
    and ft: "ft = ES_FRAME_I \<or> ft = ES_FRAME_P" and ok: "clients_ok (listClientNodeHead s) (cw w)"
    and pre: "12 \<le> pre" "pre + video_size ft (length d) \<le> PS_DATA_SIZE"
  defines "S \<equiv> ps_video_stream ft (u64Time (timing v)) d"
  shows "\<exists>r buf' c. send_frame old n ft ftn (d @ x) (int (length d)) pre v w =
      Some (v\<lparr>iPsDataLen := length S\<rparr>,
        put_stream n (s\<lparr>rtp_info_video := r, listClientNodeHead := filter (\<lambda>b. \<not> doomed (cw w) b) (listClientNodeHead s)\<rparr>)
          (w\<lparr>cw := c, blocks := (blocks w)(a \<mapsto> buf')\<rparr>)) \<and> length buf' = PS_DATA_SIZE \<and>
    clients c = (\<lambda>b. if b \<in> set (listClientNodeHead s) then after_visit ftn (the (clients (cw w) b)) else clients (cw w) b) \<and>
    sends c = sends (cw w) @ concat (map (\<lambda>k. send_all (cw w) (receivers ftn (cw w) (listClientNodeHead s) k)
      (frame_packets (rtp_info_video s) (u64Time (timing v)) S k)) [0..<packet_count S]) \<and>
    concat (map (\<lambda>k. drop 12 (frame_packets (rtp_info_video s) (u64Time (timing v)) S k)) [0..<packet_count S]) = S"
proof -
  let ?t = "u64Time (timing v)"
  have lS: "length S = video_size ft (length d)"
    by (simp add: S_def length_ps_video_stream video_size_def)
  have size: "14 \<le> length S" "pre + length S \<le> PS_DATA_SIZE" "pre \<le> length buf"
    using pre a(3) by (auto simp: lS video_size_def)
  let ?out = "S @ drop (length S) (drop pre buf)"
  have ps: "ps_process old (stPsInfo v) (d @ x) (int (length d)) ft (drop pre buf) (iPsDataLen v) ?t (u64AddTime (timing v)) =
      Some (HB_SUCCESS, stPsInfo v, ?out, length S)"
    using size a(3) unfolding ps_process_video_stream [OF ft] S_def [symmetric] by (simp add: mem_write_def)
  let ?buf = "take pre buf @ ?out"
  have lb: "length ?buf = PS_DATA_SIZE" using size a(3) by simp
  have w32: "unat (word_of_nat (length S) :: u32) = length S" "unat (word_of_nat pre :: u32) = pre"
    using size by (simp_all add: unat_of_nat take_bit_eq_mod PS_DATA_SIZE_def)
  have d: "take (length S) (drop pre ?buf) = S" using size by simp
  obtain r' buf' c where p: "pack_ps_rtp_and_add_node (uStreamNodeHashValue s) (rtp_info_video s) (listClientNodeHead s) ?buf
      (word_of_nat (length S)) ?t (word_of_nat pre) ftn (cw w) =
      Some (0, r', buf', filter (\<lambda>b. \<not> doomed (cw w) b) (listClientNodeHead s), c)"
    "clients c = (\<lambda>b. if b \<in> set (listClientNodeHead s) then after_visit ftn (the (clients (cw w) b)) else clients (cw w) b)"
    "sends c = sends (cw w) @ concat (map (\<lambda>k. send_all (cw w) (receivers ftn (cw w) (listClientNodeHead s) k)
      (rtp_packet (rtp_hdr (rtp_info_video s)) (ucast ?t) S k)) [0..<(length S + 1399) div 1400])"
    "concat (map (\<lambda>k. drop 12 (rtp_packet (rtp_hdr (rtp_info_video s)) (ucast ?t) S k)) [0..<(length S + 1399) div 1400]) = S"
    using frame_delivered [of "listClientNodeHead s" "cw w" "word_of_nat (length S)" "word_of_nat pre" ?buf
        "uStreamNodeHashValue s" "rtp_info_video s" ?t ftn] ok size pre(1) lb
    unfolding w32 d by (auto simp: word_less_nat_alt word_le_nat_alt w32 PS_DATA_SIZE_def)
  have "send_frame old n ft ftn (d @ x) (int (length d)) pre v w =
      Some (v\<lparr>iPsDataLen := length S\<rparr>,
        put_stream n (s\<lparr>rtp_info_video := r', listClientNodeHead := filter (\<lambda>b. \<not> doomed (cw w) b) (listClientNodeHead s)\<rparr>)
          (w\<lparr>cw := c, blocks := (blocks w)(a \<mapsto> buf')\<rparr>))"
    using s a(1,2) size(3) ps p(1) by (simp add: send_frame_def)
  moreover have "length buf' = PS_DATA_SIZE" using pack_length [OF p(1)] lb by simp
  ultimately show ?thesis
    using p(2-4) by (auto simp: frame_packets_def packet_count_def)
qed

section \<open>From the queue to the clients\<close>

definition frame_type :: "BOX_CTRL_CMD \<Rightarrow> ES_FRAME_TYPE_E" where
  "frame_type c = (if data_type c = I_FRAME then ES_FRAME_I else ES_FRAME_P)"

definition pack_type :: "BOX_CTRL_CMD \<Rightarrow> int" where
  "pack_type c = (if data_type c = I_FRAME then 1 else 0)"

lemma handle_video_frame:
  assumes c: "data_type c = I_FRAME \<or> data_type c = BP_FRAME" "box_ok c" "cmd_length c = int (length d)"
    and blk: "blocks w a = Some (frame_block junk c d)"
    and send: "send_frame old n (frame_type c) (pack_type c) d (int (length d)) (nat (pre_size (int (length d))))
      (v\<lparr>timing := timestamp_step (v_pts c) (timing v)\<rparr>) w = Some (v', w')" and live: "blocks w' a \<noteq> None"
  shows "handle_frame old n i a (pre_size (int (length d))) v w =
    Some (v', note_effect (Usleep i) (w'\<lparr>blocks := (blocks w')(a := None)\<rparr>))"
proof -
  have p: "ptr_add 0 (pre_size (int (length d))) = Some (nat (pre_size (int (length d))))"
    by (simp add: ptr_add_def pre_size_def MAX_RTP_PACKET_SIZE_def)
  show ?thesis
    using c(1) send live
    by (auto simp: handle_frame_def blk p frame_block_parts [OF c(2)] BOX_CTRL_CMD_read_bytes [OF c(2)] c(3) frame_type_def
        pack_type_def I_FRAME_def BP_FRAME_def free_block_def)
qed

text \<open>
  C7. A frame reaches the clients. When a round takes a video frame from its queue block, the clients are
  sound and the scratch buffer has room for the pack, the round ends normally: the block is freed and the clock has
  moved by the frame's time stamp. What was sent in between is a program stream \<open>S\<close> cut into RTP packets
  of 1400 bytes of it; each packet goes once to every client that receives, in list order, and the clients that were to
  be deleted are off the list. A standard demultiplexer reads \<open>S\<close> back as one pack at the clock's time whose
  video payloads are the frame, for a key frame with the system header and the stream map.
\<close>

theorem frame_reaches_clients:
  assumes "get_stream w n = Some s" and "clients_ok (listClientNodeHead s) (cw w)"
    and "data_type c = I_FRAME \<or> data_type c = BP_FRAME" "box_ok c" "cmd_length c = int (length d)"
    and "blocks w a = Some (frame_block junk c d)"
    and "pPsData v = Some a'" "a' \<noteq> a" "blocks w a' = Some buf" "length buf = PS_DATA_SIZE"
    and "nat (pre_size (int (length d))) + video_size (frame_type c) (length d) \<le> PS_DATA_SIZE"
  defines "t \<equiv> u64Time (timestamp_step (v_pts c) (timing v))"
  shows "\<exists>v' w' s' S cs. handle_frame old n i a (pre_size (int (length d))) v w = Some (v', w') \<and>
    timing v' = timestamp_step (v_pts c) (timing v) \<and> blocks w' a = None \<and>
    get_stream w' n = Some s' \<and> listClientNodeHead s' = filter (\<lambda>b. \<not> doomed (cw w) b) (listClientNodeHead s) \<and>
    sends (cw w') = sends (cw w) @ concat (map (\<lambda>k. send_all (cw w)
      (receivers (pack_type c) (cw w) (listClientNodeHead s) k) (frame_packets (rtp_info_video s) t S k)) [0..<packet_count S]) \<and>
    concat (map (\<lambda>k. drop 12 (frame_packets (rtp_info_video s) t S k)) [0..<packet_count S]) = S \<and>
    ps_demux S = Some (header_units (frame_type c) t @ map (Pes 0xE0 (unat t mod 2 ^ 32) (unat t mod 2 ^ 32)) cs) \<and>
    concat cs = d"
proof -
  let ?v = "v\<lparr>timing := timestamp_step (v_pts c) (timing v)\<rparr>"
  let ?S = "ps_video_stream (frame_type c) t d"
  have ft: "frame_type c = ES_FRAME_I \<or> frame_type c = ES_FRAME_P" by (simp add: frame_type_def)
  have pre: "12 \<le> nat (pre_size (int (length d)))"
    by (simp add: pre_size_def MAX_RTP_PACKET_SIZE_def)
  have v: "pPsData ?v = Some a'" "u64Time (timing ?v) = t" using assms(7) by (simp_all add: t_def)
  obtain r buf' cl where f: "send_frame old n (frame_type c) (pack_type c) (d @ []) (int (length d))
      (nat (pre_size (int (length d)))) ?v w =
      Some (?v\<lparr>iPsDataLen := length ?S\<rparr>, put_stream n (s\<lparr>rtp_info_video := r,
          listClientNodeHead := filter (\<lambda>b. \<not> doomed (cw w) b) (listClientNodeHead s)\<rparr>)
        (w\<lparr>cw := cl, blocks := (blocks w)(a' \<mapsto> buf')\<rparr>))" (is "_ = Some (?v', ?w)")
    "sends cl = sends (cw w) @ concat (map (\<lambda>k. send_all (cw w)
      (receivers (pack_type c) (cw w) (listClientNodeHead s) k) (frame_packets (rtp_info_video s) t ?S k)) [0..<packet_count ?S])"
    "concat (map (\<lambda>k. drop 12 (frame_packets (rtp_info_video s) t ?S k)) [0..<packet_count ?S]) = ?S"
    using send_frame_delivers [OF assms(1) v(1) assms(9,10) ft assms(2) pre assms(11), of old "pack_type c" "[]"]
    unfolding v(2) by auto
  have live: "blocks ?w a \<noteq> None" using assms(6,8) by simp
  have h: "handle_frame old n i a (pre_size (int (length d))) v w =
      Some (?v', note_effect (Usleep i) (?w\<lparr>blocks := (blocks ?w)(a := None)\<rparr>))"
    by (rule handle_video_frame [OF assms(3-6) _ live]) (use f(1) in simp)
  show ?thesis
    unfolding h using f(2,3) demux_video_stream [of "frame_type c" t d]
    by (intro exI [of _ ?v'] exI [of _ "note_effect (Usleep i) (?w\<lparr>blocks := (blocks ?w)(a := None)\<rparr>)"]
          exI [of _ "s\<lparr>rtp_info_video := r, listClientNodeHead := filter (\<lambda>b. \<not> doomed (cw w) b) (listClientNodeHead s)\<rparr>"]
          exI [of _ ?S] exI [of _ "payload_chunks d"])
       (simp add: concat_payload_chunks)
qed

definition relay_head :: BOX_CTRL_CMD where
  "relay_head = box_cmd_zero\<lparr>cmd_length := 3, data_type := BP_FRAME, v_pts := 900\<rparr>"

definition relay_vars :: send_vars where
  "relay_vars = \<lparr>stPsInfo = info0, pPsData = Some 3, iPsDataLen = 0, timing = timing0\<rparr>"

definition relay_world :: stream_world where
  "relay_world =
     \<lparr>table = \<lparr>uStreamHashTableLen = 4, listStreamNodeHead = [[1], [], [], []],
        stream_nodes = [1 \<mapsto> stream_node_zero\<lparr>listClientNodeHead := [5], uRtpClientNodeSendDataThreadFlag := 1\<rparr>]\<rparr>,
      cw = \<lparr>clients = [5 \<mapsto> client0\<lparr>iSendIframeFlag := 1\<rparr>], trace = []\<rparr>, queues = Map.empty,
      blocks = [2 \<mapsto> frame_block (\<lambda>_. 0) relay_head [7, 8, 9], 3 \<mapsto> replicate PS_DATA_SIZE 0],
      bevs = Map.empty, pool = {1}\<rparr>"

theorem frame_reaches_clients_witness:
  "\<exists>v' w' S cs. handle_frame blank_old 1 40000 2 (pre_size (int (length [7, 8, 9 :: u8]))) relay_vars relay_world = Some (v', w') \<and>
    blocks w' 2 = None \<and>
    sends (cw w') = concat (map (\<lambda>k. send_all (cw relay_world) (receivers 0 (cw relay_world) [5] k)
      (frame_packets rtp_info_zero 0 S k)) [0..<packet_count S]) \<and>
    ps_demux S = Some (header_units ES_FRAME_P 0 @ map (Pes 0xE0 0 0) cs) \<and> concat cs = [7, 8, 9]"
proof -
  let ?s = "stream_node_zero\<lparr>listClientNodeHead := [5], uRtpClientNodeSendDataThreadFlag := 1\<rparr>"
  have s: "get_stream relay_world 1 = Some ?s" by (simp add: relay_world_def get_stream_def)
  have ok: "clients_ok (listClientNodeHead ?s) (cw relay_world)" by (simp add: relay_world_def clients_ok_def)
  have c: "data_type relay_head = I_FRAME \<or> data_type relay_head = BP_FRAME" "box_ok relay_head"
    "cmd_length relay_head = int (length [7, 8, 9 :: u8])"
    by (simp_all add: relay_head_def box_cmd_zero_def box_ok_def s32_small BP_FRAME_def)
  have blk: "blocks relay_world 2 = Some (frame_block (\<lambda>_. 0) relay_head [7, 8, 9])"
    "pPsData relay_vars = Some 3" "3 \<noteq> (2 :: nat)" "blocks relay_world 3 = Some (replicate PS_DATA_SIZE 0)"
    "length (replicate PS_DATA_SIZE (0 :: u8)) = PS_DATA_SIZE"
    by (simp_all add: relay_world_def relay_vars_def)
  have room: "nat (pre_size (int (length [7, 8, 9 :: u8]))) + video_size (frame_type relay_head) (length [7, 8, 9 :: u8]) \<le> PS_DATA_SIZE"
    by (simp add: pre_size_def MAX_RTP_PACKET_SIZE_def video_size_def PS_DATA_SIZE_def)
  have t: "u64Time (timestamp_step (v_pts relay_head) (timing relay_vars)) = 0"
    by (simp add: timestamp_step_def timestamp_add_def relay_vars_def timing0_def relay_head_def Let_def)
  have f: "frame_type relay_head = ES_FRAME_P" "pack_type relay_head = 0" "listClientNodeHead ?s = [5]"
    "rtp_info_video ?s = rtp_info_zero" "sends (cw relay_world) = []"
    by (simp_all add: frame_type_def pack_type_def relay_head_def BP_FRAME_def I_FRAME_def stream_node_zero_def sends_def
        relay_world_def)
  show ?thesis
    using frame_reaches_clients [OF s ok c blk room, of blank_old 40000] unfolding t f by auto
qed

end
