(* ===== verification/InetAddr.thy ===== *)
theory InetAddr
  imports CString
begin

text \<open>
  IPv4 addresses and their text, as the C library reads (\<open>inet_aton\<close>, \<open>inet_addr\<close>) and prints (\<open>inet_ntoa\<close>,
  \<open>inet_ntop\<close>) them; what is printed is read back.
\<close>

section \<open>inet_aton\<close>

text \<open>
  The C library's reading of a dotted address: up to four numbers, decimal, octal or hexadecimal, the last of which
  fills the bytes that are left; after it the text ends or a space follows. The address is the number in network order.
\<close>

definition digit_of :: "u8 \<Rightarrow> nat option" where
  "digit_of c =
     (if is_digit c then Some (unat c - 0x30)
      else if 0x61 \<le> c \<and> c \<le> 0x66 then Some (unat c - 0x61 + 10)
      else if 0x41 \<le> c \<and> c \<le> 0x46 then Some (unat c - 0x41 + 10)
      else None)"

fun base_digits :: "nat \<Rightarrow> nat \<Rightarrow> bytes \<Rightarrow> nat \<times> bytes" where
  "base_digits base acc [] = (acc, [])"
| "base_digits base acc (c # cs) =
     (case digit_of c of Some d \<Rightarrow> if d < base then base_digits base (acc * base + d) cs else (acc, c # cs)
      | None \<Rightarrow> (acc, c # cs))"

text \<open>\<open>strtoul(s, &end, 0)\<close> at a digit.\<close>

fun inet_number :: "bytes \<Rightarrow> nat \<times> bytes" where
  "inet_number (c # d # e # cs) =
     (if c = 0x30 \<and> (d = 0x78 \<or> d = 0x58) \<and> digit_of e \<noteq> None then base_digits 16 0 (e # cs)
      else base_digits (if c = 0x30 then 8 else 10) 0 (c # d # e # cs))"
| "inet_number (c # cs) = base_digits (if c = 0x30 then 8 else 10) 0 (c # cs)"
| "inet_number [] = (0, [])"

text \<open>\<open>parts\<close> are the numbers before, each below 256.\<close>

fun inet_parts :: "nat \<Rightarrow> nat list \<Rightarrow> bytes \<Rightarrow> u32 option" where
  "inet_parts k parts s =
     (if s = [] \<or> \<not> is_digit (hd s) then None
      else let (v, r) = inet_number s
        in if v > 0xFFFFFFFF then None
           else if r \<noteq> [] \<and> hd r = 0x2E
           then (case k of 0 \<Rightarrow> None
             | Suc k \<Rightarrow> if v > 0xFF then None else inet_parts k (parts @ [v]) (tl r))
           else if r \<noteq> [] \<and> \<not> is_space (hd r) then None
           else if v \<ge> 256 ^ (4 - length parts) then None
           else Some (word_of_nat (foldl (\<lambda>a x. a * 256 + x) 0 parts * 256 ^ (4 - length parts) + v)))"

declare inet_parts.simps [simp del]

definition inet_aton :: "bytes \<Rightarrow> u32 option" where
  "inet_aton s = inet_parts 3 [] s"

text \<open>\<open>inet_addr\<close> has no error value of its own: it is that of 255.255.255.255.\<close>

definition inet_addr :: "bytes \<Rightarrow> u32" where
  "inet_addr s = (case inet_aton s of None \<Rightarrow> 0xFFFFFFFF | Some a \<Rightarrow> a)"

section \<open>inet_ntoa\<close>

definition inet_ntoa :: "u32 \<Rightarrow> bytes" where
  "inet_ntoa a = print_nat (unat a div 16777216) @ 0x2E # print_nat (unat a div 65536 mod 256) @ 0x2E #
     print_nat (unat a div 256 mod 256) @ 0x2E # print_nat (unat a mod 256)"

section \<open>Reading back\<close>

lemma print_nat_small: "n < 10 \<Longrightarrow> print_nat n = [word_of_nat (0x30 + n)]"
  by (simp add: print_nat.simps)

lemma digit_of_print: "d < 10 \<Longrightarrow> digit_of (word_of_nat (0x30 + d)) = Some d"
proof -
  assume d: "d < 10"
  then have "is_digit (word_of_nat (0x30 + d))" using digit_char by blast
  moreover have "unat (word_of_nat (0x30 + d) :: u8) = 0x30 + d" using d by (simp only: unat_of_nat take_bit_eq_mod) simp
  ultimately show ?thesis by (simp add: digit_of_def)
qed

lemma base_digits_print:
  "base_digits 10 acc (print_nat n @ s) = base_digits 10 (acc * 10 ^ length (print_nat n) + n) s"
proof (induction n arbitrary: s rule: print_nat.induct)
  case (1 n)
  show ?case
  proof (cases "n < 10")
    case True
    then show ?thesis using digit_of_print [of n] by (simp add: print_nat_small)
  next
    case False
    have p: "print_nat n = print_nat (n div 10) @ [word_of_nat (0x30 + n mod 10)]" using False by (simp add: print_nat.simps [of n])
    have "(acc * 10 ^ length (print_nat (n div 10)) + n div 10) * 10 + n mod 10 = acc * 10 ^ length (print_nat n) + n"
      unfolding p by (simp add: algebra_simps)
    then show ?thesis using 1 [OF False, of "word_of_nat (0x30 + n mod 10) # s"] digit_of_print [of "n mod 10"] unfolding p by (simp add: ac_simps)
  qed
qed

lemma print_nat_nonempty: "print_nat n \<noteq> []"
  by (simp add: print_nat.simps [of n])

lemma print_nat_head: "is_digit (hd (print_nat n)) \<and> (0 < n \<longrightarrow> hd (print_nat n) \<noteq> 0x30)"
proof (induction n rule: print_nat.induct)
  case (1 n)
  show ?case
  proof (cases "n < 10")
    case True
    have "unat (word_of_nat (0x30 + n) :: u8) = 0x30 + n" using True by (simp only: unat_of_nat take_bit_eq_mod) simp
    moreover have "unat (0x30 :: u8) = 0x30" by simp
    ultimately have "0 < n \<longrightarrow> (word_of_nat (0x30 + n) :: u8) \<noteq> 0x30" by (metis add_cancel_left_right less_numeral_extra(3))
    then show ?thesis using True digit_char [of n] by (simp add: print_nat_small)
  next
    case False
    then have "hd (print_nat n) = hd (print_nat (n div 10))" by (simp add: print_nat.simps [of n] print_nat_nonempty)
    then show ?thesis using 1 [OF False] False by simp
  qed
qed

text \<open>A number ends at the end of the text or at a dot.\<close>

definition at_end :: "bytes \<Rightarrow> bool" where "at_end r \<longleftrightarrow> r = [] \<or> hd r = 0x2E"

lemma base_digits_end: "at_end r \<Longrightarrow> base_digits b acc r = (acc, r)"
  by (cases r) (auto simp: at_end_def digit_of_def is_digit_def)

lemma inet_number_print:
  assumes "at_end r"
  shows "inet_number (print_nat n @ r) = (n, r)"
proof (cases "n = 0")
  case True
  have "digit_of 0x30 = Some 0" by (simp add: digit_of_def is_digit_def)
  then have z: "base_digits 8 0 (0x30 # r) = (0, r)" using base_digits_end [OF assms] by simp
  have "inet_number (0x30 # r) = base_digits 8 0 (0x30 # r)"
    using assms by (cases "0x30 # r" rule: inet_number.cases) (auto simp: at_end_def)
  then show ?thesis using True z by (simp add: print_nat_small)
next
  case False
  have h: "hd (print_nat n @ r) \<noteq> 0x30" "print_nat n @ r \<noteq> []" using print_nat_head [of n] False print_nat_nonempty [of n] by simp_all
  then have "inet_number (print_nat n @ r) = base_digits 10 0 (print_nat n @ r)"
    by (cases "print_nat n @ r" rule: inet_number.cases) auto
  then show ?thesis using base_digits_print [of 0 n r] base_digits_end [OF assms] by simp
qed

lemma inet_parts_dot:
  "v < 256 \<Longrightarrow> inet_parts (Suc k) parts (print_nat v @ 0x2E # r) = inet_parts k (parts @ [v]) r"
  using inet_number_print [of "0x2E # r" v] print_nat_head [of v] print_nat_nonempty [of v]
  by (subst inet_parts.simps) (simp add: at_end_def)

lemma inet_parts_end:
  "v < 256 \<Longrightarrow> length parts = 3 \<Longrightarrow>
   inet_parts k parts (print_nat v) = Some (word_of_nat (foldl (\<lambda>a x. a * 256 + x) 0 parts * 256 + v))"
  using inet_number_print [of "[]" v] print_nat_head [of v] print_nat_nonempty [of v]
  by (subst inet_parts.simps) (simp add: at_end_def)

lemma inet_aton_ntoa: "inet_aton (inet_ntoa a) = Some a"
proof -
  have lt: "unat a < 4294967296" using unsigned_less [of a] by simp
  then have "unat a div 16777216 < 256" by (simp add: less_mult_imp_div_less)
  then have "inet_aton (inet_ntoa a) = Some (word_of_nat (((unat a div 16777216 * 256 + unat a div 65536 mod 256) * 256 +
      unat a div 256 mod 256) * 256 + unat a mod 256))"
    by (simp add: inet_aton_def inet_ntoa_def numeral_3_eq_3 inet_parts_dot inet_parts_end del: of_nat_add of_nat_mult)
  moreover have "((unat a div 16777216 * 256 + unat a div 65536 mod 256) * 256 + unat a div 256 mod 256) * 256 + unat a mod 256 = unat a"
    using div_mult_mod_eq [of "unat a" 256] div_mult_mod_eq [of "unat a div 256" 256] div_mult_mod_eq [of "unat a div 65536" 256]
    by (simp only: div_mult2_eq [symmetric] mult_numeral_1_right) (simp add: div_mult2_eq [symmetric])
  ultimately show ?thesis by (simp only: of_nat_unat ucast_id)
qed

end
