(* ===== verification/StreamMoudle.thy ===== *)
theory StreamMoudle
  imports HbServer RtcpPack InetAddr
begin

text \<open>
  \<open>src/stream/stream_moudle.c\<close>: the play and stop requests that the SIP thread sends, and the RTCP
  events of a client. \<open>rtcp\<close> is the configuration's \<open>iUseRtcpFlag\<close>.
\<close>

section \<open>RTCP events of a client\<close>

definition RTCP_SEND_TIMER :: int where "RTCP_SEND_TIMER = 15"
definition RTCP_RECV_TIMEOUT :: int where "RTCP_RECV_TIMEOUT = 20"
definition EV_TIMEOUT :: int where "EV_TIMEOUT = 1"
definition EV_READ :: int where "EV_READ = 2"

text \<open>
  \<open>udp_rtcp_recv_cb\<close>: no answer in time marks the client and tells the SIP thread; the message is a block of its own.
  What arrives is read and dropped.
\<close>

definition udp_rtcp_recv_cb :: "int \<Rightarrow> nat \<Rightarrow> client_world \<Rightarrow> client_world option" where
  "udp_rtcp_recv_cb iWhich a w =
     (if iWhich = EV_TIMEOUT then do {
        c \<leftarrow> clients w a;
        let w = put_client a (c\<lparr>iDeleteFlag := 1\<rparr>) w;
        Some (emit (Tell_stop (strncpy 32 (cCallId c))) w)
      }
      else Some w)"

text \<open>\<open>udp_send_rtcp_timer\<close>; \<open>ev\<close> is the event that \<open>event_new\<close> gives.\<close>

definition udp_send_rtcp_timer :: "handle option \<Rightarrow> nat \<Rightarrow> client_world \<Rightarrow> client_world option" where
  "udp_send_rtcp_timer ev a w = do {
     c \<leftarrow> clients w a;
     if iSendIframeFlag c = 1 then do {
       let cRtcpBuf = replicate 512 0;
       (iSrLen, cRtcpBuf) \<leftarrow> rtcp_sr_pack c cRtcpBuf 0 512;
       (iSdesLen, cRtcpBuf) \<leftarrow> rtcp_sdes_pack c cRtcpBuf (nat iSrLen) (512 - iSrLen);
       d \<leftarrow> mem_read cRtcpBuf 0 (nat (iSrLen + iSdesLen));
       let u = stUdpVideoInfo c;
       let w = emit (Sendto (iUdpRtcpSockFd u) d (rtcp_peer u)) w;
       if evUdpRtcpListenEvent u = None then do {
         b \<leftarrow> evUdpSendRtcpEvent u;
         let w = put_client a (c\<lparr>stUdpVideoInfo := u\<lparr>evUdpRtcpListenEvent := ev\<rparr>\<rparr>) w;
         e \<leftarrow> ev;
         Some (emit (Event_add e RTCP_RECV_TIMEOUT) w)
       } else Some w
     } else Some w
   }"

section \<open>stream_read_cb\<close>

text \<open>\<open>calloc(1, sizeof(RTP_CLIENT_TRANSPORT_OBJ))\<close>.\<close>

definition client_zero :: RTP_CLIENT_TRANSPORT where
  "client_zero =
     \<lparr>cCallId = replicate 32 0, pSendStreamBev = None, hEventArgs = None, iDeleteFlag = 0, iSendIframeFlag = 0,
      stUdpVideoInfo = \<lparr>rtp_peer = (0, 0), rtcp_peer = (0, 0), cli_ports = \<lparr>pp_RTP = 0, pp_RTCP = 0\<rparr>,
        ser_ports = \<lparr>pp_RTP = 0, pp_RTCP = 0\<rparr>, evUdpSendRtcpEvent = None, evUdpRtcpListenEvent = None,
        iUdpRtcpSockFd = 0, iUdpVideoFd = 0\<rparr>, u32Ssrc = 0\<rparr>"

text \<open>The peer: the address stays zero when the text is not one.\<close>

definition peer_of :: "bytes \<Rightarrow> int \<Rightarrow> sockaddr_in" where
  "peer_of ip port = (case inet_aton ip of Some a \<Rightarrow> a | None \<Rightarrow> 0, word_of_int port)"

text \<open>The node of a new client; with RTCP also its timer event \<open>ev\<close>.\<close>

definition new_client :: "bool \<Rightarrow> handle option \<Rightarrow> SIP_NODE \<Rightarrow> RTP_CLIENT_TRANSPORT option" where
  "new_client rtcp ev s = do {
     ip \<leftarrow> c_str (sn_cPushIp s);
     let u = (stUdpVideoInfo client_zero)
       \<lparr>cli_ports := \<lparr>pp_RTP = sn_iPushPort s, pp_RTCP = to_s32 (sn_iPushPort s + 1)\<rparr>,
        iUdpVideoFd := sn_iUdpSendStreamSockFd s, rtp_peer := peer_of ip (sn_iPushPort s)\<rparr>;
     let u = (if rtcp
       then u\<lparr>iUdpRtcpSockFd := sn_iUdpRtcpSockFd s,
              ser_ports := (ser_ports u)\<lparr>pp_RTCP := sn_iUdpRtcpListenPort s\<rparr>,
              rtcp_peer := peer_of ip (pp_RTCP (cli_ports u)), evUdpSendRtcpEvent := ev\<rparr>
       else u);
     Some (client_zero\<lparr>cCallId := strncpy 32 (sn_cCallId s), u32Ssrc := sn_u32Ssrc s, stUdpVideoInfo := u\<rparr>)
   }"

record play_answers =
  pa_stream :: nat
  pa_client :: nat
  pa_event :: "handle option"
  pa_connect :: connect_answers

definition play_request ::
  "(bytes \<Rightarrow> u32) \<Rightarrow> bool \<Rightarrow> play_answers \<Rightarrow> SIP_NODE \<Rightarrow> stream_world \<Rightarrow> stream_world option" where
  "play_request hf rtcp e s w = do {
     h \<leftarrow> request_bucket hf (table w) s;
     let w = lock_stream h w;
     (n, t) \<leftarrow> insert_node_to_stream_hash_table (table w) h s (pa_stream e);
     let w = w\<lparr>table := t\<rparr>;
     nd \<leftarrow> get_stream w n;
     found \<leftarrow> find_client_node nd (cw w) (sn_cCallId s);
     w \<leftarrow> (case found of Some _ \<Rightarrow> Some w
       | None \<Rightarrow> do {
           c \<leftarrow> new_client rtcp (pa_event e) s;
           let w = w\<lparr>cw := put_client (pa_client e) c (cw w)\<rparr>;
           w \<leftarrow> (if rtcp then map_option (\<lambda>ev. note_effect (Event_add ev RTCP_SEND_TIMER) w) (pa_event e) else Some w);
           Some (put_stream n (nd\<lparr>listClientNodeHead := la_append (listClientNodeHead nd) (pa_client e)\<rparr>) w)
         });
     (r, w) \<leftarrow> play_rtsp_video_from_hbserver (pa_connect e) n w;
     Some (unlock_stream h w)
   }"

definition stop_request :: "(bytes \<Rightarrow> u32) \<Rightarrow> SIP_NODE \<Rightarrow> stream_world \<Rightarrow> stream_world option" where
  "stop_request hf s w = do {
     h \<leftarrow> request_bucket hf (table w) s;
     let w = lock_stream h w;
     found \<leftarrow> find_node_from_stream_hash_table (table w) h s;
     w \<leftarrow> (case found of None \<Rightarrow> Some w
       | Some n \<Rightarrow> do {
           nd \<leftarrow> get_stream w n;
           found \<leftarrow> find_client_node nd (cw w) (sn_cCallId s);
           case found of None \<Rightarrow> Some w
           | Some a \<Rightarrow> do {
               c \<leftarrow> clients (cw w) a;
               Some (w\<lparr>cw := put_client a (c\<lparr>iDeleteFlag := 1\<rparr>) (cw w)\<rparr>)
             }
         });
     Some (unlock_stream h w)
   }"

definition stream_read_cb ::
  "(bytes \<Rightarrow> u32) \<Rightarrow> bool \<Rightarrow> play_answers \<Rightarrow> SIP_NODE \<Rightarrow> stream_world \<Rightarrow> stream_world option" where
  "stream_read_cb hf rtcp e s w =
     (case sn_enumCmdType s of PLAY \<Rightarrow> play_request hf rtcp e s w
      | STOP \<Rightarrow> stop_request hf s w
      | CMD_NONE \<Rightarrow> Some w)"

end
