(* ===== verification/StreamRelease.thy ===== *)
theory StreamRelease
  imports StreamWorld
begin

text \<open>
  What giving back a stream does: the pieces that the callbacks and the send task put together in
  different orders, each with its effect on a sound stream.
\<close>

section \<open>What a stream owns\<close>

definition frame_blocks :: "stream_world \<Rightarrow> STREAM_NODE \<Rightarrow> nat list" where
  "frame_blocks w s =
     (case queueStreamData s of None \<Rightarrow> []
      | Some q \<Rightarrow> (case queues w q of None \<Rightarrow> [] | Some f \<Rightarrow> map (the \<circ> qa_pDataBuf) (lf_content f)))"

definition source_block :: "STREAM_NODE \<Rightarrow> nat list" where
  "source_block s = (case hGetStreamFromSource s of None \<Rightarrow> [] | Some a \<Rightarrow> [a])"

definition queue_ok :: "stream_world \<Rightarrow> STREAM_NODE \<Rightarrow> bool" where
  "queue_ok w s \<longleftrightarrow>
     (case queueStreamData s of None \<Rightarrow> True
      | Some q \<Rightarrow> \<exists>f. queues w q = Some f \<and> lf_ok f \<and> max_unit_num f = 512 \<and> (\<forall>d\<in>set (lf_content f). qa_pDataBuf d \<noteq> None))"

definition blocks_ok :: "stream_world \<Rightarrow> STREAM_NODE \<Rightarrow> bool" where
  "blocks_ok w s \<longleftrightarrow> distinct (frame_blocks w s @ source_block s) \<and>
     set (frame_blocks w s @ source_block s) \<subseteq> dom (blocks w)"

lemma restrict_UNIV [simp]: "m |` UNIV = m"
  by (simp add: restrict_map_def)

lemma blocks_same [simp]: "w\<lparr>blocks := blocks w\<rparr> = w"
  by simp

declare clear_rounds.simps [simp del]

section \<open>Clearing the queue\<close>

lemma queue_len_Some: "queues w q = Some f \<Longrightarrow> lf_ok f \<Longrightarrow> queue_len (Some q) w = Some (int (length (lf_content f)))"
  by (simp add: queue_len_def lfq.len_content)

lemma queue_pop_Some:
  assumes "queues w q = Some f" "lf_ok f" "lf_content f = d # ds"
  shows "\<exists>f'. queue_pop (Some q) w = Some (0, Some d, w\<lparr>queues := (queues w)(q \<mapsto> f')\<rparr>) \<and> lf_ok f' \<and>
    lf_content f' = ds \<and> max_unit_num f' = max_unit_num f"
  using lfq.pop_nonempty [OF assms(2,3)] assms(1) by (auto simp: queue_pop_def)

lemma queue_push_room:
  assumes "queues w q = Some f" "lf_ok f" "int (length (lf_content f)) < max_unit_num f"
  shows "\<exists>f'. queue_push d (Some q) w = Some (0, w\<lparr>queues := (queues w)(q \<mapsto> f')\<rparr>) \<and> lf_ok f' \<and>
    lf_content f' = lf_content f @ [d] \<and> max_unit_num f' = max_unit_num f"
  using lfq.push_room [OF assms(2,3), of d] assms(1) by (auto simp: queue_push_def)

lemma clear_rounds_empties:
  assumes "queues w q = Some f" "lf_ok f" "length (lf_content f) \<le> k"
    and "\<forall>d\<in>set (lf_content f). qa_pDataBuf d \<noteq> None"
    and "distinct (map (the \<circ> qa_pDataBuf) (lf_content f))" "set (map (the \<circ> qa_pDataBuf) (lf_content f)) \<subseteq> dom (blocks w)"
  shows "\<exists>f'. clear_rounds (Suc k) (Some q) w = Some (w\<lparr>queues := (queues w)(q \<mapsto> f'),
      blocks := blocks w |` (- set (map (the \<circ> qa_pDataBuf) (lf_content f)))\<rparr>) \<and> lf_ok f' \<and> lf_content f' = []"
  using assms
proof (induction "lf_content f" arbitrary: w f k)
  case Nil
  have [simp]: "lf_content f = []" using Nil.hyps by simp
  have "w\<lparr>queues := (queues w)(q \<mapsto> f), blocks := blocks w |` UNIV\<rparr> = w"
    using Nil.prems(1) by (simp add: fun_upd_idem)
  moreover have "clear_rounds (Suc k) (Some q) w = Some w" using Nil.prems(1,2) by (simp add: clear_rounds.simps queue_len_Some)
  moreover have "- set (map (the \<circ> qa_pDataBuf) (lf_content f)) = UNIV" by simp
  ultimately show ?case using Nil.prems(2) by (metis \<open>lf_content f = []\<close>)
next
  case (Cons d ds)
  have c: "lf_content f = d # ds" using Cons.hyps(2) by simp
  obtain a where a: "qa_pDataBuf d = Some a" using Cons.prems(4) c by auto
  obtain k' where k: "k = Suc k'" using Cons.prems(3) c by (cases k) auto
  obtain f' where p: "queue_pop (Some q) w = Some (0, Some d, w\<lparr>queues := (queues w)(q \<mapsto> f')\<rparr>)" "lf_ok f'"
    "lf_content f' = ds" "max_unit_num f' = max_unit_num f"
    using queue_pop_Some [OF Cons.prems(1,2) c] by blast
  let ?w = "w\<lparr>queues := (queues w)(q \<mapsto> f'), blocks := (blocks w)(a := None)\<rparr>"
  have live: "blocks w a \<noteq> None" using Cons.prems(6) a c by auto
  have out: "a \<notin> set (map (the \<circ> qa_pDataBuf) ds)" using Cons.prems(5) a c by simp
  have h: "queues ?w q = Some f'" "length (lf_content f') \<le> k'" "\<forall>d\<in>set (lf_content f'). qa_pDataBuf d \<noteq> None"
    "distinct (map (the \<circ> qa_pDataBuf) (lf_content f'))"
    "set (map (the \<circ> qa_pDataBuf) (lf_content f')) \<subseteq> dom (blocks ?w)"
    using p(3) Cons.prems(3-6) c k out by auto
  obtain f'' where r: "clear_rounds (Suc k') (Some q) ?w = Some (?w\<lparr>queues := (queues ?w)(q \<mapsto> f''),
      blocks := blocks ?w |` (- set (map (the \<circ> qa_pDataBuf) (lf_content f')))\<rparr>)" "lf_ok f''" "lf_content f'' = []"
    using Cons.hyps(1) [OF p(3) [symmetric] h(1) p(2) h(2-5)] by blast
  have "blocks ?w |` (- set (map (the \<circ> qa_pDataBuf) (lf_content f'))) =
      blocks w |` (- set (map (the \<circ> qa_pDataBuf) (lf_content f)))"
    using a c p(3) by (auto simp: restrict_map_def fun_eq_iff)
  then have "clear_rounds (Suc k) (Some q) w = Some (w\<lparr>queues := (queues w)(q \<mapsto> f''),
      blocks := blocks w |` (- set (map (the \<circ> qa_pDataBuf) (lf_content f)))\<rparr>)"
    using r(1) p(1) a live c Cons.prems(1,2) by (subst clear_rounds.simps) (simp add: queue_len_Some free_block_def k)
  then show ?case using r(2,3) by blast
qed

lemma clear_queue:
  assumes q: "queue_ok w s" and b: "blocks_ok w s"
  shows "\<exists>Q. clear_rtp_data_from_queue (queueStreamData s) w =
      Some (w\<lparr>queues := Q, blocks := blocks w |` (- set (frame_blocks w s))\<rparr>) \<and>
    (\<forall>x. Some x \<noteq> queueStreamData s \<longrightarrow> Q x = queues w x) \<and> (\<forall>x. Q x = None \<longleftrightarrow> queues w x = None)"
proof (cases "queueStreamData s")
  case None
  then show ?thesis
    by (intro exI [of _ "queues w"]) (simp add: clear_rtp_data_from_queue_def clear_rounds.simps queue_len_def frame_blocks_def)
next
  case (Some q)
  obtain f where f: "queues w q = Some f" "lf_ok f" "\<forall>d\<in>set (lf_content f). qa_pDataBuf d \<noteq> None"
    using q Some by (auto simp: queue_ok_def)
  have fb: "frame_blocks w s = map (the \<circ> qa_pDataBuf) (lf_content f)" using Some f by (simp add: frame_blocks_def)
  obtain f' where "clear_rounds (Suc (length (lf_content f))) (Some q) w = Some (w\<lparr>queues := (queues w)(q \<mapsto> f'),
      blocks := blocks w |` (- set (frame_blocks w s))\<rparr>)"
    using clear_rounds_empties [OF f(1,2) order_refl f(3)] b unfolding fb blocks_ok_def by auto
  then show ?thesis
    using Some f by (intro exI [of _ "(queues w)(q \<mapsto> f')"]) (auto simp: clear_rtp_data_from_queue_def queue_len_Some)
qed

section \<open>The table\<close>

text \<open>Every stream that is allocated is on the chain its key belongs to.\<close>

definition table_ok :: "(bytes \<Rightarrow> u32) \<Rightarrow> STREAM_HASH_TABLE \<Rightarrow> bool" where
  "table_ok hf t \<longleftrightarrow> stream_ok hf t \<and>
     (\<forall>n. stream_nodes t n \<noteq> None \<longrightarrow> (\<exists>k. stream_node_key t n = Some k \<and> streams hf t k = Some n))"

definition same_key :: "STREAM_NODE \<Rightarrow> STREAM_NODE \<Rightarrow> bool" where
  "same_key s s' \<longleftrightarrow> st_cDevId s' = st_cDevId s \<and> st_iDevChnl s' = st_iDevChnl s \<and>
     st_iStreamType s' = st_iStreamType s \<and> uStreamNodeHashValue s' = uStreamNodeHashValue s"

definition drop_stream :: "STREAM_HASH_TABLE \<Rightarrow> nat \<Rightarrow> STREAM_HASH_TABLE" where
  "drop_stream t n =
     (case del_node_from_stream_hash_table t n of None \<Rightarrow> t
      | Some t' \<Rightarrow> t'\<lparr>stream_nodes := (stream_nodes t')(n := None)\<rparr>)"

lemma stream_ok_hash:
  "stream_ok hf t \<Longrightarrow> stream_nodes t a = Some n \<Longrightarrow> stream_node_key t a = Some k \<Longrightarrow> uStreamNodeHashValue n = stream_bucket hf t k"
  unfolding stream_ok_def by blast

lemma stream_ok_cong:
  assumes "uStreamHashTableLen t' = uStreamHashTableLen t" "listStreamNodeHead t' = listStreamNodeHead t"
    and "\<And>i a. i < length (listStreamNodeHead t) \<Longrightarrow> a \<in> set (listStreamNodeHead t ! i) \<Longrightarrow>
      stream_node_key t' a = stream_node_key t a"
    and "\<And>a n' k. stream_nodes t' a = Some n' \<Longrightarrow> stream_node_key t' a = Some k \<Longrightarrow>
      uStreamNodeHashValue n' = stream_bucket hf t k"
    and ok: "stream_ok hf t"
  shows "stream_ok hf t'" "streams hf t' = streams hf t"
proof -
  have b: "stream_bucket hf t' = stream_bucket hf t" using assms(1) by (simp add: stream_bucket_def fun_eq_iff)
  have c: "chains_ok (stream_node_key t) (\<lambda>k. unat (stream_bucket hf t k)) (listStreamNodeHead t)"
    using ok by (simp add: stream_ok_def)
  have "chains_ok (stream_node_key t') (\<lambda>k. unat (stream_bucket hf t k)) (listStreamNodeHead t)"
    unfolding chains_ok_def
  proof (intro allI impI)
    fix i assume i: "i < length (listStreamNodeHead t)"
    have "inj_on (stream_node_key t') (set (listStreamNodeHead t ! i)) = inj_on (stream_node_key t) (set (listStreamNodeHead t ! i))"
      by (rule inj_on_cong) (rule assms(3) [OF i])
    then show "distinct (listStreamNodeHead t ! i) \<and> inj_on (stream_node_key t') (set (listStreamNodeHead t ! i)) \<and>
        (\<forall>a\<in>set (listStreamNodeHead t ! i). \<exists>k. stream_node_key t' a = Some k \<and> unat (stream_bucket hf t k) = i)"
      using c i assms(3) [OF i] by (simp add: chains_ok_def)
  qed
  then show "stream_ok hf t'" using ok assms(1,2,4) b by (auto simp: stream_ok_def)
  have "la_seek (\<lambda>a. stream_node_key t' a = Some k) (listStreamNodeHead t ! unat (stream_bucket hf t k)) =
      la_seek (\<lambda>a. stream_node_key t a = Some k) (listStreamNodeHead t ! unat (stream_bucket hf t k))" for k
    using assms(3) [OF stream_bucket_range [OF ok]] unfolding la_seek_def by (intro find_cong) auto
  then show "streams hf t' = streams hf t"
    using assms(2) unfolding streams_def chains_map_def b by auto
qed

lemma table_ok_put:
  assumes "table_ok hf t" and "stream_nodes t n = Some s" and "same_key s s'"
  shows "table_ok hf (t\<lparr>stream_nodes := (stream_nodes t)(n \<mapsto> s')\<rparr>)"
proof -
  let ?t = "t\<lparr>stream_nodes := (stream_nodes t)(n \<mapsto> s')\<rparr>"
  have ok: "stream_ok hf t" using assms(1) by (simp add: table_ok_def)
  have k: "stream_node_key ?t = stream_node_key t"
    using assms(2,3) by (auto simp: stream_node_key_def same_key_def fun_eq_iff)
  have h: "uStreamNodeHashValue x = stream_bucket hf t k'"
    if "stream_nodes ?t a = Some x" "stream_node_key ?t a = Some k'" for a x k'
    using that stream_ok_hash [OF ok] assms(2,3) unfolding k by (auto simp: same_key_def split: if_splits)
  note c = stream_ok_cong [of ?t t hf, OF _ _ _ h ok]
  have "stream_ok hf ?t" "streams hf ?t = streams hf t" by (rule c; simp add: k)+
  then show ?thesis using assms(1,2) by (auto simp: table_ok_def k)
qed

lemma table_ok_drop:
  assumes "table_ok hf t" and "stream_nodes t n = Some s"
  shows "\<exists>t'. del_node_from_stream_hash_table t n = Some t' \<and> stream_nodes t' = stream_nodes t \<and> table_ok hf (drop_stream t n)"
proof -
  have ok: "stream_ok hf t" using assms(1) by (simp add: table_ok_def)
  obtain k where k: "stream_node_key t n = Some k" "streams hf t k = Some n" using assms by (auto simp: table_ok_def)
  obtain t' where t': "del_node_from_stream_hash_table t n = Some t'" "stream_ok hf t'" "streams hf t' = (streams hf t)(k := None)"
    using stream_delete [OF ok k(2)] by blast
  have nodes: "stream_nodes t' = stream_nodes t" "uStreamHashTableLen t' = uStreamHashTableLen t"
    using t'(1) by (auto simp: del_node_from_stream_hash_table_def split: bind_splits)
  then have nk: "stream_node_key t' = stream_node_key t" by (simp add: stream_node_key_def fun_eq_iff)
  let ?t = "t'\<lparr>stream_nodes := (stream_nodes t')(n := None)\<rparr>"
  have c: "chains_ok (stream_node_key t') (\<lambda>k. unat (stream_bucket hf t' k)) (listStreamNodeHead t')"
    using t'(2) by (simp add: stream_ok_def)
  have out: "n \<notin> set (listStreamNodeHead t' ! i)" if i: "i < length (listStreamNodeHead t')" for i
  proof
    assume "n \<in> set (listStreamNodeHead t' ! i)"
    then have "n \<in> set (listStreamNodeHead t' ! unat (stream_bucket hf t' k)) \<and> unat (stream_bucket hf t' k) < length (listStreamNodeHead t')"
      using chains_member [OF c i, of n] k(1) i unfolding nk by auto
    then have "streams hf t' k = Some n"
      unfolding streams_def using k(1) by (subst chains_map_Some [OF c]) (simp_all add: nk)
    then show False using t'(3) by simp
  qed
  have key: "stream_node_key ?t a = (if a = n then None else stream_node_key t a)" for a
    by (simp add: stream_node_key_def nodes)
  have h: "uStreamNodeHashValue x = stream_bucket hf t' k'"
    if "stream_nodes ?t a = Some x" "stream_node_key ?t a = Some k'" for a x k'
    using that stream_ok_hash [OF t'(2)] unfolding key by (auto simp: nk nodes split: if_splits)
  note cg = stream_ok_cong [of ?t t' hf, OF _ _ _ h t'(2)]
  have r: "stream_ok hf ?t" "streams hf ?t = streams hf t'"
    by (rule cg; use out in \<open>auto simp: key nk\<close>)+
  have "\<exists>k. stream_node_key ?t m = Some k \<and> streams hf ?t k = Some m" if m: "stream_nodes ?t m \<noteq> None" for m
  proof -
    have mn: "m \<noteq> n" and "stream_nodes t m \<noteq> None" using m nodes(1) by (auto split: if_splits)
    then obtain k' where k': "stream_node_key t m = Some k'" "streams hf t k' = Some m"
      using assms(1) unfolding table_ok_def by blast
    then have "k' \<noteq> k" using k(2) mn by auto
    then show ?thesis using k' mn key [of m] r(2) t'(3) by (intro exI [of _ k']) simp
  qed
  then have "table_ok hf ?t" using r(1) by (simp add: table_ok_def)
  then show ?thesis using t'(1) nodes by (intro exI [of _ t']) (simp add: drop_stream_def)
qed

end
