(* ===== verification/StreamTeardown.thy ===== *)
theory StreamTeardown
  imports StreamRelease SendTask
begin

text \<open>
  The five places that end a stream: the send task, the two error paths of the receiver, the refused request
  and the failed connection. On a sound stream each of them touches nothing that was freed and leaves no trace of the
  stream: \<open>torn_down\<close>.
\<close>

section \<open>The steps\<close>

definition freed_clients :: "nat list \<Rightarrow> client_world \<Rightarrow> client_world" where
  "freed_clients cl c = c\<lparr>clients := clients c |` (- set cl),
     trace := trace c @ concat (map (\<lambda>a. holdings (the (clients c a)) @ [Free_client a]) cl)\<rparr>"

lemma freed_clients_clients [simp]: "clients (freed_clients cl c) = clients c |` (- set cl)"
  by (simp add: freed_clients_def)

lemma destroy_clients_eq:
  "get_stream w n = Some s \<Longrightarrow> clients_ok (listClientNodeHead s) (cw w) \<Longrightarrow>
   destroy_clients n w = Some (put_stream n (s\<lparr>listClientNodeHead := []\<rparr>) (w\<lparr>cw := freed_clients (listClientNodeHead s) (cw w)\<rparr>))"
  by (simp add: destroy_clients_def destory_client_list_def la_size_def destory_loop_correct freed_clients_def)

lemma unlink_stream_eq:
  assumes "table_ok hf (table w)" "get_stream w n = Some s"
  shows "\<exists>l. unlink_stream n w = Some (w\<lparr>table := (table w)\<lparr>listStreamNodeHead := l\<rparr>\<rparr>) \<and>
    drop_stream (table w) n = (table w)\<lparr>listStreamNodeHead := l, stream_nodes := (stream_nodes (table w))(n := None)\<rparr>"
  using table_ok_drop [OF assms(1), of n s] assms(2)
  by (auto simp: unlink_stream_def drop_stream_def get_stream_def del_node_from_stream_hash_table_def split: bind_splits)

lemma queue_destroy_eq:
  assumes "get_stream w n = Some s" "\<And>q. queueStreamData s = Some q \<Longrightarrow> queues w q \<noteq> None"
  shows "queue_destroy n w = Some (case queueStreamData s of None \<Rightarrow> w
    | Some q \<Rightarrow> put_stream n (s\<lparr>queueStreamData := None\<rparr>) (w\<lparr>queues := (queues w)(q := None)\<rparr>))"
  using assms by (auto simp: queue_destroy_def split: option.split)

lemma free_source_eq:
  assumes "get_stream w n = Some s" "\<And>a. hGetStreamFromSource s = Some a \<Longrightarrow> blocks w a \<noteq> None"
  shows "free_source n w = Some (case hGetStreamFromSource s of None \<Rightarrow> w
    | Some a \<Rightarrow> put_stream n (s\<lparr>hGetStreamFromSource := None\<rparr>) (w\<lparr>blocks := (blocks w)(a := None)\<rparr>))"
  using assms by (auto simp: free_source_def free_block_def split: option.split)

lemma free_stream_eq:
  "get_stream w n = Some s \<Longrightarrow>
   free_stream n w = Some (w\<lparr>table := (table w)\<lparr>stream_nodes := (stream_nodes (table w))(n := None)\<rparr>\<rparr>)"
  by (simp add: free_stream_def)

lemma free_bev_eq: "bevs w b \<noteq> None \<Longrightarrow> free_bev b w = Some (note_effect (Bufferevent_free b) (w\<lparr>bevs := (bevs w)(b := None)\<rparr>))"
  by (simp add: free_bev_def)

section \<open>A stream that is gone\<close>

definition sound_stream :: "stream_world \<Rightarrow> nat \<Rightarrow> STREAM_NODE \<Rightarrow> bool" where
  "sound_stream w n s \<longleftrightarrow> get_stream w n = Some s \<and> clients_ok (listClientNodeHead s) (cw w) \<and> queue_ok w s \<and> blocks_ok w s"

definition torn_down :: "nat \<Rightarrow> STREAM_NODE \<Rightarrow> stream_world \<Rightarrow> stream_world \<Rightarrow> bool" where
  "torn_down n s w w' \<longleftrightarrow> table w' = drop_stream (table w) n \<and>
     clients (cw w') = clients (cw w) |` (- set (listClientNodeHead s)) \<and>
     blocks w' = blocks w |` (- set (frame_blocks w s @ source_block s)) \<and>
     queues w' = (queues w) |` (- set_option (queueStreamData s))"

text \<open>The table without the node, whatever the node holds by now.\<close>

definition forget :: "nat \<Rightarrow> stream_world \<Rightarrow> STREAM_HASH_TABLE" where
  "forget n w = (table w)\<lparr>stream_nodes := (stream_nodes (table w))(n := None)\<rparr>"

lemma forget_simps [simp]:
  "forget n (put_stream n s w) = forget n w" "forget n (note_effect e w) = forget n w"
  "forget n (w\<lparr>cw := c\<rparr>) = forget n w" "forget n (w\<lparr>blocks := b\<rparr>) = forget n w"
  "forget n (w\<lparr>queues := q\<rparr>) = forget n w" "forget n (w\<lparr>bevs := v\<rparr>) = forget n w"
  by (simp_all add: forget_def put_stream_def note_effect_def)

lemma free_stream_forget: "get_stream w n \<noteq> None \<Longrightarrow> free_stream n w = Some (w\<lparr>table := forget n w\<rparr>)"
  by (simp add: free_stream_def forget_def)

lemma forget_table: "forget n (w\<lparr>table := (table w')\<lparr>listStreamNodeHead := l\<rparr>\<rparr>) = (forget n w')\<lparr>listStreamNodeHead := l\<rparr>"
  by (simp add: forget_def)

text \<open>What the steps leave of a node: all but the fields they clear.\<close>

definition rest_of :: "STREAM_NODE \<Rightarrow> STREAM_NODE \<Rightarrow> bool" where
  "rest_of s s' \<longleftrightarrow> uStreamNodeHashValue s' = uStreamNodeHashValue s \<and>
     (listClientNodeHead s' = listClientNodeHead s \<or> listClientNodeHead s' = []) \<and>
     hGetStreamFromSource s' = hGetStreamFromSource s \<and> queueStreamData s' = queueStreamData s"

text \<open>The queue.\<close>

lemma queue_gone:
  assumes s: "get_stream w n = Some s" and q: "queue_ok w s" and b: "blocks_ok w s"
  shows "\<exists>w1 w2. clear_rtp_data_from_queue (queueStreamData s) w = Some w1 \<and> queue_destroy n w1 = Some w2 \<and>
    get_stream w2 n = Some (s\<lparr>queueStreamData := None\<rparr>) \<and> forget n w2 = forget n w \<and>
    blocks w2 = blocks w |` (- set (frame_blocks w s)) \<and>
    queues w2 = (queues w) |` (- set_option (queueStreamData s)) \<and> cw w2 = cw w \<and> bevs w2 = bevs w \<and> pool w2 = pool w"
proof -
  let ?B = "blocks w |` (- set (frame_blocks w s))"
  obtain Q where Q: "clear_rtp_data_from_queue (queueStreamData s) w = Some (w\<lparr>queues := Q, blocks := ?B\<rparr>)"
    "\<forall>x. Some x \<noteq> queueStreamData s \<longrightarrow> Q x = queues w x" "\<forall>x. Q x = None \<longleftrightarrow> queues w x = None"
    using clear_queue [OF q b] by blast
  let ?w1 = "w\<lparr>queues := Q, blocks := ?B\<rparr>"
  let ?w2 = "case queueStreamData s of None \<Rightarrow> ?w1
    | Some q \<Rightarrow> put_stream n (s\<lparr>queueStreamData := None\<rparr>) (?w1\<lparr>queues := Q(q := None)\<rparr>)"
  have live: "queueStreamData s = Some x \<Longrightarrow> queues ?w1 x \<noteq> None" for x
    using q Q(3) by (auto simp: queue_ok_def)
  have 2: "queue_destroy n ?w1 = Some ?w2"
    by (subst queue_destroy_eq [where s = s]) (use s live in \<open>simp_all split: option.split\<close>)
  have s2: "get_stream ?w2 n = Some (s\<lparr>queueStreamData := None\<rparr>)"
    using s by (cases s) (simp split: option.split)
  have q2: "queues ?w2 = (queues w) |` (- set_option (queueStreamData s))"
    using Q(2) by (cases "queueStreamData s") (auto simp: restrict_map_def fun_eq_iff)
  have rest: "blocks ?w2 = ?B" "cw ?w2 = cw w" "bevs ?w2 = bevs w" "pool ?w2 = pool w" "forget n ?w2 = forget n w"
    by (simp_all split: option.split)
  show ?thesis using Q(1) 2 s2 q2 rest by (intro exI [of _ ?w1] exI [of _ ?w2]) auto
qed

text \<open>The receive buffer.\<close>

lemma source_gone:
  assumes s: "get_stream w n = Some s" and src: "set (source_block s) \<subseteq> dom (blocks w)"
  shows "\<exists>w'. free_source n w = Some w' \<and> get_stream w' n = Some (s\<lparr>hGetStreamFromSource := None\<rparr>) \<and>
    forget n w' = forget n w \<and> blocks w' = blocks w |` (- set (source_block s)) \<and> queues w' = queues w \<and>
    cw w' = cw w \<and> bevs w' = bevs w \<and> pool w' = pool w"
proof -
  have live: "hGetStreamFromSource s = Some a \<Longrightarrow> blocks w a \<noteq> None" for a
    using src by (auto simp: source_block_def)
  let ?w = "case hGetStreamFromSource s of None \<Rightarrow> w
    | Some a \<Rightarrow> put_stream n (s\<lparr>hGetStreamFromSource := None\<rparr>) (w\<lparr>blocks := (blocks w)(a := None)\<rparr>)"
  have "get_stream ?w n = Some (s\<lparr>hGetStreamFromSource := None\<rparr>)" using s by (cases s) (simp split: option.split)
  moreover have "blocks ?w = blocks w |` (- set (source_block s))"
    by (cases "hGetStreamFromSource s") (auto simp: source_block_def restrict_map_def fun_eq_iff)
  ultimately show ?thesis
    using free_source_eq [OF s live] by (intro exI [of _ ?w]) (simp split: option.split)
qed

section \<open>The five ends\<close>

lemma restrict_append: "(m |` (- A)) |` (- B) = m |` (- (A \<union> B))"
  by (auto simp: restrict_map_def fun_eq_iff)

lemma parts_cong [simp]:
  "queue_ok (note_effect e w) s = queue_ok w s" "queue_ok (w\<lparr>cw := c\<rparr>) s = queue_ok w s"
  "queue_ok (put_stream n x w) s = queue_ok w s" "queue_ok (w\<lparr>table := t\<rparr>) s = queue_ok w s"
  "queue_ok (w\<lparr>bevs := v\<rparr>) s = queue_ok w s" "queue_ok w (s\<lparr>listClientNodeHead := l\<rparr>) = queue_ok w s"
  "frame_blocks (note_effect e w) s = frame_blocks w s" "frame_blocks (w\<lparr>cw := c\<rparr>) s = frame_blocks w s"
  "frame_blocks (put_stream n x w) s = frame_blocks w s" "frame_blocks (w\<lparr>table := t\<rparr>) s = frame_blocks w s"
  "frame_blocks (w\<lparr>bevs := v\<rparr>) s = frame_blocks w s" "frame_blocks w (s\<lparr>listClientNodeHead := l\<rparr>) = frame_blocks w s"
  "source_block (s\<lparr>listClientNodeHead := l\<rparr>) = source_block s" "source_block (s\<lparr>queueStreamData := q\<rparr>) = source_block s"
  by (simp_all add: queue_ok_def frame_blocks_def source_block_def split: option.split)

lemma blocks_ok_cong [simp]:
  "blocks_ok (note_effect e w) s = blocks_ok w s" "blocks_ok (w\<lparr>cw := c\<rparr>) s = blocks_ok w s"
  "blocks_ok (put_stream n x w) s = blocks_ok w s" "blocks_ok (w\<lparr>table := t\<rparr>) s = blocks_ok w s"
  "blocks_ok (w\<lparr>bevs := v\<rparr>) s = blocks_ok w s" "blocks_ok w (s\<lparr>listClientNodeHead := l\<rparr>) = blocks_ok w s"
  by (simp_all add: blocks_ok_def)

lemma get_stream_table [simp]: "get_stream (w\<lparr>table := (table w')\<lparr>listStreamNodeHead := l\<rparr>\<rparr>) = get_stream w'"
  by (simp add: get_stream_def fun_eq_iff)

lemma send_teardown_gone:
  assumes t: "table_ok hf (table w)" and s: "sound_stream w n s" and p: "n \<in> pool w"
  shows "\<exists>w'. send_teardown n w = Some w' \<and> torn_down n s w w' \<and> bevs w' = bevs w \<and> pool w' = pool w - {n} \<and>
    trace (cw w') = trace (cw w) @ Lock (uStreamNodeHashValue s) #
      concat (map (\<lambda>a. holdings (the (clients (cw w) a)) @ [Free_client a]) (listClientNodeHead s)) @
      [Task_delete n, Unlock (uStreamNodeHashValue s)]"
proof -
  have g: "get_stream w n = Some s" and ok: "clients_ok (listClientNodeHead s) (cw w)" "queue_ok w s" "blocks_ok w s"
    using s by (simp_all add: sound_stream_def)
  let ?h = "uStreamNodeHashValue s"
  let ?w1 = "lock_stream ?h w"
  have t1: "table_ok hf (table ?w1)" "get_stream ?w1 n = Some s" using t g by (simp_all add: lock_stream_def)
  obtain l where l: "unlink_stream n ?w1 = Some (?w1\<lparr>table := (table ?w1)\<lparr>listStreamNodeHead := l\<rparr>\<rparr>)"
    "drop_stream (table w) n = (forget n w)\<lparr>listStreamNodeHead := l\<rparr>"
    using unlink_stream_eq [OF t1] by (auto simp: lock_stream_def forget_def)
  let ?w2 = "?w1\<lparr>table := (table ?w1)\<lparr>listStreamNodeHead := l\<rparr>\<rparr>"
  have g2: "get_stream ?w2 n = Some s" "queue_ok ?w2 s" "blocks_ok ?w2 s" using g ok by (simp_all add: lock_stream_def)
  obtain w3 w4 where w4: "clear_rtp_data_from_queue (queueStreamData s) ?w2 = Some w3" "queue_destroy n w3 = Some w4"
    "get_stream w4 n = Some (s\<lparr>queueStreamData := None\<rparr>)" "forget n w4 = forget n ?w2"
    "blocks w4 = blocks ?w2 |` (- set (frame_blocks ?w2 s))" "queues w4 = queues ?w2 |` (- set_option (queueStreamData s))"
    "cw w4 = cw ?w2" "bevs w4 = bevs ?w2" "pool w4 = pool ?w2"
    using queue_gone [OF g2] by blast
  let ?s4 = "s\<lparr>queueStreamData := None\<rparr>"
  have c4: "clients_ok (listClientNodeHead ?s4) (cw w4)" using ok(1) w4(7) by (simp add: lock_stream_def clients_ok_def)
  note d5 = destroy_clients_eq [OF w4(3) c4]
  let ?w5 = "put_stream n (?s4\<lparr>listClientNodeHead := []\<rparr>) (w4\<lparr>cw := freed_clients (listClientNodeHead ?s4) (cw w4)\<rparr>)"
  let ?s5 = "?s4\<lparr>listClientNodeHead := []\<rparr>"
  have g5: "get_stream ?w5 n = Some ?s5" by simp
  have src: "set (source_block ?s5) \<subseteq> dom (blocks ?w5)"
    using ok(3) w4(5) by (auto simp: blocks_ok_def lock_stream_def)
  obtain w6 where w6: "free_source n ?w5 = Some w6" "get_stream w6 n = Some (?s5\<lparr>hGetStreamFromSource := None\<rparr>)"
    "forget n w6 = forget n ?w5" "blocks w6 = blocks ?w5 |` (- set (source_block ?s5))" "queues w6 = queues ?w5"
    "cw w6 = cw ?w5" "bevs w6 = bevs ?w5" "pool w6 = pool ?w5"
    using source_gone [OF g5 src] by blast
  have f7: "free_stream n w6 = Some (w6\<lparr>table := forget n w6\<rparr>)" using free_stream_forget w6(2) by simp
  let ?w7 = "w6\<lparr>table := forget n w6\<rparr>"
  let ?w8 = "unlock_stream ?h (note_effect (Task_delete n) (?w7\<lparr>pool := pool ?w7 - {n}\<rparr>))"
  have e8: "send_rtp_to_client_task_err_cb n ?w7 = Some (note_effect (Task_delete n) (?w7\<lparr>pool := pool ?w7 - {n}\<rparr>))"
    using p w4(9) w6(8) by (simp add: send_rtp_to_client_task_err_cb_def lock_stream_def)
  have all: "send_teardown n w = Some ?w8"
    unfolding send_teardown_def using g l(1) w4(1,2) d5 w6(1) f7 e8 by (simp add: Let_def)
  have "torn_down n s w ?w8"
    using l(2) w4(4,5,6,7) w6(3,4,5,6)
    by (simp add: torn_down_def unlock_stream_def lock_stream_def forget_table restrict_append)
  then show ?thesis
    using all w4(7,8,9) w6(6,7,8)
    by (intro exI [of _ ?w8]) (simp add: unlock_stream_def lock_stream_def freed_clients_def)
qed

text \<open>The other four begin alike: off the chain, the clients freed.\<close>

lemma unlinked_and_clients_gone:
  assumes t: "table_ok hf (table w)" and g: "get_stream w n = Some s" and ok: "clients_ok (listClientNodeHead s) (cw w)"
  shows "\<exists>w1 w2. unlink_stream n w = Some w1 \<and> destroy_clients n w1 = Some w2 \<and>
    get_stream w2 n = Some (s\<lparr>listClientNodeHead := []\<rparr>) \<and> forget n w2 = drop_stream (table w) n \<and>
    cw w2 = freed_clients (listClientNodeHead s) (cw w) \<and> blocks w2 = blocks w \<and> queues w2 = queues w \<and>
    bevs w2 = bevs w \<and> pool w2 = pool w"
proof -
  obtain l where l: "unlink_stream n w = Some (w\<lparr>table := (table w)\<lparr>listStreamNodeHead := l\<rparr>\<rparr>)"
    "drop_stream (table w) n = (forget n w)\<lparr>listStreamNodeHead := l\<rparr>"
    using unlink_stream_eq [OF t g] by (auto simp: forget_def)
  let ?w1 = "w\<lparr>table := (table w)\<lparr>listStreamNodeHead := l\<rparr>\<rparr>"
  let ?w2 = "put_stream n (s\<lparr>listClientNodeHead := []\<rparr>) (?w1\<lparr>cw := freed_clients (listClientNodeHead s) (cw w)\<rparr>)"
  have "destroy_clients n ?w1 = Some ?w2"
    by (subst destroy_clients_eq [where s = s]) (use g ok in simp_all)
  then show ?thesis using l by (intro exI [of _ ?w1] exI [of _ ?w2]) (simp add: forget_table)
qed

lemma parts_same:
  "queues w' = queues w \<Longrightarrow> queue_ok w' s = queue_ok w s"
  "queues w' = queues w \<Longrightarrow> frame_blocks w' s = frame_blocks w s"
  "queues w' = queues w \<Longrightarrow> blocks w' = blocks w \<Longrightarrow> blocks_ok w' s = blocks_ok w s"
  by (simp_all add: queue_ok_def frame_blocks_def blocks_ok_def cong: option.case_cong)

text \<open>And three of them go on with the queue, the receive buffer and the node.\<close>

lemma rest_gone:
  assumes g: "get_stream w n = Some s" and q: "queue_ok w s" and b: "blocks_ok w s"
  shows "\<exists>w1 w2 w3 w4. clear_rtp_data_from_queue (queueStreamData s) w = Some w1 \<and> queue_destroy n w1 = Some w2 \<and>
    free_source n w2 = Some w3 \<and> free_stream n w3 = Some w4 \<and> table w4 = forget n w \<and>
    blocks w4 = blocks w |` (- set (frame_blocks w s @ source_block s)) \<and>
    queues w4 = (queues w) |` (- set_option (queueStreamData s)) \<and> cw w4 = cw w \<and> bevs w4 = bevs w \<and> pool w4 = pool w"
proof -
  obtain w1 w2 where w2: "clear_rtp_data_from_queue (queueStreamData s) w = Some w1" "queue_destroy n w1 = Some w2"
    "get_stream w2 n = Some (s\<lparr>queueStreamData := None\<rparr>)" "forget n w2 = forget n w"
    "blocks w2 = blocks w |` (- set (frame_blocks w s))" "queues w2 = (queues w) |` (- set_option (queueStreamData s))"
    "cw w2 = cw w" "bevs w2 = bevs w" "pool w2 = pool w"
    using queue_gone [OF g q b] by blast
  have src: "set (source_block (s\<lparr>queueStreamData := None\<rparr>)) \<subseteq> dom (blocks w2)"
    using b w2(5) by (auto simp: blocks_ok_def)
  obtain w3 where w3: "free_source n w2 = Some w3"
    "get_stream w3 n = Some (s\<lparr>queueStreamData := None, hGetStreamFromSource := None\<rparr>)"
    "forget n w3 = forget n w2" "blocks w3 = blocks w2 |` (- set (source_block (s\<lparr>queueStreamData := None\<rparr>)))"
    "queues w3 = queues w2" "cw w3 = cw w2" "bevs w3 = bevs w2" "pool w3 = pool w2"
    using source_gone [OF w2(3) src] by blast
  have "free_stream n w3 = Some (w3\<lparr>table := forget n w3\<rparr>)" using free_stream_forget w3(2) by simp
  then show ?thesis
    using w2 w3 by (intro exI [of _ w1] exI [of _ w2] exI [of _ w3] exI [of _ "w3\<lparr>table := forget n w3\<rparr>"])
      (simp add: restrict_append)
qed

lemma recv_stream_fail_gone:
  assumes t: "table_ok hf (table w)" and s: "sound_stream w n s" and b: "bevs w b \<noteq> None"
    and f: "uRtpClientNodeSendDataThreadFlag s = 0"
  shows "\<exists>w'. recv_stream_fail b n w = Some w' \<and> torn_down n s w w' \<and> bevs w' = (bevs w)(b := None) \<and> pool w' = pool w \<and>
    trace (cw w') = trace (cw w) @ [Bufferevent_free b, Lock (uStreamNodeHashValue s)] @
      concat (map (\<lambda>a. holdings (the (clients (cw w) a)) @ [Free_client a]) (listClientNodeHead s)) @
      [Unlock (uStreamNodeHashValue s)]"
proof -
  have g: "get_stream w n = Some s" and ok: "clients_ok (listClientNodeHead s) (cw w)" "queue_ok w s" "blocks_ok w s"
    using s by (simp_all add: sound_stream_def)
  let ?h = "uStreamNodeHashValue s"
  let ?w1 = "note_effect (Bufferevent_free b) (w\<lparr>bevs := (bevs w)(b := None)\<rparr>)"
  let ?w2 = "lock_stream ?h ?w1"
  have p: "table_ok hf (table ?w2)" "get_stream ?w2 n = Some s" "clients_ok (listClientNodeHead s) (cw ?w2)"
    using t g ok(1) by (simp_all add: lock_stream_def clients_ok_def)
  obtain w3 w4 where w4: "unlink_stream n ?w2 = Some w3" "destroy_clients n w3 = Some w4"
    "get_stream w4 n = Some (s\<lparr>listClientNodeHead := []\<rparr>)" "forget n w4 = drop_stream (table ?w2) n"
    "cw w4 = freed_clients (listClientNodeHead s) (cw ?w2)" "blocks w4 = blocks ?w2" "queues w4 = queues ?w2"
    "bevs w4 = bevs ?w2" "pool w4 = pool ?w2"
    using unlinked_and_clients_gone [OF p] by blast
  let ?w5 = "unlock_stream ?h w4" and ?s = "s\<lparr>listClientNodeHead := []\<rparr>"
  have p5: "get_stream ?w5 n = Some ?s" "queue_ok ?w5 ?s" "blocks_ok ?w5 ?s"
    using w4(3) ok(2,3) parts_same [OF w4(7)] w4(6) by (simp_all add: unlock_stream_def lock_stream_def)
  obtain w6 w7 w8 w9 where w9: "clear_rtp_data_from_queue (queueStreamData ?s) ?w5 = Some w6" "queue_destroy n w6 = Some w7"
    "free_source n w7 = Some w8" "free_stream n w8 = Some w9" "table w9 = forget n ?w5"
    "blocks w9 = blocks ?w5 |` (- set (frame_blocks ?w5 ?s @ source_block ?s))"
    "queues w9 = (queues ?w5) |` (- set_option (queueStreamData ?s))" "cw w9 = cw ?w5" "bevs w9 = bevs ?w5" "pool w9 = pool ?w5"
    using rest_gone [OF p5] by blast
  have all: "recv_stream_fail b n w = Some w9"
    unfolding recv_stream_fail_def using free_bev_eq [OF b] g f w4(1,2) w9(1-4) by simp
  have fb: "frame_blocks ?w5 ?s = frame_blocks w s"
    using parts_same(2) [OF w4(7)] by (simp add: unlock_stream_def lock_stream_def)
  show ?thesis
    using all w4(4-9) w9(5-10) fb
    by (intro exI [of _ w9]) (simp add: torn_down_def unlock_stream_def lock_stream_def freed_clients_def)
qed

lemma recv_stream_err_gone:
  assumes t: "table_ok hf (table w)" and s: "sound_stream w n s" and b: "bevs w b \<noteq> None"
    and f: "uRtpClientNodeSendDataThreadFlag s = 0"
  shows "\<exists>w'. recv_stream_err_cb b n w = Some w' \<and> torn_down n s w w' \<and> bevs w' = (bevs w)(b := None) \<and> pool w' = pool w \<and>
    trace (cw w') = trace (cw w) @ [Bufferevent_free b, Lock (uStreamNodeHashValue s)] @
      concat (map (\<lambda>a. holdings (the (clients (cw w) a)) @ [Free_client a]) (listClientNodeHead s)) @
      [Unlock (uStreamNodeHashValue s)]"
proof -
  have g: "get_stream w n = Some s" and ok: "clients_ok (listClientNodeHead s) (cw w)" "queue_ok w s" "blocks_ok w s"
    using s by (simp_all add: sound_stream_def)
  let ?h = "uStreamNodeHashValue s"
  let ?w1 = "note_effect (Bufferevent_free b) (w\<lparr>bevs := (bevs w)(b := None)\<rparr>)"
  let ?w2 = "lock_stream ?h ?w1"
  have p: "table_ok hf (table ?w2)" "get_stream ?w2 n = Some s" "clients_ok (listClientNodeHead s) (cw ?w2)"
    using t g ok(1) by (simp_all add: lock_stream_def clients_ok_def)
  obtain w3 w4 where w4: "unlink_stream n ?w2 = Some w3" "destroy_clients n w3 = Some w4"
    "get_stream w4 n = Some (s\<lparr>listClientNodeHead := []\<rparr>)" "forget n w4 = drop_stream (table ?w2) n"
    "cw w4 = freed_clients (listClientNodeHead s) (cw ?w2)" "blocks w4 = blocks ?w2" "queues w4 = queues ?w2"
    "bevs w4 = bevs ?w2" "pool w4 = pool ?w2"
    using unlinked_and_clients_gone [OF p] by blast
  let ?s = "s\<lparr>listClientNodeHead := []\<rparr>"
  have p5: "get_stream w4 n = Some ?s" "queue_ok w4 ?s" "blocks_ok w4 ?s"
    using w4(3) ok(2,3) parts_same [OF w4(7)] w4(6) by (simp_all add: lock_stream_def)
  obtain w6 w7 w8 w9 where w9: "clear_rtp_data_from_queue (queueStreamData ?s) w4 = Some w6" "queue_destroy n w6 = Some w7"
    "free_source n w7 = Some w8" "free_stream n w8 = Some w9" "table w9 = forget n w4"
    "blocks w9 = blocks w4 |` (- set (frame_blocks w4 ?s @ source_block ?s))"
    "queues w9 = (queues w4) |` (- set_option (queueStreamData ?s))" "cw w9 = cw w4" "bevs w9 = bevs w4" "pool w9 = pool w4"
    using rest_gone [OF p5] by blast
  have all: "recv_stream_err_cb b n w = Some (unlock_stream ?h w9)"
    unfolding recv_stream_err_cb_def using free_bev_eq [OF b] g f w4(1,2) w9(1-4) by simp
  have fb: "frame_blocks w4 ?s = frame_blocks w s"
    using parts_same(2) [OF w4(7)] by (simp add: lock_stream_def)
  show ?thesis
    using all w4(4-9) w9(5-10) fb
    by (intro exI [of _ "unlock_stream ?h w9"]) (simp add: torn_down_def unlock_stream_def lock_stream_def freed_clients_def)
qed

text \<open>The refused request: there is no queue yet.\<close>

lemma cmd_fail_gone:
  assumes t: "table_ok hf (table w)" and s: "sound_stream w n s" and b: "bevs w b \<noteq> None" and q: "queueStreamData s = None"
  shows "\<exists>w'. cmd_fail b n w = Some w' \<and> torn_down n s w w' \<and> bevs w' = (bevs w)(b := None) \<and> pool w' = pool w"
proof -
  have g: "get_stream w n = Some s" and ok: "clients_ok (listClientNodeHead s) (cw w)" "blocks_ok w s"
    using s by (simp_all add: sound_stream_def)
  let ?h = "uStreamNodeHashValue s"
  let ?w1 = "note_effect (Bufferevent_free b) (w\<lparr>bevs := (bevs w)(b := None)\<rparr>)"
  let ?w2 = "lock_stream ?h ?w1"
  have p: "table_ok hf (table ?w2)" "get_stream ?w2 n = Some s" "clients_ok (listClientNodeHead s) (cw ?w2)"
    using t g ok(1) by (simp_all add: lock_stream_def clients_ok_def)
  obtain w3 w4 where w4: "unlink_stream n ?w2 = Some w3" "destroy_clients n w3 = Some w4"
    "get_stream w4 n = Some (s\<lparr>listClientNodeHead := []\<rparr>)" "forget n w4 = drop_stream (table ?w2) n"
    "cw w4 = freed_clients (listClientNodeHead s) (cw ?w2)" "blocks w4 = blocks ?w2" "queues w4 = queues ?w2"
    "bevs w4 = bevs ?w2" "pool w4 = pool ?w2"
    using unlinked_and_clients_gone [OF p] by blast
  have src: "set (source_block (s\<lparr>listClientNodeHead := []\<rparr>)) \<subseteq> dom (blocks w4)"
    using ok(2) w4(6) by (simp add: blocks_ok_def lock_stream_def)
  obtain w5 where w5: "free_source n w4 = Some w5"
    "get_stream w5 n = Some (s\<lparr>listClientNodeHead := [], hGetStreamFromSource := None\<rparr>)"
    "forget n w5 = forget n w4" "blocks w5 = blocks w4 |` (- set (source_block s))"
    "queues w5 = queues w4" "cw w5 = cw w4" "bevs w5 = bevs w4" "pool w5 = pool w4"
    using source_gone [OF w4(3) src] by auto
  have f6: "free_stream n w5 = Some (w5\<lparr>table := forget n w5\<rparr>)" using free_stream_forget w5(2) by simp
  have all: "cmd_fail b n w = Some (unlock_stream ?h (w5\<lparr>table := forget n w5\<rparr>))"
    unfolding cmd_fail_def using free_bev_eq [OF b] g w4(1,2) w5(1) f6 by simp
  have "frame_blocks w s = []" using q by (simp add: frame_blocks_def)
  then show ?thesis
    using all w4(4-9) w5(3-8) q
    by (intro exI [of _ "unlock_stream ?h (w5\<lparr>table := forget n w5\<rparr>)"])
       (simp add: torn_down_def unlock_stream_def lock_stream_def)
qed

text \<open>The failed connection: there is no receive buffer yet either.\<close>

lemma connect_fail_gone:
  assumes t: "table_ok hf (table w)" and s: "sound_stream w n s" and b: "bevs w b \<noteq> None" and q: "queueStreamData s = None"
    and h: "hGetStreamFromSource s = None" and ev: "\<not> connected ev"
  shows "\<exists>w'. connect_event_cb m res ev b n w = Some w' \<and> torn_down n s w w' \<and> bevs w' = (bevs w)(b := None) \<and> pool w' = pool w"
proof -
  have g: "get_stream w n = Some s" and ok: "clients_ok (listClientNodeHead s) (cw w)"
    using s by (simp_all add: sound_stream_def)
  let ?h = "uStreamNodeHashValue s" and ?s = "s\<lparr>pConnectHbServerBev := None\<rparr>"
  let ?w0 = "note_effect (Bufferevent_disable b) w"
  let ?w1 = "note_effect (Bufferevent_free b) (?w0\<lparr>bevs := (bevs ?w0)(b := None)\<rparr>)"
  let ?w2 = "lock_stream ?h (put_stream n ?s ?w1)"
  have f1: "free_bev b ?w0 = Some ?w1" by (rule free_bev_eq) (use b in simp)
  have "table_ok hf (table (put_stream n ?s ?w1))"
    using table_ok_put [OF t, of n s ?s] g by (simp add: put_stream_def get_stream_def same_key_def)
  then have p: "table_ok hf (table ?w2)" "get_stream ?w2 n = Some ?s" "clients_ok (listClientNodeHead ?s) (cw ?w2)"
    using ok by (simp_all add: lock_stream_def clients_ok_def)
  obtain w3 w4 where w4: "unlink_stream n ?w2 = Some w3" "destroy_clients n w3 = Some w4"
    "get_stream w4 n = Some (?s\<lparr>listClientNodeHead := []\<rparr>)" "forget n w4 = drop_stream (table ?w2) n"
    "cw w4 = freed_clients (listClientNodeHead ?s) (cw ?w2)" "blocks w4 = blocks ?w2" "queues w4 = queues ?w2"
    "bevs w4 = bevs ?w2" "pool w4 = pool ?w2"
    using unlinked_and_clients_gone [OF p] by blast
  have f5: "free_stream n w4 = Some (w4\<lparr>table := forget n w4\<rparr>)" using free_stream_forget w4(3) by simp
  have all: "connect_event_cb m res ev b n w = Some (unlock_stream ?h (w4\<lparr>table := forget n w4\<rparr>))"
    unfolding connect_event_cb_def using g ev f1 w4(1,2) f5 by simp
  obtain t' where "del_node_from_stream_hash_table (table w) n = Some t'"
    using table_ok_drop [OF t, of n s] g by (auto simp: get_stream_def)
  then have "stream_chain (table w) (uStreamNodeHashValue s) \<noteq> None"
    using g by (auto simp: del_node_from_stream_hash_table_def get_stream_def split: bind_splits)
  then have d: "drop_stream (table (put_stream n ?s ?w1)) n = drop_stream (table w) n"
    using g by (simp add: drop_stream_def del_node_from_stream_hash_table_def put_stream_def get_stream_def stream_chain_def
        split: if_splits)
  show ?thesis
    using all w4(4-9) q h d
    by (intro exI [of _ "unlock_stream ?h (w4\<lparr>table := forget n w4\<rparr>)"])
       (simp add: torn_down_def unlock_stream_def lock_stream_def frame_blocks_def source_block_def)
qed

end
