(* ===== verification/StreamFrame.thy ===== *)
theory StreamFrame
  imports StreamTeardown StreamMoudle
begin

text \<open>
  What the streams of the server own, when the whole is sound, and the frame rule: a step that only touches what one
  stream owns, and what nobody owned, keeps every other stream sound.
\<close>

section \<open>State\<close>

text \<open>How far the send task of a stream is: in the pool, in its loop, or behind it, waiting for the receiver.\<close>

datatype phase = Queued | Running send_vars | Waiting

type_synonym tasks = "nat \<rightharpoonup> phase"

section \<open>Ownership\<close>

definition own_clients :: "stream_world \<Rightarrow> nat \<Rightarrow> nat set" where
  "own_clients w n = (case get_stream w n of None \<Rightarrow> {} | Some s \<Rightarrow> set (listClientNodeHead s))"

definition own_queues :: "stream_world \<Rightarrow> nat \<Rightarrow> nat set" where
  "own_queues w n = (case get_stream w n of None \<Rightarrow> {} | Some s \<Rightarrow> set_option (queueStreamData s))"

definition task_block :: "tasks \<Rightarrow> nat \<Rightarrow> nat set" where
  "task_block T n = (case T n of Some (Running v) \<Rightarrow> set_option (pPsData v) | _ \<Rightarrow> {})"

definition own_blocks :: "stream_world \<Rightarrow> tasks \<Rightarrow> nat \<Rightarrow> nat set" where
  "own_blocks w T n =
     (case get_stream w n of None \<Rightarrow> {} | Some s \<Rightarrow> set (frame_blocks w s @ source_block s)) \<union> task_block T n"

section \<open>Sound streams\<close>

text \<open>
  The flags of a node against its task: \<open>p\<close> tells whether the pool has the task, \<open>t\<close> how far it is.
\<close>

definition flags_ok :: "STREAM_NODE \<Rightarrow> bool \<Rightarrow> phase option \<Rightarrow> bool" where
  "flags_ok s p t \<longleftrightarrow>
     (uGetStreamThreadStartFlag s = 0 \<or> uGetStreamThreadStartFlag s = 2) \<and>
     (uRtspPlayFlag s = 0 \<or> uRtspPlayFlag s = 1) \<and>
     (uRtspPlayFlag s = 0 \<longrightarrow> queueStreamData s = None \<and> hGetStreamFromSource s = None \<and> t = None) \<and>
     (case t of
        None \<Rightarrow> \<not> p \<and> uRtpClientNodeSendDataThreadFlag s = 0 \<and> uGetStreamThreadStartFlag s = 0
      | Some Waiting \<Rightarrow> p \<and> (uRtpClientNodeSendDataThreadFlag s = 2 \<or>
          uRtpClientNodeSendDataThreadFlag s = 1 \<and> uGetStreamThreadStartFlag s = 2)
      | Some _ \<Rightarrow> p \<and> uRtpClientNodeSendDataThreadFlag s = 1)"

text \<open>A live socket of the stream is the one the node names, and its callbacks fit what the node has.\<close>

definition bev_ok :: "STREAM_NODE \<Rightarrow> nat \<Rightarrow> bufev \<Rightarrow> bool" where
  "bev_ok s b v \<longleftrightarrow> pConnectHbServerBev s = Some b \<and> uRtspPlayFlag s = 1 \<and> uGetStreamThreadStartFlag s = 0 \<and>
     (bv_event v = Some Connect_event_cb \<and> bv_read v = None \<and> queueStreamData s = None \<and>
        hGetStreamFromSource s = None \<and> uRtpClientNodeSendDataThreadFlag s = 0 \<or>
      bv_event v = Some Recv_stream_err_cb \<and> bv_read v = Some Recv_cmd_from_hbserver \<and> queueStreamData s = None \<and>
        uRtpClientNodeSendDataThreadFlag s = 0 \<or>
      bv_event v = Some Recv_stream_err_cb \<and> bv_read v = Some Recv_stream_cb)"

definition local_ok :: "stream_world \<Rightarrow> tasks \<Rightarrow> nat \<Rightarrow> STREAM_NODE \<Rightarrow> bool" where
  "local_ok w T n s \<longleftrightarrow> clients_ok (listClientNodeHead s) (cw w) \<and> queue_ok w s \<and> blocks_ok w s \<and>
     task_block T n \<subseteq> dom (blocks w) \<and> task_block T n \<inter> set (frame_blocks w s @ source_block s) = {} \<and>
     flags_ok s (n \<in> pool w) (T n) \<and> (\<forall>b v. bevs w b = Some v \<and> bv_arg v = n \<longrightarrow> bev_ok s b v) \<and>
     (uRtspPlayFlag s = 1 \<and> uGetStreamThreadStartFlag s = 0 \<longrightarrow> (\<exists>b v. bevs w b = Some v \<and> bv_arg v = n))"

definition server_ok :: "(bytes \<Rightarrow> u32) \<Rightarrow> stream_world \<Rightarrow> tasks \<Rightarrow> bool" where
  "server_ok hf w T \<longleftrightarrow> table_ok hf (table w) \<and> (\<forall>n s. get_stream w n = Some s \<longrightarrow> local_ok w T n s) \<and>
     (\<forall>b v. bevs w b = Some v \<longrightarrow> get_stream w (bv_arg v) \<noteq> None) \<and>
     (\<forall>n. get_stream w n = None \<longrightarrow> n \<notin> pool w \<and> T n = None) \<and>
     (\<forall>m n. m \<noteq> n \<longrightarrow> own_clients w m \<inter> own_clients w n = {} \<and> own_queues w m \<inter> own_queues w n = {} \<and>
        own_blocks w T m \<inter> own_blocks w T n = {})"

section \<open>The frame rule\<close>

definition touches :: "nat \<Rightarrow> stream_world \<Rightarrow> tasks \<Rightarrow> stream_world \<Rightarrow> tasks \<Rightarrow> bool" where
  "touches n w T w' T' \<longleftrightarrow>
     (\<forall>m. m \<noteq> n \<longrightarrow> get_stream w' m = get_stream w m \<and> T' m = T m \<and> (m \<in> pool w' \<longleftrightarrow> m \<in> pool w)) \<and>
     (\<forall>b v. bv_arg v \<noteq> n \<longrightarrow> (bevs w' b = Some v \<longleftrightarrow> bevs w b = Some v)) \<and>
     (\<forall>a. a \<notin> own_clients w n \<longrightarrow> a \<in> dom (clients (cw w)) \<longrightarrow> a \<in> dom (clients (cw w'))) \<and>
     (\<forall>q. q \<notin> own_queues w n \<longrightarrow> q \<in> dom (queues w) \<longrightarrow> queues w' q = queues w q) \<and>
     (\<forall>a. a \<notin> own_blocks w T n \<longrightarrow> a \<in> dom (blocks w) \<longrightarrow> a \<in> dom (blocks w')) \<and>
     own_clients w' n \<subseteq> own_clients w n \<union> - dom (clients (cw w)) \<and>
     own_queues w' n \<subseteq> own_queues w n \<union> - dom (queues w) \<and>
     own_blocks w' T' n \<subseteq> own_blocks w T n \<union> - dom (blocks w)"

lemma own_live:
  assumes "server_ok hf w T"
  shows "own_clients w m \<subseteq> dom (clients (cw w))" "own_queues w m \<subseteq> dom (queues w)" "own_blocks w T m \<subseteq> dom (blocks w)"
proof -
  have l: "get_stream w m = Some s \<Longrightarrow> local_ok w T m s" for s using assms by (simp add: server_ok_def)
  have t: "get_stream w m = None \<Longrightarrow> T m = None" using assms by (simp add: server_ok_def)
  show "own_clients w m \<subseteq> dom (clients (cw w))"
    using l by (auto simp: own_clients_def local_ok_def clients_ok_def split: option.split)
  show "own_queues w m \<subseteq> dom (queues w)"
    using l by (force simp: own_queues_def local_ok_def queue_ok_def split: option.splits)
  show "own_blocks w T m \<subseteq> dom (blocks w)"
    using l t by (auto simp: own_blocks_def local_ok_def blocks_ok_def task_block_def split: option.splits phase.splits)
qed

lemma other_stream:
  assumes ok: "server_ok hf w T" and t: "touches n w T w' T'" and m: "m \<noteq> n" and s: "get_stream w m = Some s"
  shows "local_ok w' T' m s" "own_clients w' m = own_clients w m" "own_queues w' m = own_queues w m"
    "own_blocks w' T' m = own_blocks w T m"
proof -
  have l: "local_ok w T m s" using ok s by (simp add: server_ok_def)
  have g: "get_stream w' m = Some s" "T' m = T m" "m \<in> pool w' \<longleftrightarrow> m \<in> pool w" using t m s by (simp_all add: touches_def)
  have d: "own_clients w m \<inter> own_clients w n = {}" "own_queues w m \<inter> own_queues w n = {}"
    "own_blocks w T m \<inter> own_blocks w T n = {}" using ok m by (simp_all add: server_ok_def)
  note live = own_live [OF ok, of m]
  show oc: "own_clients w' m = own_clients w m" and oq: "own_queues w' m = own_queues w m"
    using g(1) s by (simp_all add: own_clients_def own_queues_def)
  have q: "queues w' x = queues w x" if "queueStreamData s = Some x" for x
  proof -
    have "x \<in> own_queues w m" using that s by (simp add: own_queues_def)
    then show ?thesis using d(2) live(2) t by (auto simp: touches_def)
  qed
  then have fb: "frame_blocks w' s = frame_blocks w s" and qo: "queue_ok w' s = queue_ok w s"
    by (simp_all add: frame_blocks_def queue_ok_def split: option.split)
  have tb: "task_block T' m = task_block T m" using g(2) by (simp add: task_block_def)
  show ob: "own_blocks w' T' m = own_blocks w T m" using g(1) s fb tb by (simp add: own_blocks_def)
  have dc: "own_clients w m \<subseteq> dom (clients (cw w'))" using d(1) live(1) t by (auto simp: touches_def)
  have db: "own_blocks w T m \<subseteq> dom (blocks w')" using d(3) live(3) t by (auto simp: touches_def)
  have c: "clients_ok (listClientNodeHead s) (cw w')"
    using l dc s by (simp add: local_ok_def clients_ok_def own_clients_def)
  have b: "blocks_ok w' s" "task_block T' m \<subseteq> dom (blocks w')"
    using l db s fb tb by (auto simp: local_ok_def blocks_ok_def own_blocks_def)
  have v: "(bevs w' b = Some v \<and> bv_arg v = m) = (bevs w b = Some v \<and> bv_arg v = m)" for b v
    using t m by (auto simp: touches_def)
  show "local_ok w' T' m s"
    using l c b qo fb tb g unfolding local_ok_def v by simp
qed

lemma keep_server:
  assumes ok: "server_ok hf w T" and t: "touches n w T w' T'" and tab: "table_ok hf (table w')"
    and new: "\<And>s. get_stream w' n = Some s \<Longrightarrow> local_ok w' T' n s"
    and gone: "get_stream w' n = None \<Longrightarrow> n \<notin> pool w' \<and> T' n = None \<and> (\<forall>b v. bevs w' b = Some v \<longrightarrow> bv_arg v \<noteq> n)"
  shows "server_ok hf w' T'"
proof -
  have same: "m \<noteq> n \<Longrightarrow> get_stream w' m = get_stream w m" for m using t by (simp add: touches_def)
  have loc: "local_ok w' T' m s" if "get_stream w' m = Some s" for m s
  proof (cases "m = n")
    case False
    have "get_stream w m = Some s" using that same [OF False] by simp
    then show ?thesis by (rule other_stream(1) [OF ok t False])
  qed (use new that in simp)
  have arg: "get_stream w' (bv_arg v) \<noteq> None" if "bevs w' b = Some v" for b v
  proof (cases "bv_arg v = n")
    case False
    then have "bevs w b = Some v" using that t by (auto simp: touches_def)
    then show ?thesis using ok same [OF False] by (simp add: server_ok_def)
  qed (use gone that in auto)
  have dead: "m \<notin> pool w' \<and> T' m = None" if "get_stream w' m = None" for m
  proof (cases "m = n")
    case False
    then show ?thesis using that same [OF False] ok t by (simp add: server_ok_def touches_def)
  qed (use gone that in simp)
  have own: "own_clients w' m = own_clients w m" "own_queues w' m = own_queues w m"
    "own_blocks w' T' m = own_blocks w T m" if m: "m \<noteq> n" for m
  proof -
    show "own_clients w' m = own_clients w m" "own_queues w' m = own_queues w m"
      using same [OF m] by (simp_all add: own_clients_def own_queues_def)
    show "own_blocks w' T' m = own_blocks w T m"
    proof (cases "get_stream w m")
      case None
      then show ?thesis using same [OF m] t m by (simp add: own_blocks_def task_block_def touches_def)
    qed (rule other_stream(4) [OF ok t m])
  qed
  have sub: "own_clients w' n \<subseteq> own_clients w n \<union> - dom (clients (cw w))"
    "own_queues w' n \<subseteq> own_queues w n \<union> - dom (queues w)" "own_blocks w' T' n \<subseteq> own_blocks w T n \<union> - dom (blocks w)"
    using t by (simp_all add: touches_def)
  have apart: "own_clients w' n \<inter> own_clients w' m = {} \<and> own_queues w' n \<inter> own_queues w' m = {} \<and>
      own_blocks w' T' n \<inter> own_blocks w' T' m = {}" if m: "m \<noteq> n" for m
  proof -
    have "own_clients w n \<inter> own_clients w m = {} \<and> own_queues w n \<inter> own_queues w m = {} \<and>
        own_blocks w T n \<inter> own_blocks w T m = {}" using ok m by (auto simp: server_ok_def)
    then show ?thesis using own_live [OF ok, of m] sub unfolding own [OF m] by blast
  qed
  have "own_clients w' m \<inter> own_clients w' k = {} \<and> own_queues w' m \<inter> own_queues w' k = {} \<and>
      own_blocks w' T' m \<inter> own_blocks w' T' k = {}" if mk: "m \<noteq> k" for m k
  proof (cases "m = n \<or> k = n")
    case True
    then show ?thesis using apart [of m] apart [of k] mk by auto
  next
    case False
    then show ?thesis using own [of m] own [of k] ok mk by (simp add: server_ok_def)
  qed
  then show ?thesis using tab loc arg dead by (simp add: server_ok_def)
qed

section \<open>The end of a stream\<close>

lemma drop_stream_nodes: "table_ok hf t \<Longrightarrow> stream_nodes t n = Some s \<Longrightarrow> stream_nodes (drop_stream t n) = (stream_nodes t)(n := None)"
  using table_ok_drop [of hf t n s] by (auto simp: drop_stream_def)

lemma torn_down_gone:
  "table_ok hf (table w) \<Longrightarrow> get_stream w n = Some s \<Longrightarrow> torn_down n s w w' \<Longrightarrow> get_stream w' n = None"
  using drop_stream_nodes [of hf "table w" n s] by (simp add: torn_down_def get_stream_def)

lemma end_of_stream:
  assumes ok: "server_ok hf w T" and s: "get_stream w n = Some s" and d: "torn_down n s w w'"
    and b: "\<And>b v. bevs w' b = Some v \<longleftrightarrow> bevs w b = Some v \<and> bv_arg v \<noteq> n" and p: "pool w' = pool w - {n}"
  shows "server_ok hf w' (T(n := None))"
proof (rule keep_server [OF ok, where n = n])
  have tab: "table_ok hf (table w)" using ok by (simp add: server_ok_def)
  have nodes: "get_stream w' m = (if m = n then None else get_stream w m)" for m
    using d drop_stream_nodes [OF tab, of n s] s by (simp add: torn_down_def get_stream_def)
  show "table_ok hf (table w')"
    using table_ok_drop [OF tab, of n s] s d by (auto simp: torn_down_def get_stream_def)
  show "touches n w T w' (T(n := None))"
    using d nodes b p s
    by (auto simp: touches_def torn_down_def own_clients_def own_queues_def own_blocks_def task_block_def restrict_map_def dom_def)
  show "local_ok w' (T(n := None)) n s'" if "get_stream w' n = Some s'" for s' using that nodes by simp
  show "n \<notin> pool w' \<and> (T(n := None)) n = None \<and> (\<forall>b v. bevs w' b = Some v \<longrightarrow> bv_arg v \<noteq> n)" using b p by auto
qed

lemma sound_local: "server_ok hf w T \<Longrightarrow> get_stream w n = Some s \<Longrightarrow> sound_stream w n s"
  by (simp add: server_ok_def local_ok_def sound_stream_def)

lemma server_parts:
  assumes "server_ok hf w T"
  shows "table_ok hf (table w)" "\<And>n s. get_stream w n = Some s \<Longrightarrow> local_ok w T n s"
    "\<And>b v. bevs w b = Some v \<Longrightarrow> \<exists>s. get_stream w (bv_arg v) = Some s \<and> bev_ok s b v"
    "\<And>n. get_stream w n = None \<Longrightarrow> n \<notin> pool w \<and> T n = None"
proof -
  show "\<exists>s. get_stream w (bv_arg v) = Some s \<and> bev_ok s b v" if "bevs w b = Some v" for b v
    using assms that by (fastforce simp: server_ok_def local_ok_def)
qed (use assms in \<open>auto simp: server_ok_def\<close>)

text \<open>The socket of a stream is its only one.\<close>

lemma only_bev:
  assumes "server_ok hf w T" "bevs w b = Some v" "bevs w b' = Some v'" "bv_arg v' = bv_arg v"
  shows "b' = b"
  using server_parts(3) [OF assms(1,2)] server_parts(3) [OF assms(1,3)] assms(4) by (auto simp: bev_ok_def)

end
