(* ===== verification/StreamSteps.thy ===== *)
theory StreamSteps
  imports StreamFrame
begin

text \<open>
  Each callback and each step of the send task keeps the streams of the server sound. Where the code handles an
  error, the step is also shown to come through: it touches nothing that was freed.
\<close>

section \<open>A step in place\<close>

lemma put_stream_table: "table w' = table (put_stream n s w) \<Longrightarrow> get_stream w' m = (if m = n then Some s else get_stream w m)"
  by (simp add: get_stream_def put_stream_def)

lemma put_stream_table_update [simp]:
  "table (w\<lparr>cw := c\<rparr>) = table w" "table (w\<lparr>blocks := b\<rparr>) = table w" "table (w\<lparr>queues := q\<rparr>) = table w"
  "table (w\<lparr>bevs := v\<rparr>) = table w" "table (w\<lparr>pool := p\<rparr>) = table w"
  "table (put_stream n s (note_effect e w)) = table (put_stream n s w)"
  "table (put_stream n s (w\<lparr>cw := c\<rparr>)) = table (put_stream n s w)"
  "table (put_stream n s (w\<lparr>blocks := b\<rparr>)) = table (put_stream n s w)"
  "table (put_stream n s (w\<lparr>queues := q\<rparr>)) = table (put_stream n s w)"
  "table (put_stream n s (w\<lparr>bevs := v\<rparr>)) = table (put_stream n s w)"
  "table (put_stream n s (w\<lparr>pool := p\<rparr>)) = table (put_stream n s w)"
  "table (put_stream n s (put_stream n s' w)) = table (put_stream n s w)"
  by (simp_all add: put_stream_def note_effect_def)

lemma keep_stream:
  assumes ok: "server_ok hf w T" and s: "get_stream w n = Some s" and tab: "table w' = table (put_stream n s' w)"
    and key: "same_key s s'" and t: "touches n w T w' T'" and l: "local_ok w' T' n s'"
  shows "server_ok hf w' T'"
proof (rule keep_server [OF ok t])
  show "table_ok hf (table w')"
    using table_ok_put [OF server_parts(1) [OF ok], of n s s'] s key tab by (simp add: put_stream_def get_stream_def)
qed (use l put_stream_table [OF tab] in simp_all)

text \<open>What a step in place has to respect, field by field.\<close>

lemma touches_put:
  assumes "get_stream w n = Some s" and "table w' = table (put_stream n s' w)"
    and "\<And>m. m \<noteq> n \<Longrightarrow> T' m = T m" and "\<And>m. m \<noteq> n \<Longrightarrow> m \<in> pool w' \<longleftrightarrow> m \<in> pool w"
    and "\<And>b v. bv_arg v \<noteq> n \<Longrightarrow> bevs w' b = Some v \<longleftrightarrow> bevs w b = Some v"
    and "dom (clients (cw w)) - set (listClientNodeHead s) \<subseteq> dom (clients (cw w'))"
    and "\<And>q. queueStreamData s \<noteq> Some q \<Longrightarrow> q \<in> dom (queues w) \<Longrightarrow> queues w' q = queues w q"
    and "dom (blocks w) - (set (frame_blocks w s @ source_block s) \<union> task_block T n) \<subseteq> dom (blocks w')"
    and "set (listClientNodeHead s') \<subseteq> set (listClientNodeHead s) \<union> - dom (clients (cw w))"
    and "set_option (queueStreamData s') \<subseteq> set_option (queueStreamData s) \<union> - dom (queues w)"
    and "set (frame_blocks w' s' @ source_block s') \<union> task_block T' n \<subseteq>
      set (frame_blocks w s @ source_block s) \<union> task_block T n \<union> - dom (blocks w)"
  shows "touches n w T w' T'"
  unfolding touches_def
proof (intro conjI allI impI)
  note g = put_stream_table [OF assms(2)]
  show "get_stream w' m = get_stream w m" if "m \<noteq> n" for m using that g by simp
  have own: "own_clients w n = set (listClientNodeHead s)" "own_queues w n = set_option (queueStreamData s)"
    "own_blocks w T n = set (frame_blocks w s @ source_block s) \<union> task_block T n"
    "own_clients w' n = set (listClientNodeHead s')" "own_queues w' n = set_option (queueStreamData s')"
    "own_blocks w' T' n = set (frame_blocks w' s' @ source_block s') \<union> task_block T' n"
    using assms(1) g by (simp_all add: own_clients_def own_queues_def own_blocks_def)
  show "a \<in> dom (clients (cw w'))" if "a \<notin> own_clients w n" "a \<in> dom (clients (cw w))" for a
    using that assms(6) unfolding own by blast
  show "queues w' q = queues w q" if "q \<notin> own_queues w n" "q \<in> dom (queues w)" for q
    using that assms(7) unfolding own by fastforce
  show "a \<in> dom (blocks w')" if "a \<notin> own_blocks w T n" "a \<in> dom (blocks w)" for a
    using that assms(8) unfolding own by blast
  show "own_clients w' n \<subseteq> own_clients w n \<union> - dom (clients (cw w))"
    "own_queues w' n \<subseteq> own_queues w n \<union> - dom (queues w)" "own_blocks w' T' n \<subseteq> own_blocks w T n \<union> - dom (blocks w)"
    unfolding own by (fact assms)+
qed (use assms(3-5) in simp_all)

section \<open>The receiver gives up\<close>

lemma disable_loop_Some: "k \<le> length cl \<Longrightarrow> clients_ok cl w \<Longrightarrow> \<exists>w'. disable_loop k cl w = Some w'"
proof (induction k arbitrary: w)
  case (Suc k)
  have a: "cl ! k \<in> set cl" using Suc.prems(1) by simp
  then obtain c where c: "clients w (cl ! k) = Some c" using Suc.prems(2) by (auto simp: clients_ok_def)
  let ?w = "case pSendStreamBev c of None \<Rightarrow> w | Some h \<Rightarrow> emit (Bufferevent_disable h) w"
  have "clients_ok cl ?w" using Suc.prems(2) by (simp add: clients_ok_def split: option.split)
  then obtain w' where "disable_loop k cl ?w = Some w'" using Suc.IH Suc.prems(1) by (auto split: option.splits)
  then show ?case using Suc.prems(1) c by (simp add: la_get_at_def)
qed simp

lemma disable_clients:
  "clients_ok cl w \<Longrightarrow> \<exists>w'. disable_client_rtp_list_bev cl w = Some w' \<and> clients w' = clients w"
  using disable_loop_Some [of "length cl" cl w] disable_loop_frame
  by (auto simp: disable_client_rtp_list_bev_def la_size_def)

text \<open>The socket is gone and the node says so; the task will end the stream.\<close>

lemma receiver_left:
  assumes ok: "server_ok hf w T" and v: "bevs w b = Some v" and n: "n = bv_arg v" and s: "get_stream w n = Some s"
    and f: "uRtpClientNodeSendDataThreadFlag s \<noteq> 0"
    and w': "table w' = table (put_stream n (s\<lparr>uGetStreamThreadStartFlag := 2\<rparr>) w)" "clients (cw w') = clients (cw w)"
      "queues w' = queues w" "blocks w' = blocks w" "bevs w' = (bevs w)(b := None)" "pool w' = pool w"
  shows "server_ok hf w' T"
proof (rule keep_stream [OF ok s w'(1)])
  let ?s = "s\<lparr>uGetStreamThreadStartFlag := 2\<rparr>"
  have l: "local_ok w T n s" by (rule server_parts(2) [OF ok s])
  have b: "bev_ok s b v" using l v n by (simp add: local_ok_def)
  have only: "b' = b" if "bevs w b' = Some v'" "bv_arg v' = n" for b' v'
    using only_bev [OF ok v that(1)] that(2) n by simp
  have fb: "frame_blocks w' ?s = frame_blocks w s" "source_block ?s = source_block s" "queue_ok w' ?s = queue_ok w s"
    using w'(3) by (simp_all add: frame_blocks_def source_block_def queue_ok_def cong: option.case_cong)
  then show "touches n w T w' T" by (intro touches_put [OF s w'(1)]) (use w' v n in auto)
  have fl: "flags_ok ?s (n \<in> pool w) (T n)"
    using l f b by (auto simp: local_ok_def flags_ok_def bev_ok_def split: option.splits phase.splits)
  have all: "\<forall>b' v'. bevs w' b' = Some v' \<and> bv_arg v' = n \<longrightarrow> bev_ok ?s b' v'"
    using only w'(5) by (auto split: if_splits)
  show "local_ok w' T n ?s"
    using l fb w'(2-4,6) fl all unfolding local_ok_def blocks_ok_def clients_ok_def by simp
qed (simp add: same_key_def)

lemma bev_flag: "server_ok hf w T \<Longrightarrow> get_stream w n = Some s \<Longrightarrow>
   uRtpClientNodeSendDataThreadFlag s = 0 \<and> T n = None \<and> n \<notin> pool w \<or>
   (uRtpClientNodeSendDataThreadFlag s = 1 \<or> uRtpClientNodeSendDataThreadFlag s = 2) \<and> T n \<noteq> None \<and> n \<in> pool w"
  using server_parts(2) [of hf w T n s] by (auto simp: local_ok_def flags_ok_def split: option.splits phase.splits)

lemma gone_server:
  assumes ok: "server_ok hf w T" and v: "bevs w b = Some v" and n: "n = bv_arg v" and s: "get_stream w n = Some s"
    and f: "uRtpClientNodeSendDataThreadFlag s = 0"
    and d: "torn_down n s w w'" "bevs w' = (bevs w)(b := None)" "pool w' = pool w"
  shows "server_ok hf w' T"
proof -
  have t: "T n = None" "n \<notin> pool w" using bev_flag [OF ok s] f by auto
  have "server_ok hf w' (T(n := None))"
  proof (rule end_of_stream [OF ok s d(1)])
    show "bevs w' b' = Some v' \<longleftrightarrow> bevs w b' = Some v' \<and> bv_arg v' \<noteq> n" for b' v'
      using only_bev [OF ok v, of b' v'] v n d(2) by auto
    show "pool w' = pool w - {n}" using d(3) t by simp
  qed
  then show ?thesis using t by (simp add: fun_upd_idem)
qed

lemma recv_stream_err_server:
  assumes ok: "server_ok hf w T" and v: "bevs w b = Some v" and n: "n = bv_arg v"
  shows "\<exists>w'. recv_stream_err_cb b n w = Some w' \<and> server_ok hf w' T \<and>
    (case get_stream w' n of None \<Rightarrow> True | Some s \<Rightarrow> uGetStreamThreadStartFlag s = 2)"
proof -
  obtain s where s: "get_stream w n = Some s" using server_parts(3) [OF ok v] n by auto
  have live: "bevs w b \<noteq> None" using v by simp
  show ?thesis
  proof (cases "uRtpClientNodeSendDataThreadFlag s = 0")
    case True
    obtain w' where "recv_stream_err_cb b n w = Some w'" "torn_down n s w w'" "bevs w' = (bevs w)(b := None)" "pool w' = pool w"
      using recv_stream_err_gone [OF server_parts(1) [OF ok] sound_local [OF ok s] live True] by blast
    moreover from this(2) have "get_stream w' n = None" by (rule torn_down_gone [OF server_parts(1) [OF ok] s])
    ultimately show ?thesis using gone_server [OF ok v n s True] by auto
  next
    case False
    let ?w = "lock_stream (uStreamNodeHashValue s) (note_effect (Bufferevent_free b) (w\<lparr>bevs := (bevs w)(b := None)\<rparr>))"
    have "clients_ok (listClientNodeHead s) (cw ?w)"
      using server_parts(2) [OF ok s] by (simp add: local_ok_def clients_ok_def lock_stream_def)
    then obtain c where c: "disable_client_rtp_list_bev (listClientNodeHead s) (cw ?w) = Some c" "clients c = clients (cw ?w)"
      using disable_clients by blast
    let ?w' = "unlock_stream (uStreamNodeHashValue s) (put_stream n (s\<lparr>uGetStreamThreadStartFlag := 2\<rparr>) (?w\<lparr>cw := c\<rparr>))"
    have "recv_stream_err_cb b n w = Some ?w'"
      using bev_flag [OF ok s] False s c(1) free_bev_eq [OF live] by (simp add: recv_stream_err_cb_def Let_def)
    moreover have "server_ok hf ?w' T"
      by (rule receiver_left [OF ok v n s False]) (use c(2) in \<open>simp_all add: lock_stream_def unlock_stream_def\<close>)
    moreover have "get_stream ?w' n = Some (s\<lparr>uGetStreamThreadStartFlag := 2\<rparr>)" by (simp add: unlock_stream_def)
    ultimately show ?thesis by auto
  qed
qed

lemma recv_stream_fail_server:
  assumes ok: "server_ok hf w T" and v: "bevs w b = Some v" and n: "n = bv_arg v"
  shows "\<exists>w'. recv_stream_fail b n w = Some w' \<and> server_ok hf w' T"
proof -
  obtain s where s: "get_stream w n = Some s" using server_parts(3) [OF ok v] n by auto
  have live: "bevs w b \<noteq> None" using v by simp
  show ?thesis
  proof (cases "uRtpClientNodeSendDataThreadFlag s = 0")
    case True
    obtain w' where "recv_stream_fail b n w = Some w'" "torn_down n s w w'" "bevs w' = (bevs w)(b := None)" "pool w' = pool w"
      using recv_stream_fail_gone [OF server_parts(1) [OF ok] sound_local [OF ok s] live True] by blast
    then show ?thesis using gone_server [OF ok v n s True] by blast
  next
    case False
    let ?w = "lock_stream (uStreamNodeHashValue s) (note_effect (Bufferevent_free b) (w\<lparr>bevs := (bevs w)(b := None)\<rparr>))"
    have "clients_ok (listClientNodeHead s) (cw ?w)"
      using server_parts(2) [OF ok s] by (simp add: local_ok_def clients_ok_def lock_stream_def)
    then obtain c where c: "disable_client_rtp_list_bev (listClientNodeHead s) (cw ?w) = Some c" "clients c = clients (cw ?w)"
      using disable_clients by blast
    let ?w' = "put_stream n (s\<lparr>uGetStreamThreadStartFlag := 2\<rparr>) (unlock_stream (uStreamNodeHashValue s) (?w\<lparr>cw := c\<rparr>))"
    have "get_stream (unlock_stream (uStreamNodeHashValue s) (?w\<lparr>cw := c\<rparr>)) n = Some s"
      using s by (simp add: lock_stream_def unlock_stream_def)
    then have "recv_stream_fail b n w = Some ?w'"
      using bev_flag [OF ok s] False s c(1) free_bev_eq [OF live] by (simp add: recv_stream_fail_def Let_def)
    moreover have "server_ok hf ?w' T"
      by (rule receiver_left [OF ok v n s False]) (use c(2) in \<open>simp_all add: lock_stream_def unlock_stream_def\<close>)
    ultimately show ?thesis by blast
  qed
qed

lemma cmd_fail_server:
  assumes ok: "server_ok hf w T" and v: "bevs w b = Some v" and n: "n = bv_arg v" and s: "get_stream w n = Some s"
    and r: "uRtpClientNodeSendDataThreadFlag s = 0" "queueStreamData s = None"
  shows "\<exists>w'. cmd_fail b n w = Some w' \<and> server_ok hf w' T"
proof -
  have live: "bevs w b \<noteq> None" using v by simp
  obtain w' where "cmd_fail b n w = Some w'" "torn_down n s w w'" "bevs w' = (bevs w)(b := None)" "pool w' = pool w"
    using cmd_fail_gone [OF server_parts(1) [OF ok] sound_local [OF ok s] live r(2)] by blast
  then show ?thesis using gone_server [OF ok v n s r(1)] by blast
qed

lemma connect_fail_server:
  assumes ok: "server_ok hf w T" and v: "bevs w b = Some v" and n: "n = bv_arg v"
    and e: "bv_event v = Some Connect_event_cb" and ev: "\<not> connected ev"
  shows "\<exists>w'. connect_event_cb m res ev b n w = Some w' \<and> server_ok hf w' T"
proof -
  obtain s where s: "get_stream w n = Some s" "bev_ok s b v" using server_parts(3) [OF ok v] n by auto
  have r: "uRtpClientNodeSendDataThreadFlag s = 0" "queueStreamData s = None" "hGetStreamFromSource s = None"
    using s(2) e by (auto simp: bev_ok_def)
  have live: "bevs w b \<noteq> None" using v by simp
  obtain w' where "connect_event_cb m res ev b n w = Some w'" "torn_down n s w w'" "bevs w' = (bevs w)(b := None)" "pool w' = pool w"
    using connect_fail_gone [OF server_parts(1) [OF ok] sound_local [OF ok s(1)] live r(2,3) ev] by blast
  then show ?thesis using gone_server [OF ok v n s(1) r(1)] by blast
qed

end
