(* ===== verification/StreamInput.thy ===== *)
theory StreamInput
  imports StreamSteps
begin

text \<open>
  The callbacks of the media server's socket keep the streams of the server sound.
\<close>

section \<open>Steps that change nothing but data\<close>

definition same_shape :: "STREAM_NODE \<Rightarrow> STREAM_NODE \<Rightarrow> bool" where
  "same_shape s s' \<longleftrightarrow> same_key s s' \<and> pConnectHbServerBev s' = pConnectHbServerBev s \<and> uRtspPlayFlag s' = uRtspPlayFlag s \<and>
     listClientNodeHead s' = listClientNodeHead s \<and> uGetStreamThreadStartFlag s' = uGetStreamThreadStartFlag s \<and>
     uRtpClientNodeSendDataThreadFlag s' = uRtpClientNodeSendDataThreadFlag s \<and>
     hGetStreamFromSource s' = hGetStreamFromSource s \<and> queueStreamData s' = queueStreamData s"

lemma same_shape_cong:
  assumes "same_shape s s'"
  shows "flags_ok s' p t = flags_ok s p t" "bev_ok s' b v = bev_ok s b v" "source_block s' = source_block s"
    "queues w' = queues w \<Longrightarrow> frame_blocks w' s' = frame_blocks w s" "queues w' = queues w \<Longrightarrow> queue_ok w' s' = queue_ok w s"
  using assms by (simp_all add: same_shape_def flags_ok_def bev_ok_def source_block_def frame_blocks_def queue_ok_def
      cong: option.case_cong phase.case_cong)

text \<open>The same socket, maybe with other input.\<close>

definition same_bevs :: "stream_world \<Rightarrow> stream_world \<Rightarrow> nat \<Rightarrow> bool" where
  "same_bevs w w' n \<longleftrightarrow> bevs w' = bevs w \<or>
     (\<exists>b v i. bevs w b = Some v \<and> bv_arg v = n \<and> bevs w' = (bevs w)(b \<mapsto> v\<lparr>bv_input := i\<rparr>))"

lemma bev_ok_input [simp]: "bev_ok s b (v\<lparr>bv_input := i\<rparr>) = bev_ok s b v"
  by (simp add: bev_ok_def)

lemma shape_step:
  assumes ok: "server_ok hf w T" and s: "get_stream w n = Some s" and tab: "table w' = table (put_stream n s' w)"
    and sh: "same_shape s s'" and c: "dom (clients (cw w')) = dom (clients (cw w))" and q: "queues w' = queues w"
    and b: "dom (blocks w') = dom (blocks w)" and p: "pool w' = pool w" and v: "same_bevs w w' n"
  shows "server_ok hf w' T"
proof (rule keep_stream [OF ok s tab])
  note eq = same_shape_cong(1-3) [OF sh] same_shape_cong(4,5) [OF sh q]
  have l: "local_ok w T n s" by (rule server_parts(2) [OF ok s])
  have bv: "bevs w' x = Some y \<longleftrightarrow> bevs w x = Some y" if "bv_arg y \<noteq> n" for x y
    using v that by (auto simp: same_bevs_def split: if_splits)
  have lc: "listClientNodeHead s' = listClientNodeHead s" "queueStreamData s' = queueStreamData s"
    "uRtspPlayFlag s' = uRtspPlayFlag s" "uGetStreamThreadStartFlag s' = uGetStreamThreadStartFlag s"
    using sh by (simp_all add: same_shape_def)
  show "touches n w T w' T"
  proof (rule touches_put [OF s tab])
    show "bevs w' x = Some y \<longleftrightarrow> bevs w x = Some y" if "bv_arg y \<noteq> n" for x y by (rule bv [OF that])
    show "set (frame_blocks w' s' @ source_block s') \<union> task_block T n \<subseteq>
        set (frame_blocks w s @ source_block s) \<union> task_block T n \<union> - dom (blocks w)" unfolding eq by blast
  qed (simp_all add: p c b q lc Diff_subset)
  have old: "bev_ok s x y" if "bevs w x = Some y" "bv_arg y = n" for x y using l that by (simp add: local_ok_def)
  have mine: "\<forall>x y. bevs w' x = Some y \<and> bv_arg y = n \<longrightarrow> bev_ok s x y"
  proof (cases "bevs w' = bevs w")
    case False
    then obtain b v i where b: "bevs w b = Some v" "bv_arg v = n" "bevs w' = (bevs w)(b \<mapsto> v\<lparr>bv_input := i\<rparr>)"
      using v by (auto simp: same_bevs_def)
    then show ?thesis using old old [OF b(1,2)] by simp
  qed (use old in simp)
  have more: "\<exists>x y. bevs w' x = Some y \<and> bv_arg y = n" if h: "\<exists>x y. bevs w x = Some y \<and> bv_arg y = n"
  proof (cases "bevs w' = bevs w")
    case False
    then obtain b v i where b: "bv_arg v = n" "bevs w' = (bevs w)(b \<mapsto> v\<lparr>bv_input := i\<rparr>)"
      using v by (auto simp: same_bevs_def)
    then show ?thesis by (intro exI [of _ b] exI [of _ "v\<lparr>bv_input := i\<rparr>"]) simp
  qed (use h in simp)
  show "local_ok w' T n s'"
    using l mine more c b p eq lc unfolding local_ok_def clients_ok_def blocks_ok_def by simp
  show "same_key s s'" using sh by (simp add: same_shape_def)
qed

lemma same_shape_refl [simp]: "same_shape s s" "same_shape s (s\<lparr>iRecvStreamDataLen := k\<rparr>)"
  by (simp_all add: same_shape_def same_key_def)

text \<open>An effect on the trace only.\<close>

lemma note_server: "server_ok hf (note_effect e w) T = server_ok hf w T"
  by (simp add: server_ok_def local_ok_def clients_ok_def own_clients_def own_queues_def own_blocks_def cong: option.case_cong)

section \<open>Blocks taken from the socket\<close>

lemma dom_put_source [simp]: "dom (blocks (put_source s d w)) = dom (blocks w)"
  by (auto simp: put_source_def split: option.split if_splits)

lemma put_source_simps [simp]:
  "table (put_source s d w) = table w" "cw (put_source s d w) = cw w" "queues (put_source s d w) = queues w"
  "bevs (put_source s d w) = bevs w" "pool (put_source s d w) = pool w"
  by (simp_all add: put_source_def split: option.split)

lemma put_stream_put_source [simp]: "table (put_stream n s (put_source x d w)) = table (put_stream n s w)"
  by (simp add: put_stream_def)

lemma take_blocks_server:
  assumes ok: "server_ok hf w T" and v: "bevs w b = Some v" and n: "n = bv_arg v" and s: "get_stream w n = Some s"
    and t: "take_blocks b n w = Some (l, w')"
  shows "server_ok hf w' T" "\<exists>i. bevs w' b = Some (v\<lparr>bv_input := i\<rparr>)" "\<exists>s'. get_stream w' n = Some s' \<and> same_shape s s'"
    "pool w' = pool w" "dom (blocks w') = dom (blocks w)" "queues w' = queues w"
proof -
  obtain inp buf len where w': "w' = put_stream n (s\<lparr>iRecvStreamDataLen := len\<rparr>)
      (put_source s buf (w\<lparr>bevs := (bevs w)(b \<mapsto> v\<lparr>bv_input := inp\<rparr>)\<rparr>))"
    using t s v by (auto simp: take_blocks_def split: bind_splits)
  show "\<exists>i. bevs w' b = Some (v\<lparr>bv_input := i\<rparr>)" "\<exists>s'. get_stream w' n = Some s' \<and> same_shape s s'" "pool w' = pool w"
    "queues w' = queues w" using w' by auto
  show "dom (blocks w') = dom (blocks w)" unfolding w' by simp
  show "server_ok hf w' T"
    by (rule shape_step [OF ok s, of _ "s\<lparr>iRecvStreamDataLen := len\<rparr>"]) (use w' v n in \<open>auto simp: same_bevs_def\<close>)
qed

section \<open>recv_stream_cb\<close>

definition tasks_after :: "stream_world \<Rightarrow> nat \<Rightarrow> tasks \<Rightarrow> tasks" where
  "tasks_after w n T = (if n \<in> pool w \<and> T n = None then T(n \<mapsto> Queued) else T)"

lemma start_send_task_server:
  assumes ok: "server_ok hf w T" and v: "bevs w b = Some v" and n: "n = bv_arg v" and s: "get_stream w n = Some s"
    and r: "bv_read v = Some Recv_stream_cb" and f: "uRtpClientNodeSendDataThreadFlag s = 0"
    and e: "ra_task_set_ok e" "start_send_task e n w = Some (g, w')"
  shows "server_ok hf w' (T(n \<mapsto> Queued))" "g" "bevs w' = bevs w" "blocks w' = blocks w"
    "get_stream w' n = Some (s\<lparr>uRtpClientNodeSendDataThreadFlag := 1\<rparr>)"
proof -
  let ?s = "s\<lparr>uRtpClientNodeSendDataThreadFlag := 1\<rparr>"
  have w': "w' = put_stream n ?s (note_effect (Task_queue n) (w\<lparr>pool := insert n (pool w)\<rparr>))" and g
    using e s by (simp_all add: start_send_task_def)
  have l: "local_ok w T n s" by (rule server_parts(2) [OF ok s])
  have none: "T n = None" using bev_flag [OF ok s] f by auto
  have bv: "bev_ok s b v" using l v n by (simp add: local_ok_def)
  have fl: "flags_ok ?s True (Some Queued)"
    using l none bv by (auto simp: local_ok_def flags_ok_def bev_ok_def)
  have eq: "frame_blocks w' ?s = frame_blocks w s" "source_block ?s = source_block s" "queue_ok w' ?s = queue_ok w s"
    using w' by (simp_all add: frame_blocks_def source_block_def queue_ok_def cong: option.case_cong)
  have only: "b' = b \<and> v' = v" if "bevs w b' = Some v'" "bv_arg v' = n" for b' v'
    using only_bev [OF ok v that(1)] that n v by simp
  show "server_ok hf w' (T(n \<mapsto> Queued))"
  proof (rule keep_stream [OF ok s, of _ ?s])
    show tab: "table w' = table (put_stream n ?s w)" using w' by simp
    show "touches n w T w' (T(n \<mapsto> Queued))"
      by (intro touches_put [OF s tab]) (use w' eq in \<open>auto simp: task_block_def\<close>)
    have "bev_ok ?s b v" using bv r by (simp add: bev_ok_def)
    then have "bev_ok ?s b' v'" if "bevs w b' = Some v'" "bv_arg v' = n" for b' v' using only [OF that] by simp
    then show "local_ok w' (T(n \<mapsto> Queued)) n ?s"
      using l w' eq fl none by (auto simp: local_ok_def clients_ok_def blocks_ok_def task_block_def)
  qed (simp add: same_key_def)
  show g "bevs w' = bevs w" "blocks w' = blocks w" "get_stream w' n = Some ?s" using \<open>g\<close> w' by simp_all
qed

text \<open>The block of the frame is fresh; from now on the queue owns it.\<close>

lemma queue_frame_server:
  assumes ok: "server_ok hf w T" and s: "get_stream w n = Some s" and fresh: "\<And>a. ra_malloc e = Some a \<Longrightarrow> blocks w a = None"
    and len: "queue_len (queueStreamData s) w = Some k" "k < 512" and w': "queue_frame e n l w = Some w'"
  shows "server_ok hf w' T"
proof -
  let ?s = "s\<lparr>iRecvStreamDataLen := 0\<rparr>"
  let ?c = "frame_head l (iRecvStreamDataLen s)"
  obtain a d w2 r src buf where a: "ra_malloc e = Some a" and
    src: "hGetStreamFromSource s = Some src" "blocks w src = Some buf" and
    push: "queue_push \<lparr>qa_iDataPreBufSize = pre_size (cmd_length ?c), qa_iDataLen = cmd_length ?c + 32, qa_pDataBuf = Some a\<rparr>
      (queueStreamData s) (w\<lparr>blocks := (blocks w)(a \<mapsto> frame_block (ra_junk e) ?c d)\<rparr>) = Some (r, w2)" and
    w2: "w' = put_stream n ?s w2"
    using w' s unfolding queue_frame_def by (auto simp: Let_def split: bind_splits if_splits)
  let ?d = "\<lparr>qa_iDataPreBufSize = pre_size (cmd_length ?c), qa_iDataLen = cmd_length ?c + 32, qa_pDataBuf = Some a\<rparr>"
  let ?w1 = "w\<lparr>blocks := (blocks w)(a \<mapsto> frame_block (ra_junk e) ?c d)\<rparr>"
  have l: "local_ok w T n s" by (rule server_parts(2) [OF ok s])
  have new: "a \<notin> dom (blocks w)" using fresh [OF a] by (simp add: domIff)
  have rest: "blocks w2 = blocks ?w1" "cw w2 = cw w" "bevs w2 = bevs w" "pool w2 = pool w" "table w2 = table w"
    using push by (auto simp: queue_push_def split: option.splits bind_splits)
  have q: "queue_ok w' ?s \<and> (\<forall>x. queueStreamData s \<noteq> Some x \<longrightarrow> queues w' x = queues w x) \<and>
      (frame_blocks w' ?s = frame_blocks w s \<or> frame_blocks w' ?s = frame_blocks w s @ [a])"
  proof (cases "queueStreamData s")
    case None
    then show ?thesis using push w2 by (auto simp: queue_push_def queue_ok_def frame_blocks_def)
  next
    case (Some x)
    then obtain f where f: "queues w x = Some f" "lf_ok f" "max_unit_num f = 512" "\<forall>d\<in>set (lf_content f). qa_pDataBuf d \<noteq> None"
      using l by (auto simp: local_ok_def queue_ok_def)
    have k: "int (length (lf_content f)) < max_unit_num f" using len Some queue_len_Some [OF f(1,2)] f(3) by simp
    have f1: "queues ?w1 x = Some f" using f(1) by simp
    obtain f' where f': "queue_push ?d (Some x) ?w1 = Some (0, ?w1\<lparr>queues := (queues ?w1)(x \<mapsto> f')\<rparr>)" "lf_ok f'"
      "lf_content f' = lf_content f @ [?d]" "max_unit_num f' = max_unit_num f"
      using queue_push_room [OF f1 f(2) k, of ?d] by blast
    have "queues w2 = (queues w)(x \<mapsto> f')" using push f'(1) Some by auto
    then show ?thesis using f f' w2 Some by (auto simp: queue_ok_def frame_blocks_def)
  qed
  have tb: "task_block T n \<subseteq> dom (blocks w)" using l by (simp add: local_ok_def)
  have old: "set (frame_blocks w s @ source_block s) \<subseteq> dom (blocks w)" using l by (simp add: local_ok_def blocks_ok_def)
  have sb: "source_block ?s = source_block s" by (simp add: source_block_def)
  have bl: "dom (blocks w') = insert a (dom (blocks w))" using w2 rest by auto
  show ?thesis
  proof (rule keep_stream [OF ok s, of _ ?s])
    show tab: "table w' = table (put_stream n ?s w)" using w2 rest by (simp add: put_stream_def)
    show "touches n w T w' T"
      by (intro touches_put [OF s tab]) (use w2 rest q bl sb new old tb in auto)
    have "blocks_ok w' ?s \<and> task_block T n \<inter> set (frame_blocks w' ?s @ source_block ?s) = {}"
      using q l sb new old tb bl unfolding blocks_ok_def local_ok_def by auto
    moreover have "flags_ok ?s p t = flags_ok s p t" "bev_ok ?s b v = bev_ok s b v" for p t b v
      by (simp_all add: same_shape_cong(1,2) [OF same_shape_refl(2)])
    ultimately show "local_ok w' T n ?s"
      using l q w2 rest bl tb unfolding local_ok_def clients_ok_def by auto
  qed (simp add: same_key_def)
qed

lemma tasks_after_same: "server_ok hf w T \<Longrightarrow> tasks_after w n T = T"
proof -
  assume ok: "server_ok hf w T"
  show ?thesis
  proof (cases "get_stream w n")
    case None
    then show ?thesis using server_parts(4) [OF ok] by (simp add: tasks_after_def)
  next
    case (Some s)
    then show ?thesis using bev_flag [OF ok Some] by (auto simp: tasks_after_def)
  qed
qed

end
