(* ===== verification/StreamCallbacks.thy ===== *)
theory StreamCallbacks
  imports StreamInput
begin

text \<open>
  The three callbacks of the media server's socket, as wholes: the one that waits for the connection, the
  one that reads the answer to the request, and the one that reads the stream.
\<close>

section \<open>recv_stream_cb\<close>

lemma task_in_pool: "server_ok hf w T \<Longrightarrow> T n \<noteq> None \<Longrightarrow> n \<in> pool w"
  using bev_flag [of hf w T n] server_parts(4) [of hf w T n] by (cases "get_stream w n") auto

lemma tasks_after_queued:
  assumes "server_ok hf w (T(n \<mapsto> Queued))" and "T n = None"
  shows "tasks_after w n T = T(n \<mapsto> Queued)"
  using task_in_pool [OF assms(1), of n] assms(2) by (simp add: tasks_after_def)

lemma recv_stream_rest:
  assumes ok: "server_ok hf w T" and v: "bevs w b = Some v" and n: "n = bv_arg v" and s: "get_stream w n = Some s"
    and fresh: "\<And>a. ra_malloc e = Some a \<Longrightarrow> blocks w a = None"
    and w': "(if uRtpClientNodeSendDataThreadFlag s = 0 \<or> byDataType l \<noteq> 13
       then Some (put_stream n (s\<lparr>iRecvStreamDataLen := 0\<rparr>) w)
       else do { len \<leftarrow> queue_len (queueStreamData s) w;
                 if len \<ge> 512 then recv_stream_fail b n w else queue_frame e n l w }) = Some w'"
  shows "server_ok hf w' T"
proof (cases "uRtpClientNodeSendDataThreadFlag s = 0 \<or> byDataType l \<noteq> 13")
  case True
  then have "w' = put_stream n (s\<lparr>iRecvStreamDataLen := 0\<rparr>) w" using w' by auto
  then show ?thesis
    by (intro shape_step [OF ok s, of _ "s\<lparr>iRecvStreamDataLen := 0\<rparr>"]) (simp_all add: same_bevs_def)
next
  case False
  obtain k where k: "queue_len (queueStreamData s) w = Some k"
    "(if k \<ge> 512 then recv_stream_fail b n w else queue_frame e n l w) = Some w'"
    using w' False by (auto split: bind_splits)
  show ?thesis
  proof (cases "k \<ge> 512")
    case True
    then show ?thesis using recv_stream_fail_server [OF ok v n] k(2) by auto
  next
    case False
    then show ?thesis using queue_frame_server [OF ok s fresh k(1)] k(2) by auto
  qed
qed

lemma recv_stream_cb_server:
  assumes ok: "server_ok hf w T" and v: "bevs w b = Some v" and n: "n = bv_arg v" and r: "bv_read v = Some Recv_stream_cb"
    and e: "ra_task_set_ok e" "\<And>a. ra_malloc e = Some a \<Longrightarrow> blocks w a = None"
    and w': "recv_stream_cb e b n w = Some w'"
  shows "server_ok hf w' (tasks_after w' n T)"
proof -
  obtain s where s: "get_stream w n = Some s" using server_parts(3) [OF ok v] n by auto
  obtain l w1 where t: "take_blocks b n w = Some (l, w1)" using w' by (auto simp: recv_stream_cb_def split: bind_splits)
  note t1 = take_blocks_server [OF ok v n s t]
  obtain s1 where s1: "get_stream w1 n = Some s1" "same_shape s s1" using t1(3) by blast
  obtain i where v1: "bevs w1 b = Some (v\<lparr>bv_input := i\<rparr>)" "n = bv_arg (v\<lparr>bv_input := i\<rparr>)"
    "bv_read (v\<lparr>bv_input := i\<rparr>) = Some Recv_stream_cb" using t1(2) n r by auto
  have fresh: "\<And>a. ra_malloc e = Some a \<Longrightarrow> blocks w1 a = None" using e(2) t1(5) by (metis domIff)
  show ?thesis
  proof (cases l)
    case None
    then have "w' = w1" using w' t by (simp add: recv_stream_cb_def)
    then show ?thesis using t1(1) tasks_after_same by metis
  next
    case (Some h)
    show ?thesis
    proof (cases "la_size (listClientNodeHead s1) = 0 \<or> uRtpClientNodeSendDataThreadFlag s1 = 2")
      case True
      then have "recv_stream_fail b n w1 = Some w'" using w' t Some s1(1) by (simp add: recv_stream_cb_def)
      then show ?thesis using recv_stream_fail_server [OF t1(1) v1(1,2)] tasks_after_same by fastforce
    next
      case False
      let ?start = "uRtpClientNodeSendDataThreadFlag s1 = 0 \<and> byFrameType h = 1"
      show ?thesis
      proof (cases ?start)
        case True
        obtain g w2 where g: "start_send_task e n w1 = Some (g, w2)"
          using w' t Some s1(1) False True by (auto simp: recv_stream_cb_def split: bind_splits)
        note st = start_send_task_server [OF t1(1) v1(1,2) s1(1) v1(3) conjunct1 [OF True] e(1) g]
        have "T n = None" using bev_flag [OF t1(1) s1(1)] True by auto
        have "server_ok hf w' (T(n \<mapsto> Queued))"
        proof (rule recv_stream_rest [OF st(1) _ v1(2) st(5)])
          show "bevs w2 b = Some (v\<lparr>bv_input := i\<rparr>)" using st(3) v1(1) by simp
          show "\<And>a. ra_malloc e = Some a \<Longrightarrow> blocks w2 a = None" using st(4) fresh by simp
          show "(if uRtpClientNodeSendDataThreadFlag (s1\<lparr>uRtpClientNodeSendDataThreadFlag := 1\<rparr>) = 0 \<or> byDataType h \<noteq> 13
              then Some (put_stream n (s1\<lparr>uRtpClientNodeSendDataThreadFlag := 1, iRecvStreamDataLen := 0\<rparr>) w2)
              else do { len \<leftarrow> queue_len (queueStreamData (s1\<lparr>uRtpClientNodeSendDataThreadFlag := 1\<rparr>)) w2;
                        if len \<ge> 512 then recv_stream_fail b n w2 else queue_frame e n h w2 }) = Some w'"
            using w' t Some s1(1) False True g st(2,5) by (simp add: recv_stream_cb_def)
        qed
        then show ?thesis using tasks_after_queued \<open>T n = None\<close> by metis
      next
        case no: False
        have "server_ok hf w' T"
          using w' t Some s1(1) False no
          by (intro recv_stream_rest [OF t1(1) v1(1,2) s1(1) fresh]) (auto simp: recv_stream_cb_def)
        then show ?thesis using tasks_after_same by metis
      qed
    qed
  qed
qed

section \<open>A new callback for the socket\<close>

lemma setup_step:
  assumes ok: "server_ok hf w T" and v: "bevs w b = Some v" and n: "n = bv_arg v" and s: "get_stream w n = Some s"
    and tab: "table w' = table (put_stream n s' w)" and key: "same_key s s'" and none: "T n = None"
    and c: "listClientNodeHead s' = listClientNodeHead s" "clients (cw w') = clients (cw w)" and p: "pool w' = pool w"
    and v': "bevs w' = (bevs w)(b \<mapsto> v')" "bv_arg v' = n" "bev_ok s' b v'"
    and fl: "flags_ok s' (n \<in> pool w) None" and q: "queue_ok w' s'"
    and qs: "\<And>x. queueStreamData s \<noteq> Some x \<Longrightarrow> x \<in> dom (queues w) \<Longrightarrow> queues w' x = queues w x"
      "set_option (queueStreamData s') \<subseteq> set_option (queueStreamData s) \<union> - dom (queues w)"
    and b: "dom (blocks w) \<subseteq> dom (blocks w')" "frame_blocks w' s' = []"
      "set (source_block s') \<subseteq> dom (blocks w') \<inter> (set (source_block s) \<union> - dom (blocks w))"
  shows "server_ok hf w' T"
proof (rule keep_stream [OF ok s tab key])
  have l: "local_ok w T n s" by (rule server_parts(2) [OF ok s])
  have tb: "task_block T n = {}" using none by (simp add: task_block_def)
  show "touches n w T w' T"
    by (rule touches_put [OF s tab]) (use c p v' v n qs b tb in auto)
  have only: "b' = b" if "bevs w b' = Some x" "bv_arg x = n" for b' x
    using only_bev [OF ok v that(1)] that n by simp
  have all: "\<forall>b' x. bevs w' b' = Some x \<and> bv_arg x = n \<longrightarrow> bev_ok s' b' x" using only v' by auto
  have some: "\<exists>b x. bevs w' b = Some x \<and> bv_arg x = n" using v' by (intro exI [of _ b] exI [of _ v']) simp
  have "distinct (source_block s')" by (simp add: source_block_def split: option.split)
  then show "local_ok w' T n s'"
    using l all some fl q b c p tb none unfolding local_ok_def clients_ok_def blocks_ok_def by simp
qed

lemma set_callbacks_Some:
  "bevs w b = Some v \<Longrightarrow> set_callbacks b r ev n w = Some (w\<lparr>bevs := (bevs w)(b \<mapsto> v\<lparr>bv_read := r, bv_event := ev, bv_arg := n\<rparr>)\<rparr>)"
  by (simp add: set_callbacks_def)

text \<open>What is written to the socket goes to the trace.\<close>

lemma SendDataToStream_world:
  assumes "SendDataToStream ra rb b d k ty w = Some (r, w')"
  shows "\<exists>t. w' = w\<lparr>cw := (cw w)\<lparr>trace := t\<rparr>\<rparr>"
proof -
  have "\<exists>t. fold (\<lambda>d. note_effect (Bufferevent_write b d)) out w = w\<lparr>cw := (cw w)\<lparr>trace := t\<rparr>\<rparr>" for out
  proof (induction out arbitrary: w)
    case Nil
    show ?case by (intro exI [of _ "trace (cw w)"]) simp
  next
    case (Cons d out)
    obtain t where "fold (\<lambda>d. note_effect (Bufferevent_write b d)) out (note_effect (Bufferevent_write b d) w) =
        (note_effect (Bufferevent_write b d) w)\<lparr>cw := (cw (note_effect (Bufferevent_write b d) w))\<lparr>trace := t\<rparr>\<rparr>"
      using Cons.IH by blast
    moreover have "(note_effect e w)\<lparr>cw := (cw (note_effect e w))\<lparr>trace := t\<rparr>\<rparr> = w\<lparr>cw := (cw w)\<lparr>trace := t\<rparr>\<rparr>" for e
      by (simp add: note_effect_def emit_def)
    ultimately show ?case by (intro exI [of _ t]) simp
  qed
  then show ?thesis using assms by (auto simp: SendDataToStream_def split: bind_splits)
qed

section \<open>recv_cmd_from_hbserver\<close>

lemma put_stream_same: "get_stream w n = Some s \<Longrightarrow> table (put_stream n s w) = table w"
  by (simp add: put_stream_def get_stream_def fun_upd_idem)

lemma clear_source_server:
  assumes ok: "server_ok hf w T" and s: "get_stream w n = Some s" and w': "clear_source n w = Some w'"
  shows "server_ok hf w' T" "get_stream w' n = Some s" "bevs w' = bevs w" "queues w' = queues w" "pool w' = pool w"
proof -
  obtain a d where a: "w' = w\<lparr>blocks := (blocks w)(a \<mapsto> d)\<rparr>" "blocks w a \<noteq> None"
    using w' s by (auto simp: clear_source_def split: bind_splits)
  show "get_stream w' n = Some s" "bevs w' = bevs w" "queues w' = queues w" "pool w' = pool w" using a(1) s by simp_all
  show "server_ok hf w' T"
    by (rule shape_step [OF ok s, of _ s]) (use a s put_stream_same [OF s] in \<open>auto simp: same_bevs_def\<close>)
qed

lemma stream_accepted_server:
  assumes ok: "server_ok hf w T" and v: "bevs w b = Some v" and n: "n = bv_arg v" and s: "get_stream w n = Some s"
    and r: "bv_read v = Some Recv_cmd_from_hbserver" and q: "queues w (ca_queue e) = None"
    and mem: "ca_memory e = New_memory \<or> ca_memory e = No_memory" and w': "stream_accepted e b n w = Some (g, w')"
  shows "if g then server_ok hf w' T else server_ok hf w' T \<and> bevs w' = bevs w \<and> (\<exists>s'. get_stream w' n = Some s' \<and> same_shape s s')"
proof -
  have bv: "bev_ok s b v" using server_parts(3) [OF ok v] n s by auto
  then have f: "uRtpClientNodeSendDataThreadFlag s = 0" "queueStreamData s = None" "uRtspPlayFlag s = 1"
      "uGetStreamThreadStartFlag s = 0" "pConnectHbServerBev s = Some b"
    using r by (auto simp: bev_ok_def)
  have none: "T n = None" "n \<notin> pool w" using bev_flag [OF ok s] f by auto
  let ?s = "s\<lparr>iRecvStreamDataLen := 0\<rparr>"
  obtain k w0 where k: "SendDataToStream (fst (ca_reserved e)) (snd (ca_reserved e)) b ImOK (length ImOK) DATA_TYPE_SMS_CMD
      (put_stream n ?s w) = Some (k, w0)"
    using w' s by (auto simp: stream_accepted_def Let_def split: bind_splits)
  obtain t where t: "SendDataToStream (fst (ca_reserved e)) (snd (ca_reserved e)) b ImOK (length ImOK) DATA_TYPE_SMS_CMD
      (put_stream n ?s w) = Some (k, (put_stream n ?s w)\<lparr>cw := (cw w)\<lparr>trace := t\<rparr>\<rparr>)"
    using SendDataToStream_world [OF k] k by auto
  let ?w = "(put_stream n ?s w)\<lparr>cw := (cw w)\<lparr>trace := t\<rparr>\<rparr>"
  have ok1: "server_ok hf ?w T" by (rule shape_step [OF ok s, of _ ?s]) (simp_all add: same_bevs_def)
  have "\<exists>q. nolock_queue_init queue_args_zero New_memory 16 512 = Some (0, Some q) \<and> lf_ok q \<and> lf_content q = [] \<and>
      max_unit_num q = 512" by (rule init_lf) (simp_all add: INT32_MAX_def)
  then obtain f0 where f0: "nolock_queue_init queue_args_zero New_memory 16 512 = Some (0, Some f0)" "lf_ok f0"
      "lf_content f0 = []" "max_unit_num f0 = 512"
    by blast
  show ?thesis
  proof (cases "ca_memory e = New_memory")
    case False
    then have "ca_memory e = No_memory" using mem by simp
    then have "\<not> g \<and> w' = ?w" using w' s t by (simp add: stream_accepted_def Let_def nolock_queue_init_def INT32_MAX_def)
    then show ?thesis using ok1 s by auto
  next
    case True
    let ?v = "v\<lparr>bv_read := Some Recv_stream_cb, bv_event := Some Recv_stream_err_cb, bv_arg := n\<rparr>"
    let ?s' = "?s\<lparr>queueStreamData := Some (ca_queue e)\<rparr>"
    have "g = True \<and> w' = note_effect (Set_max_single b 65536) (note_effect (Set_watermark b 65536 131072)
        (note_effect (Set_timeouts b 15) (put_stream n ?s' (?w\<lparr>queues := (queues w)(ca_queue e \<mapsto> f0)\<rparr>))))
        \<lparr>bevs := (bevs w)(b \<mapsto> ?v)\<rparr>"
      using w' s t v f0(1) True by (simp add: stream_accepted_def Let_def set_callbacks_def)
    then have g and rest: "table w' = table (put_stream n ?s' w)" "clients (cw w') = clients (cw w)" "pool w' = pool w"
        "bevs w' = (bevs w)(b \<mapsto> ?v)" and qs: "queues w' = (queues w)(ca_queue e \<mapsto> f0)" "blocks w' = blocks w"
      by simp_all
    have "server_ok hf w' T"
    proof (rule setup_step [OF ok v n s rest(1) _ none(1) _ rest(2,3,4)])
      show "bev_ok ?s' b ?v" using f by (simp add: bev_ok_def)
      show "flags_ok ?s' (n \<in> pool w) None" using f none by (simp add: flags_ok_def)
      show "queue_ok w' ?s'" "frame_blocks w' ?s' = []" using qs f0 by (simp_all add: queue_ok_def frame_blocks_def)
      show "queues w' x = queues w x" if "x \<in> dom (queues w)" for x using that qs q by auto
      show "set_option (queueStreamData ?s') \<subseteq> set_option (queueStreamData s) \<union> - dom (queues w)" using q by auto
      have "local_ok w T n s" by (rule server_parts(2) [OF ok s])
      then show "set (source_block ?s') \<subseteq> dom (blocks w') \<inter> (set (source_block s) \<union> - dom (blocks w))"
        using qs(2) by (simp add: local_ok_def blocks_ok_def source_block_def)
    qed (use qs in \<open>simp_all add: same_key_def\<close>)
    then show ?thesis using \<open>g\<close> by simp
  qed
qed

lemma recv_cmd_server:
  assumes ok: "server_ok hf w T" and v: "bevs w b = Some v" and n: "n = bv_arg v"
    and r: "bv_read v = Some Recv_cmd_from_hbserver" and q: "queues w (ca_queue e) = None"
    and mem: "ca_memory e = New_memory \<or> ca_memory e = No_memory" and w': "recv_cmd_from_hbserver e b n w = Some w'"
  shows "server_ok hf w' T"
proof -
  obtain s where s: "get_stream w n = Some s" "bev_ok s b v" using server_parts(3) [OF ok v] n by auto
  have f: "uRtpClientNodeSendDataThreadFlag s = 0" "queueStreamData s = None" using s(2) r by (auto simp: bev_ok_def)
  obtain w0 where w0: "clear_source n w = Some w0" using w' by (auto simp: recv_cmd_from_hbserver_def split: bind_splits)
  note c = clear_source_server [OF ok s(1) w0]
  have v0: "bevs w0 b = Some v" using c(3) v by simp
  obtain l w1 where t: "take_blocks b n w0 = Some (l, w1)" using w' w0 by (auto simp: recv_cmd_from_hbserver_def split: bind_splits)
  note t1 = take_blocks_server [OF c(1) v0 n c(2) t]
  obtain s1 where s1: "get_stream w1 n = Some s1" "same_shape s s1" using t1(3) by blast
  obtain i where v1: "bevs w1 b = Some (v\<lparr>bv_input := i\<rparr>)" "n = bv_arg (v\<lparr>bv_input := i\<rparr>)"
    "bv_read (v\<lparr>bv_input := i\<rparr>) = Some Recv_cmd_from_hbserver" using t1(2) n r by auto
  have q1: "queues w1 (ca_queue e) = None" using q t1(6) c(4) by simp
  have f1: "uRtpClientNodeSendDataThreadFlag s1 = 0" "queueStreamData s1 = None" using f s1(2) by (simp_all add: same_shape_def)
  show ?thesis
  proof (cases l)
    case None
    then show ?thesis using w' w0 t t1(1) by (simp add: recv_cmd_from_hbserver_def)
  next
    case (Some h)
    have "(\<exists>w2. stream_accepted e b n w1 = Some (True, w2) \<and> w' = w2) \<or>
        (\<exists>w2. stream_accepted e b n w1 = Some (False, w2) \<and> cmd_fail b n w2 = Some w') \<or> cmd_fail b n w1 = Some w'"
      using w' w0 t Some by (auto simp: recv_cmd_from_hbserver_def split: bind_splits if_splits)
    then show ?thesis
    proof (elim disjE exE conjE)
      fix w2 assume "stream_accepted e b n w1 = Some (True, w2)" "w' = w2"
      then show ?thesis using stream_accepted_server [OF t1(1) v1(1,2) s1(1) v1(3) q1 mem] by simp
    next
      fix w2 assume a: "stream_accepted e b n w1 = Some (False, w2)" "cmd_fail b n w2 = Some w'"
      obtain s2 where s2: "server_ok hf w2 T" "bevs w2 = bevs w1" "get_stream w2 n = Some s2" "same_shape s1 s2"
        using stream_accepted_server [OF t1(1) v1(1,2) s1(1) v1(3) q1 mem a(1)] by auto
      then have "uRtpClientNodeSendDataThreadFlag s2 = 0" "queueStreamData s2 = None" using f1 by (simp_all add: same_shape_def)
      moreover have "bevs w2 b = Some (v\<lparr>bv_input := i\<rparr>)" using s2(2) v1(1) by simp
      ultimately show ?thesis using cmd_fail_server [OF s2(1) _ v1(2) s2(3)] a(2) by fastforce
    next
      assume "cmd_fail b n w1 = Some w'"
      then show ?thesis using cmd_fail_server [OF t1(1) v1(1,2) s1(1) f1] by auto
    qed
  qed
qed

section \<open>connect_event_cb\<close>

lemma connect_ok_server:
  assumes ok: "server_ok hf w T" and v: "bevs w b = Some v" and n: "n = bv_arg v"
    and ev: "bv_event v = Some Connect_event_cb" and c: "connected iEvent"
    and fresh: "\<And>a. m = Some a \<Longrightarrow> blocks w a = None" and w': "connect_event_cb m res iEvent b n w = Some w'"
  shows "server_ok hf w' T"
proof -
  obtain s where s: "get_stream w n = Some s" "bev_ok s b v" using server_parts(3) [OF ok v] n by auto
  have r: "uRtpClientNodeSendDataThreadFlag s = 0" "queueStreamData s = None" "hGetStreamFromSource s = None"
    "uRtspPlayFlag s = 1" "uGetStreamThreadStartFlag s = 0" "pConnectHbServerBev s = Some b"
    using s(2) ev by (auto simp: bev_ok_def)
  have none: "T n = None" "n \<notin> pool w" using bev_flag [OF ok s(1)] r by auto
  let ?s = "s\<lparr>hGetStreamFromSource := m\<rparr>"
  let ?v = "v\<lparr>bv_read := Some Recv_cmd_from_hbserver, bv_event := Some Recv_stream_err_cb, bv_arg := n\<rparr>"
  obtain t where w': "w' = (let w1 = put_stream n ?s (w\<lparr>cw := (cw w)\<lparr>trace := t\<rparr>\<rparr>) in
      (note_effect (Set_timeouts b 15) (case m of None \<Rightarrow> w1
        | Some a \<Rightarrow> w1\<lparr>blocks := (blocks w1)(a \<mapsto> replicate (1024 * 1024) 0)\<rparr>))\<lparr>bevs := (bevs w)(b \<mapsto> ?v)\<rparr>)"
    using w' c s(1) v by (auto simp: connect_event_cb_def Let_def set_callbacks_def split: bind_splits option.splits
        dest!: SendDataToStream_world)
  have bl: "blocks w' = (case m of None \<Rightarrow> blocks w | Some a \<Rightarrow> (blocks w)(a \<mapsto> replicate (1024 * 1024) 0))"
    and rest: "table w' = table (put_stream n ?s w)" "clients (cw w') = clients (cw w)" "pool w' = pool w"
      "queues w' = queues w" "bevs w' = (bevs w)(b \<mapsto> ?v)"
    using w' by (simp_all add: Let_def split: option.split)
  show ?thesis
  proof (rule setup_step [OF ok v n s(1) rest(1) _ none(1) _ rest(2,3,5)])
    show "bev_ok ?s b ?v" using r by (simp add: bev_ok_def)
    show "flags_ok ?s (n \<in> pool w) None" using r none by (simp add: flags_ok_def)
    show "set (source_block ?s) \<subseteq> dom (blocks w') \<inter> (set (source_block s) \<union> - dom (blocks w))"
      using bl fresh by (auto simp: source_block_def split: option.splits)
    show "dom (blocks w) \<subseteq> dom (blocks w')" using bl by (auto split: option.splits)
  qed (use r rest in \<open>simp_all add: same_key_def queue_ok_def frame_blocks_def\<close>)
qed

end
