(* ===== verification/StreamRequests.thy ===== *)
theory StreamRequests
  imports StreamInput
begin

text \<open>
  The requests of the SIP thread and the RTCP events of the clients keep the streams of the server sound.
\<close>

section \<open>Changes of clients\<close>

lemma clients_changed:
  assumes "dom (clients c) = dom (clients (cw w))"
  shows "server_ok hf (w\<lparr>cw := c\<rparr>) T = server_ok hf w T"
  using assms by (simp add: server_ok_def local_ok_def clients_ok_def own_clients_def own_queues_def own_blocks_def cong: option.case_cong)

lemma dom_put_client: "clients w a = Some c' \<Longrightarrow> dom (clients (put_client a c w)) = dom (clients w)"
  by (auto simp: put_client_def)

lemma udp_rtcp_recv_server:
  assumes ok: "server_ok hf w T" and c: "udp_rtcp_recv_cb iWhich a (cw w) = Some c"
  shows "server_ok hf (w\<lparr>cw := c\<rparr>) T"
proof -
  have "dom (clients c) = dom (clients (cw w))"
    using c dom_put_client by (auto simp: udp_rtcp_recv_cb_def split: if_splits bind_splits)
  then show ?thesis using ok by (simp add: clients_changed)
qed

lemma udp_send_rtcp_server:
  assumes ok: "server_ok hf w T" and c: "udp_send_rtcp_timer ev a (cw w) = Some c"
  shows "server_ok hf (w\<lparr>cw := c\<rparr>) T"
proof -
  have "dom (clients c) = dom (clients (cw w))"
    using c by (auto simp: udp_send_rtcp_timer_def Let_def put_client_def split: if_splits bind_splits)
  then show ?thesis using ok by (simp add: clients_changed)
qed

lemma stop_request_server:
  assumes ok: "server_ok hf w T" and w': "stop_request hf s w = Some w'"
  shows "server_ok hf w' T"
proof -
  have "w' = w\<lparr>cw := cw w'\<rparr> \<and> dom (clients (cw w')) = dom (clients (cw w))"
    using w' by (auto simp: stop_request_def Let_def lock_stream_def unlock_stream_def note_effect_def emit_def put_client_def insert_absorb
        split: bind_splits option.splits if_splits)
  then show ?thesis using ok clients_changed by metis
qed

section \<open>A stream for the request\<close>

lemma insert_server:
  assumes ok: "server_ok hf w T" and key: "stream_request_key s = Some k" and fresh: "get_stream w a = None"
    and ins: "insert_node_to_stream_hash_table (table w) (stream_bucket hf (table w) k) s a = Some (n, t)"
  shows "server_ok hf (w\<lparr>table := t\<rparr>) T" "get_stream (w\<lparr>table := t\<rparr>) n \<noteq> None"
proof -
  let ?b = "stream_bucket hf (table w) k" and ?w = "w\<lparr>table := t\<rparr>"
  have tab: "table_ok hf (table w)" by (rule server_parts(1) [OF ok])
  then have sok: "stream_ok hf (table w)" by (simp add: table_ok_def)
  note seek = stream_chain_ok [OF sok, of k] stream_seek [OF sok key]
  have "server_ok hf ?w T \<and> get_stream ?w n \<noteq> None"
  proof (cases "streams hf (table w) k")
    case (Some m)
    then have same: "t = table w" "n = m" using ins seek by (simp_all add: insert_node_to_stream_hash_table_def)
    have "chains_ok (stream_node_key (table w)) (\<lambda>k. unat (stream_bucket hf (table w) k)) (listStreamNodeHead (table w))"
      using sok by (simp add: stream_ok_def)
    then have "stream_node_key (table w) m = Some k"
      using Some chains_map_Some stream_bucket_range [OF sok] unfolding streams_def by fastforce
    then have "get_stream w m \<noteq> None" by (auto simp: stream_node_key_def get_stream_def split: bind_splits)
    then show ?thesis using same ok by simp
  next
    case None
    have free: "stream_nodes (table w) a = None" using fresh by (simp add: get_stream_def)
    obtain t' where t': "insert_node_to_stream_hash_table (table w) ?b s a = Some (a, t')" "stream_ok hf t'"
      "streams hf t' = (streams hf (table w))(k \<mapsto> a)" using stream_insert_new [OF sok key None free] by blast
    then have nt: "n = a" "t = t'" using ins by simp_all
    have nodes: "stream_nodes t = (stream_nodes (table w))(a \<mapsto> create_stream_node ?b s)"
      using ins nt seek None by (auto simp: insert_node_to_stream_hash_table_def split: option.splits)
    have gs: "get_stream ?w m = (if m = a then Some (create_stream_node ?b s) else get_stream w m)" for m
      using nodes by (simp add: get_stream_def)
    have old: "stream_node_key t m = stream_node_key (table w) m" if "m \<noteq> a" for m
      using nodes that by (simp add: stream_node_key_def)
    have chain: "chains_ok (stream_node_key t) (\<lambda>k. unat (stream_bucket hf t k)) (listStreamNodeHead t)"
      using t'(2) nt by (simp add: stream_ok_def)
    have "streams hf t k = Some a" using t'(3) nt by simp
    then have mine: "stream_node_key t a = Some k"
      using chains_map_Some [OF chain, of k a] stream_bucket_range [of hf t k] t'(2) nt unfolding streams_def by simp
    have tab': "table_ok hf t"
      unfolding table_ok_def
    proof (intro conjI allI impI)
      show "stream_ok hf t" using t'(2) nt by simp
      show "\<exists>k. stream_node_key t m = Some k \<and> streams hf t k = Some m" if m: "stream_nodes t m \<noteq> None" for m
      proof (cases "m = a")
        case True
        then show ?thesis using mine \<open>streams hf t k = Some a\<close> by blast
      next
        case False
        then obtain k' where k': "stream_node_key (table w) m = Some k'" "streams hf (table w) k' = Some m"
          using tab m nodes by (auto simp: table_ok_def)
        then have "k' \<noteq> k" using None by auto
        then show ?thesis using k' old [OF False] t'(3) nt by (intro exI [of _ k']) simp
      qed
    qed
    let ?n = "create_stream_node ?b s"
    have empty: "listClientNodeHead ?n = []" "queueStreamData ?n = None" "hGetStreamFromSource ?n = None" "uRtspPlayFlag ?n = 0"
      "uGetStreamThreadStartFlag ?n = 0" "uRtpClientNodeSendDataThreadFlag ?n = 0"
      by (simp_all add: create_stream_node_def stream_node_zero_def)
    have none: "a \<notin> pool w" "T a = None" using server_parts(4) [OF ok fresh] by simp_all
    have nobev: "bv_arg v \<noteq> a" if "bevs w b = Some v" for b v using server_parts(3) [OF ok that] fresh by auto
    have "server_ok hf ?w T"
    proof (rule keep_server [OF ok, where n = a])
      have eq: "frame_blocks ?w ?n = []" "source_block ?n = []" "queue_ok ?w ?n" "task_block T a = {}"
        using empty none by (simp_all add: frame_blocks_def source_block_def queue_ok_def task_block_def)
      show "touches a w T ?w T"
        using gs empty eq by (simp add: touches_def own_clients_def own_queues_def own_blocks_def)
      show "table_ok hf (table ?w)" using tab' by simp
      show "local_ok ?w T a s'" if "get_stream ?w a = Some s'" for s'
        using that gs empty eq none nobev by (auto simp: local_ok_def clients_ok_def blocks_ok_def flags_ok_def)
    qed (use gs in simp)
    then show ?thesis using gs nt by simp
  qed
  then show "server_ok hf ?w T" "get_stream ?w n \<noteq> None" by simp_all
qed

section \<open>A client for the request\<close>

lemma add_client_server:
  assumes ok: "server_ok hf w T" and s: "get_stream w n = Some s" and fresh: "clients (cw w) a = None"
  shows "server_ok hf (put_stream n (s\<lparr>listClientNodeHead := la_append (listClientNodeHead s) a\<rparr>) (w\<lparr>cw := put_client a c (cw w)\<rparr>)) T"
proof -
  let ?s = "s\<lparr>listClientNodeHead := la_append (listClientNodeHead s) a\<rparr>"
  let ?w = "put_stream n ?s (w\<lparr>cw := put_client a c (cw w)\<rparr>)"
  have l: "local_ok w T n s" by (rule server_parts(2) [OF ok s])
  have ap: "set (la_append (listClientNodeHead s) a) = insert a (set (listClientNodeHead s))"
    "distinct (la_append (listClientNodeHead s) a) \<longleftrightarrow> a \<notin> set (listClientNodeHead s) \<and> distinct (listClientNodeHead s)"
    by (auto simp: la_append_def)
  have eq: "frame_blocks ?w ?s = frame_blocks w s" "source_block ?s = source_block s" "queue_ok ?w ?s = queue_ok w s"
    by (simp_all add: frame_blocks_def source_block_def queue_ok_def cong: option.case_cong)
  show ?thesis
  proof (rule keep_stream [OF ok s, of _ ?s])
    show tab: "table ?w = table (put_stream n ?s w)" by simp
    show "touches n w T ?w T"
      by (rule touches_put [OF s tab]) (use fresh eq ap in auto)
    have "clients_ok (listClientNodeHead ?s) (cw ?w)" using l fresh ap by (auto simp: local_ok_def clients_ok_def)
    moreover have "flags_ok ?s p t = flags_ok s p t" "bev_ok ?s b v = bev_ok s b v" for p t b v
      by (simp_all add: flags_ok_def bev_ok_def cong: option.case_cong phase.case_cong)
    ultimately show "local_ok ?w T n ?s"
      using l eq unfolding local_ok_def blocks_ok_def by simp
  qed (simp add: same_key_def)
qed

section \<open>The connection\<close>

lemma connect_server:
  assumes ok: "server_ok hf w T" and fresh: "\<And>b. na_bev e = Some b \<Longrightarrow> bevs w b = None"
    and w': "play_rtsp_video_from_hbserver e n w = Some (r, w')"
  shows "server_ok hf w' T"
proof -
  obtain s where s: "get_stream w n = Some s" using w' by (auto simp: play_rtsp_video_from_hbserver_def split: bind_splits)
  have l: "local_ok w T n s" by (rule server_parts(2) [OF ok s])
  show ?thesis
  proof (cases "uRtspPlayFlag s = 1 \<or> na_bev e = None")
    case True
    then have "w' = w" using w' s by (auto simp: play_rtsp_video_from_hbserver_def split: if_splits)
    then show ?thesis using ok by simp
  next
    case False
    then obtain b where b: "na_bev e = Some b" "bevs w b = None" using fresh by auto
    have f: "uRtspPlayFlag s = 0" "queueStreamData s = None" "hGetStreamFromSource s = None" "T n = None" "n \<notin> pool w"
      "uGetStreamThreadStartFlag s = 0" "uRtpClientNodeSendDataThreadFlag s = 0"
      using l False by (auto simp: local_ok_def flags_ok_def)
    have nobev: "bv_arg v \<noteq> n" if "bevs w x = Some v" for x v
      using server_parts(3) [OF ok that] s f by (auto simp: bev_ok_def)
    let ?v = "\<lparr>bv_input = [], bv_read = None, bv_event = Some Connect_event_cb, bv_arg = n\<rparr>"
    have shape: "(\<exists>p. table w' = table (put_stream n (s\<lparr>pConnectHbServerBev := p\<rparr>) w)) \<and> bevs w' = bevs w \<or>
        table w' = table (put_stream n (s\<lparr>pConnectHbServerBev := Some b, uRtspPlayFlag := 1\<rparr>) w) \<and> bevs w' = (bevs w)(b \<mapsto> ?v)"
      and rest: "clients (cw w') = clients (cw w)" "queues w' = queues w" "blocks w' = blocks w" "pool w' = pool w"
      using w' s b f(1)
      by (auto simp: play_rtsp_video_from_hbserver_def give_up_def free_bev_def set_callbacks_def Let_def fun_upd_idem
          split: if_splits bind_splits)
    then obtain s' where tab: "table w' = table (put_stream n s' w)" and
      s': "(\<exists>p. s' = s\<lparr>pConnectHbServerBev := p\<rparr>) \<and> bevs w' = bevs w \<or>
        s' = s\<lparr>pConnectHbServerBev := Some b, uRtspPlayFlag := 1\<rparr> \<and> bevs w' = (bevs w)(b \<mapsto> ?v)"
      by blast
    have eq: "frame_blocks w' s' = frame_blocks w s" "source_block s' = source_block s" "queue_ok w' s' = queue_ok w s"
      "listClientNodeHead s' = listClientNodeHead s" "queueStreamData s' = queueStreamData s" "same_key s s'"
      using s' rest by (auto simp: frame_blocks_def source_block_def queue_ok_def same_key_def cong: option.case_cong)
    show ?thesis
    proof (rule keep_stream [OF ok s tab eq(6)])
      have other: "bevs w' x = Some y \<longleftrightarrow> bevs w x = Some y" if "bv_arg y \<noteq> n" for x y using s' b(2) that by (auto split: if_splits)
      show "touches n w T w' T"
        by (rule touches_put [OF s tab]) (use rest other eq in auto)
      have fl: "flags_ok s' (n \<in> pool w) (T n)" using s' f by (auto simp: flags_ok_def)
      have all: "\<forall>x y. bevs w' x = Some y \<and> bv_arg y = n \<longrightarrow> bev_ok s' x y"
      proof (cases "bevs w' = bevs w")
        case False
        then have v: "s' = s\<lparr>pConnectHbServerBev := Some b, uRtspPlayFlag := 1\<rparr>" "bevs w' = (bevs w)(b \<mapsto> ?v)" using s' by auto
        have "bev_ok s' b ?v" using v(1) f by (simp add: bev_ok_def)
        then show ?thesis using v(2) nobev by (metis fun_upd_apply option.inject)
      qed (use nobev in metis)
      have some: "uRtspPlayFlag s' = 1 \<and> uGetStreamThreadStartFlag s' = 0 \<longrightarrow> (\<exists>x y. bevs w' x = Some y \<and> bv_arg y = n)"
      proof
        assume "uRtspPlayFlag s' = 1 \<and> uGetStreamThreadStartFlag s' = 0"
        then have "bevs w' = (bevs w)(b \<mapsto> ?v)" using s' f by auto
        then show "\<exists>x y. bevs w' x = Some y \<and> bv_arg y = n" by (intro exI [of _ b] exI [of _ ?v]) simp
      qed
      show "local_ok w' T n s'"
        using l eq rest fl all some unfolding local_ok_def clients_ok_def blocks_ok_def by simp
    qed
  qed
qed

section \<open>stream_read_cb\<close>

lemma play_request_server:
  assumes ok: "server_ok hf w T" and key: "stream_request_key s \<noteq> None" and fresh: "get_stream w (pa_stream e) = None"
    "clients (cw w) (pa_client e) = None" "\<And>b. na_bev (pa_connect e) = Some b \<Longrightarrow> bevs w b = None"
    and w': "play_request hf rtcp e s w = Some w'"
  shows "server_ok hf w' T"
proof -
  obtain k where k: "stream_request_key s = Some k" using key by auto
  have sok: "stream_ok hf (table w)" using server_parts(1) [OF ok] by (simp add: table_ok_def)
  let ?h = "stream_bucket hf (table w) k"
  have h: "request_bucket hf (table w) s = Some ?h" by (rule request_bucket_ok [OF sok k])
  let ?w0 = "lock_stream ?h w"
  have ok0: "server_ok hf ?w0 T" using ok by (simp add: lock_stream_def note_server)
  obtain n t where ins: "insert_node_to_stream_hash_table (table ?w0) ?h s (pa_stream e) = Some (n, t)"
    using w' h by (auto simp: play_request_def Let_def split: bind_splits)
  let ?w1 = "?w0\<lparr>table := t\<rparr>"
  have tb: "stream_bucket hf (table ?w0) k = ?h" and new: "get_stream ?w0 (pa_stream e) = None"
    using fresh(1) by (simp_all add: lock_stream_def)
  note i1 = insert_server [OF ok0 k new, unfolded tb, OF ins]
  obtain nd where nd: "get_stream ?w1 n = Some nd" using i1(2) by blast
  obtain found where found: "find_client_node nd (cw ?w1) (sn_cCallId s) = Some found"
    using w' h ins nd by (auto simp: play_request_def Let_def split: bind_splits)
  let ?add = "\<lambda>c. put_stream n (nd\<lparr>listClientNodeHead := la_append (listClientNodeHead nd) (pa_client e)\<rparr>)
    (?w1\<lparr>cw := put_client (pa_client e) c (cw ?w1)\<rparr>)"
  have put_note: "put_stream n x (note_effect ev y) = note_effect ev (put_stream n x y)" for x ev y
    by (simp add: put_stream_def note_effect_def)
  have "\<exists>w2 r w3. server_ok hf w2 T \<and> bevs w2 = bevs w \<and> play_rtsp_video_from_hbserver (pa_connect e) n w2 = Some (r, w3) \<and>
      w' = unlock_stream ?h w3"
  proof (cases found)
    case (Some x)
    then obtain r w3 where "play_rtsp_video_from_hbserver (pa_connect e) n ?w1 = Some (r, w3)" "w' = unlock_stream ?h w3"
      using w' h ins nd found by (auto simp: play_request_def Let_def split: bind_splits)
    then show ?thesis using i1(1) by (intro exI [of _ ?w1]) (auto simp: lock_stream_def)
  next
    case None
    obtain c where c: "new_client rtcp (pa_event e) s = Some c"
      using w' h ins nd found None by (auto simp: play_request_def Let_def split: bind_splits)
    have free: "clients (cw ?w1) (pa_client e) = None" using fresh(2) by (simp add: lock_stream_def)
    have okc: "server_ok hf (?add c) T" by (rule add_client_server [OF i1(1) nd free])
    show ?thesis
    proof (cases rtcp)
      case True
      then obtain ev r w3 where "pa_event e = Some ev"
        "play_rtsp_video_from_hbserver (pa_connect e) n (note_effect (Event_add ev RTCP_SEND_TIMER) (?add c)) = Some (r, w3)"
        "w' = unlock_stream ?h w3"
        using w' h ins nd found None c by (auto simp: play_request_def Let_def put_note split: bind_splits)
      then show ?thesis using okc
        by (intro exI [of _ "note_effect (Event_add ev RTCP_SEND_TIMER) (?add c)"]) (auto simp: note_server lock_stream_def)
    next
      case False
      then obtain r w3 where "play_rtsp_video_from_hbserver (pa_connect e) n (?add c) = Some (r, w3)" "w' = unlock_stream ?h w3"
        using w' h ins nd found None c by (auto simp: play_request_def Let_def split: bind_splits)
      then show ?thesis using okc by (intro exI [of _ "?add c"]) (auto simp: lock_stream_def)
    qed
  qed
  then obtain w2 r w3 where w2: "server_ok hf w2 T" "bevs w2 = bevs w"
    "play_rtsp_video_from_hbserver (pa_connect e) n w2 = Some (r, w3)" "w' = unlock_stream ?h w3" by blast
  have "server_ok hf w3 T" by (rule connect_server [OF w2(1) _ w2(3)]) (use fresh(3) w2(2) in simp)
  then show ?thesis using w2(4) by (simp add: unlock_stream_def note_server)
qed

end
