(* ===== verification/StreamTasks.thy ===== *)
theory StreamTasks
  imports StreamInput
begin

text \<open>
  The send task of a stream keeps the streams of the server sound: its start, a round of its loop, its way out of
  the loop, its end.
\<close>

section \<open>The clients during a frame\<close>

text \<open>Clients that are to be deleted leave the list and are freed; the others stay.\<close>

definition clients_shrink :: "nat list \<Rightarrow> client_world \<Rightarrow> nat list \<Rightarrow> client_world \<Rightarrow> bool" where
  "clients_shrink cl w cl' w' \<longleftrightarrow> clients_ok cl' w' \<and> set cl' \<subseteq> set cl \<and> (\<forall>a. a \<notin> set cl \<longrightarrow> clients w' a = clients w a)"

lemma clients_shrink_refl: "clients_ok cl w \<Longrightarrow> clients_shrink cl w cl w"
  by (simp add: clients_shrink_def)

lemma clients_shrink_trans: "clients_shrink cl w cl' w' \<Longrightarrow> clients_shrink cl' w' cl'' w'' \<Longrightarrow> clients_shrink cl w cl'' w''"
  unfolding clients_shrink_def by (metis subset_iff)

lemma packet_shrinks:
  assumes ok: "clients_ok cl w"
  shows "clients_shrink cl w (filter (\<lambda>a. \<not> doomed w a) cl) (fold (visit hash ft pkt) cl w)"
proof -
  have "clients (fold (visit hash ft pkt) cl w) a \<noteq> None" if "a \<in> set cl" "\<not> doomed w a" for a
    using fold_visit_clients [OF ok that(1)] that(2) by (simp add: after_visit_def doomed_def)
  then show ?thesis using ok fold_visit_other by (auto simp: clients_shrink_def clients_ok_def)
qed

lemma rtp_send_loop_shrinks:
  assumes "rtp_send_loop hash ft r buf csize cl w = Some y" and "clients_ok cl w" and "csize = la_size cl"
  shows "clients_shrink cl w (fst (snd (snd y))) (snd (snd (snd y)))"
proof -
  let ?P = "\<lambda>(hash :: u32) (ft :: int) (r :: rtp_info_t) (buf :: bytes) (csize :: int) cl w
    (y :: rtp_info_t \<times> bytes \<times> nat list \<times> client_world).
    clients_ok cl w \<longrightarrow> csize = la_size cl \<longrightarrow> clients_shrink cl w (fst (snd (snd y))) (snd (snd (snd y)))"
  have "?P hash ft r buf csize cl w y"
  proof (rule rtp_send_loop.raw_induct [OF _ assms(1), where P = ?P], intro impI)
    fix loop hash ft r buf csize cl w y
    assume IH: "\<And>hash ft r buf csize cl w y. loop hash ft r buf csize cl w = Some y \<Longrightarrow> ?P hash ft r buf csize cl w y"
      and y: "Option.bind (get_rtp_ps_pack r buf) (\<lambda>(r, buf, pkt).
        case pkt of None \<Rightarrow> Some (r, buf, cl, w)
        | Some (p, n) \<Rightarrow> Option.bind (mem_read buf p (unat n)) (\<lambda>d.
            Option.bind (send_to_clients hash ft d (nat csize) 0 csize cl w) (\<lambda>(csize, cl, w).
              loop hash ft r buf csize cl w))) = Some y"
      and ok: "clients_ok cl w" and cs: "csize = la_size cl"
    obtain r' buf' pkt where g: "get_rtp_ps_pack r buf = Some (r', buf', pkt)" using y by (auto split: bind_splits)
    show "clients_shrink cl w (fst (snd (snd y))) (snd (snd (snd y)))"
    proof (cases pkt)
      case None
      then show ?thesis using y g clients_shrink_refl [OF ok] by auto
    next
      case (Some pn)
      obtain p n where pn: "pn = (p, n)" by (cases pn)
      obtain d where d: "mem_read buf' p (unat n) = Some d" using y g Some pn by (auto split: bind_splits)
      let ?cl = "filter (\<lambda>a. \<not> doomed w a) cl" and ?w = "fold (visit hash ft d) cl w"
      have loop: "loop hash ft r' buf' (la_size ?cl) ?cl ?w = Some y"
        using y g Some pn d send_to_clients_all [OF ok, of hash ft d] cs by simp
      have "clients_ok ?cl ?w" using packet_shrinks [OF ok, of hash ft d] by (simp add: clients_shrink_def)
      then have "clients_shrink ?cl ?w (fst (snd (snd y))) (snd (snd (snd y)))" using IH [OF loop] by simp
      then show ?thesis by (rule clients_shrink_trans [OF packet_shrinks [OF ok]])
    qed
  qed
  then show ?thesis using assms by simp
qed

lemma pack_shrinks:
  assumes "pack_ps_rtp_and_add_node hash r cl buf k t pre ft w = Some (q, r', buf', cl', w')" and "clients_ok cl w"
  shows "clients_shrink cl w cl' w'"
  using assms rtp_send_loop_shrinks [of hash ft _ buf "la_size cl" cl w] clients_shrink_refl
  by (fastforce simp: pack_ps_rtp_and_add_node_def Let_def split: if_splits bind_splits)

section \<open>A frame\<close>

lemma put_stream_id: "get_stream w n = Some s \<Longrightarrow> put_stream n s w = w"
  by (simp add: put_stream_def get_stream_def fun_upd_idem)

text \<open>What handling the frame in block \<open>a\<close> does to the world.\<close>

definition frame_done :: "nat \<Rightarrow> STREAM_NODE \<Rightarrow> nat \<Rightarrow> send_vars \<Rightarrow> stream_world \<Rightarrow> send_vars \<Rightarrow> stream_world \<Rightarrow> bool" where
  "frame_done n s a v w v' w' \<longleftrightarrow>
     (\<exists>r cl. table w' = table (put_stream n (s\<lparr>rtp_info_video := r, listClientNodeHead := cl\<rparr>) w) \<and>
       clients_shrink (listClientNodeHead s) (cw w) cl (cw w')) \<and>
     queues w' = queues w \<and> bevs w' = bevs w \<and> pool w' = pool w \<and> dom (blocks w') = dom (blocks w) - {a} \<and> pPsData v' = pPsData v"

lemma send_frame_world:
  assumes s: "get_stream w n = Some s" and ok: "clients_ok (listClientNodeHead s) (cw w)"
    and f: "send_frame old n ft ftn src len pre v w = Some (v', w')"
  shows "(\<exists>r cl. table w' = table (put_stream n (s\<lparr>rtp_info_video := r, listClientNodeHead := cl\<rparr>) w) \<and>
       clients_shrink (listClientNodeHead s) (cw w) cl (cw w')) \<and>
     queues w' = queues w \<and> bevs w' = bevs w \<and> pool w' = pool w \<and> dom (blocks w') = dom (blocks w) \<and> pPsData v' = pPsData v"
proof -
  obtain a buf b k r cl c ps i o' where a: "pPsData v = Some a" "blocks w a = Some buf"
    "pack_ps_rtp_and_add_node (uStreamNodeHashValue s) (rtp_info_video s) (listClientNodeHead s) b (word_of_nat k)
       (u64Time (timing v)) (word_of_nat pre) ftn (cw w) = Some (ps, r, o', cl, c)"
    "v' = v\<lparr>stPsInfo := i, iPsDataLen := k\<rparr>"
    "w' = put_stream n (s\<lparr>rtp_info_video := r, listClientNodeHead := cl\<rparr>) (w\<lparr>cw := c, blocks := (blocks w)(a \<mapsto> o')\<rparr>)"
    using f s by (auto simp: send_frame_def Let_def split: bind_splits)
  then show ?thesis using pack_shrinks [OF a(3) ok] by auto
qed

lemma handle_frame_world:
  assumes s: "get_stream w n = Some s" and ok: "clients_ok (listClientNodeHead s) (cw w)"
    and h: "handle_frame old n iv a pre v w = Some (v', w')"
  shows "frame_done n s a v w v' w'"
proof -
  obtain blk p hd where b: "blocks w a = Some blk" "ptr_add 0 pre = Some p" "mem_read blk p 32 = Some hd"
    using h by (auto simp: handle_frame_def split: bind_splits)
  define c where "c = BOX_CTRL_CMD_read hd"
  note c = h [unfolded handle_frame_def b(1) Let_def, simplified, unfolded b(2), simplified, unfolded b(3), simplified, folded c_def]
  let ?v = "v\<lparr>timing := timestamp_step (v_pts c) (timing v)\<rparr>"
  have sent: "frame_done n s a v w v' w'"
    if f: "send_frame old n ft k src len p ?v w = Some (v1, w1)" "free_block a w1 = Some w2" "v' = v1" "w' = note_effect (Usleep iv) w2"
    for ft k src len v1 w1 w2
  proof -
    obtain r cl where w1: "table w1 = table (put_stream n (s\<lparr>rtp_info_video := r, listClientNodeHead := cl\<rparr>) w)"
      "clients_shrink (listClientNodeHead s) (cw w) cl (cw w1)" "queues w1 = queues w" "bevs w1 = bevs w" "pool w1 = pool w"
      "dom (blocks w1) = dom (blocks w)" "pPsData v1 = pPsData v"
      using send_frame_world [OF s ok f(1)] by auto
    have w2: "w2 = w1\<lparr>blocks := (blocks w1)(a := None)\<rparr>" using f(2) by (simp add: free_block_def split: if_splits)
    show ?thesis
      unfolding frame_done_def using w1 w2 f(3,4)
      by (intro conjI exI [of _ r] exI [of _ cl]) (simp_all add: clients_shrink_def clients_ok_def)
  qed
  show ?thesis
  proof (cases "data_type c = I_FRAME \<or> data_type c = BP_FRAME")
    case True
    then show ?thesis using c sent by (auto split: bind_splits if_splits)
  next
    case False
    then have "free_block a w = Some w'" "v' = ?v" using c by (auto split: bind_splits)
    then show ?thesis
      unfolding frame_done_def using s put_stream_id [OF s] clients_shrink_refl [OF ok]
      by (intro conjI exI [of _ "rtp_info_video s"] exI [of _ "listClientNodeHead s"])
         (auto simp: free_block_def split: if_splits)
  qed
qed

section \<open>The steps of the task\<close>

lemma task_flags:
  assumes "server_ok hf w T" "T n = Some ph"
  shows "\<exists>s. get_stream w n = Some s \<and> local_ok w T n s"
  using server_parts(2,4) [OF assms(1), of n] assms(2) by (cases "get_stream w n") auto

lemma task_start_server:
  assumes ok: "server_ok hf w T" and t: "T n = Some Queued" and fresh: "\<And>a. m = Some a \<Longrightarrow> blocks w a = None"
    and w': "send_task_start m w = (v, w')"
  shows "server_ok hf w' (T(n \<mapsto> Running v))"
proof -
  obtain s where s: "get_stream w n = Some s" "local_ok w T n s" using task_flags [OF ok t] by blast
  have v: "pPsData v = m" and w: "table w' = table w" "cw w' = cw w" "queues w' = queues w" "bevs w' = bevs w" "pool w' = pool w"
    "dom (blocks w') = dom (blocks w) \<union> set_option m"
    using w' by (auto simp: send_task_start_def split: option.splits)
  have tb: "task_block T n = {}" "task_block (T(n \<mapsto> Running v)) n = set_option m" using t v by (simp_all add: task_block_def)
  have eq: "frame_blocks w' s = frame_blocks w s" "queue_ok w' s = queue_ok w s"
    using w by (simp_all add: frame_blocks_def queue_ok_def cong: option.case_cong)
  have new: "set_option m \<inter> dom (blocks w) = {}" using fresh by (cases m) auto
  have old: "set (frame_blocks w s @ source_block s) \<subseteq> dom (blocks w)" using s(2) by (simp add: local_ok_def blocks_ok_def)
  show ?thesis
  proof (rule keep_stream [OF ok s(1), of _ s])
    show tab: "table w' = table (put_stream n s w)" using put_stream_id [OF s(1)] w by simp
    show "touches n w T w' (T(n \<mapsto> Running v))"
      by (rule touches_put [OF s(1) tab]) (use w tb eq new in auto)
    have "flags_ok s (n \<in> pool w) (Some (Running v))" using s(2) t by (auto simp: local_ok_def flags_ok_def)
    then show "local_ok w' (T(n \<mapsto> Running v)) n s"
      using s(2) w tb eq new old unfolding local_ok_def clients_ok_def blocks_ok_def by auto
  qed (simp add: same_key_def)
qed

text \<open>A round that goes on has handled at most one frame.\<close>

lemma frame_step:
  assumes ok: "server_ok hf w T" and t: "T n = Some (Running v)" and s: "get_stream w n = Some s"
    and q: "queueStreamData s = Some q" "queues w q = Some f" "lf_content f = d # ds" "qa_pDataBuf d = Some a"
    and f': "lf_ok f'" "lf_content f' = ds" "max_unit_num f' = max_unit_num f"
    and h: "frame_done n s a v (w\<lparr>queues := (queues w)(q \<mapsto> f')\<rparr>) v' w'"
  shows "server_ok hf w' (T(n \<mapsto> Running v'))"
proof -
  have l: "local_ok w T n s" by (rule server_parts(2) [OF ok s])
  obtain r cl where tab: "table w' = table (put_stream n (s\<lparr>rtp_info_video := r, listClientNodeHead := cl\<rparr>) w)"
    and c: "clients_shrink (listClientNodeHead s) (cw w) cl (cw w')"
    and w': "queues w' = (queues w)(q \<mapsto> f')" "bevs w' = bevs w" "pool w' = pool w" "dom (blocks w') = dom (blocks w) - {a}"
      "pPsData v' = pPsData v"
    using h by (auto simp: frame_done_def)
  let ?s = "s\<lparr>rtp_info_video := r, listClientNodeHead := cl\<rparr>"
  have fb: "frame_blocks w s = a # frame_blocks w' ?s" using q f' w' by (simp add: frame_blocks_def)
  have sb: "source_block ?s = source_block s" by (simp add: source_block_def)
  have qo: "queue_ok w' ?s" using l q f' w' by (auto simp: local_ok_def queue_ok_def)
  have tb: "task_block (T(n \<mapsto> Running v')) n = task_block T n" using t w' by (simp add: task_block_def)
  have bl: "distinct (a # frame_blocks w' ?s @ source_block s)" "set (a # frame_blocks w' ?s @ source_block s) \<subseteq> dom (blocks w)"
    "task_block T n \<subseteq> dom (blocks w)" "task_block T n \<inter> set (a # frame_blocks w' ?s @ source_block s) = {}"
    using l fb by (simp_all add: local_ok_def blocks_ok_def)
  show ?thesis
  proof (rule keep_stream [OF ok s tab])
    have "dom (clients (cw w)) - set (listClientNodeHead s) \<subseteq> dom (clients (cw w'))" "set cl \<subseteq> set (listClientNodeHead s)"
      using c by (auto simp: clients_shrink_def)
    then show "touches n w T w' (T(n \<mapsto> Running v'))"
      by (intro touches_put [OF s tab]) (use w' q tb fb sb in auto)
    have "blocks_ok w' ?s" "task_block T n \<subseteq> dom (blocks w')" "task_block T n \<inter> set (frame_blocks w' ?s @ source_block ?s) = {}"
      using bl w'(4) sb by (auto simp: blocks_ok_def)
    moreover have "flags_ok ?s (n \<in> pool w) (Some (Running v'))" using l t by (auto simp: local_ok_def flags_ok_def)
    moreover have "bev_ok ?s b x = bev_ok s b x" for b x by (simp add: bev_ok_def)
    ultimately show "local_ok w' (T(n \<mapsto> Running v')) n ?s"
      using l w' c qo tb unfolding local_ok_def clients_shrink_def by auto
  qed (simp add: same_key_def)
qed

lemma task_round_server:
  assumes ok: "server_ok hf w T" and t: "T n = Some (Running v)" and r: "send_round old n v w = Some (Go_on, v', w')"
  shows "server_ok hf w' (T(n \<mapsto> Running v'))"
proof -
  obtain s where s: "get_stream w n = Some s" "local_ok w T n s" using task_flags [OF ok t] by blast
  have go: "uGetStreamThreadStartFlag s \<noteq> 2" "la_size (listClientNodeHead s) \<noteq> 0"
    using r s(1) by (auto simp: send_round_def split: if_splits)
  obtain len where len: "queue_len (queueStreamData s) w = Some len" using r s(1) go by (auto simp: send_round_def split: bind_splits)
  show ?thesis
  proof (cases "len > 15")
    case False
    then have "v' = v" "w' = note_effect (Usleep 50000) w" using r s(1) go len by (simp_all add: send_round_def)
    then show ?thesis using ok t by (simp add: note_server fun_upd_idem)
  next
    case True
    obtain q where q: "queueStreamData s = Some q" using len True by (auto simp: queue_len_def split: option.splits)
    obtain f where f: "queues w q = Some f" "lf_ok f" "max_unit_num f = 512" "\<forall>d\<in>set (lf_content f). qa_pDataBuf d \<noteq> None"
      using s(2) q by (auto simp: local_ok_def queue_ok_def)
    obtain d ds where d: "lf_content f = d # ds"
      using len True q queue_len_Some [OF f(1,2)] by (cases "lf_content f") auto
    obtain a where a: "qa_pDataBuf d = Some a" using f(4) d by auto
    obtain f' where f': "queue_pop (Some q) w = Some (0, Some d, w\<lparr>queues := (queues w)(q \<mapsto> f')\<rparr>)" "lf_ok f'"
      "lf_content f' = ds" "max_unit_num f' = max_unit_num f" using queue_pop_Some [OF f(1,2) d] by blast
    let ?w = "w\<lparr>queues := (queues w)(q \<mapsto> f')\<rparr>"
    have "handle_frame old n (send_interval len) a (qa_iDataPreBufSize d) v ?w = Some (v', w')"
      using r s(1) go len True q f'(1) a by (auto simp: send_round_def Let_def split: bind_splits)
    then have "frame_done n s a v ?w v' w'"
      using s by (intro handle_frame_world) (auto simp: local_ok_def)
    then show ?thesis by (rule frame_step [OF ok t s(1) q f(1) d a f'(2-4)])
  qed
qed

text \<open>The way out of the loop: the scratch buffer is freed.\<close>

lemma task_leave_server:
  assumes ok: "server_ok hf w T" and t: "T n = Some (Running v)" and r: "send_round old n v w = Some (Leave iRet, v1, w1)"
  shows "\<exists>v' w'. send_leave v1 w1 = Some (v', w') \<and> server_ok hf w' (T(n \<mapsto> Waiting)) \<and> get_stream w' = get_stream w1"
proof -
  obtain s where s: "get_stream w n = Some s" "local_ok w T n s" using task_flags [OF ok t] by blast
  have "uGetStreamThreadStartFlag s = 2 \<and> w1 = w \<and> v1 = v \<or>
      w1 = put_stream n (s\<lparr>uRtpClientNodeSendDataThreadFlag := 2\<rparr>) w \<and> v1 = v"
    using r s(1) by (auto simp: send_round_def Let_def split: if_splits bind_splits option.splits)
  then obtain s1 where s1: "s1 = s \<and> uGetStreamThreadStartFlag s = 2 \<or> s1 = s\<lparr>uRtpClientNodeSendDataThreadFlag := 2\<rparr>"
    "w1 = put_stream n s1 w" "v1 = v"
    using put_stream_id [OF s(1)] by metis
  have l: "task_block T n \<subseteq> dom (blocks w)" "task_block T n \<inter> set (frame_blocks w s @ source_block s) = {}"
    using s(2) by (simp_all add: local_ok_def)
  let ?w' = "w1\<lparr>blocks := blocks w1 |` (- task_block T n)\<rparr>"
  have tb: "task_block T n = set_option (pPsData v)" "task_block (T(n \<mapsto> Waiting)) n = {}"
    using t by (simp_all add: task_block_def)
  have "blocks w1 |` (- {a}) = (blocks w1)(a := None)" for a by (auto simp: restrict_map_def fun_eq_iff)
  then have "\<exists>v'. send_leave v1 w1 = Some (v', ?w')"
    using s1 tb l by (cases "pPsData v") (auto simp: send_leave_def free_block_def)
  moreover have "server_ok hf ?w' (T(n \<mapsto> Waiting))"
  proof (rule keep_stream [OF ok s(1), of _ s1])
    show tab: "table ?w' = table (put_stream n s1 w)" using s1 by simp
    have same: "frame_blocks ?w' s1 = frame_blocks w s" "source_block s1 = source_block s" "queue_ok ?w' s1 = queue_ok w s"
      "listClientNodeHead s1 = listClientNodeHead s" "queueStreamData s1 = queueStreamData s"
      using s1 by (auto simp: frame_blocks_def source_block_def queue_ok_def cong: option.case_cong)
    show "touches n w T ?w' (T(n \<mapsto> Waiting))"
      by (rule touches_put [OF s(1) tab]) (use s1 tb same in auto)
    have fl: "flags_ok s1 (n \<in> pool w) (Some Waiting)" using s(2) t s1 by (auto simp: local_ok_def flags_ok_def)
    have bv: "bev_ok s1 b x" if "bev_ok s b x" for b x
    proof -
      have "uRtpClientNodeSendDataThreadFlag s = 1" using s(2) t by (simp add: local_ok_def flags_ok_def)
      then show ?thesis using that s1(1) by (auto simp: bev_ok_def)
    qed
    have pl: "uRtspPlayFlag s1 = uRtspPlayFlag s" "uGetStreamThreadStartFlag s1 = uGetStreamThreadStartFlag s" using s1 by auto
    have "blocks_ok ?w' s1" using s(2) l same s1(2) by (auto simp: local_ok_def blocks_ok_def)
    then show "local_ok ?w' (T(n \<mapsto> Waiting)) n s1"
      using s(2) s1(2) same fl bv tb pl unfolding local_ok_def clients_ok_def by auto
    show "same_key s s1" using s1 by (auto simp: same_key_def)
  qed
  ultimately show ?thesis by (metis get_stream_update(2))
qed

lemma task_end_server:
  assumes ok: "server_ok hf w T" and t: "T n = Some Waiting" and s: "get_stream w n = Some s" and may: "send_may_end s"
  shows "\<exists>w'. send_teardown n w = Some w' \<and> server_ok hf w' (T(n := None)) \<and> get_stream w' n = None"
proof -
  have l: "local_ok w T n s" by (rule server_parts(2) [OF ok s])
  have get: "uGetStreamThreadStartFlag s = 2" and p: "n \<in> pool w"
    using l t may by (auto simp: local_ok_def flags_ok_def send_may_end_def)
  obtain w' where w': "send_teardown n w = Some w'" "torn_down n s w w'" "bevs w' = bevs w" "pool w' = pool w - {n}"
    using send_teardown_gone [OF server_parts(1) [OF ok] sound_local [OF ok s] p] by blast
  have none: "bv_arg v \<noteq> n" if "bevs w b = Some v" for b v
    using l get that by (auto simp: local_ok_def bev_ok_def)
  have "server_ok hf w' (T(n := None))"
    by (rule end_of_stream [OF ok s w'(2)]) (use none w' in auto)
  then show ?thesis using w' torn_down_gone [OF server_parts(1) [OF ok] s] by auto
qed

end
