(* ===== verification/StreamLife.thy ===== *)
theory StreamLife
  imports StreamCallbacks StreamRequests StreamTasks SendSpec
begin

text \<open>
  The stream side of the server as a transition system. Its state is the stream world and, for each stream, how far
  its send task is. A step is one callback of the event loop, one request of the SIP thread, one round of a send
  task, or data that arrive at a socket: the steps interleave in any order, but none of them is itself
  interrupted. Addresses the allocator gives are not in use. The thread pool takes every task: what happens
  when it does not is \<open>refused_task_dangles\<close>.
\<close>

section \<open>Steps\<close>

definition server_start :: "u32 \<Rightarrow> stream_world" where
  "server_start len =
     \<lparr>table = stream_table_create len, cw = \<lparr>clients = Map.empty, trace = []\<rparr>, queues = Map.empty, blocks = Map.empty,
      bevs = Map.empty, pool = {}\<rparr>"

inductive server_step ::
  "(bytes \<Rightarrow> u32) \<Rightarrow> bool \<Rightarrow> stream_world \<times> tasks \<Rightarrow> stream_world \<times> tasks \<Rightarrow> bool"
  for hf rtcp where
  Arrive: "bevs w b = Some v \<Longrightarrow>
     server_step hf rtcp (w, T) (w\<lparr>bevs := (bevs w)(b \<mapsto> v\<lparr>bv_input := bv_input v @ d\<rparr>)\<rparr>, T)"
| Connection: "bevs w b = Some v \<Longrightarrow> bv_event v = Some Connect_event_cb \<Longrightarrow> (\<And>a. m = Some a \<Longrightarrow> blocks w a = None) \<Longrightarrow>
     connect_event_cb m res ev b (bv_arg v) w = Some w' \<Longrightarrow> server_step hf rtcp (w, T) (w', T)"
| Reply: "bevs w b = Some v \<Longrightarrow> bv_read v = Some Recv_cmd_from_hbserver \<Longrightarrow> queues w (ca_queue e) = None \<Longrightarrow>
     ca_memory e = New_memory \<or> ca_memory e = No_memory \<Longrightarrow>
     recv_cmd_from_hbserver e b (bv_arg v) w = Some w' \<Longrightarrow> server_step hf rtcp (w, T) (w', T)"
| Media: "bevs w b = Some v \<Longrightarrow> bv_read v = Some Recv_stream_cb \<Longrightarrow> ra_task_set_ok e \<Longrightarrow>
     (\<And>a. ra_malloc e = Some a \<Longrightarrow> blocks w a = None) \<Longrightarrow>
     recv_stream_cb e b (bv_arg v) w = Some w' \<Longrightarrow> server_step hf rtcp (w, T) (w', tasks_after w' (bv_arg v) T)"
| Broken: "bevs w b = Some v \<Longrightarrow> bv_event v = Some Recv_stream_err_cb \<Longrightarrow>
     recv_stream_err_cb b (bv_arg v) w = Some w' \<Longrightarrow> server_step hf rtcp (w, T) (w', T)"
| Request: "stream_request_key s \<noteq> None \<Longrightarrow> get_stream w (pa_stream e) = None \<Longrightarrow> clients (cw w) (pa_client e) = None \<Longrightarrow>
     (\<And>b. na_bev (pa_connect e) = Some b \<Longrightarrow> bevs w b = None) \<Longrightarrow>
     stream_read_cb hf rtcp e s w = Some w' \<Longrightarrow> server_step hf rtcp (w, T) (w', T)"
| Rtcp_timer: "udp_send_rtcp_timer ev a (cw w) = Some c \<Longrightarrow> server_step hf rtcp (w, T) (w\<lparr>cw := c\<rparr>, T)"
| Rtcp_recv: "udp_rtcp_recv_cb iWhich a (cw w) = Some c \<Longrightarrow> server_step hf rtcp (w, T) (w\<lparr>cw := c\<rparr>, T)"
| Task_start: "T n = Some Queued \<Longrightarrow> (\<And>a. m = Some a \<Longrightarrow> blocks w a = None) \<Longrightarrow> send_task_start m w = (v, w') \<Longrightarrow>
     server_step hf rtcp (w, T) (w', T(n \<mapsto> Running v))"
| Task_round: "T n = Some (Running v) \<Longrightarrow> send_round old n v w = Some (Go_on, v', w') \<Longrightarrow>
     server_step hf rtcp (w, T) (w', T(n \<mapsto> Running v'))"
| Task_leave: "T n = Some (Running v) \<Longrightarrow> send_round old n v w = Some (Leave iRet, v1, w1) \<Longrightarrow>
     send_leave v1 w1 = Some (v', w') \<Longrightarrow> server_step hf rtcp (w, T) (w', T(n \<mapsto> Waiting))"
| Task_end: "T n = Some Waiting \<Longrightarrow> get_stream w n = Some s \<Longrightarrow> send_may_end s \<Longrightarrow> send_teardown n w = Some w' \<Longrightarrow>
     server_step hf rtcp (w, T) (w', T(n := None))"

inductive_cases server_stepE
  [consumes 1, case_names Arrive Connection Reply Media Broken Request Rtcp_timer Rtcp_recv Task_start Task_round Task_leave Task_end]:
  "server_step hf rtcp (w, T) (w', T')"

abbreviation server_steps ::
  "(bytes \<Rightarrow> u32) \<Rightarrow> bool \<Rightarrow> stream_world \<times> tasks \<Rightarrow> stream_world \<times> tasks \<Rightarrow> bool" where
  "server_steps hf rtcp \<equiv> (server_step hf rtcp)\<^sup>*\<^sup>*"

section \<open>The invariant\<close>

lemma server_start_ok: "len \<noteq> 0 \<Longrightarrow> server_ok hf (server_start len) Map.empty"
  using stream_create_ok [of len hf]
  by (simp add: server_ok_def server_start_def table_ok_def get_stream_def stream_table_create_def own_clients_def
      own_queues_def own_blocks_def task_block_def)

lemma arrive_server:
  assumes ok: "server_ok hf w T" and v: "bevs w b = Some v"
  shows "server_ok hf (w\<lparr>bevs := (bevs w)(b \<mapsto> v\<lparr>bv_input := i\<rparr>)\<rparr>) T"
proof -
  obtain s where s: "get_stream w (bv_arg v) = Some s" using server_parts(3) [OF ok v] by blast
  show ?thesis
    by (rule shape_step [OF ok s, of _ s]) (use v put_stream_id [OF s] in \<open>auto simp: same_bevs_def\<close>)
qed

lemma request_server:
  assumes "server_ok hf w T" "stream_request_key s \<noteq> None" "get_stream w (pa_stream e) = None" "clients (cw w) (pa_client e) = None"
    "\<And>b. na_bev (pa_connect e) = Some b \<Longrightarrow> bevs w b = None" "stream_read_cb hf rtcp e s w = Some w'"
  shows "server_ok hf w' T"
  using assms play_request_server [OF assms(1-5)] stop_request_server [OF assms(1)]
  by (cases "sn_enumCmdType s") (auto simp: stream_read_cb_def)

lemma server_step_ok:
  assumes "server_step hf rtcp (w, T) (w', T')" and ok: "server_ok hf w T"
  shows "server_ok hf w' T'"
  using assms(1)
proof (cases rule: server_stepE)
  case (Arrive b v d)
  then show ?thesis using arrive_server [OF ok] by simp
next
  case (Connection b v m res ev)
  then show ?thesis
    using connect_ok_server [OF ok, of b v "bv_arg v" ev m] connect_fail_server [OF ok, of b v "bv_arg v" ev m res]
    by (cases "connected ev") auto
next
  case (Reply b v e)
  then show ?thesis using recv_cmd_server [OF ok, of b v "bv_arg v" e] by simp
next
  case (Media b v e)
  then show ?thesis using recv_stream_cb_server [OF ok, of b v "bv_arg v" e] by simp
next
  case (Broken b v)
  then show ?thesis using recv_stream_err_server [OF ok, of b v "bv_arg v"] by auto
next
  case (Request s e)
  then show ?thesis using request_server [OF ok, of s e] by simp
next
  case (Rtcp_timer ev a c)
  then show ?thesis using udp_send_rtcp_server [OF ok] by simp
next
  case (Rtcp_recv iWhich a c)
  then show ?thesis using udp_rtcp_recv_server [OF ok] by simp
next
  case (Task_start n m v)
  then show ?thesis using task_start_server [OF ok, of n m v] by simp
next
  case (Task_round n v old v')
  then show ?thesis using task_round_server [OF ok, of n v] by simp
next
  case (Task_leave n v old iRet v1 w1 v')
  then show ?thesis using task_leave_server [OF ok, of n v old iRet v1 w1] by auto
next
  case (Task_end n s)
  then show ?thesis using task_end_server [OF ok, of n s] by auto
qed

lemma server_steps_ok:
  assumes "server_steps hf rtcp p p'" and "server_ok hf (fst p) (snd p)"
  shows "server_ok hf (fst p') (snd p')"
  using assms
proof (induction rule: rtranclp_induct)
  case (step y z)
  then show ?case using server_step_ok [of hf rtcp "fst y" "snd y" "fst z" "snd z"] by simp
qed

lemma reachable_ok: "len \<noteq> 0 \<Longrightarrow> server_steps hf rtcp (server_start len, Map.empty) (w, T) \<Longrightarrow> server_ok hf w T"
  using server_steps_ok [of hf rtcp "(server_start len, Map.empty)" "(w, T)"] server_start_ok by simp

end
