(* ===== verification/StreamSafe.thy ===== *)
theory StreamSafe
  imports StreamLife
begin

text \<open>
  What holds in every state the stream side of the server can reach.
\<close>

section \<open>Soundness\<close>

text \<open>
  C1. The streams stay sound. Whatever the order of callbacks, requests, RTCP events and rounds of the send tasks
  from the start of the server on: every stream that is allocated is on the chain of its key and findable there; its clients are
  distinct and allocated, and so are its receive buffer, its queue, the frames in the queue and the scratch buffer
  of its task; no two streams share any of them; every live socket belongs to a live stream that names it, with the
  callback that fits what the stream has; and the flags of a stream agree with the state of its task in the pool.
\<close>

theorem streams_stay_sound:
  assumes "len \<noteq> 0" and "server_steps hf rtcp (server_start len, Map.empty) (w, T)"
  shows "server_ok hf w T"
  by (rule reachable_ok [OF assms])

section \<open>Errors\<close>

lemma server_errors:
  assumes ok: "server_ok hf w T" and v: "bevs w b = Some v"
  shows "recv_stream_err_cb b (bv_arg v) w \<noteq> None" "recv_stream_fail b (bv_arg v) w \<noteq> None"
    "bv_event v = Some Connect_event_cb \<Longrightarrow> \<not> connected ev \<Longrightarrow> connect_event_cb m res ev b (bv_arg v) w \<noteq> None"
    "bv_read v = Some Recv_cmd_from_hbserver \<Longrightarrow> cmd_fail b (bv_arg v) w \<noteq> None"
proof -
  obtain s where s: "get_stream w (bv_arg v) = Some s" "bev_ok s b v" using server_parts(3) [OF ok v] by blast
  show "recv_stream_err_cb b (bv_arg v) w \<noteq> None" using recv_stream_err_server [OF ok v refl] by auto
  show "recv_stream_fail b (bv_arg v) w \<noteq> None" using recv_stream_fail_server [OF ok v refl] by auto
  show "connect_event_cb m res ev b (bv_arg v) w \<noteq> None" if "bv_event v = Some Connect_event_cb" "\<not> connected ev"
    using connect_fail_server [OF ok v refl that, of m res] by auto
  show "cmd_fail b (bv_arg v) w \<noteq> None" if "bv_read v = Some Recv_cmd_from_hbserver"
    using cmd_fail_server [OF ok v refl s(1)] s(2) that by (auto simp: bev_ok_def)
qed

text \<open>
  C29. No error path touches freed memory. In every state that can be reached, whichever live socket breaks, whichever
  connection fails, whichever request is refused, wherever the receiver gives up, and whichever send task is let go: the
  handler runs to its end, with no access to a node, client, queue, frame or socket that was freed before, and no
  double free.
\<close>

theorem error_paths_run:
  assumes "len \<noteq> 0" and "server_steps hf rtcp (server_start len, Map.empty) (w, T)"
  shows "(\<forall>b v ev m res. bevs w b = Some v \<longrightarrow> recv_stream_err_cb b (bv_arg v) w \<noteq> None \<and>
      recv_stream_fail b (bv_arg v) w \<noteq> None \<and>
      (bv_event v = Some Connect_event_cb \<and> \<not> connected ev \<longrightarrow> connect_event_cb m res ev b (bv_arg v) w \<noteq> None) \<and>
      (bv_read v = Some Recv_cmd_from_hbserver \<longrightarrow> cmd_fail b (bv_arg v) w \<noteq> None)) \<and>
    (\<forall>n. T n = Some Waiting \<longrightarrow> (\<exists>s. get_stream w n = Some s \<and> (send_may_end s \<longrightarrow> send_teardown n w \<noteq> None)))"
proof -
  have ok: "server_ok hf w T" by (rule reachable_ok [OF assms])
  have "\<exists>s. get_stream w n = Some s \<and> (send_may_end s \<longrightarrow> send_teardown n w \<noteq> None)" if t: "T n = Some Waiting" for n
  proof -
    obtain s where s: "get_stream w n = Some s" using task_flags [OF ok t] by blast
    then show ?thesis using task_end_server [OF ok t s] by (intro exI [of _ s]) auto
  qed
  then show ?thesis using server_errors [OF ok] by blast
qed

section \<open>Release\<close>

lemma wind_up_waiting:
  assumes ok: "server_ok hf w T" and s: "get_stream w n = Some s" and f: "uGetStreamThreadStartFlag s = 2" and t: "T n = Some Waiting"
  shows "\<exists>w' T'. server_step hf rtcp (w, T) (w', T') \<and> get_stream w' n = None"
proof -
  have may: "send_may_end s" using f by (simp add: send_may_end_def)
  obtain w' where "send_teardown n w = Some w'" "get_stream w' n = None" using task_end_server [OF ok t s may] by blast
  then show ?thesis using server_step.Task_end [where T = T and n = n, OF t s may] by blast
qed

lemma wind_up_running:
  assumes ok: "server_ok hf w T" and s: "get_stream w n = Some s" and f: "uGetStreamThreadStartFlag s = 2" and t: "T n = Some (Running v)"
  shows "\<exists>w' T'. (server_step hf rtcp ^^ 2) (w, T) (w', T') \<and> get_stream w' n = None"
proof -
  have r: "send_round blank_old n v w = Some (Leave (-101), v, w)" using s f by (simp add: send_round_def)
  obtain v' w1 where l: "send_leave v w = Some (v', w1)" "server_ok hf w1 (T(n \<mapsto> Waiting))" "get_stream w1 = get_stream w"
    using task_leave_server [OF ok t r] by blast
  obtain w' T' where "server_step hf rtcp (w1, T(n \<mapsto> Waiting)) (w', T')" "get_stream w' n = None"
    using wind_up_waiting [OF l(2) _ f] l(3) s by fastforce
  moreover have "server_step hf rtcp (w, T) (w1, T(n \<mapsto> Waiting))" by (rule server_step.Task_leave [where T = T and n = n, OF t r l(1)])
  ultimately show ?thesis by (auto simp: numeral_2_eq_2)
qed

lemma wind_up:
  assumes ok: "server_ok hf w T" and s: "get_stream w n = Some s" and f: "uGetStreamThreadStartFlag s = 2"
  shows "\<exists>k w' T'. k \<le> 3 \<and> (server_step hf rtcp ^^ k) (w, T) (w', T') \<and> get_stream w' n = None"
proof -
  have "T n \<noteq> None" using server_parts(2) [OF ok s] f by (auto simp: local_ok_def flags_ok_def)
  then obtain ph where t: "T n = Some ph" by blast
  show ?thesis
  proof (cases ph)
    case Queued
    obtain v where v: "send_task_start None w = (v, w)" by (simp add: send_task_start_def)
    have st: "server_step hf rtcp (w, T) (w, T(n \<mapsto> Running v))" by (rule server_step.Task_start [OF _ _ v]) (use t Queued in simp_all)
    have "server_ok hf w (T(n \<mapsto> Running v))" by (rule task_start_server [OF ok _ _ v]) (use t Queued in simp_all)
    then obtain w' T' where "(server_step hf rtcp ^^ 2) (w, T(n \<mapsto> Running v)) (w', T')" "get_stream w' n = None"
      using wind_up_running [OF _ s f] by fastforce
    then have "(server_step hf rtcp ^^ Suc 2) (w, T) (w', T')" using st by (blast intro: relpowp_Suc_I2)
    then show ?thesis using \<open>get_stream w' n = None\<close> by (intro exI [of _ "Suc 2"]) auto
  next
    case (Running v)
    then show ?thesis using wind_up_running [OF ok s f] t by (intro exI [of _ 2]) simp
  next
    case Waiting
    obtain w' T' where "server_step hf rtcp (w, T) (w', T')" "get_stream w' n = None"
      using wind_up_waiting [OF ok s f] t Waiting by blast
    then show ?thesis by (intro exI [of _ 1] exI [of _ w'] exI [of _ T']) (simp only: relpowp_1, simp)
  qed
qed


section \<open>Phases\<close>


section \<open>The pool refuses\<close>

text \<open>
  When the pool refuses the task. On a sound server, if \<open>stpool_task_set_p\<close> fails at the first key frame, the receiver
  frees the node of the stream but neither takes it off its chain nor frees the socket: the next callback of the socket
  and the next search of the chain are given a node that was freed.
\<close>

theorem refused_task_dangles:
  assumes "server_ok hf w T" and "bevs w b = Some v" and "get_stream w (bv_arg v) = Some s"
    and "uRtpClientNodeSendDataThreadFlag s = 0" and "\<not> ra_task_set_ok e"
  shows "\<exists>w'. start_send_task e (bv_arg v) w = Some (False, w') \<and> get_stream w' (bv_arg v) = None \<and> bevs w' b = Some v \<and>
    bv_arg v \<in> set (listStreamNodeHead (table w') ! unat (uStreamNodeHashValue s)) \<and>
    recv_stream_err_cb b (bv_arg v) w' = None"
proof -
  let ?n = "bv_arg v" and ?h = "uStreamNodeHashValue s"
  have l: "local_ok w T ?n s" by (rule server_parts(2) [OF assms(1,3)])
  have tab: "table_ok hf (table w)" by (rule server_parts(1) [OF assms(1)])
  then have sok: "stream_ok hf (table w)" by (simp add: table_ok_def)
  have nd: "stream_nodes (table w) ?n = Some s" using assms(3) by (simp add: get_stream_def)
  then obtain k where k: "stream_node_key (table w) ?n = Some k" "streams hf (table w) k = Some ?n"
    using tab by (auto simp: table_ok_def)
  have c: "chains_ok (stream_node_key (table w)) (\<lambda>k. unat (stream_bucket hf (table w) k)) (listStreamNodeHead (table w))"
    using sok by (simp add: stream_ok_def)
  have on: "?n \<in> set (listStreamNodeHead (table w) ! unat ?h)"
    using k(2) unfolding streams_def chains_map_Some [OF c stream_bucket_range [OF sok]] stream_ok_hash [OF sok nd k(1)] by simp
  let ?w1 = "lock_stream ?h w"
  have ok1: "get_stream ?w1 ?n = Some s" "clients_ok (listClientNodeHead s) (cw ?w1)"
    using l assms(3) by (simp_all add: lock_stream_def local_ok_def clients_ok_def)
  let ?s = "s\<lparr>listClientNodeHead := []\<rparr>"
  let ?w2 = "put_stream ?n ?s (?w1\<lparr>cw := freed_clients (listClientNodeHead s) (cw ?w1)\<rparr>)"
  note d = destroy_clients_eq [OF ok1]
  have p2: "get_stream ?w2 ?n = Some ?s" "queue_ok ?w2 ?s" "blocks_ok ?w2 ?s"
    using l by (simp_all add: local_ok_def lock_stream_def)
  obtain w3 w4 w5 w6 where r: "clear_rtp_data_from_queue (queueStreamData ?s) ?w2 = Some w3" "queue_destroy ?n w3 = Some w4"
    "free_source ?n w4 = Some w5" "free_stream ?n w5 = Some w6" "table w6 = forget ?n ?w2" "bevs w6 = bevs ?w2"
    using rest_gone [OF p2] by blast
  have all: "start_send_task e ?n w = Some (False, unlock_stream ?h w6)"
    using assms(3,5) d r(1-4) by (simp add: start_send_task_def Let_def)
  have gone: "get_stream (unlock_stream ?h w6) ?n = None" and tab6: "listStreamNodeHead (table w6) = listStreamNodeHead (table w)"
    using r(5) by (simp_all add: unlock_stream_def lock_stream_def get_stream_def forget_def put_stream_def)
  have bev: "bevs (unlock_stream ?h w6) b = Some v" using r(6) assms(2) by (simp add: unlock_stream_def lock_stream_def)
  have "recv_stream_err_cb b ?n (unlock_stream ?h w6) = None"
    using bev gone by (simp add: recv_stream_err_cb_def free_bev_def)
  then show ?thesis using all gone bev on tab6 by (intro exI [of _ "unlock_stream ?h w6"]) (simp add: unlock_stream_def)
qed

end
