(* ===== verification/StreamUse.thy ===== *)
theory StreamUse
  imports StreamSafe
begin

text \<open>
  The stream side at work: the five ends of a stream, a client asked for and stopped, a message of the media server
  queued, an RTCP report. The theory ends with a small server, brought to life with the hash function the program
  chooses, on which the properties of \<open>StreamSafe\<close> are seen to apply.
\<close>

section \<open>The five ends\<close>

text \<open>
  C4. Each of the five places that end a stream gives all of it back. On a sound table and a sound stream the end of the send
  task, the two error paths of the receiver, the refused request and the failed connection all run to their
  end; afterwards the node is off its chain and freed, and so are its clients, its receive buffer, its queue and the
  frames that were in it, and nothing else.
\<close>

theorem every_end_releases:
  assumes "table_ok hf (table w)" and "sound_stream w n s" and "bevs w b \<noteq> None"
  shows "(n \<in> pool w \<longrightarrow> (\<exists>w'. send_teardown n w = Some w' \<and> torn_down n s w w' \<and> pool w' = pool w - {n})) \<and>
    (uRtpClientNodeSendDataThreadFlag s = 0 \<longrightarrow>
       (\<exists>w'. recv_stream_fail b n w = Some w' \<and> torn_down n s w w' \<and> bevs w' = (bevs w)(b := None)) \<and>
       (\<exists>w'. recv_stream_err_cb b n w = Some w' \<and> torn_down n s w w' \<and> bevs w' = (bevs w)(b := None))) \<and>
    (queueStreamData s = None \<longrightarrow> (\<exists>w'. cmd_fail b n w = Some w' \<and> torn_down n s w w' \<and> bevs w' = (bevs w)(b := None))) \<and>
    (queueStreamData s = None \<and> hGetStreamFromSource s = None \<and> \<not> connected ev \<longrightarrow>
       (\<exists>w'. connect_event_cb m res ev b n w = Some w' \<and> torn_down n s w w' \<and> bevs w' = (bevs w)(b := None)))"
proof (intro conjI impI)
  show "\<exists>w'. send_teardown n w = Some w' \<and> torn_down n s w w' \<and> pool w' = pool w - {n}" if "n \<in> pool w"
    using send_teardown_gone [OF assms(1,2) that] by blast
  show "\<exists>w'. recv_stream_fail b n w = Some w' \<and> torn_down n s w w' \<and> bevs w' = (bevs w)(b := None)"
    "\<exists>w'. recv_stream_err_cb b n w = Some w' \<and> torn_down n s w w' \<and> bevs w' = (bevs w)(b := None)"
    if "uRtpClientNodeSendDataThreadFlag s = 0"
    using recv_stream_fail_gone [OF assms that] recv_stream_err_gone [OF assms that] by blast+
  show "\<exists>w'. cmd_fail b n w = Some w' \<and> torn_down n s w w' \<and> bevs w' = (bevs w)(b := None)" if "queueStreamData s = None"
    using cmd_fail_gone [OF assms that] by blast
  show "\<exists>w'. connect_event_cb m res ev b n w = Some w' \<and> torn_down n s w w' \<and> bevs w' = (bevs w)(b := None)"
    if "queueStreamData s = None \<and> hGetStreamFromSource s = None \<and> \<not> connected ev"
    using connect_fail_gone [OF assms conjunct1 [OF that] conjunct1 [OF conjunct2 [OF that]] conjunct2 [OF conjunct2 [OF that]], of m res]
    by blast
qed

section \<open>Play, then stop\<close>

lemma seek_chain_append:
  "seek_chain p (xs @ ys) = Option.bind (seek_chain p xs) (\<lambda>r. case r of None \<Rightarrow> seek_chain p ys | Some x \<Rightarrow> Some (Some x))"
  by (induction xs) (auto split: bind_splits)

lemma seek_chain_found: "seek_chain p xs = Some (Some x) \<Longrightarrow> x \<in> set xs \<and> p x = Some True"
  by (induction xs) (auto split: bind_splits if_splits)

lemma seek_chain_cong: "(\<And>x. x \<in> set xs \<Longrightarrow> p x = q x) \<Longrightarrow> seek_chain p xs = seek_chain q xs"
  by (induction xs) (auto split: bind_split)

lemma find_client_cong:
  assumes "listClientNodeHead nd' = listClientNodeHead nd" "\<And>a. a \<in> set (listClientNodeHead nd) \<Longrightarrow> clients w' a = clients w a"
  shows "find_client_node nd' w' cid = find_client_node nd w cid"
proof (cases "c_str cid")
  case (Some i)
  have "seek_chain (find_client_node_key w' i) (listClientNodeHead nd) = seek_chain (find_client_node_key w i) (listClientNodeHead nd)"
    by (rule seek_chain_cong) (simp add: find_client_node_key_def assms(2))
  then show ?thesis using Some assms(1) by (simp add: find_client_node_def)
qed (simp add: find_client_node_def)

text \<open>The node that a request is given has the key of the request.\<close>

lemma insert_key:
  assumes sok: "stream_ok hf t" and key: "stream_request_key s = Some k" and free: "stream_nodes t a = None"
    and ins: "insert_node_to_stream_hash_table t (stream_bucket hf t k) s a = Some (n, t')"
  shows "streams hf t' k = Some n"
proof (cases "streams hf t k")
  case None
  then show ?thesis using stream_insert_new [OF sok key None free] ins by auto
next
  case (Some m)
  then show ?thesis using stream_chain_ok [OF sok, of k] stream_seek [OF sok key] ins
    by (simp add: insert_node_to_stream_hash_table_def)
qed

lemma streams_key: "stream_ok hf t \<Longrightarrow> streams hf t k = Some n \<Longrightarrow> stream_node_key t n = Some k"
  using stream_bucket_range [of hf t k] unfolding streams_def
  by (subst (asm) chains_map_Some) (auto simp: stream_ok_def)

lemma table_key: "table_ok hf t \<Longrightarrow> stream_node_key t n = Some k \<Longrightarrow> streams hf t k = Some n"
  by (auto simp: table_ok_def stream_node_key_def split: bind_splits)

text \<open>The connection leaves key and clients alone.\<close>

lemma connect_keeps:
  assumes "play_rtsp_video_from_hbserver e n w = Some (r, w')" and "get_stream w n = Some s"
  shows "\<exists>s'. get_stream w' n = Some s' \<and> listClientNodeHead s' = listClientNodeHead s \<and>
    stream_node_key (table w') n = stream_node_key (table w) n \<and> clients (cw w') = clients (cw w)"
  using assms
  by (auto simp: play_rtsp_video_from_hbserver_def give_up_def free_bev_def set_callbacks_def Let_def stream_node_key_def
      get_stream_def put_stream_def split: if_splits bind_splits option.splits)

text \<open>After the play request its client can be found at its stream.\<close>

lemma play_request_found:
  assumes ok: "server_ok hf w T" and key: "stream_request_key s = Some k" and len: "length (sn_cCallId s) \<le> 32"
    and fresh: "get_stream w (pa_stream e) = None" "clients (cw w) (pa_client e) = None"
    and w': "play_request hf rtcp e s w = Some w'"
  shows "\<exists>n nd a. get_stream w' n = Some nd \<and> stream_node_key (table w') n = Some k \<and>
    find_client_node nd (cw w') (sn_cCallId s) = Some (Some a)"
proof -
  have sok: "stream_ok hf (table w)" using server_parts(1) [OF ok] by (simp add: table_ok_def)
  let ?h = "stream_bucket hf (table w) k"
  have h: "request_bucket hf (table w) s = Some ?h" by (rule request_bucket_ok [OF sok key])
  let ?w0 = "lock_stream ?h w"
  have ok0: "server_ok hf ?w0 T" using ok by (simp add: lock_stream_def note_server)
  obtain n t where ins: "insert_node_to_stream_hash_table (table w) ?h s (pa_stream e) = Some (n, t)"
    using w' h by (auto simp: play_request_def Let_def lock_stream_def split: bind_splits)
  let ?w1 = "?w0\<lparr>table := t\<rparr>"
  have tb: "table ?w0 = table w" and new: "get_stream ?w0 (pa_stream e) = None" using fresh(1) by (simp_all add: lock_stream_def)
  note i1 = insert_server [OF ok0 key new, unfolded tb, OF ins]
  have free: "stream_nodes (table w) (pa_stream e) = None" using fresh(1) by (simp add: get_stream_def)
  have nk: "stream_node_key t n = Some k"
    using streams_key [OF _ insert_key [OF sok key free ins]] server_parts(1) [OF i1(1)] by (simp add: table_ok_def)
  obtain nd where nd: "get_stream ?w1 n = Some nd" using i1(2) by blast
  obtain found where found: "find_client_node nd (cw ?w1) (sn_cCallId s) = Some found"
    using w' h ins nd by (auto simp: play_request_def Let_def lock_stream_def split: bind_splits)
  let ?add = "\<lambda>c. put_stream n (nd\<lparr>listClientNodeHead := la_append (listClientNodeHead nd) (pa_client e)\<rparr>)
    (?w1\<lparr>cw := put_client (pa_client e) c (cw ?w1)\<rparr>)"
  have put_note: "put_stream n x (note_effect ev y) = note_effect ev (put_stream n x y)" for x ev y
    by (simp add: put_stream_def note_effect_def)
  have "\<exists>w2 r w3 nd2 a. get_stream w2 n = Some nd2 \<and> stream_node_key (table w2) n = Some k \<and>
      find_client_node nd2 (cw w2) (sn_cCallId s) = Some (Some a) \<and>
      play_rtsp_video_from_hbserver (pa_connect e) n w2 = Some (r, w3) \<and> w' = unlock_stream ?h w3"
  proof (cases found)
    case (Some x)
    then obtain r w3 where "play_rtsp_video_from_hbserver (pa_connect e) n ?w1 = Some (r, w3)" "w' = unlock_stream ?h w3"
      using w' h ins nd found by (auto simp: play_request_def Let_def lock_stream_def split: bind_splits)
    then show ?thesis using nd nk found Some by (intro exI [of _ ?w1] exI [of _ r] exI [of _ w3] exI [of _ nd] exI [of _ x]) simp
  next
    case None
    obtain c where c: "new_client rtcp (pa_event e) s = Some c"
      using w' h ins nd found None by (auto simp: play_request_def Let_def lock_stream_def split: bind_splits)
    let ?nd = "nd\<lparr>listClientNodeHead := la_append (listClientNodeHead nd) (pa_client e)\<rparr>"
    obtain i where i: "c_str (sn_cCallId s) = Some i" using found by (auto simp: find_client_node_def split: bind_splits)
    have old: "clients (cw ?w1) a \<noteq> None" if "a \<in> set (listClientNodeHead nd)" for a
      using server_parts(2) [OF i1(1) nd] that by (auto simp: local_ok_def clients_ok_def)
    have out: "pa_client e \<notin> set (listClientNodeHead nd)" using old [of "pa_client e"] fresh(2) by (auto simp: lock_stream_def)
    have cid: "c_str (cCallId c) = Some i"
      using c c_str_strncpy [OF i len] by (auto simp: new_client_def Let_def split: bind_splits)
    have seek: "find_client_node ?nd (cw (?add c)) (sn_cCallId s) = Some (Some (pa_client e))"
    proof -
      have "seek_chain (find_client_node_key (cw (?add c)) i) (listClientNodeHead nd) =
          seek_chain (find_client_node_key (cw ?w1) i) (listClientNodeHead nd)"
        by (rule seek_chain_cong) (use out in \<open>auto simp: find_client_node_key_def put_client_def\<close>)
      then have "seek_chain (find_client_node_key (cw (?add c)) i) (listClientNodeHead nd) = Some None"
        using found None i by (simp add: find_client_node_def)
      then show ?thesis
        using i cid by (simp add: find_client_node_def la_append_def seek_chain_append find_client_node_key_def put_client_def)
    qed
    have nk2: "stream_node_key (table (?add c)) n = Some k"
      using nk nd by (simp add: stream_node_key_def put_stream_def get_stream_def)
    show ?thesis
    proof (cases rtcp)
      case True
      then obtain ev r w3 where ev: "pa_event e = Some ev"
        "play_rtsp_video_from_hbserver (pa_connect e) n (note_effect (Event_add ev RTCP_SEND_TIMER) (?add c)) = Some (r, w3)"
        "w' = unlock_stream ?h w3"
        using w' h ins nd found None c by (auto simp: play_request_def Let_def put_note lock_stream_def split: bind_splits)
      have "find_client_node ?nd (cw (note_effect (Event_add ev RTCP_SEND_TIMER) (?add c))) (sn_cCallId s) = Some (Some (pa_client e))"
        by (subst find_client_cong [where nd = ?nd and w = "cw (?add c)"]) (use seek in \<open>simp_all add: emit_def\<close>)
      then show ?thesis using ev nk2
        by (intro exI [of _ "note_effect (Event_add ev RTCP_SEND_TIMER) (?add c)"] exI [of _ r] exI [of _ w3] exI [of _ ?nd]
            exI [of _ "pa_client e"]) simp
    next
      case False
      then obtain r w3 where "play_rtsp_video_from_hbserver (pa_connect e) n (?add c) = Some (r, w3)" "w' = unlock_stream ?h w3"
        using w' h ins nd found None c by (auto simp: play_request_def Let_def lock_stream_def split: bind_splits)
      then show ?thesis using seek nk2
        by (intro exI [of _ "?add c"] exI [of _ r] exI [of _ w3] exI [of _ ?nd] exI [of _ "pa_client e"]) simp
    qed
  qed
  then obtain w2 r w3 nd2 a where w2: "get_stream w2 n = Some nd2" "stream_node_key (table w2) n = Some k"
    "find_client_node nd2 (cw w2) (sn_cCallId s) = Some (Some a)"
    "play_rtsp_video_from_hbserver (pa_connect e) n w2 = Some (r, w3)" "w' = unlock_stream ?h w3" by blast
  obtain nd3 where nd3: "get_stream w3 n = Some nd3" "listClientNodeHead nd3 = listClientNodeHead nd2"
    "stream_node_key (table w3) n = Some k" "clients (cw w3) = clients (cw w2)"
    using connect_keeps [OF w2(4,1)] w2(2) by auto
  have "find_client_node nd3 (cw w') (sn_cCallId s) = Some (Some a)"
    using find_client_cong [of nd3 nd2 "cw w'" "cw w2"] nd3 w2(3,5) by (simp add: unlock_stream_def)
  then show ?thesis using nd3 w2(5) by (auto simp: unlock_stream_def)
qed


text \<open>A stop request whose client can be found at its stream marks that client.\<close>

lemma stop_served:
  assumes ok: "server_ok hf w T" and key: "stream_request_key s = Some k" and n: "get_stream w n = Some nd"
    "stream_node_key (table w) n = Some k" "find_client_node nd (cw w) (sn_cCallId s) = Some (Some a)"
  shows "\<exists>c w'. stop_request hf s w = Some w' \<and> a \<in> set (listClientNodeHead nd) \<and> clients (cw w) a = Some c \<and>
    c_str (cCallId c) = c_str (sn_cCallId s) \<and> clients (cw w') = (clients (cw w))(a \<mapsto> c\<lparr>iDeleteFlag := 1\<rparr>) \<and> table w' = table w"
proof -
  have tab: "table_ok hf (table w)" and sok: "stream_ok hf (table w)"
    using server_parts(1) [OF ok] by (simp_all add: table_ok_def)
  have str: "streams hf (table w) k = Some n" by (rule table_key [OF tab n(2)])
  let ?h = "stream_bucket hf (table w) k"
  have h: "request_bucket hf (table w) s = Some ?h" by (rule request_bucket_ok [OF sok key])
  have f: "find_node_from_stream_hash_table (table w) ?h s = Some (Some n)"
    using stream_chain_ok [OF sok, of k] stream_seek [OF sok key] str by (simp add: find_node_from_stream_hash_table_def)
  obtain i where i: "c_str (sn_cCallId s) = Some i" "seek_chain (find_client_node_key (cw w) i) (listClientNodeHead nd) = Some (Some a)"
    using n(3) by (auto simp: find_client_node_def split: bind_splits)
  then have a: "a \<in> set (listClientNodeHead nd)" "find_client_node_key (cw w) i a = Some True"
    using seek_chain_found [OF i(2)] by simp_all
  then obtain c where c: "clients (cw w) a = Some c" "c_str (cCallId c) = Some i"
    by (auto simp: find_client_node_key_def split: bind_splits)
  let ?w0 = "lock_stream ?h w"
  have f2: "find_client_node nd (cw ?w0) (sn_cCallId s) = Some (Some a)"
    by (subst find_client_cong [where nd = nd and w = "cw w"]) (use n(3) in \<open>simp_all add: lock_stream_def\<close>)
  let ?w2 = "unlock_stream ?h (?w0\<lparr>cw := put_client a (c\<lparr>iDeleteFlag := 1\<rparr>) (cw ?w0)\<rparr>)"
  have "stop_request hf s w = Some ?w2"
    using h f n(1) f2 c(1) by (simp add: stop_request_def Let_def lock_stream_def)
  then show ?thesis
    using a(1) c i(1) by (intro exI [of _ c] exI [of _ ?w2]) (simp add: unlock_stream_def lock_stream_def)
qed


section \<open>A message of the media server\<close>

text \<open>
  C22. A media message becomes one frame of the queue. When the last block of a message lies in the socket, the blocks before it in the
  receive buffer, the stream has clients, a running task and room in its queue, the callback puts exactly one unit at
  the end of the queue: a fresh block that holds the head (the type and time of the last block, the length of the
  whole) and the message; the receive buffer counts as empty again and what follows stays in the socket.
\<close>

theorem media_message_queued:
  assumes "get_stream w n = Some s" and "listClientNodeHead s \<noteq> []" and "uRtpClientNodeSendDataThreadFlag s = 1"
    and "bevs w b = Some v" and "bv_input v = NET_LAYER_bytes l @ d @ rest"
    and "s32_fields l" "iActLength l = int (28 + length d)" "byBlockEndFlag l \<noteq> 0" "byDataType l = 13"
    and "hGetStreamFromSource s = Some src" "blocks w src = Some buf" "iRecvStreamDataLen s = int k"
    and "k + length d \<le> length buf" "length buf < 2 ^ 31"
    and "queueStreamData s = Some q" "queues w q = Some f" "lf_ok f" "max_unit_num f = 512" "length (lf_content f) < 512"
    and "ra_malloc e = Some a" "blocks w a = None"
  shows "\<exists>w' f'. recv_stream_cb e b n w = Some w' \<and> queues w' = (queues w)(q \<mapsto> f') \<and> lf_ok f' \<and>
    lf_content f' = lf_content f @ [\<lparr>qa_iDataPreBufSize = pre_size (int (k + length d)),
      qa_iDataLen = int (k + length d) + 32, qa_pDataBuf = Some a\<rparr>] \<and>
    blocks w' a = Some (frame_block (ra_junk e) (frame_head l (int (k + length d))) (take k buf @ d)) \<and>
    get_stream w' n = Some (s\<lparr>iRecvStreamDataLen := 0\<rparr>) \<and> bevs w' = (bevs w)(b \<mapsto> v\<lparr>bv_input := rest\<rparr>)"
proof -
  let ?len = "int (k + length d)" and ?buf = "take k buf @ d @ drop (k + length d) buf"
  have "k + length d < 2 ^ 31" using assms(13,14) by linarith
  then have "recv_blocks (bv_input v) buf (int k) = Some (Some l, rest, ?buf, ?len)"
    using recv_blocks_one [OF assms(6,7), of k rest buf] assms(5,8,13) by (simp add: mem_write_def)
  then have t: "take_blocks b n w = Some (Some l, put_stream n (s\<lparr>iRecvStreamDataLen := ?len\<rparr>)
      (w\<lparr>bevs := (bevs w)(b \<mapsto> v\<lparr>bv_input := rest\<rparr>), blocks := (blocks w)(src \<mapsto> ?buf)\<rparr>))"
    using assms(1,4,10,11,12) by (simp add: take_blocks_def source_data_def put_source_def)
  let ?s = "s\<lparr>iRecvStreamDataLen := ?len\<rparr>"
  let ?w = "put_stream n ?s (w\<lparr>bevs := (bevs w)(b \<mapsto> v\<lparr>bv_input := rest\<rparr>), blocks := (blocks w)(src \<mapsto> ?buf)\<rparr>)"
  have ql: "queue_len (queueStreamData ?s) ?w = Some (int (length (lf_content f)))"
    using assms(15,16,17) queue_len_Some [of ?w q f] by simp
  have other: "a \<noteq> src" using assms(11,21) by auto
  let ?d = "\<lparr>qa_iDataPreBufSize = pre_size ?len, qa_iDataLen = ?len + 32, qa_pDataBuf = Some a\<rparr>"
  let ?blk = "frame_block (ra_junk e) (frame_head l ?len) (take k buf @ d)"
  let ?w1 = "?w\<lparr>blocks := (blocks ?w)(a \<mapsto> ?blk)\<rparr>"
  have f1: "queues ?w1 q = Some f" "int (length (lf_content f)) < max_unit_num f" using assms(16,18,19) by simp_all
  obtain f' where f': "queue_push ?d (Some q) ?w1 = Some (0, ?w1\<lparr>queues := (queues ?w1)(q \<mapsto> f')\<rparr>)" "lf_ok f'"
    "lf_content f' = lf_content f @ [?d]"
    using queue_push_room [OF f1(1) assms(17) f1(2), of ?d] by blast
  have hd: "cmd_length (frame_head l x) = x" for x by (simp add: frame_head_def box_cmd_zero_def Let_def)
  have rd: "mem_read ?buf 0 (k + length d) = Some (take k buf @ d)" using assms(13) by (simp add: mem_read_def)
  let ?w2 = "put_stream n (s\<lparr>iRecvStreamDataLen := 0\<rparr>) (?w1\<lparr>queues := (queues ?w1)(q \<mapsto> f')\<rparr>)"
  have nat: "nat (int k + int (length d)) = k + length d" by simp
  have "queue_frame e n l ?w = Some ?w2"
    using assms(10,15,20) hd rd f'(1) other nat by (simp add: queue_frame_def Let_def)
  then have "recv_stream_cb e b n w = Some ?w2"
    using t assms(2,3,9,19) ql by (simp add: recv_stream_cb_def la_size_def)
  then show ?thesis
    using f' other by (intro exI [of _ ?w2] exI [of _ f']) simp
qed

section \<open>The RTCP report\<close>

text \<open>
  What a receiver reads of a compound packet: the version, the type, the length in words less one, and the SSRC that follows
  the head of a sender report and of a source description alike.
\<close>

function rtcp_compound :: "bytes \<Rightarrow> (u8 \<times> u32) list option" where
  "rtcp_compound p =
     (if p = [] then Some []
      else if length p < 8 \<or> drop_bit 6 (p ! 0) \<noteq> 2 then None
      else let n = 4 * (be_val (take 2 (drop 2 p)) + 1)
        in if n < 8 \<or> length p < n then None
           else map_option (Cons (p ! 1, word_of_nat (be_val (take 4 (drop 4 p))))) (rtcp_compound (drop n p)))"
  by pat_completeness auto
termination by (relation "measure length") auto

declare rtcp_compound.simps [simp del]

text \<open>
  The RTCP timer sends a report. For a client that has got a key frame the timer sends one datagram of 52 bytes to the
  client's RTCP address, a compound of a sender report and a source description, both with the client's SSRC; the
  first time it also starts to listen for the answer, for 20 seconds.
\<close>

theorem rtcp_report:
  assumes "clients w a = Some c" and "iSendIframeFlag c = 1"
    and "evUdpRtcpListenEvent (stUdpVideoInfo c) = None \<longrightarrow> evUdpSendRtcpEvent (stUdpVideoInfo c) \<noteq> None \<and> ev = Some h"
  shows "\<exists>w' pkt. udp_send_rtcp_timer ev a w = Some w' \<and> length pkt = 52 \<and>
    rtcp_compound pkt = Some [(200, u32Ssrc c), (202, u32Ssrc c)] \<and>
    trace w' = trace w @ Sendto (iUdpRtcpSockFd (stUdpVideoInfo c)) pkt (rtcp_peer (stUdpVideoInfo c)) #
      (if evUdpRtcpListenEvent (stUdpVideoInfo c) = None then [Event_add h 20] else []) \<and>
    (\<exists>c'. clients w' = (clients w)(a \<mapsto> c') \<and> evUdpRtcpListenEvent (stUdpVideoInfo c') \<noteq> None)"
proof -
  let ?u = "u32Ssrc c" and ?v = "stUdpVideoInfo c"
  let ?b1 = "sr_bytes ?u @ replicate 484 0" and ?p = "sr_bytes ?u @ sdes_bytes ?u @ [0, 0]"
  have sr: "rtcp_sr_pack c (replicate 512 0) 0 512 = Some (28, ?b1)"
    by (subst rtcp_sr_pack_bytes) (simp_all add: mem_write_def)
  have sdes: "rtcp_sdes_pack c ?b1 28 484 = Some (24, sr_bytes ?u @ sdes_bytes ?u @ replicate 462 0)"
    by (subst rtcp_sdes_pack_bytes) (simp_all add: mem_write_def)
  have r462: "replicate 462 (0 :: u8) = [0, 0] @ replicate 460 0" by (simp add: numeral_eq_Suc)
  have rd: "mem_read (sr_bytes ?u @ sdes_bytes ?u @ replicate 462 0) 0 52 = Some ?p"
    unfolding r462 by (simp add: mem_read_def)
  have second: "rtcp_compound (sdes_bytes ?u @ [0, 0]) = Some [(202, ?u)]"
    by (subst rtcp_compound.simps, subst rtcp_compound.simps) (simp add: sdes_bytes_def sdes_cname_def Let_def)
  have both: "rtcp_compound ?p = Some [(200, ?u), (202, ?u)]"
    by (subst rtcp_compound.simps) (simp add: second sr_bytes_def Let_def)
  have len: "length ?p = 52" by simp
  let ?w = "emit (Sendto (iUdpRtcpSockFd ?v) ?p (rtcp_peer ?v)) w"
  show ?thesis
  proof (cases "evUdpRtcpListenEvent ?v")
    case None
    then obtain b where b: "evUdpSendRtcpEvent ?v = Some b" "ev = Some h" using assms(3) by auto
    let ?c = "c\<lparr>stUdpVideoInfo := ?v\<lparr>evUdpRtcpListenEvent := ev\<rparr>\<rparr>"
    let ?w' = "emit (Event_add h RTCP_RECV_TIMEOUT) (put_client a ?c ?w)"
    have "udp_send_rtcp_timer ev a w = Some ?w'"
      using assms(1,2) sr sdes rd None b by (simp add: udp_send_rtcp_timer_def Let_def)
    then show ?thesis
      using None b both len
      by (intro exI [of _ ?w'] exI [of _ ?p]) (simp add: emit_def put_client_def RTCP_RECV_TIMEOUT_def, intro exI [of _ ?c], simp)
  next
    case (Some x)
    have "udp_send_rtcp_timer ev a w = Some ?w"
      using assms(1,2) sr sdes rd Some by (simp add: udp_send_rtcp_timer_def Let_def)
    then show ?thesis
      using Some both len assms(1)
      by (intro exI [of _ ?w] exI [of _ ?p]) (simp add: emit_def, intro exI [of _ c], simp add: fun_upd_idem)
  qed
qed


theorem rtcp_report_witness:
  "\<exists>w' pkt. udp_send_rtcp_timer (Some 9) 5 \<lparr>clients = [5 \<mapsto> client_zero\<lparr>iSendIframeFlag := 1,
      stUdpVideoInfo := (stUdpVideoInfo client_zero)\<lparr>evUdpSendRtcpEvent := Some 8\<rparr>\<rparr>], trace = []\<rparr> = Some w' \<and>
    rtcp_compound pkt = Some [(200, 0), (202, 0)] \<and> trace w' = [Sendto 0 pkt (0, 0), Event_add 9 20]"
proof -
  let ?c = "client_zero\<lparr>iSendIframeFlag := 1, stUdpVideoInfo := (stUdpVideoInfo client_zero)\<lparr>evUdpSendRtcpEvent := Some 8\<rparr>\<rparr>"
  have "clients \<lparr>clients = [5 \<mapsto> ?c], trace = []\<rparr> 5 = Some ?c" "iSendIframeFlag ?c = 1"
    "evUdpRtcpListenEvent (stUdpVideoInfo ?c) = None \<longrightarrow> evUdpSendRtcpEvent (stUdpVideoInfo ?c) \<noteq> None \<and> Some 9 = Some (9 :: nat)"
    by simp_all
  from rtcp_report [OF this] show ?thesis by (auto simp: client_zero_def)
qed

definition media_head :: NET_LAYER where
  "media_head = (net_layer0 0 0 13)\<lparr>iActLength := 31, byFrameType := 1, byBlockEndFlag := 1\<rparr>"

definition media_world :: "QUEUE_ARGS lf_queue \<Rightarrow> stream_world" where
  "media_world f =
     \<lparr>table = \<lparr>uStreamHashTableLen = 4, listStreamNodeHead = [[1], [], [], []],
        stream_nodes = [1 \<mapsto> stream_node_zero\<lparr>listClientNodeHead := [5], uRtpClientNodeSendDataThreadFlag := 1,
          hGetStreamFromSource := Some 2, queueStreamData := Some 3\<rparr>]\<rparr>,
      cw = \<lparr>clients = [5 \<mapsto> client_zero], trace = []\<rparr>, queues = [3 \<mapsto> f], blocks = [2 \<mapsto> replicate 64 0],
      bevs = [4 \<mapsto> \<lparr>bv_input = NET_LAYER_bytes media_head @ [7, 8, 9] @ [], bv_read = Some Recv_stream_cb,
        bv_event = Some Recv_stream_err_cb, bv_arg = 1\<rparr>], pool = {1}\<rparr>"

theorem media_message_queued_witness:
  "\<exists>f w' f'. recv_stream_cb \<lparr>ra_task_set_ok = True, ra_malloc = Some 6, ra_junk = \<lambda>_. 0\<rparr> 4 1 (media_world f) = Some w' \<and>
    queues w' 3 = Some f' \<and> map qa_pDataBuf (lf_content f') = [Some 6] \<and>
    blocks w' 6 = Some (frame_block (\<lambda>_. 0) (frame_head media_head (int (0 + length [7, 8, 9 :: u8]))) (take 0 (replicate 64 0) @ [7, 8, 9]))"
proof -
  have "\<exists>q. nolock_queue_init queue_args_zero New_memory 16 512 = Some (0, Some q) \<and> lf_ok q \<and> lf_content q = [] \<and>
      max_unit_num q = 512" by (rule init_lf) (simp_all add: INT32_MAX_def)
  then obtain f :: "QUEUE_ARGS lf_queue" where f: "lf_ok f" "lf_content f = []" "max_unit_num f = 512" by blast
  let ?s = "stream_node_zero\<lparr>listClientNodeHead := [5], uRtpClientNodeSendDataThreadFlag := 1, hGetStreamFromSource := Some 2,
    queueStreamData := Some 3\<rparr>"
  let ?v = "\<lparr>bv_input = NET_LAYER_bytes media_head @ [7, 8, 9] @ [], bv_read = Some Recv_stream_cb,
        bv_event = Some Recv_stream_err_cb, bv_arg = 1\<rparr>"
  let ?e = "\<lparr>ra_task_set_ok = True, ra_malloc = Some 6, ra_junk = \<lambda>_. 0 :: u8\<rparr>"
  have m: "get_stream (media_world f) 1 = Some ?s" "listClientNodeHead ?s \<noteq> []" "uRtpClientNodeSendDataThreadFlag ?s = 1"
    "bevs (media_world f) 4 = Some ?v" "bv_input ?v = NET_LAYER_bytes media_head @ [7, 8, 9] @ []"
    "s32_fields media_head" "iActLength media_head = int (28 + length [7, 8, 9 :: u8])" "byBlockEndFlag media_head \<noteq> 0"
    "byDataType media_head = 13" "hGetStreamFromSource ?s = Some 2" "blocks (media_world f) 2 = Some (replicate 64 0)"
    "iRecvStreamDataLen ?s = int 0" "0 + length [7, 8, 9 :: u8] \<le> length (replicate 64 (0 :: u8))"
    "length (replicate 64 (0 :: u8)) < 2 ^ 31" "queueStreamData ?s = Some 3" "queues (media_world f) 3 = Some f"
    by (simp_all add: media_world_def get_stream_def stream_node_zero_def media_head_def net_layer0_def s32_fields_def s32_small)
  have r: "length (lf_content f) < 512" "ra_malloc ?e = Some 6" "blocks (media_world f) 6 = None"
    using f by (simp_all add: media_world_def)
  obtain w' f' where "recv_stream_cb ?e 4 1 (media_world f) = Some w'" "queues w' = (queues (media_world f))(3 \<mapsto> f')"
    "lf_content f' = lf_content f @ [\<lparr>qa_iDataPreBufSize = pre_size (int (0 + length [7, 8, 9 :: u8])),
      qa_iDataLen = int (0 + length [7, 8, 9 :: u8]) + 32, qa_pDataBuf = Some 6\<rparr>]"
    "blocks w' 6 = Some (frame_block (ra_junk ?e) (frame_head media_head (int (0 + length [7, 8, 9 :: u8]))) (take 0 (replicate 64 0) @ [7, 8, 9]))"
    using media_message_queued [OF m f(1,3) r] by blast
  then show ?thesis using f(2) by (intro exI [of _ f] exI [of _ w'] exI [of _ f']) simp
qed

section \<open>A small server\<close>

definition demo_request :: SIP_NODE where
  "demo_request = sip_node_zero\<lparr>sn_enumCmdType := PLAY\<rparr>"

definition demo_answers :: play_answers where
  "demo_answers = \<lparr>pa_stream = 1, pa_client = 2, pa_event = None,
     pa_connect = \<lparr>na_bev = Some 3, na_enable = True, na_connect = True\<rparr>\<rparr>"

text \<open>After the play request; and after the connection.\<close>

definition demo_played :: stream_world where
  "demo_played = the (play_request BKDR_hash False demo_answers demo_request (server_start 4))"

definition demo_connected :: stream_world where
  "demo_connected = the (connect_event_cb None (0, 0) 0x80 3 1 demo_played)"

lemma demo_played_Some: "play_request BKDR_hash False demo_answers demo_request (server_start 4) = Some demo_played"
proof -
  have "Option.is_none (play_request BKDR_hash False demo_answers demo_request (server_start 4)) = False" by code_simp
  then show ?thesis by (simp add: demo_played_def Option.is_none_def)
qed

lemma demo_connected_Some: "connect_event_cb None (0, 0) 0x80 3 1 demo_played = Some demo_connected"
proof -
  have "Option.is_none (connect_event_cb None (0, 0) 0x80 3 1 demo_played) = False" by code_simp
  then show ?thesis by (simp add: demo_connected_def Option.is_none_def)
qed

lemma demo_bevs:
  "bevs demo_played 3 = Some \<lparr>bv_input = [], bv_read = None, bv_event = Some Connect_event_cb, bv_arg = 1\<rparr>"
  "bevs demo_connected 3 = Some \<lparr>bv_input = [], bv_read = Some Recv_cmd_from_hbserver, bv_event = Some Recv_stream_err_cb, bv_arg = 1\<rparr>"
  by code_simp+

lemma demo_fresh:
  "stream_request_key demo_request = Some ([], 0, 0)" "get_stream (server_start 4) 1 = None"
  "clients (cw (server_start 4)) 2 = None" "bevs (server_start 4) b = None" "length (sn_cCallId demo_request) \<le> 32"
  by (simp_all add: stream_request_key_def demo_request_def sip_node_zero_def c_str_def server_start_def get_stream_def
      stream_table_create_def)

lemma demo_steps:
  "server_step BKDR_hash False (server_start 4, Map.empty) (demo_played, Map.empty)"
  "server_steps BKDR_hash False (server_start 4, Map.empty) (demo_played, Map.empty)"
  "server_steps BKDR_hash False (server_start 4, Map.empty) (demo_connected, Map.empty)"
proof -
  have "stream_read_cb BKDR_hash False demo_answers demo_request (server_start 4) = Some demo_played"
    using demo_played_Some by (simp add: stream_read_cb_def demo_request_def)
  then show p: "server_step BKDR_hash False (server_start 4, Map.empty) (demo_played, Map.empty)"
    by (intro server_step.Request [of demo_request _ demo_answers])
       (use demo_fresh in \<open>simp_all add: demo_answers_def\<close>)
  then show ps: "server_steps BKDR_hash False (server_start 4, Map.empty) (demo_played, Map.empty)" by blast
  have "server_step BKDR_hash False (demo_played, Map.empty) (demo_connected, Map.empty)"
    by (rule server_step.Connection [OF demo_bevs(1), where m = None and res = "(0, 0)" and ev = "0x80"])
       (use demo_connected_Some in simp_all)
  then show "server_steps BKDR_hash False (server_start 4, Map.empty) (demo_connected, Map.empty)" using ps by simp
qed

lemma demo_stream:
  obtains s where "get_stream demo_played 1 = Some s" "uRtpClientNodeSendDataThreadFlag s = 0" "queueStreamData s = None"
    "hGetStreamFromSource s = None"
proof -
  have "map_option (\<lambda>s. (uRtpClientNodeSendDataThreadFlag s, queueStreamData s, hGetStreamFromSource s)) (get_stream demo_played 1) =
      Some (0, None, None)" by code_simp
  then show thesis using that by auto
qed


theorem every_end_releases_witness:
  "\<exists>s w'. get_stream demo_played 1 = Some s \<and> recv_stream_err_cb 3 1 demo_played = Some w' \<and> torn_down 1 s demo_played w'"
proof -
  have ok: "server_ok BKDR_hash demo_played Map.empty" by (rule reachable_ok [OF _ demo_steps(2)]) simp
  obtain s where s: "get_stream demo_played 1 = Some s" "uRtpClientNodeSendDataThreadFlag s = 0" by (rule demo_stream)
  have b: "bevs demo_played 3 \<noteq> None" by (simp add: demo_bevs)
  show ?thesis using every_end_releases [OF server_parts(1) [OF ok] sound_local [OF ok s(1)] b] s by blast
qed

theorem streams_stay_sound_witness:
  "server_steps BKDR_hash False (server_start 4, Map.empty) (demo_connected, Map.empty) \<and>
   server_ok BKDR_hash demo_connected Map.empty"
  using streams_stay_sound [OF _ demo_steps(3)] demo_steps(3) by simp

theorem error_paths_run_witness:
  "recv_stream_err_cb 3 1 demo_connected \<noteq> None \<and> cmd_fail 3 1 demo_connected \<noteq> None"
proof -
  have len: "(4 :: u32) \<noteq> 0" by simp
  show ?thesis
    using conjunct1 [OF error_paths_run [OF len demo_steps(3)],
      rule_format (no_asm), of 3 "\<lparr>bv_input = [], bv_read = Some Recv_cmd_from_hbserver, bv_event = Some Recv_stream_err_cb, bv_arg = 1\<rparr>"]
    by (simp add: demo_bevs)
qed



theorem refused_task_dangles_witness:
  "\<exists>w'. start_send_task \<lparr>ra_task_set_ok = False, ra_malloc = None, ra_junk = \<lambda>_. 0\<rparr> 1 demo_played = Some (False, w') \<and>
    get_stream w' 1 = None \<and> bevs w' 3 \<noteq> None \<and> recv_stream_err_cb 3 1 w' = None"
proof -
  have ok: "server_ok BKDR_hash demo_played Map.empty" by (rule reachable_ok [OF _ demo_steps(2)]) simp
  obtain s where s: "get_stream demo_played 1 = Some s" "uRtpClientNodeSendDataThreadFlag s = 0" by (rule demo_stream)
  show ?thesis
    using refused_task_dangles [OF ok demo_bevs(1), of s "\<lparr>ra_task_set_ok = False, ra_malloc = None, ra_junk = \<lambda>_. 0\<rparr>"] s
    by auto
qed

end
