(* ===== verification/Config.thy ===== *)
theory Config
  imports CString RtpPack
begin

text \<open>
  \<open>src/common/config_opt.c\<close> and \<open>get_server_config\<close> of \<open>src/main.c\<close>: the configuration file. A file that
  is open is its bytes, the position and the end-of-file flag, which a read sets only when it wants more than there is.
\<close>

section \<open>Reading lines\<close>

record FILE =
  file_data :: bytes
  file_pos :: nat
  file_eof :: bool

definition fseek0 :: "FILE \<Rightarrow> FILE" where
  "fseek0 f = f\<lparr>file_pos := 0, file_eof := False\<rparr>"

text \<open>
  The characters that \<open>fgets\<close> takes: at most \<open>n\<close>, up to the end of the line, which it keeps, or to the end of
  the file; the flag tells whether it came there.
\<close>

fun fgets_take :: "nat \<Rightarrow> bytes \<Rightarrow> bytes \<times> bool" where
  "fgets_take 0 s = ([], False)"
| "fgets_take (Suc n) [] = ([], True)"
| "fgets_take (Suc n) (c # cs) =
     (if c = 0x0A then ([c], False) else (case fgets_take n cs of (l, e) \<Rightarrow> (c # l, e)))"

definition LINE_SIZE :: nat where "LINE_SIZE = 256"

text \<open>
  \<open>memset(cContentLine, 0, 256); fgets(cContentLine, 256, fp);\<close> and the string that the array then holds: a
  NUL in the file ends it, and it is empty when nothing was read.
\<close>

definition read_line :: "FILE \<Rightarrow> bytes \<times> FILE" where
  "read_line f =
     (let (l, e) = fgets_take (LINE_SIZE - 1) (drop (file_pos f) (file_data f))
      in (takeWhile (\<lambda>c. c \<noteq> 0) l, f\<lparr>file_pos := file_pos f + length l, file_eof := e\<rparr>))"

text \<open>What \<open>s[i]\<close> gives for a string in a zeroed array.\<close>

definition char_at :: "bytes \<Rightarrow> nat \<Rightarrow> u8" where
  "char_at s i = (if i < length s then s ! i else 0)"

definition tolower :: "u8 \<Rightarrow> u8" where
  "tolower c = (if 0x41 \<le> c \<and> c \<le> 0x5A then c + 0x20 else c)"

text \<open>\<open>strncasecmp(a, b, n) == 0\<close>.\<close>

fun strncasecmp_eq :: "nat \<Rightarrow> bytes \<Rightarrow> bytes \<Rightarrow> bool" where
  "strncasecmp_eq 0 a b = True"
| "strncasecmp_eq (Suc n) a b =
     (tolower (char_at a 0) = tolower (char_at b 0) \<and> (char_at a 0 = 0 \<or> strncasecmp_eq n (tl a) (tl b)))"

text \<open>The bytes a loop has before it: the flag counts as one, since the round that sets it may read nothing.\<close>

definition file_left :: "FILE \<Rightarrow> nat" where
  "file_left f = length (drop (file_pos f) (file_data f)) + (if file_eof f then 0 else 1)"

lemma fgets_take_length: "fgets_take n s = (l, e) \<Longrightarrow> length l \<le> length s \<and> (0 < n \<and> \<not> e \<longrightarrow> 0 < length l)"
  by (induction n s arbitrary: l e rule: fgets_take.induct) (auto split: if_splits prod.splits)

lemma read_line_left:
  assumes "\<not> file_eof f" and "read_line f = (s, f')"
  shows "file_left f' < file_left f"
proof -
  obtain l e where l: "fgets_take (LINE_SIZE - 1) (drop (file_pos f) (file_data f)) = (l, e)" by fastforce
  have "0 < LINE_SIZE - 1" by (simp add: LINE_SIZE_def)
  then have "length l \<le> length (drop (file_pos f) (file_data f)) \<and> (\<not> e \<longrightarrow> 0 < length l)"
    using fgets_take_length [OF l] by blast
  then have "length (drop (file_pos f + length l) (file_data f)) + (if e then 0 else 1) < file_left f"
    using assms(1) by (cases e; cases l) (simp_all add: file_left_def)
  then show ?thesis using assms(2) l by (auto simp: read_line_def file_left_def)
qed

section \<open>get_string_content_value\<close>

text \<open>Behind the key: blanks up to the \<open>=\<close>. The position where the loop ends.\<close>

function scan_equals :: "bytes \<Rightarrow> nat \<Rightarrow> nat" where
  "scan_equals s pos =
     (if pos \<le> length s
      then if char_at s pos = 0x20 then scan_equals s (pos + 1)
           else if char_at s pos = 0x3D then pos
           else length s + 1
      else pos)"
  by pat_completeness auto
termination
  by (relation "measure (\<lambda>(s, pos). Suc (length s) - pos)") auto

declare scan_equals.simps [simp del]

text \<open>The value behind the \<open>=\<close>, up to the end of the line; no value when there is no \<open>=\<close>.\<close>

definition value_behind :: "bytes \<Rightarrow> nat \<Rightarrow> bytes option" where
  "value_behind s k =
     (let pos = scan_equals s k + 1
      in if pos > length s then None
         else Some (takeWhile (\<lambda>c. c \<noteq> 0x0D \<and> c \<noteq> 0x0A) (drop pos s)))"

text \<open>The lines of the section: the first that has the key and a value, or none.\<close>

function key_lines :: "bytes \<Rightarrow> FILE \<Rightarrow> bytes option \<times> FILE" where
  "key_lines key f =
     (if file_eof f then (None, f)
      else case read_line f of (s, f) \<Rightarrow>
        if char_at s 0 = 0x3B then key_lines key f
        else if strncasecmp_eq (length key) key s
        then (case value_behind s (length key) of None \<Rightarrow> key_lines key f | Some v \<Rightarrow> (Some v, f))
        else if char_at s 0 = 0x5B then (None, f)
        else key_lines key f)"
  by pat_completeness auto
termination
  by (relation "measure (\<lambda>(key, f). file_left f)") (auto dest: read_line_left [OF _ sym])

function section_lines :: "bytes \<Rightarrow> bytes \<Rightarrow> FILE \<Rightarrow> bytes option \<times> FILE" where
  "section_lines sec key f =
     (if file_eof f then (None, f)
      else case read_line f of (s, f) \<Rightarrow>
        if char_at s 0 = 0x3B \<or> char_at s 0 = 0x0D \<or> char_at s 0 = 0x0A \<or> char_at s 0 = 0 then section_lines sec key f
        else if strncasecmp_eq (length sec) sec s then key_lines key f
        else section_lines sec key f)"
  by pat_completeness auto
termination
  by (relation "measure (\<lambda>(sec, key, f). file_left f)") (auto dest: read_line_left [OF _ sym])

declare key_lines.simps [simp del] section_lines.simps [simp del]

text \<open>
  The names go into arrays of 100 bytes without a check; \<open>strncpy\<close> writes one byte less than the size, which is
  unsigned: a size of zero wraps.
\<close>

definition get_string_content_value :: "FILE \<Rightarrow> bytes \<Rightarrow> bytes \<Rightarrow> bytes \<Rightarrow> u32 \<Rightarrow> (bytes \<times> FILE) option" where
  "get_string_content_value f pSectionName pKeyName pOutput u32OutputSize =
     (let sec = 0x5B # pSectionName @ [0x5D]
      in if length sec + 1 > 100 \<or> length pKeyName + 1 > 100 then None
         else case section_lines sec pKeyName f of
           (None, f) \<Rightarrow> Some (pOutput, f)
         | (Some v, f) \<Rightarrow> map_option (\<lambda>out. (out, f)) (mem_write pOutput 0 (strncpy (unat (u32OutputSize - 1)) v)))"

text \<open>A pointer is null when it is \<open>None\<close>; a name is a string. The default is copied with \<open>strcpy\<close>.\<close>

definition get_string_value ::
  "FILE option \<Rightarrow> bytes option \<Rightarrow> bytes option \<Rightarrow> bytes option \<Rightarrow> bytes option \<Rightarrow> u32 \<Rightarrow> (bytes option \<times> FILE option) option" where
  "get_string_value fp pSectionName pKeyName pDefaultVal pOutput u32OutputSize =
     (case (fp, pSectionName, pKeyName, pOutput) of
        (Some f, Some sec, Some key, Some out) \<Rightarrow> do {
          out \<leftarrow> mem_write out 0 ((case pDefaultVal of None \<Rightarrow> [] | Some d \<Rightarrow> d) @ [0]);
          (out, f) \<leftarrow> get_string_content_value (fseek0 f) sec key out u32OutputSize;
          Some (Some out, Some f)
        }
      | _ \<Rightarrow> Some (pOutput, fp))"

definition get_int_value :: "FILE option \<Rightarrow> bytes option \<Rightarrow> bytes option \<Rightarrow> u32 \<Rightarrow> (int \<times> FILE option) option" where
  "get_int_value fp pSectionName pKeyName u32DefaultVal =
     (if pSectionName = None \<or> pKeyName = None then Some (-1, fp)
      else do {
        (v, fp) \<leftarrow> get_string_value fp pSectionName pKeyName None (Some (replicate 512 0)) 512;
        cGetValue \<leftarrow> v;
        s \<leftarrow> c_str cGetValue;
        Some (if char_at s 0 = 0 \<or> char_at s 0 = 0x3B then sint u32DefaultVal else sint (atoi s), fp)
      })"

section \<open>get_server_config\<close>

record GLOBLE_ARGS =
  iGbListenPort :: int
  iUseRtcpFlag :: int
  cLocalIp :: bytes
  cNetworkCardName :: bytes
  iMaxConnections :: int

text \<open>The global, which the program loader has zeroed.\<close>

definition glGlobleArgs0 :: GLOBLE_ARGS where
  "glGlobleArgs0 = \<lparr>iGbListenPort = 0, iUseRtcpFlag = 0, cLocalIp = replicate 16 0, cNetworkCardName = replicate 32 0,
     iMaxConnections = 0\<rparr>"

text \<open>\<open>fopen\<close>: the file's bytes, or none when it cannot be opened.\<close>

definition open_config_file :: "bytes option \<Rightarrow> FILE option" where
  "open_config_file file = map_option (\<lambda>d. \<lparr>file_data = d, file_pos = 0, file_eof = False\<rparr>) file"

definition get_server_config :: "bytes option \<Rightarrow> GLOBLE_ARGS \<Rightarrow> (int \<times> GLOBLE_ARGS) option" where
  "get_server_config file g =
     (let fp = open_config_file file; sec = Some (of_string ''SERVER_CONFIG'')
      in if fp = None then Some (HB_FAILURE, g)
         else do {
           (ip, fp) \<leftarrow> get_string_value fp sec (Some (of_string ''LocalIp'')) None (Some (cLocalIp g)) 16;
           ip \<leftarrow> ip;
           (card, fp) \<leftarrow> get_string_value fp sec (Some (of_string ''ETHX'')) None (Some (cNetworkCardName g)) 32;
           card \<leftarrow> card;
           (port, fp) \<leftarrow> get_int_value fp sec (Some (of_string ''GbListenPort'')) 5060;
           (rtcp, fp) \<leftarrow> get_int_value fp sec (Some (of_string ''UseRtcp'')) 0;
           (most, fp) \<leftarrow> get_int_value fp sec (Some (of_string ''MaxConnections'')) 100;
           Some (HB_SUCCESS, \<lparr>iGbListenPort = port, iUseRtcpFlag = rtcp, cLocalIp = ip, cNetworkCardName = card,
             iMaxConnections = (if most < 1 then 1 else most)\<rparr>)
         })"

end
