(* ===== verification/ConfigSpec.thy ===== *)
theory ConfigSpec
  imports Config
begin

text \<open>
  What the configuration reader makes of a file: for a file in the usual format the value of the first assignment of the
  key in the first section of the name; for any other file at least nothing undefined.
\<close>

section \<open>Configuration files\<close>

text \<open>A line below a section: a comment, an empty line, or a key, blanks, \<open>=\<close> and a value.\<close>

datatype config_item = Comment bytes | Blank | Assign bytes nat bytes

type_synonym config = "(bytes \<times> config_item list) list"

fun print_item :: "config_item \<Rightarrow> bytes" where
  "print_item (Comment c) = 0x3B # c"
| "print_item Blank = []"
| "print_item (Assign k n v) = k @ replicate n 0x20 @ 0x3D # v"

definition print_line :: "bytes \<Rightarrow> bytes" where
  "print_line s = s @ [0x0A]"

definition print_items :: "config_item list \<Rightarrow> bytes" where
  "print_items is = concat (map (\<lambda>i. print_line (print_item i)) is)"

definition print_section :: "bytes \<times> config_item list \<Rightarrow> bytes" where
  "print_section s = print_line (0x5B # fst s @ [0x5D]) @ print_items (snd s)"

definition print_config :: "config \<Rightarrow> bytes" where
  "print_config cfg = concat (map print_section cfg)"

text \<open>What may stand in the lines: each fits the reader's line, and the keys have no character with a meaning.\<close>

definition line_ok :: "bytes \<Rightarrow> bool" where
  "line_ok s \<longleftrightarrow> length s < 255 \<and> 0 \<notin> set s \<and> 0x0A \<notin> set s"

definition key_ok :: "bytes \<Rightarrow> bool" where
  "key_ok k \<longleftrightarrow> k \<noteq> [] \<and> hd k \<noteq> 0x3B \<and> hd k \<noteq> 0x5B \<and> 0 \<notin> set k \<and> 0x0A \<notin> set k \<and>
     0x20 \<notin> set k \<and> 0x3D \<notin> set k"

definition name_ok :: "bytes \<Rightarrow> bool" where
  "name_ok s \<longleftrightarrow> 0 \<notin> set s \<and> 0x5D \<notin> set s"

fun item_ok :: "config_item \<Rightarrow> bool" where
  "item_ok (Assign k n v) \<longleftrightarrow> key_ok k \<and> 0x0D \<notin> set v \<and> line_ok (print_item (Assign k n v))"
| "item_ok i \<longleftrightarrow> line_ok (print_item i)"

definition section_ok :: "bytes \<times> config_item list \<Rightarrow> bool" where
  "section_ok s \<longleftrightarrow> name_ok (fst s) \<and> line_ok (0x5B # fst s @ [0x5D]) \<and> (\<forall>i\<in>set (snd s). item_ok i)"

definition config_ok :: "config \<Rightarrow> bool" where
  "config_ok cfg \<longleftrightarrow> (\<forall>s\<in>set cfg. section_ok s)"

text \<open>The value of a key. Names are compared without regard to case.\<close>

definition same_text :: "bytes \<Rightarrow> bytes \<Rightarrow> bool" where
  "same_text a b \<longleftrightarrow> map tolower a = map tolower b"

fun item_value :: "bytes \<Rightarrow> config_item list \<Rightarrow> bytes option" where
  "item_value key [] = None"
| "item_value key (Assign k n v # is) = (if same_text key k then Some v else item_value key is)"
| "item_value key (i # is) = item_value key is"

fun config_value :: "bytes \<Rightarrow> bytes \<Rightarrow> config \<Rightarrow> bytes option" where
  "config_value sec key [] = None"
| "config_value sec key (s # ss) = (if same_text sec (fst s) then item_value key (snd s) else config_value sec key ss)"

section \<open>Comparing\<close>

lemma tolower_other:
  "c < 0x41 \<or> 0x5A < c \<and> c < 0x61 \<Longrightarrow> tolower d = c \<longleftrightarrow> d = c"
  by (auto simp: tolower_def word_le_nat_alt word_less_nat_alt unat_word_ariths word_unat_eq_iff split: if_splits)

lemma strncasecmp_prefix:
  "0 \<notin> set a \<Longrightarrow> strncasecmp_eq (length a) a b \<longleftrightarrow> length a \<le> length b \<and> same_text a (take (length a) b)"
proof (induction a arbitrary: b)
  case (Cons x a)
  have z: "tolower x = 0 \<longleftrightarrow> x = 0" "tolower 0 = 0" by (simp_all add: tolower_other [of 0])
  show ?case
  proof (cases b)
    case Nil
    then show ?thesis using Cons.prems z by (simp add: char_at_def)
  next
    case (Cons y b')
    then show ?thesis using Cons.IH [of b'] Cons.prems by (auto simp: char_at_def same_text_def)
  qed
qed (simp add: same_text_def)

lemma stop_at:
  assumes "\<forall>c\<in>set xs. P c" "\<forall>c\<in>set ys. P c" "\<not> P x" "\<not> P y" and "xs @ x # r = ys @ y # z"
  shows "xs = ys \<and> x = y \<and> r = z"
proof -
  have "takeWhile P (xs @ x # r) = xs" "takeWhile P (ys @ y # z) = ys"
    using assms(1-4) by (simp_all add: takeWhile_append)
  then have "xs = ys" using assms(5) by simp
  then show ?thesis using assms(5) by simp
qed

lemma same_text_stop:
  assumes "same_text (xs @ [x]) (take (Suc (length xs)) (ys @ x # z))" "Suc (length xs) \<le> length (ys @ x # z)"
    and x: "x < 0x41 \<or> 0x5A < x \<and> x < 0x61" and "x \<notin> set xs" "x \<notin> set ys"
  shows "same_text xs ys"
proof -
  have e: "map tolower (ys @ x # z) = map tolower (xs @ [x]) @ map tolower (drop (Suc (length xs)) (ys @ x # z))"
    using assms(1) unfolding same_text_def by (metis append_take_drop_id map_append)
  have m: "tolower x = x" "\<forall>c\<in>set (map tolower xs). c \<noteq> x" "\<forall>c\<in>set (map tolower ys). c \<noteq> x"
    using tolower_other [OF x] assms(4,5) by auto
  have "map tolower ys = map tolower xs"
    using stop_at [of "map tolower ys" "\<lambda>c. c \<noteq> x" "map tolower xs" x x] m e by simp
  then show ?thesis by (simp add: same_text_def)
qed

lemma section_line_matches:
  assumes "name_ok sec" "name_ok s"
  shows "strncasecmp_eq (length (0x5B # sec @ [0x5D])) (0x5B # sec @ [0x5D]) (print_line (0x5B # s @ [0x5D])) \<longleftrightarrow> same_text sec s"
    (is "?m \<longleftrightarrow> _")
proof -
  have z: "0 \<notin> set (0x5B # sec @ [0x5D])" using assms(1) by (simp add: name_ok_def)
  have m: "?m \<longleftrightarrow> Suc (length sec) \<le> length (s @ [0x5D, 0x0A]) \<and>
      same_text (sec @ [0x5D]) (take (Suc (length sec)) (s @ [0x5D, 0x0A]))"
    by (subst strncasecmp_prefix [OF z]) (simp add: print_line_def same_text_def)
  show ?thesis
  proof
    assume ?m
    then show "same_text sec s"
      using m same_text_stop [of sec "0x5D" s "[0x0A]"] assms by (simp add: name_ok_def)
  next
    assume s: "same_text sec s"
    then have "length s = length sec" unfolding same_text_def by (metis length_map)
    then show ?m using m s by (simp add: same_text_def)
  qed
qed


text \<open>The key against an assignment: what \<open>value_behind\<close> finds.\<close>

lemma scan_equals_blanks:
  "0 \<notin> set k \<Longrightarrow> scan_equals (k @ replicate n 0x20 @ 0x3D # v) (length k) = length k + n"
proof -
  let ?s = "k @ replicate n 0x20 @ 0x3D # v"
  have "m \<le> n \<Longrightarrow> scan_equals ?s (length k + m) = length k + n" for m
  proof (induction m rule: inc_induct)
    case base
    show ?case by (subst scan_equals.simps) (simp add: char_at_def nth_append)
  next
    case (step m)
    have "char_at ?s (length k + m) = 0x20" using step.hyps by (simp add: char_at_def nth_append)
    then show ?case using step by (subst scan_equals.simps) simp
  qed
  from this [of 0] show ?thesis by simp
qed

lemma scan_equals_other:
  "char_at s k \<noteq> 0x20 \<Longrightarrow> char_at s k \<noteq> 0x3D \<Longrightarrow> k \<le> length s \<Longrightarrow> value_behind s k = None"
  by (subst value_behind_def, subst scan_equals.simps) simp

lemma assign_line_value:
  assumes "item_ok (Assign k n v)"
  shows "value_behind (print_line (print_item (Assign k n v))) (length k) = Some v"
proof -
  have e: "print_line (print_item (Assign k n v)) = k @ replicate n 0x20 @ 0x3D # (v @ [0x0A])"
    by (simp add: print_line_def)
  have v: "takeWhile (\<lambda>c. c \<noteq> 0x0D \<and> c \<noteq> 0x0A) (v @ [0x0A]) = v"
    using assms by (subst takeWhile_append2) (auto simp: line_ok_def)
  have "0 \<notin> set k" using assms by (simp add: key_ok_def)
  then show ?thesis unfolding e value_behind_def by (simp add: scan_equals_blanks v)
qed

lemma assign_line_matches:
  assumes key: "key_ok key" and i: "item_ok (Assign k n v)"
    and m: "strncasecmp_eq (length key) key (print_line (print_item (Assign k n v)))"
    and c: "char_at (print_line (print_item (Assign k n v))) (length key) \<in> {0x20, 0x3D}"
  shows "same_text key k"
proof -
  let ?s = "print_line (print_item (Assign k n v))" and ?P = "\<lambda>c :: u8. c \<noteq> 0x20 \<and> c \<noteq> 0x3D"
  have z: "0 \<notin> set key" using key by (simp add: key_ok_def)
  have l: "length key \<le> length ?s" "same_text key (take (length key) ?s)"
    using m strncasecmp_prefix [OF z] by blast+
  have len: "length key < length ?s" using c l(1) by (cases "length key = length ?s") (auto simp: char_at_def)
  obtain x r where x: "replicate n 0x20 @ 0x3D # v @ [0x0A] = x # r" "\<not> ?P x" by (cases n) auto
  have s1: "?s = k @ x # r" using x(1) by (simp add: print_line_def)
  define s where "s = ?s"
  have s: "s = k @ x # r" "s = take (length key) s @ (s ! length key) # drop (Suc (length key)) s"
    unfolding s_def using s1 id_take_nth_drop [OF len] by auto
  have y: "\<not> ?P (s ! length key)" using c len by (simp add: char_at_def s_def)
  have t: "\<forall>c\<in>set (take (length key) s). ?P c"
  proof
    fix c assume "c \<in> set (take (length key) s)"
    then have "tolower c \<in> set (map tolower (take (length key) s))" by auto
    then have "tolower c \<in> set (map tolower key)" using l(2) unfolding same_text_def s_def by simp
    then obtain c' where "tolower c = tolower c'" "c' \<in> set key" by auto
    moreover have "0x20 \<notin> set key" "0x3D \<notin> set key" using key by (simp_all add: key_ok_def)
    moreover have "\<And>x. tolower x = 0x20 \<longleftrightarrow> x = 0x20" "\<And>x. tolower x = 0x3D \<longleftrightarrow> x = 0x3D"
      using tolower_other [of "0x20"] tolower_other [of "0x3D"] by simp_all
    ultimately show "?P c" by metis
  qed
  have k: "\<forall>c\<in>set k. ?P c" using i by (auto simp: key_ok_def)
  have "k @ x # r = take (length key) s @ (s ! length key) # drop (Suc (length key)) s" using s by simp
  from stop_at [OF k t x(2) y this] have "k = take (length key) ?s" unfolding s_def by simp
  then show ?thesis using l(2) by simp
qed

lemma assign_line:
  assumes key: "key_ok key" and i: "item_ok (Assign k n v)"
  shows "(if strncasecmp_eq (length key) key (print_line (print_item (Assign k n v)))
          then value_behind (print_line (print_item (Assign k n v))) (length key) else None) =
         (if same_text key k then Some v else None)"
proof (cases "same_text key k")
  case True
  then have l: "length key = length k" unfolding same_text_def by (metis length_map)
  have z: "0 \<notin> set key" using key by (simp add: key_ok_def)
  have "strncasecmp_eq (length key) key (print_line (print_item (Assign k n v)))"
    by (subst strncasecmp_prefix [OF z]) (use True l in \<open>simp add: print_line_def\<close>)
  then show ?thesis using True assign_line_value [OF i] l by simp
next
  case False
  let ?s = "print_line (print_item (Assign k n v))"
  have z: "0 \<notin> set key" using key by (simp add: key_ok_def)
  have "value_behind ?s (length key) = None" if m: "strncasecmp_eq (length key) key ?s"
    using assign_line_matches [OF key i m] False scan_equals_other [of ?s "length key"] strncasecmp_prefix [OF z] m by blast
  then show ?thesis using False by simp
qed

section \<open>Lines of a file\<close>

lemma fgets_take_line:
  "length s < n \<Longrightarrow> 0x0A \<notin> set s \<Longrightarrow> fgets_take n (s @ 0x0A # r) = (s @ [0x0A], False)"
proof (induction s arbitrary: n)
  case Nil
  then show ?case by (cases n) auto
next
  case (Cons c s)
  then show ?case by (cases n) auto
qed

text \<open>A file that stands before the bytes \<open>r\<close> of the data \<open>d\<close>.\<close>

definition at_rest :: "bytes \<Rightarrow> bytes \<Rightarrow> FILE \<Rightarrow> bool" where
  "at_rest d r f \<longleftrightarrow> file_data f = d \<and> drop (file_pos f) d = r \<and> \<not> file_eof f"

lemma read_ok_line:
  assumes "line_ok s" and "at_rest d (print_line s @ r) f"
  obtains f' where "read_line f = (print_line s, f')" and "at_rest d r f'"
proof
  let ?f = "f\<lparr>file_pos := file_pos f + length (print_line s), file_eof := False\<rparr>"
  have n: "takeWhile (\<lambda>c. c \<noteq> 0) (print_line s) = print_line s"
    using assms(1) by (auto simp: takeWhile_eq_all_conv line_ok_def print_line_def)
  have "fgets_take (LINE_SIZE - 1) (drop (file_pos f) (file_data f)) = (print_line s, False)"
    using fgets_take_line [of s 255 r] assms by (simp add: at_rest_def line_ok_def print_line_def LINE_SIZE_def)
  then show "read_line f = (print_line s, ?f)" by (simp add: read_line_def n)
  have "drop (length (print_line s)) (drop (file_pos f) d) = r"
    using assms(2) by (simp add: at_rest_def del: drop_drop)
  then show "at_rest d r ?f" using assms(2) by (simp add: at_rest_def add.commute)
qed

lemma read_at_end:
  assumes "at_rest d [] f"
  shows "read_line f = ([], f\<lparr>file_eof := True\<rparr>)"
proof -
  have n: "LINE_SIZE - 1 = Suc 254" by (simp add: LINE_SIZE_def)
  have "fgets_take (LINE_SIZE - 1) [] = ([], True)" by (simp only: n fgets_take.simps)
  then show ?thesis using assms by (simp add: read_line_def at_rest_def)
qed


lemma same_first:
  assumes "strncasecmp_eq (length a) a b" and "a \<noteq> []"
  shows "tolower (hd a) = tolower (char_at b 0)"
  using assms by (cases a) (auto simp: char_at_def)

lemma char_at_0 [simp]: "char_at [] i = 0" "char_at (c # s) 0 = c"
  by (simp_all add: char_at_def)

lemma not_key_line:
  assumes "key_ok key" and "c = 0x5B \<or> c = 0x0A \<or> c = 0"
  shows "\<not> strncasecmp_eq (length key) key (if c = 0 then [] else c # s)"
proof -
  have k: "key \<noteq> []" using assms(1) by (simp add: key_ok_def)
  have t: "tolower x = c \<longleftrightarrow> x = c" for x using assms(2) tolower_other [of c x] by auto
  have "hd key \<noteq> c" using assms by (cases key) (auto simp: key_ok_def)
  then have "tolower (hd key) \<noteq> tolower c" using t [of c] t [of "hd key"] by simp
  then show ?thesis using same_first [of key "if c = 0 then [] else c # s"] k by (cases "c = 0") auto
qed

text \<open>What follows the lines of a section: nothing, or the next section.\<close>

definition section_end :: "bytes \<Rightarrow> bool" where
  "section_end r \<longleftrightarrow> r = [] \<or> (\<exists>s r'. r = print_line (0x5B # s) @ r' \<and> line_ok (0x5B # s))"

lemma key_lines_end:
  assumes key: "key_ok key" and r: "section_end r" "at_rest d r f"
  shows "\<exists>f'. key_lines key f = (None, f') \<and> file_data f' = d"
proof (cases "r = []")
  case True
  then have "read_line f = ([], f\<lparr>file_eof := True\<rparr>)" using read_at_end r(2) by simp
  moreover have "key_lines key (f\<lparr>file_eof := True\<rparr>) = (None, f\<lparr>file_eof := True\<rparr>)" by (subst key_lines.simps) simp
  moreover have "\<not> strncasecmp_eq (length key) key []" using not_key_line [OF key, of 0] by simp
  ultimately show ?thesis using r(2) by (subst key_lines.simps) (simp add: at_rest_def)
next
  case False
  then obtain s r' where s: "r = print_line (0x5B # s) @ r'" "line_ok (0x5B # s)" using r(1) by (auto simp: section_end_def)
  obtain f' where f: "read_line f = (print_line (0x5B # s), f')" "at_rest d r' f'"
    using read_ok_line [OF s(2)] r(2) s(1) by blast
  have "\<not> strncasecmp_eq (length key) key (print_line (0x5B # s))"
    using not_key_line [OF key, of "0x5B" "s @ [0x0A]"] by (simp add: print_line_def)
  then show ?thesis using f r(2) by (subst key_lines.simps) (simp add: at_rest_def print_line_def)
qed

lemma key_lines_items:
  assumes key: "key_ok key" and r: "section_end r"
  shows "\<forall>i\<in>set is. item_ok i \<Longrightarrow> at_rest d (print_items is @ r) f \<Longrightarrow>
    \<exists>f'. key_lines key f = (item_value key is, f') \<and> file_data f' = d"
proof (induction "is" arbitrary: f)
  case Nil
  then show ?case using key_lines_end [OF key r] by (simp add: print_items_def)
next
  case (Cons i "is")
  let ?s = "print_line (print_item i)"
  have i: "item_ok i" using Cons.prems(1) by simp
  then have l: "line_ok (print_item i)" by (cases i) auto
  have r: "at_rest d (?s @ print_items is @ r) f" using Cons.prems(2) by (simp add: print_items_def)
  obtain f' where f: "read_line f = (?s, f')" "at_rest d (print_items is @ r) f'"
    by (rule read_ok_line [OF l r])
  obtain f'' where IH: "key_lines key f' = (item_value key is, f'')" "file_data f'' = d" using Cons.IH [OF _ f(2)] Cons.prems(1) by auto
  have e: "\<not> file_eof f" using Cons.prems(2) by (simp add: at_rest_def)
  note step = key_lines.simps [of key f, unfolded f(1)]
  show ?case
  proof (cases i)
    case (Comment c)
    then show ?thesis using step e IH by (simp add: print_line_def)
  next
    case Blank
    have "\<not> strncasecmp_eq (length key) key [0x0A]" using not_key_line [OF key, of "0x0A" "[]"] by simp
    then show ?thesis using step e IH Blank by (simp add: print_line_def)
  next
    case (Assign k n v)
    obtain c k' where k: "k = c # k'" "c \<noteq> 0x3B" "c \<noteq> 0x5B" using i Assign by (cases k) (auto simp: key_ok_def)
    have c: "char_at ?s 0 = c" by (simp add: Assign k(1) print_line_def)
    have "file_data f' = d" using f(2) by (simp add: at_rest_def)
    then show ?thesis
      using step e IH c k(2,3) assign_line [OF key i [unfolded Assign]] unfolding Assign
      by (auto split: if_splits option.splits)
  qed
qed

lemma section_line_other:
  assumes "hd s \<noteq> 0x5B" "s \<noteq> []"
  shows "\<not> strncasecmp_eq (length (0x5B # sec)) (0x5B # sec) s"
proof
  have t: "tolower x = 0x5B \<longleftrightarrow> x = 0x5B" for x by (rule tolower_other) simp
  assume "strncasecmp_eq (length (0x5B # sec)) (0x5B # sec) s"
  then have "tolower 0x5B = tolower (hd s)" using same_first [of "0x5B # sec" s] assms(2) by (cases s) auto
  then show False using t [of "0x5B"] t [of "hd s"] assms(1) by simp
qed

lemma section_lines_skip:
  "\<forall>i\<in>set is. item_ok i \<Longrightarrow> at_rest d (print_items is @ r) f \<Longrightarrow>
    \<exists>f'. section_lines (0x5B # sec) key f = section_lines (0x5B # sec) key f' \<and> at_rest d r f'"
proof (induction "is" arbitrary: f)
  case Nil
  then show ?case by (auto simp: print_items_def)
next
  case (Cons i "is")
  let ?s = "print_line (print_item i)"
  have i: "item_ok i" using Cons.prems(1) by simp
  then have l: "line_ok (print_item i)" by (cases i) auto
  have r: "at_rest d (?s @ print_items is @ r) f" using Cons.prems(2) by (simp add: print_items_def)
  obtain f' where f: "read_line f = (?s, f')" "at_rest d (print_items is @ r) f'"
    by (rule read_ok_line [OF l r])
  have "hd ?s \<noteq> 0x5B" using i by (cases i) (auto simp: print_line_def key_ok_def hd_append)
  moreover have "?s \<noteq> []" by (simp add: print_line_def)
  ultimately have "section_lines (0x5B # sec) key f = section_lines (0x5B # sec) key f'"
    using section_line_other [of ?s sec] Cons.prems(2) f(1)
    by (subst section_lines.simps) (simp del: strncasecmp_eq.simps add: at_rest_def)
  then show ?case using Cons.IH [OF _ f(2)] Cons.prems(1) by auto
qed

lemma print_config_end: "config_ok cfg \<Longrightarrow> section_end (print_config cfg)"
  by (cases cfg) (auto simp: section_end_def print_config_def print_section_def config_ok_def section_ok_def)

lemma section_lines_config:
  assumes key: "key_ok key" and sec: "name_ok sec"
  shows "config_ok cfg \<Longrightarrow> at_rest d (print_config cfg) f \<Longrightarrow>
    \<exists>f'. section_lines (0x5B # sec @ [0x5D]) key f = (config_value sec key cfg, f') \<and> file_data f' = d"
proof (induction cfg arbitrary: f)
  case Nil
  then have r: "read_line f = ([], f\<lparr>file_eof := True\<rparr>)" using read_at_end by (simp add: print_config_def)
  have "section_lines (0x5B # sec @ [0x5D]) key (f\<lparr>file_eof := True\<rparr>) = (None, f\<lparr>file_eof := True\<rparr>)"
    by (subst section_lines.simps) simp
  then show ?case using r Nil(2) by (subst section_lines.simps) (simp add: at_rest_def)
next
  case (Cons s cfg)
  let ?l = "print_line (0x5B # fst s @ [0x5D])"
  have ok: "section_ok s" "config_ok cfg" using Cons.prems(1) by (simp_all add: config_ok_def)
  then have s: "name_ok (fst s)" "line_ok (0x5B # fst s @ [0x5D])" "\<forall>i\<in>set (snd s). item_ok i" by (simp_all add: section_ok_def)
  have r: "at_rest d (?l @ print_items (snd s) @ print_config cfg) f"
    using Cons.prems(2) by (simp add: print_config_def print_section_def)
  obtain f1 where f1: "read_line f = (?l, f1)" "at_rest d (print_items (snd s) @ print_config cfg) f1"
    by (rule read_ok_line [OF s(2) r])
  have e: "\<not> file_eof f" using Cons.prems(2) by (simp add: at_rest_def)
  have c: "char_at ?l 0 = 0x5B" by (simp add: print_line_def)
  note step = section_lines.simps [of "0x5B # sec @ [0x5D]" key f, unfolded f1(1)]
  show ?case
  proof (cases "same_text sec (fst s)")
    case True
    then show ?thesis
      using step e c section_line_matches [OF sec s(1)] key_lines_items [OF key print_config_end [OF ok(2)] s(3) f1(2)]
      by (simp del: strncasecmp_eq.simps)
  next
    case False
    obtain f2 where "section_lines (0x5B # sec @ [0x5D]) key f1 = section_lines (0x5B # sec @ [0x5D]) key f2" "at_rest d (print_config cfg) f2"
      using section_lines_skip [OF s(3) f1(2)] by blast
    then show ?thesis
      using False step e c section_line_matches [OF sec s(1)] Cons.IH [OF ok(2)] by (simp del: strncasecmp_eq.simps)
  qed
qed


section \<open>Reading a value\<close>

lemma at_rest_start: "at_rest d d (fseek0 \<lparr>file_data = d, file_pos = p, file_eof = e\<rparr>)"
  by (simp add: at_rest_def fseek0_def)

lemma c_str_strncpy_nul: "0 \<notin> set v \<Longrightarrow> c_str (strncpy n v @ [0]) = Some (take n v)"
proof -
  assume v: "0 \<notin> set v"
  then have t: "takeWhile (\<lambda>c. c \<noteq> 0) v = v" by (auto simp: takeWhile_eq_all_conv)
  have "strncpy n v @ [0] = take n v @ 0 # replicate (n - length v) 0"
    unfolding strncpy_def t by (simp add: min_def replicate_append_same flip: replicate_Suc)
  moreover have "0 \<notin> set (take n v)" using v by (auto dest: in_set_takeD)
  ultimately show ?thesis by simp
qed

lemma item_value_text: "\<forall>i\<in>set is. item_ok i \<Longrightarrow> item_value key is = Some v \<Longrightarrow> 0 \<notin> set v"
  by (induction key "is" rule: item_value.induct) (auto simp: line_ok_def split: if_splits)

lemma config_value_text: "config_ok cfg \<Longrightarrow> config_value sec key cfg = Some v \<Longrightarrow> 0 \<notin> set v"
  by (induction sec key cfg rule: config_value.induct)
    (auto simp: config_ok_def section_ok_def dest: item_value_text split: if_splits)

text \<open>The text a buffer holds after the call, the default or the value cut to the buffer.\<close>

lemma get_string_value_config:
  assumes cfg: "config_ok cfg" "file_data f = print_config cfg" and key: "key_ok key" "length key < 100"
    and sec: "name_ok sec" "length sec < 98" and out: "length out = Suc n" "n < 2 ^ 32 - 1" "out ! n = 0"
    and d: "length d \<le> n" "0 \<notin> set d"
  shows "\<exists>out' f'. get_string_value (Some f) (Some sec) (Some key) (if dn then None else Some d) (Some out) (word_of_nat (Suc n)) =
      Some (Some out', Some f') \<and> file_data f' = print_config cfg \<and> length out' = Suc n \<and> out' ! n = 0 \<and>
      c_str out' = Some (case config_value sec key cfg of Some v \<Rightarrow> take n v | None \<Rightarrow> if dn then [] else d)"
proof -
  let ?d = "if dn then [] else d"
  let ?o = "?d @ 0 # drop (Suc (length ?d)) out"
  have o: "mem_write out 0 (?d @ [0]) = Some ?o" "length ?o = Suc n" "?o ! n = 0"
    using out(1,3) d(1) by (auto simp: mem_write_def nth_append nth_Cons' )
  have dd: "(case if dn then None else Some d of None \<Rightarrow> [] | Some d \<Rightarrow> d) = ?d" by simp
  have "at_rest (print_config cfg) (print_config cfg) (fseek0 f)" using cfg(2) by (simp add: at_rest_def fseek0_def)
  then obtain f' where f: "section_lines (0x5B # sec @ [0x5D]) key (fseek0 f) = (config_value sec key cfg, f')"
      "file_data f' = print_config cfg"
    using section_lines_config [OF key(1) sec(1) cfg(1)] by blast
  have u: "unat (word_of_nat (Suc n) - 1 :: u32) = n"
    using out(2) by (simp add: unat_of_nat take_bit_eq_mod)
  show ?thesis
  proof (cases "config_value sec key cfg")
    case None
    have "get_string_content_value (fseek0 f) sec key ?o (word_of_nat (Suc n)) = Some (?o, f')"
      using f(1) None key(2) sec(2) by (simp add: get_string_content_value_def Let_def)
    moreover have "c_str ?o = Some ?d" using d(2) by (subst c_str_app) auto
    ultimately show ?thesis using o f(2) None
      by (intro exI [of _ ?o] exI [of _ f']) (simp add: get_string_value_def dd del: append.simps split del: if_split)
  next
    case (Some v)
    let ?w = "strncpy n v @ drop n ?o"
    have "mem_write ?o 0 (strncpy n v) = Some ?w" using o(2) by (simp add: mem_write_def)
    then have "get_string_content_value (fseek0 f) sec key ?o (word_of_nat (Suc n)) = Some (?w, f')"
      using f(1) Some key(2) sec(2) u by (simp add: get_string_content_value_def Let_def)
    moreover have "drop n ?o = [0]" using o(2,3) by (metis Cons_nth_drop_Suc drop_all lessI order_refl)
    moreover have "c_str (strncpy n v @ [0]) = Some (take n v)"
      using config_value_text [OF cfg(1) Some] by (rule c_str_strncpy_nul)
    ultimately show ?thesis using o f(2) Some
      by (intro exI [of _ ?w] exI [of _ f']) (simp add: get_string_value_def dd nth_append)
  qed
qed


text \<open>An \<open>int\<close> setting: the number the value starts with; an empty value or one that starts a comment is none.\<close>

definition int_setting :: "u32 \<Rightarrow> bytes option \<Rightarrow> int" where
  "int_setting d v =
     (case v of None \<Rightarrow> sint d
      | Some t \<Rightarrow> if t = [] \<or> hd t = 0x3B then sint d else sint (atoi (take 511 t)))"

lemma get_int_value_config:
  assumes cfg: "config_ok cfg" "file_data f = print_config cfg" and key: "key_ok key" "length key < 100"
    and sec: "name_ok sec" "length sec < 98"
  shows "\<exists>f'. get_int_value (Some f) (Some sec) (Some key) d = Some (int_setting d (config_value sec key cfg), Some f') \<and>
    file_data f' = print_config cfg"
proof -
  have n: "512 = (word_of_nat (Suc 511) :: u32)" by simp
  obtain out' f' where o: "get_string_value (Some f) (Some sec) (Some key) None (Some (replicate 512 0)) 512 = Some (Some out', Some f')"
      "file_data f' = print_config cfg"
      "c_str out' = Some (case config_value sec key cfg of Some v \<Rightarrow> take 511 v | None \<Rightarrow> [])"
    using get_string_value_config [OF cfg key sec, of "replicate 512 0" 511 "[]" True] by auto
  have z: "0 \<notin> set v" if "config_value sec key cfg = Some v" for v using config_value_text [OF cfg(1) that] .
  show ?thesis
  proof (cases "config_value sec key cfg")
    case None
    then show ?thesis using o by (simp add: get_int_value_def int_setting_def)
  next
    case (Some v)
    then show ?thesis using o z [OF Some] by (cases v) (auto simp: get_int_value_def int_setting_def numeral_eq_Suc)
  qed
qed

section \<open>The server's configuration\<close>

definition setting :: "config \<Rightarrow> string \<Rightarrow> bytes option" where
  "setting cfg key = config_value (of_string ''SERVER_CONFIG'') (of_string key) cfg"

lemma server_names:
  "name_ok (of_string ''SERVER_CONFIG'')" "length (of_string ''SERVER_CONFIG'') < 98"
  "key_ok (of_string ''LocalIp'')" "key_ok (of_string ''ETHX'')" "key_ok (of_string ''GbListenPort'')"
  "key_ok (of_string ''UseRtcp'')" "key_ok (of_string ''MaxConnections'')"
  by (simp_all add: name_ok_def key_ok_def of_string_def)

lemma length_of_string [simp]: "length (of_string s) = length s"
  by (simp add: of_string_def)

text \<open>
  C24. A configuration file is read as it is written. For a file of sections, comments, empty lines and
  assignments, with blanks before the equals sign or not, each setting of the server is the value of the first
  assignment of its key in the first section \<open>SERVER_CONFIG\<close>, names compared without regard to case: the address and the
  card cut to their buffers, the numbers with their defaults, and at least one connection.
\<close>

theorem server_config_loaded:
  assumes "config_ok cfg"
  shows "\<exists>g. get_server_config (Some (print_config cfg)) glGlobleArgs0 = Some (HB_SUCCESS, g) \<and>
    c_str (cLocalIp g) = Some (case setting cfg ''LocalIp'' of Some v \<Rightarrow> take 15 v | None \<Rightarrow> []) \<and>
    c_str (cNetworkCardName g) = Some (case setting cfg ''ETHX'' of Some v \<Rightarrow> take 31 v | None \<Rightarrow> []) \<and>
    iGbListenPort g = int_setting 5060 (setting cfg ''GbListenPort'') \<and>
    iUseRtcpFlag g = int_setting 0 (setting cfg ''UseRtcp'') \<and>
    iMaxConnections g = max 1 (int_setting 100 (setting cfg ''MaxConnections''))"
proof -
  let ?sec = "of_string ''SERVER_CONFIG''" and ?d = "print_config cfg"
  note str = get_string_value_config [OF assms _ _ _ server_names(1,2), where d = "[]" and dn = True, simplified]
  note int = get_int_value_config [OF assms _ _ _ server_names(1,2)]
  obtain ip f1 where 1: "get_string_value (Some \<lparr>file_data = ?d, file_pos = 0, file_eof = False\<rparr>) (Some ?sec)
      (Some (of_string ''LocalIp'')) None (Some (replicate 16 0)) 16 = Some (Some ip, Some f1)" "file_data f1 = ?d"
      "c_str ip = Some (case setting cfg ''LocalIp'' of Some v \<Rightarrow> take 15 v | None \<Rightarrow> [])"
    using str [of "\<lparr>file_data = ?d, file_pos = 0, file_eof = False\<rparr>" "of_string ''LocalIp''" "replicate 16 0" 15] server_names(3) by (auto simp: setting_def)
  obtain card f2 where 2: "get_string_value (Some f1) (Some ?sec) (Some (of_string ''ETHX'')) None (Some (replicate 32 0)) 32 =
      Some (Some card, Some f2)" "file_data f2 = ?d"
      "c_str card = Some (case setting cfg ''ETHX'' of Some v \<Rightarrow> take 31 v | None \<Rightarrow> [])"
    using str [of f1 "of_string ''ETHX''" "replicate 32 0" 31] server_names(4) 1(2) by (auto simp: setting_def)
  obtain f3 where 3: "get_int_value (Some f2) (Some ?sec) (Some (of_string ''GbListenPort'')) 5060 =
      Some (int_setting 5060 (setting cfg ''GbListenPort''), Some f3)" "file_data f3 = ?d"
    using int [OF 2(2) server_names(5)] by (auto simp: setting_def)
  obtain f4 where 4: "get_int_value (Some f3) (Some ?sec) (Some (of_string ''UseRtcp'')) 0 =
      Some (int_setting 0 (setting cfg ''UseRtcp''), Some f4)" "file_data f4 = ?d"
    using int [OF 3(2) server_names(6)] by (auto simp: setting_def)
  obtain f5 where 5: "get_int_value (Some f4) (Some ?sec) (Some (of_string ''MaxConnections'')) 100 =
      Some (int_setting 100 (setting cfg ''MaxConnections''), Some f5)"
    using int [OF 4(2) server_names(7)] by (auto simp: setting_def)
  show ?thesis
    using 1(1,3) 2(1,3) 3(1) 4(1) 5
    by (simp add: get_server_config_def open_config_file_def glGlobleArgs0_def Let_def max_def)
qed


text \<open>A file as an administrator may write it.\<close>

definition sample_config :: config where
  "sample_config =
    [(of_string ''BOX_CONFIG'', [Assign (of_string ''LocalIp'') 0 (of_string ''10.0.0.1'')]),
     (of_string ''server_config'',
       [Comment (of_string ''LocalIp=10.0.0.2''), Blank, Assign (of_string ''LocalIpOld'') 0 (of_string ''10.0.0.3''),
        Assign (of_string ''localip'') 2 (of_string ''172.16.3.100''), Assign (of_string ''LocalIp'') 0 (of_string ''10.0.0.4''),
        Assign (of_string ''UseRtcp'') 0 (of_string ''1''), Assign (of_string ''MaxConnections'') 0 (of_string ''0'')])]"

lemma sample_config_ok: "config_ok sample_config"
  by (simp add: sample_config_def config_ok_def section_ok_def name_ok_def key_ok_def line_ok_def of_string_def)

lemma sample_settings:
  "setting sample_config ''LocalIp'' = Some (of_string ''172.16.3.100'')" "setting sample_config ''ETHX'' = None"
  "setting sample_config ''GbListenPort'' = None" "setting sample_config ''UseRtcp'' = Some (of_string ''1'')"
  "setting sample_config ''MaxConnections'' = Some (of_string ''0'')"
  by (simp_all add: setting_def sample_config_def same_text_def of_string_def tolower_def)

theorem server_config_loaded_witness:
  "\<exists>g. get_server_config (Some (print_config sample_config)) glGlobleArgs0 = Some (HB_SUCCESS, g) \<and>
    c_str (cLocalIp g) = Some (of_string ''172.16.3.100'') \<and> c_str (cNetworkCardName g) = Some [] \<and>
    iGbListenPort g = 5060 \<and> iUseRtcpFlag g = 1 \<and> iMaxConnections g = 1"
proof -
  have n: "int_setting 0 (Some (of_string ''1'')) = 1" "int_setting 100 (Some (of_string ''0'')) = 0" "int_setting 5060 None = 5060"
    by (simp_all add: int_setting_def of_string_def atoi_def strtol10_def is_space_def is_digit_def numeral_eq_Suc [of "Num.One"])
  show ?thesis using server_config_loaded [OF sample_config_ok] by (auto simp: sample_settings n)
qed

section \<open>Any file\<close>

text \<open>The reader on a file with any contents: long lines, NULs, no line end, nothing that looks like a section.\<close>

lemma get_string_value_any:
  assumes "length sec < 98" "length key < 100" and out: "length out = Suc n" "n < 2 ^ 32 - 1" "out ! n = 0"
  shows "\<exists>out' f'. get_string_value (Some f) (Some sec) (Some key) None (Some out) (word_of_nat (Suc n)) = Some (Some out', Some f') \<and>
    length out' = Suc n \<and> out' ! n = 0"
proof -
  let ?o = "0 # drop 1 out"
  have o: "mem_write out 0 [0] = Some ?o" "length ?o = Suc n" "?o ! n = 0"
    using out(1,3) by (auto simp: mem_write_def nth_Cons')
  have u: "unat (word_of_nat (Suc n) - 1 :: u32) = n" using out(2) by (simp add: unat_of_nat take_bit_eq_mod)
  obtain v f' where f: "section_lines (0x5B # sec @ [0x5D]) key (fseek0 f) = (v, f')" by fastforce
  have "\<exists>out'. get_string_content_value (fseek0 f) sec key ?o (word_of_nat (Suc n)) = Some (out', f') \<and> length out' = Suc n \<and> out' ! n = 0"
  proof (cases v)
    case None
    then show ?thesis using f o assms(1,2) by (simp add: get_string_content_value_def Let_def)
  next
    case (Some t)
    have "mem_write ?o 0 (strncpy n t) = Some (strncpy n t @ drop n ?o)" using o(2) by (simp add: mem_write_def)
    then show ?thesis using f o Some u assms(1,2)
      by (simp add: get_string_content_value_def Let_def nth_append del: drop_Suc_Cons drop.simps)
  qed
  then show ?thesis using o(1) by (auto simp: get_string_value_def)
qed

lemma get_int_value_any:
  assumes "length sec < 98" "length key < 100"
  shows "\<exists>x f'. get_int_value (Some f) (Some sec) (Some key) d = Some (x, Some f')"
proof -
  obtain out' f' where o: "get_string_value (Some f) (Some sec) (Some key) None (Some (replicate 512 0)) 512 = Some (Some out', Some f')"
      "length out' = 512" "out' ! 511 = 0"
    using get_string_value_any [OF assms, of "replicate 512 0" 511 f] by auto
  have "0 \<in> set out'" using o(2,3) nth_mem [of 511 out'] by simp
  then show ?thesis using o(1) by (auto simp: get_int_value_def c_str_def)
qed

text \<open>
  C32. No configuration file breaks the server. Whatever bytes the file has, and also when it cannot be opened, reading
  the configuration ends and stays inside its buffers. It fails exactly when there is no file, and then leaves the
  configuration as it was; otherwise both names are terminated strings in their buffers and at least one
  connection is allowed.
\<close>

theorem server_config_safe:
  "\<exists>r g. get_server_config file glGlobleArgs0 = Some (r, g) \<and> (r = HB_FAILURE \<longleftrightarrow> file = None) \<and> (file = None \<longrightarrow> g = glGlobleArgs0) \<and>
    length (cLocalIp g) = 16 \<and> c_str (cLocalIp g) \<noteq> None \<and> length (cNetworkCardName g) = 32 \<and> c_str (cNetworkCardName g) \<noteq> None \<and>
    (file \<noteq> None \<longrightarrow> 1 \<le> iMaxConnections g)"
proof (cases "file :: bytes option")
  case None
  then show ?thesis by (simp add: get_server_config_def open_config_file_def glGlobleArgs0_def c_str_def)
next
  case (Some d)
  let ?sec = "of_string ''SERVER_CONFIG''" and ?f = "\<lparr>file_data = d, file_pos = 0, file_eof = False\<rparr>"
  obtain ip f1 where 1: "get_string_value (Some ?f) (Some ?sec) (Some (of_string ''LocalIp'')) None (Some (replicate 16 0)) 16 =
      Some (Some ip, Some f1)" "length ip = 16" "ip ! 15 = 0"
    using get_string_value_any [of ?sec "of_string ''LocalIp''" "replicate 16 0" 15 ?f] by auto
  obtain card f2 where 2: "get_string_value (Some f1) (Some ?sec) (Some (of_string ''ETHX'')) None (Some (replicate 32 0)) 32 =
      Some (Some card, Some f2)" "length card = 32" "card ! 31 = 0"
    using get_string_value_any [of ?sec "of_string ''ETHX''" "replicate 32 0" 31 f1] by auto
  note int = get_int_value_any [of ?sec, simplified]
  obtain x f3 where 3: "get_int_value (Some f2) (Some ?sec) (Some (of_string ''GbListenPort'')) 5060 = Some (x, Some f3)"
    using int [of "of_string ''GbListenPort''" f2 5060] by auto
  obtain y f4 where 4: "get_int_value (Some f3) (Some ?sec) (Some (of_string ''UseRtcp'')) 0 = Some (y, Some f4)"
    using int [of "of_string ''UseRtcp''" f3 0] by auto
  obtain z f5 where 5: "get_int_value (Some f4) (Some ?sec) (Some (of_string ''MaxConnections'')) 100 = Some (z, Some f5)"
    using int [of "of_string ''MaxConnections''" f4 100] by auto
  have t: "0 \<in> set ip" "0 \<in> set card" using 1(2,3) 2(2,3) nth_mem [of 15 ip] nth_mem [of 31 card] by simp_all
  show ?thesis
    using Some 1 2 3 4 5 t by (simp add: get_server_config_def open_config_file_def glGlobleArgs0_def c_str_def Let_def)
qed


theorem server_config_safe_witness:
  "\<exists>r g. get_server_config (Some [0x5B, 0, 0xFF]) glGlobleArgs0 = Some (r, g) \<and> r \<noteq> HB_FAILURE \<and>
    c_str (cLocalIp g) \<noteq> None \<and> 1 \<le> iMaxConnections g"
  using server_config_safe [of "Some [0x5B, 0, 0xFF]"] by blast

end
