(* ===== verification/Sip.thy ===== *)
theory Sip
  imports SdpGet StreamMoudle
begin

text \<open>
  \<open>src/sip.c\<close>: the SIP side of the server, one datagram at a time. The message library osip2 is not part of the
  repository: a parsed message is a record of what the code reads of it, and what the library answers is the record
  \<open>osip\<close>, an argument of every definition that calls it.
\<close>

section \<open>Messages\<close>

text \<open>A header that the code only copies is its text. The contact is the user name in the URL of the first one.\<close>

record sip_message =
  status_code :: int
  sip_method :: "bytes option"
  sip_to :: "bytes option"
  sip_from :: "bytes option"
  sip_vias :: "bytes list"
  sip_call_id :: "bytes option"
  sip_cseq :: "bytes option"
  sip_contact_user :: "bytes option"
  sip_body :: "bytes option"

record sip_response =
  re_version :: bytes
  re_status :: int
  re_reason :: bytes
  re_to :: "bytes option"
  re_from :: "bytes option"
  re_vias :: "bytes list"
  re_call_id :: "bytes option"
  re_cseq :: "bytes option"
  re_headers :: "(bytes \<times> bytes) list"
  re_content_type :: bytes
  re_contact :: bytes
  re_body :: bytes

text \<open>
  The library: parsing, a message's new memory, the reason phrases, copies (an error code or the copy), the tag
  of a \<open>To\<close> header, a header by name, and the text of a response.
\<close>

record osip =
  os_parse :: "bytes \<Rightarrow> sip_message"
  os_init :: int
  os_memory :: bool
  os_reason :: "int \<Rightarrow> bytes option"
  os_clone :: "bytes option \<Rightarrow> int + bytes option"
  os_has_tag :: "bytes option \<Rightarrow> bool"
  os_set_tag :: "bytes \<Rightarrow> bytes option \<Rightarrow> bytes option"
  os_header :: "sip_message \<Rightarrow> bytes \<Rightarrow> bytes option"
  os_to_str :: "sip_response \<Rightarrow> bytes option"

definition OSIP_BADPARAMETER :: int where "OSIP_BADPARAMETER = -2"
definition OSIP_NOMEM :: int where "OSIP_NOMEM = -4"

text \<open>\<open>MSG_IS_INVITE\<close> and the like: a message without a status is a request, and its method is compared.\<close>

definition msg_is :: "string \<Rightarrow> sip_message \<Rightarrow> bool option" where
  "msg_is name m = (if status_code m = 0 then map_option (\<lambda>s. s = of_string name) (sip_method m) else Some False)"

section \<open>build_response_default\<close>

definition response0 :: sip_response where
  "response0 = \<lparr>re_version = [], re_status = 0, re_reason = [], re_to = None, re_from = None, re_vias = [],
     re_call_id = None, re_cseq = None, re_headers = [], re_content_type = [], re_contact = [], re_body = []\<rparr>"

text \<open>The reason phrase, when there is memory for it.\<close>

definition reason_of :: "osip \<Rightarrow> int \<Rightarrow> sip_message \<Rightarrow> bytes option option" where
  "reason_of os status m = do {
     notify \<leftarrow> msg_is ''NOTIFY'' m;
     subscribe \<leftarrow> msg_is ''SUBSCRIBE'' m;
     Some (if \<not> os_memory os then None
       else if notify \<and> status = 481 then Some (of_string ''Subscription Does Not Exist'')
       else if subscribe \<and> status = 202 then Some (of_string ''Accepted subscription'')
       else case os_reason os status of Some r \<Rightarrow> Some r
         | None \<Rightarrow> Some (of_string (if status = 101 then ''Dialog Establishement'' else ''Unknown code'')))
   }"

text \<open>The copies of the \<open>Via\<close> headers, in order, up to the first failure.\<close>

fun clone_vias :: "osip \<Rightarrow> bytes list \<Rightarrow> int + bytes list" where
  "clone_vias os [] = Inr []"
| "clone_vias os (v # vs) =
     (case os_clone os (Some v) of Inl e \<Rightarrow> Inl e
      | Inr None \<Rightarrow> clone_vias os vs
      | Inr (Some v) \<Rightarrow> map_sum id ((#) v) (clone_vias os vs))"

text \<open>
  The subscription's headers. The test for the \<open>Expires\<close> header is the wrong way round: what is copied is a null header.
\<close>

definition subscribe_headers :: "osip \<Rightarrow> sip_message \<Rightarrow> (bytes \<times> bytes) list" where
  "subscribe_headers os m =
     (of_string ''Event'', case os_header os m (of_string ''event'') of Some v \<Rightarrow> v | None \<Rightarrow> of_string ''presence'') #
     (case os_header os m (of_string ''expires'') of Some _ \<Rightarrow> []
      | None \<Rightarrow> (case os_clone os None of Inr (Some v) \<Rightarrow> [(of_string ''Expires'', v)] | _ \<Rightarrow> []))"

definition clone_headers :: "osip \<Rightarrow> bytes option \<Rightarrow> sip_message \<Rightarrow> sip_response \<Rightarrow> int + sip_response" where
  "clone_headers os dialog m r =
     (case os_clone os (sip_to m) of Inl e \<Rightarrow> Inl e | Inr to \<Rightarrow>
      (let r = r\<lparr>re_to := (if os_has_tag os to then to
           else case dialog of Some tag \<Rightarrow> os_set_tag os tag to | None \<Rightarrow> to)\<rparr>
       in case os_clone os (sip_from m) of Inl e \<Rightarrow> Inl e | Inr from \<Rightarrow>
         (case clone_vias os (sip_vias m) of Inl e \<Rightarrow> Inl e | Inr vias \<Rightarrow>
          (case os_clone os (sip_call_id m) of Inl e \<Rightarrow> Inl e | Inr cid \<Rightarrow>
           (case os_clone os (sip_cseq m) of Inl e \<Rightarrow> Inl e | Inr cseq \<Rightarrow>
             Inr (r\<lparr>re_from := from, re_vias := vias, re_call_id := cid, re_cseq := cseq\<rparr>))))))"

text \<open>
  \<open>dialog\<close> is the local tag of the dialog, if there are both. The result code with a null response, or the
  response; on every failure what was made of it is freed.
\<close>

definition build_response_default :: "osip \<Rightarrow> bytes option \<Rightarrow> int \<Rightarrow> sip_message option \<Rightarrow> (int + sip_response) option" where
  "build_response_default os dialog status request =
     (case request of None \<Rightarrow> Some (Inl OSIP_BADPARAMETER)
      | Some m \<Rightarrow>
          if os_init os \<noteq> 0 then Some (Inl (os_init os))
          else if \<not> os_memory os then Some (Inl OSIP_NOMEM)
          else do {
            reason \<leftarrow> reason_of os status m;
            subscribe \<leftarrow> msg_is ''SUBSCRIBE'' m;
            Some (case reason of None \<Rightarrow> Inl OSIP_NOMEM
              | Some reason \<Rightarrow> map_sum id (\<lambda>r. if subscribe then r\<lparr>re_headers := subscribe_headers os m\<rparr> else r)
                  (clone_headers os dialog m
                    (response0\<lparr>re_version := of_string ''SIP/2.0'', re_status := status, re_reason := reason\<rparr>)))
          })"

section \<open>parase_invite\<close>

text \<open>
  \<open>sscanf(text, "%[^:]:%[^/]/%s", cStreamSourceIp, cStreamSourcePort, cDevId)\<close>: it stops at the first part
  that does not match; the widths are not limited.
\<close>

definition sscanf_sms :: "bytes \<Rightarrow> SIP_DEV_ARGS \<Rightarrow> bytes \<Rightarrow> (SIP_DEV_ARGS \<times> bytes) option" where
  "sscanf_sms t d port =
     (let ip = takeWhile (\<lambda>c. c \<noteq> 0x3A) t; t1 = dropWhile (\<lambda>c. c \<noteq> 0x3A) t
      in if ip = [] then Some (d, port)
         else do {
           f \<leftarrow> mem_write (da_cStreamSourceIp d) 0 (ip @ [0]);
           let d = d\<lparr>da_cStreamSourceIp := f\<rparr>;
           let p = takeWhile (\<lambda>c. c \<noteq> 0x2F) (tl t1);
           let t2 = dropWhile (\<lambda>c. c \<noteq> 0x2F) (tl t1);
           if t1 = [] \<or> p = [] then Some (d, port)
           else do {
             port \<leftarrow> mem_write port 0 (p @ [0]);
             let w = takeWhile (\<lambda>c. \<not> is_space c) (dropWhile is_space (tl t2));
             if t2 = [] \<or> w = [] then Some (d, port)
             else do {
               f \<leftarrow> mem_write (da_cDevId d) 0 (w @ [0]);
               Some (d\<lparr>da_cDevId := f\<rparr>, port)
             }
           }
         })"

text \<open>One media of the offer: only a video is looked at.\<close>

definition invite_media :: "sdp_t \<Rightarrow> nat \<Rightarrow> SIP_DEV_ARGS \<Rightarrow> SIP_DEV_ARGS option" where
  "invite_media s i d = do {
     ty \<leftarrow> str_of s (sdp_media_type s (int i));
     if ty \<noteq> of_string ''video'' then Some d
     else do {
       (r, port) \<leftarrow> sdp_media_port s (int i);
       let d = d\<lparr>da_iPushPort := (case port of None \<Rightarrow> 0 | Some (p, n) \<Rightarrow> p)\<rparr>;
       sms \<leftarrow> sdp_media_attribute_find s (int i) (Some (of_string ''sms''));
       d \<leftarrow> (case sms of None \<Rightarrow> Some d
         | Some p \<Rightarrow> do {
             t \<leftarrow> str_at s p;
             (d, cStreamSourcePort) \<leftarrow> sscanf_sms t d (replicate 8 0);
             t \<leftarrow> c_str cStreamSourcePort;
             Some (d\<lparr>da_iStreamSourcePort := sint (atoi t)\<rparr>)
           });
       mode \<leftarrow> sdp_media_attribute_find s (int i) (Some (of_string ''streamMode''));
       sub \<leftarrow> (case mode of None \<Rightarrow> Some False | Some p \<Rightarrow> map_option (strstr_in (of_string ''SUB'')) (str_at s p));
       Some (d\<lparr>da_iStreamType := (if sub then 1 else 0)\<rparr>)
     }
   }"

fun invite_medias :: "sdp_t \<Rightarrow> nat list \<Rightarrow> SIP_DEV_ARGS \<Rightarrow> SIP_DEV_ARGS option" where
  "invite_medias s [] d = Some d"
| "invite_medias s (i # is) d = do { d \<leftarrow> invite_media s i d; invite_medias s is d }"

text \<open>
  A message without a body, a body that \<open>sdp_parse\<close> refuses, and one without an origin or a connection are
  dereferenced all the same. The address is printed as a string, which it is only when its terminator fits. \<open>mem\<close> is the memory
  the parser finds.
\<close>

definition parase_invite :: "(nat \<Rightarrow> bool) \<Rightarrow> sip_message \<Rightarrow> SIP_DEV_ARGS \<Rightarrow> (int \<times> SIP_DEV_ARGS) option" where
  "parase_invite mem m d = do {
     body \<leftarrow> sip_body m;
     pSdp \<leftarrow> sdp_parse mem body;
     s \<leftarrow> pSdp;
     if sdp_media_count s < 0 then Some (-1, d)
     else do {
       origin \<leftarrow> sdp_origin_get s;
       user \<leftarrow> str_at s (hd origin);
       let d = d\<lparr>da_cDevSn := strncpy 32 user\<rparr>;
       (net, ty, adr) \<leftarrow> sdp_connection_get s;
       adr \<leftarrow> str_at s adr;
       let d = d\<lparr>da_cPushIp := strncpy 16 adr\<rparr>;
       shown \<leftarrow> c_str (da_cPushIp d);
       d \<leftarrow> (case sdp_y_get s of None \<Rightarrow> Some d
         | Some p \<Rightarrow> map_option (\<lambda>t. d\<lparr>da_cSsrc := strncpy 16 t\<rparr>) (str_at s p));
       let d = (case sip_call_id m of None \<Rightarrow> d | Some cid \<Rightarrow> d\<lparr>da_cCallId := strncpy 32 cid\<rparr>);
       d \<leftarrow> invite_medias s [0..<nat (sdp_media_count s)] d;
       freed \<leftarrow> sdp_destroy s;
       Some (HB_SUCCESS, d)
     }
   }"

definition parase_ack_bye :: "sip_message \<Rightarrow> SIP_DEV_ARGS \<Rightarrow> int \<times> SIP_DEV_ARGS" where
  "parase_ack_bye m d =
     (case sip_call_id m of Some cid \<Rightarrow> (HB_SUCCESS, d\<lparr>da_cCallId := strncpy 32 cid\<rparr>) | None \<Rightarrow> (HB_FAILURE, d))"

section \<open>State\<close>

datatype CONTENT_TYPE_E = NO_TYPE | REGISTER | INVITE | ACK | CANCEL | MESSAGE | INFO | OPTIONS | BYE

definition get_content_type :: "sip_message \<Rightarrow> CONTENT_TYPE_E option" where
  "get_content_type m = do {
     invite \<leftarrow> msg_is ''INVITE'' m;
     ack \<leftarrow> msg_is ''ACK'' m;
     bye \<leftarrow> msg_is ''BYE'' m;
     register \<leftarrow> msg_is ''REGISTER'' m;
     Some (if invite then INVITE else if ack then ACK else if bye then BYE else if register then REGISTER else NO_TYPE)
   }"

text \<open>\<open>memset(&stSipDevInfo, 0, sizeof(SIP_DEV_ARGS_OBJ))\<close>.\<close>

definition dev_args_zero :: SIP_DEV_ARGS where
  "dev_args_zero = \<lparr>da_cSsrc = replicate 16 0, da_cCallId = replicate 32 0, da_cDevSn = replicate 32 0,
     da_cPushIp = replicate 16 0, da_iPushPort = 0, da_cDevId = replicate 128 0, da_iDevChnl = 0, da_iStreamType = 0,
     da_cStreamSourceIp = replicate 16 0, da_iStreamSourcePort = 0\<rparr>"

text \<open>What leaves the SIP side or concerns memory, in order.\<close>

datatype sip_effect = Request_init | Request_free | Response_free | Answer bytes

text \<open>\<open>to_stream\<close> is the input of the stream side's end of the socket pair: the messages it has not read yet.\<close>

record sip_world =
  sip_table :: SIP_HASH_TABLE
  to_stream :: "SIP_NODE list"
  sip_trace :: "sip_effect list"

definition sip_note :: "sip_effect \<Rightarrow> sip_world \<Rightarrow> sip_world" where
  "sip_note e w = w\<lparr>sip_trace := sip_trace w @ [e]\<rparr>"

text \<open>\<open>bufferevent_write(pWriteToStreamBev, pSipNode, sizeof(SIP_NODE_OBJ))\<close> of the node with its new command.\<close>

definition tell_stream :: "CMD_TYPE \<Rightarrow> nat \<Rightarrow> sip_world \<Rightarrow> sip_world option" where
  "tell_stream cmd a w = do {
     n \<leftarrow> sip_nodes (sip_table w) a;
     let n = n\<lparr>sn_enumCmdType := cmd\<rparr>;
     let t = sip_table w;
     Some (w\<lparr>sip_table := t\<lparr>sip_nodes := (sip_nodes t)(a \<mapsto> n)\<rparr>, to_stream := to_stream w @ [n]\<rparr>)
   }"

text \<open>\<open>del_node_from_sip_hash_table\<close>, then \<open>free\<close>.\<close>

definition drop_session :: "nat \<Rightarrow> sip_world \<Rightarrow> sip_world option" where
  "drop_session a w = do {
     t \<leftarrow> del_node_from_sip_hash_table (sip_table w) a;
     if sip_nodes t a = None then None
     else Some (w\<lparr>sip_table := t\<lparr>sip_nodes := (sip_nodes t)(a := None)\<rparr>\<rparr>)
   }"

section \<open>The stream side's message\<close>

definition sip_pair_read_cb :: "(bytes \<Rightarrow> u32) \<Rightarrow> CMD_TYPE \<Rightarrow> bytes \<Rightarrow> sip_world \<Rightarrow> sip_world option" where
  "sip_pair_read_cb hf cmd call_id w =
     (if cmd = STOP then do {
        found \<leftarrow> find_node_from_sip_hash_table hf (sip_table w) call_id;
        case found of None \<Rightarrow> Some w | Some a \<Rightarrow> drop_session a w
      } else Some w)"

section \<open>udp_recv_cb\<close>

text \<open>The server around a datagram: what is configured, what the libraries and the kernel answer, a new node's address.\<close>

record sip_env =
  se_hash :: "bytes \<Rightarrow> u32"
  se_rtcp :: bool
  se_local_ip :: bytes
  se_osip :: osip
  se_memory :: "nat \<Rightarrow> bool"
  se_net :: net_answers
  se_node :: nat

definition crlf :: bytes where "crlf = [0x0D, 0x0A]"

text \<open>\<open>snprintf(cResponseBody, 4096, ...)\<close>: the answer to the offer.\<close>

definition answer_body :: "bytes \<Rightarrow> SIP_NODE \<Rightarrow> bytes option" where
  "answer_body local_ip n = do {
     sn \<leftarrow> c_str (sn_cSipDevSn n);
     push \<leftarrow> c_str (sn_cPushIp n);
     Some (take 4095 (of_string ''v=0'' @ crlf @
       of_string ''o='' @ sn @ of_string '' 0 0 IN IP4 '' @ push @ crlf @
       of_string ''s=Play'' @ crlf @
       of_string ''c=IN IP4 '' @ local_ip @ crlf @
       of_string ''t=0 0'' @ crlf @
       of_string ''m=video '' @ print_int (sn_iUdpSendStreamPort n) @ of_string '' RTP/AVP 96'' @ crlf @
       of_string ''a=streamMode:'' @ print_int (sn_iStreamType n) @ crlf @
       of_string ''a=sendonly'' @ crlf @
       of_string ''a=rtpmap:96 PS/90000'' @ crlf @
       of_string ''y='' @ print_nat (unat (sn_u32Ssrc n)) @ crlf @ crlf))
   }"

definition contact_text :: "bytes \<Rightarrow> bytes \<Rightarrow> bytes" where
  "contact_text user local_ip = take 127 (of_string ''<sip:'' @ user @ of_string ''@'' @ local_ip @ of_string '':5060>'')"

text \<open>
  The text of a response: its creation is not checked, and the text of a null response is a null pointer
  whose length is taken.
\<close>

definition response_text :: "osip \<Rightarrow> (int + sip_response) \<Rightarrow> (sip_response \<Rightarrow> sip_response) \<Rightarrow> bytes option" where
  "response_text os r f = (case r of Inl e \<Rightarrow> None | Inr r \<Rightarrow> os_to_str os (f r))"

definition recv_invite :: "sip_env \<Rightarrow> sip_message \<Rightarrow> sip_world \<Rightarrow> sip_world option" where
  "recv_invite e m w = do {
     (r, d) \<leftarrow> parase_invite (se_memory e) m dev_args_zero;
     if r \<noteq> HB_SUCCESS then Some w
     else do {
       (a, t) \<leftarrow> insert_node_to_sip_hash_table (se_hash e) (se_rtcp e) (se_net e) (sip_table w) d (se_node e);
       let w = w\<lparr>sip_table := t\<rparr>;
       n \<leftarrow> sip_nodes t a;
       resp \<leftarrow> build_response_default (se_osip e) None 200 (Some m);
       user \<leftarrow> sip_contact_user m;
       local_ip \<leftarrow> c_str (se_local_ip e);
       body \<leftarrow> answer_body local_ip n;
       text \<leftarrow> response_text (se_osip e) resp (\<lambda>r. r\<lparr>re_content_type := of_string ''application/sdp'',
         re_contact := contact_text user local_ip, re_body := body\<rparr>);
       Some (sip_note Response_free (sip_note (Answer text) w))
     }
   }"

definition recv_ack :: "sip_env \<Rightarrow> sip_message \<Rightarrow> sip_world \<Rightarrow> sip_world option" where
  "recv_ack e m w =
     (case parase_ack_bye m dev_args_zero of (r, d) \<Rightarrow>
        if r \<noteq> HB_SUCCESS then Some w
        else do {
          found \<leftarrow> find_node_from_sip_hash_table (se_hash e) (sip_table w) (da_cCallId d);
          case found of None \<Rightarrow> Some w | Some a \<Rightarrow> tell_stream PLAY a w
        })"

text \<open>The flag tells whether the handler goes on to free the request: after a parsed \<open>BYE\<close> it does not.\<close>

definition recv_bye :: "sip_env \<Rightarrow> sip_message \<Rightarrow> sip_world \<Rightarrow> (bool \<times> sip_world) option" where
  "recv_bye e m w =
     (case parase_ack_bye m dev_args_zero of (r, d) \<Rightarrow>
        if r \<noteq> HB_SUCCESS then Some (True, w)
        else do {
          resp \<leftarrow> build_response_default (se_osip e) None 200 (Some m);
          text \<leftarrow> response_text (se_osip e) resp id;
          let w = sip_note Response_free (sip_note (Answer text) w);
          found \<leftarrow> find_node_from_sip_hash_table (se_hash e) (sip_table w) (da_cCallId d);
          w \<leftarrow> (case found of None \<Rightarrow> Some w
            | Some a \<Rightarrow> do { w \<leftarrow> tell_stream STOP a w; drop_session a w });
          Some (False, w)
        })"

text \<open>
  The datagram, or none when \<open>recvfrom\<close> fails; at most 4095 bytes of it, up to its first NUL, reach the parser. A
  message that the parser did not get far enough with has no method, which the first comparison dereferences.
\<close>

definition udp_recv_cb :: "sip_env \<Rightarrow> bytes option \<Rightarrow> sip_world \<Rightarrow> sip_world option" where
  "udp_recv_cb e datagram w =
     (case datagram of None \<Rightarrow> Some w
      | Some b \<Rightarrow> do {
          let w = sip_note Request_init w;
          let m = os_parse (se_osip e) (takeWhile (\<lambda>c. c \<noteq> 0) (take 4095 b));
          ty \<leftarrow> get_content_type m;
          (release, w) \<leftarrow> (case ty of
              INVITE \<Rightarrow> map_option (Pair True) (recv_invite e m w)
            | ACK \<Rightarrow> map_option (Pair True) (recv_ack e m w)
            | BYE \<Rightarrow> recv_bye e m w
            | _ \<Rightarrow> Some (True, w));
          Some (if release then sip_note Request_free w else w)
        })"

section \<open>start_sip_moudle\<close>

text \<open>What the start asks for, in order; the socket itself is not checked.\<close>

record start_answers =
  sa_sip_mallocs :: "bool \<times> bool"
  sa_stream_callocs :: "bool \<times> bool"
  sa_threads :: bool
  sa_pool :: bool
  sa_base :: bool
  sa_notifiable :: bool
  sa_bind :: bool

text \<open>
  The result code, and when the server runs its two tables and the chosen hash function; the loop that then
  dispatches events does not return.
\<close>

definition start_sip_moudle :: "start_answers \<Rightarrow> int \<times> (SIP_HASH_TABLE \<times> STREAM_HASH_TABLE \<times> (bytes \<Rightarrow> u32) option) option" where
  "start_sip_moudle e =
     (case sip_hash_table_create (fst (sa_sip_mallocs e)) (snd (sa_sip_mallocs e)) 1000 of None \<Rightarrow> (HB_FAILURE, None)
      | Some t \<Rightarrow>
        (case stream_hash_table_create (fst (sa_stream_callocs e)) (snd (sa_stream_callocs e)) 1000 of None \<Rightarrow> (HB_FAILURE, None)
         | Some s \<Rightarrow>
           if \<not> sa_threads e \<or> \<not> sa_pool e \<or> \<not> sa_base e \<or> \<not> sa_notifiable e \<or> \<not> sa_bind e then (HB_FAILURE, None)
           else (HB_SUCCESS, Some (t, s, ChooseHashFunc ''BKDR_hash''))))"

end
