(* ===== verification/SipOffer.thy ===== *)
theory SipOffer
  imports Sip SdpUse
begin

text \<open>
  What \<open>parase_invite\<close> reads of an offer: from the bytes of the body, through the parser and the accessors, to the
  arguments of the session.
\<close>

section \<open>The session of a description\<close>

lemma origin_user:
  assumes "holds_desc s d" and "d_o d = u # us"
  obtains ps where "sdp_origin_get s = Some ps" and "str_at s (hd ps) = Some u"
proof -
  let ?R = "sees (raw s) (length (raw s))"
  have "list_all2 ?R (origin_ptrs (sdp_o s)) (u # us)"
    using assms by (simp add: holds_desc_def rel_def origin_rel_def)
  then obtain b1 b2 b3 b4 b5 where us: "us = [b1, b2, b3, b4, b5]"
    "?R (o_username (sdp_o s)) u" "?R (o_session (sdp_o s)) b1" "?R (o_session_version (sdp_o s)) b2"
    "?R (c_network (o_c (sdp_o s))) b3" "?R (c_addrtype (o_c (sdp_o s))) b4" "?R (c_address (o_c (sdp_o s))) b5"
    by (auto simp: origin_ptrs_def list_all2_Cons1)
  obtain p where p: "o_username (sdp_o s) = Some p" using us(2) by (auto simp: sees_def)
  have "sdp_origin_get s \<noteq> None" "\<And>ps. sdp_origin_get s = Some ps \<Longrightarrow> hd ps = p"
    using us p by (auto simp: sdp_origin_get_def sees_def)
  moreover have "str_at s p = Some u" using sees_str_at [OF us(2)] p by (simp add: str_of_def)
  ultimately show ?thesis using that by auto
qed

lemma connection_address_of:
  assumes "holds_desc s d" and "d_c d = Some (n, t, a)"
  obtains p q r where "sdp_connection_get s = Some (p, q, r)" and "str_at s r = Some a"
proof -
  let ?R = "sees (raw s) (length (raw s))"
  have c: "?R (c_network (sdp_c s)) n" "?R (c_addrtype (sdp_c s)) t" "?R (c_address (sdp_c s)) a"
    using assms by (simp_all add: holds_desc_def rel_def sess_rel_def conn_rel_def)
  then obtain p q r where p: "c_network (sdp_c s) = Some p" "c_addrtype (sdp_c s) = Some q" "c_address (sdp_c s) = Some r"
    by (auto simp: sees_def)
  moreover have "str_at s r = Some a" using sees_str_at [OF c(3)] p(3) by (simp add: str_of_def)
  ultimately show ?thesis using that by (simp add: sdp_connection_get_def connection_get_def)
qed

lemma ssrc_of:
  assumes "holds_desc s d"
  shows "(case sdp_y_get s of None \<Rightarrow> Some None | Some p \<Rightarrow> map_option Some (str_at s p)) = Some (d_y d)"
  using opt_rel_str [of s "length (raw s)" "sdp_y s" "d_y d"] assms
  by (auto simp: holds_desc_def rel_def opt_rel_def sdp_y_get_def str_of_def sees_def split: option.splits)

lemma destroy_timings_defined:
  "i + k \<le> v_count (sdp_t s) \<Longrightarrow> \<forall>j<v_count (sdp_t s). sdp_get_timing s j \<noteq> None \<Longrightarrow> destroy_timings s i k \<noteq> None"
proof (induction k arbitrary: i)
  case (Suc k)
  then have "sdp_get_timing s i \<noteq> None" "destroy_timings s (Suc i) k \<noteq> None" by auto
  then show ?case by auto
qed simp

lemma destroy_medias_defined:
  "i + k \<le> v_count (sdp_m s) \<Longrightarrow> \<forall>j<v_count (sdp_m s). sdp_get_media s j \<noteq> None \<Longrightarrow> destroy_medias s i k \<noteq> None"
proof (induction k arbitrary: i)
  case (Suc k)
  then have "sdp_get_media s i \<noteq> None" "destroy_medias s (Suc i) k \<noteq> None" by auto
  then show ?case by auto
qed simp

lemma destroy_defined:
  assumes "holds_desc s d"
  shows "sdp_destroy s \<noteq> None"
proof -
  have r: "rel (sees (raw s) (length (raw s))) s d" using assms by (simp add: holds_desc_def)
  have t: "\<forall>j<v_count (sdp_t s). sdp_get_timing s j \<noteq> None" and m: "\<forall>j<v_count (sdp_m s). sdp_get_media s j \<noteq> None"
    using vec_rel_get [OF rel_parts(4) [OF r]] vec_rel_count [OF rel_parts(4) [OF r]]
      vec_rel_get [OF rel_parts(6) [OF r]] vec_rel_count [OF rel_parts(6) [OF r]]
    by (fastforce simp: sdp_get_timing_def sdp_get_media_def)+
  show ?thesis using destroy_timings_defined [OF _ t, of 0] destroy_medias_defined [OF _ m, of 0] by (fastforce simp: sdp_destroy_def)
qed

section \<open>Text into arrays\<close>

lemma strncpy_text: "0 \<notin> set w \<Longrightarrow> length w < n \<Longrightarrow> strncpy n w = w @ 0 # replicate (n - length w - 1) 0"
proof -
  assume w: "0 \<notin> set w" "length w < n"
  then have t: "takeWhile (\<lambda>c. c \<noteq> 0) w = w" by (auto simp: takeWhile_eq_all_conv)
  have r: "replicate (n - length w) (0 :: u8) = 0 # replicate (n - length w - 1) 0"
    using w(2) by (cases "n - length w") simp_all
  show ?thesis using w(2) unfolding strncpy_def t by (simp add: min_def r)
qed

lemma mem_write_text: "0 \<notin> set w \<Longrightarrow> length w < n \<Longrightarrow> mem_write (replicate n 0) 0 (w @ [0]) = Some (strncpy n w)"
  by (simp add: mem_write_def strncpy_text)

lemma c_str_strncpy_text: "0 \<notin> set w \<Longrightarrow> length w < n \<Longrightarrow> c_str (strncpy n w) = Some w"
  by (simp add: strncpy_text)

lemma length_print_nat: "n < 10 ^ Suc k \<Longrightarrow> length (print_nat n) \<le> Suc k"
proof (induction k arbitrary: n)
  case 0
  then show ?case by (subst print_nat.simps) simp
next
  case (Suc k)
  have "n div 10 < 10 ^ Suc k" using Suc.prems by (simp add: div_less_iff_less_mult)
  then show ?case using Suc.IH [of "n div 10"] by (subst print_nat.simps) simp
qed

text \<open>The text of the \<open>sms\<close> attribute: where the media server has the stream.\<close>

definition sms_text :: "bytes \<Rightarrow> nat \<Rightarrow> bytes \<Rightarrow> bytes" where
  "sms_text ip port dev = ip @ 0x3A # print_nat port @ 0x2F # dev"

lemma sscanf_sms_reads:
  assumes ip: "ip \<noteq> []" "0x3A \<notin> set ip" "0 \<notin> set ip" "length ip < 16"
    and port: "port < 10000000" and dev: "dev \<noteq> []" "\<forall>c\<in>set dev. \<not> is_space c" "0 \<notin> set dev" "length dev < 128"
    and d: "da_cStreamSourceIp d = replicate 16 0" "da_cDevId d = replicate 128 0"
  shows "\<exists>p. sscanf_sms (sms_text ip port dev) d (replicate 8 0) =
    Some (d\<lparr>da_cStreamSourceIp := strncpy 16 ip, da_cDevId := strncpy 128 dev\<rparr>, p) \<and> c_str p = Some (print_nat port)"
proof -
  have l: "length (print_nat port) < 8" using length_print_nat [of port 6] port by simp
  have pn: "print_nat port \<noteq> []" "0x2F \<notin> set (print_nat port)" "0 \<notin> set (print_nat port)"
    using print_nat_Cons [of port] no_slash [of port] print_nat_digits [of port] by (auto simp: is_digit_def)
  have 1: "takeWhile (\<lambda>c. c \<noteq> 0x3A) (sms_text ip port dev) = ip"
    "dropWhile (\<lambda>c. c \<noteq> 0x3A) (sms_text ip port dev) = 0x3A # print_nat port @ 0x2F # dev"
    using ip(2) by (auto simp: sms_text_def takeWhile_append dropWhile_append)
  have 2: "takeWhile (\<lambda>c. c \<noteq> 0x2F) (print_nat port @ 0x2F # dev) = print_nat port"
    "dropWhile (\<lambda>c. c \<noteq> 0x2F) (print_nat port @ 0x2F # dev) = 0x2F # dev"
    using pn(2) by (auto simp: takeWhile_append dropWhile_append)
  have 3: "takeWhile (\<lambda>c. \<not> is_space c) dev = dev" using dev(2) by (simp add: takeWhile_eq_all_conv)
  have 4: "dropWhile is_space dev = dev" using dev(1,2) by (cases dev) simp_all
  have s: "c_str (strncpy 8 (print_nat port)) = Some (print_nat port)" by (rule c_str_strncpy_text [OF pn(3) l])
  show ?thesis
    using 1 2 4 s pn ip dev d mem_write_text [of ip 16] mem_write_text [OF pn(3) l] mem_write_text [of dev 128]
    by (simp add: sscanf_sms_def Let_def 3)
qed


section \<open>The offer\<close>

text \<open>
  The description of an offer the server understands: who sends it, where the stream is to go, one video, and
  where the media server has it.
\<close>

record offer =
  of_user :: bytes
  of_address :: bytes
  of_port :: nat
  of_source_ip :: bytes
  of_source_port :: nat
  of_device :: bytes
  of_mode :: "bytes option"
  of_ssrc :: "bytes option"

definition offers :: "desc \<Rightarrow> offer \<Rightarrow> bool" where
  "offers d x \<longleftrightarrow> (\<exists>us n t m. d_o d = of_user x # us \<and> d_c d = Some (n, t, of_address x) \<and> d_y d = of_ssrc x \<and>
     d_m d = [m] \<and> md_media m = of_string ''video'' \<and> md_port m = print_nat (of_port x) \<and>
     map_of (md_a m) (of_string ''sms'') = Some (sms_text (of_source_ip x) (of_source_port x) (of_device x)) \<and>
     map_of (md_a m) (of_string ''streamMode'') = of_mode x)"

text \<open>The parts fit the fields they are read into.\<close>

definition offer_fits :: "offer \<Rightarrow> bool" where
  "offer_fits x \<longleftrightarrow> length (of_address x) < 16 \<and> of_port x < 2 ^ 31 \<and>
     of_source_ip x \<noteq> [] \<and> 0x3A \<notin> set (of_source_ip x) \<and> 0 \<notin> set (of_source_ip x) \<and> length (of_source_ip x) < 16 \<and>
     of_source_port x < 10000000 \<and>
     of_device x \<noteq> [] \<and> (\<forall>c\<in>set (of_device x). \<not> is_space c) \<and> 0 \<notin> set (of_device x) \<and> length (of_device x) < 128"

definition offer_args :: "offer \<Rightarrow> bytes option \<Rightarrow> SIP_DEV_ARGS" where
  "offer_args x cid =
     \<lparr>da_cSsrc = (case of_ssrc x of None \<Rightarrow> replicate 16 0 | Some t \<Rightarrow> strncpy 16 t),
      da_cCallId = (case cid of None \<Rightarrow> replicate 32 0 | Some c \<Rightarrow> strncpy 32 c),
      da_cDevSn = strncpy 32 (of_user x), da_cPushIp = strncpy 16 (of_address x), da_iPushPort = int (of_port x),
      da_cDevId = strncpy 128 (of_device x), da_iDevChnl = 0,
      da_iStreamType = (if \<exists>t. of_mode x = Some t \<and> strstr_in (of_string ''SUB'') t then 1 else 0),
      da_cStreamSourceIp = strncpy 16 (of_source_ip x), da_iStreamSourcePort = int (of_source_port x)\<rparr>"

lemma invite_media_reads:
  assumes h: "holds_desc s d" and m: "0 < length (d_m d)" "md_media (d_m d ! 0) = of_string ''video''"
      "md_port (d_m d ! 0) = print_nat (of_port x)"
      "map_of (md_a (d_m d ! 0)) (of_string ''sms'') = Some (sms_text (of_source_ip x) (of_source_port x) (of_device x))"
      "map_of (md_a (d_m d ! 0)) (of_string ''streamMode'') = of_mode x"
    and fits: "offer_fits x" and a: "da_cStreamSourceIp a = replicate 16 0" "da_cDevId a = replicate 128 0"
  shows "invite_media s 0 a = Some (a\<lparr>da_iPushPort := int (of_port x), da_cStreamSourceIp := strncpy 16 (of_source_ip x),
    da_cDevId := strncpy 128 (of_device x), da_iStreamSourcePort := int (of_source_port x),
    da_iStreamType := (if \<exists>t. of_mode x = Some t \<and> strstr_in (of_string ''SUB'') t then 1 else 0)\<rparr>)"
proof -
  have ty: "str_of s (sdp_media_type s 0) = Some (of_string ''video'')"
    using media_values [OF h m(1), of "[]"] m(2) by simp
  have port: "sdp_media_port s 0 = Some (0, Some (int (of_port x), 1))"
    using media_port_value [OF h m(1), of "of_port x" 0 True] m(3) fits by (simp add: offer_fits_def)
  obtain p where p: "sdp_media_attribute_find s 0 (Some (of_string ''sms'')) = Some p"
      "str_of s p = Some (sms_text (of_source_ip x) (of_source_port x) (of_device x))"
    using media_values [OF h m(1), of "of_string ''sms''"] m(4) by auto
  obtain q where q: "sdp_media_attribute_find s 0 (Some (of_string ''streamMode'')) = Some q" "str_of s q = of_mode x"
      "q = None \<longleftrightarrow> of_mode x = None"
    using media_values [OF h m(1), of "of_string ''streamMode''"] m(5) by auto
  obtain i where i: "p = Some i" "str_at s i = Some (sms_text (of_source_ip x) (of_source_port x) (of_device x))"
    using p(2) by (cases p) (auto simp: str_of_def)
  let ?a = "a\<lparr>da_iPushPort := int (of_port x)\<rparr>"
  let ?b = "?a\<lparr>da_cStreamSourceIp := strncpy 16 (of_source_ip x), da_cDevId := strncpy 128 (of_device x)\<rparr>"
  obtain r where r: "sscanf_sms (sms_text (of_source_ip x) (of_source_port x) (of_device x)) ?a (replicate 8 0) = Some (?b, r)"
      "c_str r = Some (print_nat (of_source_port x))"
    using sscanf_sms_reads [of "of_source_ip x" "of_source_port x" "of_device x" ?a] fits a by (auto simp: offer_fits_def)
  have n: "sint (atoi (print_nat (of_source_port x))) = int (of_source_port x)"
    using sint_atoi_print [of "of_source_port x" "[]"] fits by (simp add: offer_fits_def)
  have sub: "(case q of None \<Rightarrow> Some False | Some p \<Rightarrow> map_option (strstr_in (of_string ''SUB'')) (str_at s p)) =
      Some (\<exists>t. of_mode x = Some t \<and> strstr_in (of_string ''SUB'') t)"
    using q(2,3) by (cases q) (auto simp: str_of_def)
  show ?thesis
    using ty port p(1) i q(1) r n sub by (simp add: invite_media_def Let_def)
qed


lemma parase_offer:
  assumes "lines_ok ls" and "\<And>n. mem n" and "sip_body m = Some (print_sdp ls)"
    and "offers (describes ls) x" and "offer_fits x"
  shows "parase_invite mem m dev_args_zero = Some (HB_SUCCESS, offer_args x (sip_call_id m))"
proof -
  obtain s where s: "sdp_parse mem (print_sdp ls) = Some (Some s)" "holds_desc s (describes ls)"
    using parse_printed [where mem = mem and ls = ls] assms(1,2) by blast
  obtain us n t md where d: "d_o (describes ls) = of_user x # us" "d_c (describes ls) = Some (n, t, of_address x)"
      "d_y (describes ls) = of_ssrc x" "d_m (describes ls) = [md]" "md_media md = of_string ''video''" "md_port md = print_nat (of_port x)"
      "map_of (md_a md) (of_string ''sms'') = Some (sms_text (of_source_ip x) (of_source_port x) (of_device x))"
      "map_of (md_a md) (of_string ''streamMode'') = of_mode x"
    using assms(4) unfolding offers_def by blast
  obtain ps where o: "sdp_origin_get s = Some ps" "str_at s (hd ps) = Some (of_user x)" by (rule origin_user [OF s(2) d(1)])
  obtain p q r where c: "sdp_connection_get s = Some (p, q, r)" "str_at s r = Some (of_address x)"
    by (rule connection_address_of [OF s(2) d(2)])
  have adr: "c_str (strncpy 16 (of_address x)) \<noteq> None"
  proof -
    have "0 \<notin> set (of_address x)" using c(2) c_str_no_nul by (auto simp: str_at_def)
    then show ?thesis using c_str_strncpy_text assms(5) by (simp add: offer_fits_def)
  qed
  have count: "sdp_media_count s = 1" using media_values [OF s(2), of 0 "[]"] d(4) by simp
  let ?a = "dev_args_zero\<lparr>da_cDevSn := strncpy 32 (of_user x), da_cPushIp := strncpy 16 (of_address x)\<rparr>"
  let ?b = "case of_ssrc x of None \<Rightarrow> ?a | Some t \<Rightarrow> ?a\<lparr>da_cSsrc := strncpy 16 t\<rparr>"
  let ?c = "case sip_call_id m of None \<Rightarrow> ?b | Some cid \<Rightarrow> ?b\<lparr>da_cCallId := strncpy 32 cid\<rparr>"
  have y: "(case sdp_y_get s of None \<Rightarrow> Some ?a | Some p \<Rightarrow> map_option (\<lambda>t. ?a\<lparr>da_cSsrc := strncpy 16 t\<rparr>) (str_at s p)) = Some ?b"
    using ssrc_of [OF s(2)] d(3) by (auto split: option.splits)
  have m: "invite_media s 0 ?c = Some (offer_args x (sip_call_id m))"
    by (subst invite_media_reads [OF s(2) _ _ _ _ _ assms(5)])
      (simp_all add: d dev_args_zero_def offer_args_def split: option.splits)
  have i: "[0..<nat (sdp_media_count s)] = [0]" by (simp add: count)
  show ?thesis
    using s(1) o c adr y m destroy_defined [OF s(2)] count
    by (auto simp: parase_invite_def assms(3) i Let_def)
qed

text \<open>
  C18. An offer is read as it was meant, from the bytes on. When the body of an \<open>INVITE\<close> is any printed description that
  makes an offer whose parts fit their fields, \<open>parase_invite\<close> succeeds and the arguments of the session are exactly
  those of the offer: the device and the media server out of the \<open>sms\<close> attribute, the main or the sub stream, where
  to push, the SSRC and the call id.
\<close>

theorem invite_offer_read:
  assumes "lines_ok ls" and "\<And>n. mem n" and "sip_body m = Some (print_sdp ls)"
    and "offers (describes ls) x" and "offer_fits x"
  shows "parase_invite mem m dev_args_zero = Some (HB_SUCCESS, offer_args x (sip_call_id m))"
  using assms by (rule parase_offer)

end
