(* ===== verification/SipSpec.thy ===== *)
theory SipSpec
  imports SipOffer
begin

text \<open>
  The SIP side keeps its table sound: every session is linked under its call id, its node is allocated and has texts that
  end inside their fields, and so has every message that waits for the stream side.
\<close>

section \<open>The table\<close>

lemma chains_cong:
  assumes "\<And>i a. i < length bs \<Longrightarrow> a \<in> set (bs ! i) \<Longrightarrow> nkey' a = nkey a"
  shows "chains_ok nkey' hb bs = chains_ok nkey hb bs"
    and "hb k < length bs \<Longrightarrow> chains_map nkey' hb bs k = chains_map nkey hb bs k"
proof -
  show "chains_ok nkey' hb bs = chains_ok nkey hb bs"
    using assms by (simp add: chains_ok_def inj_on_def cong: conj_cong) 
  have "find (\<lambda>a. nkey' a = Some k) xs = find (\<lambda>a. nkey a = Some k) xs" if "\<forall>a\<in>set xs. nkey' a = nkey a" for xs
    using that by (induction xs) auto
  then show "hb k < length bs \<Longrightarrow> chains_map nkey' hb bs k = chains_map nkey hb bs k"
    using assms by (simp add: chains_map_def la_seek_def)
qed

text \<open>A node changed in other fields.\<close>

lemma sip_put:
  assumes ok: "sip_ok hf t" and n: "sip_nodes t a = Some n" "sn_cCallId n' = sn_cCallId n" "sn_iSipNodeHashValue n' = sn_iSipNodeHashValue n"
  shows "sip_ok hf (t\<lparr>sip_nodes := (sip_nodes t)(a \<mapsto> n')\<rparr>) \<and>
    sip_sessions hf (t\<lparr>sip_nodes := (sip_nodes t)(a \<mapsto> n')\<rparr>) = sip_sessions hf t"
proof -
  let ?t = "t\<lparr>sip_nodes := (sip_nodes t)(a \<mapsto> n')\<rparr>"
  have k: "sip_key ?t = sip_key t" "sip_bucket hf ?t = sip_bucket hf t"
    using n by (auto simp: sip_key_def sip_bucket_def fun_eq_iff)
  show ?thesis using ok n unfolding sip_ok_def sip_sessions_def k by (auto simp: sip_ok_def)
qed

lemma sip_session_node:
  assumes ok: "sip_ok hf t" and a: "sip_sessions hf t k = Some a"
  shows "sip_key t a = Some k" and "sip_nodes t a \<noteq> None"
proof -
  have c: "chains_ok (sip_key t) (sip_bucket hf t) (listSipNodeHead t)" using ok by (simp add: sip_ok_def)
  show "sip_key t a = Some k"
    using a chains_map_Some [OF c sip_bucket_range [OF ok]] by (simp add: sip_sessions_def)
  then show "sip_nodes t a \<noteq> None" by (auto simp: sip_key_def split: bind_splits)
qed

text \<open>A session taken off the table and freed.\<close>

lemma sip_drop:
  assumes ok: "sip_ok hf t" and a: "sip_sessions hf t k = Some a"
  shows "\<exists>t'. del_node_from_sip_hash_table t a = Some t' \<and> sip_nodes t' = sip_nodes t \<and>
    sip_ok hf (t'\<lparr>sip_nodes := (sip_nodes t')(a := None)\<rparr>) \<and>
    sip_sessions hf (t'\<lparr>sip_nodes := (sip_nodes t')(a := None)\<rparr>) = (sip_sessions hf t)(k := None)"
proof -
  obtain t' where t': "del_node_from_sip_hash_table t a = Some t'" "sip_ok hf t'" "sip_sessions hf t' = (sip_sessions hf t)(k := None)"
    using sip_delete [OF ok a] by blast
  have n: "sip_nodes t' = sip_nodes t" using t'(1) by (auto simp: del_node_from_sip_hash_table_def Let_def split: bind_splits if_splits)
  let ?u = "t'\<lparr>sip_nodes := (sip_nodes t')(a := None)\<rparr>"
  have b: "sip_bucket hf ?u = sip_bucket hf t'" by (simp add: sip_bucket_def fun_eq_iff)
  have ka: "sip_key t' a = Some k" using sip_session_node [OF ok a] n by (simp add: sip_key_def)
  have c: "chains_ok (sip_key t') (sip_bucket hf t') (listSipNodeHead t')" using t'(2) by (simp add: sip_ok_def)
  have out: "a \<notin> set (listSipNodeHead t' ! i)" if i: "i < length (listSipNodeHead t')" for i
  proof
    assume mem: "a \<in> set (listSipNodeHead t' ! i)"
    then have "sip_bucket hf t' k = i" using chains_member [OF c i mem] ka by auto
    then have "sip_sessions hf t' k = Some a"
      using chains_map_Some [OF c sip_bucket_range [OF t'(2)]] mem ka by (simp add: sip_sessions_def)
    then show False using t'(3) by simp
  qed
  have same: "sip_key ?u x = sip_key t' x" if "i < length (listSipNodeHead t')" "x \<in> set (listSipNodeHead t' ! i)" for i x
    using out [OF that(1)] that(2) by (auto simp: sip_key_def)
  have "sip_ok hf ?u"
    unfolding sip_ok_def b using t'(2) chains_cong(1) [of "listSipNodeHead t'" "sip_key ?u" "sip_key t'" "sip_bucket hf t'", OF same]
    by (auto simp: sip_ok_def sip_key_def split: if_splits)
  moreover have "sip_sessions hf ?u = sip_sessions hf t'"
    unfolding sip_sessions_def b fun_eq_iff
    using chains_cong(2) [of "listSipNodeHead t'" "sip_key ?u" "sip_key t'" "sip_bucket hf t'", OF same] sip_bucket_range [OF t'(2)]
    by simp
  ultimately show ?thesis using t' n by auto
qed

section \<open>The invariant\<close>

text \<open>The texts of a node end inside their fields.\<close>

definition node_shown :: "SIP_NODE \<Rightarrow> bool" where
  "node_shown n \<longleftrightarrow> c_str (sn_cSipDevSn n) \<noteq> None \<and> c_str (sn_cPushIp n) \<noteq> None"

definition node_sized :: "SIP_NODE \<Rightarrow> bool" where
  "node_sized n \<longleftrightarrow> length (sn_cDevId n) = 128 \<and> c_str (sn_cDevId n) \<noteq> None \<and>
     length (sn_cCallId n) = 32 \<and> c_str (sn_cCallId n) \<noteq> None \<and> node_shown n"

lemma node_cmd [simp]: "node_sized (n\<lparr>sn_enumCmdType := c\<rparr>) = node_sized n"
  by (simp add: node_sized_def node_shown_def)

definition sip_world_ok :: "(bytes \<Rightarrow> u32) \<Rightarrow> sip_world \<Rightarrow> bool" where
  "sip_world_ok hf w \<longleftrightarrow> sip_ok hf (sip_table w) \<and>
     (\<forall>a n. sip_nodes (sip_table w) a = Some n \<longrightarrow> node_sized n \<and> (\<exists>k. sip_sessions hf (sip_table w) k = Some a)) \<and>
     (\<forall>n\<in>set (to_stream w). node_sized n \<and> sn_enumCmdType n \<noteq> CMD_NONE)"

lemma sip_world_parts:
  assumes "sip_world_ok hf w"
  shows "sip_ok hf (sip_table w)" "sip_nodes (sip_table w) a = Some n \<Longrightarrow> node_sized n"
    "sip_nodes (sip_table w) a = Some n \<Longrightarrow> \<exists>k. sip_sessions hf (sip_table w) k = Some a"
    "n \<in> set (to_stream w) \<Longrightarrow> node_sized n"
  using assms by (auto simp: sip_world_ok_def)

lemma sip_note_ok [simp]: "sip_world_ok hf (sip_note e w) = sip_world_ok hf w"
  by (simp add: sip_world_ok_def sip_note_def)

lemma sip_note_simps [simp]:
  "sip_table (sip_note e w) = sip_table w" "to_stream (sip_note e w) = to_stream w" "sip_trace (sip_note e w) = sip_trace w @ [e]"
  by (simp_all add: sip_note_def)

lemma node_sized_key: "node_sized n \<Longrightarrow> stream_request_key n \<noteq> None"
  by (auto simp: node_sized_def stream_request_key_def)

text \<open>The arguments that are read from a request.\<close>

definition args_sized :: "SIP_DEV_ARGS \<Rightarrow> bool" where
  "args_sized d \<longleftrightarrow> length (da_cDevId d) = 128 \<and> 0 \<in> set (da_cDevId d) \<and> length (da_cCallId d) = 32"

lemma mem_write_nul: "mem_write b 0 (w @ [0]) = Some b' \<Longrightarrow> length b' = length b \<and> 0 \<in> set b'"
  by (auto simp: mem_write_def split: if_splits)

lemma sscanf_sized: "sscanf_sms t d p = Some (d', p') \<Longrightarrow> args_sized d \<Longrightarrow> args_sized d'"
  by (auto simp: sscanf_sms_def Let_def args_sized_def split: if_splits bind_splits dest: mem_write_nul)

lemma invite_media_sized: "invite_media s i d = Some d' \<Longrightarrow> args_sized d \<Longrightarrow> args_sized d'"
  by (auto simp: invite_media_def Let_def split: if_splits bind_splits option.splits)
    (auto simp: args_sized_def dest: sscanf_sized)

lemma invite_medias_sized: "invite_medias s is d = Some d' \<Longrightarrow> args_sized d \<Longrightarrow> args_sized d'"
  by (induction "is" arbitrary: d) (auto split: bind_splits dest: invite_media_sized)

lemma args_sized_simps [simp]:
  "args_sized (d\<lparr>da_cDevSn := a\<rparr>) = args_sized d" "args_sized (d\<lparr>da_cPushIp := a\<rparr>) = args_sized d"
  "args_sized (d\<lparr>da_cSsrc := a\<rparr>) = args_sized d" "args_sized (d\<lparr>da_cCallId := strncpy 32 c\<rparr>) = args_sized d"
  if "args_sized d" for d
  using that by (simp_all add: args_sized_def)

lemma parase_invite_sized: "parase_invite mem m d = Some (r, d') \<Longrightarrow> args_sized d \<Longrightarrow> args_sized d'"
  by (auto simp: parase_invite_def Let_def split: if_splits bind_splits option.splits dest!: invite_medias_sized)

lemma dev_args_zero_sized: "args_sized dev_args_zero"
  by (simp add: args_sized_def dev_args_zero_def)

lemma bind_loop_dev: "bind_loop rtcp bs socks n = Some (n', es) \<Longrightarrow> sn_cDevId n' = sn_cDevId n"
  by (induction rtcp bs socks n arbitrary: n' es rule: bind_loop.induct)
     (fastforce simp: Let_def split: if_splits list.splits)+

lemma udp_bind_dev: "udp_bind_local_port rtcp na n = Some (rc, n', es) \<Longrightarrow> sn_cDevId n' = sn_cDevId n"
  by (auto simp: udp_bind_local_port_def Let_def split: list.splits if_splits dest: bind_loop_dev)

lemma new_node_sized:
  assumes "args_sized d" "c_str (da_cCallId d) \<noteq> None" "sip_fill_node d h = Some n0" "udp_bind_local_port rtcp na n0 = Some (rc, n, es)"
    and "node_shown n"
  shows "node_sized n"
proof -
  have "sn_cDevId n0 = strncpy 128 (da_cDevId d)" "sn_cCallId n0 = strncpy 32 (da_cCallId d)"
    using assms(3) by (auto simp: sip_fill_node_def split: bind_splits)
  then have n: "sn_cDevId n = strncpy 128 (da_cDevId d)" "sn_cCallId n = strncpy 32 (da_cCallId d)"
    using udp_bind_dev [OF assms(4)] udp_bind_frame [OF assms(4)] by simp_all
  obtain k e where "c_str (da_cCallId d) = Some k" "c_str (da_cDevId d) = Some e"
    using assms(1,2) by (auto simp: args_sized_def c_str_def)
  then show ?thesis
    using c_str_strncpy [of "da_cDevId d" e 128] c_str_strncpy [of "da_cCallId d" k 32] assms(1,5)
    by (simp add: node_sized_def n args_sized_def)
qed

lemma insert_world_ok:
  assumes ok: "sip_world_ok hf w" and d: "args_sized d" and free: "sip_nodes (sip_table w) a = None"
    and ins: "insert_node_to_sip_hash_table hf rtcp na (sip_table w) d a = Some (b, t')"
    and shown: "\<And>n. sip_nodes t' b = Some n \<Longrightarrow> node_shown n"
  shows "sip_world_ok hf (w\<lparr>sip_table := t'\<rparr>)"
proof -
  obtain k where k: "c_str (da_cCallId d) = Some k" using ins by (auto simp: insert_node_to_sip_hash_table_def split: bind_splits)
  have l: "length (da_cCallId d) \<le> 32" using d by (simp add: args_sized_def)
  note p = sip_world_parts [OF ok]
  note made = sip_insert_done [OF p(1) l k free ins]
  show ?thesis
  proof (cases "sip_sessions hf (sip_table w) k")
    case (Some c)
    then show ?thesis using made ok by simp
  next
    case None
    then obtain n0 n es where n: "sip_fill_node d (sip_bucket hf (sip_table w) k) = Some n0"
        "udp_bind_local_port rtcp na n0 = Some (HB_SUCCESS, n, es)" "sip_nodes t' = (sip_nodes (sip_table w))(a \<mapsto> n)"
        "sip_ok hf t'" "sip_sessions hf t' = (sip_sessions hf (sip_table w))(k \<mapsto> a)" "b = a"
      using made by auto
    have s: "node_sized n" by (rule new_node_sized [OF d _ n(1,2)]) (use k shown [of n] n(3,6) in simp_all)
    have "\<exists>k'. sip_sessions hf t' k' = Some x" if x: "sip_nodes (sip_table w) x = Some m" "x \<noteq> a" for x m
    proof -
      obtain k' where k': "sip_sessions hf (sip_table w) k' = Some x" using p(3) [OF x(1)] by blast
      then have "k' \<noteq> k" using None by auto
      then show ?thesis using k' n(5) by auto
    qed
    then show ?thesis using ok n s by (auto simp: sip_world_ok_def)
  qed
qed

lemma tell_stream_ok:
  assumes ok: "sip_world_ok hf w" and a: "tell_stream cmd a w = Some w'" and cmd: "cmd \<noteq> CMD_NONE"
  shows "sip_world_ok hf w' \<and> sip_sessions hf (sip_table w') = sip_sessions hf (sip_table w) \<and>
    (\<exists>n. sip_nodes (sip_table w) a = Some n \<and> to_stream w' = to_stream w @ [n\<lparr>sn_enumCmdType := cmd\<rparr>] \<and>
       sip_nodes (sip_table w') = (sip_nodes (sip_table w))(a \<mapsto> n\<lparr>sn_enumCmdType := cmd\<rparr>)) \<and> sip_trace w' = sip_trace w"
proof -
  obtain n where n: "sip_nodes (sip_table w) a = Some n"
    and w': "w' = w\<lparr>sip_table := (sip_table w)\<lparr>sip_nodes := (sip_nodes (sip_table w))(a \<mapsto> n\<lparr>sn_enumCmdType := cmd\<rparr>)\<rparr>,
      to_stream := to_stream w @ [n\<lparr>sn_enumCmdType := cmd\<rparr>]\<rparr>"
    using a by (auto simp: tell_stream_def Let_def split: bind_splits)
  note p = sip_world_parts [OF ok]
  have s: "node_sized (n\<lparr>sn_enumCmdType := cmd\<rparr>)" using p(2) [OF n] by simp
  note q = sip_put [OF p(1) n, of "n\<lparr>sn_enumCmdType := cmd\<rparr>", simplified]
  show ?thesis using ok q s n cmd by (auto simp: w' sip_world_ok_def)
qed

lemma drop_session_ok:
  assumes ok: "sip_world_ok hf w" and a: "sip_sessions hf (sip_table w) k = Some a"
  shows "\<exists>w'. drop_session a w = Some w' \<and> sip_world_ok hf w' \<and> to_stream w' = to_stream w \<and> sip_trace w' = sip_trace w \<and>
    sip_sessions hf (sip_table w') = (sip_sessions hf (sip_table w))(k := None) \<and> sip_nodes (sip_table w') a = None"
proof -
  note p = sip_world_parts [OF ok]
  obtain t' where t: "del_node_from_sip_hash_table (sip_table w) a = Some t'" "sip_nodes t' = sip_nodes (sip_table w)"
    "sip_ok hf (t'\<lparr>sip_nodes := (sip_nodes t')(a := None)\<rparr>)"
    "sip_sessions hf (t'\<lparr>sip_nodes := (sip_nodes t')(a := None)\<rparr>) = (sip_sessions hf (sip_table w))(k := None)"
    using sip_drop [OF p(1) a] by blast
  have n: "sip_nodes t' a \<noteq> None" using sip_session_node [OF p(1) a] t(2) by simp
  have link: "\<exists>k'. ((sip_sessions hf (sip_table w))(k := None)) k' = Some x" if x: "sip_nodes (sip_table w) x = Some m" "x \<noteq> a" for x m
  proof -
    obtain k' where "sip_sessions hf (sip_table w) k' = Some x" using p(3) [OF x(1)] by blast
    then show ?thesis using a x(2) by (intro exI [of _ k']) auto
  qed
  let ?w = "w\<lparr>sip_table := t'\<lparr>sip_nodes := (sip_nodes t')(a := None)\<rparr>\<rparr>"
  have "drop_session a w = Some ?w" using t(1) n by (simp add: drop_session_def)
  moreover have "sip_world_ok hf ?w" using ok t(2-4) link by (auto simp: sip_world_ok_def)
  ultimately show ?thesis using t(4) by auto
qed


section \<open>Every event keeps it\<close>

lemma sip_pair_ok:
  assumes ok: "sip_world_ok hf w" and r: "sip_pair_read_cb hf cmd cid w = Some w'"
  shows "sip_world_ok hf w'"
proof (cases "cmd = STOP")
  case True
  note p = sip_world_parts [OF ok]
  obtain f where f: "find_node_from_sip_hash_table hf (sip_table w) cid = Some f"
    using r True by (auto simp: sip_pair_read_cb_def split: bind_splits)
  obtain k where k: "c_str cid = Some k" using f by (auto simp: find_node_from_sip_hash_table_def split: bind_splits)
  have "f = sip_sessions hf (sip_table w) k" using sip_find [OF p(1) k] f by simp
  then show ?thesis using r True f ok drop_session_ok [OF ok] by (fastforce simp: sip_pair_read_cb_def split: option.splits)
next
  case False
  then show ?thesis using r ok by (simp add: sip_pair_read_cb_def)
qed

lemma answer_shown: "answer_body ip n = Some body \<Longrightarrow> node_shown n"
  by (auto simp: answer_body_def node_shown_def split: bind_splits)

lemma recv_invite_ok:
  assumes ok: "sip_world_ok (se_hash e) w" and free: "sip_nodes (sip_table w) (se_node e) = None" and r: "recv_invite e m w = Some w'"
  shows "sip_world_ok (se_hash e) w'"
proof -
  obtain rc d where d: "parase_invite (se_memory e) m dev_args_zero = Some (rc, d)"
    using r by (auto simp: recv_invite_def split: bind_splits)
  have s: "args_sized d" by (rule parase_invite_sized [OF d dev_args_zero_sized])
  show ?thesis
  proof (cases "rc = HB_SUCCESS")
    case True
    then obtain a t n ip body w1 where t: "insert_node_to_sip_hash_table (se_hash e) (se_rtcp e) (se_net e) (sip_table w) d (se_node e) = Some (a, t)"
        "sip_nodes t a = Some n" "answer_body ip n = Some body" "w' = sip_note Response_free (sip_note w1 (w\<lparr>sip_table := t\<rparr>))"
      using r d by (auto simp: recv_invite_def Let_def split: bind_splits)
    then show ?thesis using insert_world_ok [OF ok s free t(1)] answer_shown [OF t(3)] by simp
  next
    case False
    then show ?thesis using r d ok by (simp add: recv_invite_def)
  qed
qed

text \<open>A search that returns found what the table holds under the text of its key.\<close>

lemma sip_find_done:
  assumes "sip_ok hf t" "find_node_from_sip_hash_table hf t cid = Some f"
  shows "\<exists>k. c_str cid = Some k \<and> f = sip_sessions hf t k"
proof -
  obtain k where "c_str cid = Some k" using assms(2) by (auto simp: find_node_from_sip_hash_table_def split: bind_splits)
  then show ?thesis using sip_find [OF assms(1)] assms(2) by auto
qed

lemma tell_drop_ok:
  assumes ok: "sip_world_ok hf w" and a: "sip_sessions hf (sip_table w) k = Some a" and cmd: "cmd \<noteq> CMD_NONE"
  shows "\<exists>n w' w''. sip_nodes (sip_table w) a = Some n \<and> tell_stream cmd a w = Some w' \<and> sip_world_ok hf w' \<and>
    to_stream w' = to_stream w @ [n\<lparr>sn_enumCmdType := cmd\<rparr>] \<and> sip_trace w' = sip_trace w \<and>
    sip_sessions hf (sip_table w') = sip_sessions hf (sip_table w) \<and>
    drop_session a w' = Some w'' \<and> sip_world_ok hf w'' \<and> to_stream w'' = to_stream w' \<and> sip_trace w'' = sip_trace w \<and>
    sip_sessions hf (sip_table w'') = (sip_sessions hf (sip_table w))(k := None)"
proof -
  obtain n where n: "sip_nodes (sip_table w) a = Some n" using sip_session_node [OF sip_world_parts(1) [OF ok] a] by blast
  obtain w' where w': "tell_stream cmd a w = Some w'" using n by (simp add: tell_stream_def Let_def)
  note t = tell_stream_ok [OF ok w' cmd]
  obtain w'' where "drop_session a w' = Some w''" "sip_world_ok hf w''" "to_stream w'' = to_stream w'" "sip_trace w'' = sip_trace w'"
    "sip_sessions hf (sip_table w'') = (sip_sessions hf (sip_table w'))(k := None)"
    using drop_session_ok [of hf w' k a] t a by auto
  then show ?thesis using n w' t by auto
qed

lemma recv_ack_ok:
  assumes ok: "sip_world_ok (se_hash e) w" and r: "recv_ack e m w = Some w'"
  shows "sip_world_ok (se_hash e) w'"
proof (cases "sip_call_id m")
  case None
  then show ?thesis using r ok by (simp add: recv_ack_def parase_ack_bye_def HB_SUCCESS_def HB_FAILURE_def)
next
  case (Some cid)
  then obtain f where f: "find_node_from_sip_hash_table (se_hash e) (sip_table w) (strncpy 32 cid) = Some f"
    using r by (auto simp: recv_ack_def parase_ack_bye_def split: bind_splits)
  show ?thesis
    using r Some f ok tell_stream_ok [OF ok, of PLAY] by (auto simp: recv_ack_def parase_ack_bye_def split: option.splits)
qed

lemma recv_bye_ok:
  assumes ok: "sip_world_ok (se_hash e) w" and r: "recv_bye e m w = Some (b, w')"
  shows "sip_world_ok (se_hash e) w'"
proof (cases "sip_call_id m")
  case None
  then show ?thesis using r ok by (simp add: recv_bye_def parase_ack_bye_def HB_SUCCESS_def HB_FAILURE_def)
next
  case (Some cid)
  then obtain answer f where f: "find_node_from_sip_hash_table (se_hash e) (sip_table w) (strncpy 32 cid) = Some f"
    and r': "(case f of None \<Rightarrow> Some (sip_note Response_free (sip_note (Answer answer) w))
            | Some a \<Rightarrow> do { w \<leftarrow> tell_stream STOP a (sip_note Response_free (sip_note (Answer answer) w)); drop_session a w }) = Some w'"
    using r by (auto simp: recv_bye_def parase_ack_bye_def Let_def split: bind_splits)
  let ?w = "sip_note Response_free (sip_note (Answer answer) w)"
  have ok': "sip_world_ok (se_hash e) ?w" using ok by simp
  obtain k where k: "f = sip_sessions (se_hash e) (sip_table w) k" using sip_find_done [OF sip_world_parts(1) [OF ok] f] by blast
  show ?thesis
  proof (cases f)
    case None
    then show ?thesis using r' ok' by auto
  next
    case (Some a)
    then show ?thesis using tell_drop_ok [OF ok', of k a STOP] k r' by auto
  qed
qed

lemma udp_recv_ok:
  assumes ok: "sip_world_ok (se_hash e) w" and free: "sip_nodes (sip_table w) (se_node e) = None" and r: "udp_recv_cb e b w = Some w'"
  shows "sip_world_ok (se_hash e) w'"
proof -
  let ?w = "sip_note Request_init w"
  have "sip_world_ok (se_hash e) ?w" "sip_nodes (sip_table ?w) (se_node e) = None" using ok free by simp_all
  note h = recv_invite_ok [OF this] recv_ack_ok [OF this(1)] recv_bye_ok [OF this(1)]
  show ?thesis
    using r ok h by (cases b) (auto simp: udp_recv_cb_def Let_def split: bind_splits CONTENT_TYPE_E.splits if_splits)
qed

end
