(* ===== verification/SipAnswer.thy ===== *)
theory SipAnswer
  imports SipSpec
begin

text \<open>
  The answer to an offer: its text is a description that the server's own parser reads back, and the whole handler
  of an \<open>INVITE\<close> is its specification when the message library does what it is called for.
\<close>

section \<open>The description in the answer\<close>

definition answer_lines :: "bytes \<Rightarrow> bytes \<Rightarrow> bytes \<Rightarrow> SIP_NODE \<Rightarrow> sdp_line list" where
  "answer_lines local_ip sn push n =
    [VLine 0,
     OLine sn [0x30] [0x30] (of_string ''IN'') (of_string ''IP4'') push,
     SLine (of_string ''Play''),
     CLine (of_string ''IN'') (of_string ''IP4'') local_ip,
     TLine [0x30] [0x30],
     MLine (of_string ''video'') (print_int (sn_iUdpSendStreamPort n)) (of_string ''RTP/AVP'') [of_string ''96''],
     ALine (of_string ''streamMode'') (print_int (sn_iStreamType n)),
     ALine (of_string ''sendonly'') [],
     ALine (of_string ''rtpmap'') (of_string ''96 PS/90000''),
     YLine (print_nat (unat (sn_u32Ssrc n)))]"

text \<open>The parts of the answer are words, and a port and a type.\<close>

definition answer_fits :: "bytes \<Rightarrow> bytes \<Rightarrow> bytes \<Rightarrow> SIP_NODE \<Rightarrow> bool" where
  "answer_fits local_ip sn push n \<longleftrightarrow> is_word sn \<and> length sn < 32 \<and> is_word push \<and> length push < 16 \<and>
     is_word local_ip \<and> length local_ip < 16 \<and> 0 \<le> sn_iUdpSendStreamPort n \<and> sn_iUdpSendStreamPort n < 65536 \<and>
     0 \<le> sn_iStreamType n \<and> sn_iStreamType n < 2"

lemma digit_not: "is_digit c \<Longrightarrow> c \<notin> {0, 9, 0xA, 0xD, 0x20}"
  by (auto simp: is_digit_def)

lemma digits_word: "is_word (print_nat n)"
proof -
  have "is_digit c" if "c \<in> set (print_nat n)" for c using print_nat_digits [of n] that by blast
  then have "plain BLANKS_CRLF (print_nat n)" using digit_not by (fastforce simp: plain_def)
  then show ?thesis using print_nat_Cons [of n] by (auto simp: is_word_def)
qed

lemma word_text: "is_word w \<Longrightarrow> is_text w"
proof -
  assume w: "is_word w"
  then have "hd w \<in> set w" "last w \<in> set w" by (auto simp: is_word_def)
  then show ?thesis using w by (fastforce simp: is_word_def is_text_def plain_def blank_def)
qed

lemma answer_lines_ok: "answer_fits local_ip sn push n \<Longrightarrow> lines_ok (answer_lines local_ip sn push n)"
  using word_text by (simp add: lines_ok_def answer_lines_def answer_fits_def print_int_def digits_word [THEN word_text] digits_word)
    (simp add: of_string_def is_word_def is_text_def plain_def blank_def)

lemma answer_text:
  assumes "c_str (sn_cSipDevSn n) = Some sn" "c_str (sn_cPushIp n) = Some push" "answer_fits local_ip sn push n"
  shows "answer_body local_ip n = Some (print_sdp (answer_lines local_ip sn push n) @ crlf)"
proof -
  let ?t = "print_sdp (answer_lines local_ip sn push n) @ crlf"
  have p: "length (print_int (sn_iUdpSendStreamPort n)) \<le> 5" "length (print_int (sn_iStreamType n)) \<le> 5"
    using assms(3) length_print_nat [of "nat (sn_iUdpSendStreamPort n)" 4] length_print_nat [of "nat (sn_iStreamType n)" 4]
    by (auto simp: answer_fits_def print_int_def nat_less_iff)
  have y: "length (print_nat (unat (sn_u32Ssrc n))) \<le> 10"
    using length_print_nat [of "unat (sn_u32Ssrc n)" 9] unsigned_less [where 'a = nat, of "sn_u32Ssrc n"] by simp
  have z: "print_nat 0 = [0x30]" by (simp add: print_nat.simps)
  have "length ?t \<le> 4095"
    using assms(3) p y by (simp add: answer_fits_def print_sdp_def answer_lines_def print_line_def print_words_def print_pair_def
        crlf_def of_string_def z)
  then have "take 4095 ?t = ?t" by simp
  moreover have "print_int (sn_iStreamType n) \<noteq> []" using assms(3) print_nat_Cons [of "nat (sn_iStreamType n)"]
    by (auto simp: answer_fits_def print_int_def)
  ultimately show ?thesis
    using assms(1,2) unfolding answer_body_def
    by (simp add: print_sdp_def answer_lines_def print_line_def print_words_def print_pair_def crlf_def of_string_def z)
qed

text \<open>
  C17. The answer can be read. For a session whose texts are words and whose ports are in range, the body of the answer
  is a description that \<open>sdp_parse\<close> reads back: one video at the port the session is bound to, sent from the
  configured address, with the device as its user, and with an SSRC line that is read as the SSRC the
  packets will carry.
\<close>

theorem answer_read_back:
  assumes "c_str (sn_cSipDevSn n) = Some sn" "c_str (sn_cPushIp n) = Some push" and "answer_fits local_ip sn push n"
    and "\<And>k. mem k"
  shows "\<exists>body s ps p q r y. answer_body local_ip n = Some body \<and> sdp_parse mem body = Some (Some s) \<and>
    sdp_media_count s = 1 \<and> str_of s (sdp_media_type s 0) = Some (of_string ''video'') \<and>
    sdp_media_port s 0 = Some (0, Some (sn_iUdpSendStreamPort n, 1)) \<and>
    sdp_origin_get s = Some ps \<and> str_at s (hd ps) = Some sn \<and>
    sdp_connection_get s = Some (p, q, r) \<and> str_at s r = Some local_ip \<and>
    str_of s (sdp_y_get s) = Some y \<and> (unat (sn_u32Ssrc n) < 2 ^ 31 \<longrightarrow> atoi y = sn_u32Ssrc n)"
proof -
  let ?ls = "answer_lines local_ip sn push n" and ?y = "print_nat (unat (sn_u32Ssrc n))"
  obtain s where s: "sdp_parse mem (print_sdp ?ls @ crlf) = Some (Some s)" "holds_desc s (describes ?ls)"
    using parse_printed_rest [where mem = mem and rest = crlf, OF answer_lines_ok [OF assms(3)] assms(4)] by (auto simp: crlf_def)
  have d: "length (d_m (describes ?ls)) = 1" "md_media (d_m (describes ?ls) ! 0) = of_string ''video''"
    "md_port (d_m (describes ?ls) ! 0) = print_int (sn_iUdpSendStreamPort n)" "d_y (describes ?ls) = Some ?y"
    "d_o (describes ?ls) = sn # [[0x30], [0x30], of_string ''IN'', of_string ''IP4'', push]"
    "d_c (describes ?ls) = Some (of_string ''IN'', of_string ''IP4'', local_ip)"
    by (simp_all add: describes_def answer_lines_def desc0_def on_media_def)
  have m: "0 < length (d_m (describes ?ls))" using d(1) by simp
  note v = media_values [OF s(2) m, of "[]"]
  have port: "sdp_media_port s 0 = Some (0, Some (sn_iUdpSendStreamPort n, 1))"
    using media_port_value [OF s(2) m, of "nat (sn_iUdpSendStreamPort n)" 0 True] assms(3) d(3)
    by (simp add: answer_fits_def print_int_def nat_less_iff)
  obtain ps where o: "sdp_origin_get s = Some ps" "str_at s (hd ps) = Some sn" by (rule origin_user [OF s(2) d(5)])
  obtain p q r where c: "sdp_connection_get s = Some (p, q, r)" "str_at s r = Some local_ip"
    by (rule connection_address_of [OF s(2) d(6)])
  have y: "unat (sn_u32Ssrc n) < 2 ^ 31 \<longrightarrow> atoi ?y = sn_u32Ssrc n" using atoi_print [of "unat (sn_u32Ssrc n)" "[]"] by simp
  show ?thesis
    using answer_text [OF assms(1-3)] s(1) v d port o c y by (intro exI [of _ "print_sdp ?ls @ crlf"] exI [of _ s] exI [of _ ps]
      exI [of _ p] exI [of _ q] exI [of _ r] exI [of _ ?y]) simp
qed

section \<open>The library\<close>

text \<open>The message library has memory: copies are copies and a response has a text.\<close>

definition osip_works :: "osip \<Rightarrow> bool" where
  "osip_works os \<longleftrightarrow> os_init os = 0 \<and> os_memory os \<and> (\<forall>h. os_clone os h = Inr h) \<and> (\<forall>r. os_to_str os r \<noteq> None)"

definition request_of :: "string \<Rightarrow> sip_message \<Rightarrow> bool" where
  "request_of name m \<longleftrightarrow> status_code m = 0 \<and> sip_method m = Some (of_string name)"

text \<open>A 200 that carries the headers of the request.\<close>

definition accepts :: "sip_message \<Rightarrow> sip_response \<Rightarrow> bool" where
  "accepts m r \<longleftrightarrow> re_version r = of_string ''SIP/2.0'' \<and> re_status r = 200 \<and> re_to r = sip_to m \<and> re_from r = sip_from m \<and>
     re_vias r = sip_vias m \<and> re_call_id r = sip_call_id m \<and> re_cseq r = sip_cseq m"

lemma content_types:
  "request_of ''INVITE'' m \<Longrightarrow> get_content_type m = Some INVITE"
  "request_of ''ACK'' m \<Longrightarrow> get_content_type m = Some ACK"
  "request_of ''BYE'' m \<Longrightarrow> get_content_type m = Some BYE"
  by (simp_all add: request_of_def get_content_type_def msg_is_def of_string_def)

lemma clone_vias_works: "osip_works os \<Longrightarrow> clone_vias os vs = Inr vs"
  by (induction vs) (simp_all add: osip_works_def)

lemma build_works:
  assumes "osip_works os" and "status_code m = 0" "sip_method m \<noteq> None" "sip_method m \<noteq> Some (of_string ''SUBSCRIBE'')"
  shows "\<exists>r. build_response_default os None 200 (Some m) = Some (Inr r) \<and> accepts m r"
proof -
  obtain a where a: "sip_method m = Some a" "a \<noteq> of_string ''SUBSCRIBE''" using assms(3,4) by auto
  have "\<exists>reason. reason_of os 200 m = Some (Some reason)"
    using assms(1,2) a by (auto simp: reason_of_def msg_is_def osip_works_def split: option.split)
  then obtain reason where r: "reason_of os 200 m = Some (Some reason)" by blast
  show ?thesis
    using assms(1,2) a r clone_vias_works [OF assms(1)]
    by (simp add: build_response_default_def clone_headers_def msg_is_def osip_works_def accepts_def response0_def)
qed

end
