(* ===== verification/SipCall.thy ===== *)
theory SipCall
  imports SipAnswer
begin

text \<open>
  A whole call on the SIP side: what each of the three requests does to the table, to the stream side's messages and to
  the wire, and the requests that the handler does not survive.
\<close>

section \<open>The node of a new session\<close>

text \<open>A node but for its sockets and ports.\<close>

definition unbound :: "SIP_NODE \<Rightarrow> SIP_NODE" where
  "unbound n = n\<lparr>sn_iUdpSendStreamSockFd := 0, sn_iUdpSendStreamPort := 0, sn_iUdpRtcpSockFd := 0, sn_iUdpRtcpListenPort := 0\<rparr>"

lemma bind_loop_unbound: "bind_loop rtcp bs socks n = Some (n', es) \<Longrightarrow> unbound n' = unbound n"
  by (induction rtcp bs socks n arbitrary: n' es rule: bind_loop.induct)
     (fastforce simp: Let_def unbound_def split: if_splits list.splits)+

lemma udp_bind_unbound: "udp_bind_local_port rtcp na n = Some (rc, n', es) \<Longrightarrow> unbound n' = unbound n"
  by (auto simp: udp_bind_local_port_def Let_def unbound_def split: list.splits if_splits dest!: bind_loop_unbound)

text \<open>The rest of an offer fits as well.\<close>

definition offer_kept :: "offer \<Rightarrow> bool" where
  "offer_kept x \<longleftrightarrow> length (of_user x) < 32 \<and> 0 \<notin> set (of_user x) \<and> 0 \<notin> set (of_address x) \<and>
     (case of_ssrc x of None \<Rightarrow> True | Some t \<Rightarrow> length t < 16 \<and> 0 \<notin> set t)"

definition session_of :: "offer \<Rightarrow> bytes \<Rightarrow> SIP_NODE \<Rightarrow> bool" where
  "session_of x cid n \<longleftrightarrow> c_str (sn_cCallId n) = Some cid \<and> c_str (sn_cDevId n) = Some (of_device x) \<and>
     c_str (sn_cSipDevSn n) = Some (of_user x) \<and> c_str (sn_cPushIp n) = Some (of_address x) \<and> sn_iPushPort n = int (of_port x) \<and>
     c_str (sn_cStreamSourceIp n) = Some (of_source_ip x) \<and> sn_iStreamSourcePort n = int (of_source_port x) \<and>
     sn_iDevChnl n = 0 \<and> sn_iStreamType n = (if \<exists>t. of_mode x = Some t \<and> strstr_in (of_string ''SUB'') t then 1 else 0) \<and>
     sn_u32Ssrc n = (case of_ssrc x of None \<Rightarrow> 0 | Some t \<Rightarrow> atoi t)"

lemma c_str_zeros: "c_str (replicate 16 0) = Some []" by (simp add: c_str_def)

lemma strncpy_again: "0 \<notin> set w \<Longrightarrow> length w < n \<Longrightarrow> c_str (strncpy n (strncpy n w)) = Some w"
  using c_str_strncpy [of "strncpy n w" w n] c_str_strncpy_text by simp

lemma fill_session:
  assumes "offer_fits x" "offer_kept x" "0 \<notin> set cid" "length cid < 32" and n: "sip_fill_node (offer_args x (Some cid)) h = Some n0"
    "unbound n = unbound n0"
  shows "session_of x cid n"
proof -
  have c: "c_str (da_cSsrc (offer_args x (Some cid))) = Some (case of_ssrc x of None \<Rightarrow> [] | Some t \<Rightarrow> t)"
    using assms(2) by (auto simp: offer_args_def offer_kept_def c_str_strncpy_text c_str_zeros split: option.split)
  have a: "atoi [] = 0" by (simp add: atoi_def strtol10_def)
  have f: "sn_cCallId n = sn_cCallId n0" "sn_cDevId n = sn_cDevId n0" "sn_cSipDevSn n = sn_cSipDevSn n0" "sn_cPushIp n = sn_cPushIp n0"
    "sn_iPushPort n = sn_iPushPort n0" "sn_cStreamSourceIp n = sn_cStreamSourceIp n0" "sn_iStreamSourcePort n = sn_iStreamSourcePort n0"
    "sn_iDevChnl n = sn_iDevChnl n0" "sn_iStreamType n = sn_iStreamType n0" "sn_u32Ssrc n = sn_u32Ssrc n0"
    using n(2) by (cases n, cases n0, simp add: unbound_def)+
  have n0: "n0 = the (sip_fill_node (offer_args x (Some cid)) h)" using n(1) by simp
  show ?thesis
    unfolding session_of_def f n0 sip_fill_node_def c
    using assms(1-4) strncpy_again a by (auto simp: offer_args_def offer_fits_def offer_kept_def split: option.split)
qed

section \<open>The request of a call\<close>

lemma invite_args_key:
  assumes "offer_kept x" "0 \<notin> set cid" "length cid < 32"
  shows "c_str (da_cCallId (offer_args x (Some cid))) = Some cid" "sip_request_key (offer_args x (Some cid)) = Some cid"
  using assms by (auto simp: offer_args_def offer_kept_def sip_request_key_def c_str_strncpy_text c_str_zeros length_strncpy split: option.split)

lemma recv_invite_run:
  assumes ok: "sip_world_ok (se_hash e) v" and free: "sip_nodes (sip_table v) (se_node e) = None"
    and ports: "ports_free (se_rtcp e) (se_net e)" and works: "osip_works (se_osip e)" and m: "request_of ''INVITE'' m"
    and par: "parase_invite (se_memory e) m dev_args_zero = Some (HB_SUCCESS, offer_args x (Some cid))"
    and fits: "offer_fits x" "offer_kept x" "0 \<notin> set cid" "length cid < 32"
    and user: "sip_contact_user m = Some user" and ip: "c_str (se_local_ip e) = Some ip"
  shows "\<exists>v' a n body r t. recv_invite e m v = Some v' \<and>
    sip_sessions (se_hash e) (sip_table v') = (sip_sessions (se_hash e) (sip_table v))(cid \<mapsto> a) \<and>
    sip_nodes (sip_table v') a = Some n \<and>
    (case sip_sessions (se_hash e) (sip_table v) cid of None \<Rightarrow> a = se_node e \<and> session_of x cid n
     | Some c \<Rightarrow> a = c \<and> sip_table v' = sip_table v) \<and> to_stream v' = to_stream v \<and>
    answer_body ip n = Some body \<and> accepts m r \<and> re_body r = body \<and> re_contact r = contact_text user ip \<and>
    os_to_str (se_osip e) r = Some t \<and> sip_trace v' = sip_trace v @ [Answer t, Response_free]"
proof -
  let ?hf = "se_hash e" and ?d = "offer_args x (Some cid)" and ?t = "sip_table v"
  note p = sip_world_parts [OF ok]
  note key = invite_args_key [OF fits(2,3,4)]
  have l: "length (da_cCallId ?d) \<le> 32" by (simp add: offer_args_def length_strncpy)
  have "\<exists>a t'. insert_node_to_sip_hash_table ?hf (se_rtcp e) (se_net e) ?t ?d (se_node e) = Some (a, t')"
  proof (cases "sip_sessions ?hf ?t cid")
    case None
    then show ?thesis using sip_insert_new [OF p(1) key(2) None free ports] by blast
  next
    case (Some c)
    then show ?thesis using sip_chain_ok [OF p(1)] sip_seek [OF p(1)] key(1) by (simp add: insert_node_to_sip_hash_table_def)
  qed
  then obtain a t' where ins: "insert_node_to_sip_hash_table ?hf (se_rtcp e) (se_net e) ?t ?d (se_node e) = Some (a, t')" by blast
  note made = sip_insert_done [OF p(1) l key(1) free ins]
  have "\<exists>n. sip_nodes t' a = Some n \<and> node_shown n \<and> sip_sessions ?hf t' = (sip_sessions ?hf ?t)(cid \<mapsto> a) \<and>
      (case sip_sessions ?hf ?t cid of None \<Rightarrow> a = se_node e \<and> session_of x cid n | Some c \<Rightarrow> a = c \<and> t' = ?t)"
  proof (cases "sip_sessions ?hf ?t cid")
    case (Some c)
    then obtain n where "sip_nodes ?t c = Some n" using sip_session_node [OF p(1)] by blast
    then show ?thesis using Some made p(2) [of c n] by (auto simp: node_sized_def)
  next
    case None
    then obtain n0 n es where n: "sip_fill_node ?d (sip_bucket ?hf ?t cid) = Some n0"
        "udp_bind_local_port (se_rtcp e) (se_net e) n0 = Some (HB_SUCCESS, n, es)" "sip_nodes t' = (sip_nodes ?t)(a \<mapsto> n)"
        "sip_sessions ?hf t' = (sip_sessions ?hf ?t)(cid \<mapsto> a)" "a = se_node e"
      using made by auto
    have "session_of x cid n" by (rule fill_session [OF fits n(1) udp_bind_unbound [OF n(2)]])
    then show ?thesis using n None by (auto simp: session_of_def node_shown_def)
  qed
  then obtain n where n: "sip_nodes t' a = Some n" "node_shown n" "sip_sessions ?hf t' = (sip_sessions ?hf ?t)(cid \<mapsto> a)"
    "case sip_sessions ?hf ?t cid of None \<Rightarrow> a = se_node e \<and> session_of x cid n | Some c \<Rightarrow> a = c \<and> t' = ?t" by blast
  obtain r where r: "build_response_default (se_osip e) None 200 (Some m) = Some (Inr r)" "accepts m r"
    using build_works [OF works, of m] m by (auto simp: request_of_def of_string_def)
  obtain body where body: "answer_body ip n = Some body" using n(2) by (auto simp: answer_body_def node_shown_def)
  let ?r = "r\<lparr>re_content_type := of_string ''application/sdp'', re_contact := contact_text user ip, re_body := body\<rparr>"
  obtain t where t: "os_to_str (se_osip e) ?r = Some t" using works by (auto simp: osip_works_def)
  let ?v = "sip_note Response_free (sip_note (Answer t) (v\<lparr>sip_table := t'\<rparr>))"
  have 1: "recv_invite e m v = Some ?v" using par ins n(1) r(1) user ip body t by (simp add: recv_invite_def Let_def response_text_def)
  have 2: "accepts m ?r" using r(2) by (simp add: accepts_def)
  show ?thesis
    by (rule exI [of _ ?v], rule exI [of _ a], rule exI [of _ n], rule exI [of _ body], rule exI [of _ ?r], rule exI [of _ t])
      (use n t body 1 2 in \<open>simp split: option.splits\<close>)
qed

text \<open>A request whose call id fits its field.\<close>

definition call_of :: "sip_message \<Rightarrow> bytes \<Rightarrow> bool" where
  "call_of m cid \<longleftrightarrow> sip_call_id m = Some cid \<and> 0 \<notin> set cid \<and> length cid < 32"

lemma call_found:
  assumes "sip_world_ok hf v" "call_of m cid"
  shows "find_node_from_sip_hash_table hf (sip_table v) (da_cCallId (snd (parase_ack_bye m dev_args_zero))) =
      Some (sip_sessions hf (sip_table v) cid)" "fst (parase_ack_bye m dev_args_zero) = HB_SUCCESS"
  using sip_find [OF sip_world_parts(1) [OF assms(1)]] assms(2) c_str_strncpy_text
  by (simp_all add: parase_ack_bye_def call_of_def)

lemma recv_ack_run:
  assumes ok: "sip_world_ok (se_hash e) v" and m: "call_of m cid"
  shows "recv_ack e m v = (case sip_sessions (se_hash e) (sip_table v) cid of None \<Rightarrow> Some v | Some a \<Rightarrow> tell_stream PLAY a v)"
  using call_found [OF ok m] by (cases "parase_ack_bye m dev_args_zero") (simp add: recv_ack_def)

lemma recv_bye_run:
  assumes ok: "sip_world_ok (se_hash e) v" and m: "call_of m cid" "request_of ''BYE'' m" and works: "osip_works (se_osip e)"
  shows "\<exists>r t. accepts m r \<and> os_to_str (se_osip e) r = Some t \<and>
    recv_bye e m v = (let v = sip_note Response_free (sip_note (Answer t) v)
      in case sip_sessions (se_hash e) (sip_table v) cid of None \<Rightarrow> Some (False, v)
         | Some a \<Rightarrow> do { v \<leftarrow> tell_stream STOP a v; v \<leftarrow> drop_session a v; Some (False, v) })"
proof -
  obtain r where r: "build_response_default (se_osip e) None 200 (Some m) = Some (Inr r)" "accepts m r"
    using build_works [OF works, of m] m(2) by (auto simp: request_of_def of_string_def)
  obtain t where t: "os_to_str (se_osip e) r = Some t" using works by (auto simp: osip_works_def)
  show ?thesis
    using call_found [OF ok m(1)] r t
    by (intro exI [of _ r] exI [of _ t], cases "parase_ack_bye m dev_args_zero")
      (auto simp: recv_bye_def Let_def response_text_def split: option.split)
qed

section \<open>Datagrams\<close>

text \<open>The message that the handler works on.\<close>

definition received :: "sip_env \<Rightarrow> bytes \<Rightarrow> sip_message" where
  "received e b = os_parse (se_osip e) (takeWhile (\<lambda>c. c \<noteq> 0) (take 4095 b))"

lemma invite_datagram:
  "request_of ''INVITE'' (received e b) \<Longrightarrow>
     udp_recv_cb e (Some b) v = map_option (sip_note Request_free) (recv_invite e (received e b) (sip_note Request_init v))"
  by (simp add: udp_recv_cb_def received_def [symmetric] Let_def content_types option.map_comp comp_def split: option.split bind_split)

lemma ack_datagram:
  "request_of ''ACK'' (received e b) \<Longrightarrow>
     udp_recv_cb e (Some b) v = map_option (sip_note Request_free) (recv_ack e (received e b) (sip_note Request_init v))"
  by (simp add: udp_recv_cb_def received_def [symmetric] Let_def content_types option.map_comp comp_def split: option.split bind_split)

lemma bye_datagram:
  "request_of ''BYE'' (received e b) \<Longrightarrow>
     udp_recv_cb e (Some b) v = do { (release, v) \<leftarrow> recv_bye e (received e b) (sip_note Request_init v);
       Some (if release then sip_note Request_free v else v) }"
  by (simp add: udp_recv_cb_def received_def [symmetric] Let_def content_types)

text \<open>An offer in a request, as the printer of descriptions writes it.\<close>

definition offer_request :: "sip_message \<Rightarrow> sdp_line list \<Rightarrow> offer \<Rightarrow> bytes \<Rightarrow> bool" where
  "offer_request m ls x cid \<longleftrightarrow> request_of ''INVITE'' m \<and> call_of m cid \<and> lines_ok ls \<and> sip_body m = Some (print_sdp ls) \<and>
     offers (describes ls) x \<and> offer_fits x \<and> offer_kept x"

lemma offer_request_read:
  "offer_request m ls x cid \<Longrightarrow> (\<And>n. mem n) \<Longrightarrow> parase_invite mem m dev_args_zero = Some (HB_SUCCESS, offer_args x (Some cid))"
  using parase_offer [of ls mem m x] by (simp add: offer_request_def call_of_def)


lemma sscanf_call: "sscanf_sms t d p = Some (d', p') \<Longrightarrow> da_cCallId d' = da_cCallId d"
  by (auto simp: sscanf_sms_def Let_def split: if_splits bind_splits)

lemma invite_media_call: "invite_media s i d = Some d' \<Longrightarrow> da_cCallId d' = da_cCallId d"
  by (auto simp: invite_media_def Let_def split: if_splits bind_splits option.splits dest!: sscanf_call)

lemma invite_medias_call: "invite_medias s is d = Some d' \<Longrightarrow> da_cCallId d' = da_cCallId d"
  by (induction "is" arbitrary: d) (auto split: bind_splits dest!: invite_media_call)

text \<open>An offer that is read has a body that was parsed, and it carries the call id of its request.\<close>

lemma parase_invite_done:
  assumes "parase_invite mem m d = Some (r, d')"
  shows "r = HB_SUCCESS" "\<exists>t s. sip_body m = Some t \<and> sdp_parse mem t = Some (Some s)"
    "sip_call_id m = Some cid \<Longrightarrow> da_cCallId d' = strncpy 32 cid"
  using assms
  by (auto simp: parase_invite_def Let_def sdp_media_count_def split: if_splits bind_splits option.splits dest!: invite_medias_call)

lemma long_call_id: "0 \<notin> set cid \<Longrightarrow> 32 \<le> length cid \<Longrightarrow> c_str (strncpy 32 cid) = None"
proof -
  assume c: "0 \<notin> set cid" "32 \<le> length cid"
  then have t: "takeWhile (\<lambda>c. c \<noteq> 0) cid = cid" by (auto simp: takeWhile_eq_all_conv)
  show ?thesis using c in_set_takeD [of 0 32 cid] unfolding strncpy_def t by (auto simp: c_str_def)
qed

text \<open>
  C30. Requests the server does not survive. The handler has no behaviour, it goes through a null pointer or past an array,
  for a datagram the parser found no method in; for an \<open>INVITE\<close> without a body, with a body that \<open>sdp_parse\<close> refuses or does
  not come back from, or without a contact; and for an \<open>INVITE\<close>, \<open>ACK\<close> or \<open>BYE\<close> whose call id fills its field of 32 bytes.
\<close>

theorem bad_requests_crash:
  assumes "status_code (received e b) = 0"
    and "sip_method (received e b) = None \<or>
      request_of ''INVITE'' (received e b) \<and>
        (case sip_body (received e b) of None \<Rightarrow> True | Some t \<Rightarrow> \<forall>s. sdp_parse (se_memory e) t \<noteq> Some (Some s)) \<or>
      request_of ''INVITE'' (received e b) \<and> sip_contact_user (received e b) = None \<or>
      (request_of ''INVITE'' (received e b) \<or> request_of ''ACK'' (received e b) \<or> request_of ''BYE'' (received e b)) \<and>
        (case sip_call_id (received e b) of None \<Rightarrow> False | Some cid \<Rightarrow> 0 \<notin> set cid \<and> 32 \<le> length cid)"
  shows "udp_recv_cb e (Some b) v = None"
proof -
  let ?m = "received e b" and ?v = "sip_note Request_init v"
  have long: "recv_invite e ?m ?v = None" "recv_ack e ?m ?v = None" "recv_bye e ?m ?v = None"
    if "sip_call_id ?m = Some cid" "0 \<notin> set cid" "32 \<le> length cid" for cid
    using that long_call_id [OF that(2,3)] parase_invite_done(1,3) [where m = ?m and d = dev_args_zero]
    by (fastforce simp: recv_invite_def recv_ack_def recv_bye_def parase_ack_bye_def insert_node_to_sip_hash_table_def
        find_node_from_sip_hash_table_def Let_def split: bind_split)+
  have body: "recv_invite e ?m ?v = None"
    if "case sip_body ?m of None \<Rightarrow> True | Some t \<Rightarrow> \<forall>s. sdp_parse (se_memory e) t \<noteq> Some (Some s)"
    using that parase_invite_done(2) [where m = ?m and d = dev_args_zero and mem = "se_memory e"]
    by (fastforce simp: recv_invite_def split: bind_split option.splits)
  have user: "recv_invite e ?m ?v = None" if "sip_contact_user ?m = None"
    using that parase_invite_done(1) [where m = ?m and d = dev_args_zero]
    by (auto simp: recv_invite_def Let_def split: bind_split)
  show ?thesis
  proof (cases "sip_method ?m")
    case None
    then show ?thesis using assms(1) by (simp add: udp_recv_cb_def received_def [symmetric] Let_def get_content_type_def msg_is_def)
  next
    case (Some x)
    then show ?thesis
      using assms(2) long body user by (auto simp: invite_datagram ack_datagram bye_datagram split: option.splits)
  qed
qed

end
