(* ===== verification/SipServer.thy ===== *)
theory SipServer
  imports SipCall StreamUse
begin

text \<open>
  The two sides together: datagrams on the SIP side, the messages over the socket pair, and the streams. The state is the
  SIP side, the stream side and the send tasks; each step is one event of the server.
\<close>

section \<open>The server\<close>

text \<open>
  A datagram, in any environment; a message that the stream side reads; a message about a client without RTCP that the SIP
  side reads; an event of the stream side.
\<close>

inductive system_step ::
  "(bytes \<Rightarrow> u32) \<Rightarrow> bool \<Rightarrow> sip_world \<times> stream_world \<times> tasks \<Rightarrow> sip_world \<times> stream_world \<times> tasks \<Rightarrow> bool"
  for hf rtcp where
  Datagram: "se_hash e = hf \<Longrightarrow> se_rtcp e = rtcp \<Longrightarrow> sip_nodes (sip_table v) (se_node e) = None \<Longrightarrow>
     udp_recv_cb e b v = Some v' \<Longrightarrow> system_step hf rtcp (v, w, T) (v', w, T)"
| Serve: "to_stream v = s # ss \<Longrightarrow> get_stream w (pa_stream p) = None \<Longrightarrow> clients (cw w) (pa_client p) = None \<Longrightarrow>
     (\<And>b. na_bev (pa_connect p) = Some b \<Longrightarrow> bevs w b = None) \<Longrightarrow>
     stream_read_cb hf rtcp p s w = Some w' \<Longrightarrow> system_step hf rtcp (v, w, T) (v\<lparr>to_stream := ss\<rparr>, w', T)"
| Told: "Tell_stop cid \<in> set (trace (cw w)) \<Longrightarrow> sip_pair_read_cb hf STOP cid v = Some v' \<Longrightarrow>
     system_step hf rtcp (v, w, T) (v', w, T)"
| Stream_event: "server_step hf rtcp (w, T) (w', T') \<Longrightarrow> system_step hf rtcp (v, w, T) (v, w', T')"

inductive_cases system_stepE [consumes 1, case_names Datagram Serve Told Stream_event]:
  "system_step hf rtcp (v, w, T) (v', w', T')"

abbreviation system_steps ::
  "(bytes \<Rightarrow> u32) \<Rightarrow> bool \<Rightarrow> sip_world \<times> stream_world \<times> tasks \<Rightarrow> sip_world \<times> stream_world \<times> tasks \<Rightarrow> bool" where
  "system_steps hf rtcp \<equiv> (system_step hf rtcp)\<^sup>*\<^sup>*"

text \<open>The state in which the loop starts to dispatch, on the tables that were made.\<close>

definition system_start :: "SIP_HASH_TABLE \<Rightarrow> STREAM_HASH_TABLE \<Rightarrow> sip_world \<times> stream_world \<times> tasks" where
  "system_start t s =
     (\<lparr>sip_table = t, to_stream = [], sip_trace = []\<rparr>,
      \<lparr>table = s, cw = \<lparr>clients = Map.empty, trace = []\<rparr>, queues = Map.empty, blocks = Map.empty, bevs = Map.empty, pool = {}\<rparr>,
      Map.empty)"

section \<open>It stays sound\<close>

fun system_ok :: "(bytes \<Rightarrow> u32) \<Rightarrow> sip_world \<times> stream_world \<times> tasks \<Rightarrow> bool" where
  "system_ok hf (v, w, T) = (sip_world_ok hf v \<and> server_ok hf w T)"

lemma sip_popped: "sip_world_ok hf v \<Longrightarrow> to_stream v = s # ss \<Longrightarrow> sip_world_ok hf (v\<lparr>to_stream := ss\<rparr>)"
  by (simp add: sip_world_ok_def)

lemma waiting_key:
  assumes "sip_world_ok hf v" "n \<in> set (to_stream v)"
  shows "stream_request_key n \<noteq> None" "length (sn_cCallId n) = 32"
proof -
  have "node_sized n" using assms by (simp add: sip_world_ok_def)
  then show "stream_request_key n \<noteq> None" "length (sn_cCallId n) = 32" by (rule node_sized_key, simp add: node_sized_def)
qed

lemma system_step_ok:
  assumes "system_step hf rtcp (v, w, T) (v', w', T')" and ok: "system_ok hf (v, w, T)"
  shows "system_ok hf (v', w', T')"
  using assms(1)
proof (cases rule: system_stepE)
  case (Datagram e b)
  then show ?thesis using ok udp_recv_ok [of e v b v'] by simp
next
  case (Serve s ss p)
  have k: "stream_request_key s \<noteq> None" using ok Serve waiting_key(1) [of hf v s] by simp
  have "server_ok hf w' T" by (rule request_server [OF _ k Serve(2-5)]) (use ok in simp_all)
  then show ?thesis using ok Serve sip_popped [of hf v s ss] by simp
next
  case (Told cid)
  then show ?thesis using ok sip_pair_ok [of hf v STOP cid v'] by simp
next
  case Stream_event
  then show ?thesis using ok server_step_ok by simp
qed

lemma system_steps_ok: "system_steps hf rtcp x y \<Longrightarrow> system_ok hf x \<Longrightarrow> system_ok hf y"
proof (induction rule: rtranclp_induct)
  case (step y z)
  then show ?case using system_step_ok [of hf rtcp "fst y" "fst (snd y)" "snd (snd y)" "fst z" "fst (snd z)" "snd (snd z)"] by simp
qed simp

lemma start_ok:
  assumes "start_sip_moudle sa = (HB_SUCCESS, Some (t, s, hf))"
  shows "system_ok h (system_start t s)" "hf = Some BKDR_hash"
proof -
  have t: "t = sip_table_create 1000" "s = stream_table_create 1000" "hf = Some BKDR_hash"
    using assms by (auto simp: start_sip_moudle_def sip_hash_table_create_def stream_hash_table_create_def ChooseHashFunc_def
        HB_SUCCESS_def HB_FAILURE_def split: if_splits)
  have e: "sip_world_ok h \<lparr>sip_table = t, to_stream = [], sip_trace = []\<rparr>"
    using sip_create_ok [of 1000 h] by (simp add: sip_world_ok_def t sip_table_create_def)
  have "server_ok h (server_start 1000) Map.empty" by (rule server_start_ok) simp
  then show "system_ok h (system_start t s)" using e by (simp add: system_start_def server_start_def t)
  show "hf = Some BKDR_hash" by (rule t(3))
qed

text \<open>
  C2. The whole server stays sound. When \<open>start_sip_moudle\<close> succeeds, then after any sequence of datagrams, messages over the
  socket pair in both directions, callbacks, timers and rounds of the send tasks: every session of the SIP table is
  findable under its call id and its node allocated, every stream is sound, and every message that waits for the stream
  side names a stream and a client with strings that end in their fields.
\<close>

theorem whole_server_sound:
  assumes "start_sip_moudle sa = (HB_SUCCESS, Some (t, s, Some hf))" and "system_steps hf rtcp (system_start t s) (v, w, T)"
  shows "sip_world_ok hf v \<and> server_ok hf w T \<and>
    (\<forall>n. n \<in> set (to_stream v) \<longrightarrow> stream_request_key n \<noteq> None \<and> c_str (sn_cCallId n) \<noteq> None \<and> sn_enumCmdType n \<noteq> CMD_NONE)"
proof -
  have "system_ok hf (v, w, T)" by (rule system_steps_ok [OF assms(2) start_ok(1) [OF assms(1)]])
  then show ?thesis using waiting_key(1) [of hf v] by (auto simp: sip_world_ok_def node_sized_def)
qed

section \<open>A call, end to end\<close>

lemma play_key [simp]: "stream_request_key (n\<lparr>sn_enumCmdType := c\<rparr>) = stream_request_key n"
  by (simp add: stream_request_key_def)

text \<open>A stop after the play of the same session marks the client that the play found or made.\<close>

lemma served_play_stop:
  assumes ok: "server_ok hf w T" and n: "node_sized n" and fresh: "get_stream w (pa_stream p) = None" "clients (cw w) (pa_client p) = None"
      "\<And>b. na_bev (pa_connect p) = Some b \<Longrightarrow> bevs w b = None"
    and w1: "stream_read_cb hf rtcp p (n\<lparr>sn_enumCmdType := PLAY\<rparr>) w = Some w1"
  shows "\<exists>a c w2. stream_read_cb hf rtcp q (n\<lparr>sn_enumCmdType := STOP\<rparr>) w1 = Some w2 \<and> clients (cw w1) a = Some c \<and>
    c_str (cCallId c) = c_str (sn_cCallId n) \<and> clients (cw w2) = (clients (cw w1))(a \<mapsto> c\<lparr>iDeleteFlag := 1\<rparr>)"
proof -
  let ?n = "n\<lparr>sn_enumCmdType := PLAY\<rparr>" and ?m = "n\<lparr>sn_enumCmdType := STOP\<rparr>"
  obtain k where k: "stream_request_key n = Some k" using node_sized_key [OF n] by blast
  have l: "length (sn_cCallId ?n) \<le> 32" using n by (simp add: node_sized_def)
  have r: "play_request hf rtcp p ?n w = Some w1" using w1 by (simp add: stream_read_cb_def)
  have ok1: "server_ok hf w1 T" by (rule play_request_server [OF ok _ fresh r]) (simp add: k)
  obtain x nd a where a: "get_stream w1 x = Some nd" "stream_node_key (table w1) x = Some k"
    "find_client_node nd (cw w1) (sn_cCallId ?n) = Some (Some a)"
    using play_request_found [OF ok _ l fresh(1,2) r, of k] k by auto
  show ?thesis using stop_served [OF ok1, of ?m k x nd a] a k by (auto simp: stream_read_cb_def)
qed


end
