(* ===== verification/SipDemo.thy ===== *)
theory SipDemo
  imports SipServer
begin

text \<open>
  A small run: a message library whose parser takes the first word of a datagram for the method, a server that
  has just started, and a call of three datagrams, on which the properties of the SIP side are seen to apply.
\<close>

definition demo_lines :: "sdp_line list" where
  "demo_lines =
    [VLine 0,
     OLine (of_string ''34020000001320000001'') [0x30] [0x30] (of_string ''IN'') (of_string ''IP4'') (of_string ''10.0.0.9''),
     SLine (of_string ''Play''),
     CLine (of_string ''IN'') (of_string ''IP4'') (of_string ''10.0.0.9''),
     TLine [0x30] [0x30],
     MLine (of_string ''video'') (print_nat 6000) (of_string ''RTP/AVP'') [of_string ''96''],
     ALine (of_string ''recvonly'') [],
     ALine (of_string ''sms'') (sms_text (of_string ''10.0.0.7'') 700 (of_string ''5a12caf8'')),
     ALine (of_string ''streamMode'') (of_string ''SUB''),
     YLine (of_string ''0100000001'')]"

definition demo_offer :: offer where
  "demo_offer = \<lparr>of_user = of_string ''34020000001320000001'', of_address = of_string ''10.0.0.9'', of_port = 6000,
     of_source_ip = of_string ''10.0.0.7'', of_source_port = 700, of_device = of_string ''5a12caf8'',
     of_mode = Some (of_string ''SUB''), of_ssrc = Some (of_string ''0100000001'')\<rparr>"

definition demo_message :: "bytes \<Rightarrow> sip_message" where
  "demo_message b = \<lparr>status_code = 0, sip_method = Some (takeWhile (\<lambda>c. c \<noteq> 0x20) b), sip_to = Some (of_string ''<sip:b>''),
     sip_from = Some (of_string ''<sip:a>''), sip_vias = [of_string ''SIP/2.0/UDP h''], sip_call_id = Some (of_string ''call-1''),
     sip_cseq = Some (of_string ''1 X''), sip_contact_user = Some (of_string ''34020000002000000001''),
     sip_body = Some (print_sdp demo_lines)\<rparr>"

definition demo_osip :: osip where
  "demo_osip = \<lparr>os_parse = demo_message, os_init = 0, os_memory = True, os_reason = (\<lambda>n. Some (of_string ''OK'')), os_clone = Inr,
     os_has_tag = (\<lambda>t. False), os_set_tag = (\<lambda>t h. h), os_header = (\<lambda>m n. None),
     os_to_str = (\<lambda>r. Some (re_version r @ 0x20 # re_body r))\<rparr>"

definition demo_env :: sip_env where
  "demo_env = \<lparr>se_hash = BKDR_hash, se_rtcp = False, se_local_ip = strncpy 16 (of_string ''10.0.0.1''), se_osip = demo_osip,
     se_memory = (\<lambda>n. True), se_net = \<lparr>na_sockets = [5, 6], na_binds = [True, True], na_random = 3000\<rparr>, se_node = 1\<rparr>"

definition demo_sip :: sip_world where
  "demo_sip = \<lparr>sip_table = sip_table_create 1000, to_stream = [], sip_trace = []\<rparr>"

lemma demo_lines_ok: "lines_ok demo_lines"
proof -
  have d: "is_word (print_nat 6000)" by (rule digits_word)
  have s: "is_text (sms_text (of_string ''10.0.0.7'') 700 (of_string ''5a12caf8''))"
    by (simp add: sms_text_def print_nat.simps of_string_def is_text_def plain_def blank_def)
  show ?thesis using d s by (simp add: lines_ok_def demo_lines_def) (simp add: of_string_def is_word_def is_text_def plain_def blank_def)
qed

lemma demo_offers: "offers (describes demo_lines) demo_offer" "offer_fits demo_offer" "offer_kept demo_offer"
  by (simp add: offers_def describes_def demo_lines_def desc0_def on_media_def demo_offer_def of_string_def)
    (simp_all add: offer_fits_def offer_kept_def demo_offer_def of_string_def is_space_def)

lemma demo_received:
  "received demo_env (of_string ''INVITE x'') = demo_message (of_string ''INVITE x'')"
  "received demo_env (of_string ''ACK x'') = demo_message (of_string ''ACK x'')"
  "received demo_env (of_string ''BYE x'') = demo_message (of_string ''BYE x'')"
  by (simp_all add: received_def demo_env_def demo_osip_def of_string_def)

lemma demo_request:
  "request_of ''INVITE'' (demo_message (of_string ''INVITE x''))" "request_of ''ACK'' (demo_message (of_string ''ACK x''))"
  "request_of ''BYE'' (demo_message (of_string ''BYE x''))" "call_of (demo_message b) (of_string ''call-1'')"
  by (simp_all add: request_of_def call_of_def demo_message_def of_string_def)

lemma demo_offer_request:
  "offer_request (received demo_env (of_string ''INVITE x'')) demo_lines demo_offer (of_string ''call-1'')"
  unfolding demo_received offer_request_def using demo_request demo_lines_ok demo_offers by (simp add: demo_message_def)

lemma demo_env_ok:
  "osip_works (se_osip demo_env)" "se_memory demo_env n" "ports_free (se_rtcp demo_env) (se_net demo_env)" "se_hash demo_env = BKDR_hash"
  "c_str (se_local_ip demo_env) = Some (of_string ''10.0.0.1'')" "sip_nodes (sip_table demo_sip) (se_node demo_env) = None"
  "sip_contact_user (received demo_env b) = Some (of_string ''34020000002000000001'')"
  using c_str_strncpy_text [of "of_string ''10.0.0.1''" 16]
  by (simp_all add: osip_works_def demo_env_def demo_osip_def demo_sip_def sip_table_create_def ports_free_def received_def demo_message_def)
    (simp_all add: of_string_def, rule exI [of _ 0], simp)

lemma demo_sip_ok: "sip_world_ok BKDR_hash demo_sip" "sip_sessions BKDR_hash (sip_table demo_sip) k = None"
proof -
  have n: "sip_nodes (sip_table demo_sip) a = None" for a by (simp add: demo_sip_def sip_table_create_def)
  have ok: "sip_ok BKDR_hash (sip_table demo_sip)" by (simp add: demo_sip_def sip_create_ok)
  then show "sip_world_ok BKDR_hash demo_sip" using n by (simp add: sip_world_ok_def) (simp add: demo_sip_def)
  show "sip_sessions BKDR_hash (sip_table demo_sip) k = None"
    using sip_session_node(2) [OF ok, of k] n by (cases "sip_sessions BKDR_hash (sip_table demo_sip) k") auto
qed

section \<open>The properties apply\<close>

theorem invite_offer_read_witness:
  "parase_invite (\<lambda>n. True) (demo_message (of_string ''INVITE x'')) dev_args_zero =
     Some (HB_SUCCESS, offer_args demo_offer (Some (of_string ''call-1''))) \<and> da_iStreamSourcePort (offer_args demo_offer None) = 700"
  using invite_offer_read [OF demo_lines_ok, of "\<lambda>n. True" "demo_message (of_string ''INVITE x'')" demo_offer] demo_offers
  by (simp add: demo_message_def offer_args_def) (simp add: demo_offer_def)

definition demo_node :: SIP_NODE where
  "demo_node = sip_node_zero\<lparr>sn_cSipDevSn := strncpy 32 (of_string ''34020000001320000001''), sn_cPushIp := strncpy 16 (of_string ''10.0.0.9''),
     sn_u32Ssrc := 100000001, sn_iUdpSendStreamPort := 6000\<rparr>"

theorem answer_read_back_witness:
  "\<exists>body s y. answer_body (of_string ''10.0.0.1'') demo_node = Some body \<and> sdp_parse (\<lambda>k. True) body = Some (Some s) \<and>
     sdp_media_port s 0 = Some (0, Some (6000, 1)) \<and> str_of s (sdp_y_get s) = Some y \<and> atoi y = 100000001"
proof -
  have t: "c_str (sn_cSipDevSn demo_node) = Some (of_string ''34020000001320000001'')" "c_str (sn_cPushIp demo_node) = Some (of_string ''10.0.0.9'')"
    using c_str_strncpy_text [of "of_string ''34020000001320000001''" 32] c_str_strncpy_text [of "of_string ''10.0.0.9''" 16]
    by (simp_all add: demo_node_def) (simp_all add: of_string_def)
  have f: "answer_fits (of_string ''10.0.0.1'') (of_string ''34020000001320000001'') (of_string ''10.0.0.9'') demo_node"
    by (simp add: answer_fits_def demo_node_def sip_node_zero_def of_string_def is_word_def plain_def)
  obtain body s y where r: "answer_body (of_string ''10.0.0.1'') demo_node = Some body" "sdp_parse (\<lambda>k. True) body = Some (Some s)"
    "sdp_media_port s 0 = Some (0, Some (sn_iUdpSendStreamPort demo_node, 1))" "str_of s (sdp_y_get s) = Some y"
    "unat (sn_u32Ssrc demo_node) < 2 ^ 31 \<longrightarrow> atoi y = sn_u32Ssrc demo_node"
    using answer_read_back [where mem = "\<lambda>k. True", OF t f] by blast
  then show ?thesis by (intro exI [of _ body] exI [of _ s] exI [of _ y]) (simp add: demo_node_def)
qed


theorem bad_requests_crash_witness:
  "udp_recv_cb (demo_env\<lparr>se_osip := demo_osip\<lparr>os_parse := \<lambda>b. (demo_message b)\<lparr>sip_method := None\<rparr>\<rparr>\<rparr>) (Some (of_string ''junk'')) demo_sip = None \<and>
   udp_recv_cb (demo_env\<lparr>se_osip := demo_osip\<lparr>os_parse := \<lambda>b. (demo_message b)\<lparr>sip_body := None\<rparr>\<rparr>\<rparr>) (Some (of_string ''INVITE x'')) demo_sip = None"
  by (intro conjI bad_requests_crash)
    (simp_all add: received_def demo_message_def request_of_def, simp_all add: of_string_def)


theorem whole_server_sound_witness:
  "\<exists>v w. system_steps BKDR_hash False (system_start (sip_table_create 1000) (stream_table_create 1000)) (v, w, Map.empty) \<and>
     sip_sessions BKDR_hash (sip_table v) (of_string ''call-1'') = Some 1 \<and> sip_world_ok BKDR_hash v \<and> server_ok BKDR_hash w Map.empty"
proof -
  let ?sa = "\<lparr>sa_sip_mallocs = (True, True), sa_stream_callocs = (True, True), sa_threads = True, sa_pool = True, sa_base = True,
    sa_notifiable = True, sa_bind = True\<rparr>"
  let ?t = "sip_table_create 1000" and ?s = "stream_table_create 1000"
  have start: "start_sip_moudle ?sa = (HB_SUCCESS, Some (?t, ?s, Some BKDR_hash))"
    by (simp add: start_sip_moudle_def sip_hash_table_create_def stream_hash_table_create_def ChooseHashFunc_def)
  obtain w where b: "system_start ?t ?s = (demo_sip, w, Map.empty)" by (simp add: system_start_def demo_sip_def)
  have e: "se_node demo_env = 1" "se_rtcp demo_env = False" by (simp_all add: demo_env_def)
  have m: "request_of ''INVITE'' (received demo_env (of_string ''INVITE x''))" by (simp add: demo_received demo_request)
  have o: "offer_fits demo_offer" "offer_kept demo_offer" "0 \<notin> set (of_string ''call-1'')" "length (of_string ''call-1'') < 32"
    using demo_offer_request by (simp_all add: offer_request_def call_of_def)
  have ok: "sip_world_ok (se_hash demo_env) (sip_note Request_init demo_sip)" by (simp add: demo_env_ok demo_sip_ok)
  have f: "sip_nodes (sip_table (sip_note Request_init demo_sip)) (se_node demo_env) = None" by (simp add: demo_env_ok)
  obtain v' a where r: "recv_invite demo_env (received demo_env (of_string ''INVITE x'')) (sip_note Request_init demo_sip) = Some v'"
    "sip_sessions BKDR_hash (sip_table v') = (sip_sessions BKDR_hash (sip_table demo_sip))(of_string ''call-1'' \<mapsto> a)" "a = 1"
    using recv_invite_run [OF ok f demo_env_ok(3,1) m offer_request_read [OF demo_offer_request demo_env_ok(2)] o demo_env_ok(7,5)]
      demo_sip_ok e demo_env_ok(4) by auto
  let ?v = "sip_note Request_free v'"
  have u: "udp_recv_cb demo_env (Some (of_string ''INVITE x'')) demo_sip = Some ?v" using r(1) by (simp add: invite_datagram [OF m])
  have "system_step BKDR_hash False (demo_sip, w, Map.empty) (?v, w, Map.empty)"
    by (rule system_step.Datagram [OF demo_env_ok(4) e(2) demo_env_ok(6) u])
  then have st: "system_steps BKDR_hash False (system_start ?t ?s) (?v, w, Map.empty)" unfolding b by blast
  show ?thesis
    using whole_server_sound [OF start st] st r(2,3) by (intro exI [of _ ?v] exI [of _ w]) simp
qed

end
