(* ===== verification/NetKernel.thy ===== *)
theory NetKernel
  imports CString
begin

text \<open>
  What \<open>src/common/net_api.c\<close> and its callers ask of the kernel and of the C library, and what they answer. A kernel is any function of the
  calls made so far and the call to answer; each call waits for its answer, so that a call made is a call answered. The code's functions take
  a kernel and the history and return the longer history with their result, or \<open>None\<close> for undefined behaviour and for loops that never end.
\<close>

section \<open>Calls and answers\<close>

datatype call =
  Socket int int
| Set_option int int int
| Get_option int int
| Bind int u16
| Listen int int
| Accept int
| Get_flags int
| Set_flags int int
| Connect int u32 u16
| Epoll_create int
| Epoll_ctl int int int int
| Epoll_wait int int int
| Select_write int int int
| Select_read int int int
| Send int bytes
| Recv int int bool
| Usleep int
| If_addr int bytes
| If_hwaddr int bytes
| If_list int int
| If_flags int nat
| Close int
| Pipe
| Start_thread bytes int
| Read_pipe int int
| Resolve bytes
| Write_pipe int bytes
| Time
| Srand u32
| Rand

text \<open>
  The value returned, \<open>errno\<close> after the call, and what the call stores for the caller: bytes, a number, the events of \<open>epoll_wait\<close>
  with their descriptors, the two ends of a pipe, the addresses of \<open>SIOCGIFCONF\<close> or of \<open>getaddrinfo\<close>.
\<close>

record answer =
  ret :: int
  errno :: int
  got :: bytes
  num :: int
  evs :: "(int \<times> int) list"
  ends :: "int \<times> int"
  addrs :: "u32 list"

type_synonym history = "(call \<times> answer) list"
type_synonym kernel = "history \<Rightarrow> call \<Rightarrow> answer"

definition says :: "int \<Rightarrow> answer" where
  "says r = \<lparr>ret = r, errno = 0, got = [], num = 0, evs = [], ends = (0, 0), addrs = []\<rparr>"

definition ask :: "kernel \<Rightarrow> call \<Rightarrow> history \<Rightarrow> answer \<times> history" where
  "ask k c h = (k h c, h @ [(c, k h c)])"

definition EINTR :: int where "EINTR = 4"
definition EPOLLIN :: int where "EPOLLIN = 1"
definition EPOLLOUT :: int where "EPOLLOUT = 4"
definition FD_SETSIZE :: int where "FD_SETSIZE = 1024"

section \<open>Descriptors\<close>

text \<open>The descriptors the calls of a history have opened and not closed.\<close>

fun opens :: "call \<Rightarrow> answer \<Rightarrow> int list" where
  "opens (Socket d t) a = (if ret a \<ge> 0 then [ret a] else [])"
| "opens (Accept fd) a = (if ret a \<ge> 0 then [ret a] else [])"
| "opens (Epoll_create n) a = (if ret a \<ge> 0 then [ret a] else [])"
| "opens Pipe a = (if ret a = 0 then [fst (ends a), snd (ends a)] else [])"
| "opens c a = []"

fun closes :: "call \<Rightarrow> int list" where
  "closes (Close fd) = [fd]"
| "closes c = []"

fun fds_after :: "int set \<Rightarrow> history \<Rightarrow> int set" where
  "fds_after F [] = F"
| "fds_after F ((c, a) # h) = fds_after (F - set (closes c) \<union> set (opens c a)) h"

definition open_fds :: "history \<Rightarrow> int set" where "open_fds = fds_after {}"

lemma fds_after_append [simp]: "fds_after F (h @ h') = fds_after (fds_after F h) h'"
  by (induction F h rule: fds_after.induct) auto

lemma open_fds_nil [simp]: "open_fds [] = {}" by (simp add: open_fds_def)

lemma open_fds_snoc [simp]: "open_fds (h @ [(c, a)]) = open_fds h - set (closes c) \<union> set (opens c a)"
  by (simp add: open_fds_def)

section \<open>What the kernel promises\<close>

text \<open>The documented behaviour the code relies on: counts within what was asked for, new descriptors that are not open yet.\<close>

fun answer_ok :: "history \<Rightarrow> call \<Rightarrow> answer \<Rightarrow> bool" where
  "answer_ok h (Socket d t) a = (ret a \<ge> 0 \<longrightarrow> ret a \<notin> open_fds h)"
| "answer_ok h (Accept fd) a = (ret a \<ge> 0 \<longrightarrow> ret a \<notin> open_fds h)"
| "answer_ok h (Epoll_create n) a = (ret a \<ge> 0 \<longrightarrow> ret a \<notin> open_fds h)"
| "answer_ok h Pipe a = (ret a = 0 \<longrightarrow> fst (ends a) \<ge> 0 \<and> snd (ends a) \<ge> 0 \<and> fst (ends a) \<noteq> snd (ends a) \<and>
     fst (ends a) \<notin> open_fds h \<and> snd (ends a) \<notin> open_fds h)"
| "answer_ok h (Send fd bs) a = (ret a \<le> int (length bs))"
| "answer_ok h (Recv fd n peek) a = (ret a \<ge> 0 \<longrightarrow> ret a \<le> n \<and> int (length (got a)) = ret a)"
| "answer_ok h (Read_pipe fd n) a = (ret a \<ge> 0 \<longrightarrow> ret a \<le> n \<and> int (length (got a)) = ret a)"
| "answer_ok h (Epoll_wait e n t) a = (ret a \<ge> 0 \<longrightarrow> ret a \<le> n \<and> int (length (evs a)) = ret a)"
| "answer_ok h c a = True"

definition kernel_ok :: "kernel \<Rightarrow> bool" where
  "kernel_ok k \<longleftrightarrow> (\<forall>h c. answer_ok h c (k h c))"

text \<open>From the \<open>n\<close>-th call on no signal interrupts.\<close>

definition quiet :: "kernel \<Rightarrow> nat \<Rightarrow> bool" where
  "quiet k n \<longleftrightarrow> (\<forall>h c. n \<le> length h \<longrightarrow> errno (k h c) \<noteq> EINTR)"

end
