(* ===== verification/Loops.thy ===== *)
theory Loops
  imports Main
begin

text \<open>
  Loops as a body that is gone through until it leaves: the invariant where one is left, and that one ends whose rounds make a number smaller.
\<close>

text \<open>A body leaves the loop with a result or goes round with new values of the variables; a loop that never ends is \<open>None\<close>.\<close>

partial_function (option) rounds :: "('s \<Rightarrow> ('r + 's) option) \<Rightarrow> 's \<Rightarrow> 'r option" where
  "rounds body x = Option.bind (body x) (\<lambda>y. case y of Inl r \<Rightarrow> Some r | Inr x \<Rightarrow> rounds body x)"

lemma rounds_leave: "body x = Some (Inl r) \<Longrightarrow> rounds body x = Some r"
  by (simp add: rounds.simps [of body x])

lemma rounds_on: "body x = Some (Inr y) \<Longrightarrow> rounds body x = rounds body y"
  by (simp add: rounds.simps [of body x])

text \<open>An invariant holds where the loop is left.\<close>

lemma rounds_invariant:
  assumes "rounds body x = Some r" "I x" "\<And>x y. I x \<Longrightarrow> body x = Some (Inr y) \<Longrightarrow> I y"
  shows "\<exists>z. I z \<and> body z = Some (Inl r)"
proof -
  define P where "P = (\<lambda>body' x r. body' = body \<longrightarrow> I x \<longrightarrow> (\<exists>z. I z \<and> body z = Some (Inl r)))"
  have "(case (body, x) of (b, x) \<Rightarrow> P b x) r"
  proof (rule rounds.raw_induct [where P = P])
    show "(case (body, x) of (b, x) \<Rightarrow> rounds b x) = Some r" using assms(1) by simp
    fix loop body' x r
    assume IH: "\<And>body x r. loop body x = Some r \<Longrightarrow> P body x r"
      and r: "Option.bind (body' x) (\<lambda>y. case y of Inl r \<Rightarrow> Some r | Inr x \<Rightarrow> loop body' x) = Some r"
    show "P body' x r"
      unfolding P_def
    proof (intro impI)
      assume b: "body' = body" "I x"
      obtain y where y: "body x = Some y" "(case y of Inl r \<Rightarrow> Some r | Inr x \<Rightarrow> loop body' x) = Some r"
        using r b(1) by (auto simp: bind_eq_Some_conv)
      show "\<exists>z. I z \<and> body z = Some (Inl r)"
      proof (cases y)
        case (Inl r')
        then show ?thesis using y b(2) by auto
      next
        case (Inr x')
        then have "P body' x' r" using y(2) by (intro IH) simp
        then show ?thesis using assms(3) [OF b(2)] y(1) Inr b(1) by (simp add: P_def)
      qed
    qed
  qed
  then show ?thesis using assms(2) by (simp add: P_def)
qed

text \<open>A loop whose rounds make some number smaller ends.\<close>

lemma rounds_end:
  fixes m :: "'s \<Rightarrow> nat"
  assumes "I x" "\<And>x. I x \<Longrightarrow> (\<exists>r. body x = Some (Inl r) \<and> Q r) \<or> (\<exists>y. body x = Some (Inr y) \<and> I y \<and> m y < m x)"
  shows "\<exists>r. rounds body x = Some r \<and> Q r"
  using assms(1)
proof (induction "m x" arbitrary: x rule: less_induct)
  case less
  from assms(2) [OF less.prems] show ?case
  proof
    assume "\<exists>r. body x = Some (Inl r) \<and> Q r"
    then show ?thesis using rounds_leave [of body x] by blast
  next
    assume "\<exists>y. body x = Some (Inr y) \<and> I y \<and> m y < m x"
    then show ?thesis using less.hyps rounds_on [of body x] by metis
  qed
qed

text \<open>The same with the bound as part of the invariant.\<close>

lemma rounds_bounded:
  assumes "I (n :: nat) x" "\<And>n x. I n x \<Longrightarrow> (\<exists>r. body x = Some (Inl r) \<and> Q r) \<or> (\<exists>y m. body x = Some (Inr y) \<and> I m y \<and> m < n)"
  shows "\<exists>r. rounds body x = Some r \<and> Q r"
  using assms(1)
proof (induction n arbitrary: x rule: less_induct)
  case (less n)
  from assms(2) [OF less.prems] show ?case
  proof
    assume "\<exists>r. body x = Some (Inl r) \<and> Q r"
    then show ?thesis using rounds_leave [of body x] by blast
  next
    assume "\<exists>y m. body x = Some (Inr y) \<and> I m y \<and> m < n"
    then show ?thesis using less.IH rounds_on [of body x] by metis
  qed
qed

end
