(* ===== verification/NetXfer.thy ===== *)
theory NetXfer
  imports NetKernel Loops "HOL-Library.Monad_Syntax" "HOL-Library.Sublist"
begin

unbundle bit_operations_syntax

text \<open>
  The transfer functions of \<open>src/common/net_api.c\<close>: \<open>send_data\<close>, \<open>recv_data\<close>, their \<open>epoll\<close> variants, and the
  receivers that take what is there. The caller's buffer is a list of bytes, \<open>None\<close> for a null pointer. Each loop is
  \<open>rounds\<close> of its body.
\<close>

section \<open>Sending\<close>

text \<open>One \<open>send\<close> of what is left, after which the loop is left with \<open>-2\<close>, goes round again, or goes on behind the bytes taken.\<close>

definition try_send :: "kernel \<Rightarrow> int \<Rightarrow> bytes \<times> int \<times> history \<Rightarrow> (int \<times> history + bytes \<times> int \<times> history) option" where
  "try_send k fd = (\<lambda>(buf, n, h).
     if nat n > length buf then None
     else let (b, h) = ask k (Send fd (take (nat n) buf)) h in
       Some (if ret b \<le> 0 then (if errno b = EINTR then Inr (buf, n, h) else Inl (-2, h))
             else Inr (drop (nat (ret b)) buf, n - ret b, h)))"

definition send_data_round :: "kernel \<Rightarrow> int \<Rightarrow> int \<Rightarrow> int \<Rightarrow> bytes \<times> int \<times> history \<Rightarrow> (int \<times> history + bytes \<times> int \<times> history) option" where
  "send_data_round k fd s us = (\<lambda>(buf, n, h).
     if n \<le> 0 then Some (Inl (0, h))
     else let (a, h) = ask k (Select_write fd s us) h in
       if ret a < 0 then Some (Inl (-2, h))
       else if ret a = 0 then Some (Inl (-1, h))
       else try_send k fd (buf, n, h))"

definition send_data :: "kernel \<Rightarrow> int \<Rightarrow> bytes option \<Rightarrow> int \<Rightarrow> int \<Rightarrow> int \<Rightarrow> history \<Rightarrow> (int \<times> history) option" where
  "send_data k sockfd send_buf data_len timeout_s timeout_ms h =
     (case send_buf of None \<Rightarrow> Some (-1, h)
      | Some buf \<Rightarrow>
          if sockfd < 0 \<or> data_len \<le> 0 then Some (-1, h)
          else if sockfd \<ge> FD_SETSIZE then None
          else rounds (send_data_round k sockfd timeout_s timeout_ms) (buf, data_len, h))"

text \<open>The descriptor of the first event with a bit of the mask; \<open>None\<close> when \<open>epoll_wait\<close> stored fewer events than it counted.\<close>

definition pick_event :: "int \<Rightarrow> answer \<Rightarrow> int \<Rightarrow> int option" where
  "pick_event bits a sockfd =
     (if ret a > int (length (evs a)) then None
      else Some (case find (\<lambda>e. fst e AND bits \<noteq> 0) (take (nat (ret a)) (evs a)) of None \<Rightarrow> sockfd | Some e \<Rightarrow> snd e))"

text \<open>Seconds to milliseconds, an \<open>int\<close> product.\<close>

definition millis :: "int \<Rightarrow> int option" where
  "millis t = (if - (2 ^ 31) \<le> t * 1000 \<and> t * 1000 < 2 ^ 31 then Some (t * 1000) else None)"

text \<open>\<open>sockfd\<close> keeps its value from round to round.\<close>

definition send_data_round_ep ::
  "kernel \<Rightarrow> int \<Rightarrow> int \<Rightarrow> int \<Rightarrow> int \<times> bytes \<times> int \<times> history \<Rightarrow> (int \<times> history + int \<times> bytes \<times> int \<times> history) option" where
  "send_data_round_ep k epfd maxevents ms = (\<lambda>(sockfd, buf, n, h).
     if n \<le> 0 then Some (Inl (0, h))
     else let (a, h) = ask k (Epoll_wait epfd maxevents ms) h in
       if ret a < 0 then Some (if errno a = EINTR then Inr (sockfd, buf, n, h) else Inl (-2, h))
       else if ret a = 0 then Some (Inl (-1, h))
       else do {
         sockfd \<leftarrow> pick_event EPOLLOUT a sockfd;
         if sockfd = -1 then Some (Inr (sockfd, buf, n, h))
         else map_option (map_sum id (Pair sockfd)) (try_send k sockfd (buf, n, h))
       })"

definition send_data_ep :: "kernel \<Rightarrow> int \<Rightarrow> int \<Rightarrow> bytes option \<Rightarrow> int \<Rightarrow> int \<Rightarrow> history \<Rightarrow> (int \<times> history) option" where
  "send_data_ep k epfd maxevents send_buf data_len timeout_s h =
     (case send_buf of None \<Rightarrow> Some (-1, h)
      | Some buf \<Rightarrow>
          if epfd < 0 \<or> data_len \<le> 0 then Some (-1, h)
          else do { ms \<leftarrow> millis timeout_s; rounds (send_data_round_ep k epfd maxevents ms) (-1, buf, data_len, h) })"

section \<open>Receiving\<close>

text \<open>\<open>i\<close> is how far \<open>ptr\<close> has moved in the caller's buffer, \<open>n\<close> is \<open>nleft\<close> and \<open>len\<close> the length asked for.\<close>

type_synonym receiving = "nat \<times> int \<times> bytes \<times> history"
type_synonym received = "int \<times> bytes \<times> history"

definition try_recv :: "kernel \<Rightarrow> int \<Rightarrow> receiving \<Rightarrow> (received + receiving) option" where
  "try_recv k fd = (\<lambda>(i, n, buf, h).
     let (b, h) = ask k (Recv fd n False) h in
       if ret b < 0 then Some (if errno b = EINTR then Inr (i, n, buf, h) else Inl (-2, buf, h))
       else if ret b = 0 then Some (Inl (0, buf, h))
       else do { buf \<leftarrow> mem_write buf i (got b); Some (Inr (i + nat (ret b), n - ret b, buf, h)) })"

definition recv_data_round :: "kernel \<Rightarrow> int \<Rightarrow> int \<Rightarrow> int \<Rightarrow> receiving \<Rightarrow> (received + receiving) option" where
  "recv_data_round k fd t len = (\<lambda>(i, n, buf, h).
     if n \<le> 0 then Some (Inl (len, buf, h))
     else let (a, h) = ask k (Select_read fd t 0) h in
       if ret a = 0 then Some (Inl (-1, buf, h))
       else if ret a < 0 then Some (Inl (-2, buf, h))
       else try_recv k fd (i, n, buf, h))"

definition recv_data :: "kernel \<Rightarrow> int \<Rightarrow> bytes option \<Rightarrow> int \<Rightarrow> int \<Rightarrow> history \<Rightarrow> (int \<times> bytes option \<times> history) option" where
  "recv_data k sockfd recv_buf recv_data_len timeout h =
     (case recv_buf of None \<Rightarrow> Some (-3, None, h)
      | Some buf \<Rightarrow>
          if sockfd \<le> 0 \<or> recv_data_len \<le> 0 then Some (-3, Some buf, h)
          else if sockfd \<ge> FD_SETSIZE then None
          else map_option (map_prod id (map_prod Some id))
            (rounds (recv_data_round k sockfd timeout recv_data_len) (0, recv_data_len, buf, h)))"

definition recv_data_round_ep :: "kernel \<Rightarrow> int \<Rightarrow> int \<Rightarrow> int \<Rightarrow> int \<Rightarrow> int \<times> receiving \<Rightarrow> (received + int \<times> receiving) option" where
  "recv_data_round_ep k epfd maxevents ms len = (\<lambda>(sockfd, i, n, buf, h).
     if n \<le> 0 then Some (Inl (len, buf, h))
     else let (a, h) = ask k (Epoll_wait epfd maxevents ms) h in
       if ret a = 0 then Some (Inl (-1, buf, h))
       else if ret a < 0 then Some (if errno a = EINTR then Inr (sockfd, i, n, buf, h) else Inl (-2, buf, h))
       else do {
         sockfd \<leftarrow> pick_event EPOLLIN a sockfd;
         if sockfd = -1 then Some (Inr (sockfd, i, n, buf, h))
         else map_option (map_sum id (Pair sockfd)) (try_recv k sockfd (i, n, buf, h))
       })"

definition recv_data_ep :: "kernel \<Rightarrow> int \<Rightarrow> int \<Rightarrow> bytes option \<Rightarrow> int \<Rightarrow> int \<Rightarrow> history \<Rightarrow> (int \<times> bytes option \<times> history) option" where
  "recv_data_ep k epfd maxevents recv_buf recv_data_len timeout h =
     (case recv_buf of None \<Rightarrow> Some (-3, None, h)
      | Some buf \<Rightarrow>
          if epfd \<le> 0 \<or> recv_data_len \<le> 0 then Some (-3, Some buf, h)
          else do {
            ms \<leftarrow> millis timeout;
            map_option (map_prod id (map_prod Some id))
              (rounds (recv_data_round_ep k epfd maxevents ms recv_data_len) (-1, 0, recv_data_len, buf, h)) })"

section \<open>Receiving what is there\<close>

text \<open>The loop tests the \<open>errno\<close> that \<open>usleep\<close> left.\<close>

definition recv_once_round :: "kernel \<Rightarrow> int \<Rightarrow> bool \<Rightarrow> int \<Rightarrow> bytes \<times> history \<Rightarrow> (received + bytes \<times> history) option" where
  "recv_once_round k fd peek n = (\<lambda>(buf, h).
     let (b, h) = ask k (Recv fd n peek) h in
     if ret b = 0 then Some (Inl (0, buf, h))
     else do {
       buf \<leftarrow> (if ret b > 0 then mem_write buf 0 (got b) else Some buf);
       let (u, h) = ask k (Usleep 5000) h;
       Some (if ret b < 0 \<and> errno u = EINTR then Inr (buf, h) else Inl (ret b, buf, h))
     })"

definition recv_select :: "kernel \<Rightarrow> int \<Rightarrow> bool \<Rightarrow> bytes option \<Rightarrow> int \<Rightarrow> int \<Rightarrow> history \<Rightarrow> (int \<times> bytes option \<times> history) option" where
  "recv_select k sockfd peek recv_buf n timeout h =
     (case recv_buf of None \<Rightarrow> Some (-3, None, h)
      | Some buf \<Rightarrow>
          if sockfd \<le> 0 \<or> n \<le> 0 then Some (-3, Some buf, h)
          else if sockfd \<ge> FD_SETSIZE then None
          else let (a, h) = ask k (Select_read sockfd timeout 0) h in
            if ret a = 0 then Some (-1, Some buf, h)
            else if ret a < 0 then Some (-2, Some buf, h)
            else map_option (map_prod id (map_prod Some id)) (rounds (recv_once_round k sockfd peek n) (buf, h)))"

definition recv_data_once :: "kernel \<Rightarrow> int \<Rightarrow> bytes option \<Rightarrow> int \<Rightarrow> int \<Rightarrow> history \<Rightarrow> (int \<times> bytes option \<times> history) option" where
  "recv_data_once k sockfd = recv_select k sockfd False"

definition recv_data_once_peek :: "kernel \<Rightarrow> int \<Rightarrow> bytes option \<Rightarrow> int \<Rightarrow> int \<Rightarrow> history \<Rightarrow> (int \<times> bytes option \<times> history) option" where
  "recv_data_once_peek k sockfd = recv_select k sockfd True"

definition wait_round :: "kernel \<Rightarrow> int \<Rightarrow> int \<Rightarrow> int \<Rightarrow> history \<Rightarrow> ((int + answer) \<times> history + history) option" where
  "wait_round k epfd maxevents ms h =
     (let (a, h) = ask k (Epoll_wait epfd maxevents ms) h in
      if ret a = 0 then Some (Inl (Inl (-1), h))
      else if ret a < 0 then Some (if errno a = EINTR then Inr h else Inl (Inl (-2), h))
      else Some (Inl (Inr a, h)))"

definition recv_data_once_ep :: "kernel \<Rightarrow> int \<Rightarrow> int \<Rightarrow> bytes option \<Rightarrow> int \<Rightarrow> int \<Rightarrow> history \<Rightarrow> (int \<times> bytes option \<times> history) option" where
  "recv_data_once_ep k epfd maxevents recv_buf n timeout h =
     (case recv_buf of None \<Rightarrow> Some (-3, None, h)
      | Some buf \<Rightarrow>
          if epfd \<le> 0 \<or> n \<le> 0 then Some (-3, Some buf, h)
          else do {
            ms \<leftarrow> millis timeout;
            (w, h) \<leftarrow> rounds (wait_round k epfd maxevents ms) h;
            case w of Inl e \<Rightarrow> Some (e, Some buf, h)
            | Inr a \<Rightarrow> do {
                sockfd \<leftarrow> pick_event EPOLLIN a (-1);
                if sockfd = -1 then Some (-4, Some buf, h)
                else map_option (map_prod id (map_prod Some id)) (rounds (recv_once_round k sockfd False n) (buf, h))
              }
          })"

end
