(* ===== verification/NetTransfer.thy ===== *)
theory NetTransfer
  imports NetXfer
begin

text \<open>
  What the transfer functions of \<open>NetXfer\<close> achieve: which bytes they hand to the kernel and take from it, that they
  return, and that a message sent on one side is the message received on the other.
\<close>

section \<open>The bytes of a connection\<close>

text \<open>What the kernel took for a descriptor, and what it gave.\<close>

fun accepted :: "int \<Rightarrow> history \<Rightarrow> bytes" where
  "accepted fd [] = []"
| "accepted fd ((c, a) # h) = (case c of Send d bs \<Rightarrow> if d = fd then take (nat (ret a)) bs else [] | _ \<Rightarrow> []) @ accepted fd h"

fun delivered :: "int \<Rightarrow> history \<Rightarrow> bytes" where
  "delivered fd [] = []"
| "delivered fd ((c, a) # h) =
     (case c of Recv d n peek \<Rightarrow> if d = fd \<and> \<not> peek \<and> ret a > 0 then got a else [] | _ \<Rightarrow> []) @ delivered fd h"

lemma accepted_append [simp]: "accepted fd (h @ h') = accepted fd h @ accepted fd h'"
  by (induction fd h rule: accepted.induct) auto

lemma delivered_append [simp]: "delivered fd (h @ h') = delivered fd h @ delivered fd h'"
  by (induction fd h rule: delivered.induct) auto

text \<open>The events of an \<open>epoll\<close> descriptor that one socket is registered with; readiness from some call on.\<close>

definition serves :: "kernel \<Rightarrow> int \<Rightarrow> int \<Rightarrow> bool" where
  "serves k epfd fd \<longleftrightarrow> (\<forall>h m t. \<forall>e\<in>set (evs (k h (Epoll_wait epfd m t))). snd e = fd)"

definition ready_from :: "kernel \<Rightarrow> nat \<Rightarrow> int \<Rightarrow> int \<Rightarrow> bool" where
  "ready_from k n epfd bits \<longleftrightarrow> (\<forall>h m t. n \<le> length h \<longrightarrow> ret (k h (Epoll_wait epfd m t)) > 0 \<longrightarrow>
     (\<exists>e\<in>set (evs (k h (Epoll_wait epfd m t))). fst e AND bits \<noteq> 0))"

lemma send_ok: "kernel_ok k \<Longrightarrow> ret (k h (Send fd bs)) \<le> int (length bs)"
  unfolding kernel_ok_def by (drule spec [of _ h], drule spec [of _ "Send fd bs"]) simp

lemma recv_ok: "kernel_ok k \<Longrightarrow> 0 \<le> ret (k h (Recv fd n p)) \<Longrightarrow>
    ret (k h (Recv fd n p)) \<le> n \<and> int (length (got (k h (Recv fd n p)))) = ret (k h (Recv fd n p))"
  unfolding kernel_ok_def by (drule spec [of _ h], drule spec [of _ "Recv fd n p"]) simp

lemma epoll_ok: "kernel_ok k \<Longrightarrow> 0 \<le> ret (k h (Epoll_wait e m t)) \<Longrightarrow>
    ret (k h (Epoll_wait e m t)) = int (length (evs (k h (Epoll_wait e m t))))"
  unfolding kernel_ok_def by (drule spec [of _ h], drule spec [of _ "Epoll_wait e m t"]) simp

lemma pick_one:
  assumes "kernel_ok k" "0 \<le> ret (k h (Epoll_wait e m t))" "serves k e fd" "old \<in> {-1, fd}"
  shows "\<exists>d \<in> {-1, fd}. pick_event bits (k h (Epoll_wait e m t)) old = Some d \<and>
    (n \<le> length h \<longrightarrow> ready_from k n e bits \<longrightarrow> 0 < ret (k h (Epoll_wait e m t)) \<longrightarrow> d = fd)"
proof -
  let ?a = "k h (Epoll_wait e m t)"
  have l: "ret ?a = int (length (evs ?a))" using epoll_ok assms(1,2) by blast
  show ?thesis
  proof (cases "find (\<lambda>x. fst x AND bits \<noteq> 0) (evs ?a)")
    case None
    then have "\<not> (n \<le> length h \<and> ready_from k n e bits \<and> 0 < ret ?a)" unfolding ready_from_def find_None_iff by metis
    then show ?thesis using None l assms(4) by (auto simp: pick_event_def)
  next
    case (Some x)
    then have "x \<in> set (evs ?a)" by (metis find_Some_iff nth_mem)
    then have "snd x = fd" using assms(3) by (simp add: serves_def)
    then show ?thesis using Some l by (auto simp: pick_event_def)
  qed
qed

section \<open>Sending\<close>

text \<open>Where a send stands: \<open>m\<close> bytes of the buffer the call began with are with the kernel.\<close>

definition sent_so_far :: "int \<Rightarrow> bytes \<Rightarrow> int \<Rightarrow> history \<Rightarrow> bytes \<times> int \<times> history \<Rightarrow> bool" where
  "sent_so_far fd buf0 n0 h0 = (\<lambda>(buf, n, h). 0 \<le> n \<and> nat n \<le> length buf \<and>
     (\<exists>m. nat n0 = m + nat n \<and> buf = drop m buf0 \<and> accepted fd h = accepted fd h0 @ take m buf0))"

lemma try_send_step:
  assumes "kernel_ok k" "sent_so_far fd buf0 n0 h0 (buf, n, h)" "0 < n"
  shows "(\<exists>h'. try_send k fd (buf, n, h) = Some (Inl (-2, h')) \<and> length h' = length h + 1 \<and> sent_so_far fd buf0 n0 h0 (buf, n, h')) \<or>
    (\<exists>g h'. try_send k fd (buf, n, h) = Some (Inr (drop (nat g) buf, n - g, h')) \<and> length h' = length h + 1 \<and>
       0 \<le> g \<and> g \<le> n \<and> (g = 0 \<longrightarrow> errno (k h (Send fd (take (nat n) buf))) = EINTR) \<and> sent_so_far fd buf0 n0 h0 (drop (nat g) buf, n - g, h'))"
proof -
  obtain m where m: "nat n0 = m + nat n" "buf = drop m buf0" "accepted fd h = accepted fd h0 @ take m buf0" "nat n \<le> length buf"
    using assms(2) by (auto simp: sent_so_far_def)
  define b where "b = k h (Send fd (take (nat n) buf))"
  let ?h = "h @ [(Send fd (take (nat n) buf), b)]"
  have le: "ret b \<le> n" using send_ok [OF assms(1), of h fd "take (nat n) buf"] assms(3) m(4) by (simp add: b_def min_absorb2)
  have eq: "try_send k fd (buf, n, h) = Some (if ret b \<le> 0 then (if errno b = EINTR then Inr (buf, n, ?h) else Inl (-2, ?h))
             else Inr (drop (nat (ret b)) buf, n - ret b, ?h))"
    using m(4) by (simp add: try_send_def ask_def b_def)
  have stay: "sent_so_far fd buf0 n0 h0 (buf, n, ?h)" if "ret b \<le> 0"
    using that m assms(3) by (auto simp: sent_so_far_def)
  have go: "sent_so_far fd buf0 n0 h0 (drop (nat (ret b)) buf, n - ret b, ?h)" if "0 < ret b"
  proof -
    have "take (nat (ret b)) (take (nat n) buf) = take (nat (ret b)) buf" using le that by (simp add: min_absorb1)
    then have "accepted fd ?h = accepted fd h0 @ take (m + nat (ret b)) buf0" using m(2,3) by (simp add: take_add)
    then show ?thesis using m le that by (auto simp: sent_so_far_def nat_diff_distrib add.commute intro!: exI [of _ "m + nat (ret b)"])
  qed
  show ?thesis
  proof (cases "ret b \<le> 0")
    case True
    then show ?thesis using eq stay assms(3) by (cases "errno b = EINTR") (auto simp: b_def intro!: exI [of _ "0 :: int"])
  next
    case False
    then show ?thesis using eq go le by (auto intro!: exI [of _ "ret b"])
  qed
qed

text \<open>One round of either loop: it leaves with its invariant, or it goes on and has used up a call that may be interrupted, or bytes.\<close>

definition round_ok :: "('s \<Rightarrow> bool) \<Rightarrow> ('s \<Rightarrow> nat) \<Rightarrow> ('r \<Rightarrow> bool) \<Rightarrow> ('r + 's) option \<Rightarrow> nat \<Rightarrow> bool" where
  "round_ok I m Q y b \<longleftrightarrow> (\<exists>r. y = Some (Inl r) \<and> Q r) \<or> (\<exists>s. y = Some (Inr s) \<and> I s \<and> m s < b)"

text \<open>What is left, for a kernel that is quiet from the \<open>N\<close>-th call on, and the invariant with the calls made so far.\<close>

definition work_left :: "nat \<Rightarrow> int \<Rightarrow> history \<Rightarrow> nat" where
  "work_left N n h = nat n + (N - length h)"

lemma wait_less: "length h < N \<Longrightarrow> length h1 = length h + 1 \<Longrightarrow> work_left N n h1 + 1 = work_left N n h"
  unfolding work_left_def by linarith

definition sending :: "int \<Rightarrow> bytes \<Rightarrow> int \<Rightarrow> history \<Rightarrow> nat \<Rightarrow> bytes \<times> int \<times> history \<Rightarrow> bool" where
  "sending fd buf0 n0 h0 N = (\<lambda>(buf, n, h). sent_so_far fd buf0 n0 h0 (buf, n, h) \<and>
     length h + 2 * work_left N n h \<le> length h0 + 2 * work_left N n0 h0)"

text \<open>The result of a send: its code, and which bytes are with the kernel.\<close>

definition send_result :: "int \<Rightarrow> bytes \<Rightarrow> int \<Rightarrow> history \<Rightarrow> nat \<Rightarrow> int \<times> history \<Rightarrow> bool" where
  "send_result fd buf n h0 N = (\<lambda>(r, h). r \<in> {0, -1, -2} \<and> length h \<le> length h0 + 2 * work_left N n h0 \<and>
     (\<exists>m \<le> nat n. accepted fd h = accepted fd h0 @ take m buf \<and> (r = 0 \<longrightarrow> m = nat n)))"

lemma send_result_of:
  "sent_so_far fd buf0 n0 h0 (buf, n, h) \<Longrightarrow> r \<in> {0, -1, -2} \<Longrightarrow> (r = 0 \<longrightarrow> n = 0) \<Longrightarrow>
   length h \<le> length h0 + 2 * work_left N n0 h0 \<Longrightarrow> send_result fd buf0 n0 h0 N (r, h)"
proof -
  assume h: "sent_so_far fd buf0 n0 h0 (buf, n, h)" "r \<in> {0, -1, -2}" "r = 0 \<longrightarrow> n = 0" "length h \<le> length h0 + 2 * work_left N n0 h0"
  then obtain m where "nat n0 = m + nat n" "accepted fd h = accepted fd h0 @ take m buf0" by (auto simp: sent_so_far_def)
  then show ?thesis using h unfolding send_result_def by (auto intro!: exI [of _ m])
qed

lemma sent_wait: "sent_so_far fd buf0 n0 h0 (buf, n, h) \<Longrightarrow> accepted fd [(c, a)] = [] \<Longrightarrow> sent_so_far fd buf0 n0 h0 (buf, n, h @ [(c, a)])"
  by (auto simp: sent_so_far_def)

text \<open>The end of a round, at its \<open>send\<close>.\<close>

lemma try_send_round:
  assumes "kernel_ok k" "quiet k N" "sent_so_far fd buf0 n0 h0 (buf, n, h1)" "0 < n" "length h1 = length h + 1"
    and "length h + 2 * work_left N n h \<le> length h0 + 2 * work_left N n0 h0"
  shows "round_ok (sending fd buf0 n0 h0 N) (\<lambda>(buf, n, h). work_left N n h) (send_result fd buf0 n0 h0 N) (try_send k fd (buf, n, h1)) (work_left N n h)"
  using try_send_step [OF assms(1,3,4)]
proof (elim disjE exE conjE)
  fix h' assume s: "try_send k fd (buf, n, h1) = Some (Inl (-2, h'))" "length h' = length h1 + 1" "sent_so_far fd buf0 n0 h0 (buf, n, h')"
  have "length h' \<le> length h0 + 2 * work_left N n0 h0" using s(2) assms(4-6) by (simp add: work_left_def)
  then show ?thesis using s send_result_of [OF s(3), of "-2" N] by (simp add: round_ok_def)
next
  fix g h' assume s: "try_send k fd (buf, n, h1) = Some (Inr (drop (nat g) buf, n - g, h'))" "length h' = length h1 + 1" "0 \<le> g" "g \<le> n"
    "g = 0 \<longrightarrow> errno (k h1 (Send fd (take (nat n) buf))) = EINTR" "sent_so_far fd buf0 n0 h0 (drop (nat g) buf, n - g, h')"
  have less: "work_left N (n - g) h' < work_left N n h"
  proof (cases "g = 0")
    case True
    then have "length h1 < N" using s(5) assms(2) unfolding quiet_def by (meson not_less)
    then show ?thesis using True s(2) assms(5) by (simp add: work_left_def)
  next
    case False
    then have "nat (n - g) < nat n" using s(3,4) by simp
    then show ?thesis using s(2) assms(5) unfolding work_left_def by linarith
  qed
  then have "sending fd buf0 n0 h0 N (drop (nat g) buf, n - g, h')" using s(2,6) assms(5,6) by (simp add: sending_def)
  then show ?thesis using s(1) less by (simp add: round_ok_def)
qed

lemma send_data_round_ok:
  assumes "kernel_ok k" "quiet k N" "sending fd buf0 n0 h0 N x"
  shows "round_ok (sending fd buf0 n0 h0 N) (\<lambda>(buf, n, h). work_left N n h) (send_result fd buf0 n0 h0 N)
    (send_data_round k fd s us x) (case x of (buf, n, h) \<Rightarrow> work_left N n h)"
proof -
  obtain buf n h where x: "x = (buf, n, h)" by (cases x) auto
  define a where "a = k h (Select_write fd s us)"
  let ?h = "h @ [(Select_write fd s us, a)]"
  have inv: "sent_so_far fd buf0 n0 h0 (buf, n, h)" "length h + 2 * work_left N n h \<le> length h0 + 2 * work_left N n0 h0"
    using assms(3) by (simp_all add: x sending_def)
  have eq: "send_data_round k fd s us x = (if n \<le> 0 then Some (Inl (0, h)) else if ret a < 0 then Some (Inl (-2, ?h))
      else if ret a = 0 then Some (Inl (-1, ?h)) else try_send k fd (buf, n, ?h))"
    by (simp add: x send_data_round_def ask_def a_def)
  have n: "0 \<le> n" using inv(1) by (simp add: sent_so_far_def)
  have w: "sent_so_far fd buf0 n0 h0 (buf, n, ?h)" using sent_wait [OF inv(1)] by simp
  have one: "0 < n \<Longrightarrow> length ?h \<le> length h0 + 2 * work_left N n0 h0" using inv(2) by (simp add: work_left_def)
  consider "n = 0" | "0 < n" "ret a \<le> 0" | "0 < n" "0 < ret a" using n by linarith
  then show ?thesis
  proof cases
    case 1
    then show ?thesis using send_result_of [OF inv(1), of 0 N] inv(2) eq by (simp add: round_ok_def)
  next
    case 2
    then show ?thesis using send_result_of [OF w, of "if ret a < 0 then -2 else -1" N] one eq by (auto simp: round_ok_def)
  next
    case 3
    then show ?thesis using try_send_round [OF assms(1,2) w 3(1) _ inv(2)] eq by (simp add: x)
  qed
qed

lemma send_loop_result:
  assumes "kernel_ok k" "quiet k N" "0 \<le> n" "nat n \<le> length buf"
  shows "\<exists>r. rounds (send_data_round k fd s us) (buf, n, h) = Some r \<and> send_result fd buf n h N r"
proof (rule rounds_end [where I = "sending fd buf n h N" and m = "\<lambda>(buf, n, h). work_left N n h"])
  show "sending fd buf n h N (buf, n, h)" using assms(3,4) by (auto simp: sending_def sent_so_far_def)
qed (use send_data_round_ok [OF assms(1,2)] in \<open>auto simp: round_ok_def\<close>)

text \<open>The \<open>epoll\<close> loop adds the descriptor found so far.\<close>

lemma send_data_round_ep_ok:
  assumes "kernel_ok k" "quiet k N" "serves k epfd fd" "ready_from k N epfd EPOLLOUT" "fd \<noteq> -1"
    and "old \<in> {-1, fd}" "sending fd buf0 n0 h0 N (buf, n, h)"
  shows "round_ok (\<lambda>(d, x). d \<in> {-1, fd} \<and> sending fd buf0 n0 h0 N x) (\<lambda>(d, buf, n, h). work_left N n h) (send_result fd buf0 n0 h0 N)
    (send_data_round_ep k epfd m ms (old, buf, n, h)) (work_left N n h)"
proof -
  define a where "a = k h (Epoll_wait epfd m ms)"
  define h1 where "h1 = h @ [(Epoll_wait epfd m ms, a)]"
  have inv: "sent_so_far fd buf0 n0 h0 (buf, n, h)" "length h + 2 * work_left N n h \<le> length h0 + 2 * work_left N n0 h0"
    using assms(7) by (simp_all add: sending_def)
  have eq: "send_data_round_ep k epfd m ms (old, buf, n, h) = (if n \<le> 0 then Some (Inl (0, h))
      else if ret a < 0 then Some (if errno a = EINTR then Inr (old, buf, n, h1) else Inl (-2, h1))
      else if ret a = 0 then Some (Inl (-1, h1))
      else do { d \<leftarrow> pick_event EPOLLOUT a old;
        if d = -1 then Some (Inr (d, buf, n, h1)) else map_option (map_sum id (Pair d)) (try_send k d (buf, n, h1)) })"
    unfolding a_def h1_def by (simp add: send_data_round_ep_def ask_def)
  have n: "0 \<le> n" using inv(1) by (simp add: sent_so_far_def)
  have w: "sent_so_far fd buf0 n0 h0 (buf, n, h1)" using sent_wait [OF inv(1)] by (simp add: h1_def)
  have len: "length h1 = length h + 1" by (simp add: h1_def)
  have one: "0 < n \<Longrightarrow> length h1 \<le> length h0 + 2 * work_left N n0 h0" using inv(2) len by (simp add: work_left_def)
  have again: "work_left N n h1 < work_left N n h \<and> sending fd buf0 n0 h0 N (buf, n, h1)" if "length h < N"
    using wait_less [OF that, of h1 n] w inv(2) len by (simp add: sending_def)
  consider "n = 0" | "0 < n" "ret a < 0" "errno a = EINTR" | "0 < n" "ret a \<le> 0" "ret a = 0 \<or> errno a \<noteq> EINTR" | "0 < n" "0 < ret a"
    using n by linarith
  then show ?thesis
  proof cases
    case 1
    then show ?thesis using send_result_of [OF inv(1), of 0 N] inv(2) eq by (simp add: round_ok_def)
  next
    case 2
    then have "length h < N" using assms(2) unfolding quiet_def a_def by (meson not_less)
    then show ?thesis using again eq 2 assms(6) by (simp add: round_ok_def)
  next
    case 3
    then show ?thesis using send_result_of [OF w, of "if ret a < 0 then -2 else -1" N] one eq by (auto simp: round_ok_def)
  next
    case 4
    obtain d where d: "d \<in> {-1, fd}" "pick_event EPOLLOUT a old = Some d" "N \<le> length h \<Longrightarrow> d = fd"
      using pick_one [OF assms(1) _ assms(3,6), of h m ms EPOLLOUT N] assms(4) 4(2) unfolding a_def by auto
    show ?thesis
    proof (cases "d = -1")
      case True
      then have "length h < N" using d(3) assms(5) by (cases "length h < N") auto
      then show ?thesis using again eq 4 d(2) True by (simp add: round_ok_def)
    next
      case False
      then have "d = fd" using d(1) by simp
      then show ?thesis
        using try_send_round [OF assms(1,2) w 4(1) len inv(2)] eq 4 d(2) assms(5)
        by (auto simp: round_ok_def)
    qed
  qed
qed

lemma send_loop_ep_result:
  assumes "kernel_ok k" "quiet k N" "serves k epfd fd" "ready_from k N epfd EPOLLOUT" "fd \<noteq> -1" "0 \<le> n" "nat n \<le> length buf"
  shows "\<exists>r. rounds (send_data_round_ep k epfd m ms) (-1, buf, n, h) = Some r \<and> send_result fd buf n h N r"
proof (rule rounds_end [where I = "\<lambda>(d, x). d \<in> {-1, fd} \<and> sending fd buf n h N x" and m = "\<lambda>(d, buf, n, h). work_left N n h"])
  show "case (-1, buf, n, h) of (d, x) \<Rightarrow> d \<in> {-1, fd} \<and> sending fd buf n h N x"
    using assms(6,7) by (auto simp: sending_def sent_so_far_def)
next
  fix x assume i: "case x of (d, x) \<Rightarrow> d \<in> {-1, fd} \<and> sending fd buf n h N x"
  obtain d b m' g where x: "x = (d, b, m', g)" by (cases x) auto
  show "(\<exists>r. send_data_round_ep k epfd m ms x = Some (Inl r) \<and> send_result fd buf n h N r) \<or>
    (\<exists>y. send_data_round_ep k epfd m ms x = Some (Inr y) \<and> (case y of (d, x) \<Rightarrow> d \<in> {-1, fd} \<and> sending fd buf n h N x) \<and>
       (case y of (d, buf, n, h) \<Rightarrow> work_left N n h) < (case x of (d, buf, n, h) \<Rightarrow> work_left N n h))"
    using send_data_round_ep_ok [OF assms(1-5), of d buf n h b m' g m ms] i by (simp add: x round_ok_def)
qed

section \<open>Receiving\<close>

text \<open>Where a receive stands: the bytes the kernel gave are at the start of the buffer, the rest of it is as it was.\<close>

definition got_so_far :: "int \<Rightarrow> bytes \<Rightarrow> int \<Rightarrow> history \<Rightarrow> receiving \<Rightarrow> bool" where
  "got_so_far fd buf0 n0 h0 = (\<lambda>(i, n, buf, h). 0 \<le> n \<and> nat n0 = i + nat n \<and>
     (\<exists>D. delivered fd h = delivered fd h0 @ D \<and> length D = i \<and> buf = D @ drop i buf0))"

definition receiving :: "int \<Rightarrow> bytes \<Rightarrow> int \<Rightarrow> history \<Rightarrow> nat \<Rightarrow> receiving \<Rightarrow> bool" where
  "receiving fd buf0 n0 h0 N = (\<lambda>(i, n, buf, h). got_so_far fd buf0 n0 h0 (i, n, buf, h) \<and>
     length h + 2 * work_left N n h \<le> length h0 + 2 * work_left N n0 h0)"

definition recv_result :: "int \<Rightarrow> bytes \<Rightarrow> int \<Rightarrow> history \<Rightarrow> nat \<Rightarrow> received \<Rightarrow> bool" where
  "recv_result fd buf0 n h0 N = (\<lambda>(r, buf, h). r \<in> {n, 0, -1, -2} \<and> length h \<le> length h0 + 2 * work_left N n h0 \<and>
     (\<exists>D. delivered fd h = delivered fd h0 @ D \<and> length D \<le> nat n \<and> buf = D @ drop (length D) buf0 \<and>
       (0 < r \<longrightarrow> length D = nat n)))"

lemma recv_result_of:
  assumes "got_so_far fd buf0 n0 h0 (i, n, buf, h)" "r \<in> {n0, 0, -1, -2}" "0 < r \<longrightarrow> n = 0"
    "length h \<le> length h0 + 2 * work_left N n0 h0"
  shows "recv_result fd buf0 n0 h0 N (r, buf, h)"
proof -
  obtain D where "delivered fd h = delivered fd h0 @ D" "length D = i" "buf = D @ drop i buf0" "nat n0 = i + nat n"
    using assms(1) by (auto simp: got_so_far_def)
  then show ?thesis using assms(2-4) unfolding recv_result_def by (auto intro!: exI [of _ D])
qed

lemma got_wait: "got_so_far fd buf0 n0 h0 (i, n, buf, h) \<Longrightarrow> delivered fd [(c, a)] = [] \<Longrightarrow> got_so_far fd buf0 n0 h0 (i, n, buf, h @ [(c, a)])"
  by (auto simp: got_so_far_def)

lemma try_recv_round:
  assumes "kernel_ok k" "quiet k N" "got_so_far fd buf0 n0 h0 (i, n, buf, h1)" "0 < n" "length h1 = length h + 1" "nat n0 \<le> length buf0"
    and "length h + 2 * work_left N n h \<le> length h0 + 2 * work_left N n0 h0"
  shows "round_ok (receiving fd buf0 n0 h0 N) (\<lambda>(i, n, buf, h). work_left N n h) (recv_result fd buf0 n0 h0 N)
    (try_recv k fd (i, n, buf, h1)) (work_left N n h)"
proof -
  define b where "b = k h1 (Recv fd n False)"
  define h2 where "h2 = h1 @ [(Recv fd n False, b)]"
  have eq: "try_recv k fd (i, n, buf, h1) = (if ret b < 0 then Some (if errno b = EINTR then Inr (i, n, buf, h2) else Inl (-2, buf, h2))
       else if ret b = 0 then Some (Inl (0, buf, h2))
       else do { buf \<leftarrow> mem_write buf i (got b); Some (Inr (i + nat (ret b), n - ret b, buf, h2)) })"
    by (simp add: try_recv_def ask_def b_def h2_def)
  obtain D where D: "delivered fd h1 = delivered fd h0 @ D" "length D = i" "buf = D @ drop i buf0" "nat n0 = i + nat n"
    using assms(3) by (auto simp: got_so_far_def)
  have len: "length h2 = length h + 2" using assms(5) by (simp add: h2_def)
  have one: "length h2 \<le> length h0 + 2 * work_left N n0 h0" using assms(4,7) len by (simp add: work_left_def)
  consider "ret b < 0" "errno b = EINTR" | "ret b \<le> 0" "ret b = 0 \<or> errno b \<noteq> EINTR" | "0 < ret b" by linarith
  then show ?thesis
  proof cases
    case 1
    then have "length h1 < N" using assms(2) unfolding quiet_def b_def by (meson not_less)
    then have "work_left N n h2 < work_left N n h" using len assms(5) by (simp add: work_left_def)
    moreover have "got_so_far fd buf0 n0 h0 (i, n, buf, h2)" using got_wait [OF assms(3)] 1 by (simp add: h2_def)
    ultimately show ?thesis using eq 1 len assms(7) by (simp add: round_ok_def receiving_def)
  next
    case 2
    have "got_so_far fd buf0 n0 h0 (i, n, buf, h2)" using got_wait [OF assms(3)] 2 by (simp add: h2_def)
    then show ?thesis using recv_result_of [of fd buf0 n0 h0 i n buf h2 "if ret b = 0 then 0 else -2" N] one eq 2 by (auto simp: round_ok_def)
  next
    case 3
    have r: "ret b \<le> n" "int (length (got b)) = ret b" using recv_ok [OF assms(1), of h1 fd n False] 3 by (simp_all add: b_def)
    then have l: "nat (ret b) = length (got b)" by linarith
    have room: "i + length (got b) \<le> length buf" using r D assms(4,6) by simp
    have w: "mem_write buf i (got b) = Some ((D @ got b) @ drop (i + nat (ret b)) buf0)"
      using room l D(2,3) by (auto simp: mem_write_def add.commute)
    have "delivered fd h2 = delivered fd h0 @ (D @ got b)" using D(1) 3 by (simp add: h2_def)
    then have g: "got_so_far fd buf0 n0 h0 (i + nat (ret b), n - ret b, (D @ got b) @ drop (i + nat (ret b)) buf0, h2)"
      using D(2,4) r 3 unfolding got_so_far_def by (auto simp: nat_diff_distrib)
    have less: "work_left N (n - ret b) h2 < work_left N n h" using r 3 len unfolding work_left_def by linarith
    then have "receiving fd buf0 n0 h0 N (i + nat (ret b), n - ret b, (D @ got b) @ drop (i + nat (ret b)) buf0, h2)"
      using g len assms(7) by (simp add: receiving_def)
    then show ?thesis using eq 3 w less by (simp add: round_ok_def)
  qed
qed

lemma recv_data_round_ok:
  assumes "kernel_ok k" "quiet k N" "nat n0 \<le> length buf0" "receiving fd buf0 n0 h0 N x"
  shows "round_ok (receiving fd buf0 n0 h0 N) (\<lambda>(i, n, buf, h). work_left N n h) (recv_result fd buf0 n0 h0 N)
    (recv_data_round k fd t n0 x) (case x of (i, n, buf, h) \<Rightarrow> work_left N n h)"
proof -
  obtain i n buf h where x: "x = (i, n, buf, h)" by (cases x) auto
  define a where "a = k h (Select_read fd t 0)"
  define h1 where "h1 = h @ [(Select_read fd t 0, a)]"
  have inv: "got_so_far fd buf0 n0 h0 (i, n, buf, h)" "length h + 2 * work_left N n h \<le> length h0 + 2 * work_left N n0 h0"
    using assms(4) by (simp_all add: x receiving_def)
  have eq: "recv_data_round k fd t n0 x = (if n \<le> 0 then Some (Inl (n0, buf, h)) else if ret a = 0 then Some (Inl (-1, buf, h1))
      else if ret a < 0 then Some (Inl (-2, buf, h1)) else try_recv k fd (i, n, buf, h1))"
    unfolding a_def h1_def by (simp add: x recv_data_round_def ask_def)
  have n: "0 \<le> n" using inv(1) by (simp add: got_so_far_def)
  have w: "got_so_far fd buf0 n0 h0 (i, n, buf, h1)" using got_wait [OF inv(1)] by (simp add: h1_def)
  have one: "0 < n \<Longrightarrow> length h1 \<le> length h0 + 2 * work_left N n0 h0" using inv(2) by (simp add: work_left_def h1_def)
  consider "n = 0" | "0 < n" "ret a \<le> 0" | "0 < n" "0 < ret a" using n by linarith
  then show ?thesis
  proof cases
    case 1
    then show ?thesis using recv_result_of [OF inv(1), of n0 N] inv(2) eq by (simp add: round_ok_def)
  next
    case 2
    then show ?thesis using recv_result_of [OF w, of "if ret a < 0 then -2 else -1" N] one eq by (auto simp: round_ok_def)
  next
    case 3
    then show ?thesis using try_recv_round [OF assms(1,2) w 3(1) _ assms(3) inv(2)] eq by (simp add: x h1_def)
  qed
qed

lemma recv_loop_result:
  assumes "kernel_ok k" "quiet k N" "0 \<le> n" "nat n \<le> length buf"
  shows "\<exists>r. rounds (recv_data_round k fd t n) (0, n, buf, h) = Some r \<and> recv_result fd buf n h N r"
proof (rule rounds_end [where I = "receiving fd buf n h N" and m = "\<lambda>(i, n, buf, h). work_left N n h"])
  show "receiving fd buf n h N (0, n, buf, h)" using assms(3) by (auto simp: receiving_def got_so_far_def)
qed (use recv_data_round_ok [OF assms(1,2,4)] in \<open>auto simp: round_ok_def\<close>)

lemma recv_data_round_ep_ok:
  assumes "kernel_ok k" "quiet k N" "serves k epfd fd" "ready_from k N epfd EPOLLIN" "fd \<noteq> -1" "nat n0 \<le> length buf0"
    and "old \<in> {-1, fd}" "receiving fd buf0 n0 h0 N (i, n, buf, h)"
  shows "round_ok (\<lambda>(d, x). d \<in> {-1, fd} \<and> receiving fd buf0 n0 h0 N x) (\<lambda>(d, i, n, buf, h). work_left N n h) (recv_result fd buf0 n0 h0 N)
    (recv_data_round_ep k epfd m ms n0 (old, i, n, buf, h)) (work_left N n h)"
proof -
  define a where "a = k h (Epoll_wait epfd m ms)"
  define h1 where "h1 = h @ [(Epoll_wait epfd m ms, a)]"
  have inv: "got_so_far fd buf0 n0 h0 (i, n, buf, h)" "length h + 2 * work_left N n h \<le> length h0 + 2 * work_left N n0 h0"
    using assms(8) by (simp_all add: receiving_def)
  have eq: "recv_data_round_ep k epfd m ms n0 (old, i, n, buf, h) = (if n \<le> 0 then Some (Inl (n0, buf, h))
      else if ret a = 0 then Some (Inl (-1, buf, h1))
      else if ret a < 0 then Some (if errno a = EINTR then Inr (old, i, n, buf, h1) else Inl (-2, buf, h1))
      else do { d \<leftarrow> pick_event EPOLLIN a old;
        if d = -1 then Some (Inr (d, i, n, buf, h1)) else map_option (map_sum id (Pair d)) (try_recv k d (i, n, buf, h1)) })"
    unfolding a_def h1_def by (simp add: recv_data_round_ep_def ask_def)
  have n: "0 \<le> n" using inv(1) by (simp add: got_so_far_def)
  have w: "got_so_far fd buf0 n0 h0 (i, n, buf, h1)" using got_wait [OF inv(1)] by (simp add: h1_def)
  have len: "length h1 = length h + 1" by (simp add: h1_def)
  have one: "0 < n \<Longrightarrow> length h1 \<le> length h0 + 2 * work_left N n0 h0" using inv(2) len by (simp add: work_left_def)
  have again: "work_left N n h1 < work_left N n h \<and> receiving fd buf0 n0 h0 N (i, n, buf, h1)" if "length h < N"
    using wait_less [OF that, of h1 n] w inv(2) len by (simp add: receiving_def)
  consider "n = 0" | "0 < n" "ret a < 0" "errno a = EINTR" | "0 < n" "ret a \<le> 0" "ret a = 0 \<or> errno a \<noteq> EINTR" | "0 < n" "0 < ret a"
    using n by linarith
  then show ?thesis
  proof cases
    case 1
    then show ?thesis using recv_result_of [OF inv(1), of n0 N] inv(2) eq by (simp add: round_ok_def)
  next
    case 2
    then have "length h < N" using assms(2) unfolding quiet_def a_def by (meson not_less)
    then show ?thesis using again eq 2 assms(7) by (simp add: round_ok_def)
  next
    case 3
    then show ?thesis using recv_result_of [OF w, of "if ret a < 0 then -2 else -1" N] one eq by (auto simp: round_ok_def)
  next
    case 4
    obtain d where d: "d \<in> {-1, fd}" "pick_event EPOLLIN a old = Some d" "N \<le> length h \<Longrightarrow> d = fd"
      using pick_one [OF assms(1) _ assms(3,7), of h m ms EPOLLIN N] assms(4) 4(2) unfolding a_def by auto
    show ?thesis
    proof (cases "d = -1")
      case True
      then have "length h < N" using d(3) assms(5) by (cases "length h < N") auto
      then show ?thesis using again eq 4 d(2) True by (simp add: round_ok_def)
    next
      case False
      then have "d = fd" using d(1) by simp
      then show ?thesis
        using try_recv_round [OF assms(1,2) w 4(1) len assms(6) inv(2)] eq 4 d(2) assms(5)
        by (auto simp: round_ok_def)
    qed
  qed
qed

lemma recv_loop_ep_result:
  assumes "kernel_ok k" "quiet k N" "serves k epfd fd" "ready_from k N epfd EPOLLIN" "fd \<noteq> -1" "0 \<le> n" "nat n \<le> length buf"
  shows "\<exists>r. rounds (recv_data_round_ep k epfd m ms n) (-1, 0, n, buf, h) = Some r \<and> recv_result fd buf n h N r"
proof (rule rounds_end [where I = "\<lambda>(d, x). d \<in> {-1, fd} \<and> receiving fd buf n h N x" and m = "\<lambda>(d, i, n, buf, h). work_left N n h"])
  show "case (-1, 0, n, buf, h) of (d, x) \<Rightarrow> d \<in> {-1, fd} \<and> receiving fd buf n h N x"
    using assms(6) by (auto simp: receiving_def got_so_far_def)
next
  fix x assume i: "case x of (d, x) \<Rightarrow> d \<in> {-1, fd} \<and> receiving fd buf n h N x"
  obtain d j m' b g where x: "x = (d, j, m', b, g)" by (cases x) auto
  show "(\<exists>r. recv_data_round_ep k epfd m ms n x = Some (Inl r) \<and> recv_result fd buf n h N r) \<or>
    (\<exists>y. recv_data_round_ep k epfd m ms n x = Some (Inr y) \<and> (case y of (d, x) \<Rightarrow> d \<in> {-1, fd} \<and> receiving fd buf n h N x) \<and>
       (case y of (d, i, n, buf, h) \<Rightarrow> work_left N n h) < (case x of (d, i, n, buf, h) \<Rightarrow> work_left N n h))"
    using recv_data_round_ep_ok [OF assms(1-5,7), of d h j m' b g m ms] i by (simp add: x round_ok_def)
qed

section \<open>A message\<close>

text \<open>
  What is to come of a send of \<open>n\<close> bytes of \<open>msg\<close> on one host and a receive of as many on the other: both return, after as many calls of the kernel as
  given, with a result code of the documentation; \<open>0\<close> says that all bytes are with the kernel; and when the bytes that were received are a beginning of
  those that were sent, a positive result says that the message is in the buffer and the rest of the buffer is as it was.
\<close>

definition message_moved :: "int \<Rightarrow> history \<Rightarrow> bytes \<Rightarrow> int \<Rightarrow> history \<Rightarrow> bytes \<Rightarrow> int \<Rightarrow> nat \<Rightarrow> nat \<Rightarrow>
    (int \<times> history) option \<Rightarrow> (int \<times> bytes option \<times> history) option \<Rightarrow> bool" where
  "message_moved fd1 h1 msg fd2 h2 room n calls1 calls2 S R \<longleftrightarrow>
     (\<exists>r1 h1' sent r2 room' h2' gotten.
        S = Some (r1, h1') \<and> r1 \<in> {0, -1, -2} \<and> length h1' \<le> length h1 + calls1 \<and>
        accepted fd1 h1' = accepted fd1 h1 @ sent \<and> prefix sent (take (nat n) msg) \<and> (r1 = 0 \<longrightarrow> sent = take (nat n) msg) \<and>
        R = Some (r2, Some room', h2') \<and> r2 \<in> {n, 0, -1, -2} \<and> length h2' \<le> length h2 + calls2 \<and>
        delivered fd2 h2' = delivered fd2 h2 @ gotten \<and>
        (prefix gotten sent \<longrightarrow> 0 < r2 \<longrightarrow> room' = take (nat n) msg @ drop (nat n) room))"

lemma message_movedI:
  assumes "send_result fd1 msg n h1 N1 (r1, h1')" "recv_result fd2 room n h2 N2 (r2, room', h2')" "0 < n" "nat n \<le> length msg" "nat n \<le> length room"
  shows "message_moved fd1 h1 msg fd2 h2 room n (2 * work_left N1 n h1) (2 * work_left N2 n h2) (Some (r1, h1')) (Some (r2, Some room', h2'))"
proof -
  obtain m where m: "m \<le> nat n" "accepted fd1 h1' = accepted fd1 h1 @ take m msg" "r1 = 0 \<longrightarrow> m = nat n" "r1 \<in> {0, -1, -2}"
    "length h1' \<le> length h1 + 2 * work_left N1 n h1" using assms(1) by (auto simp: send_result_def)
  obtain D where D: "delivered fd2 h2' = delivered fd2 h2 @ D" "room' = D @ drop (length D) room" "0 < r2 \<longrightarrow> length D = nat n"
    "r2 \<in> {n, 0, -1, -2}" "length h2' \<le> length h2 + 2 * work_left N2 n h2"
    using assms(2) by (auto simp: recv_result_def)
  have p: "prefix (take m msg) (take (nat n) msg)" using m(1) by (metis min_absorb1 take_is_prefix take_take)
  have full: "r1 = 0 \<longrightarrow> take m msg = take (nat n) msg" using m(3) by simp
  have eq: "D = take (nat n) msg" if "prefix D (take m msg)" "length D = nat n"
  proof -
    have "prefix D (take (nat n) msg)" using that(1) p by (rule prefix_order.trans)
    then obtain zs where z: "take (nat n) msg = D @ zs" by (auto simp: prefix_def)
    then have "length (D @ zs) = nat n" using assms(4) by (metis length_take min_absorb2)
    then show ?thesis using z that(2) by simp
  qed
  have room: "prefix D (take m msg) \<longrightarrow> 0 < r2 \<longrightarrow> room' = take (nat n) msg @ drop (nat n) room"
    using eq D(2,3) by metis
  show ?thesis
    unfolding message_moved_def
    by (rule exI [of _ r1], rule exI [of _ h1'], rule exI [of _ "take m msg"], rule exI [of _ r2], rule exI [of _ room'], rule exI [of _ h2'], rule exI [of _ D])
      (intro conjI refl m(2,4,5) D(1,4,5) p full room)
qed

text \<open>
  C12. The send and receive functions move a message whole, whatever pieces the kernel takes and gives and however often a signal interrupts. For kernels
  that keep their counts within what was asked and that are not interrupted any more from some call on, \<open>send_data\<close> and \<open>recv_data\<close>
  return, within a number of calls linear in the length, never touch memory outside the buffers, and when the receiver reports success its buffer
  holds exactly the bytes of the message and is unchanged behind them. The same for the pair over \<open>epoll\<close>, with the socket registered alone and ready from some call on.
\<close>

theorem message_transfer:
  assumes k1: "kernel_ok k1" "quiet k1 N1" and k2: "kernel_ok k2" "quiet k2 N2"
    and n: "0 < n" "nat n \<le> length msg" "nat n \<le> length room"
    and fds: "0 \<le> fd1" "fd1 < FD_SETSIZE" "0 < fd2" "fd2 < FD_SETSIZE"
    and ep1: "0 \<le> epfd1" "serves k1 epfd1 fd1" "ready_from k1 N1 epfd1 EPOLLOUT" "millis t1 \<noteq> None"
    and ep2: "0 < epfd2" "serves k2 epfd2 fd2" "ready_from k2 N2 epfd2 EPOLLIN" "millis t2 \<noteq> None"
  shows "message_moved fd1 h1 msg fd2 h2 room n (2 * (nat n + (N1 - length h1))) (2 * (nat n + (N2 - length h2)))
       (send_data k1 fd1 (Some msg) n s us h1) (recv_data k2 fd2 (Some room) n t h2) \<and>
     message_moved fd1 h1 msg fd2 h2 room n (2 * (nat n + (N1 - length h1))) (2 * (nat n + (N2 - length h2)))
       (send_data_ep k1 epfd1 m1 (Some msg) n t1 h1) (recv_data_ep k2 epfd2 m2 (Some room) n t2 h2)"
proof -
  obtain ms1 ms2 where ms: "millis t1 = Some ms1" "millis t2 = Some ms2" using ep1(4) ep2(4) by blast
  have n0: "0 \<le> n" and fd: "fd1 \<noteq> -1" "fd2 \<noteq> -1" using n(1) fds by simp_all
  obtain r1 h1' where s: "rounds (send_data_round k1 fd1 s us) (msg, n, h1) = Some (r1, h1')" "send_result fd1 msg n h1 N1 (r1, h1')"
    using send_loop_result [OF k1 n0 n(2), of fd1 s us h1] by (metis surj_pair)
  obtain r2 b2 h2' where r: "rounds (recv_data_round k2 fd2 t n) (0, n, room, h2) = Some (r2, b2, h2')" "recv_result fd2 room n h2 N2 (r2, b2, h2')"
    using recv_loop_result [OF k2 n0 n(3), of fd2 t h2] by (metis prod_cases3)
  obtain r3 h3 where se: "rounds (send_data_round_ep k1 epfd1 m1 ms1) (-1, msg, n, h1) = Some (r3, h3)" "send_result fd1 msg n h1 N1 (r3, h3)"
    using send_loop_ep_result [OF k1 ep1(2,3) fd(1) n0 n(2), of m1 ms1 h1] by (metis surj_pair)
  obtain r4 b4 h4 where re: "rounds (recv_data_round_ep k2 epfd2 m2 ms2 n) (-1, 0, n, room, h2) = Some (r4, b4, h4)" "recv_result fd2 room n h2 N2 (r4, b4, h4)"
    using recv_loop_ep_result [OF k2 ep2(2,3) fd(2) n0 n(3), of m2 ms2 h2] by (metis prod_cases3)
  have "send_data k1 fd1 (Some msg) n s us h1 = Some (r1, h1')" "recv_data k2 fd2 (Some room) n t h2 = Some (r2, Some b2, h2')"
    "send_data_ep k1 epfd1 m1 (Some msg) n t1 h1 = Some (r3, h3)" "recv_data_ep k2 epfd2 m2 (Some room) n t2 h2 = Some (r4, Some b4, h4)"
    using s(1) r(1) se(1) re(1) fds ms n(1) ep1(1) ep2(1)
    by (simp_all add: send_data_def recv_data_def send_data_ep_def recv_data_ep_def)
  then show ?thesis
    using message_movedI [OF s(2) r(2) n] message_movedI [OF se(2) re(2) n] by (simp add: work_left_def)
qed

text \<open>A slow kernel: at most two bytes at a time, the first call interrupted.\<close>

definition demo_kernel :: "bytes \<Rightarrow> int \<Rightarrow> kernel" where
  "demo_kernel d fd h c = (case c of
     Send f bs \<Rightarrow> if length h = 1 then (says (-1))\<lparr>errno := EINTR\<rparr> else says (min 2 (int (length bs)))
   | Recv f n p \<Rightarrow> if n < 0 then says (-1) else (let b = take (nat (min 2 n)) (drop (length (delivered fd h)) d) in (says (int (length b)))\<lparr>got := b\<rparr>)
   | Epoll_wait e n t \<Rightarrow> if n \<ge> 1 then (says 1)\<lparr>evs := [(EPOLLIN OR EPOLLOUT, fd)]\<rparr> else says (-1)
   | Select_write f s u \<Rightarrow> says 1 | Select_read f s u \<Rightarrow> says 1 | _ \<Rightarrow> says (-1))"

lemma demo_kernel_ok: "kernel_ok (demo_kernel d fd)"
  unfolding kernel_ok_def
proof (intro allI)
  fix h c show "answer_ok h c (demo_kernel d fd h c)"
    by (cases c) (auto simp: demo_kernel_def says_def Let_def)
qed

lemma demo_kernel_quiet: "quiet (demo_kernel d fd) 2"
  unfolding quiet_def
proof (intro allI impI)
  fix h :: history and c assume "2 \<le> length h"
  then show "errno (demo_kernel d fd h c) \<noteq> EINTR" by (cases c) (auto simp: demo_kernel_def says_def EINTR_def Let_def)
qed

lemma demo_kernel_epoll: "serves (demo_kernel d fd) e fd" "ready_from (demo_kernel d fd) N e EPOLLIN" "ready_from (demo_kernel d fd) N e EPOLLOUT"
  by (auto simp: serves_def ready_from_def demo_kernel_def says_def EPOLLIN_def EPOLLOUT_def)

theorem message_transfer_witness:
  "\<exists>h1 h2. send_data (demo_kernel [] 5) 5 (Some [1, 2, 3, 9]) 3 1 0 [] = Some (0, h1) \<and>
     recv_data (demo_kernel [1, 2, 3] 6) 6 (Some [0, 0, 0, 7]) 3 1 [] = Some (3, Some [1, 2, 3, 7], h2) \<and>
     message_moved 5 [] [1, 2, 3, 9] 6 [] [0, 0, 0, 7] 3 10 10
       (send_data (demo_kernel [] 5) 5 (Some [1, 2, 3, 9]) 3 1 0 []) (recv_data (demo_kernel [1, 2, 3] 6) 6 (Some [0, 0, 0, 7]) 3 1 [])"
proof -
  have "message_moved 5 [] [1, 2, 3, 9] 6 [] [0, 0, 0, 7] 3 10 10
       (send_data (demo_kernel [] 5) 5 (Some [1, 2, 3, 9]) 3 1 0 []) (recv_data (demo_kernel [1, 2, 3] 6) 6 (Some [0, 0, 0, 7]) 3 1 [])"
    using message_transfer [OF demo_kernel_ok demo_kernel_quiet demo_kernel_ok demo_kernel_quiet, of 3 "[1, 2, 3, 9]" "[0, 0, 0, 7]" 5 6 7 _ 5 1 8 _ 6 1
      "[]" "[]" 1 0 1]
    by (simp add: demo_kernel_epoll FD_SETSIZE_def millis_def)
  moreover have "\<exists>h1. send_data (demo_kernel [] 5) 5 (Some [1, 2, 3, 9]) 3 1 0 [] = Some (0, h1)"
    by (simp add: send_data_def FD_SETSIZE_def rounds.simps send_data_round_def try_send_def ask_def demo_kernel_def says_def EINTR_def)
  moreover have "\<exists>h2. recv_data (demo_kernel [1, 2, 3] 6) 6 (Some [0, 0, 0, 7]) 3 1 [] = Some (3, Some [1, 2, 3, 7], h2)"
    by (simp add: recv_data_def FD_SETSIZE_def rounds.simps recv_data_round_def try_recv_def ask_def demo_kernel_def says_def Let_def mem_write_def)
  ultimately show ?thesis by blast
qed

end
