(* ===== verification/NetSock.thy ===== *)
theory NetSock
  imports NetXfer InetAddr
begin

unbundle bit_operations_syntax

text \<open>
  The rest of \<open>src/common/net_api.c\<close>: making sockets, connecting with a time limit, buffer sizes, ports and the addresses
  of the host; and \<open>random_number\<close> of \<open>src/common/common_api.c\<close>. A C string is the list of its characters before the terminator.
\<close>

section \<open>Constants\<close>

definition AF_INET :: int where "AF_INET = 2"
definition SOCK_STREAM :: int where "SOCK_STREAM = 1"
definition SOCK_DGRAM :: int where "SOCK_DGRAM = 2"
definition SO_REUSEADDR :: int where "SO_REUSEADDR = 2"
definition SO_ERROR :: int where "SO_ERROR = 4"
definition SO_SNDBUF :: int where "SO_SNDBUF = 7"
definition SO_RCVBUF :: int where "SO_RCVBUF = 8"
definition O_NONBLOCK :: int where "O_NONBLOCK = 0x800"
definition EINPROGRESS :: int where "EINPROGRESS = 115"
definition EPOLL_CTL_ADD :: int where "EPOLL_CTL_ADD = 1"
definition EPOLL_CTL_DEL :: int where "EPOLL_CTL_DEL = 2"
definition EPOLLONESHOT :: int where "EPOLLONESHOT = 0x40000000"
definition LISTEN_BACKLOG_SIZE :: int where "LISTEN_BACKLOG_SIZE = 100"

section \<open>Sockets\<close>

definition make_socket_non_blocking :: "kernel \<Rightarrow> int \<Rightarrow> history \<Rightarrow> int \<times> history" where
  "make_socket_non_blocking k sock h =
     (let (f, h) = ask k (Get_flags sock) h;
          (r, h) = ask k (Set_flags sock (ret f OR O_NONBLOCK)) h
      in (if ret r \<ge> 0 then 1 else 0, h))"

definition set_socket_non_blocking :: "kernel \<Rightarrow> int \<Rightarrow> history \<Rightarrow> int \<times> history" where
  "set_socket_non_blocking k sockfd h =
     (let (f, h) = ask k (Get_flags sockfd) h in
      if ret f < 0 then (HB_FAILURE, h)
      else let (r, h) = ask k (Set_flags sockfd (ret f OR O_NONBLOCK)) h in
        if ret r < 0 then (HB_FAILURE, h) else (HB_SUCCESS, h))"

definition close_fd :: "kernel \<Rightarrow> int \<Rightarrow> history \<Rightarrow> history" where
  "close_fd k fd h = snd (ask k (Close fd) h)"

text \<open>Socket, option, address, mode: what \<open>setup_socket\<close> and \<open>setup_datagram_socket\<close> both do, with the one type or the other.\<close>

definition bound_socket :: "kernel \<Rightarrow> int \<Rightarrow> u16 \<Rightarrow> bool \<Rightarrow> history \<Rightarrow> int \<times> history" where
  "bound_socket k type port make_non_blocking h =
     (let (s, h) = ask k (Socket AF_INET type) h in
      if ret s < 0 then (HB_FAILURE, h)
      else let (o1, h) = ask k (Set_option (ret s) SO_REUSEADDR 1) h in
        if ret o1 < 0 then (HB_FAILURE, close_fd k (ret s) h)
        else let (b, h) = ask k (Bind (ret s) port) h in
          if ret b \<noteq> 0 then (HB_FAILURE, close_fd k (ret s) h)
          else if make_non_blocking then
            let (m, h) = make_socket_non_blocking k (ret s) h in
              if m = 0 then (HB_FAILURE, close_fd k (ret s) h) else (ret s, h)
          else (ret s, h))"

definition setup_socket :: "kernel \<Rightarrow> u16 \<Rightarrow> bool \<Rightarrow> history \<Rightarrow> int \<times> history" where
  "setup_socket k = bound_socket k SOCK_STREAM"

definition setup_datagram_socket :: "kernel \<Rightarrow> u16 \<Rightarrow> bool \<Rightarrow> history \<Rightarrow> int \<times> history" where
  "setup_datagram_socket k = bound_socket k SOCK_DGRAM"

definition setup_listen_socket :: "kernel \<Rightarrow> u16 \<Rightarrow> history \<Rightarrow> int \<times> history" where
  "setup_listen_socket k port h =
     (let (s, h) = setup_socket k port True h in
      if s < 0 then (HB_FAILURE, h)
      else let (l, h) = ask k (Listen s LISTEN_BACKLOG_SIZE) h in
        if ret l < 0 then (HB_FAILURE, h) else (s, h))"

definition close_sockfd :: "kernel \<Rightarrow> int \<Rightarrow> history \<Rightarrow> int \<times> int \<times> history" where
  "close_sockfd k sockfd h = (1, -1, if sockfd > 0 then close_fd k sockfd h else h)"

text \<open>A port is taken for in use whenever the socket cannot be bound, also when there is no socket.\<close>

definition check_port :: "kernel \<Rightarrow> int \<Rightarrow> history \<Rightarrow> int \<times> history" where
  "check_port k port h =
     (let (s, h) = ask k (Socket AF_INET SOCK_STREAM) h;
          (o1, h) = ask k (Set_option (ret s) SO_REUSEADDR 1) h;
          (b, h) = ask k (Bind (ret s) (word_of_int port)) h
      in (if ret b = 0 then HB_SUCCESS else HB_FAILURE, close_fd k (ret s) h))"

section \<open>Connecting\<close>

text \<open>From the label \<open>done\<close> on; \<open>error\<close> is the socket's pending error.\<close>

definition connect_done :: "kernel \<Rightarrow> int \<Rightarrow> int \<Rightarrow> int \<Rightarrow> history \<Rightarrow> int \<times> history" where
  "connect_done k epfd sockfd error h =
     (if error \<noteq> 0 then (-1, h)
      else let (_, h) = ask k (Epoll_ctl epfd EPOLL_CTL_DEL sockfd 0) h in (HB_SUCCESS, close_fd k epfd h))"

definition connect_noblock :: "kernel \<Rightarrow> int \<Rightarrow> u32 \<Rightarrow> u16 \<Rightarrow> int \<Rightarrow> history \<Rightarrow> (int \<times> history) option" where
  "connect_noblock k sockfd addr port nsec h =
     (let (e, h) = ask k (Epoll_create 1) h; epfd = ret e in
      if epfd \<le> 0 then Some (HB_FAILURE, h)
      else let (f, h) = ask k (Get_flags sockfd) h;
               (_, h) = ask k (Set_flags sockfd (ret f OR O_NONBLOCK)) h;
               (c, h) = ask k (Connect sockfd addr port) h in
        if ret c < 0 \<and> errno c \<noteq> EINPROGRESS then Some (HB_FAILURE, close_fd k epfd h)
        else if ret c = 0 then Some (connect_done k epfd sockfd 0 h)
        else let (a, h) = ask k (Epoll_ctl epfd EPOLL_CTL_ADD sockfd (EPOLLIN OR EPOLLOUT OR EPOLLONESHOT)) h in
          if ret a \<noteq> 0 then Some (HB_FAILURE, close_fd k epfd h)
          else do {
            ms \<leftarrow> millis nsec;
            let (w, h) = ask k (Epoll_wait epfd 1 ms) h;
            if ret w \<le> 0 then Some (HB_FAILURE, close_fd k epfd h)
            else case evs w of [] \<Rightarrow> None
              | (ev, _) # _ \<Rightarrow>
                  if ev AND EPOLLOUT \<noteq> 0 \<or> ev AND EPOLLIN \<noteq> 0 then
                    let (g, h) = ask k (Get_option sockfd SO_ERROR) h in
                      if ret g < 0 then
                        let (_, h) = ask k (Epoll_ctl epfd EPOLL_CTL_DEL sockfd 0) h in Some (HB_FAILURE, close_fd k epfd h)
                      else Some (connect_done k epfd sockfd (num g) h)
                  else Some (connect_done k epfd sockfd 0 h)
          })"

definition pt_connect :: "kernel \<Rightarrow> int \<Rightarrow> bytes option \<Rightarrow> int \<Rightarrow> int \<Rightarrow> history \<Rightarrow> (int \<times> history) option" where
  "pt_connect k sockfd addr port waitsec h =
     (case addr of None \<Rightarrow> Some (0, h)
      | Some addr \<Rightarrow>
          if sockfd \<le> 0 \<or> port \<le> 0 then Some (0, h)
          else let (_, h) = ask k (Set_option sockfd SO_REUSEADDR 1) h in do {
            (c, h) \<leftarrow> connect_noblock k sockfd (inet_addr addr) (word_of_int port) waitsec h;
            Some (if c < 0 then -1 else 1, h)
          })"

text \<open>The result, the caller's descriptor and the history. A socket that is there already is used.\<close>

definition stream_socket :: "kernel \<Rightarrow> int \<Rightarrow> history \<Rightarrow> int \<times> history" where
  "stream_socket k sockfd h =
     (if sockfd \<le> 0 then let (s, h) = ask k (Socket AF_INET SOCK_STREAM) h in (ret s, h) else (sockfd, h))"

definition create_socket_connect_ipaddr :: "kernel \<Rightarrow> int \<Rightarrow> bytes option \<Rightarrow> int \<Rightarrow> int \<Rightarrow> history \<Rightarrow> (int \<times> int \<times> history) option" where
  "create_socket_connect_ipaddr k sockfd ipaddr port timeout h =
     (let (s, h) = stream_socket k sockfd h in
      if s < 0 then Some (HB_FAILURE, s, h)
      else do {
        (r, h) \<leftarrow> pt_connect k s ipaddr port timeout h;
        Some (if r < 0 then HB_FAILURE else HB_SUCCESS, s, h)
      })"

section \<open>Names\<close>

text \<open>What the thread that looks the name up does with the write end of the pipe.\<close>

definition parse_domain_task :: "kernel \<Rightarrow> bytes \<Rightarrow> int \<Rightarrow> history \<Rightarrow> history option" where
  "parse_domain_task k domain pipe_fd h =
     (let (r, h) = ask k (Resolve domain) h in
      if ret r < 0 then Some h
      else if ret r > 0 then None
      else case addrs r of [] \<Rightarrow> Some h
        | a # _ \<Rightarrow> Some (snd (ask k (Write_pipe pipe_fd (inet_ntoa a)) h)))"

text \<open>
  The thread's argument lies on the stack: a name of 256 characters or more does not fit. The text that comes is copied to the
  caller's array of \<open>room\<close> bytes.
\<close>

definition from_domain_to_ip :: "kernel \<Rightarrow> bytes \<Rightarrow> nat \<Rightarrow> int \<Rightarrow> history \<Rightarrow> (int \<times> bytes option \<times> history) option" where
  "from_domain_to_ip k srv_domain room timeout h =
     (let (p, h) = ask k Pipe h; (rd, wr) = (if ret p = 0 then ends p else (0, 0)) in
      if rd \<ge> FD_SETSIZE \<or> length srv_domain \<ge> 256 then None
      else let (_, h) = ask k (Start_thread srv_domain wr) h;
               (s, h) = ask k (Select_read rd timeout 0) h in
        if ret s \<le> 0 then Some (-1, None, close_fd k wr (close_fd k rd h))
        else let (r, h) = ask k (Read_pipe rd 32) h in do {
          buf \<leftarrow> (if ret r > 0 then mem_write (replicate 32 0) 0 (got r) else Some (replicate 32 0));
          t \<leftarrow> c_str buf;
          if length t + 1 > room then None
          else Some (0, Some t, close_fd k wr (close_fd k rd h))
        })"

definition create_socket_connect_domain :: "kernel \<Rightarrow> int \<Rightarrow> bytes \<Rightarrow> int \<Rightarrow> int \<Rightarrow> history \<Rightarrow> (int \<times> int \<times> history) option" where
  "create_socket_connect_domain k sockfd domain port timeout h =
     (let (s, h) = stream_socket k sockfd h in
      if s < 0 then Some (HB_FAILURE, s, h)
      else do {
        (d, ip, h) \<leftarrow> from_domain_to_ip k domain 16 timeout h;
        if d < 0 then Some (HB_FAILURE, s, h)
        else do {
          (r, h) \<leftarrow> pt_connect k s ip port timeout h;
          Some (if r < 0 then HB_FAILURE else HB_SUCCESS, s, h)
        }
      })"

section \<open>Buffer sizes\<close>

definition get_buffer_size :: "kernel \<Rightarrow> int \<Rightarrow> int \<Rightarrow> history \<Rightarrow> u32 \<times> history" where
  "get_buffer_size k buf_opt_name socket h =
     (let (g, h) = ask k (Get_option socket buf_opt_name) h in (if ret g < 0 then 0 else word_of_int (num g), h))"

definition increase_round :: "kernel \<Rightarrow> int \<Rightarrow> int \<Rightarrow> u32 \<Rightarrow> u32 \<times> history \<Rightarrow> (history + u32 \<times> history) option" where
  "increase_round k buf_opt_name socket cur_size = (\<lambda>(requested_size, h).
     if requested_size > cur_size then
       let (s, h) = ask k (Set_option socket buf_opt_name (uint requested_size)) h in
         Some (if ret s < 0 then Inr ((requested_size + cur_size) div 2, h) else Inl h)
     else Some (Inl h))"

definition increase_buffer_to :: "kernel \<Rightarrow> int \<Rightarrow> int \<Rightarrow> u32 \<Rightarrow> history \<Rightarrow> (u32 \<times> history) option" where
  "increase_buffer_to k buf_opt_name socket requested_size h =
     (let (cur_size, h) = get_buffer_size k buf_opt_name socket h in
      map_option (get_buffer_size k buf_opt_name socket) (rounds (increase_round k buf_opt_name socket cur_size) (requested_size, h)))"

definition increase_send_buffer_to :: "kernel \<Rightarrow> int \<Rightarrow> u32 \<Rightarrow> history \<Rightarrow> (u32 \<times> history) option" where
  "increase_send_buffer_to k = increase_buffer_to k SO_SNDBUF"

definition increase_receive_buffer_to :: "kernel \<Rightarrow> int \<Rightarrow> u32 \<Rightarrow> history \<Rightarrow> (u32 \<times> history) option" where
  "increase_receive_buffer_to k = increase_buffer_to k SO_RCVBUF"

section \<open>The host's addresses\<close>

definition get_dev_ip :: "kernel \<Rightarrow> bytes \<Rightarrow> history \<Rightarrow> int \<times> bytes option \<times> history" where
  "get_dev_ip k eth h =
     (let (s, h) = ask k (Socket AF_INET SOCK_DGRAM) h in
      if ret s < 0 then (-1, None, h)
      else let (r, h) = ask k (If_addr (ret s) (strncpy 16 eth)) h in
        if ret r < 0 then (-1, None, close_fd k (ret s) h)
        else (0, Some (inet_ntoa (word_of_int (num r))), close_fd k (ret s) h))"

definition get_dev_mac :: "kernel \<Rightarrow> bytes \<Rightarrow> history \<Rightarrow> int \<times> bytes option \<times> history" where
  "get_dev_mac k eth h =
     (let (s, h) = ask k (Socket AF_INET SOCK_STREAM) h in
      if ret s = -1 then (-1, None, h)
      else let (r, h) = ask k (If_hwaddr (ret s) (strncpy 15 eth @ [0])) h; h = close_fd k (ret s) h in
        if ret r < 0 then (-1, None, h)
        else (0, Some (take 6 (got r @ replicate 6 0)), h))"

definition BUFSIZ :: int where "BUFSIZ = 8192"
definition IFF_UP :: int where "IFF_UP = 1"
definition IFF_LOOPBACK :: int where "IFF_LOOPBACK = 8"

text \<open>
  The interfaces from the \<open>i\<close>-th on. The flags share their memory with the address family, which is left there when they cannot be read.
\<close>

fun if_loop :: "kernel \<Rightarrow> int \<Rightarrow> nat \<Rightarrow> u32 list \<Rightarrow> history \<Rightarrow> bytes option \<times> history" where
  "if_loop k fd i [] h = (None, h)"
| "if_loop k fd i (a # as) h =
     (let (f, h) = ask k (If_flags fd i) h; flags = (if ret f < 0 then AF_INET else num f) in
      if flags AND IFF_LOOPBACK = 0 \<and> flags AND IFF_UP \<noteq> 0 then (Some (inet_ntoa a), close_fd k fd h)
      else if_loop k fd (i + 1) as h)"

text \<open>\<open>ifc_len\<close> is in bytes, 40 for each interface. When \<open>SIOCGIFCONF\<close> fails, which is not tested, the loop reads what the stack held.\<close>

definition get_host_ip :: "kernel \<Rightarrow> history \<Rightarrow> (bytes option \<times> history) option" where
  "get_host_ip k h =
     (let (s, h) = ask k (Socket AF_INET SOCK_DGRAM) h in
      if ret s < 0 then Some (None, h)
      else let (c, h) = ask k (If_list (ret s) BUFSIZ) h in
        if ret c < 0 \<or> num c < 0 \<or> num c div 40 > int (length (addrs c)) then None
        else Some (if_loop k (ret s) 0 (take (nat (num c div 40)) (addrs c)) h))"

section \<open>UDP ports\<close>

definition DEFAULT_UDP_SERVER_PORT :: int where "DEFAULT_UDP_SERVER_PORT = 60000"
definition MAX_UDP_SERVER_PORT :: int where "MAX_UDP_SERVER_PORT = 65535"

text \<open>The argument and the second result are \<open>g_port_count\<close>.\<close>

definition get_udp_server_port :: "int \<Rightarrow> int \<times> int" where
  "get_udp_server_port g_port_count =
     (let port = DEFAULT_UDP_SERVER_PORT + g_port_count
      in (port, (if port \<ge> MAX_UDP_SERVER_PORT then 0 else g_port_count) + 2))"

section \<open>random_number\<close>

definition random_number :: "kernel \<Rightarrow> int \<Rightarrow> int \<Rightarrow> history \<Rightarrow> (int \<times> history) option" where
  "random_number k iStartNum iEndNum h =
     (let (t, h) = ask k Time h;
          (_, h) = ask k (Srand (word_of_int (ret t))) h;
          (r, h) = ask k Rand h;
          d = iEndNum - iStartNum;
          x = sgn (ret r) * (\<bar>ret r\<bar> mod \<bar>d\<bar>) + iStartNum
      in if d = 0 \<or> d < - (2 ^ 31) \<or> d \<ge> 2 ^ 31 \<or> x < - (2 ^ 31) \<or> x \<ge> 2 ^ 31 then None else Some (x, h))"

end
