(* ===== verification/NetSockSpec.thy ===== *)
theory NetSockSpec
  imports NetSock
begin

unbundle bit_operations_syntax

text \<open>
  What the socket functions of \<open>NetSock\<close> do with descriptors, when they say that a connection is there, and that the loop that enlarges a buffer ends.
\<close>

section \<open>Descriptors\<close>

lemma open_fds_append [simp]: "open_fds (h @ h') = fds_after (open_fds h) h'"
  by (simp add: open_fds_def)

text \<open>One call that opens and closes nothing.\<close>

fun neutral :: "call \<Rightarrow> bool" where
  "neutral (Socket d t) = False" | "neutral (Accept fd) = False" | "neutral (Epoll_create n) = False" | "neutral Pipe = False" | "neutral (Close fd) = False"
| "neutral c = True"

lemma neutral_open: "neutral c \<Longrightarrow> open_fds (h @ [(c, a)]) = open_fds h"
  by (cases c) auto

lemma ask_neutral: "neutral c \<Longrightarrow> open_fds (snd (ask k c h)) = open_fds h"
  by (simp only: ask_def snd_conv neutral_open)

lemma ask_close: "open_fds (close_fd k fd h) = open_fds h - {fd}"
  by (simp add: close_fd_def ask_def)

lemma ask_socket:
  assumes "kernel_ok k"
  shows "open_fds (snd (ask k (Socket d t) h)) = (if ret (fst (ask k (Socket d t) h)) \<ge> 0 then insert (ret (fst (ask k (Socket d t) h))) (open_fds h) else open_fds h)"
    and "ret (fst (ask k (Socket d t) h)) \<ge> 0 \<Longrightarrow> ret (fst (ask k (Socket d t) h)) \<notin> open_fds h"
proof -
  have "answer_ok h (Socket d t) (k h (Socket d t))" using assms by (simp add: kernel_ok_def)
  then show "ret (fst (ask k (Socket d t) h)) \<ge> 0 \<Longrightarrow> ret (fst (ask k (Socket d t) h)) \<notin> open_fds h" by (simp add: ask_def)
qed (simp add: ask_def)

lemma ask_epoll:
  assumes "kernel_ok k"
  shows "open_fds (snd (ask k (Epoll_create n) h)) =
      (if ret (fst (ask k (Epoll_create n) h)) \<ge> 0 then insert (ret (fst (ask k (Epoll_create n) h))) (open_fds h) else open_fds h)"
    and "ret (fst (ask k (Epoll_create n) h)) \<ge> 0 \<Longrightarrow> ret (fst (ask k (Epoll_create n) h)) \<notin> open_fds h"
proof -
  have "answer_ok h (Epoll_create n) (k h (Epoll_create n))" using assms by (simp add: kernel_ok_def)
  then show "ret (fst (ask k (Epoll_create n) h)) \<ge> 0 \<Longrightarrow> ret (fst (ask k (Epoll_create n) h)) \<notin> open_fds h" by (simp add: ask_def)
qed (simp add: ask_def)

lemma ask_pair: "ask k c h = (fst (ask k c h), snd (ask k c h))"
  by simp

lemma non_blocking_open: "open_fds (snd (make_socket_non_blocking k s h)) = open_fds h"
  by (simp add: make_socket_non_blocking_def ask_def)

text \<open>What a function that makes a socket does: a new descriptor is open, or none.\<close>

definition makes_socket :: "history \<Rightarrow> int \<times> history \<Rightarrow> bool" where
  "makes_socket h = (\<lambda>(r, h'). if r < 0 then open_fds h' = open_fds h else r \<notin> open_fds h \<and> open_fds h' = insert r (open_fds h))"

lemma bound_socket_makes:
  assumes "kernel_ok k"
  shows "makes_socket h (bound_socket k type port nb h)"
proof -
  define s where "s = k h (Socket AF_INET type)"
  define h1 where "h1 = h @ [(Socket AF_INET type, s)]"
  have new: "0 \<le> ret s \<Longrightarrow> ret s \<notin> open_fds h" using ask_socket(2) [OF assms, of AF_INET type h] by (simp add: ask_def s_def)
  have o1: "open_fds h1 = (if 0 \<le> ret s then insert (ret s) (open_fds h) else open_fds h)" by (simp add: h1_def)
  show ?thesis
  proof (cases "ret s < 0")
    case True
    then show ?thesis using o1 by (simp add: bound_socket_def ask_def makes_socket_def HB_FAILURE_def s_def h1_def)
  next
    case False
    have ask1: "ask k (Socket AF_INET type) h = (s, h1)" by (simp add: ask_def s_def h1_def)
    obtain o2 h2 where 2: "ask k (Set_option (ret s) SO_REUSEADDR 1) h1 = (o2, h2)" by fastforce
    obtain b h3 where 3: "ask k (Bind (ret s) port) h2 = (b, h3)" by fastforce
    obtain m h4 where 4: "make_socket_non_blocking k (ret s) h3 = (m, h4)" by fastforce
    have f: "open_fds h2 = open_fds h1" "open_fds h3 = open_fds h2" "open_fds h4 = open_fds h3"
      using ask_neutral [of "Set_option (ret s) SO_REUSEADDR 1" k h1] ask_neutral [of "Bind (ret s) port" k h2]
        non_blocking_open [of k "ret s" h3] 2 3 4 by simp_all
    have "insert (ret s) (open_fds h) - {ret s} = open_fds h" using new False by auto
    then show ?thesis
      using False new f o1 by (simp add: bound_socket_def ask1 2 3 4 makes_socket_def HB_FAILURE_def ask_close)
  qed
qed

lemma check_port_open:
  assumes "kernel_ok k" "-1 \<notin> open_fds h \<and> (\<forall>fd \<in> open_fds h. 0 \<le> fd)"
  shows "open_fds (snd (check_port k port h)) = open_fds h"
proof -
  define s where "s = k h (Socket AF_INET SOCK_STREAM)"
  have new: "0 \<le> ret s \<Longrightarrow> ret s \<notin> open_fds h" using ask_socket(2) [OF assms(1), of AF_INET SOCK_STREAM h] by (simp add: ask_def s_def)
  have "ret s \<notin> open_fds h" using new assms(2) by force
  then show ?thesis
    by (auto simp: check_port_def ask_def close_fd_def Let_def s_def [symmetric])
qed

lemma dev_ip_open:
  assumes "kernel_ok k"
  shows "open_fds (snd (snd (get_dev_ip k eth h))) = open_fds h"
proof -
  define s where "s = k h (Socket AF_INET SOCK_DGRAM)"
  have new: "0 \<le> ret s \<Longrightarrow> ret s \<notin> open_fds h" using ask_socket(2) [OF assms(1), of AF_INET SOCK_DGRAM h] by (simp add: ask_def s_def)
  then show ?thesis by (auto simp: get_dev_ip_def ask_def close_fd_def Let_def s_def [symmetric])
qed

lemma if_loop_open: "open_fds (snd (if_loop k fd i as h)) = (if fst (if_loop k fd i as h) = None then open_fds h else open_fds h - {fd})"
  by (induction k fd i as h rule: if_loop.induct) (simp add: Let_def ask_def close_fd_def)+

lemma host_ip_open:
  assumes "kernel_ok k" "get_host_ip k h = Some (r, h')"
  shows "if r = None then open_fds h' = open_fds h \<or> (\<exists>fd. fd \<notin> open_fds h \<and> open_fds h' = insert fd (open_fds h)) else open_fds h' = open_fds h"
proof -
  define s where "s = k h (Socket AF_INET SOCK_DGRAM)"
  have new: "0 \<le> ret s \<Longrightarrow> ret s \<notin> open_fds h" using ask_socket(2) [OF assms(1), of AF_INET SOCK_DGRAM h] by (simp add: ask_def s_def)
  define h1 where "h1 = h @ [(Socket AF_INET SOCK_DGRAM, s)]"
  define c where "c = k h1 (If_list (ret s) BUFSIZ)"
  define h2 where "h2 = h1 @ [(If_list (ret s) BUFSIZ, c)]"
  show ?thesis
  proof (cases "ret s < 0")
    case True
    then show ?thesis using assms(2) by (auto simp: get_host_ip_def ask_def s_def)
  next
    case False
    then have o2: "open_fds h2 = insert (ret s) (open_fds h)" by (simp add: h2_def h1_def)
    have "\<exists>as. if_loop k (ret s) 0 as h2 = (r, h')"
      using assms(2) False by (auto simp: get_host_ip_def ask_def s_def h1_def h2_def c_def Let_def split: if_splits)
    then obtain as where l: "if_loop k (ret s) 0 as h2 = (r, h')" by blast
    have "open_fds h' = (if r = None then open_fds h2 else open_fds h2 - {ret s})" using if_loop_open [of k "ret s" 0 as h2] l by simp
    then show ?thesis using o2 new False by auto
  qed
qed

section \<open>Connecting\<close>

text \<open>The calls of \<open>connect_noblock\<close>, and what they are worth.\<close>

definition gives_answer :: "history \<Rightarrow> call \<Rightarrow> (answer \<Rightarrow> bool) \<Rightarrow> bool" where
  "gives_answer new c P \<longleftrightarrow> (\<exists>a. (c, a) \<in> set new \<and> P a)"

text \<open>
  The connection is there: at once, or after the socket had no pending error; or an event came that is neither readable nor writable.
\<close>

definition connection_seen :: "history \<Rightarrow> int \<Rightarrow> u32 \<Rightarrow> u16 \<Rightarrow> bool" where
  "connection_seen new fd addr port \<longleftrightarrow>
     gives_answer new (Connect fd addr port) (\<lambda>c. ret c \<ge> 0) \<or>
     gives_answer new (Connect fd addr port) (\<lambda>c. errno c = EINPROGRESS) \<and>
       (gives_answer new (Get_option fd SO_ERROR) (\<lambda>g. ret g \<ge> 0 \<and> num g = 0) \<or>
        (\<exists>e ms. gives_answer new (Epoll_wait e 1 ms) (\<lambda>w. ret w > 0 \<and> fst (hd (evs w)) AND EPOLLOUT = 0 \<and> fst (hd (evs w)) AND EPOLLIN = 0)))"

lemma gives_answer_more: "gives_answer new c P \<Longrightarrow> set new \<subseteq> set new' \<Longrightarrow> gives_answer new' c P"
  by (auto simp: gives_answer_def)

lemma connection_seen_more: "connection_seen new fd a p \<Longrightarrow> set new \<subseteq> set new' \<Longrightarrow> connection_seen new' fd a p"
  unfolding connection_seen_def by (meson gives_answer_more)

lemma connect_done_cases:
  "connect_done k e fd err h = (if err \<noteq> 0 then (-1, h)
     else (0, h @ [(Epoll_ctl e EPOLL_CTL_DEL fd 0, k h (Epoll_ctl e EPOLL_CTL_DEL fd 0))] @
        [(Close e, k (h @ [(Epoll_ctl e EPOLL_CTL_DEL fd 0, k h (Epoll_ctl e EPOLL_CTL_DEL fd 0))]) (Close e))]))"
  by (simp add: connect_done_def ask_def close_fd_def HB_SUCCESS_def)

text \<open>The first four calls, and the two ends of the function behind them.\<close>

definition connect_start :: "kernel \<Rightarrow> int \<Rightarrow> u32 \<Rightarrow> u16 \<Rightarrow> history \<Rightarrow> answer \<times> answer \<times> history" where
  "connect_start k fd addr port h =
     (let (e, h) = ask k (Epoll_create 1) h;
          (f, h) = ask k (Get_flags fd) h;
          (_, h) = ask k (Set_flags fd (ret f OR O_NONBLOCK)) h;
          (c, h) = ask k (Connect fd addr port) h
      in (e, c, h))"

definition connect_wait :: "kernel \<Rightarrow> int \<Rightarrow> int \<Rightarrow> int \<Rightarrow> history \<Rightarrow> (int \<times> history) option" where
  "connect_wait k epfd fd nsec h = do {
     let (a, h) = ask k (Epoll_ctl epfd EPOLL_CTL_ADD fd (EPOLLIN OR EPOLLOUT OR EPOLLONESHOT)) h;
     if ret a \<noteq> 0 then Some (-1, close_fd k epfd h)
     else do {
       ms \<leftarrow> millis nsec;
       let (w, h) = ask k (Epoll_wait epfd 1 ms) h;
       if ret w \<le> 0 then Some (-1, close_fd k epfd h)
       else case evs w of [] \<Rightarrow> None
         | (ev, _) # _ \<Rightarrow>
             if ev AND EPOLLOUT \<noteq> 0 \<or> ev AND EPOLLIN \<noteq> 0 then
               let (g, h) = ask k (Get_option fd SO_ERROR) h in
                 if ret g < 0 then
                   let (_, h) = ask k (Epoll_ctl epfd EPOLL_CTL_DEL fd 0) h in Some (-1, close_fd k epfd h)
                 else Some (connect_done k epfd fd (num g) h)
             else Some (connect_done k epfd fd 0 h)
     }
   }"

lemma connect_noblock_parts:
  "connect_noblock k fd addr port nsec h =
     (if ret (k h (Epoll_create 1)) \<le> 0 then Some (-1, h @ [(Epoll_create 1, k h (Epoll_create 1))])
      else case connect_start k fd addr port h of (e, c, h1) \<Rightarrow>
        if ret c < 0 \<and> errno c \<noteq> EINPROGRESS then Some (-1, close_fd k (ret e) h1)
        else if ret c = 0 then Some (connect_done k (ret e) fd 0 h1)
        else connect_wait k (ret e) fd nsec h1)"
  unfolding connect_noblock_def connect_start_def connect_wait_def ask_def HB_FAILURE_def Let_def split prod.case by (rule refl)

text \<open>What waiting adds to the history: everything is given back, except when the socket has an error of its own.\<close>

lemma connect_wait_result:
  assumes "connect_wait k e fd nsec h = Some (r, h')"
  shows "\<exists>new. h' = h @ new \<and> r \<in> {0, -1} \<and> (open_fds h' = open_fds h - {e} \<or> r = -1 \<and> open_fds h' = open_fds h) \<and>
    (r = 0 \<longrightarrow> gives_answer new (Get_option fd SO_ERROR) (\<lambda>g. ret g \<ge> 0 \<and> num g = 0) \<or>
        (\<exists>e ms. gives_answer new (Epoll_wait e 1 ms) (\<lambda>w. ret w > 0 \<and> fst (hd (evs w)) AND EPOLLOUT = 0 \<and> fst (hd (evs w)) AND EPOLLIN = 0)))"
  using assms
  by (auto simp: connect_wait_def ask_def close_fd_def connect_done_cases Let_def gives_answer_def
      split: if_splits bind_splits list.splits prod.splits)

definition keeps_or_leaks :: "history \<Rightarrow> int \<Rightarrow> history \<Rightarrow> bool" where
  "keeps_or_leaks h r h' \<longleftrightarrow> open_fds h' = open_fds h \<or> r < 0 \<and> (\<exists>e. e \<notin> open_fds h \<and> open_fds h' = insert e (open_fds h))"

lemma connect_start_calls:
  "connect_start k fd addr port h = (e, c, h1) \<Longrightarrow> \<exists>new. h1 = h @ new \<and> (Connect fd addr port, c) \<in> set new \<and>
    e = k h (Epoll_create 1) \<and> open_fds h1 = (if 0 \<le> ret e then insert (ret e) (open_fds h) else open_fds h)"
  by (auto simp: connect_start_def ask_def Let_def)

lemma connect_noblock_result:
  assumes "kernel_ok k" "connect_noblock k fd addr port nsec h = Some (r, h')"
  shows "\<exists>new. h' = h @ new \<and> r \<in> {0, -1} \<and> keeps_or_leaks h r h' \<and> (r = 0 \<longrightarrow> connection_seen new fd addr port)"
proof (cases "ret (k h (Epoll_create 1)) \<le> 0")
  case True
  have "ret (k h (Epoll_create 1)) = 0 \<Longrightarrow> 0 \<notin> open_fds h" using ask_epoll(2) [OF assms(1), of 1 h] by (simp add: ask_def)
  then show ?thesis using assms(2) True by (auto simp: connect_noblock_parts keeps_or_leaks_def)
next
  case False
  obtain e c h1 where s: "connect_start k fd addr port h = (e, c, h1)" by (metis prod_cases3)
  obtain new where n: "h1 = h @ new" "(Connect fd addr port, c) \<in> set new" "e = k h (Epoll_create 1)" "open_fds h1 = insert (ret e) (open_fds h)"
    using connect_start_calls [OF s] False by auto
  have fresh: "ret e \<notin> open_fds h" using ask_epoll(2) [OF assms(1), of 1 h] False by (simp add: ask_def n(3))
  have res: "(if ret c < 0 \<and> errno c \<noteq> EINPROGRESS then Some (-1, close_fd k (ret e) h1)
        else if ret c = 0 then Some (connect_done k (ret e) fd 0 h1) else connect_wait k (ret e) fd nsec h1) = Some (r, h')"
    using assms(2) False s by (simp add: connect_noblock_parts)
  consider "r = -1" "h' = close_fd k (ret e) h1" | "ret c = 0" "(r, h') = connect_done k (ret e) fd 0 h1"
    | "ret c > 0 \<or> errno c = EINPROGRESS" "connect_wait k (ret e) fd nsec h1 = Some (r, h')"
    using res by (fastforce split: if_splits)
  then show ?thesis
  proof cases
    case 1
    have "open_fds h' = open_fds h" using 1(2) n(4) fresh by (simp add: ask_close)
    then show ?thesis using 1 n(1) by (auto simp: close_fd_def ask_def keeps_or_leaks_def)
  next
    case 2
    have r: "r = 0" "h' = h1 @ [(Epoll_ctl (ret e) EPOLL_CTL_DEL fd 0, k h1 (Epoll_ctl (ret e) EPOLL_CTL_DEL fd 0)),
        (Close (ret e), k (h1 @ [(Epoll_ctl (ret e) EPOLL_CTL_DEL fd 0, k h1 (Epoll_ctl (ret e) EPOLL_CTL_DEL fd 0))]) (Close (ret e)))]"
      using 2(2) by (simp_all add: connect_done_cases)
    have "open_fds h' = open_fds h1 - {ret e}" unfolding r(2) open_fds_append [of h1] by simp
    then have "open_fds h' = open_fds h" using n(4) fresh by simp
    moreover have "connection_seen (new @ x) fd addr port" for x
      using n(2) 2(1) by (auto simp: connection_seen_def gives_answer_def)
    ultimately show ?thesis using r n(1) by (auto simp: keeps_or_leaks_def)
  next
    case 3
    obtain new' where w: "h' = h1 @ new'" "r \<in> {0, -1}" "open_fds h' = open_fds h1 - {ret e} \<or> r = -1 \<and> open_fds h' = open_fds h1"
      "r = 0 \<longrightarrow> gives_answer new' (Get_option fd SO_ERROR) (\<lambda>g. ret g \<ge> 0 \<and> num g = 0) \<or>
        (\<exists>e ms. gives_answer new' (Epoll_wait e 1 ms) (\<lambda>w. ret w > 0 \<and> fst (hd (evs w)) AND EPOLLOUT = 0 \<and> fst (hd (evs w)) AND EPOLLIN = 0))"
      using connect_wait_result [OF 3(2)] by (elim exE conjE) (rule that)
    have more: "gives_answer new' c' P \<Longrightarrow> gives_answer (new @ new') c' P" for c' P by (auto simp: gives_answer_def)
    have c: "gives_answer (new @ new') (Connect fd addr port) (\<lambda>c. ret c \<ge> 0) \<or> gives_answer (new @ new') (Connect fd addr port) (\<lambda>c. errno c = EINPROGRESS)"
      using n(2) 3(1) by (auto simp: gives_answer_def)
    have "connection_seen (new @ new') fd addr port" if "r = 0"
      unfolding connection_seen_def using c w(4) more that by blast
    moreover have "keeps_or_leaks h r h'" using w(3) n(4) fresh by (auto simp: keeps_or_leaks_def)
    ultimately show ?thesis using w(1,2) n(1) by auto
  qed
qed

lemma pt_connect_result:
  assumes "kernel_ok k" "pt_connect k fd (Some ip) port t h = Some (r, h')"
  shows "\<exists>new. h' = h @ new \<and> r \<in> {0, 1, -1} \<and> keeps_or_leaks h r h' \<and> (r = 0 \<longleftrightarrow> fd \<le> 0 \<or> port \<le> 0) \<and>
    (0 < r \<longrightarrow> connection_seen new fd (inet_addr ip) (word_of_int port))"
proof (cases "fd \<le> 0 \<or> port \<le> 0")
  case True
  then show ?thesis using assms(2) by (auto simp: pt_connect_def keeps_or_leaks_def)
next
  case False
  define x where "x = (Set_option fd SO_REUSEADDR 1, k h (Set_option fd SO_REUSEADDR 1))"
  obtain c where c: "connect_noblock k fd (inet_addr ip) (word_of_int port) t (h @ [x]) = Some (c, h')" "r = (if c < 0 then -1 else 1)"
    using assms(2) False by (auto simp: pt_connect_def ask_def x_def bind_eq_Some_conv)
  have x: "open_fds (h @ [x]) = open_fds h" by (simp add: x_def)
  obtain new where n: "h' = (h @ [x]) @ new" "c \<in> {0, -1}" "keeps_or_leaks (h @ [x]) c h'" "c = 0 \<longrightarrow> connection_seen new fd (inet_addr ip) (word_of_int port)"
    using connect_noblock_result [OF assms(1) c(1)] by auto
  have "keeps_or_leaks h r h'" using n(2,3) c(2) unfolding keeps_or_leaks_def x by auto
  moreover have "connection_seen (x # new) fd a p" if "connection_seen new fd a p" for a p
    using that by (rule connection_seen_more) auto
  ultimately show ?thesis using n(1,2,4) c(2) False by (intro exI [of _ "x # new"]) auto
qed

lemma domain_open:
  assumes "kernel_ok k" "from_domain_to_ip k name room t h = Some (r, ip, h')"
  shows "open_fds h' = (if ret (k h Pipe) = 0 then open_fds h else open_fds h - {0})"
proof -
  have "answer_ok h Pipe (k h Pipe)" using assms(1) by (simp add: kernel_ok_def)
  then have "ret (k h Pipe) = 0 \<Longrightarrow> fst (ends (k h Pipe)) \<notin> open_fds h \<and> snd (ends (k h Pipe)) \<notin> open_fds h" by simp
  then show ?thesis using assms(2)
    by (auto simp: from_domain_to_ip_def ask_def close_fd_def Let_def split: if_splits bind_splits prod.splits)
qed

lemma dev_mac_open:
  assumes "kernel_ok k" "\<forall>fd \<in> open_fds h. 0 \<le> fd"
  shows "open_fds (snd (snd (get_dev_mac k eth h))) = open_fds h"
proof -
  define s where "s = k h (Socket AF_INET SOCK_STREAM)"
  have "0 \<le> ret s \<Longrightarrow> ret s \<notin> open_fds h" using ask_socket(2) [OF assms(1), of AF_INET SOCK_STREAM h] by (simp add: ask_def s_def)
  then have "ret s \<notin> open_fds h" using assms(2) by force
  then show ?thesis by (auto simp: get_dev_mac_def ask_def close_fd_def Let_def s_def [symmetric])
qed

lemma stream_socket_calls: "\<exists>new. snd (stream_socket k sockfd h) = h @ new"
  by (auto simp: stream_socket_def ask_def)

text \<open>Printed addresses are short.\<close>

lemma print_nat_three: "n < 1000 \<Longrightarrow> length (print_nat n) \<le> 3"
proof -
  assume "n < 1000"
  then have "n < 10 \<or> n div 10 < 10 \<or> n div 10 div 10 < 10" by linarith
  then show ?thesis by (auto simp: print_nat.simps [of n] print_nat.simps [of "n div 10"] print_nat.simps [of "n div 10 div 10"])
qed

lemma inet_ntoa_length: "length (inet_ntoa a) \<le> 15"
proof -
  have "unat a < 4294967296" using unsigned_less [of a] by simp
  then have "unat a div 16777216 < 1000" by (simp add: less_mult_imp_div_less)
  then show ?thesis
    using print_nat_three [of "unat a div 16777216"] print_nat_three [of "unat a div 65536 mod 256"]
      print_nat_three [of "unat a div 256 mod 256"] print_nat_three [of "unat a mod 256"]
      mod_less_divisor [of 256 "unat a div 65536"] mod_less_divisor [of 256 "unat a div 256"] mod_less_divisor [of 256 "unat a"]
    unfolding inet_ntoa_def length_append list.size by linarith
qed

lemma inet_ntoa_text: "0 \<notin> set (inet_ntoa a)"
  using print_nat_digits [of "unat a div 16777216"] print_nat_digits [of "unat a div 65536 mod 256"]
    print_nat_digits [of "unat a div 256 mod 256"] print_nat_digits [of "unat a mod 256"]
  by (auto simp: inet_ntoa_def is_digit_def)

lemma c_str_padded: "0 \<notin> set s \<Longrightarrow> 0 < n \<Longrightarrow> c_str (s @ replicate n 0) = Some s"
  by (cases n) (auto simp: c_str_def takeWhile_append)

lemma domain_text:
  assumes "\<forall>h fd. ret (k h (Read_pipe fd 32)) = int (length (inet_ntoa a)) \<and> got (k h (Read_pipe fd 32)) = inet_ntoa a"
    and "from_domain_to_ip k name 16 t h = Some (r, ip, h')" "0 \<le> r"
  shows "ip = Some (inet_ntoa a)"
proof -
  have l: "0 < length (inet_ntoa a)" "length (inet_ntoa a) \<le> 15" using inet_ntoa_length by (simp_all add: inet_ntoa_def)
  have "mem_write (replicate 32 0) 0 (inet_ntoa a) = Some (inet_ntoa a @ replicate (32 - length (inet_ntoa a)) 0)"
    using l by (simp add: mem_write_def)
  moreover have "c_str (inet_ntoa a @ replicate (32 - length (inet_ntoa a)) 0) = Some (inet_ntoa a)"
    using c_str_padded [OF inet_ntoa_text, of "32 - length (inet_ntoa a)"] l(2) by simp
  ultimately show ?thesis using assms l
    by (auto simp: from_domain_to_ip_def ask_def Let_def split: if_splits bind_splits prod.splits)
qed

lemma inet_addr_ntoa: "inet_addr (inet_ntoa a) = a"
  by (simp add: inet_addr_def inet_aton_ntoa)

lemma domain_calls: "from_domain_to_ip k name room t h = Some (r, ip, h') \<Longrightarrow> \<exists>new. h' = h @ new"
  by (auto simp: from_domain_to_ip_def ask_def close_fd_def Let_def split: if_splits bind_splits prod.splits)

lemma ipaddr_reported:
  assumes "kernel_ok k" "create_socket_connect_ipaddr k sockfd (Some ip) port t h = Some (0, s, h')"
  shows "s = 0 \<or> port \<le> 0 \<or> connection_seen (drop (length h) h') s (inet_addr ip) (word_of_int port)"
proof -
  obtain s' h1 where s: "stream_socket k sockfd h = (s', h1)" by fastforce
  obtain new1 where n1: "h1 = h @ new1" using stream_socket_calls [of k sockfd h] s by auto
  obtain r where r: "0 \<le> s'" "s = s'" "pt_connect k s' (Some ip) port t h1 = Some (r, h')" "0 \<le> r"
    using assms(2) s by (auto simp: create_socket_connect_ipaddr_def bind_eq_Some_conv HB_FAILURE_def HB_SUCCESS_def split: if_splits)
  obtain new2 where n2: "h' = h1 @ new2" "r \<in> {0, 1, -1}" "r = 0 \<longleftrightarrow> s' \<le> 0 \<or> port \<le> 0"
    "0 < r \<longrightarrow> connection_seen new2 s' (inet_addr ip) (word_of_int port)"
    using pt_connect_result [OF assms(1) r(3)] by blast
  have "drop (length h) h' = new1 @ new2" using n1 n2(1) by simp
  then show ?thesis using n2(2-4) r(1,2,4) connection_seen_more [of new2 s' "inet_addr ip" "word_of_int port" "new1 @ new2"] by auto
qed

lemma domain_reported:
  assumes "kernel_ok k" "create_socket_connect_domain k sockfd name port t h = Some (0, s, h')"
    and "\<forall>h fd. ret (k h (Read_pipe fd 32)) = int (length (inet_ntoa a)) \<and> got (k h (Read_pipe fd 32)) = inet_ntoa a"
  shows "s = 0 \<or> port \<le> 0 \<or> connection_seen (drop (length h) h') s a (word_of_int port)"
proof -
  obtain s' h1 where s: "stream_socket k sockfd h = (s', h1)" by fastforce
  obtain new1 where n1: "h1 = h @ new1" using stream_socket_calls [of k sockfd h] s by auto
  obtain d ip h2 r where r: "0 \<le> s'" "s = s'" "from_domain_to_ip k name 16 t h1 = Some (d, ip, h2)" "0 \<le> d"
      "pt_connect k s' ip port t h2 = Some (r, h')" "0 \<le> r"
    using assms(2) s by (auto simp: create_socket_connect_domain_def bind_eq_Some_conv HB_FAILURE_def HB_SUCCESS_def split: if_splits)
  have ip: "ip = Some (inet_ntoa a)" using domain_text [OF assms(3) r(3,4)] .
  obtain new3 where n3: "h2 = h1 @ new3" using domain_calls [OF r(3)] by blast
  obtain new2 where n2: "h' = h2 @ new2" "r \<in> {0, 1, -1}" "r = 0 \<longleftrightarrow> s' \<le> 0 \<or> port \<le> 0"
    "0 < r \<longrightarrow> connection_seen new2 s' a (word_of_int port)"
    using pt_connect_result [OF assms(1) r(5) [unfolded ip]] unfolding inet_addr_ntoa by blast
  have "drop (length h) h' = new1 @ new3 @ new2" using n1 n2(1) n3 by simp
  then show ?thesis using n2(2-4) r(1,2,6) connection_seen_more [of new2 s' a "word_of_int port" "new1 @ new3 @ new2"] by auto
qed

text \<open>
  C13. Success of a connection attempt means a connection. Whatever the kernel answers, when \<open>create_socket_connect_ipaddr\<close> or
  \<open>create_socket_connect_domain\<close> reports success, the connection to that address and port was completed: at once, or in time with no
  pending error on the socket. For the second one the address is that which the resolver's thread printed into the pipe, read back from
  its text. The exceptions are a socket with number 0, a port that is not positive, and an event that says neither readable nor
  writable: these are reported as success without a connection.
\<close>

theorem connection_reported:
  assumes "kernel_ok k"
    and "\<forall>h fd. ret (k h (Read_pipe fd 32)) = int (length (inet_ntoa a)) \<and> got (k h (Read_pipe fd 32)) = inet_ntoa a"
  shows "(\<forall>ip s h'. create_socket_connect_ipaddr k sockfd (Some ip) port t h = Some (0, s, h') \<longrightarrow>
       s = 0 \<or> port \<le> 0 \<or> connection_seen (drop (length h) h') s (inet_addr ip) (word_of_int port)) \<and>
     (\<forall>name s h'. create_socket_connect_domain k sockfd name port t h = Some (0, s, h') \<longrightarrow>
       s = 0 \<or> port \<le> 0 \<or> connection_seen (drop (length h) h') s a (word_of_int port))"
  using ipaddr_reported [OF assms(1)] domain_reported [OF assms(1) _ assms(2)] by blast


section \<open>Buffer sizes\<close>

lemma halved:
  fixes v cur :: u32
  assumes "cur < v" "unat v < unat cur + 2 ^ Suc b"
  shows "unat ((v + cur) div 2) < unat cur + 2 ^ b \<and> (v + cur) div 2 < v"
proof -
  have bound: "unat v < 2 ^ 32" "unat cur < 2 ^ 32" using unsigned_less [of v] unsigned_less [of cur] by simp_all
  have "unat (v + cur) = (unat v + unat cur) mod 2 ^ 32" by (simp add: unat_word_ariths)
  then have s: "unat (v + cur) = unat v + unat cur \<or> unat (v + cur) + 2 ^ 32 = unat v + unat cur"
    using bound by (cases "unat v + unat cur < 2 ^ 32") (auto simp: mod_if)
  have d: "unat ((v + cur) div 2) = unat (v + cur) div 2" by (simp add: unat_div)
  have l: "unat cur < unat v" using assms(1) by (simp add: word_less_nat_alt)
  have "unat ((v + cur) div 2) < unat cur + 2 ^ b" unfolding d using s l assms(2) bound by auto
  moreover have "unat ((v + cur) div 2) < unat v" unfolding d using s l bound by auto
  ultimately show ?thesis by (simp add: word_less_nat_alt)
qed

text \<open>
  C27. \<open>increase_buffer_to\<close> ends however the kernel answers, also where the sum of two sizes wraps: the size asked for is halved towards the present one, at
  most 32 times, each request lies above the present size and not above the one given, and the result is what the kernel says in the end.
\<close>

theorem increase_buffer_ends:
  "\<exists>h1 asked. increase_buffer_to k name sock req h = Some (get_buffer_size k name sock h1) \<and>
     h1 = snd (get_buffer_size k name sock h) @ asked \<and> length asked \<le> 32 \<and>
     (\<forall>x \<in> set asked. \<exists>v. fst x = Set_option sock name (uint v) \<and> fst (get_buffer_size k name sock h) < v \<and> v \<le> req)"
proof -
  define cur where "cur = fst (get_buffer_size k name sock h)"
  define h0 where "h0 = snd (get_buffer_size k name sock h)"
  have half: "unat ((v + cur) div 2) < unat cur + 2 ^ b \<and> (v + cur) div 2 < v" if "cur < v" "unat v < unat cur + 2 ^ Suc b" for v :: u32 and b
    by (rule halved [OF that])
  define P where "P = (\<lambda>asked :: history. \<forall>x \<in> set asked. \<exists>v. fst x = Set_option sock name (uint v) \<and> cur < v \<and> v \<le> req)"
  define I where "I = (\<lambda>(v, g). \<exists>b asked. g = h0 @ asked \<and> length asked + b \<le> 32 \<and> v \<le> req \<and> unat v < unat cur + 2 ^ b \<and> P asked)"
  have "\<exists>g. rounds (increase_round k name sock cur) (req, h0) = Some g \<and> (\<exists>asked. g = h0 @ asked \<and> length asked \<le> 32 \<and> P asked)"
  proof (rule rounds_end [where I = I and m = "\<lambda>(v, g). unat v"])
    have "unat req < 2 ^ 32" using unsigned_less [of req] by simp
    then have "\<exists>b. b \<le> 32 \<and> unat req < unat cur + 2 ^ b" by (intro exI [of _ 32]) simp
    then show "I (req, h0)" by (simp add: I_def P_def)
  next
    fix x assume "I x"
    then obtain v g b asked where i: "x = (v, g)" "g = h0 @ asked" "length asked + b \<le> 32" "v \<le> req" "unat v < unat cur + 2 ^ b" "P asked"
      by (cases x) (auto simp: I_def)
    define s where "s = k g (Set_option sock name (uint v))"
    let ?a = "asked @ [(Set_option sock name (uint v), s)]"
    show "(\<exists>r. increase_round k name sock cur x = Some (Inl r) \<and> (\<exists>asked. r = h0 @ asked \<and> length asked \<le> 32 \<and> P asked)) \<or>
      (\<exists>y. increase_round k name sock cur x = Some (Inr y) \<and> I y \<and> (case y of (v, g) \<Rightarrow> unat v) < (case x of (v, g) \<Rightarrow> unat v))"
    proof (cases "cur < v")
      case False
      then show ?thesis using i by (auto simp: increase_round_def)
    next
      case True
      have "b \<noteq> 0" using i(5) True by (cases b) (auto simp: word_less_nat_alt)
      then obtain b' where b: "b = Suc b'" by (cases b) auto
      have p: "P ?a" using i(4,6) True unfolding P_def by auto
      show ?thesis
      proof (cases "ret s < 0")
        case True
        have h: "unat ((v + cur) div 2) < unat cur + 2 ^ b' \<and> (v + cur) div 2 < v" using half [OF \<open>cur < v\<close>] i(5) b by blast
        have "I ((v + cur) div 2, h0 @ ?a)"
          unfolding I_def prod.case using h i(3,4) b p by (intro exI [of _ b'] exI [of _ ?a]) auto
        moreover have "increase_round k name sock cur x = Some (Inr ((v + cur) div 2, h0 @ ?a))"
          using \<open>cur < v\<close> True i(1,2) by (simp add: increase_round_def ask_def s_def)
        ultimately show ?thesis using h i(1) by (auto simp: word_less_nat_alt)
      next
        case False
        then have "increase_round k name sock cur x = Some (Inl (h0 @ ?a))"
          using \<open>cur < v\<close> i(1,2) by (simp add: increase_round_def ask_def s_def)
        then show ?thesis using i(3) b p by (intro disjI1 exI [of _ "h0 @ ?a"] conjI exI [of _ ?a]) auto
      qed
    qed
  qed
  then obtain asked where r: "rounds (increase_round k name sock cur) (req, h0) = Some (h0 @ asked)" "length asked \<le> 32" "P asked" by auto
  have "increase_buffer_to k name sock req h = Some (get_buffer_size k name sock (h0 @ asked))"
    using r(1) by (cases "get_buffer_size k name sock h") (simp add: increase_buffer_to_def cur_def h0_def)
  then show ?thesis using r(2,3) unfolding P_def cur_def h0_def by blast
qed

section \<open>UDP ports\<close>

text \<open>The counter after so many calls.\<close>

fun port_count :: "nat \<Rightarrow> int" where
  "port_count 0 = 0"
| "port_count (Suc n) = snd (get_udp_server_port (port_count n))"

lemma port_count_closed: "port_count (Suc n) = 2 * int (n mod 2768) + 2"
proof (induction n)
  case 0
  show ?case by (simp add: get_udp_server_port_def DEFAULT_UDP_SERVER_PORT_def MAX_UDP_SERVER_PORT_def)
next
  case (Suc n)
  obtain m where m: "n mod 2768 = m" "m < 2768" by simp
  have "port_count (Suc (Suc n)) = (if 2 * int m + 2 \<ge> 5535 then 0 else 2 * int m + 2) + 2"
    unfolding port_count.simps(2) [of "Suc n"] Suc m(1) by (simp add: get_udp_server_port_def DEFAULT_UDP_SERVER_PORT_def MAX_UDP_SERVER_PORT_def Let_def)
  moreover have "Suc n mod 2768 = (if Suc m = 2768 then 0 else Suc m)" unfolding m(1) [symmetric] by (rule mod_Suc)
  ultimately show ?case using m(2) by (cases "Suc m = 2768") auto
qed

text \<open>
  C1. The ports of \<open>get_udp_server_port\<close>. The first call gives 60000, every later one the next even number, and after 2768 calls it begins again
  at 60002: all ports are even, none repeats within 2768 calls, 60000 never comes back, and each round ends with 65536, which is no port (as an
  \<open>unsigned short\<close> it is 0).
\<close>

theorem udp_port_cycle:
  "fst (get_udp_server_port (port_count n)) = (if n = 0 then 60000 else 60002 + 2 * int ((n - 1) mod 2768)) \<and>
   fst (get_udp_server_port (port_count (2768 * (n + 1)))) = 65536"
proof -
  have p: "fst (get_udp_server_port (port_count (Suc i))) = 60002 + 2 * int (i mod 2768)" for i
    unfolding port_count_closed by (simp add: get_udp_server_port_def DEFAULT_UDP_SERVER_PORT_def Let_def)
  have "2768 * (n + 1) = Suc (2767 + 2768 * n)" by simp
  then have "fst (get_udp_server_port (port_count (2768 * (n + 1)))) = 60002 + 2 * int ((2767 + 2768 * n) mod 2768)" using p by metis
  moreover have "(2767 + 2768 * n) mod 2768 = 2767" by simp
  ultimately have "fst (get_udp_server_port (port_count (2768 * (n + 1)))) = 65536" by simp
  moreover have "fst (get_udp_server_port (port_count n)) = (if n = 0 then 60000 else 60002 + 2 * int ((n - 1) mod 2768))"
  proof (cases n)
    case 0
    then show ?thesis by (simp add: get_udp_server_port_def DEFAULT_UDP_SERVER_PORT_def Let_def)
  next
    case (Suc i)
    then show ?thesis using p by simp
  qed
  ultimately show ?thesis by blast
qed

lemma random_number_range:
  assumes "\<forall>h. 0 \<le> ret (k h Rand)" "- (2 ^ 31) \<le> a" "a < b" "b < 2 ^ 31" "b - a < 2 ^ 31"
  shows "\<exists>x h'. random_number k a b h = Some (x, h') \<and> a \<le> x \<and> x < b"
proof -
  define r where "r = ret (k (h @ [(Time, k h Time), (Srand (word_of_int (ret (k h Time))), k (h @ [(Time, k h Time)]) (Srand (word_of_int (ret (k h Time)))))]) Rand)"
  have r: "0 \<le> r" using assms(1) by (simp add: r_def)
  define x where "x = sgn r * (\<bar>r\<bar> mod \<bar>b - a\<bar>) + a"
  have m: "0 \<le> r mod (b - a)" "r mod (b - a) < b - a" using assms(3) by simp_all
  have "x = r mod (b - a) + a" using r assms(3) by (cases "r = 0") (simp_all add: x_def)
  then have x: "a \<le> x" "x < b" using m by simp_all
  have "\<exists>h'. random_number k a b h = Some (x, h')"
    using x assms(2-5) by (simp add: random_number_def ask_def Let_def x_def r_def)
  then show ?thesis using x by blast
qed

section \<open>A kernel\<close>

text \<open>A kernel on which the theorems apply: new descriptors above all before, connections in progress that succeed, and a resolver.\<close>

definition fresh_fd :: "history \<Rightarrow> int" where
  "fresh_fd h = foldr (\<lambda>(c, a) m. max m (max (ret a) (max (fst (ends a)) (snd (ends a))))) h 2 + 1"

lemma fds_after_bound: "fd \<in> fds_after F h \<Longrightarrow> fd \<in> F \<or> fd < fresh_fd h"
proof (induction F h rule: fds_after.induct)
  case (2 F c a h)
  then have "fd \<in> F - set (closes c) \<union> set (opens c a) \<or> fd < fresh_fd h" by simp
  moreover have "fd \<in> set (opens c a) \<Longrightarrow> fd < fresh_fd ((c, a) # h)" by (cases c) (auto simp: fresh_fd_def split: if_splits)
  moreover have "fresh_fd h \<le> fresh_fd ((c, a) # h)" by (simp add: fresh_fd_def)
  ultimately show ?case by auto
qed simp

lemma fresh_fd_new: "fresh_fd h \<le> fd \<Longrightarrow> fd \<notin> open_fds h"
  using fds_after_bound [of fd "{}" h] by (auto simp: open_fds_def)

lemma fresh_fd_pos: "2 < fresh_fd h"
proof -
  have "2 \<le> foldr (\<lambda>(c, a) m. max m (max (ret a) (max (fst (ends a)) (snd (ends a))))) h (2 :: int)" by (induction h) auto
  then show ?thesis by (simp add: fresh_fd_def)
qed

definition host_kernel :: "u32 \<Rightarrow> kernel" where
  "host_kernel a h c = (case c of
     Socket d t \<Rightarrow> says (fresh_fd h) | Accept fd \<Rightarrow> says (fresh_fd h) | Epoll_create n \<Rightarrow> says (fresh_fd h)
   | Pipe \<Rightarrow> (says 0)\<lparr>ends := (fresh_fd h, fresh_fd h + 1)\<rparr>
   | Connect f b p \<Rightarrow> (says (-1))\<lparr>errno := EINPROGRESS\<rparr>
   | Epoll_wait e n t \<Rightarrow> if n \<ge> 1 then (says 1)\<lparr>evs := [(EPOLLOUT, 3)]\<rparr> else says (-1)
   | Select_read f s u \<Rightarrow> says 1
   | Read_pipe f n \<Rightarrow> if n = 32 then (says (int (length (inet_ntoa a))))\<lparr>got := inet_ntoa a\<rparr> else says (-1)
   | Send f bs \<Rightarrow> says (-1) | Recv f n p \<Rightarrow> says (-1)
   | _ \<Rightarrow> says 0)"

lemma host_kernel_ok: "kernel_ok (host_kernel a)"
  unfolding kernel_ok_def
proof (intro allI)
  fix h c show "answer_ok h c (host_kernel a h c)"
    using fresh_fd_new [of h "fresh_fd h"] fresh_fd_new [of h "fresh_fd h + 1"] fresh_fd_pos [of h] inet_ntoa_length [of a]
    by (cases c) (auto simp: host_kernel_def says_def)
qed

lemma host_kernel_resolves:
  "\<forall>h fd. ret (host_kernel a h (Read_pipe fd 32)) = int (length (inet_ntoa a)) \<and> got (host_kernel a h (Read_pipe fd 32)) = inet_ntoa a"
  by (simp add: host_kernel_def says_def)

lemma host_kernel_domain:
  assumes "fresh_fd h < FD_SETSIZE" "length name < 256"
  shows "\<exists>h'. from_domain_to_ip (host_kernel a) name 16 t h = Some (0, Some (inet_ntoa a), h')"
proof -
  have l: "0 < length (inet_ntoa a)" "length (inet_ntoa a) \<le> 15" using inet_ntoa_length by (simp_all add: inet_ntoa_def)
  have "mem_write (replicate 32 0) 0 (inet_ntoa a) = Some (inet_ntoa a @ replicate (32 - length (inet_ntoa a)) 0)"
    using l by (simp add: mem_write_def)
  moreover have "c_str (inet_ntoa a @ replicate (32 - length (inet_ntoa a)) 0) = Some (inet_ntoa a)"
    using c_str_padded [OF inet_ntoa_text, of "32 - length (inet_ntoa a)"] l(2) by simp
  ultimately show ?thesis using assms l by (simp add: from_domain_to_ip_def ask_def host_kernel_def says_def)
qed

lemma host_kernel_connects: "\<exists>h'. pt_connect (host_kernel a) 3 (Some ip) 8080 5 h = Some (1, h')"
proof -
  have "\<exists>h1. connect_start (host_kernel a) 3 addr port g = (says (fresh_fd g), (says (-1))\<lparr>errno := EINPROGRESS\<rparr>, h1)" for addr port g
    by (simp add: connect_start_def ask_def host_kernel_def Let_def)
  moreover have "\<exists>h2. connect_wait (host_kernel a) e 3 5 g = Some (0, h2)" for e g
    by (simp add: connect_wait_def ask_def host_kernel_def says_def millis_def connect_done_cases EPOLLOUT_def EPOLLIN_def)
  moreover have "\<not> ret (host_kernel a g (Epoll_create 1)) \<le> 0" for g
    using fresh_fd_pos [of g] by (simp add: host_kernel_def says_def)
  ultimately have "\<exists>h2. connect_noblock (host_kernel a) 3 addr port 5 g = Some (0, h2)" for addr port g
    unfolding connect_noblock_parts by (smt (verit) prod.case says_def select_convs(1) select_convs(2) update_convs(2))
  then obtain h2 where "connect_noblock (host_kernel a) 3 (inet_addr ip) (word_of_int 8080) 5
      (h @ [(Set_option 3 SO_REUSEADDR 1, host_kernel a h (Set_option 3 SO_REUSEADDR 1))]) = Some (0, h2)" by blast
  then show ?thesis by (simp add: pt_connect_def ask_def)
qed


theorem connection_reported_witness:
  "\<exists>h'. create_socket_connect_domain (host_kernel 0x7F000001) 0 (of_string ''localhost'') 8080 5 [] = Some (0, 3, h') \<and>
     connection_seen h' 3 0x7F000001 8080"
proof -
  have "stream_socket (host_kernel 0x7F000001) 0 [] = (3, [(Socket AF_INET SOCK_STREAM, says 3)])"
    by (simp add: stream_socket_def ask_def host_kernel_def says_def fresh_fd_def)
  moreover obtain h1 where "from_domain_to_ip (host_kernel 0x7F000001) (of_string ''localhost'') 16 5 [(Socket AF_INET SOCK_STREAM, says 3)] =
      Some (0, Some (inet_ntoa 0x7F000001), h1)"
    using host_kernel_domain [of "[(Socket AF_INET SOCK_STREAM, says 3)]" "of_string ''localhost''" "0x7F000001" 5]
    by (auto simp: of_string_def fresh_fd_def says_def FD_SETSIZE_def)
  moreover obtain h' where "pt_connect (host_kernel 0x7F000001) 3 (Some (inet_ntoa 0x7F000001)) 8080 5 h1 = Some (1, h')"
    using host_kernel_connects by blast
  ultimately have "\<exists>h'. create_socket_connect_domain (host_kernel 0x7F000001) 0 (of_string ''localhost'') 8080 5 [] = Some (0, 3, h')"
    by (simp add: create_socket_connect_domain_def HB_SUCCESS_def)
  then obtain h' where h: "create_socket_connect_domain (host_kernel 0x7F000001) 0 (of_string ''localhost'') 8080 5 [] = Some (0, 3, h')" by blast
  have "connection_seen h' 3 0x7F000001 (word_of_int 8080)"
    using connection_reported [OF host_kernel_ok host_kernel_resolves, of "0x7F000001" 0 8080 5 "[]"] h by fastforce
  then show ?thesis using h by auto
qed

theorem increase_buffer_ends_witness:
  "\<exists>h1. increase_buffer_to (host_kernel 0) SO_SNDBUF 3 65536 [] = Some (get_buffer_size (host_kernel 0) SO_SNDBUF 3 h1) \<and> length h1 \<le> 33"
proof -
  have "length (snd (get_buffer_size (host_kernel 0) SO_SNDBUF 3 [])) = 1" by (simp add: get_buffer_size_def ask_def)
  then show ?thesis using increase_buffer_ends [of "host_kernel 0" SO_SNDBUF 3 65536 "[]"] by auto
qed

end
