(* ===== verification/SimcSort.thy ===== *)
theory SimcSort
  imports SimcList Loops "HOL-Library.Multiset"
begin

text \<open>
  \<open>list_sort\<close> of \<open>src/common/simclist.c\<close>: a quicksort that exchanges the data of the cells, with selection sort for 24
  elements and fewer. The pivot is chosen with \<open>rand\<close>, whose answers are \<open>rs 0, rs 1, \<dots>\<close>; the \<open>n\<close>-th is the next.
  The result is a sorted list of the same elements, whatever the answers.
\<close>

section \<open>Selection sort\<close>

definition SIMCLIST_MINQUICKSORTELS :: int where "SIMCLIST_MINQUICKSORTELS = 24"

text \<open>The comparator on two data pointers, times \<open>s\<close>, which is \<open>-versus\<close>; the product is an \<open>int\<close>.\<close>

definition cmp :: "('a \<Rightarrow> 'a \<Rightarrow> int) \<Rightarrow> int \<Rightarrow> 'a option \<Rightarrow> 'a option \<Rightarrow> int option" where
  "cmp c s x y = do {
     x \<leftarrow> x;
     y \<leftarrow> y;
     if - (2 ^ 31) \<le> c x y * s \<and> c x y * s < 2 ^ 31 then Some (c x y * s) else None
   }"

definition set_dat :: "nat \<Rightarrow> 'a option \<Rightarrow> ('a, 'k) list_t \<Rightarrow> ('a, 'k) list_t" where
  "set_dat a x l = l\<lparr>dat := (dat l)(a := x)\<rparr>"

definition swap_dat :: "nat \<Rightarrow> nat \<Rightarrow> ('a, 'k) list_t \<Rightarrow> ('a, 'k) list_t" where
  "swap_dat a b l = set_dat b (dat l a) (set_dat a (dat l b) l)"

text \<open>The loop over the cells behind \<open>firstunsorted\<close>: \<open>toswap\<close> and \<open>cursor\<close>.\<close>

definition min_round :: "('a, 'k) list_t \<Rightarrow> ('a \<Rightarrow> 'a \<Rightarrow> int) \<Rightarrow> int \<Rightarrow> nat option \<Rightarrow> nat \<times> nat option \<Rightarrow> (nat + nat \<times> nat option) option" where
  "min_round l c s stop = (\<lambda>(toswap, cursor).
     if cursor = stop then Some (Inl toswap)
     else do {
       cu \<leftarrow> deref l cursor;
       d \<leftarrow> cmp c s (dat l toswap) (dat l cu);
       Some (Inr (if d > 0 then cu else toswap, nxt l cu))
     })"

definition sel_round :: "('a \<Rightarrow> 'a \<Rightarrow> int) \<Rightarrow> int \<Rightarrow> nat option \<Rightarrow> nat option \<times> ('a, 'k) list_t \<Rightarrow> (('a, 'k) list_t + nat option \<times> ('a, 'k) list_t) option" where
  "sel_round c s lel = (\<lambda>(firstunsorted, l).
     if firstunsorted = lel then Some (Inl l)
     else do {
       a \<leftarrow> deref l firstunsorted;
       e \<leftarrow> deref l lel;
       m \<leftarrow> rounds (min_round l c s (nxt l e)) (a, nxt l a);
       let l = (if m \<noteq> a then swap_dat a m l else l);
       Some (Inr (nxt l a, l))
     })"

definition list_sort_selectionsort :: "('a \<Rightarrow> 'a \<Rightarrow> int) \<Rightarrow> int \<Rightarrow> int \<Rightarrow> nat option \<Rightarrow> int \<Rightarrow> nat option \<Rightarrow> ('a, 'k) list_t \<Rightarrow> ('a, 'k) list_t option" where
  "list_sort_selectionsort c s lo fel hi lel l = (if hi \<le> lo then Some l else rounds (sel_round c s lel) (fel, l))"

section \<open>Partition\<close>

text \<open>\<open>left\<close> moves on over what may stand before the pivot, \<open>right\<close> back over what may stand behind it.\<close>

definition left_round :: "('a, 'k) list_t \<Rightarrow> ('a \<Rightarrow> 'a \<Rightarrow> int) \<Rightarrow> int \<Rightarrow> nat \<Rightarrow> nat option \<Rightarrow> (nat option + nat option) option" where
  "left_round l c s pivot left =
     (if left = Some pivot then Some (Inl left)
      else do {
        a \<leftarrow> deref l left;
        d \<leftarrow> cmp c s (dat l a) (dat l pivot);
        Some (if d \<le> 0 then Inr (nxt l a) else Inl left)
      })"

definition right_round :: "('a, 'k) list_t \<Rightarrow> ('a \<Rightarrow> 'a \<Rightarrow> int) \<Rightarrow> int \<Rightarrow> nat \<Rightarrow> nat option \<Rightarrow> (nat option + nat option) option" where
  "right_round l c s pivot right =
     (if right = Some pivot then Some (Inl right)
      else do {
        a \<leftarrow> deref l right;
        d \<leftarrow> cmp c s (dat l a) (dat l pivot);
        Some (if d \<ge> 0 then Inr (prv l a) else Inl right)
      })"

definition part_round :: "('a \<Rightarrow> 'a \<Rightarrow> int) \<Rightarrow> int \<Rightarrow> nat \<Rightarrow> ('a, 'k) list_t \<times> nat option \<times> nat option \<Rightarrow>
    (('a, 'k) list_t \<times> nat option \<times> nat option + ('a, 'k) list_t \<times> nat option \<times> nat option) option" where
  "part_round c s pivot = (\<lambda>(l, left, right).
     if left = Some pivot \<or> right = Some pivot then Some (Inl (l, left, right))
     else do {
       left \<leftarrow> rounds (left_round l c s pivot) left;
       right \<leftarrow> rounds (right_round l c s pivot) right;
       if left \<noteq> Some pivot \<and> right \<noteq> Some pivot then do {
         a \<leftarrow> deref l left;
         b \<leftarrow> deref l right;
         let l = swap_dat a b l;
         Some (Inr (l, nxt l a, prv l b))
       }
       else Some (Inr (l, left, right))
     })"

text \<open>One side is done; on the other, elements on the wrong side of the pivot change places with it and its neighbour. \<open>pivotid\<close> is unsigned.\<close>

definition wrap32 :: "int \<Rightarrow> int" where "wrap32 x = x mod 2 ^ 32"

definition shift_left_round :: "('a \<Rightarrow> 'a \<Rightarrow> int) \<Rightarrow> int \<Rightarrow> ('a, 'k) list_t \<times> nat option \<times> nat \<times> int \<Rightarrow>
    (('a, 'k) list_t \<times> nat \<times> int + ('a, 'k) list_t \<times> nat option \<times> nat \<times> int) option" where
  "shift_left_round c s = (\<lambda>(l, left, pivot, pivotid).
     if left = Some pivot then Some (Inl (l, pivot, pivotid))
     else do {
       a \<leftarrow> deref l left;
       d \<leftarrow> cmp c s (dat l a) (dat l pivot);
       if d > 0 then do {
         q \<leftarrow> deref l (prv l pivot);
         let tmpdata = dat l a;
         let l = set_dat a (dat l q) l;
         let l = set_dat q (dat l pivot) l;
         let l = set_dat pivot tmpdata l;
         Some (if q = a then Inl (l, q, wrap32 (pivotid - 1)) else Inr (l, left, q, wrap32 (pivotid - 1)))
       }
       else Some (Inr (l, nxt l a, pivot, pivotid))
     })"

definition shift_right_round :: "('a \<Rightarrow> 'a \<Rightarrow> int) \<Rightarrow> int \<Rightarrow> ('a, 'k) list_t \<times> nat option \<times> nat \<times> int \<Rightarrow>
    (('a, 'k) list_t \<times> nat \<times> int + ('a, 'k) list_t \<times> nat option \<times> nat \<times> int) option" where
  "shift_right_round c s = (\<lambda>(l, right, pivot, pivotid).
     if right = Some pivot then Some (Inl (l, pivot, pivotid))
     else do {
       a \<leftarrow> deref l right;
       d \<leftarrow> cmp c s (dat l a) (dat l pivot);
       if d < 0 then do {
         q \<leftarrow> deref l (nxt l pivot);
         let tmpdata = dat l a;
         let l = set_dat a (dat l q) l;
         let l = set_dat q (dat l pivot) l;
         let l = set_dat pivot tmpdata l;
         Some (if q = a then Inl (l, q, wrap32 (pivotid + 1)) else Inr (l, right, q, wrap32 (pivotid + 1)))
       }
       else Some (Inr (l, prv l a, pivot, pivotid))
     })"

definition sort_partition :: "('a \<Rightarrow> 'a \<Rightarrow> int) \<Rightarrow> int \<Rightarrow> nat option \<Rightarrow> nat option \<Rightarrow> nat \<Rightarrow> int \<Rightarrow> ('a, 'k) list_t \<Rightarrow> (('a, 'k) list_t \<times> nat \<times> int) option" where
  "sort_partition c s fel lel pivot pivotid l = do {
     (l, left, right) \<leftarrow> rounds (part_round c s pivot) (l, fel, lel);
     if right = Some pivot then rounds (shift_left_round c s) (l, left, pivot, pivotid)
     else rounds (shift_right_round c s) (l, right, pivot, pivotid)
   }"

section \<open>list_sort\<close>

partial_function (option) list_sort_quicksort ::
  "(nat \<Rightarrow> nat) \<Rightarrow> ('a \<Rightarrow> 'a \<Rightarrow> int) \<Rightarrow> int \<Rightarrow> int \<Rightarrow> nat option \<Rightarrow> int \<Rightarrow> nat option \<Rightarrow> ('a, 'k) list_t \<Rightarrow> nat \<Rightarrow> (('a, 'k) list_t \<times> nat) option" where
  "list_sort_quicksort rs c s lo fel hi lel l n =
     (if hi \<le> lo then Some (l, n)
      else if hi - lo + 1 \<le> SIMCLIST_MINQUICKSORTELS
      then map_option (\<lambda>l. (l, n)) (list_sort_selectionsort c s lo fel hi lel l)
      else let pivotid = int (rs n) mod (hi - lo + 1) in
        Option.bind (if pivotid < (hi - lo + 1) div 2 then walk l (nxt l) (nat pivotid) fel
                     else walk l (prv l) (nat (hi - lo - pivotid)) lel) (\<lambda>p.
        Option.bind (deref l p) (\<lambda>pivot.
        Option.bind (sort_partition c s fel lel pivot pivotid l) (\<lambda>(l, pivot, pivotid).
        Option.bind (if pivotid > 0 then list_sort_quicksort rs c s lo fel (lo + pivotid - 1) (prv l pivot) l (n + 1)
                     else Some (l, n + 1)) (\<lambda>(l, n).
        if lo + pivotid < hi then list_sort_quicksort rs c s (lo + pivotid + 1) (nxt l pivot) hi lel l n
        else Some (l, n))))))"

definition list_sort :: "(nat \<Rightarrow> nat) \<Rightarrow> int \<Rightarrow> ('a, 'k) list_t \<Rightarrow> nat \<Rightarrow> (int \<times> ('a, 'k) list_t \<times> nat) option" where
  "list_sort rs versus l n =
     (if iter_active l then Some (-1, l, n)
      else case comparator l of None \<Rightarrow> Some (-1, l, n)
        | Some c \<Rightarrow>
            if numels l \<le> 1 then Some (0, l, n)
            else do {
              h \<leftarrow> deref l (Some (head_sentinel l));
              t \<leftarrow> deref l (Some (tail_sentinel l));
              (l, n) \<leftarrow> list_sort_quicksort rs c (- versus) 0 (nxt l h) (numels l - 1) (prv l t) l n;
              Some (0, l, n)
            })"

section \<open>The order\<close>

text \<open>The comparator of the number types: positive when the first is the smaller.\<close>

definition number_comparator :: "'a :: linorder \<Rightarrow> 'a \<Rightarrow> int" where
  "number_comparator a b = of_bool (a < b) - of_bool (a > b)"

text \<open>A comparator of a total order: antisymmetric in its sign, transitive, and far from the ends of \<open>int\<close>.\<close>

definition comparator_ok :: "('a \<Rightarrow> 'a \<Rightarrow> int) \<Rightarrow> bool" where
  "comparator_ok c \<longleftrightarrow> (\<forall>x y. - (2 ^ 31) < c x y \<and> c x y < 2 ^ 31) \<and> (\<forall>x y. c x y < 0 \<longleftrightarrow> 0 < c y x) \<and>
     (\<forall>x y z. c x y \<le> 0 \<longrightarrow> c y z \<le> 0 \<longrightarrow> c x z \<le> 0)"

definition may_precede :: "('a \<Rightarrow> 'a \<Rightarrow> int) \<Rightarrow> int \<Rightarrow> 'a \<Rightarrow> 'a \<Rightarrow> bool" where
  "may_precede c s x y \<longleftrightarrow> c x y * s \<le> 0"

lemma cmp_some: "comparator_ok c \<Longrightarrow> s = 1 \<or> s = -1 \<Longrightarrow> cmp c s (Some x) (Some y) = Some (c x y * s)"
proof -
  assume "comparator_ok c" "s = 1 \<or> s = -1"
  then have "- (2 ^ 31) < c x y" "c x y < 2 ^ 31" "s = 1 \<or> s = -1" by (simp_all add: comparator_ok_def)
  then show ?thesis by (auto simp: cmp_def)
qed

lemma precede_signs:
  assumes "comparator_ok c" "s = 1 \<or> s = -1"
  shows "c x y * s \<le> 0 \<longleftrightarrow> may_precede c s x y" "0 < c x y * s \<longleftrightarrow> \<not> may_precede c s x y"
    "0 \<le> c x y * s \<longleftrightarrow> may_precede c s y x" "c x y * s < 0 \<longleftrightarrow> \<not> may_precede c s y x"
proof -
  have "c x y < 0 \<longleftrightarrow> 0 < c y x" "c y x < 0 \<longleftrightarrow> 0 < c x y" using assms(1) by (simp_all add: comparator_ok_def)
  then show "c x y * s \<le> 0 \<longleftrightarrow> may_precede c s x y" "0 < c x y * s \<longleftrightarrow> \<not> may_precede c s x y"
    "0 \<le> c x y * s \<longleftrightarrow> may_precede c s y x" "c x y * s < 0 \<longleftrightarrow> \<not> may_precede c s y x"
    using assms(2) by (auto simp: may_precede_def)
qed

lemma precede_total: "comparator_ok c \<Longrightarrow> s = 1 \<or> s = -1 \<Longrightarrow> \<not> may_precede c s x y \<Longrightarrow> may_precede c s y x"
  by (metis precede_signs(2,3) less_imp_le)

lemma precede_refl: "comparator_ok c \<Longrightarrow> s = 1 \<or> s = -1 \<Longrightarrow> may_precede c s x x"
  using precede_total [of c s x x] by blast

lemma precede_trans:
  assumes "comparator_ok c" "s = 1 \<or> s = -1" "may_precede c s x y" "may_precede c s y z"
  shows "may_precede c s x z"
proof -
  have t: "c x y \<le> 0 \<Longrightarrow> c y z \<le> 0 \<Longrightarrow> c x z \<le> 0" for x y z using assms(1) unfolding comparator_ok_def by blast
  show ?thesis
  proof (cases "s = 1")
    case True
    then show ?thesis using assms(3,4) t by (simp add: may_precede_def)
  next
    case False
    then have s: "s = -1" using assms(2) by simp
    have "may_precede c 1 z y" "may_precede c 1 y x"
      using assms(3,4) precede_signs(3) [OF assms(1), of 1] unfolding s by (simp_all add: may_precede_def)
    then have "may_precede c 1 z x" using t by (simp add: may_precede_def)
    then show ?thesis using precede_signs(3) [OF assms(1), of 1 x z] unfolding s by (simp add: may_precede_def)
  qed
qed

end
