(* ===== verification/SimcMore.thy ===== *)
theory SimcMore
  imports SimcSort
begin

text \<open>
  The other operations of \<open>src/common/simclist.c\<close>: ranges, \<open>list_clear\<close> and \<open>list_destroy\<close>, minimum and maximum, concatenation, iteration
  and \<open>list_hash\<close>, and the removals that never free data.
\<close>

unbundle bit_operations_syntax

section \<open>Removal without the data\<close>

definition list_drop_elem1 :: "('a, 'k) list_t \<Rightarrow> nat option \<Rightarrow> int \<Rightarrow> (int \<times> ('a, 'k) list_t) option" where
  "list_drop_elem1 l tmp pos =
     (case tmp of None \<Rightarrow> Some (-1, l)
      | Some a \<Rightarrow> do {
          l \<leftarrow> drop_fix_mid pos l;
          a \<leftarrow> deref l (Some a);
          p \<leftarrow> deref l (prv l a);
          let l = set_nxt p (nxt l a) l;
          n \<leftarrow> deref l (nxt l a);
          let l = set_prv n (prv l a) l;
          Some (0, give_cell a l)
        })"

definition list_remove_at :: "('a, 'k) list_t \<Rightarrow> int \<Rightarrow> (int \<times> ('a, 'k) list_t) option" where
  "list_remove_at l pos =
     (if iter_active l \<or> pos < 0 \<or> pos \<ge> numels l then Some (-1, l)
      else do {
        p \<leftarrow> list_findpos l pos;
        (r, l) \<leftarrow> list_drop_elem1 l p pos;
        Some (0, l\<lparr>numels := numels l - 1\<rparr>)
      })"

definition list_remove :: "('a, 'k) list_t \<Rightarrow> 'a \<Rightarrow> (int \<times> ('a, 'k) list_t) option" where
  "list_remove l d = do {
     pos \<leftarrow> list_locate l d;
     if pos < 0 then Some (-1, l)
     else do {
       (r, l) \<leftarrow> list_remove_at l pos;
       Some ((if r < 0 then -1 else 0), l)
     }
   }"

definition list_fetch :: "('a, 'k) list_t \<Rightarrow> ('a option \<times> ('a, 'k) list_t) option" where
  "list_fetch l = list_extract_at l 0"

definition list_empty :: "('a, 'k) list_t \<Rightarrow> bool" where
  "list_empty l \<longleftrightarrow> numels l = 0"

definition list_contains :: "('a, 'k) list_t \<Rightarrow> 'a \<Rightarrow> bool option" where
  "list_contains l d = map_option (\<lambda>pos. pos \<ge> 0) (list_locate l d)"

section \<open>Ranges\<close>

definition int32 :: "int \<Rightarrow> int" where "int32 x = (x + 2 ^ 31) mod 2 ^ 32 - 2 ^ 31"

text \<open>The cells from \<open>tmp\<close> on, so many, go to the spares or to \<open>free\<close>.\<close>

fun drop_cells :: "nat \<Rightarrow> ('a, 'k) list_t \<Rightarrow> nat option \<Rightarrow> (('a, 'k) list_t \<times> nat option) option" where
  "drop_cells 0 l tmp = Some (l, tmp)"
| "drop_cells (Suc k) l tmp = do { a \<leftarrow> deref l tmp; drop_cells k (give_cell a l) (nxt l a) }"

text \<open>The middle pointer moves to where the middle will be. The sizes are \<open>unsigned\<close>, the distance is an \<open>int\<close>; its negation may overflow.\<close>

definition range_mid :: "('a, 'k) list_t \<Rightarrow> int \<Rightarrow> int \<Rightarrow> ('a, 'k) list_t option" where
  "range_mid l posstart numdel =
     (let midposafter = wrap32 (numels l - 1 - numdel) div 2;
          midposafter = (if midposafter < posstart then midposafter else wrap32 (midposafter + numdel));
          movedx = int32 (midposafter - (numels l - 1) div 2)
      in if movedx > 0 then map_option (\<lambda>p. l\<lparr>mid := p\<rparr>) (walk l (nxt l) (nat movedx) (mid l))
         else if movedx = - (2 ^ 31) then None
         else map_option (\<lambda>p. l\<lparr>mid := p\<rparr>) (walk l (prv l) (nat (- movedx)) (mid l)))"

definition list_delete_range :: "('a, 'k) list_t \<Rightarrow> int \<Rightarrow> int \<Rightarrow> (int \<times> ('a, 'k) list_t) option" where
  "list_delete_range l posstart posend =
     (if iter_active l \<or> posend < posstart \<or> posend \<ge> numels l then Some (-1, l)
      else do {
        tmp \<leftarrow> list_findpos l posstart;
        a \<leftarrow> deref l tmp;
        let lastvalid = prv l a;
        let numdel = posend - posstart + 1;
        l \<leftarrow> range_mid l posstart numdel;
        (l, tmp) \<leftarrow> drop_cells (nat numdel) l tmp;
        v \<leftarrow> deref l lastvalid;
        let l = set_nxt v tmp l;
        b \<leftarrow> deref l tmp;
        let l = set_prv b lastvalid l;
        Some (0, l\<lparr>numels := numels l - numdel\<rparr>)
      })"

section \<open>list_clear and list_destroy\<close>

definition free_cell :: "nat option \<Rightarrow> ('a, 'k) list_t \<Rightarrow> ('a, 'k) list_t option" where
  "free_cell p l = (case p of None \<Rightarrow> Some l | Some a \<Rightarrow> if live l a then Some (l\<lparr>live := (live l)(a := False)\<rparr>) else None)"

definition clear_spare_round :: "('a, 'k) list_t \<times> nat option \<Rightarrow> (('a, 'k) list_t \<times> nat option + ('a, 'k) list_t \<times> nat option) option" where
  "clear_spare_round = (\<lambda>(l, s).
     if length (spareels l) < SIMCLIST_MAX_SPARE_ELEMS \<and> s \<noteq> Some (tail_sentinel l)
     then do { a \<leftarrow> deref l s; Some (Inr (l\<lparr>spareels := spareels l @ [a]\<rparr>, nxt l a)) }
     else Some (Inl (l, s)))"

definition clear_free_round :: "('a, 'k) list_t \<times> nat option \<Rightarrow> (('a, 'k) list_t + ('a, 'k) list_t \<times> nat option) option" where
  "clear_free_round = (\<lambda>(l, s).
     if s \<noteq> Some (tail_sentinel l)
     then do { a \<leftarrow> deref l s; b \<leftarrow> deref l (nxt l a); l \<leftarrow> free_cell (prv l b) l; Some (Inr (l, Some b)) }
     else Some (Inl l))"

definition list_clear :: "('a, 'k) list_t \<Rightarrow> (int \<times> ('a, 'k) list_t) option" where
  "list_clear l =
     (if iter_active l then Some (-1, l)
      else do {
        h \<leftarrow> deref l (Some (head_sentinel l));
        (l, s) \<leftarrow> rounds clear_spare_round (l, nxt l h);
        l \<leftarrow> rounds clear_free_round (l, s);
        t \<leftarrow> deref l (Some (tail_sentinel l));
        let l = set_prv t (Some h) (set_nxt h (Some t) l);
        Some (0, l\<lparr>numels := 0, mid := None\<rparr>)
      })"

fun free_all :: "nat list \<Rightarrow> ('a, 'k) list_t \<Rightarrow> ('a, 'k) list_t option" where
  "free_all [] l = Some l"
| "free_all (a # as) l = Option.bind (free_cell (Some a) l) (free_all as)"

definition list_destroy :: "('a, 'k) list_t \<Rightarrow> ('a, 'k) list_t option" where
  "list_destroy l = do {
     (r, l) \<leftarrow> list_clear l;
     l \<leftarrow> free_all (spareels l) l;
     l \<leftarrow> free_cell (Some (head_sentinel l)) l;
     free_cell (Some (tail_sentinel l)) l
   }"

section \<open>Minimum and maximum\<close>

definition minmax_round :: "('a, 'k) list_t \<Rightarrow> ('a \<Rightarrow> 'a \<Rightarrow> int) \<Rightarrow> int \<Rightarrow> 'a option \<times> nat option \<Rightarrow> ('a option + 'a option \<times> nat option) option" where
  "minmax_round l c versus = (\<lambda>(curminmax, s).
     if s = Some (tail_sentinel l) then Some (Inl curminmax)
     else do {
       a \<leftarrow> deref l s;
       d \<leftarrow> cmp c versus curminmax (dat l a);
       Some (Inr (if d > 0 then dat l a else curminmax, nxt l a))
     })"

definition list_get_minmax :: "('a, 'k) list_t \<Rightarrow> int \<Rightarrow> 'a option option" where
  "list_get_minmax l versus =
     (case comparator l of None \<Rightarrow> Some None
      | Some c \<Rightarrow>
          if numels l = 0 then Some None
          else do {
            h \<leftarrow> deref l (Some (head_sentinel l));
            a \<leftarrow> deref l (nxt l h);
            rounds (minmax_round l c versus) (dat l a, nxt l a)
          })"

definition list_get_max :: "('a, 'k) list_t \<Rightarrow> 'a option option" where
  "list_get_max l = list_get_minmax l 1"

definition list_get_min :: "('a, 'k) list_t \<Rightarrow> 'a option option" where
  "list_get_min l = list_get_minmax l (-1)"

section \<open>Concatenation\<close>

text \<open>The loop over one list: a new cell behind \<open>el\<close> for each of its elements; \<open>ms\<close> are the answers of \<open>malloc\<close> left.\<close>

definition copy_round :: "('a, 'k) list_t \<Rightarrow> nat option \<times> nat \<times> nat option list \<times> ('a, 'k) list_t \<Rightarrow>
    (nat \<times> nat option list \<times> ('a, 'k) list_t + nat option \<times> nat \<times> nat option list \<times> ('a, 'k) list_t) option" where
  "copy_round src = (\<lambda>(srcel, el, ms, l).
     if srcel = Some (tail_sentinel src) then Some (Inl (el, ms, l))
     else do {
       a \<leftarrow> deref src srcel;
       m \<leftarrow> (case ms of [] \<Rightarrow> None | m # _ \<Rightarrow> m);
       let l = set_nxt el (Some m) (l\<lparr>live := (live l)(m := True)\<rparr>);
       let l = set_dat m (dat src a) (set_prv m (Some el) l);
       Some (Inr (nxt src a, m, tl ms, l))
     })"

definition list_concat :: "('a, 'k) list_t \<Rightarrow> ('a, 'k) list_t \<Rightarrow> nat \<Rightarrow> nat \<Rightarrow> nat option list \<Rightarrow> ('a, 'k) list_t \<Rightarrow> (int \<times> ('a, 'k) list_t) option" where
  "list_concat l1 l2 h t ms dest =
     (let l = (list_init h t dest)\<lparr>numels := wrap32 (numels l1 + numels l2)\<rparr> in
      if numels l = 0 then Some (0, l)
      else do {
        h1 \<leftarrow> deref l1 (Some (head_sentinel l1));
        (el, ms, l) \<leftarrow> rounds (copy_round l1) (nxt l1 h1, h, ms, l);
        let l = l\<lparr>mid := Some el\<rparr>;
        h2 \<leftarrow> deref l2 (Some (head_sentinel l2));
        (el, ms, l) \<leftarrow> rounds (copy_round l2) (nxt l2 h2, el, ms, l);
        let l = set_prv t (Some el) (set_nxt el (Some t) l);
        let err = int32 (numels l2 - numels l1);
        p \<leftarrow> (if sgn (err + 1) * (\<bar>err + 1\<bar> div 2) > 0 then walk l (nxt l) (nat ((err + 1) div 2)) (mid l)
              else if sgn err * (\<bar>err\<bar> div 2) < 0 then walk l (prv l) (nat (- err div 2)) (mid l)
              else Some (mid l));
        Some (0, l\<lparr>mid := p\<rparr>)
      })"

section \<open>Iteration\<close>

definition list_iterator_start :: "('a, 'k) list_t \<Rightarrow> (int \<times> ('a, 'k) list_t) option" where
  "list_iterator_start l =
     (if iter_active l then Some (0, l)
      else do {
        h \<leftarrow> deref l (Some (head_sentinel l));
        Some (1, l\<lparr>iter_pos := 0, iter_active := True, iter_curentry := nxt l h\<rparr>)
      })"

definition list_iterator_next :: "('a, 'k) list_t \<Rightarrow> ('a option \<times> ('a, 'k) list_t) option" where
  "list_iterator_next l =
     (if \<not> iter_active l then Some (None, l)
      else do {
        a \<leftarrow> deref l (iter_curentry l);
        Some (dat l a, l\<lparr>iter_curentry := nxt l a, iter_pos := iter_pos l + 1\<rparr>)
      })"

definition list_iterator_hasnext :: "('a, 'k) list_t \<Rightarrow> bool" where
  "list_iterator_hasnext l \<longleftrightarrow> iter_active l \<and> iter_pos l < numels l"

definition list_iterator_stop :: "('a, 'k) list_t \<Rightarrow> int \<times> ('a, 'k) list_t" where
  "list_iterator_stop l = (if \<not> iter_active l then (0, l) else (1, l\<lparr>iter_pos := 0, iter_active := False\<rparr>))"

section \<open>list_hash\<close>

text \<open>
  \<open>old\<close> is what \<open>*hash\<close> holds before, which the loop reads in each round: nothing is stored there before the end. A sum of two
  \<open>int\<close>s that overflows is undefined; the sum with the remainder is \<open>unsigned\<close>.
\<close>

definition hash_round :: "('a, 'k) list_t \<Rightarrow> ('a option \<Rightarrow> int) \<Rightarrow> int \<Rightarrow> int \<times> nat option \<Rightarrow> (int + int \<times> nat option) option" where
  "hash_round l hasher old = (\<lambda>(tmphash, x).
     if x = Some (tail_sentinel l) then Some (Inl tmphash)
     else do {
       a \<leftarrow> deref l x;
       let sum = tmphash + (tmphash XOR hasher (dat l a));
       if sum < - (2 ^ 31) \<or> 2 ^ 31 \<le> sum \<or> numels l = 0 then None
       else Some (Inr (int32 (sum + wrap32 old mod numels l), nxt l a))
     })"

definition list_hash :: "('a option \<Rightarrow> int) option \<Rightarrow> ('a, 'k) list_t \<Rightarrow> int \<Rightarrow> (int \<times> int) option" where
  "list_hash hasher l old =
     (case hasher of None \<Rightarrow> Some (-1, old)
      | Some f \<Rightarrow> do {
          h \<leftarrow> deref l (Some (head_sentinel l));
          tmphash \<leftarrow> rounds (hash_round l f old) (int32 (numels l * 2 + 100), nxt l h);
          Some (0, tmphash)
        })"

end
