(* ===== verification/SimcSortSpec.thy ===== *)
theory SimcSortSpec
  imports SimcSort
begin

text \<open>
  \<open>list_sort\<close> sorts: the cells stay where they are, their data as a list of values are permuted into order. Positions are
  counted from 0; \<open>node l as i\<close> is the \<open>i\<close>-th cell, or the tail sentinel behind the last.
\<close>

section \<open>A list during the sort\<close>

definition view :: "('a, 'k) list_t \<Rightarrow> nat list \<Rightarrow> ('a, 'k) list_t \<Rightarrow> 'a list \<Rightarrow> bool" where
  "view l0 as l xs \<longleftrightarrow> rep l0 as \<and> length xs = length as \<and>
     (\<exists>d. l = l0\<lparr>dat := d\<rparr> \<and> (\<forall>i < length as. d (as ! i) = Some (xs ! i)) \<and> (\<forall>a. a \<notin> set as \<longrightarrow> d a = dat l0 a))"

definition node :: "('a, 'k) list_t \<Rightarrow> nat list \<Rightarrow> nat \<Rightarrow> nat" where
  "node l0 as i = cells l0 as ! Suc i"

lemma place_cell: "i < length as \<Longrightarrow> node l0 as i = as ! i"
  by (simp add: node_def cells_def nth_append)

lemma node_inj:
  assumes "rep l0 as" "i \<le> length as" "j \<le> length as"
  shows "node l0 as i = node l0 as j \<longleftrightarrow> i = j"
proof -
  have "distinct (cells l0 as)" using assms(1) by (simp add: rep_def)
  then show ?thesis using assms(2,3) unfolding node_def by (subst nth_eq_iff_index_eq) (simp_all add: cells_def)
qed

lemma view_start: "rep l as \<Longrightarrow> view l as l (contents l as)"
  unfolding view_def by (intro conjI exI [of _ "dat l"]) (auto simp: rep_def contents_def)

lemma view_fields:
  assumes "view l0 as l xs"
  shows "nxt l = nxt l0" "prv l = prv l0" "live l = live l0" "i < length as \<Longrightarrow> dat l (as ! i) = Some (xs ! i)"
    "length xs = length as" "head_sentinel l = head_sentinel l0" "tail_sentinel l = tail_sentinel l0"
  using assms by (auto simp: view_def)

lemma view_live:
  assumes "view l0 as l xs" "i \<le> length as"
  shows "deref l (Some (node l0 as i)) = Some (node l0 as i)"
proof -
  have "node l0 as i \<in> set (cells l0 as)" using assms(2) nth_mem [of "Suc i" "cells l0 as"] unfolding node_def by (simp add: cells_def)
  then have "live l0 (node l0 as i)" using assms(1) by (auto simp: view_def rep_def)
  then show ?thesis using view_fields(3) [OF assms(1)] by (simp add: deref_def)
qed

lemma view_next:
  assumes "view l0 as l xs" "i < length as"
  shows "nxt l (node l0 as i) = Some (node l0 as (Suc i))" "prv l (node l0 as (Suc i)) = Some (node l0 as i)"
proof -
  have "linked (nxt l0) (prv l0) (cells l0 as)" using assms(1) by (simp add: view_def rep_def)
  from linked_nth [OF this, of "Suc i"] assms(2)
  show "nxt l (node l0 as i) = Some (node l0 as (Suc i))" "prv l (node l0 as (Suc i)) = Some (node l0 as i)"
    using view_fields(1,2) [OF assms(1)] by (simp_all add: node_def cells_def)
qed

lemma view_set:
  assumes "view l0 as l xs" "i < length as"
  shows "view l0 as (set_dat (node l0 as i) (Some v) l) (xs[i := v])"
proof -
  have di: "distinct as" using assms(1) by (simp add: view_def rep_def cells_def)
  obtain d where d: "l = l0\<lparr>dat := d\<rparr>" "\<forall>i < length as. d (as ! i) = Some (xs ! i)" "\<forall>a. a \<notin> set as \<longrightarrow> d a = dat l0 a"
    using assms(1) by (auto simp: view_def)
  have "(d(as ! i := Some v)) (as ! j) = Some (xs[i := v] ! j)" if "j < length as" for j
    using d(2) that assms(2) view_fields(5) [OF assms(1)] nth_eq_iff_index_eq [OF di that assms(2)] by (simp add: nth_list_update)
  moreover have "set_dat (node l0 as i) (Some v) l = l0\<lparr>dat := d(as ! i := Some v)\<rparr>"
    using assms(2) d(1) by (simp add: set_dat_def place_cell)
  moreover have "rep l0 as" "length (xs[i := v]) = length as" using assms(1) by (simp_all add: view_def)
  moreover have "\<forall>a. a \<notin> set as \<longrightarrow> (d(as ! i := Some v)) a = dat l0 a" using d(3) assms(2) by auto
  ultimately show ?thesis unfolding view_def by (intro conjI exI [of _ "d(as ! i := Some v)"]) simp_all
qed

definition swap_at :: "'a list \<Rightarrow> nat \<Rightarrow> nat \<Rightarrow> 'a list" where
  "swap_at xs i j = xs[i := xs ! j, j := xs ! i]"

lemma length_swap_at [simp]: "length (swap_at xs i j) = length xs"
  by (simp add: swap_at_def)

lemma nth_swap_at: "i < length xs \<Longrightarrow> j < length xs \<Longrightarrow> k < length xs \<Longrightarrow>
    swap_at xs i j ! k = (if k = j then xs ! i else if k = i then xs ! j else xs ! k)"
  by (auto simp: swap_at_def nth_list_update)

lemma mset_swap_at: "i < length xs \<Longrightarrow> j < length xs \<Longrightarrow> mset (swap_at xs i j) = mset xs"
  unfolding swap_at_def by (rule mset_swap)

lemma view_data: "view l0 as l xs \<Longrightarrow> i < length as \<Longrightarrow> dat l (node l0 as i) = Some (xs ! i)"
  using view_fields(4) [of l0 as l xs i] by (simp add: place_cell)

lemma view_swap:
  assumes "view l0 as l xs" "i < length as" "j < length as"
  shows "view l0 as (swap_dat (node l0 as i) (node l0 as j) l) (swap_at xs i j)"
  using view_set [OF view_set [OF assms(1,2), of "xs ! j"] assms(3), of "xs ! i"] view_data [OF assms(1)] assms(2,3)
  by (simp add: swap_dat_def swap_at_def)

section \<open>Stretches of a list\<close>

text \<open>The elements from position \<open>f\<close> to \<open>t\<close> are permuted, the others stay.\<close>

definition permuted :: "nat \<Rightarrow> nat \<Rightarrow> 'a list \<Rightarrow> 'a list \<Rightarrow> bool" where
  "permuted f t xs ys \<longleftrightarrow> length ys = length xs \<and> mset ys = mset xs \<and> (\<forall>k < length xs. k < f \<or> t < k \<longrightarrow> ys ! k = xs ! k)"

lemma permuted_refl: "permuted f t xs xs"
  by (simp add: permuted_def)

lemma permuted_trans: "permuted f t xs ys \<Longrightarrow> permuted f t ys zs \<Longrightarrow> permuted f t xs zs"
  by (simp add: permuted_def)

lemma permuted_wider: "permuted f t xs ys \<Longrightarrow> f' \<le> f \<Longrightarrow> t \<le> t' \<Longrightarrow> permuted f' t' xs ys"
  by (auto simp: permuted_def)

lemma permuted_swap: "f \<le> i \<Longrightarrow> i \<le> t \<Longrightarrow> f \<le> j \<Longrightarrow> j \<le> t \<Longrightarrow> t < length xs \<Longrightarrow> permuted f t xs (swap_at xs i j)"
  using nth_swap_at [of i xs j] by (auto simp: permuted_def mset_swap_at)

text \<open>The stretch holds the same elements.\<close>

lemma permuted_elem:
  assumes "permuted f t xs ys" "t < length xs" "f \<le> k" "k \<le> t"
  shows "\<exists>j. f \<le> j \<and> j \<le> t \<and> ys ! k = xs ! j"
proof -
  let ?mid = "\<lambda>zs. take (Suc t - f) (drop f zs)"
  have len: "length ys = length xs" and m: "mset ys = mset xs" and out: "\<And>k. k < length xs \<Longrightarrow> k < f \<or> t < k \<Longrightarrow> ys ! k = xs ! k"
    using assms(1) by (auto simp: permuted_def)
  have split: "zs = take f zs @ ?mid zs @ drop (Suc t) zs" for zs :: "'a list"
  proof -
    have "drop f zs = ?mid zs @ drop (Suc t - f) (drop f zs)" by (rule append_take_drop_id [symmetric])
    moreover have "drop (Suc t - f) (drop f zs) = drop (Suc t) zs" using assms(3,4) by simp
    ultimately show ?thesis by (metis append_take_drop_id)
  qed
  have "take f ys = take f xs" using len out assms by (intro nth_equalityI) auto
  moreover have "drop (Suc t) ys = drop (Suc t) xs" using len out by (intro nth_equalityI) auto
  ultimately have "mset (?mid ys) = mset (?mid xs)"
    using m split [of xs] split [of ys] by (metis add_left_cancel add_right_cancel mset_append)
  then have s: "set (?mid ys) = set (?mid xs)" by (metis set_mset_mset)
  have "?mid ys ! (k - f) = ys ! k" "k - f < length (?mid ys)" using assms(2-4) len by auto
  then have "ys ! k \<in> set (?mid xs)" using s nth_mem by metis
  then obtain i where "i < length (?mid xs)" "?mid xs ! i = ys ! k" by (auto simp: in_set_conv_nth)
  then show ?thesis using assms(2,3,4) by (intro exI [of _ "f + i"]) auto
qed

definition ordered :: "('a \<Rightarrow> 'a \<Rightarrow> bool) \<Rightarrow> nat \<Rightarrow> nat \<Rightarrow> 'a list \<Rightarrow> bool" where
  "ordered R f t xs \<longleftrightarrow> (\<forall>i j. f \<le> i \<longrightarrow> i < j \<longrightarrow> j \<le> t \<longrightarrow> R (xs ! i) (xs ! j))"

text \<open>Two ordered stretches around a pivot, each of them permuted.\<close>

lemma ordered_join:
  assumes trans: "\<And>x y z. R x y \<Longrightarrow> R y z \<Longrightarrow> R x z"
    and p: "f \<le> p" "p \<le> t" "t < length xs"
    and le: "\<And>k. f \<le> k \<Longrightarrow> k < p \<Longrightarrow> R (xs ! k) (xs ! p)" and ge: "\<And>k. p < k \<Longrightarrow> k \<le> t \<Longrightarrow> R (xs ! p) (xs ! k)"
    and a: "f < p \<Longrightarrow> permuted f (p - 1) xs ys \<and> ordered R f (p - 1) ys" "f = p \<Longrightarrow> ys = xs"
    and b: "p < t \<Longrightarrow> permuted (Suc p) t ys zs \<and> ordered R (Suc p) t zs" "p = t \<Longrightarrow> zs = ys"
  shows "permuted f t xs zs \<and> ordered R f t zs"
proof -
  have yp: "permuted f t xs ys"
  proof (cases "f < p")
    case True
    then show ?thesis using a(1) p by (auto intro: permuted_wider)
  qed (use a(2) p permuted_refl in auto)
  have zp: "permuted f t ys zs"
  proof (cases "p < t")
    case True
    then show ?thesis using b(1) p by (auto intro: permuted_wider)
  qed (use b(2) p permuted_refl in auto)
  have lens: "length ys = length xs" "length zs = length xs" using yp zp by (simp_all add: permuted_def)
  have ykeep: "ys ! k = xs ! k" if "p \<le> k" "k \<le> t" for k
    using that a p by (cases "f < p") (auto simp: permuted_def)
  have zkeep: "zs ! k = ys ! k" if "k \<le> p" for k
    using that b p lens by (cases "p < t") (auto simp: permuted_def)
  have below: "R (zs ! k) (xs ! p)" if k: "f \<le> k" "k < p" for k
  proof -
    have "p - 1 < length xs" "k \<le> p - 1" "permuted f (p - 1) xs ys" using k p a(1) by auto
    then obtain j where "f \<le> j" "j \<le> p - 1" "ys ! k = xs ! j" using permuted_elem k(1) by blast
    then show ?thesis using le [of j] k zkeep [of k] by simp
  qed
  have above: "R (xs ! p) (zs ! k)" if k: "p < k" "k \<le> t" for k
  proof -
    obtain j where "Suc p \<le> j" "j \<le> t" "zs ! k = ys ! j" using permuted_elem [of "Suc p" t ys zs k] b(1) k p lens by auto
    then show ?thesis using ge [of j] ykeep [of j] by simp
  qed
  have "R (zs ! i) (zs ! j)" if ij: "f \<le> i" "i < j" "j \<le> t" for i j
  proof -
    consider "j < p" | "i < p" "j = p" | "i < p" "p < j" | "i = p" | "p < i" using ij by linarith
    then show ?thesis
    proof cases
      case 1
      then show ?thesis using a(1) ij zkeep [of i] zkeep [of j] by (simp add: ordered_def)
    next
      case 2
      then show ?thesis using below [of i] ij zkeep [of p] ykeep [of p] p by simp
    next
      case 3
      then show ?thesis using below [of i] above [of j] ij trans by blast
    next
      case 4
      then show ?thesis using above [of j] ij zkeep [of p] ykeep [of p] p by simp
    next
      case 5
      then show ?thesis using b(1) ij by (simp add: ordered_def)
    qed
  qed
  then show ?thesis using permuted_trans [OF yp zp] by (simp add: ordered_def)
qed

section \<open>The scans\<close>

lemma left_step:
  assumes "comparator_ok c" "s = 1 \<or> s = -1" "view l0 as l xs" "i \<le> p" "p < length as"
  shows "left_round l c s (node l0 as p) (Some (node l0 as i)) = Some (if i = p then Inl (Some (node l0 as i))
    else if may_precede c s (xs ! i) (xs ! p) then Inr (Some (node l0 as (Suc i))) else Inl (Some (node l0 as i)))"
proof -
  have r: "rep l0 as" using assms(3) by (simp add: view_def)
  show ?thesis
    using assms node_inj [OF r, of i p] view_live [OF assms(3), of i] view_data [OF assms(3), of i] view_data [OF assms(3), of p]
      view_next(1) [OF assms(3), of i] cmp_some [OF assms(1,2)] precede_signs(1) [OF assms(1,2), of "xs ! i" "xs ! p"]
    by (simp add: left_round_def)
qed

lemma right_step:
  assumes "comparator_ok c" "s = 1 \<or> s = -1" "view l0 as l xs" "p \<le> j" "j < length as"
  shows "right_round l c s (node l0 as p) (Some (node l0 as j)) = Some (if j = p then Inl (Some (node l0 as j))
    else if may_precede c s (xs ! p) (xs ! j) then Inr (Some (node l0 as (j - 1))) else Inl (Some (node l0 as j)))"
proof -
  have r: "rep l0 as" using assms(3) by (simp add: view_def)
  show ?thesis
  proof (cases "j = p")
    case False
    then obtain i where "j = Suc i" using assms(4) by (cases j) auto
    then show ?thesis
      using assms node_inj [OF r, of j p] view_live [OF assms(3), of j] view_data [OF assms(3), of j] view_data [OF assms(3), of p]
        view_next(2) [OF assms(3), of i] cmp_some [OF assms(1,2)] precede_signs(3) [OF assms(1,2), of "xs ! j" "xs ! p"]
      by (simp add: right_round_def)
  qed (simp add: right_round_def)
qed

lemma left_loop:
  assumes "comparator_ok c" "s = 1 \<or> s = -1" "view l0 as l xs" "i \<le> p" "p < length as"
  shows "\<exists>i'. rounds (left_round l c s (node l0 as p)) (Some (node l0 as i)) = Some (Some (node l0 as i')) \<and> i \<le> i' \<and> i' \<le> p \<and>
    (\<forall>k. i \<le> k \<longrightarrow> k < i' \<longrightarrow> may_precede c s (xs ! k) (xs ! p)) \<and> (i' = p \<or> \<not> may_precede c s (xs ! i') (xs ! p))"
proof -
  define Q where "Q = (\<lambda>r. \<exists>i'. r = Some (node l0 as i') \<and> i \<le> i' \<and> i' \<le> p \<and>
    (\<forall>k. i \<le> k \<longrightarrow> k < i' \<longrightarrow> may_precede c s (xs ! k) (xs ! p)) \<and> (i' = p \<or> \<not> may_precede c s (xs ! i') (xs ! p)))"
  define I where "I = (\<lambda>n left. \<exists>i'. left = Some (node l0 as i') \<and> n = p - i' \<and> i \<le> i' \<and> i' \<le> p \<and>
    (\<forall>k. i \<le> k \<longrightarrow> k < i' \<longrightarrow> may_precede c s (xs ! k) (xs ! p)))"
  have "\<exists>r. rounds (left_round l c s (node l0 as p)) (Some (node l0 as i)) = Some r \<and> Q r"
  proof (rule rounds_bounded [where I = I])
    show "I (p - i) (Some (node l0 as i))" using assms(4) unfolding I_def by (intro exI [of _ i]) simp
  next
    fix n x assume "I n x"
    then obtain i' where i: "x = Some (node l0 as i')" "n = p - i'" "i \<le> i'" "i' \<le> p"
      "\<forall>k. i \<le> k \<longrightarrow> k < i' \<longrightarrow> may_precede c s (xs ! k) (xs ! p)" unfolding I_def by blast
    note st = left_step [OF assms(1-3) i(4) assms(5)]
    show "(\<exists>r. left_round l c s (node l0 as p) x = Some (Inl r) \<and> Q r) \<or>
      (\<exists>y m. left_round l c s (node l0 as p) x = Some (Inr y) \<and> I m y \<and> m < n)"
    proof (cases "i' \<noteq> p \<and> may_precede c s (xs ! i') (xs ! p)")
      case True
      have "I (p - Suc i') (Some (node l0 as (Suc i')))" unfolding I_def
        using i True by (intro exI [of _ "Suc i'"]) (auto simp: less_Suc_eq)
      then show ?thesis using st True i by (intro disjI2 exI [of _ "Some (node l0 as (Suc i'))"] exI [of _ "p - Suc i'"]) auto
    next
      case False
      then have "Q (Some (node l0 as i'))" unfolding Q_def using i by (intro exI [of _ i']) auto
      then show ?thesis using st False i(1) by (intro disjI1 exI [of _ "Some (node l0 as i')"]) auto
    qed
  qed
  then show ?thesis unfolding Q_def by blast
qed

lemma right_loop:
  assumes "comparator_ok c" "s = 1 \<or> s = -1" "view l0 as l xs" "p \<le> j" "j < length as"
  shows "\<exists>j'. rounds (right_round l c s (node l0 as p)) (Some (node l0 as j)) = Some (Some (node l0 as j')) \<and> p \<le> j' \<and> j' \<le> j \<and>
    (\<forall>k. j' < k \<longrightarrow> k \<le> j \<longrightarrow> may_precede c s (xs ! p) (xs ! k)) \<and> (j' = p \<or> \<not> may_precede c s (xs ! p) (xs ! j'))"
proof -
  define Q where "Q = (\<lambda>r. \<exists>j'. r = Some (node l0 as j') \<and> p \<le> j' \<and> j' \<le> j \<and>
    (\<forall>k. j' < k \<longrightarrow> k \<le> j \<longrightarrow> may_precede c s (xs ! p) (xs ! k)) \<and> (j' = p \<or> \<not> may_precede c s (xs ! p) (xs ! j')))"
  define I where "I = (\<lambda>n right. \<exists>j'. right = Some (node l0 as j') \<and> n = j' - p \<and> p \<le> j' \<and> j' \<le> j \<and>
    (\<forall>k. j' < k \<longrightarrow> k \<le> j \<longrightarrow> may_precede c s (xs ! p) (xs ! k)))"
  have "\<exists>r. rounds (right_round l c s (node l0 as p)) (Some (node l0 as j)) = Some r \<and> Q r"
  proof (rule rounds_bounded [where I = I])
    show "I (j - p) (Some (node l0 as j))" using assms(4) unfolding I_def by (intro exI [of _ j]) simp
  next
    fix n x assume "I n x"
    then obtain j' where i: "x = Some (node l0 as j')" "n = j' - p" "p \<le> j'" "j' \<le> j"
      "\<forall>k. j' < k \<longrightarrow> k \<le> j \<longrightarrow> may_precede c s (xs ! p) (xs ! k)" unfolding I_def by blast
    have "j' < length as" using i(4) assms(5) by simp
    note st = right_step [OF assms(1-3) i(3) this]
    show "(\<exists>r. right_round l c s (node l0 as p) x = Some (Inl r) \<and> Q r) \<or>
      (\<exists>y m. right_round l c s (node l0 as p) x = Some (Inr y) \<and> I m y \<and> m < n)"
    proof (cases "j' \<noteq> p \<and> may_precede c s (xs ! p) (xs ! j')")
      case True
      have "may_precede c s (xs ! p) (xs ! k)" if "j' - 1 < k" "k \<le> j" for k
        using that i(5) True by (cases "k = j'") auto
      then have "I (j' - 1 - p) (Some (node l0 as (j' - 1)))" unfolding I_def
        using i(3,4) True by (intro exI [of _ "j' - 1"]) auto
      then show ?thesis using st True i by (intro disjI2 exI [of _ "Some (node l0 as (j' - 1))"] exI [of _ "j' - 1 - p"]) auto
    next
      case False
      then have "Q (Some (node l0 as j'))" unfolding Q_def using i by (intro exI [of _ j']) auto
      then show ?thesis using st False i(1) by (intro disjI1 exI [of _ "Some (node l0 as j')"]) auto
    qed
  qed
  then show ?thesis unfolding Q_def by blast
qed

section \<open>Partition\<close>

text \<open>
  The state of a partition of the positions \<open>f\<close> to \<open>t\<close>: before \<open>i\<close> are elements that may precede the pivot's, behind \<open>j\<close> such that it may
  precede; the pivot is at \<open>p\<close> and has the value \<open>v\<close>.
\<close>

definition parted :: "('a \<Rightarrow> 'a \<Rightarrow> bool) \<Rightarrow> nat \<Rightarrow> nat \<Rightarrow> 'a list \<Rightarrow> 'a \<Rightarrow> 'a list \<Rightarrow> nat \<Rightarrow> nat \<Rightarrow> nat \<Rightarrow> bool" where
  "parted R f t xs0 v xs i p j \<longleftrightarrow> permuted f t xs0 xs \<and> t < length xs0 \<and> f \<le> i \<and> i \<le> p \<and> p \<le> j \<and> j \<le> t \<and> xs ! p = v \<and>
     (\<forall>k. f \<le> k \<longrightarrow> k < i \<longrightarrow> R (xs ! k) v) \<and> (\<forall>k. j < k \<longrightarrow> k \<le> t \<longrightarrow> R v (xs ! k))"

lemma parted_left: "parted R f t xs0 v xs i p j \<Longrightarrow> i \<le> i' \<Longrightarrow> i' \<le> p \<Longrightarrow> (\<forall>k. i \<le> k \<longrightarrow> k < i' \<longrightarrow> R (xs ! k) v) \<Longrightarrow> parted R f t xs0 v xs i' p j"
  unfolding parted_def by (meson le_less_linear le_trans)

lemma parted_right: "parted R f t xs0 v xs i p j \<Longrightarrow> p \<le> j' \<Longrightarrow> j' \<le> j \<Longrightarrow> (\<forall>k. j' < k \<longrightarrow> k \<le> j \<longrightarrow> R v (xs ! k)) \<Longrightarrow> parted R f t xs0 v xs i p j'"
  unfolding parted_def by (meson le_less_linear le_trans)

text \<open>Two elements on the wrong sides change places.\<close>

lemma parted_swap:
  assumes "parted R f t xs0 v xs i p j" "i < p" "p < j" "R (xs ! j) v" "R v (xs ! i)"
  shows "parted R f t xs0 v (swap_at xs i j) (Suc i) p (j - 1)"
proof -
  have b: "f \<le> i" "j \<le> t" "t < length xs0" "length xs = length xs0" using assms(1) by (auto simp: parted_def permuted_def)
  note n = nth_swap_at [of i xs j]
  have "permuted f t xs0 (swap_at xs i j)"
    using permuted_swap [of f i t j xs] b assms(1-3) permuted_trans [of f t xs0 xs] by (auto simp: parted_def)
  moreover have "R (swap_at xs i j ! k) v" if "f \<le> k" "k < Suc i" for k
    using that n [of k] b assms by (cases "k = i") (auto simp: parted_def)
  moreover have "R v (swap_at xs i j ! k)" if "j - 1 < k" "k \<le> t" for k
    using that n [of k] b assms by (cases "k = j") (auto simp: parted_def)
  moreover have "swap_at xs i j ! p = v" using n [of p] b assms by (auto simp: parted_def)
  ultimately show ?thesis using b assms(2,3) by (auto simp: parted_def)
qed

lemma part_loop:
  assumes ok: "comparator_ok c" "s = 1 \<or> s = -1" and v: "view l0 as l xs" and p: "f \<le> p" "p \<le> t" "t < length as"
  shows "\<exists>l' xs' i j. rounds (part_round c s (node l0 as p)) (l, Some (node l0 as f), Some (node l0 as t)) =
      Some (l', Some (node l0 as i), Some (node l0 as j)) \<and> view l0 as l' xs' \<and>
      parted (may_precede c s) f t xs (xs ! p) xs' i p j \<and> (i = p \<or> j = p)"
proof -
  let ?R = "may_precede c s"
  have r: "rep l0 as" and lx: "length xs = length as" using v by (simp_all add: view_def)
  define Q where "Q = (\<lambda>(l', left, right). \<exists>xs' i j. left = Some (node l0 as i) \<and> right = Some (node l0 as j) \<and> view l0 as l' xs' \<and>
      parted ?R f t xs (xs ! p) xs' i p j \<and> (i = p \<or> j = p))"
  define I where "I = (\<lambda>n (l', left, right). \<exists>xs' i j. left = Some (node l0 as i) \<and> right = Some (node l0 as j) \<and> view l0 as l' xs' \<and>
      parted ?R f t xs (xs ! p) xs' i p j \<and> n = j - i)"
  have "\<exists>r. rounds (part_round c s (node l0 as p)) (l, Some (node l0 as f), Some (node l0 as t)) = Some r \<and> Q r"
  proof (rule rounds_bounded [where I = I])
    have "parted ?R f t xs (xs ! p) xs f p t" using p lx permuted_refl by (auto simp: parted_def)
    then show "I (t - f) (l, Some (node l0 as f), Some (node l0 as t))" unfolding I_def using v by blast
  next
    fix n x assume "I n x"
    then obtain l1 xs1 i j where x: "x = (l1, Some (node l0 as i), Some (node l0 as j))" "view l0 as l1 xs1" "n = j - i"
      and pt: "parted ?R f t xs (xs ! p) xs1 i p j" unfolding I_def by (cases x) auto
    have b: "f \<le> i" "i \<le> p" "p \<le> j" "j \<le> t" "xs1 ! p = xs ! p" using pt by (simp_all add: parted_def)
    have nip: "node l0 as i = node l0 as p \<longleftrightarrow> i = p" if "i \<le> t" for i using node_inj [OF r] p that by simp
    show "(\<exists>r. part_round c s (node l0 as p) x = Some (Inl r) \<and> Q r) \<or>
      (\<exists>y m. part_round c s (node l0 as p) x = Some (Inr y) \<and> I m y \<and> m < n)"
    proof (cases "i = p \<or> j = p")
      case True
      then have "part_round c s (node l0 as p) x = Some (Inl x)" by (auto simp: part_round_def x(1))
      moreover have "Q x" unfolding Q_def x(1) using x(2) pt True by blast
      ultimately show ?thesis by blast
    next
      case False
      obtain i' where i': "rounds (left_round l1 c s (node l0 as p)) (Some (node l0 as i)) = Some (Some (node l0 as i'))" "i \<le> i'" "i' \<le> p"
        "\<forall>k. i \<le> k \<longrightarrow> k < i' \<longrightarrow> ?R (xs1 ! k) (xs1 ! p)" "i' = p \<or> \<not> ?R (xs1 ! i') (xs1 ! p)"
        using left_loop [OF ok x(2) b(2)] p by auto
      obtain j' where j': "rounds (right_round l1 c s (node l0 as p)) (Some (node l0 as j)) = Some (Some (node l0 as j'))" "p \<le> j'" "j' \<le> j"
        "\<forall>k. j' < k \<longrightarrow> k \<le> j \<longrightarrow> ?R (xs1 ! p) (xs1 ! k)" "j' = p \<or> \<not> ?R (xs1 ! p) (xs1 ! j')"
        using right_loop [OF ok x(2) b(3)] b(4) p by auto
      have pt1: "parted ?R f t xs (xs ! p) xs1 i' p j'"
        using parted_right [OF parted_left [OF pt i'(2,3)] j'(2,3)] i'(4) j'(4) b(5) by simp
      have np: "node l0 as i' \<noteq> node l0 as p \<longleftrightarrow> i' \<noteq> p" "node l0 as j' \<noteq> node l0 as p \<longleftrightarrow> j' \<noteq> p"
        "node l0 as i \<noteq> node l0 as p" "node l0 as j \<noteq> node l0 as p"
        using nip [of i'] nip [of j'] nip [of i] nip [of j] i'(3) j'(3) b p False by auto
      show ?thesis
      proof (cases "i' = p \<or> j' = p")
        case True
        then have "part_round c s (node l0 as p) x = Some (Inr (l1, Some (node l0 as i'), Some (node l0 as j')))"
          using np i'(1) j'(1) by (auto simp: part_round_def x(1))
        moreover have "I (j' - i') (l1, Some (node l0 as i'), Some (node l0 as j'))" unfolding I_def using x(2) pt1 by blast
        moreover have "j' - i' < n" using True False i'(2,3) j'(2,3) b(2,3) x(3) by auto
        ultimately show ?thesis by blast
      next
        case False
        have lt: "i' < p" "p < j'" "i' < length as" "j' < length as" using False i'(3) j'(2,3) b(4) p by auto
        have sw: "?R (xs1 ! j') (xs ! p)" "?R (xs ! p) (xs1 ! i')"
          using False i'(5) j'(5) b(5) precede_total [OF ok] by auto
        have v2: "view l0 as (swap_dat (node l0 as i') (node l0 as j') l1) (swap_at xs1 i' j')" using view_swap [OF x(2) lt(3,4)] .
        obtain j0 where j0: "j' = Suc j0" using lt(2) by (cases j') auto
        have "part_round c s (node l0 as p) x =
            Some (Inr (swap_dat (node l0 as i') (node l0 as j') l1, Some (node l0 as (Suc i')), Some (node l0 as (j' - 1))))"
          using np False i'(1) j'(1) view_live [OF x(2), of i'] view_live [OF x(2), of j'] lt view_next(1) [OF v2, of i'] view_next(2) [OF v2, of j0] j0
          by (simp add: part_round_def x(1) Let_def)
        moreover have "I (j' - 1 - Suc i') (swap_dat (node l0 as i') (node l0 as j') l1, Some (node l0 as (Suc i')), Some (node l0 as (j' - 1)))"
          unfolding I_def using v2 parted_swap [OF pt1 lt(1,2) sw] by blast
        moreover have "j' - 1 - Suc i' < n" using lt(1,2) i'(2) j'(3) x(3) by linarith
        ultimately show ?thesis by blast
      qed
    qed
  qed
  then show ?thesis unfolding Q_def by (auto split: prod.splits)
qed

section \<open>The pivot moves\<close>

text \<open>The three stores of a round exchange the element with the pivot, then with the pivot's neighbour.\<close>

lemma view_move:
  assumes "view l0 as l xs" "i < length as" "q < length as" "p < length as" "i \<noteq> p" "q \<noteq> p"
    and "l1 = set_dat (node l0 as i) (dat l (node l0 as q)) l" "l2 = set_dat (node l0 as q) (dat l1 (node l0 as p)) l1"
  shows "view l0 as (set_dat (node l0 as p) (dat l (node l0 as i)) l2) (swap_at (swap_at xs i p) i q)"
proof -
  let ?a = "xs[i := xs ! q]"
  let ?b = "?a[q := ?a ! p]"
  have lx: "length xs = length as" using view_fields(5) [OF assms(1)] .
  have "view l0 as l1 ?a" using view_set [OF assms(1,2)] view_data [OF assms(1,3)] assms(7) by simp
  then have "view l0 as l2 ?b" using view_set [of l0 as l1 ?a q] view_data [of l0 as l1 ?a p] assms(3,4,8) by simp
  then have "view l0 as (set_dat (node l0 as p) (dat l (node l0 as i)) l2) (?b[p := xs ! i])"
    using view_set [of l0 as l2 ?b p] view_data [OF assms(1,2)] assms(4) by simp
  moreover have "?b[p := xs ! i] = swap_at (swap_at xs i p) i q"
    using assms(2-6) lx by (intro nth_equalityI) (auto simp: swap_at_def nth_list_update)
  ultimately show ?thesis by simp
qed

lemma parted_shift_left:
  assumes "parted R f t xs0 v xs i p p" "i < p" "R v (xs ! i)"
  shows "parted R f t xs0 v (swap_at (swap_at xs i p) i (p - 1)) i (p - 1) (p - 1)"
proof -
  let ?ys = "swap_at (swap_at xs i p) i (p - 1)"
  have b: "f \<le> i" "p \<le> t" "t < length xs0" "length xs = length xs0" "xs ! p = v" using assms(1) by (auto simp: parted_def permuted_def)
  have n: "?ys ! k = (if k = p - 1 then v else if k = i then xs ! (p - 1) else if k = p then xs ! i else xs ! k)" if "k \<le> t" for k
    using that b assms(2) nth_swap_at [of i "swap_at xs i p" "p - 1" k] nth_swap_at [of i xs p] by auto
  have "permuted f t xs0 ?ys"
    using permuted_swap [of f i t p xs] permuted_swap [of f i t "p - 1" "swap_at xs i p"] b assms(1,2) permuted_trans [of f t]
    by (metis (no_types, lifting) One_nat_def Suc_leI Suc_pred diff_le_self le_trans length_swap_at less_imp_le_nat not_less_eq_eq less_le_trans
        less_nat_zero_code neq0_conv parted_def)
  moreover have "R (?ys ! k) v" if "f \<le> k" "k < i" for k
    using that n [of k] b assms by (auto simp: parted_def)
  moreover have "R v (?ys ! k)" if "p - 1 < k" "k \<le> t" for k
    using that n [of k] b assms by (cases "k = p") (auto simp: parted_def)
  moreover have "?ys ! (p - 1) = v" using n [of "p - 1"] b by simp
  ultimately show ?thesis using b assms(2) by (auto simp: parted_def)
qed

lemma parted_shift_right:
  assumes "parted R f t xs0 v xs p p j" "p < j" "R (xs ! j) v"
  shows "parted R f t xs0 v (swap_at (swap_at xs j p) j (Suc p)) (Suc p) (Suc p) j"
proof -
  let ?ys = "swap_at (swap_at xs j p) j (Suc p)"
  have b: "f \<le> p" "j \<le> t" "t < length xs0" "length xs = length xs0" "xs ! p = v" using assms(1) by (auto simp: parted_def permuted_def)
  have n: "?ys ! k = (if k = Suc p then v else if k = j then xs ! Suc p else if k = p then xs ! j else xs ! k)" if "k \<le> t" for k
    using that b assms(2) nth_swap_at [of j "swap_at xs j p" "Suc p" k] nth_swap_at [of j xs p] by auto
  have "permuted f t xs (swap_at xs j p)" "permuted f t (swap_at xs j p) ?ys"
    using permuted_swap [of f j t p xs] permuted_swap [of f j t "Suc p" "swap_at xs j p"] b assms(2) by auto
  then have "permuted f t xs0 ?ys" using assms(1) permuted_trans [of f t] unfolding parted_def by blast
  moreover have "R (?ys ! k) v" if "f \<le> k" "k < Suc p" for k
    using that n [of k] b assms by (cases "k = p") (auto simp: parted_def)
  moreover have "R v (?ys ! k)" if "j < k" "k \<le> t" for k
    using that n [of k] b assms by (auto simp: parted_def)
  moreover have "?ys ! Suc p = v" using n [of "Suc p"] b assms(2) by simp
  ultimately show ?thesis using b assms(2) by (auto simp: parted_def)
qed

lemma wrap32_small: "0 \<le> x \<Longrightarrow> x < 2 ^ 32 \<Longrightarrow> wrap32 x = x"
  by (simp add: wrap32_def)

text \<open>The outcome of a partition: the pivot, at its place, and the cells around it.\<close>

definition partitioned :: "('a \<Rightarrow> 'a \<Rightarrow> int) \<Rightarrow> int \<Rightarrow> ('a, 'k) list_t \<Rightarrow> nat list \<Rightarrow> nat \<Rightarrow> nat \<Rightarrow> 'a list \<Rightarrow> 'a \<Rightarrow> ('a, 'k) list_t \<times> nat \<times> int \<Rightarrow> bool" where
  "partitioned c s l0 as f t xs0 v = (\<lambda>(l, pivot, pivotid). \<exists>xs p. pivot = node l0 as p \<and> pivotid = int (p - f) \<and> view l0 as l xs \<and>
     parted (may_precede c s) f t xs0 v xs p p p)"

lemma shift_left_loop:
  assumes ok: "comparator_ok c" "s = 1 \<or> s = -1" and v: "view l0 as l xs" and t: "t < length as" "length as < 2 ^ 31"
    and pt: "parted (may_precede c s) f t xs0 v xs i p p"
  shows "\<exists>r. rounds (shift_left_round c s) (l, Some (node l0 as i), node l0 as p, int (p - f)) = Some r \<and> partitioned c s l0 as f t xs0 v r"
proof -
  let ?R = "may_precede c s"
  define I where "I = (\<lambda>n (l, left, pivot, pivotid). \<exists>xs i p. left = Some (node l0 as i) \<and> pivot = node l0 as p \<and> pivotid = int (p - f) \<and>
    view l0 as l xs \<and> parted ?R f t xs0 v xs i p p \<and> n = p - i)"
  have r: "rep l0 as" using v by (simp add: view_def)
  show ?thesis
  proof (rule rounds_bounded [where I = I])
    show "I (p - i) (l, Some (node l0 as i), node l0 as p, int (p - f))" unfolding I_def using v pt by blast
  next
    fix n x assume "I n x"
    then obtain l xs i p where x: "x = (l, Some (node l0 as i), node l0 as p, int (p - f))" and v: "view l0 as l xs"
      and pt: "parted ?R f t xs0 v xs i p p" and n: "n = p - i" unfolding I_def by (cases x) auto
    have b: "f \<le> i" "i \<le> p" "p \<le> t" "xs ! p = v" using pt by (simp_all add: parted_def)
    let ?d = "c (xs ! i) v * s"
    have nip: "node l0 as i = node l0 as p \<longleftrightarrow> i = p" using node_inj [OF r] b t by simp
    have cm: "cmp c s (dat l (node l0 as i)) (dat l (node l0 as p)) = Some ?d"
      using view_data [OF v] b t cmp_some [OF ok] by simp
    have lv: "deref l (Some (node l0 as i)) = Some (node l0 as i)" using view_live [OF v] b t by simp
    show "(\<exists>r. shift_left_round c s x = Some (Inl r) \<and> partitioned c s l0 as f t xs0 v r) \<or>
      (\<exists>y m. shift_left_round c s x = Some (Inr y) \<and> I m y \<and> m < n)"
    proof (cases "i = p")
      case True
      then have "shift_left_round c s x = Some (Inl (l, node l0 as p, int (p - f)))" by (simp add: shift_left_round_def x)
      moreover have "partitioned c s l0 as f t xs0 v (l, node l0 as p, int (p - f))"
        unfolding partitioned_def using v pt True by auto
      ultimately show ?thesis by blast
    next
      case False
      then obtain q where q: "p = Suc q" "i \<le> q" using b(2) by (cases p) auto
      show ?thesis
      proof (cases "?R (xs ! i) v")
        case True
        have "parted ?R f t xs0 v xs (Suc i) p p" using parted_left [OF pt, of "Suc i"] True q by (auto simp: less_Suc_eq)
        then have "I (p - Suc i) (l, Some (node l0 as (Suc i)), node l0 as p, int (p - f))" unfolding I_def using v by blast
        moreover have "shift_left_round c s x = Some (Inr (l, Some (node l0 as (Suc i)), node l0 as p, int (p - f)))"
          using False nip cm lv True precede_signs(2) [OF ok, of "xs ! i" v] view_next(1) [OF v, of i] b t
          by (simp add: shift_left_round_def x)
        moreover have "p - Suc i < n" using q n by simp
        ultimately show ?thesis by blast
      next
        case notR: False
        define l1 where "l1 = set_dat (node l0 as i) (dat l (node l0 as q)) l"
        define l2 where "l2 = set_dat (node l0 as q) (dat l1 (node l0 as p)) l1"
        define l3 where "l3 = set_dat (node l0 as p) (dat l (node l0 as i)) l2"
        have ql: "q < length as" "i < length as" "p < length as" using q b t by simp_all
        have v3: "view l0 as l3 (swap_at (swap_at xs i p) i q)"
          unfolding l3_def using view_move [OF v ql(2,1,3) _ _ l1_def l2_def] q by simp
        have pt3: "parted ?R f t xs0 v (swap_at (swap_at xs i p) i q) i q q"
          using parted_shift_left [OF pt] precede_total [OF ok notR] q by simp
        have w: "wrap32 (int (p - f) - 1) = int (q - f)" using wrap32_small [of "int (p - f) - 1"] q b t by auto
        have dq: "deref l (prv l (node l0 as p)) = Some (node l0 as q)"
          using view_next(2) [OF v ql(1)] view_live [OF v, of q] ql q(1) by simp
        have niq: "node l0 as q = node l0 as i \<longleftrightarrow> i = q" using node_inj [OF r, of q i] ql by auto
        have rd: "shift_left_round c s x = Some (if i = q then Inl (l3, node l0 as q, int (q - f))
            else Inr (l3, Some (node l0 as i), node l0 as q, int (q - f)))"
          using False nip cm lv notR precede_signs(2) [OF ok, of "xs ! i" v] dq w niq
          by (simp add: shift_left_round_def x Let_def l1_def l2_def l3_def)
        show ?thesis
        proof (cases "i = q")
          case True
          then have "partitioned c s l0 as f t xs0 v (l3, node l0 as q, int (q - f))"
            unfolding partitioned_def using v3 pt3 by auto
          then show ?thesis using rd True by auto
        next
          case False
          have "I (q - i) (l3, Some (node l0 as i), node l0 as q, int (q - f))" unfolding I_def using v3 pt3 by blast
          then show ?thesis using rd False q n by (intro disjI2 exI [of _ "(l3, Some (node l0 as i), node l0 as q, int (q - f))"] exI [of _ "q - i"]) auto
        qed
      qed
    qed
  qed
qed

lemma shift_right_loop:
  assumes ok: "comparator_ok c" "s = 1 \<or> s = -1" and v: "view l0 as l xs" and t: "t < length as" "length as < 2 ^ 31"
    and pt: "parted (may_precede c s) f t xs0 v xs p p j"
  shows "\<exists>r. rounds (shift_right_round c s) (l, Some (node l0 as j), node l0 as p, int (p - f)) = Some r \<and> partitioned c s l0 as f t xs0 v r"
proof -
  let ?R = "may_precede c s"
  define I where "I = (\<lambda>n (l, right, pivot, pivotid). \<exists>xs j p. right = Some (node l0 as j) \<and> pivot = node l0 as p \<and> pivotid = int (p - f) \<and>
    view l0 as l xs \<and> parted ?R f t xs0 v xs p p j \<and> n = j - p)"
  have r: "rep l0 as" using v by (simp add: view_def)
  show ?thesis
  proof (rule rounds_bounded [where I = I])
    show "I (j - p) (l, Some (node l0 as j), node l0 as p, int (p - f))" unfolding I_def using v pt by blast
  next
    fix n x assume "I n x"
    then obtain l xs j p where x: "x = (l, Some (node l0 as j), node l0 as p, int (p - f))" and v: "view l0 as l xs"
      and pt: "parted ?R f t xs0 v xs p p j" and n: "n = j - p" unfolding I_def by (cases x) auto
    have b: "f \<le> p" "p \<le> j" "j \<le> t" "xs ! p = v" using pt by (simp_all add: parted_def)
    let ?d = "c (xs ! j) v * s"
    have nip: "node l0 as j = node l0 as p \<longleftrightarrow> j = p" using node_inj [OF r] b t by simp
    have cm: "cmp c s (dat l (node l0 as j)) (dat l (node l0 as p)) = Some ?d"
      using view_data [OF v] b t cmp_some [OF ok] by simp
    have lv: "deref l (Some (node l0 as j)) = Some (node l0 as j)" using view_live [OF v] b t by simp
    show "(\<exists>r. shift_right_round c s x = Some (Inl r) \<and> partitioned c s l0 as f t xs0 v r) \<or>
      (\<exists>y m. shift_right_round c s x = Some (Inr y) \<and> I m y \<and> m < n)"
    proof (cases "j = p")
      case True
      then have "shift_right_round c s x = Some (Inl (l, node l0 as p, int (p - f)))" by (simp add: shift_right_round_def x)
      moreover have "partitioned c s l0 as f t xs0 v (l, node l0 as p, int (p - f))"
        unfolding partitioned_def using v pt True by auto
      ultimately show ?thesis by blast
    next
      case False
      then obtain k where k: "j = Suc k" "p \<le> k" using b(2) by (cases j) auto
      show ?thesis
      proof (cases "?R v (xs ! j)")
        case True
        have "parted ?R f t xs0 v xs p p k" using parted_right [OF pt, of k] True k by (auto simp: le_Suc_eq)
        then have "I (k - p) (l, Some (node l0 as k), node l0 as p, int (p - f))" unfolding I_def using v by blast
        moreover have "shift_right_round c s x = Some (Inr (l, Some (node l0 as k), node l0 as p, int (p - f)))"
          using False nip cm lv True precede_signs(4) [OF ok, of "xs ! j" v] view_next(2) [OF v, of k] b t k(1)
          by (simp add: shift_right_round_def x)
        moreover have "k - p < n" using k n by simp
        ultimately show ?thesis by blast
      next
        case notR: False
        define l1 where "l1 = set_dat (node l0 as j) (dat l (node l0 as (Suc p))) l"
        define l2 where "l2 = set_dat (node l0 as (Suc p)) (dat l1 (node l0 as p)) l1"
        define l3 where "l3 = set_dat (node l0 as p) (dat l (node l0 as j)) l2"
        have ql: "Suc p < length as" "j < length as" "p < length as" using k b t by simp_all
        have v3: "view l0 as l3 (swap_at (swap_at xs j p) j (Suc p))"
          unfolding l3_def using view_move [OF v ql(2,1,3) _ _ l1_def l2_def] k by simp
        have pt3: "parted ?R f t xs0 v (swap_at (swap_at xs j p) j (Suc p)) (Suc p) (Suc p) j"
          using parted_shift_right [OF pt] precede_total [OF ok notR] k by simp
        have w: "wrap32 (int (p - f) + 1) = int (Suc p - f)" using wrap32_small [of "int (p - f) + 1"] ql b t by auto
        have dq: "deref l (nxt l (node l0 as p)) = Some (node l0 as (Suc p))"
          using view_next(1) [OF v ql(3)] view_live [OF v, of "Suc p"] ql by simp
        have niq: "node l0 as (Suc p) = node l0 as j \<longleftrightarrow> j = Suc p" using node_inj [OF r, of "Suc p" j] ql by auto
        have rd: "shift_right_round c s x = Some (if j = Suc p then Inl (l3, node l0 as (Suc p), int (Suc p - f))
            else Inr (l3, Some (node l0 as j), node l0 as (Suc p), int (Suc p - f)))"
          using False nip cm lv notR precede_signs(4) [OF ok, of "xs ! j" v] dq w niq
          by (simp add: shift_right_round_def x Let_def l1_def l2_def l3_def)
        show ?thesis
        proof (cases "j = Suc p")
          case True
          then have "partitioned c s l0 as f t xs0 v (l3, node l0 as (Suc p), int (Suc p - f))"
            unfolding partitioned_def using v3 pt3 by auto
          then show ?thesis using rd True by auto
        next
          case False
          have "I (j - Suc p) (l3, Some (node l0 as j), node l0 as (Suc p), int (Suc p - f))" unfolding I_def using v3 pt3 by blast
          then show ?thesis using rd False k n
            by (intro disjI2 exI [of _ "(l3, Some (node l0 as j), node l0 as (Suc p), int (Suc p - f))"] exI [of _ "j - Suc p"]) auto
        qed
      qed
    qed
  qed
qed

lemma partition_done:
  assumes ok: "comparator_ok c" "s = 1 \<or> s = -1" and v: "view l0 as l xs" and p: "f \<le> p" "p \<le> t" "t < length as" "length as < 2 ^ 31"
  shows "\<exists>r. sort_partition c s (Some (node l0 as f)) (Some (node l0 as t)) (node l0 as p) (int (p - f)) l = Some r \<and>
    partitioned c s l0 as f t xs (xs ! p) r"
proof -
  obtain l' xs' i j where loop: "rounds (part_round c s (node l0 as p)) (l, Some (node l0 as f), Some (node l0 as t)) =
      Some (l', Some (node l0 as i), Some (node l0 as j))" and v': "view l0 as l' xs'"
    and pt: "parted (may_precede c s) f t xs (xs ! p) xs' i p j" and e: "i = p \<or> j = p"
    using part_loop [OF ok v p(1-3)] by blast
  have r: "rep l0 as" using v by (simp add: view_def)
  have "node l0 as j = node l0 as p \<longleftrightarrow> j = p" using node_inj [OF r] pt p by (simp add: parted_def)
  then show ?thesis
    using e loop pt shift_left_loop [OF ok v' p(3,4), of f xs "xs ! p" i p] shift_right_loop [OF ok v' p(3,4), of f xs "xs ! p" p j]
    by (cases "j = p") (simp_all add: sort_partition_def)
qed

section \<open>Selection sort\<close>

lemma min_loop:
  assumes ok: "comparator_ok c" "s = 1 \<or> s = -1" and v: "view l0 as l xs" and t: "i \<le> t" "t < length as"
  shows "\<exists>m. rounds (min_round l c s (Some (node l0 as (Suc t)))) (node l0 as i, Some (node l0 as (Suc i))) = Some (node l0 as m) \<and>
    i \<le> m \<and> m \<le> t \<and> (\<forall>k. i \<le> k \<longrightarrow> k \<le> t \<longrightarrow> may_precede c s (xs ! m) (xs ! k))"
proof -
  let ?R = "may_precede c s"
  define Q where "Q = (\<lambda>r. \<exists>m. r = node l0 as m \<and> i \<le> m \<and> m \<le> t \<and> (\<forall>k. i \<le> k \<longrightarrow> k \<le> t \<longrightarrow> ?R (xs ! m) (xs ! k)))"
  define I where "I = (\<lambda>n (toswap, cursor). \<exists>m k. toswap = node l0 as m \<and> cursor = Some (node l0 as k) \<and> i \<le> m \<and> m < k \<and> k \<le> Suc t \<and>
    (\<forall>a. i \<le> a \<longrightarrow> a < k \<longrightarrow> ?R (xs ! m) (xs ! a)) \<and> n = Suc t - k)"
  have r: "rep l0 as" using v by (simp add: view_def)
  have "\<exists>r. rounds (min_round l c s (Some (node l0 as (Suc t)))) (node l0 as i, Some (node l0 as (Suc i))) = Some r \<and> Q r"
  proof (rule rounds_bounded [where I = I])
    show "I (t - i) (node l0 as i, Some (node l0 as (Suc i)))"
      unfolding I_def prod.case using t precede_refl [OF ok] by (intro exI [of _ i] exI [of _ "Suc i"]) (auto simp: less_Suc_eq)
  next
    fix n x assume "I n x"
    then obtain m k where x: "x = (node l0 as m, Some (node l0 as k))" and mk: "i \<le> m" "m < k" "k \<le> Suc t"
      and le: "\<forall>a. i \<le> a \<longrightarrow> a < k \<longrightarrow> ?R (xs ! m) (xs ! a)" and n: "n = Suc t - k" unfolding I_def by (cases x) auto
    have nk: "node l0 as k = node l0 as (Suc t) \<longleftrightarrow> k = Suc t" using node_inj [OF r, of k "Suc t"] mk t by simp
    show "(\<exists>r. min_round l c s (Some (node l0 as (Suc t))) x = Some (Inl r) \<and> Q r) \<or>
      (\<exists>y m. min_round l c s (Some (node l0 as (Suc t))) x = Some (Inr y) \<and> I m y \<and> m < n)"
    proof (cases "k = Suc t")
      case True
      then have "Q (node l0 as m)" unfolding Q_def using mk le by (intro exI [of _ m]) auto
      then show ?thesis using True by (intro disjI1 exI [of _ "node l0 as m"]) (simp add: min_round_def x)
    next
      case False
      then have kt: "k \<le> t" using mk by simp
      define m' where "m' = (if ?R (xs ! m) (xs ! k) then m else k)"
      have le': "?R (xs ! m') (xs ! a)" if a: "i \<le> a" "a < Suc k" for a
      proof (cases "?R (xs ! m) (xs ! k)")
        case True
        then show ?thesis using a le by (cases "a = k") (auto simp: m'_def)
      next
        case False
        then have "?R (xs ! k) (xs ! m)" using precede_total [OF ok] by blast
        then show ?thesis using False a le precede_trans [OF ok] precede_refl [OF ok] by (cases "a = k") (auto simp: m'_def)
      qed
      have "I (t - k) (node l0 as m', Some (node l0 as (Suc k)))"
        unfolding I_def prod.case using mk kt le' by (intro exI [of _ m'] exI [of _ "Suc k"]) (auto simp: m'_def)
      moreover have "min_round l c s (Some (node l0 as (Suc t))) x = Some (Inr (node l0 as m', Some (node l0 as (Suc k))))"
        using nk False view_live [OF v, of k] view_data [OF v, of m] view_data [OF v, of k] view_next(1) [OF v, of k] mk kt t cmp_some [OF ok]
          precede_signs(2) [OF ok, of "xs ! m" "xs ! k"]
        by (simp add: min_round_def x m'_def)
      moreover have "t - k < n" using n kt by simp
      ultimately show ?thesis by blast
    qed
  qed
  then show ?thesis unfolding Q_def by blast
qed

lemma swap_at_same: "i < length xs \<Longrightarrow> swap_at xs i i = xs"
  by (simp add: swap_at_def)

lemma selection_sorts:
  assumes ok: "comparator_ok c" "s = 1 \<or> s = -1" and v: "view l0 as l xs" and t: "f \<le> t" "t < length as"
  shows "\<exists>l' xs'. list_sort_selectionsort c s (int f) (Some (node l0 as f)) (int t) (Some (node l0 as t)) l = Some l' \<and>
    view l0 as l' xs' \<and> permuted f t xs xs' \<and> ordered (may_precede c s) f t xs'"
proof -
  let ?R = "may_precede c s"
  define Q where "Q = (\<lambda>l'. \<exists>xs'. view l0 as l' xs' \<and> permuted f t xs xs' \<and> ordered ?R f t xs')"
  define I where "I = (\<lambda>n (first, l'). \<exists>i xs'. first = Some (node l0 as i) \<and> f \<le> i \<and> i \<le> t \<and> view l0 as l' xs' \<and> permuted f t xs xs' \<and>
    (\<forall>a b. f \<le> a \<longrightarrow> a < i \<longrightarrow> a < b \<longrightarrow> b \<le> t \<longrightarrow> ?R (xs' ! a) (xs' ! b)) \<and> n = t - i)"
  have r: "rep l0 as" and lx: "length xs = length as" using v by (simp_all add: view_def)
  have "\<exists>l'. rounds (sel_round c s (Some (node l0 as t))) (Some (node l0 as f), l) = Some l' \<and> Q l'"
  proof (rule rounds_bounded [where I = I])
    show "I (t - f) (Some (node l0 as f), l)" unfolding I_def prod.case using v t permuted_refl [of f t xs] by (intro exI [of _ f] exI [of _ xs]) simp
  next
    fix n x assume "I n x"
    then obtain i l1 xs1 where x: "x = (Some (node l0 as i), l1)" and i: "f \<le> i" "i \<le> t" and v1: "view l0 as l1 xs1"
      and pm: "permuted f t xs xs1" and le: "\<And>a b. f \<le> a \<Longrightarrow> a < i \<Longrightarrow> a < b \<Longrightarrow> b \<le> t \<Longrightarrow> ?R (xs1 ! a) (xs1 ! b)" and n: "n = t - i"
      unfolding I_def by (cases x) blast
    have it: "node l0 as i = node l0 as t \<longleftrightarrow> i = t" using node_inj [OF r] i t by simp
    show "(\<exists>r. sel_round c s (Some (node l0 as t)) x = Some (Inl r) \<and> Q r) \<or>
      (\<exists>y m. sel_round c s (Some (node l0 as t)) x = Some (Inr y) \<and> I m y \<and> m < n)"
    proof (cases "i = t")
      case True
      then have "Q l1" unfolding Q_def ordered_def using v1 pm le by (intro exI [of _ xs1]) auto
      then show ?thesis using True by (intro disjI1 exI [of _ l1]) (simp add: sel_round_def x)
    next
      case False
      obtain m where m: "rounds (min_round l1 c s (Some (node l0 as (Suc t)))) (node l0 as i, Some (node l0 as (Suc i))) = Some (node l0 as m)"
        "i \<le> m" "m \<le> t" and low: "\<And>k. i \<le> k \<Longrightarrow> k \<le> t \<Longrightarrow> ?R (xs1 ! m) (xs1 ! k)"
        using min_loop [OF ok v1 i(2) t(2)] by blast
      have l1x: "length xs1 = length as" using view_fields(5) [OF v1] .
      define ys where "ys = swap_at xs1 i m"
      define l2 where "l2 = (if node l0 as m \<noteq> node l0 as i then swap_dat (node l0 as i) (node l0 as m) l1 else l1)"
      have v2: "view l0 as l2 ys"
        using view_swap [OF v1, of i m] v1 node_inj [OF r, of m i] swap_at_same [of i xs1] i m(2,3) t l1x by (simp add: l2_def ys_def)
      have ys: "ys ! k = (if k = m then xs1 ! i else if k = i then xs1 ! m else xs1 ! k)" if "k \<le> t" for k
        using that nth_swap_at [of i xs1 m k] i m(2,3) t l1x by (simp add: ys_def)
      have "permuted f t xs ys" using permuted_swap [of f i t m xs1] pm permuted_trans i m(2,3) t l1x unfolding ys_def by auto
      moreover have "?R (ys ! a) (ys ! b)" if ab: "f \<le> a" "a < Suc i" "a < b" "b \<le> t" for a b
      proof (cases "a = i")
        case True
        have "ys ! a = xs1 ! m" using ys [of a] ab True by (cases "i = m") auto
        moreover have "\<exists>b'. i \<le> b' \<and> b' \<le> t \<and> ys ! b = xs1 ! b'"
          using ys [of b] ab True i m(2,3) by (intro exI [of _ "if b = m then i else b"]) auto
        ultimately show ?thesis using low by auto
      next
        case False
        then have "ys ! a = xs1 ! a" using ys [of a] ab m(2) by simp
        moreover have "\<exists>b'. a < b' \<and> b' \<le> t \<and> ys ! b = xs1 ! b'"
          using ys [of b] ab False i m(2,3) by (intro exI [of _ "if b = m then i else if b = i then m else b"]) auto
        ultimately show ?thesis using le ab False by auto
      qed
      ultimately have "I (t - Suc i) (Some (node l0 as (Suc i)), l2)" unfolding I_def
        using v2 i False by (intro case_prodI exI [of _ "Suc i"] exI [of _ ys]) auto
      moreover have "sel_round c s (Some (node l0 as t)) x = Some (Inr (Some (node l0 as (Suc i)), l2))"
        using False it m(1) view_live [OF v1, of i] view_live [OF v1, of t] view_next(1) [OF v1, of i] view_next(1) [OF v1, of t]
          view_next(1) [OF v2, of i] i t
        by (simp add: sel_round_def x Let_def l2_def)
      moreover have "t - Suc i < n" using n i False by simp
      ultimately show ?thesis by blast
    qed
  qed
  then obtain l' xs' where loop: "rounds (sel_round c s (Some (node l0 as t))) (Some (node l0 as f), l) = Some l'"
    "view l0 as l' xs'" "permuted f t xs xs'" "ordered ?R f t xs'" unfolding Q_def by blast
  show ?thesis
  proof (cases "f = t")
    case True
    then have "ordered ?R f t xs" by (simp add: ordered_def)
    then show ?thesis using True v permuted_refl by (auto simp: list_sort_selectionsort_def)
  next
    case False
    then show ?thesis using loop t by (auto simp: list_sort_selectionsort_def)
  qed
qed

section \<open>Quicksort\<close>

lemma view_walk:
  assumes "view l0 as l xs" "t < length as"
  shows "f + k \<le> t \<Longrightarrow> walk l (nxt l) k (Some (node l0 as f)) = Some (Some (node l0 as (f + k)))"
    "k \<le> t \<Longrightarrow> walk l (prv l) k (Some (node l0 as t)) = Some (Some (node l0 as (t - k)))"
proof -
  have "linked (nxt l) (prv l) (cells l0 as)" "\<forall>a\<in>set (cells l0 as). live l a"
    using assms(1) view_fields(1-3) [OF assms(1)] by (simp_all add: view_def rep_def)
  then show "f + k \<le> t \<Longrightarrow> walk l (nxt l) k (Some (node l0 as f)) = Some (Some (node l0 as (f + k)))"
    "k \<le> t \<Longrightarrow> walk l (prv l) k (Some (node l0 as t)) = Some (Some (node l0 as (t - k)))"
    using walk_nxt [of l "prv l" "cells l0 as" "Suc f" k] walk_prv [of "nxt l" l "cells l0 as" "Suc t" k] assms(2)
    by (simp_all add: node_def cells_def Suc_diff_le)
qed

text \<open>A call on the positions \<open>f\<close> to \<open>t\<close> returns with them in order.\<close>

definition quick_sorted :: "(nat \<Rightarrow> nat) \<Rightarrow> ('a \<Rightarrow> 'a \<Rightarrow> int) \<Rightarrow> int \<Rightarrow> ('a, 'k) list_t \<Rightarrow> nat list \<Rightarrow> nat \<Rightarrow> nat \<Rightarrow> ('a, 'k) list_t \<Rightarrow> 'a list \<Rightarrow> nat \<Rightarrow> bool" where
  "quick_sorted rs c s l0 as f t l xs n \<longleftrightarrow> (\<exists>l' xs' n'.
     list_sort_quicksort rs c s (int f) (Some (node l0 as f)) (int t) (Some (node l0 as t)) l n = Some (l', n') \<and>
     view l0 as l' xs' \<and> permuted f t xs xs' \<and> ordered (may_precede c s) f t xs')"

text \<open>The choice of the pivot.\<close>

lemma pivot_found:
  assumes v: "view l0 as l xs" and t: "f < t" "t < length as"
  shows "\<exists>q \<le> t - f. int (rs n) mod (int t - int f + 1) = int q \<and>
    (if int q < (int t - int f + 1) div 2 then walk l (nxt l) q (Some (node l0 as f))
     else walk l (prv l) (nat (int t - int f - int q)) (Some (node l0 as t))) = Some (Some (node l0 as (f + q)))"
proof -
  define q where "q = rs n mod (t - f + 1)"
  have "q < t - f + 1" unfolding q_def by (rule mod_less_divisor) simp
  then have q: "q \<le> t - f" by simp
  have "int t - int f + 1 = int (t - f + 1)" using t(1) by simp
  then have "int (rs n) mod (int t - int f + 1) = int q" unfolding q_def by (simp only: zmod_int)
  moreover have "nat (int t - int f - int q) = t - f - q" by simp
  moreover have "t - (t - f - q) = f + q" using q t(1) by simp
  ultimately show ?thesis using view_walk [OF v t(2)] q t(1) by (intro exI [of _ q]) auto
qed

lemma quicksort_short:
  assumes ok: "comparator_ok c" "s = 1 \<or> s = -1" and v: "view l0 as l xs" and t: "f \<le> t" "t < length as"
    and short: "f = t \<or> int t - int f + 1 \<le> SIMCLIST_MINQUICKSORTELS"
  shows "quick_sorted rs c s l0 as f t l xs n"
proof -
  obtain l' xs' where sel: "list_sort_selectionsort c s (int f) (Some (node l0 as f)) (int t) (Some (node l0 as t)) l = Some l'"
    "view l0 as l' xs'" "permuted f t xs xs'" "ordered (may_precede c s) f t xs'" using selection_sorts [OF ok v t] by blast
  have "list_sort_quicksort rs c s (int f) (Some (node l0 as f)) (int t) (Some (node l0 as t)) l n = Some (l', n)"
    using short sel(1) t by (subst list_sort_quicksort.simps) (auto simp: list_sort_selectionsort_def)
  then show ?thesis using sel(2-4) unfolding quick_sorted_def by blast
qed

text \<open>One level of the recursion, given that the two calls sort what they are given.\<close>

lemma quicksort_level:
  assumes ok: "comparator_ok c" "s = 1 \<or> s = -1" and len: "length as < 2 ^ 31" and v: "view l0 as l xs"
    and t: "f < t" "t < length as" "\<not> int t - int f + 1 \<le> SIMCLIST_MINQUICKSORTELS"
    and IH: "\<And>f' t' l' xs' n'. t' - f' < t - f \<Longrightarrow> view l0 as l' xs' \<Longrightarrow> f' \<le> t' \<Longrightarrow> t' < length as \<Longrightarrow> quick_sorted rs c s l0 as f' t' l' xs' n'"
  shows "quick_sorted rs c s l0 as f t l xs n"
proof -
  let ?R = "may_precede c s"
  let ?qs = "list_sort_quicksort rs c s"
  obtain q where q: "q \<le> t - f" "int (rs n) mod (int t - int f + 1) = int q"
    "(if int q < (int t - int f + 1) div 2 then walk l (nxt l) q (Some (node l0 as f))
      else walk l (prv l) (nat (int t - int f - int q)) (Some (node l0 as t))) = Some (Some (node l0 as (f + q)))"
    using pivot_found [OF v t(1,2), of rs n] by (elim exE conjE) (rule that)
  have fq: "f \<le> f + q" "f + q \<le> t" using q(1) t(1) by simp_all
  obtain x where x: "sort_partition c s (Some (node l0 as f)) (Some (node l0 as t)) (node l0 as (f + q)) (int q) l = Some x"
    "partitioned c s l0 as f t xs (xs ! (f + q)) x"
    using partition_done [OF ok v fq t(2) len] unfolding add_diff_cancel_left' by blast
  obtain l1 pv i where xx: "x = (l1, pv, i)" by (cases x)
  obtain xs1 p where pv: "pv = node l0 as p" "i = int (p - f)" and v1: "view l0 as l1 xs1"
    and pt: "parted ?R f t xs (xs ! (f + q)) xs1 p p p"
    using x(2) unfolding partitioned_def xx prod.case by blast
  note part = x(1) [unfolded xx pv]
  have b: "f \<le> p" "p \<le> t" using pt by (simp_all add: parted_def)
  have "\<exists>l2 xs2 n2. (if int (p - f) > 0 then ?qs (int f) (Some (node l0 as f)) (int f + int (p - f) - 1) (prv l1 (node l0 as p)) l1 (n + 1)
        else Some (l1, n + 1)) = Some (l2, n2) \<and> view l0 as l2 xs2 \<and>
      (f < p \<longrightarrow> permuted f (p - 1) xs1 xs2 \<and> ordered ?R f (p - 1) xs2) \<and> (f = p \<longrightarrow> xs2 = xs1)"
  proof (cases "f < p")
    case True
    then obtain k where k: "p = Suc k" "f \<le> k" by (cases p) auto
    have "prv l1 (node l0 as p) = Some (node l0 as k)" using view_next(2) [OF v1, of k] k b t by simp
    moreover have "int f + int (p - f) - 1 = int k" using k by simp
    moreover have "quick_sorted rs c s l0 as f k l1 xs1 (n + 1)" using IH [OF _ v1, of k f] k b t by simp
    ultimately show ?thesis using True k(1) unfolding quick_sorted_def by auto
  next
    case False
    then show ?thesis using v1 b by (intro exI [of _ l1] exI [of _ xs1]) auto
  qed
  then obtain l2 xs2 n2 where l2: "(if int (p - f) > 0 then ?qs (int f) (Some (node l0 as f)) (int f + int (p - f) - 1) (prv l1 (node l0 as p)) l1 (n + 1)
        else Some (l1, n + 1)) = Some (l2, n2)" and v2: "view l0 as l2 xs2"
    and s2: "f < p \<Longrightarrow> permuted f (p - 1) xs1 xs2 \<and> ordered ?R f (p - 1) xs2" "f = p \<Longrightarrow> xs2 = xs1" by blast
  have "\<exists>l3 xs3 n3. (if int f + int (p - f) < int t then ?qs (int f + int (p - f) + 1) (nxt l2 (node l0 as p)) (int t) (Some (node l0 as t)) l2 n2
        else Some (l2, n2)) = Some (l3, n3) \<and> view l0 as l3 xs3 \<and>
      (p < t \<longrightarrow> permuted (Suc p) t xs2 xs3 \<and> ordered ?R (Suc p) t xs3) \<and> (p = t \<longrightarrow> xs3 = xs2)"
  proof (cases "p < t")
    case True
    have "nxt l2 (node l0 as p) = Some (node l0 as (Suc p))" using view_next(1) [OF v2, of p] t True by simp
    moreover have "int f + int (p - f) + 1 = int (Suc p)" "int f + int (p - f) < int t" using b True by simp_all
    moreover have "quick_sorted rs c s l0 as (Suc p) t l2 xs2 n2" using IH [OF _ v2, of t "Suc p"] b t True by simp
    ultimately show ?thesis using True unfolding quick_sorted_def by (auto simp: add.commute)
  next
    case False
    then show ?thesis using v2 b by (intro exI [of _ l2] exI [of _ xs2]) auto
  qed
  then obtain l3 xs3 n3 where l3: "(if int f + int (p - f) < int t then ?qs (int f + int (p - f) + 1) (nxt l2 (node l0 as p)) (int t)
        (Some (node l0 as t)) l2 n2 else Some (l2, n2)) = Some (l3, n3)" and v3: "view l0 as l3 xs3"
    and s3: "p < t \<Longrightarrow> permuted (Suc p) t xs2 xs3 \<and> ordered ?R (Suc p) t xs3" "p = t \<Longrightarrow> xs3 = xs2" by blast
  have dp: "deref l (Some (node l0 as (f + q))) = Some (node l0 as (f + q))" using view_live [OF v] fq t by simp
  have lt: "(int t \<le> int f) = False" "(int t - int f + 1 \<le> SIMCLIST_MINQUICKSORTELS) = False" using t by simp_all
  have run: "?qs (int f) (Some (node l0 as f)) (int t) (Some (node l0 as t)) l n = Some (l3, n3)"
    unfolding list_sort_quicksort.simps [of rs c s "int f" "Some (node l0 as f)" "int t" "Some (node l0 as t)" l n] lt if_False q(2) Let_def nat_int q(3) bind.bind_lunit option.case dp part prod.case l2 l3 ..
  have lx: "t < length xs1" using view_fields(5) [OF v1] t by simp
  have le: "\<And>k. f \<le> k \<Longrightarrow> k < p \<Longrightarrow> ?R (xs1 ! k) (xs1 ! p)" "\<And>k. p < k \<Longrightarrow> k \<le> t \<Longrightarrow> ?R (xs1 ! p) (xs1 ! k)" and pm: "permuted f t xs xs1"
    using pt by (simp_all add: parted_def)
  have "permuted f t xs1 xs3 \<and> ordered ?R f t xs3"
    by (rule ordered_join [of ?R f p t xs1 xs2 xs3, OF precede_trans [OF ok] b lx le s2 s3])
  then show ?thesis using run v3 permuted_trans [OF pm] unfolding quick_sorted_def by blast
qed

lemma quicksort_sorts:
  assumes ok: "comparator_ok c" "s = 1 \<or> s = -1" and len: "length as < 2 ^ 31"
  shows "view l0 as l xs \<Longrightarrow> f \<le> t \<Longrightarrow> t < length as \<Longrightarrow> quick_sorted rs c s l0 as f t l xs n"
proof (induction "t - f" arbitrary: f t l xs n rule: less_induct)
  case less
  show ?case
  proof (cases "f = t \<or> int t - int f + 1 \<le> SIMCLIST_MINQUICKSORTELS")
    case True
    then show ?thesis by (rule quicksort_short [OF ok less.prems])
  next
    case False
    then have "f < t" "\<not> int t - int f + 1 \<le> SIMCLIST_MINQUICKSORTELS" using less.prems(2) by simp_all
    then show ?thesis by (rule quicksort_level [OF ok len less.prems(1) _ less.prems(3)]) (rule less.hyps)
  qed
qed

section \<open>The sorted list\<close>

lemma view_holds: "view l0 as l xs \<Longrightarrow> rep l as \<and> contents l as = xs \<and> same_attributes l0 l"
proof -
  assume v: "view l0 as l xs"
  obtain d where d: "l = l0\<lparr>dat := d\<rparr>" "\<forall>i < length as. d (as ! i) = Some (xs ! i)" "\<forall>a. a \<notin> set as \<longrightarrow> d a = dat l0 a"
    using v by (auto simp: view_def)
  have r: "rep l0 as" "length xs = length as" using v by (simp_all add: view_def)
  have "head_sentinel l0 \<notin> set as" "tail_sentinel l0 \<notin> set as" using r(1) by (auto simp: rep_def cells_def)
  moreover have "\<forall>a \<in> set as. d a \<noteq> None" using d(2) by (auto simp: in_set_conv_nth)
  ultimately have "rep l as" using r(1) d(1,3) by (simp add: rep_def cells_def)
  moreover have "contents l as = xs" using d(1,2) r(2) by (intro nth_equalityI) (simp_all add: contents_def)
  ultimately show ?thesis using d(1) by (simp add: same_attributes_def)
qed

text \<open>
  C34. \<open>list_sort\<close> returns 0 and leaves a list of the same elements in order, whatever \<open>rand\<close> answers and for lists of either size: with \<open>versus\<close>
  1 each element's comparison with a later one is 0 or positive, with -1 it is 0 or negative. The loops end, no bad pointer is read, and the
  list is still well formed. The comparator must be one of a total order.
\<close>

theorem list_sort_sorts:
  assumes "holds l xs" "length xs < 2 ^ 31" "comparator l = Some c" "comparator_ok c" "versus = 1 \<or> versus = -1"
  shows "\<exists>l' ys n'. list_sort rs versus l n = Some (0, l', n') \<and> holds l' ys \<and> mset ys = mset xs \<and>
     sorted_wrt (\<lambda>x y. c x y * - versus \<le> 0) ys \<and> same_attributes l l'"
proof -
  obtain as where r: "rep l as" and xs: "contents l as = xs" using assms(1) by (auto simp: holds_def)
  have len: "length xs = length as" using xs by (auto simp: contents_def)
  have nl: "numels l = int (length as)" "\<not> iter_active l" using r by (simp_all add: rep_def)
  have s: "- versus = 1 \<or> - versus = -1" using assms(5) by auto
  have v: "view l as l xs" using view_start [OF r] xs by simp
  show ?thesis
  proof (cases "length as \<le> 1")
    case True
    then have "sorted_wrt (\<lambda>x y. c x y * - versus \<le> 0) xs" using len by (cases xs; cases "tl xs") auto
    then show ?thesis using True assms(1,3) nl by (auto simp: list_sort_def same_attributes_def)
  next
    case False
    define t where "t = length as - 1"
    have t: "t < length as" "numels l - 1 = int t" "length as = Suc t" using False nl by (auto simp: t_def)
    have ends: "deref l (Some (head_sentinel l)) = Some (head_sentinel l)" "deref l (Some (tail_sentinel l)) = Some (tail_sentinel l)"
      using r by (simp_all add: rep_def cells_def deref_def)
    have lk: "linked (nxt l) (prv l) (cells l as)" using r by (simp add: rep_def)
    have "nxt l (head_sentinel l) = Some (node l as 0)" using linked_nth [OF lk, of 0] False by (simp add: node_def cells_def)
    moreover have "prv l (tail_sentinel l) = Some (node l as t)"
      using linked_nth [OF lk, of "Suc t"] t by (simp add: node_def cells_def nth_append)
    moreover have "quick_sorted rs c (- versus) l as 0 t l xs n" using quicksort_sorts [OF assms(4) s _ v, of 0 t] assms(2) len t by simp
    ultimately obtain l' ys n' where run: "list_sort rs versus l n = Some (0, l', n')" and v': "view l as l' ys"
      and pm: "permuted 0 t xs ys" and od: "ordered (may_precede c (- versus)) 0 t ys"
      using False nl ends t(2) assms(3) unfolding quick_sorted_def by (auto simp: list_sort_def)
    have "sorted_wrt (\<lambda>x y. c x y * - versus \<le> 0) ys"
      using od t(3) view_fields(5) [OF v'] by (auto simp: sorted_wrt_iff_nth_less ordered_def may_precede_def)
    then show ?thesis using run view_holds [OF v'] pm unfolding holds_def permuted_def by blast
  qed
qed

section \<open>A list to sort\<close>

text \<open>The cells 1 to \<open>n\<close> in a row between the sentinels 0 and \<open>n + 1\<close>.\<close>

definition row :: "nat \<Rightarrow> ('a \<Rightarrow> 'a \<Rightarrow> int) \<Rightarrow> (nat \<Rightarrow> 'a) \<Rightarrow> ('a, nat) list_t" where
  "row n c d = \<lparr>head_sentinel = 0, tail_sentinel = Suc n, mid = (if n = 0 then None else Some (Suc ((n - 1) div 2))), numels = int n, spareels = [],
     iter_active = False, iter_pos = 0, iter_curentry = None, comparator = Some c, seeker = None, live = (\<lambda>a. a \<le> Suc n),
     nxt = (\<lambda>a. if a \<le> n then Some (Suc a) else None), prv = (\<lambda>a. if a = 0 then None else Some (a - 1)),
     dat = (\<lambda>a. if 0 < a \<and> a \<le> n then Some (d a) else None)\<rparr>"

lemma linked_upt: "b \<le> Suc n \<Longrightarrow> linked (\<lambda>a. if a \<le> n then Some (Suc a) else None) (\<lambda>a. if a = 0 then None else Some (a - 1)) [a..<Suc b]"
proof (induction b)
  case (Suc b)
  show ?case
  proof (cases "a \<le> b")
    case True
    then have "[a..<Suc (Suc b)] = [a..<b] @ [b, Suc b]" by simp
    moreover have "[a..<Suc b] = [a..<b] @ [b]" using True by simp
    ultimately show ?thesis using Suc by (simp add: linked_append)
  qed (cases "a = Suc b"; simp)
qed (cases "a = 0"; simp)

lemma row_cells: "cells (row n c d) [1..<Suc n] = [0..<Suc (Suc n)]"
  by (simp add: cells_def row_def upt_conv_Cons)

lemma row_rep: "rep (row n c d) [1..<Suc n]"
proof -
  have "n \<noteq> 0 \<Longrightarrow> [1..<Suc n] ! ((n - 1) div 2) = Suc ((n - 1) div 2)" by (subst nth_upt) auto
  moreover have "[1..<Suc n] = [] \<longleftrightarrow> n = 0" by simp
  ultimately have "mid (row n c d) = (if [1..<Suc n] = [] then None else Some ([1..<Suc n] ! ((length [1..<Suc n] - 1) div 2)))"
    by (cases "n = 0") (simp_all add: row_def del: upt_Suc)
  then show ?thesis
    unfolding rep_def row_cells using linked_upt [of "Suc n" n 0] by (auto simp: row_def simp del: upt_Suc)
qed

lemma row_holds: "holds (row n c d) (map d [1..<Suc n])"
proof -
  have "contents (row n c d) [1..<Suc n] = map d [1..<Suc n]" by (auto simp: contents_def row_def)
  then show ?thesis using row_rep unfolding holds_def by blast
qed

lemma number_comparator_ok: "comparator_ok number_comparator"
  by (auto simp: comparator_ok_def number_comparator_def)

text \<open>Thirty numbers, enough for a partition.\<close>

definition row0 :: "(nat, nat) list_t" where
  "row0 = row 30 number_comparator (\<lambda>i. 7 * i mod 31)"

theorem list_sort_sorts_witness:
  "\<exists>l' n'. list_sort (\<lambda>n. 5 * n + 3) 1 row0 0 = Some (0, l', n') \<and> holds l' [1..<31]"
proof -
  let ?xs = "map (\<lambda>i. 7 * i mod 31) [1..<Suc 30] :: nat list"
  have "comparator row0 = Some number_comparator" by (simp add: row0_def row_def)
  then obtain l' ys n' where run: "list_sort (\<lambda>n. 5 * n + 3) 1 row0 0 = Some (0, l', n')" "holds l' ys" "mset ys = mset ?xs"
    "sorted_wrt (\<lambda>x y. number_comparator x y * - 1 \<le> 0) ys"
    using list_sort_sorts [of row0 ?xs number_comparator 1 "\<lambda>n. 5 * n + 3" 0] row_holds [of 30 number_comparator "\<lambda>i. 7 * i mod 31"] number_comparator_ok
    unfolding row0_def [symmetric] by auto
  have "number_comparator x y * - 1 \<le> 0 \<longleftrightarrow> x \<le> y" for x y :: nat by (auto simp: number_comparator_def)
  then have "sorted ys" using run(4) by simp
  then have "sort ?xs = ys" using run(3) by (rule properties_for_sort [rotated])
  moreover have "sort ?xs = [1..<31]" by code_simp
  ultimately show ?thesis using run(1,2) by auto
qed

end
