(* ===== verification/SimcMoreSpec.thy ===== *)
theory SimcMoreSpec
  imports SimcMore SimcSortSpec
begin

text \<open>
  What the operations of \<open>SimcMore\<close> do to a list: ranges are cut out, clearing and destroying give back every cell once, the iterator visits
  all elements in order, a concatenation holds the elements of both lists, and the maximum is one.
\<close>

section \<open>Removal without the data\<close>

text \<open>As no list here copies its data, nothing differs.\<close>

lemma remove_is_delete: "list_drop_elem1 = list_drop_elem" "list_remove_at = list_delete_at" "list_remove = list_delete"
proof -
  show 1: "list_drop_elem1 = list_drop_elem" by (simp add: fun_eq_iff list_drop_elem1_def list_drop_elem_def)
  show 2: "list_remove_at = list_delete_at" by (simp add: fun_eq_iff list_remove_at_def list_delete_at_def 1)
  show "list_remove = list_delete" unfolding list_remove_def [abs_def] list_delete_def [abs_def] 2 ..
qed

section \<open>Cutting out cells\<close>

lemma linked_prefix: "linked n p (A @ B) \<Longrightarrow> linked n p A"
  by (induction A rule: induct_list012) auto

lemma linked_tail: "linked n p (x # B) \<Longrightarrow> linked n p B"
  by (cases B) auto

lemma linked_suffix: "linked n p (A @ B) \<Longrightarrow> linked n p B"
  by (induction A) (auto dest: linked_tail)

lemma cut_link:
  assumes "linked n p (A @ x # D @ y # B)" and "distinct (A @ x # D @ y # B)"
  shows "linked (n(x := Some y)) (p(y := Some x)) (A @ x # y # B)"
proof -
  have "linked n p ((A @ [x]) @ D @ y # B)" "linked n p ((A @ x # D) @ y # B)" using assms(1) by simp_all
  then have l: "linked n p (A @ [x])" "linked n p (y # B)" using linked_prefix linked_suffix by blast+
  have d: "x \<notin> set A" "y \<notin> set B" "x \<noteq> y" "y \<notin> set A" "x \<notin> set B" using assms(2) by auto
  have "linked (n(x := Some y)) (p(y := Some x)) (A @ [x])"
    using l(1) d by (subst linked_prv_other, simp, subst linked_nxt_last, simp_all)
  moreover have "linked (n(x := Some y)) (p(y := Some x)) (y # B)"
    using l(2) d by (subst linked_prv_first, simp, subst linked_nxt_other, simp_all)
  ultimately show ?thesis using linked_append [of _ _ A x y B] by simp
qed

text \<open>The cells \<open>D\<close> given back: to the spares while there is room, then to \<open>free\<close>.\<close>

definition dropped :: "nat list \<Rightarrow> ('a, 'k) list_t \<Rightarrow> ('a, 'k) list_t" where
  "dropped D l = l\<lparr>spareels := spareels l @ take (SIMCLIST_MAX_SPARE_ELEMS - length (spareels l)) D,
     live := (\<lambda>a. live l a \<and> a \<notin> set (drop (SIMCLIST_MAX_SPARE_ELEMS - length (spareels l)) D))\<rparr>"

lemma dropped_Nil [simp]: "dropped [] l = l"
  by (simp add: dropped_def)

lemma dropped_Cons: "dropped (a # D) l = dropped D (give_cell a l)"
proof (cases "length (spareels l) < SIMCLIST_MAX_SPARE_ELEMS")
  case True
  then have "SIMCLIST_MAX_SPARE_ELEMS - length (spareels l) = Suc (SIMCLIST_MAX_SPARE_ELEMS - Suc (length (spareels l)))" by simp
  then show ?thesis using True by (simp add: dropped_def give_cell_def)
next
  case False
  then show ?thesis by (auto simp: dropped_def give_cell_def fun_eq_iff)
qed

lemma dropped_fields [simp]: "nxt (dropped D l) = nxt l" "prv (dropped D l) = prv l" "dat (dropped D l) = dat l"
  "head_sentinel (dropped D l) = head_sentinel l" "tail_sentinel (dropped D l) = tail_sentinel l" "numels (dropped D l) = numels l"
  "mid (dropped D l) = mid l" "iter_active (dropped D l) = iter_active l" "comparator (dropped D l) = comparator l"
  "seeker (dropped D l) = seeker l"
  by (simp_all add: dropped_def)

lemma drop_cells_dropped:
  "linked (nxt l) p (D @ [y]) \<Longrightarrow> distinct D \<Longrightarrow> \<forall>a \<in> set D. live l a \<Longrightarrow>
     drop_cells (length D) l (Some (hd (D @ [y]))) = Some (dropped D l, Some y)"
proof (induction D arbitrary: l)
  case (Cons a D)
  have lk: "linked (nxt l) p (D @ [y])" and na: "nxt l a = Some (hd (D @ [y]))"
    using Cons.prems(1) by (cases D; simp)+
  have "nxt (give_cell a l) = nxt l" "\<forall>b \<in> set D. live (give_cell a l) b" using Cons.prems(2,3) by (auto simp: give_cell_def)
  then have "drop_cells (length D) (give_cell a l) (Some (hd (D @ [y]))) = Some (dropped D (give_cell a l), Some y)"
    using Cons.IH [of "give_cell a l"] lk Cons.prems(2) by simp
  then show ?case using na Cons.prems(3) by (simp add: dropped_Cons)
qed simp

definition middle :: "nat list \<Rightarrow> nat option" where
  "middle bs = (if bs = [] then None else Some (bs ! ((length bs - 1) div 2)))"

text \<open>The list without \<open>D\<close>, with the cells around linked up.\<close>

definition cut_out :: "nat list \<Rightarrow> nat list \<Rightarrow> nat list \<Rightarrow> ('a, 'k) list_t \<Rightarrow> ('a, 'k) list_t" where
  "cut_out A D B l = (let x = last (head_sentinel l # A); y = hd (B @ [tail_sentinel l]) in
     (set_prv y (Some x) (set_nxt x (Some y) (dropped D l)))\<lparr>numels := int (length (A @ B)), mid := middle (A @ B)\<rparr>)"

lemma cut_out_rep:
  assumes "rep l (A @ D @ B)"
  shows "rep (cut_out A D B l) (A @ B)" "contents (cut_out A D B l) (A @ B) = contents l A @ contents l B" "same_attributes l (cut_out A D B l)"
proof -
  define A' x where "A' = butlast (head_sentinel l # A)" and "x = last (head_sentinel l # A)"
  define y B' where "y = hd (B @ [tail_sentinel l])" and "B' = tl (B @ [tail_sentinel l])"
  let ?l = "cut_out A D B l"
  have ax: "head_sentinel l # A = A' @ [x]" unfolding A'_def x_def by (rule append_butlast_last_id [symmetric]) simp
  have yb: "B @ [tail_sentinel l] = y # B'" unfolding y_def B'_def by (cases B) simp_all
  have c: "cells l (A @ D @ B) = A' @ x # D @ y # B'" using ax yb by (simp add: cells_def)
  have c': "cells ?l (A @ B) = A' @ x # y # B'" using ax yb by (simp add: cells_def cut_out_def Let_def set_nxt_def set_prv_def)
  have ds: "distinct ((A' @ x # D @ y # B') @ spareels l)" and lk: "linked (nxt l) (prv l) (A' @ x # D @ y # B')"
    and lv: "\<forall>a \<in> set ((A' @ x # D @ y # B') @ spareels l). live l a" using assms by (simp_all add: rep_def c)
  have f: "nxt ?l = (nxt l)(x := Some y)" "prv ?l = (prv l)(y := Some x)" "dat ?l = dat l" "numels ?l = int (length (A @ B))"
    "mid ?l = middle (A @ B)" "iter_active ?l = iter_active l" "head_sentinel ?l = head_sentinel l" "tail_sentinel ?l = tail_sentinel l"
    "spareels ?l = spareels (dropped D l)" "live ?l = live (dropped D l)" "comparator ?l = comparator l" "seeker ?l = seeker l"
    by (simp_all add: cut_out_def Let_def set_nxt_def set_prv_def x_def y_def)
  define k where "k = SIMCLIST_MAX_SPARE_ELEMS - length (spareels l)"
  have sp: "spareels ?l = spareels l @ take k D" "live ?l = (\<lambda>a. live l a \<and> a \<notin> set (drop k D))"
    by (simp_all add: f dropped_def k_def)
  have td: "set (take k D) \<subseteq> set D" "set (drop k D) \<subseteq> set D" "set (take k D) \<inter> set (drop k D) = {}"
    using ds set_take_disj_set_drop_if_distinct [of D k k] by (auto dest: in_set_takeD in_set_dropD)
  have "distinct (cells ?l (A @ B) @ spareels ?l)" unfolding c' sp using ds td by auto
  moreover have "linked (nxt ?l) (prv ?l) (cells ?l (A @ B))" unfolding c' f using cut_link [OF lk] ds by (simp only: distinct_append)
  moreover have "\<forall>a \<in> set (cells ?l (A @ B) @ spareels ?l). live ?l a" unfolding c' sp using ds lv td by auto
  moreover have "\<forall>a \<in> set (A @ B). dat ?l a \<noteq> None" "dat ?l (head_sentinel ?l) = None" "dat ?l (tail_sentinel ?l) = None" "\<not> iter_active ?l"
    using assms by (auto simp: rep_def f)
  ultimately show "rep ?l (A @ B)" unfolding rep_def using f(4,5) by (simp add: middle_def)
  show "contents ?l (A @ B) = contents l A @ contents l B" by (simp add: contents_def f)
  show "same_attributes l ?l" by (simp add: same_attributes_def f)
qed

section \<open>Ranges\<close>

lemma walk_add: "walk l f (i + j) p = Option.bind (walk l f i p) (walk l f j)"
  by (induction i arbitrary: p) (simp_all add: bind_eq_None_conv split: Option.bind_split)

lemma wrap32_id: "0 \<le> x \<Longrightarrow> x < 2 ^ 32 \<Longrightarrow> wrap32 x = x"
  by (simp add: wrap32_def)

lemma int32_id: "- (2 ^ 31) \<le> x \<Longrightarrow> x < 2 ^ 31 \<Longrightarrow> int32 x = x"
  by (simp add: int32_def)

lemma int32_wrap: "2 ^ 31 \<le> x \<Longrightarrow> x < 2 ^ 32 \<Longrightarrow> int32 x = x - 2 ^ 32"
proof -
  assume x: "2 ^ 31 \<le> x" "x < 2 ^ 32"
  have "(x + 2 ^ 31) mod 2 ^ 32 = (x + 2 ^ 31 - 2 ^ 32) mod 2 ^ 32" by (rule minus_mod_self2 [symmetric])
  also have "\<dots> = x + 2 ^ 31 - 2 ^ 32" using x by (intro mod_pos_pos_trivial) auto
  finally show ?thesis by (simp add: int32_def)
qed

lemma mid_walk:
  assumes "rep l as" "as \<noteq> []" "q < length as" "m = (length as - 1) div 2"
  shows "m \<le> q \<Longrightarrow> walk l (nxt l) (q - m) (mid l) = Some (Some (as ! q))" "q \<le> m \<Longrightarrow> walk l (prv l) (m - q) (mid l) = Some (Some (as ! q))"
proof -
  have lk: "linked (nxt l) (prv l) (cells l as)" "\<forall>a \<in> set (cells l as). live l a" using assms(1) by (simp_all add: rep_def)
  have m: "m < length as" using assms(2,4) by (cases as) auto
  have c: "cells l as ! Suc i = as ! i" if "i < length as" for i using that by (simp add: cells_def nth_append)
  have md: "mid l = Some (cells l as ! Suc m)" using assms(1,2,4) c [OF m] by (simp add: rep_def)
  have len: "length (cells l as) = length as + 2" by (simp add: cells_def)
  show "walk l (nxt l) (q - m) (mid l) = Some (Some (as ! q))" if "m \<le> q"
    using walk_nxt [OF lk, of "Suc m" "q - m"] that assms(3) len c [OF assms(3)] unfolding md by simp
  show "walk l (prv l) (m - q) (mid l) = Some (Some (as ! q))" if "q \<le> m"
    using walk_prv [OF lk, of "Suc m" "m - q"] that m len c [OF assms(3)] unfolding md by (simp add: Suc_diff_le)
qed

lemma range_mid_cut:
  assumes "rep l (A @ D @ B)" "A @ B \<noteq> []" "length (A @ D @ B) < 2 ^ 31"
  shows "range_mid l (int (length A)) (int (length D)) = Some (l\<lparr>mid := middle (A @ B)\<rparr>)"
proof -
  let ?as = "A @ D @ B"
  define n d m m' q where "n = length ?as" and "d = length D" and "m = (length ?as - 1) div 2" and "m' = (length (A @ B) - 1) div 2"
    and "q = (if m' < length A then m' else m' + d)"
  have len: "n = length (A @ B) + d" "0 < length (A @ B)" "n < 2 ^ 31" using assms(2,3) by (simp_all add: n_def d_def)
  have m': "m' < length (A @ B)" using len(2) unfolding m'_def by linarith
  have q: "q < n" "(A @ B) ! m' = ?as ! q" using m' by (auto simp: q_def n_def d_def nth_append)
  have nn: "numels l = int n" using assms(1) by (simp add: rep_def n_def)
  have "int n - 1 - int d = int (length (A @ B) - 1)" using len(1,2) by (simp only: of_nat_add)
  then have e1: "wrap32 (numels l - 1 - int d) div 2 = int m'" using len wrap32_id [of "int (length (A @ B) - 1)"] unfolding nn m'_def by (simp add: zdiv_int)
  have e2: "wrap32 (int m' + int d) = int m' + int d" using m' len by (intro wrap32_id) auto
  have "0 < n" using len by linarith
  then have e3: "(numels l - 1) div 2 = int m" unfolding nn m_def n_def [symmetric] by (simp add: zdiv_int of_nat_diff)
  have mn: "m < n" using len unfolding m_def n_def [symmetric] by linarith
  have e4: "int32 (int q - int m) = int q - int m" using q(1) mn len(3) by (intro int32_id) auto
  have e5: "(if int m' < int (length A) then int m' else int m' + int d) = int q" by (simp add: q_def)
  have ne: "?as \<noteq> []" using assms(2) by auto
  have w: "m \<le> q \<Longrightarrow> walk l (nxt l) (q - m) (mid l) = Some (Some (?as ! q))" "q \<le> m \<Longrightarrow> walk l (prv l) (m - q) (mid l) = Some (Some (?as ! q))"
    using mid_walk [OF assms(1) ne q(1) [unfolded n_def] m_def] by blast+
  have mid: "middle (A @ B) = Some (?as ! q)" using q(2) assms(2) by (simp add: middle_def m'_def)
  have nq: "nat (int q - int m) = q - m" "nat (- (int q - int m)) = m - q" "int q - int m \<noteq> - (2 ^ 31)" using q(1) mn len(3) by auto
  show ?thesis
    unfolding range_mid_def d_def [symmetric] Let_def e1 e2 e3 e5 e4 mid nq
    using w nq(3) by (cases "m < q") simp_all
qed

lemma cells_nth_split:
  assumes "as = A @ d # D"
  shows "cells l as ! Suc (length A) = d" "cells l as ! length A = last (head_sentinel l # A)"
proof -
  show "cells l as ! Suc (length A) = d" by (simp add: cells_def assms nth_append)
  have "last (head_sentinel l # A) = (head_sentinel l # A) ! length A" by (subst last_conv_nth) simp_all
  then show "cells l as ! length A = last (head_sentinel l # A)" by (simp add: cells_def assms nth_append nth_Cons split: nat.split)
qed

lemma delete_range_cut:
  assumes r: "rep l (A @ D @ B)" and "D \<noteq> []" "A @ B \<noteq> []" "length (A @ D @ B) < 2 ^ 31"
  shows "list_delete_range l (int (length A)) (int (length A + length D) - 1) = Some (0, cut_out A D B l)"
proof -
  let ?as = "A @ D @ B"
  obtain d D' where D: "D = d # D'" using assms(2) by (cases D) auto
  define x where "x = last (head_sentinel l # A)"
  define y where "y = hd (B @ [tail_sentinel l])"
  have r': "rep l (A @ d # D' @ B)" using r D by simp
  have lk: "linked (nxt l) (prv l) (cells l ?as)" and lv: "\<forall>a \<in> set (cells l ?as). live l a" and nn: "numels l = int (length ?as)"
    and ds: "distinct (cells l ?as)" and ia: "\<not> iter_active l" using r by (simp_all add: rep_def)
  note sp = cells_nth_split [of ?as A d "D' @ B" l]
  have fp: "list_findpos l (int (length A)) = Some (Some d)"
    using findpos_cell [OF r, of "int (length A)"] sp nn D by (simp add: nat_add_distrib)
  have dd: "deref l (Some d) = Some d" using lv D by (simp add: deref_def cells_def)
  have pd: "prv l d = Some x" using linked_nth [OF lk, of "length A"] sp D by (simp add: cells_def x_def)
  have "cells l ?as = (head_sentinel l # A) @ (D @ [y]) @ tl (B @ [tail_sentinel l])" unfolding y_def cells_def by (cases B) simp_all
  then have ly: "linked (nxt l) (prv l) (D @ [y])" using lk linked_prefix linked_suffix by metis
  have dc: "drop_cells (length D) (l\<lparr>mid := middle (A @ B)\<rparr>) (Some d) = Some (dropped D (l\<lparr>mid := middle (A @ B)\<rparr>), Some y)"
    using drop_cells_dropped [of "l\<lparr>mid := middle (A @ B)\<rparr>" "prv l" D y] ly ds lv D by (simp add: cells_def)
  have xy: "x \<in> set (head_sentinel l # A)" "y \<in> set (B @ [tail_sentinel l])" unfolding x_def y_def by (rule last_in_set, simp) (rule hd_in_set, simp)
  then have nd: "x \<notin> set D" "y \<notin> set D" "live l x" "live l y" using ds lv by (auto simp: cells_def)
  let ?l1 = "dropped D (l\<lparr>mid := middle (A @ B)\<rparr>)"
  have lx: "live ?l1 x" "live ?l1 y" using nd by (auto simp: dropped_def dest: in_set_dropD)
  have df: "deref ?l1 (Some x) = Some x" "deref (set_nxt x (Some y) ?l1) (Some y) = Some y" using lx by (simp_all add: deref_def set_nxt_def)
  have rm: "range_mid l (int (length A)) (int (length D)) = Some (l\<lparr>mid := middle (A @ B)\<rparr>)" using range_mid_cut [OF r assms(3,4)] .
  have num: "int (length A + length D) - 1 - int (length A) + 1 = int (length D)" by simp
  have g: "\<not> int (length A + length D) - 1 < int (length A)" "\<not> int (length A + length D) - 1 \<ge> numels l" using D nn by simp_all
  have fin: "(set_prv y (Some x) (set_nxt x (Some y) ?l1))\<lparr>numels := numels l - int (length D)\<rparr> = cut_out A D B l"
    using nn by (simp add: cut_out_def Let_def dropped_def set_nxt_def set_prv_def x_def y_def)
  show ?thesis
    unfolding list_delete_range_def num
    using g ia fp dd pd rm dc df fin by (simp add: Let_def set_prv_def set_nxt_def)
qed

text \<open>All elements at once: the new middle of no elements is computed in \<open>unsigned\<close>, and the old one is moved over 2^30 cells back.\<close>

lemma range_mid_all:
  assumes "rep l as" "as \<noteq> []" "length as < 2 ^ 30" "prv l (head_sentinel l) = None"
  shows "range_mid l 0 (int (length as)) = None"
proof -
  define n m where "n = length as" and "m = (length as - 1) div 2"
  have n: "0 < n" "n < 2 ^ 30" using assms(2,3) by (auto simp: n_def)
  have nn: "numels l = int n" using assms(1) by (simp add: rep_def n_def)
  have e1: "wrap32 (numels l - 1 - int n) div 2 = 2 ^ 31 - 1" unfolding nn by (simp add: wrap32_def)
  have e2: "wrap32 (2 ^ 31 - 1 + int n) = 2 ^ 31 - 1 + int n" using n by (intro wrap32_id) auto
  have e3: "(numels l - 1) div 2 = int m" using n unfolding nn m_def n_def [symmetric] by (simp add: zdiv_int of_nat_diff)
  have mn: "m < n" using n unfolding m_def n_def [symmetric] by linarith
  have e4: "int32 (2 ^ 31 - 1 + int n - int m) = int n - int m - 1 - 2 ^ 31"
    using n mn int32_wrap [of "2 ^ 31 - 1 + int n - int m"] by simp
  have neg: "\<not> int n - int m - 1 - 2 ^ 31 > 0" using n by auto
  have c0: "cells l as ! 0 = head_sentinel l" by (simp add: cells_def)
  have lk: "linked (nxt l) (prv l) (cells l as)" "\<forall>a \<in> set (cells l as). live l a" using assms(1) by (simp_all add: rep_def)
  have md: "mid l = Some (cells l as ! Suc m)" using mid_cell [OF assms(1,2)] by (simp add: m_def)
  have rb: "walk l (prv l) (Suc m) (mid l) = Some (Some (head_sentinel l))"
    using walk_prv [OF lk, of "Suc m" "Suc m"] mn c0 unfolding md by (simp add: n_def cells_def)
  have lh: "live l (head_sentinel l)" using lk(2) by (simp add: cells_def)
  define N where "N = nat (- (int n - int m - 1 - 2 ^ 31))"
  have "Suc m + 2 \<le> N" unfolding N_def using n mn by (subst le_nat_iff) auto
  then obtain k where "N = Suc m + 2 + k" using le_Suc_ex by blast
  then have k: "N = Suc m + (Suc (Suc k))" by simp
  have "walk l (prv l) (Suc m + Suc (Suc k)) (mid l) = None"
    unfolding walk_add using rb lh assms(4) by (simp add: deref_def)
  then have w: "walk l (prv l) (nat (- (int n - int m - 1 - 2 ^ 31))) (mid l) = None" unfolding k [symmetric] N_def .
  have z: "\<not> (2 ^ 31 - 1 :: int) < 0" by simp
  show ?thesis
    unfolding range_mid_def n_def [symmetric] Let_def e1 if_not_P [OF z] e2 e3 e4 if_not_P [OF neg] w by simp
qed

lemma split_range:
  assumes "i \<le> j" "j < length as"
  obtains A D B where "as = A @ D @ B" "length A = i" "length D = Suc j - i" "A = take i as" "B = drop (Suc j) as"
proof -
  have "as = take i as @ take (Suc j - i) (drop i as) @ drop (Suc j) as"
    using assms append_take_drop_id [of "Suc j - i" "drop i as"] by simp
  then show ?thesis using that [of "take i as" "take (Suc j - i) (drop i as)" "drop (Suc j) as"] assms by simp
qed


section \<open>list_clear and list_destroy\<close>

lemma spare_loop:
  "linked (nxt l) p (D @ [tail_sentinel l]) \<Longrightarrow> distinct (D @ [tail_sentinel l]) \<Longrightarrow> \<forall>a \<in> set D. live l a \<Longrightarrow>
     rounds clear_spare_round (l, Some (hd (D @ [tail_sentinel l]))) =
       Some (l\<lparr>spareels := spareels l @ take (SIMCLIST_MAX_SPARE_ELEMS - length (spareels l)) D\<rparr>,
         Some (hd (drop (SIMCLIST_MAX_SPARE_ELEMS - length (spareels l)) D @ [tail_sentinel l])))"
proof (induction D arbitrary: l)
  case Nil
  then show ?case by (intro rounds_leave) (simp add: clear_spare_round_def)
next
  case (Cons a D)
  have lk: "linked (nxt l) p (D @ [tail_sentinel l])" and na: "nxt l a = Some (hd (D @ [tail_sentinel l]))"
    using Cons.prems(1) by (cases D; simp)+
  show ?case
  proof (cases "length (spareels l) < SIMCLIST_MAX_SPARE_ELEMS")
    case True
    let ?l = "l\<lparr>spareels := spareels l @ [a]\<rparr>"
    have k: "SIMCLIST_MAX_SPARE_ELEMS - length (spareels l) = Suc (SIMCLIST_MAX_SPARE_ELEMS - length (spareels ?l))" using True by simp
    have "clear_spare_round (l, Some (hd ((a # D) @ [tail_sentinel l]))) = Some (Inr (?l, Some (hd (D @ [tail_sentinel l]))))"
      using True na Cons.prems(2,3) by (simp add: clear_spare_round_def)
    from rounds_on [where body = clear_spare_round, OF this] show ?thesis using Cons.IH [of ?l] lk Cons.prems(2,3) unfolding k by simp
  next
    case False
    then show ?thesis by (intro rounds_leave) (simp add: clear_spare_round_def)
  qed
qed

lemma free_loop:
  "linked (nxt l) (prv l) (D @ [tail_sentinel l]) \<Longrightarrow> distinct (D @ [tail_sentinel l]) \<Longrightarrow> \<forall>a \<in> set (D @ [tail_sentinel l]). live l a \<Longrightarrow>
     rounds clear_free_round (l, Some (hd (D @ [tail_sentinel l]))) = Some (l\<lparr>live := (\<lambda>a. live l a \<and> a \<notin> set D)\<rparr>)"
proof (induction D arbitrary: l)
  case Nil
  then show ?case by (intro rounds_leave) (simp add: clear_free_round_def)
next
  case (Cons a D)
  define b where "b = hd (D @ [tail_sentinel l])"
  have lk: "linked (nxt l) (prv l) (D @ [tail_sentinel l])" and na: "nxt l a = Some b" "prv l b = Some a"
    using Cons.prems(1) unfolding b_def by (cases D; simp)+
  have "b \<in> set (D @ [tail_sentinel l])" unfolding b_def by (intro hd_in_set) simp
  then have lb: "live l b" using Cons.prems(3) by auto
  define l2 where "l2 = l\<lparr>live := (live l)(a := False)\<rparr>"
  have f: "nxt l2 = nxt l" "prv l2 = prv l" "tail_sentinel l2 = tail_sentinel l" by (simp_all add: l2_def)
  have lv: "\<forall>c \<in> set (D @ [tail_sentinel l]). live l2 c" using Cons.prems(2,3) by (auto simp: l2_def)
  have "clear_free_round (l, Some (hd ((a # D) @ [tail_sentinel l]))) = Some (Inr (l2, Some b))"
    using na lb Cons.prems(2,3) by (simp add: clear_free_round_def free_cell_def l2_def)
  moreover have "rounds clear_free_round (l2, Some b) = Some (l2\<lparr>live := (\<lambda>c. live l2 c \<and> c \<notin> set D)\<rparr>)"
    using Cons.IH [of l2] lk lv Cons.prems(2) unfolding b_def f by simp
  moreover have "l2\<lparr>live := (\<lambda>c. live l2 c \<and> c \<notin> set D)\<rparr> = l\<lparr>live := (\<lambda>c. live l c \<and> c \<notin> set (a # D))\<rparr>"
    by (auto simp: l2_def fun_eq_iff)
  ultimately show ?case using rounds_on [of clear_free_round "(l, Some (hd ((a # D) @ [tail_sentinel l])))" "(l2, Some b)"] by simp
qed

lemma clear_cut:
  assumes r: "rep l as"
  shows "list_clear l = Some (0, cut_out [] as [] l)"
proof -
  let ?t = "tail_sentinel l" and ?k = "SIMCLIST_MAX_SPARE_ELEMS - length (spareels l)"
  have lk: "linked (nxt l) (prv l) (head_sentinel l # as @ [?t])" and lv: "\<forall>a \<in> set (head_sentinel l # as @ [?t]). live l a"
    and ds: "distinct (head_sentinel l # as @ [?t])" and ia: "\<not> iter_active l" using r by (simp_all add: rep_def cells_def)
  have nh: "nxt l (head_sentinel l) = Some (hd (as @ [?t]))" and la: "linked (nxt l) (prv l) (as @ [?t])" using lk by (cases as; simp)+
  let ?l1 = "l\<lparr>spareels := spareels l @ take ?k as\<rparr>"
  have one: "rounds clear_spare_round (l, Some (hd (as @ [?t]))) = Some (?l1, Some (hd (drop ?k as @ [?t])))"
    using spare_loop [OF la] ds lv by simp
  have "linked (nxt l) (prv l) (drop ?k as @ [?t])" using la linked_suffix by (metis append_assoc append_take_drop_id)
  then have two: "rounds clear_free_round (?l1, Some (hd (drop ?k as @ [?t]))) = Some (dropped as l)"
    using free_loop [of ?l1 "drop ?k as"] ds lv by (auto simp: dropped_def dest: in_set_dropD)
  have t: "live (dropped as l) ?t" using lv ds by (auto simp: dropped_def dest: in_set_dropD)
  show ?thesis
    using ia lv nh one two t by (simp add: list_clear_def Let_def cut_out_def middle_def set_nxt_def set_prv_def)
qed

text \<open>A cleared list is an empty list that can be used again.\<close>

lemma list_clear_holds: "holds l xs \<Longrightarrow> \<exists>l'. list_clear l = Some (0, l') \<and> holds l' [] \<and> same_attributes l l'"
proof -
  assume "holds l xs"
  then obtain as where r: "rep l as" by (auto simp: holds_def)
  have "rep (cut_out [] as [] l) []" "same_attributes l (cut_out [] as [] l)" using cut_out_rep [of l "[]" as "[]"] r by simp_all
  moreover have "contents (cut_out [] as [] l) [] = []" by (simp add: contents_def)
  ultimately show ?thesis using clear_cut [OF r] unfolding holds_def by blast
qed

lemma free_all_live: "distinct as \<Longrightarrow> \<forall>a \<in> set as. live l a \<Longrightarrow> free_all as l = Some (l\<lparr>live := (\<lambda>a. live l a \<and> a \<notin> set as)\<rparr>)"
proof (induction as arbitrary: l)
  case (Cons a as)
  let ?l = "l\<lparr>live := (live l)(a := False)\<rparr>"
  have "\<forall>b \<in> set as. live ?l b" using Cons.prems by auto
  then have "free_all as ?l = Some (?l\<lparr>live := (\<lambda>c. live ?l c \<and> c \<notin> set as)\<rparr>)" using Cons.IH [of ?l] Cons.prems(1) by simp
  moreover have "(\<lambda>c. live ?l c \<and> c \<notin> set as) = (\<lambda>c. live l c \<and> c \<notin> set (a # as))" by auto
  ultimately show ?case using Cons.prems(2) by (simp add: free_cell_def)
qed simp

text \<open>
  C35. \<open>list_destroy\<close> gives back every cell of the list once: those of the elements, the spare ones and the two sentinels, and nothing else. So
  what the list had is not live afterwards, no cell is freed twice (that would be undefined), and no loop reads a freed cell.
\<close>

theorem list_destroy_frees:
  assumes "rep l as"
  shows "\<exists>l'. list_destroy l = Some l' \<and> live l' = (\<lambda>a. live l a \<and> a \<notin> set (cells l as @ spareels l))"
proof -
  let ?c = "cut_out [] as [] l"
  have r: "rep ?c []" using cut_out_rep(1) [of l "[]" as "[]"] assms by simp
  have f: "head_sentinel ?c = head_sentinel l" "tail_sentinel ?c = tail_sentinel l" "spareels ?c = spareels (dropped as l)" "live ?c = live (dropped as l)"
    by (simp_all add: cut_out_def Let_def set_nxt_def set_prv_def)
  have ds: "distinct ([head_sentinel l, tail_sentinel l] @ spareels ?c)" and lv: "\<forall>a \<in> set ([head_sentinel l, tail_sentinel l] @ spareels ?c). live ?c a"
    using r f(1,2) by (simp_all add: rep_def cells_def)
  have fa: "free_all (spareels ?c) ?c = Some (?c\<lparr>live := (\<lambda>a. live ?c a \<and> a \<notin> set (spareels ?c))\<rparr>)" using free_all_live ds lv by auto
  define k where "k = SIMCLIST_MAX_SPARE_ELEMS - length (spareels l)"
  have sp: "spareels ?c = spareels l @ take k as" "live ?c = (\<lambda>a. live l a \<and> a \<notin> set (drop k as))" unfolding f by (simp_all add: dropped_def k_def)
  have un: "set as = set (take k as) \<union> set (drop k as)" by (metis append_take_drop_id set_append)
  have "\<exists>l'. list_destroy l = Some l' \<and> live l' = (\<lambda>a. live ?c a \<and> a \<notin> set (spareels ?c) \<and> a \<noteq> head_sentinel l \<and> a \<noteq> tail_sentinel l)"
    using clear_cut [OF assms] fa ds lv f(1,2) by (auto simp: list_destroy_def free_cell_def fun_eq_iff)
  moreover have "(\<lambda>a. live ?c a \<and> a \<notin> set (spareels ?c) \<and> a \<noteq> head_sentinel l \<and> a \<noteq> tail_sentinel l) =
      (\<lambda>a. live l a \<and> a \<notin> set (cells l as @ spareels l))" unfolding sp cells_def using un by auto
  ultimately show ?thesis by simp
qed

section \<open>Iteration\<close>

text \<open>The loop of a client: while there is a next element, take it.\<close>

definition iter_round :: "('a, 'k) list_t \<times> 'a option list \<Rightarrow> (('a, 'k) list_t \<times> 'a option list + ('a, 'k) list_t \<times> 'a option list) option" where
  "iter_round = (\<lambda>(l, seen).
     if list_iterator_hasnext l then do { (d, l) \<leftarrow> list_iterator_next l; Some (Inr (l, seen @ [d])) } else Some (Inl (l, seen)))"

definition iterating :: "('a, 'k) list_t \<Rightarrow> nat list \<Rightarrow> nat \<Rightarrow> ('a, 'k) list_t" where
  "iterating l as i = l\<lparr>iter_active := True, iter_pos := int i, iter_curentry := Some (cells l as ! Suc i)\<rparr>"

lemma iterator_steps:
  assumes "rep l as" "i < length as"
  shows "list_iterator_next (iterating l as i) = Some (Some (contents l as ! i), iterating l as (Suc i))"
proof -
  have lk: "linked (nxt l) (prv l) (cells l as)" and lv: "\<forall>a \<in> set (cells l as). live l a" using assms(1) by (simp_all add: rep_def)
  have c: "cells l as ! Suc i = as ! i" "Suc (Suc i) < length (cells l as)" using assms(2) by (simp_all add: cells_def nth_append)
  have "live l (as ! i)" "dat l (as ! i) = Some (contents l as ! i)" using assms by (auto simp: rep_def cells_def contents_def)
  moreover have "nxt l (as ! i) = Some (cells l as ! Suc (Suc i))" using linked_nth [OF lk c(2)] c(1) by simp
  ultimately show ?thesis using c by (simp add: list_iterator_next_def iterating_def deref_def)
qed

text \<open>An iteration sees each element once, in order, and leaves the list as it was.\<close>

lemma iterator_visits_all:
  assumes "holds l xs"
  shows "\<exists>l1 l2. list_iterator_start l = Some (1, l1) \<and> rounds iter_round (l1, []) = Some (l2, map Some xs) \<and>
     fst (list_iterator_stop l2) = 1 \<and> holds (snd (list_iterator_stop l2)) xs"
proof -
  obtain as where r: "rep l as" and xs: "contents l as = xs" using assms by (auto simp: holds_def)
  have len: "length xs = length as" using xs by (auto simp: contents_def)
  have lk: "linked (nxt l) (prv l) (cells l as)" and lv: "live l (head_sentinel l)" and nn: "numels l = int (length as)" "\<not> iter_active l"
    using r by (simp_all add: rep_def cells_def)
  have "nxt l (head_sentinel l) = Some (cells l as ! 1)" using linked_nth [OF lk, of 0] by (simp add: cells_def)
  then have start: "list_iterator_start l = Some (1, iterating l as 0)" using lv nn(2) by (simp add: list_iterator_start_def iterating_def)
  have loop: "rounds iter_round (iterating l as i, map Some (take i xs)) = Some (iterating l as (length as), map Some xs)" if "i \<le> length as" for i
    using that
  proof (induction "length as - i" arbitrary: i)
    case 0
    then have i: "i = length as" by simp
    have "iter_round (iterating l as i, map Some (take i xs)) = Some (Inl (iterating l as (length as), map Some xs))"
      using nn(1) len i by (simp add: iter_round_def list_iterator_hasnext_def) (simp add: iterating_def)
    then show ?case by (rule rounds_leave)
  next
    case (Suc n)
    then have i: "i < length as" by simp
    have hn: "list_iterator_hasnext (iterating l as i)" using i nn(1) by (simp add: list_iterator_hasnext_def iterating_def)
    have "iter_round (iterating l as i, map Some (take i xs)) = Some (Inr (iterating l as (Suc i), map Some (take (Suc i) xs)))"
      using hn iterator_steps [OF r i] i len xs by (simp add: iter_round_def take_Suc_conv_app_nth)
    then have "rounds iter_round (iterating l as i, map Some (take i xs)) = rounds iter_round (iterating l as (Suc i), map Some (take (Suc i) xs))"
      by (rule rounds_on)
    then show ?case using Suc.hyps(1) [of "Suc i"] Suc.hyps(2) i by simp
  qed
  have stop: "list_iterator_stop (iterating l as (length as)) = (1, l\<lparr>iter_active := False, iter_pos := 0, iter_curentry := Some (cells l as ! Suc (length as))\<rparr>)"
    by (simp add: list_iterator_stop_def iterating_def)
  have "rep (snd (list_iterator_stop (iterating l as (length as)))) as" using r unfolding stop by (simp add: rep_def cells_def)
  moreover have "contents (snd (list_iterator_stop (iterating l as (length as)))) as = xs" unfolding stop xs [symmetric] by (simp add: contents_def)
  ultimately have h: "holds (snd (list_iterator_stop (iterating l as (length as)))) xs" unfolding holds_def by blast
  show ?thesis using start loop [of 0] h stop by (intro exI [of _ "iterating l as 0"] exI [of _ "iterating l as (length as)"]) simp
qed

text \<open>Behind the last element the next one is \<open>NULL\<close> once; then a null pointer is read.\<close>

lemma iterator_past_end:
  assumes "rep l as" "nxt l (tail_sentinel l) = None"
  shows "\<exists>l'. list_iterator_next (iterating l as (length as)) = Some (None, l') \<and> list_iterator_next l' = None"
proof -
  have "cells l as ! Suc (length as) = tail_sentinel l" by (simp add: cells_def)
  moreover have "live l (tail_sentinel l)" "dat l (tail_sentinel l) = None" using assms(1) by (simp_all add: rep_def cells_def)
  ultimately show ?thesis using assms(2) by (simp add: list_iterator_next_def iterating_def deref_def)
qed

section \<open>Minimum and maximum\<close>

lemma minmax_loop:
  assumes ok: "comparator_ok c" "v = 1 \<or> v = -1"
  shows "linked (nxt l) p (D @ [tail_sentinel l]) \<Longrightarrow> distinct (D @ [tail_sentinel l]) \<Longrightarrow> \<forall>a \<in> set D. live l a \<and> dat l a = Some (g a) \<Longrightarrow>
    \<exists>y. rounds (minmax_round l c v) (Some x, Some (hd (D @ [tail_sentinel l]))) = Some (Some y) \<and> y \<in> insert x (g ` set D) \<and>
      (\<forall>z \<in> insert x (g ` set D). may_precede c v y z)"
proof (induction D arbitrary: x)
  case Nil
  then show ?case using precede_refl [OF ok] by (subst rounds_leave) (auto simp: minmax_round_def)
next
  case (Cons a D)
  have lk: "linked (nxt l) p (D @ [tail_sentinel l])" and na: "nxt l a = Some (hd (D @ [tail_sentinel l]))"
    using Cons.prems(1) by (cases D; simp)+
  define x' where "x' = (if may_precede c v x (g a) then x else g a)"
  obtain y where y: "rounds (minmax_round l c v) (Some x', Some (hd (D @ [tail_sentinel l]))) = Some (Some y)" "y \<in> insert x' (g ` set D)"
    "\<forall>z \<in> insert x' (g ` set D). may_precede c v y z" using Cons.IH [of x'] lk Cons.prems(2,3) by auto
  have "minmax_round l c v (Some x, Some (hd ((a # D) @ [tail_sentinel l]))) = Some (Inr (Some x', Some (hd (D @ [tail_sentinel l]))))"
    using na Cons.prems(2,3) cmp_some [OF ok] precede_signs(2) [OF ok, of x "g a"] by (auto simp: minmax_round_def x'_def)
  then have run: "rounds (minmax_round l c v) (Some x, Some (hd ((a # D) @ [tail_sentinel l]))) = Some (Some y)"
    using y(1) rounds_on [of "minmax_round l c v"] by metis
  have "may_precede c v x' x" "may_precede c v x' (g a)" using precede_refl [OF ok] precede_total [OF ok] by (auto simp: x'_def)
  then have "may_precede c v y x" "may_precede c v y (g a)" using y(3) precede_trans [OF ok] by blast+
  moreover have "y \<in> insert x (g ` set (a # D))" using y(2) by (auto simp: x'_def split: if_splits)
  ultimately show ?case using run y(3) by auto
qed

text \<open>The extreme of a list that is not empty is one of its elements, and none lies beyond.\<close>

lemma minmax_extreme:
  assumes "holds l xs" "xs \<noteq> []" "comparator l = Some c" "comparator_ok c" "v = 1 \<or> v = -1"
  shows "\<exists>y \<in> set xs. list_get_minmax l v = Some (Some y) \<and> (\<forall>z \<in> set xs. may_precede c v y z)"
proof -
  obtain as where r: "rep l as" and xs: "contents l as = xs" using assms(1) by (auto simp: holds_def)
  obtain a D where as: "as = a # D" using xs assms(2) by (cases as) (auto simp: contents_def)
  define g where "g = (\<lambda>a. the (dat l a))"
  have g: "\<forall>b \<in> set as. live l b \<and> dat l b = Some (g b)" using r by (auto simp: rep_def cells_def g_def)
  have lk: "linked (nxt l) (prv l) (head_sentinel l # a # D @ [tail_sentinel l])" and ds: "distinct (D @ [tail_sentinel l])"
    and lh: "live l (head_sentinel l)" and n: "numels l \<noteq> 0" using r as by (auto simp: rep_def cells_def)
  have na: "nxt l (head_sentinel l) = Some a" "nxt l a = Some (hd (D @ [tail_sentinel l]))" "linked (nxt l) (prv l) (D @ [tail_sentinel l])"
    using lk by (cases D; simp)+
  have sx: "set xs = insert (g a) (g ` set D)" unfolding xs [symmetric] contents_def as g_def by simp
  obtain y where "rounds (minmax_round l c v) (Some (g a), Some (hd (D @ [tail_sentinel l]))) = Some (Some y)" "y \<in> set xs"
    "\<forall>z \<in> set xs. may_precede c v y z" using minmax_loop [OF assms(4,5) na(3) ds, of g "g a"] g as sx by auto
  then show ?thesis using assms(3) n lh na(1,2) g as by (auto simp: list_get_minmax_def)
qed

lemma max_min_found:
  assumes "holds l xs" "xs \<noteq> []" "comparator l = Some c" "comparator_ok c"
  shows "\<exists>y \<in> set xs. list_get_max l = Some (Some y) \<and> (\<forall>z \<in> set xs. c y z \<le> 0)"
    "\<exists>y \<in> set xs. list_get_min l = Some (Some y) \<and> (\<forall>z \<in> set xs. c y z \<ge> 0)"
  using minmax_extreme [OF assms, of 1] minmax_extreme [OF assms, of "-1"]
  by (simp_all add: list_get_max_def list_get_min_def may_precede_def)

section \<open>Concatenation\<close>

text \<open>The fields the copying leaves alone.\<close>

definition same_header :: "('a, 'k) list_t \<Rightarrow> ('a, 'k) list_t \<Rightarrow> bool" where
  "same_header l l' \<longleftrightarrow> head_sentinel l' = head_sentinel l \<and> tail_sentinel l' = tail_sentinel l \<and> numels l' = numels l \<and> spareels l' = spareels l \<and>
     iter_active l' = iter_active l \<and> mid l' = mid l \<and> comparator l' = comparator l \<and> seeker l' = seeker l"

lemma same_header_trans: "same_header a b \<Longrightarrow> same_header b c \<Longrightarrow> same_header a c"
  by (simp add: same_header_def)

lemma copy_loop:
  "linked (nxt src) p (D @ [tail_sentinel src]) \<Longrightarrow> tail_sentinel src \<notin> set D \<Longrightarrow> \<forall>a \<in> set D. live src a \<Longrightarrow> length cs = length D \<Longrightarrow>
   distinct (P @ el # cs) \<Longrightarrow> linked (nxt l) (prv l) (P @ [el]) \<Longrightarrow>
   \<exists>l'. rounds (copy_round src) (Some (hd (D @ [tail_sentinel src])), el, map Some cs @ ms, l) = Some (last (el # cs), ms, l') \<and>
     linked (nxt l') (prv l') (P @ el # cs) \<and> map (dat l') cs = map (dat src) D \<and> (\<forall>a. a \<notin> set cs \<longrightarrow> dat l' a = dat l a) \<and>
     live l' = (\<lambda>a. live l a \<or> a \<in> set cs) \<and> same_header l l'"
proof (induction D arbitrary: cs P el l)
  case Nil
  then show ?case by (subst rounds_leave) (auto simp: copy_round_def same_header_def)
next
  case (Cons a D)
  obtain c cs' where cs: "cs = c # cs'" "length cs' = length D" using Cons.prems(4) by (cases cs) auto
  have lk: "linked (nxt src) p (D @ [tail_sentinel src])" and na: "nxt src a = Some (hd (D @ [tail_sentinel src]))"
    using Cons.prems(1) by (cases D; simp)+
  define l1 where "l1 = set_dat c (dat src a) (set_prv c (Some el) (set_nxt el (Some c) (l\<lparr>live := (live l)(c := True)\<rparr>)))"
  have f: "nxt l1 = (nxt l)(el := Some c)" "prv l1 = (prv l)(c := Some el)" "dat l1 = (dat l)(c := dat src a)" "live l1 = (live l)(c := True)"
    "same_header l l1" by (simp_all add: l1_def set_dat_def set_prv_def set_nxt_def same_header_def)
  have d: "el \<notin> set P" "c \<notin> set P" "c \<noteq> el" using Cons.prems(5) cs(1) by auto
  have "linked (nxt l1) (prv l1) (P @ [el])" unfolding f using Cons.prems(6) d
    by (subst linked_nxt_last, simp, subst linked_prv_other, simp_all)
  then have "linked (nxt l1) (prv l1) ((P @ [el]) @ [c])" using linked_append [of "nxt l1" "prv l1" P el c "[]"] f by simp
  then obtain l' where l': "rounds (copy_round src) (Some (hd (D @ [tail_sentinel src])), c, map Some cs' @ ms, l1) = Some (last (c # cs'), ms, l')"
    "linked (nxt l') (prv l') (P @ el # c # cs')" "map (dat l') cs' = map (dat src) D" "\<forall>a. a \<notin> set cs' \<longrightarrow> dat l' a = dat l1 a"
    "live l' = (\<lambda>a. live l1 a \<or> a \<in> set cs')" "same_header l1 l'"
    using Cons.IH [OF lk _ _ cs(2), of "P @ [el]" c l1] Cons.prems(2,3,5) cs(1) by auto
  have "copy_round src (Some (hd ((a # D) @ [tail_sentinel src])), el, map Some cs @ ms, l) =
      Some (Inr (Some (hd (D @ [tail_sentinel src])), c, map Some cs' @ ms, l1))"
    using Cons.prems(2,3) na cs(1) by (simp add: copy_round_def Let_def l1_def)
  then have "rounds (copy_round src) (Some (hd ((a # D) @ [tail_sentinel src])), el, map Some cs @ ms, l) = Some (last (c # cs'), ms, l')"
    using l'(1) rounds_on [of "copy_round src"] by metis
  moreover have "c \<notin> set cs'" using Cons.prems(5) cs(1) by auto
  ultimately show ?case using l' f same_header_trans [OF f(5) l'(6)] cs(1) by (intro exI [of _ l']) auto
qed

text \<open>The distance from the last cell of the first list to the middle, as the code computes it.\<close>

lemma concat_mid:
  assumes "rep l as" "as \<noteq> []" "length as = a + b" "length as < 2 ^ 31"
  shows "(if sgn (int b - int a + 1) * (\<bar>int b - int a + 1\<bar> div 2) > 0
      then walk l (nxt l) (nat ((int b - int a + 1) div 2)) (Some (cells l as ! a))
      else if sgn (int b - int a) * (\<bar>int b - int a\<bar> div 2) < 0 then walk l (prv l) (nat (- (int b - int a) div 2)) (Some (cells l as ! a))
      else Some (Some (cells l as ! a))) = Some (middle as)"
proof -
  let ?m = "(length as - 1) div 2"
  have lk: "linked (nxt l) (prv l) (cells l as)" "\<forall>a \<in> set (cells l as). live l a" using assms(1) by (simp_all add: rep_def)
  have len: "length (cells l as) = a + b + 2" "0 < a + b" using assms(2,3) by (auto simp: cells_def)
  have m: "?m < length as" using assms(2) by (cases as) auto
  have md: "middle as = Some (cells l as ! Suc ?m)" using assms(2) m by (simp add: middle_def cells_def nth_append)
  consider "a + 1 \<le> b" | "a \<ge> b + 2" | "b = a" | "a = Suc b" by linarith
  then show ?thesis
  proof cases
    case 1
    obtain d where d: "b = a + 1 + d" using 1 le_Suc_ex by (metis add.commute)
    have "Suc ?m = a + (d + 2) div 2" unfolding assms(3) d by simp
    moreover have "nat ((int b - int a + 1) div 2) = (d + 2) div 2" unfolding d by (simp add: nat_div_distrib)
    moreover have "sgn (int b - int a + 1) * (\<bar>int b - int a + 1\<bar> div 2) > 0" unfolding d by simp
    ultimately show ?thesis using walk_nxt [OF lk, of a "(d + 2) div 2"] m len unfolding md by (simp add: assms(3))
  next
    case 2
    obtain d where d: "a = b + 2 + d" using 2 le_Suc_ex by (metis add.commute)
    have "Suc ?m = a - (d + 2) div 2" unfolding assms(3) d by simp
    moreover have "nat (- (int b - int a) div 2) = (d + 2) div 2" unfolding d by (simp add: nat_div_distrib)
    moreover have "\<not> sgn (int b - int a + 1) * (\<bar>int b - int a + 1\<bar> div 2) > 0" "sgn (int b - int a) * (\<bar>int b - int a\<bar> div 2) < 0" unfolding d by simp_all
    moreover have "(d + 2) div 2 \<le> a" unfolding d by simp
    ultimately show ?thesis using walk_prv [OF lk, of a "(d + 2) div 2"] len unfolding md by simp
  next
    case 3
    then have "Suc ?m = a" using assms(3) len by simp
    then show ?thesis unfolding md 3 by simp
  next
    case 4
    then have "Suc ?m = a" using assms(3) by simp
    then show ?thesis unfolding md 4 by simp
  qed
qed

text \<open>
  A concatenation holds the elements of both lists, whatever \<open>dest\<close> was before; the attributes are the default ones.
\<close>

lemma list_concat_holds:
  assumes "holds l1 xs" "holds l2 ys" "length xs + length ys < 2 ^ 31" "distinct (h # t # cs)" "length cs = length xs + length ys"
  shows "\<exists>l'. list_concat l1 l2 h t (map Some cs @ ms) dest = Some (0, l') \<and> holds l' (xs @ ys) \<and> comparator l' = None \<and> seeker l' = None"
proof -
  obtain as bs where r: "rep l1 as" "rep l2 bs" and cont: "contents l1 as = xs" "contents l2 bs = ys" using assms(1,2) by (auto simp: holds_def)
  have len: "length xs = length as" "length ys = length bs" using cont by (auto simp: contents_def)
  have n: "numels l1 = int (length as)" "numels l2 = int (length bs)" using r by (simp_all add: rep_def)
  define l0 where "l0 = (list_init h t dest)\<lparr>numels := wrap32 (numels l1 + numels l2)\<rparr>"
  have nl: "wrap32 (numels l1 + numels l2) = int (length as + length bs)" unfolding n using assms(3) len by (subst wrap32_id) auto
  have f0: "nxt l0 h = Some t" "head_sentinel l0 = h" "tail_sentinel l0 = t" "numels l0 = int (length as + length bs)" "spareels l0 = []"
    "\<not> iter_active l0" "comparator l0 = None" "seeker l0 = None" "dat l0 h = None" "dat l0 t = None" "live l0 h" "live l0 t"
    using assms(4) by (simp_all add: l0_def list_init_def nl)
  show ?thesis
  proof (cases "cs = []")
    case True
    then have "xs = []" "ys = []" "as = []" "bs = []" using assms(5) len by auto
    moreover have "rep l0 []" using assms(4) f0 calculation(3,4) by (auto simp: rep_def cells_def l0_def list_init_def nl)
    moreover have "contents l0 [] = []" by (simp add: contents_def)
    ultimately show ?thesis using f0(4,7,8) unfolding holds_def by (simp add: list_concat_def Let_def l0_def [symmetric]) blast
  next
    case False
    have ne: "numels l0 \<noteq> 0" using False assms(5) len f0(4) by (cases cs) auto
    define cs1 cs2 where "cs1 = take (length as) cs" and "cs2 = drop (length as) cs"
    have cs: "cs = cs1 @ cs2" "length cs1 = length as" "length cs2 = length bs" using assms(5) len by (simp_all add: cs1_def cs2_def)
    have lk1: "linked (nxt l1) (prv l1) (head_sentinel l1 # as @ [tail_sentinel l1])" "live l1 (head_sentinel l1)" "\<forall>a \<in> set as. live l1 a"
      "tail_sentinel l1 \<notin> set as" using r(1) by (simp_all add: rep_def cells_def)
    have lk2: "linked (nxt l2) (prv l2) (head_sentinel l2 # bs @ [tail_sentinel l2])" "live l2 (head_sentinel l2)" "\<forall>a \<in> set bs. live l2 a"
      "tail_sentinel l2 \<notin> set bs" using r(2) by (simp_all add: rep_def cells_def)
    have hd1: "nxt l1 (head_sentinel l1) = Some (hd (as @ [tail_sentinel l1]))" "linked (nxt l1) (prv l1) (as @ [tail_sentinel l1])"
      using lk1(1) by (cases as; simp)+
    have hd2: "nxt l2 (head_sentinel l2) = Some (hd (bs @ [tail_sentinel l2]))" "linked (nxt l2) (prv l2) (bs @ [tail_sentinel l2])"
      using lk2(1) by (cases bs; simp)+
    have ds: "distinct ([] @ h # cs1)" "distinct ((h # cs1) @ cs2)" using assms(4) cs(1) by auto
    obtain l3 where l3: "rounds (copy_round l1) (Some (hd (as @ [tail_sentinel l1])), h, map Some cs1 @ map Some cs2 @ ms, l0) =
        Some (last (h # cs1), map Some cs2 @ ms, l3)" "linked (nxt l3) (prv l3) (h # cs1)" "map (dat l3) cs1 = map (dat l1) as"
      "\<forall>a. a \<notin> set cs1 \<longrightarrow> dat l3 a = dat l0 a" "live l3 = (\<lambda>a. live l0 a \<or> a \<in> set cs1)" "same_header l0 l3"
      using copy_loop [OF hd1(2) lk1(4,3) cs(2) ds(1), of l0 "map Some cs2 @ ms"] by auto
    define el where "el = last (h # cs1)"
    define l3' where "l3' = l3\<lparr>mid := Some el\<rparr>"
    have split: "h # cs1 = butlast (h # cs1) @ [el]" unfolding el_def by (rule append_butlast_last_id [symmetric]) simp
    have "butlast (h # cs1) @ el # cs2 = (butlast (h # cs1) @ [el]) @ cs2" by simp
    also have "\<dots> = (h # cs1) @ cs2" unfolding split [symmetric] ..
    also have "\<dots> = h # cs" using cs(1) by simp
    finally have all: "butlast (h # cs1) @ el # cs2 = h # cs" .
    have lk3: "linked (nxt l3') (prv l3') (butlast (h # cs1) @ [el])" unfolding split [symmetric] using l3(2) by (simp add: l3'_def)
    have ds3: "distinct (butlast (h # cs1) @ el # cs2)" unfolding all using assms(4) by simp
    obtain l4 where l4: "rounds (copy_round l2) (Some (hd (bs @ [tail_sentinel l2])), el, map Some cs2 @ ms, l3') = Some (last (el # cs2), ms, l4)"
      "linked (nxt l4) (prv l4) (butlast (h # cs1) @ el # cs2)" "map (dat l4) cs2 = map (dat l2) bs"
      "\<forall>a. a \<notin> set cs2 \<longrightarrow> dat l4 a = dat l3' a" "live l4 = (\<lambda>a. live l3' a \<or> a \<in> set cs2)" "same_header l3' l4"
      using copy_loop [OF hd2(2) lk2(4,3) cs(3) ds3 lk3, of ms] by blast
    define z where "z = last (el # cs2)"
    have "z = last (h # cs)" unfolding z_def all [symmetric] by simp
    then have zz: "h # cs = butlast (h # cs) @ [z]" by (simp only: append_butlast_last_id [of "h # cs"] list.distinct not_False_eq_True)
    define l5 where "l5 = set_prv t (Some z) (set_nxt z (Some t) l4)"
    have tn: "t \<notin> set (h # cs)" using assms(4) by auto
    have h4: "same_header l0 (l4\<lparr>mid := mid l0\<rparr>)" "mid l4 = Some el" using l3(6) l4(6) by (simp_all add: same_header_def l3'_def)
    have f5: "nxt l5 = (nxt l4)(z := Some t)" "prv l5 = (prv l4)(t := Some z)" "dat l5 = dat l4" "live l5 = live l4"
      "same_header l4 l5" by (simp_all add: l5_def set_prv_def set_nxt_def same_header_def)
    have "distinct (butlast (h # cs) @ [z])" using assms(4) unfolding zz [symmetric] by simp
    moreover have "t \<notin> set (butlast (h # cs) @ [z])" using tn unfolding zz [symmetric] .
    moreover have "linked (nxt l4) (prv l4) (butlast (h # cs) @ [z])" using l4(2) unfolding zz [symmetric] all .
    ultimately have "linked (nxt l5) (prv l5) (butlast (h # cs) @ [z])" unfolding f5
      by (subst linked_prv_other, simp, subst linked_nxt_last, simp_all)
    then have "linked (nxt l5) (prv l5) ((butlast (h # cs) @ [z]) @ [t])"
      using linked_append [of "nxt l5" "prv l5" "butlast (h # cs)" z t "[]"] f5 by simp
    then have lk5: "linked (nxt l5) (prv l5) (h # cs @ [t])" unfolding zz [symmetric] by simp
    define l6 where "l6 = l5\<lparr>mid := middle cs\<rparr>"
    have f6: "head_sentinel l6 = h" "tail_sentinel l6 = t" "numels l6 = int (length cs)" "spareels l6 = []" "\<not> iter_active l6"
      "comparator l6 = None" "seeker l6 = None" "nxt l6 = nxt l5" "prv l6 = prv l5" "dat l6 = dat l4" "live l6 = live l4" "mid l6 = middle cs"
      using h4(1) f0 f5 assms(5) len by (simp_all add: l6_def same_header_def)
    have "map (dat l4) cs1 = map (dat l3) cs1" using l4(4) ds(2) by (auto simp: l3'_def)
    then have dcs: "map (dat l6) cs = map (dat l1) as @ map (dat l2) bs" unfolding f6 cs(1) using l3(3) l4(3) by simp
    have dn: "dat l6 h = None" "dat l6 t = None" unfolding f6 using l3(4) l4(4) f0 assms(4) cs(1) by (auto simp: l3'_def)
    have "map Some (xs @ ys) = map (dat l1) as @ map (dat l2) bs"
      using r unfolding cont [symmetric] contents_def by (auto simp: rep_def)
    then have ds6: "map (dat l6) cs = map Some (xs @ ys)" using dcs by simp
    then have "\<forall>x \<in> set (map (dat l6) cs). x \<noteq> None" by auto
    then have "\<forall>a \<in> set cs. dat l6 a \<noteq> None" by simp
    moreover have "\<forall>a \<in> set (h # cs @ [t]). live l6 a" unfolding f6 using l3(5) l4(5) f0 cs(1) by (auto simp: l3'_def)
    ultimately have r6: "rep l6 cs" using assms(4) lk5 f6 dn by (simp add: rep_def cells_def middle_def)
    have "contents l6 cs = map the (map (dat l6) cs)" by (simp add: contents_def)
    then have c6: "contents l6 cs = xs @ ys" unfolding ds6 by (simp add: comp_def)
    have ne6: "cs \<noteq> []" "length cs = length as + length bs" "length cs < 2 ^ 31" using False assms(3,5) len by simp_all
    have el6: "cells l6 cs ! length as = el"
    proof -
      have "cells l6 cs = (h # cs1) @ cs2 @ [t]" using f6 cs(1) by (simp add: cells_def)
      then have "cells l6 cs ! length as = (h # cs1) ! length as" using cs(2) by (simp only: nth_append) simp
      then show ?thesis unfolding el_def using last_conv_nth [of "h # cs1"] cs(2) by simp
    qed
    have w6: "walk l6 f k q = walk l5 f k q" for f k q by (induction k arbitrary: q) (simp_all add: l6_def deref_def split: option.split)
    have e: "int32 (numels l2 - numels l1) = int (length bs) - int (length as)" unfolding n using assms(3) len by (intro int32_id) auto
    have m5: "mid l5 = Some el" using h4(2) f5 by (simp add: same_header_def)
    note cm = concat_mid [OF r6 ne6, unfolded el6 w6 f6(8,9)]
    have mm: "map Some cs @ ms = map Some cs1 @ map Some cs2 @ ms" using cs(1) by simp
    have dd: "deref l1 (Some (head_sentinel l1)) = Some (head_sentinel l1)" "deref l2 (Some (head_sentinel l2)) = Some (head_sentinel l2)"
      using lk1(2) lk2(2) by simp_all
    have run: "list_concat l1 l2 h t (map Some cs @ ms) dest = Some (0, l6)"
      unfolding list_concat_def Let_def l0_def [symmetric] if_not_P [OF ne] dd bind.bind_lunit hd1(1) hd2(1) mm l3(1) [folded el_def] prod.case
        l3'_def [symmetric] l4(1) [folded z_def] l5_def [symmetric] e m5 cm l6_def [symmetric] ..
    show ?thesis using run r6 c6 f6(6,7) unfolding holds_def by blast
  qed
qed

section \<open>Runs\<close>


theorem list_destroy_frees_witness: "\<exists>l'. list_destroy row0 = Some l' \<and> (\<forall>a. \<not> live l' a)"
proof -
  have "rep row0 [1..<Suc 30]" unfolding row0_def by (rule row_rep)
  moreover have "live row0 a \<Longrightarrow> a \<in> set (cells row0 [1..<Suc 30])" for a unfolding row0_def row_cells by (simp add: row_def)
  ultimately show ?thesis using list_destroy_frees [of row0 "[1..<Suc 30]"] by auto
qed

end
