(* ===== verification/SimcDump.thy ===== *)
theory SimcDump
  imports SimcMoreSpec NetLayer
begin

text \<open>
  \<open>list_dump_*\<close> and \<open>list_restore_*\<close> of \<open>src/common/simclist.c\<close>: a list written to a file and read back. A file is its bytes and a
  position; the \<open>k\<close>-th system call on it is answered by \<open>io k\<close>: a failure, or how many bytes it moves at most. \<open>write\<close> is
  checked for failure only, \<open>read\<close> for the full length. Buffers are always given.
\<close>

section \<open>Files\<close>

record file_t =
  content :: bytes
  position :: nat
  calls :: nat

text \<open>A write behind the end leaves zeros between.\<close>

definition overwrite :: "nat \<Rightarrow> bytes \<Rightarrow> bytes \<Rightarrow> bytes" where
  "overwrite p bs c = (if bs = [] then c else take p (c @ replicate (p - length c) 0) @ bs @ drop (p + length bs) c)"

definition write_fd :: "(nat \<Rightarrow> int) \<Rightarrow> bytes \<Rightarrow> file_t \<Rightarrow> int \<times> file_t" where
  "write_fd io bs f = (let n = io (calls f); f = f\<lparr>calls := calls f + 1\<rparr>; done_bytes = take (nat n) bs in
     if n < 0 then (-1, f)
     else (int (length done_bytes), f\<lparr>content := overwrite (position f) done_bytes (content f), position := position f + length done_bytes\<rparr>))"

definition read_fd :: "(nat \<Rightarrow> int) \<Rightarrow> nat \<Rightarrow> file_t \<Rightarrow> bytes option \<times> file_t" where
  "read_fd io k f = (let n = io (calls f); f = f\<lparr>calls := calls f + 1\<rparr>; bs = take (min k (nat n)) (drop (position f) (content f)) in
     if n < 0 then (None, f) else (Some bs, f\<lparr>position := position f + length bs\<rparr>))"

definition lseek :: "(nat \<Rightarrow> int) \<Rightarrow> nat \<Rightarrow> file_t \<Rightarrow> int \<times> file_t" where
  "lseek io p f = (let n = io (calls f); f = f\<lparr>calls := calls f + 1\<rparr> in if n < 0 then (-1, f) else (int p, f\<lparr>position := p\<rparr>))"

text \<open>The macros: on a failure the function returns, with \<open>fail\<close>.\<close>

definition WRITE_ERRCHECK :: "(nat \<Rightarrow> int) \<Rightarrow> bytes \<Rightarrow> file_t \<Rightarrow> (file_t \<Rightarrow> 'r) \<Rightarrow> (file_t \<Rightarrow> 'r) \<Rightarrow> 'r" where
  "WRITE_ERRCHECK io bs f fail k = (let (r, f) = write_fd io bs f in if r < 0 then fail f else k f)"

definition READ_ERRCHECK :: "(nat \<Rightarrow> int) \<Rightarrow> nat \<Rightarrow> file_t \<Rightarrow> (file_t \<Rightarrow> 'r) \<Rightarrow> (bytes \<Rightarrow> file_t \<Rightarrow> 'r) \<Rightarrow> 'r" where
  "READ_ERRCHECK io n f fail k = (let (r, f) = read_fd io n f in case r of None \<Rightarrow> fail f | Some bs \<Rightarrow> if length bs \<noteq> n then fail f else k bs f)"

section \<open>Attributes\<close>

text \<open>
  \<open>meter\<close> gives the bytes of an element, as many as the meter function says; \<open>serializer\<close> the buffer with its length.
  \<open>unserializer\<close> and \<open>verbatim\<close> make the \<open>n\<close>-th element out of a buffer, with the size it has in memory. \<open>size_t_len\<close> is \<open>sizeof(size_t)\<close>.
\<close>

record 'a dump_attrs =
  hasher :: "('a option \<Rightarrow> int) option"
  meter :: "('a option \<Rightarrow> bytes) option"
  serializer :: "('a option \<Rightarrow> bytes) option"
  unserializer :: "(nat \<Rightarrow> bytes \<Rightarrow> 'a \<times> u32) option"
  verbatim :: "nat \<Rightarrow> bytes \<Rightarrow> 'a"
  size_t_len :: nat

definition SIMCLIST_DUMPFORMAT_VERSION :: u16 where "SIMCLIST_DUMPFORMAT_VERSION = 1"
definition SIMCLIST_DUMPFORMAT_HEADERLEN :: nat where "SIMCLIST_DUMPFORMAT_HEADERLEN = 30"
definition header_struct_len :: nat where "header_struct_len = 40"

definition be64 :: "u64 \<Rightarrow> bytes" where
  "be64 w = be32 (ucast (drop_bit 32 w)) @ be32 (ucast w)"

text \<open>\<open>sizeof(size_t)\<close> bytes from the address of a \<open>uint32_t\<close>: beyond four, other memory is read.\<close>

definition size_bytes :: "nat \<Rightarrow> u32 \<Rightarrow> bytes option" where
  "size_bytes n w = (if n \<le> 4 then Some (take n (NetLayer.le32 (uint w))) else None)"

section \<open>Dump\<close>

text \<open>
  A round of the loop over the elements: \<open>elemlen\<close> is their common length while one is assumed. When the assumption breaks, the loop starts
  again with lengths written before each element; the loop with a serializer then goes back in the file too, the one with a meter does not.
\<close>

definition dump_round :: "(nat \<Rightarrow> int) \<Rightarrow> nat \<Rightarrow> bool \<Rightarrow> ('a option \<Rightarrow> bytes) \<Rightarrow> ('a, 'k) list_t \<Rightarrow> nat option \<times> u32 \<times> u32 \<times> file_t \<Rightarrow>
    (int \<times> u32 \<times> u32 \<times> file_t + nat option \<times> u32 \<times> u32 \<times> file_t) option" where
  "dump_round io sz rewinds ser l = (\<lambda>(x, elemlen, totlistlen, f).
     if x = Some (tail_sentinel l) then Some (Inl (0, elemlen, totlistlen, f))
     else do {
       a \<leftarrow> deref l x;
       let buf = ser (dat l a);
       let bufsize = of_nat (length buf);
       let totlistlen = totlistlen + bufsize;
       if elemlen \<noteq> 0 then
         if elemlen \<noteq> bufsize then do {
           h \<leftarrow> deref l (Some (head_sentinel l));
           let (r, f) = (if rewinds then lseek io SIMCLIST_DUMPFORMAT_HEADERLEN f else (0, f));
           Some (if r < 0 then Inl (-1, 0, 0, f) else Inr (nxt l h, 0, 0, f))
         }
         else WRITE_ERRCHECK io buf f (\<lambda>f. Some (Inl (-1, elemlen, totlistlen, f))) (\<lambda>f. Some (Inr (nxt l a, elemlen, totlistlen, f)))
       else do {
         len \<leftarrow> size_bytes sz bufsize;
         WRITE_ERRCHECK io len f (\<lambda>f. Some (Inl (-1, elemlen, totlistlen, f)))
           (\<lambda>f. WRITE_ERRCHECK io buf f (\<lambda>f. Some (Inl (-1, elemlen, totlistlen, f))) (\<lambda>f. Some (Inr (nxt l a, elemlen, totlistlen, f))))
       }
     })"

definition dump_content :: "'a dump_attrs \<Rightarrow> (nat \<Rightarrow> int) \<Rightarrow> ('a, 'k) list_t \<Rightarrow> file_t \<Rightarrow> (int \<times> u32 \<times> u32 \<times> file_t) option" where
  "dump_content at io l f =
     (if numels l > 0 then do {
        h \<leftarrow> deref l (Some (head_sentinel l));
        a \<leftarrow> deref l (nxt l h);
        case (serializer at, meter at) of
          (Some ser, _) \<Rightarrow> rounds (dump_round io (size_t_len at) True ser l) (Some a, of_nat (length (ser (dat l a))), 0, f)
        | (None, Some m) \<Rightarrow> rounds (dump_round io (size_t_len at) False m l) (Some a, of_nat (length (m (dat l a))), 0, f)
        | (None, None) \<Rightarrow> Some (0, 0, 0, f)
      }
      else Some (0, 0, 0, f))"

text \<open>\<open>stamp\<close> is the time, \<open>rnd\<close> the random terminator, \<open>junk\<close> what the header's hash holds at first. The length reported is of the C structure.\<close>

definition list_dump_filedescriptor :: "'a dump_attrs \<Rightarrow> (nat \<Rightarrow> int) \<Rightarrow> u64 \<Rightarrow> u32 \<Rightarrow> int \<Rightarrow> ('a, 'k) list_t \<Rightarrow> file_t \<Rightarrow> (int \<times> nat \<times> file_t) option" where
  "list_dump_filedescriptor at io stamp rnd junk l f =
     (if meter at = None \<and> serializer at = None then Some (-1, 0, f)
      else do {
        (r, hash) \<leftarrow> (case hasher at of Some g \<Rightarrow> map_option (\<lambda>(r, v). (r, NetLayer.le32 v)) (list_hash (Some g) l junk) | None \<Rightarrow> Some (0, be32 0));
        if r \<noteq> 0 then Some (-1, 0, f)
        else let (r, f) = lseek io SIMCLIST_DUMPFORMAT_HEADERLEN f in
          if r < 0 then Some (-1, 0, f)
          else do {
            (r, elemlen, totlistlen, f) \<leftarrow> dump_content at io l f;
            if r < 0 then Some (-1, 0, f)
            else
              WRITE_ERRCHECK io (be32 rnd) f (\<lambda>f. Some (-1, 0, f)) (\<lambda>f.
              let (r, f) = lseek io 0 f in
              WRITE_ERRCHECK io (be16 SIMCLIST_DUMPFORMAT_VERSION) f (\<lambda>f. Some (-1, 0, f)) (\<lambda>f.
              WRITE_ERRCHECK io (be64 stamp) f (\<lambda>f. Some (-1, 0, f)) (\<lambda>f.
              WRITE_ERRCHECK io (be32 rnd) f (\<lambda>f. Some (-1, 0, f)) (\<lambda>f.
              WRITE_ERRCHECK io (be32 totlistlen) f (\<lambda>f. Some (-1, 0, f)) (\<lambda>f.
              WRITE_ERRCHECK io (be32 (word_of_int (numels l))) f (\<lambda>f. Some (-1, 0, f)) (\<lambda>f.
              WRITE_ERRCHECK io (be32 elemlen) f (\<lambda>f. Some (-1, 0, f)) (\<lambda>f.
              WRITE_ERRCHECK io hash f (\<lambda>f. Some (-1, 0, f)) (\<lambda>f.
              Some (0, header_struct_len + unat totlistlen, f)))))))))
          }
      })"

section \<open>Restore\<close>

text \<open>The elements still to come: each is read, behind its length if they differ, and appended; \<open>ms\<close> are the answers of \<open>malloc\<close> for cells.\<close>

fun restore_elems :: "(nat \<Rightarrow> int) \<Rightarrow> (nat \<Rightarrow> bytes \<Rightarrow> 'a \<times> u32) \<Rightarrow> u32 \<Rightarrow> nat \<Rightarrow> nat \<Rightarrow> nat option list \<Rightarrow> ('a, 'k) list_t \<times> u32 \<times> u32 \<times> file_t \<Rightarrow>
    (int \<times> ('a, 'k) list_t \<times> u32 \<times> u32 \<times> file_t) option" where
  "restore_elems io new elemlen 0 cnt ms (l, totread, totmem, f) = Some (0, l, totread, totmem, f)"
| "restore_elems io new elemlen (Suc k) cnt ms (l, totread, totmem, f) =
     (let go = (\<lambda>elsize f. READ_ERRCHECK io (unat (elsize :: u32)) f (\<lambda>f. Some (-1, l, totread, totmem, f)) (\<lambda>buf f. do {
        let (d, size) = new cnt buf;
        (r, l) \<leftarrow> list_append (case ms of [] \<Rightarrow> None | m # _ \<Rightarrow> m) l d;
        restore_elems io new elemlen k (cnt + 1) (tl ms) (l, totread + elsize, totmem + size, f)
      }))
      in if elemlen \<noteq> 0 then go elemlen f
         else READ_ERRCHECK io 4 f (\<lambda>f. Some (-1, l, totread, totmem, f)) (\<lambda>bs f. go (of_nat (le_value bs)) f))"

definition list_restore_filedescriptor :: "'a dump_attrs \<Rightarrow> (nat \<Rightarrow> int) \<Rightarrow> nat option list \<Rightarrow> ('a, 'k) list_t \<Rightarrow> file_t \<Rightarrow>
    (int \<times> u32 \<times> ('a, 'k) list_t \<times> file_t) option" where
  "list_restore_filedescriptor at io ms l f =
     (let fail = (\<lambda>f. Some (-1, 0, l, f)) in
      READ_ERRCHECK io 2 f fail (\<lambda>ver f.
      if of_nat (be_val ver) \<noteq> SIMCLIST_DUMPFORMAT_VERSION then fail f
      else
        READ_ERRCHECK io 8 f fail (\<lambda>stamp f.
        READ_ERRCHECK io 4 f fail (\<lambda>rndterm f.
        READ_ERRCHECK io 4 f fail (\<lambda>totlistlen f.
        READ_ERRCHECK io 4 f fail (\<lambda>num f.
        READ_ERRCHECK io 4 f fail (\<lambda>elemlen f.
        READ_ERRCHECK io 4 f fail (\<lambda>listhash f. do {
          let new = (case unserializer at of Some u \<Rightarrow> u | None \<Rightarrow> (\<lambda>n buf. (verbatim at n buf, of_nat (length buf))));
          (r, l, totread, totmem, f) \<leftarrow> restore_elems io new (of_nat (be_val elemlen)) (be_val num) 0 ms (l, 0, 0, f);
          if r < 0 then Some (-1, 0, l, f)
          else READ_ERRCHECK io 4 f (\<lambda>f. Some (-1, 0, l, f)) (\<lambda>term f.
            if totread \<noteq> of_nat (be_val totlistlen) \<and> be_val term = be_val rndterm then Some (-1, 0, l, f)
            else if position f \<noteq> length (content f) then Some (-1, 0, l, f\<lparr>position := length (content f)\<rparr>)
            else Some (0, totmem, l, f))
        }))))))))"

section \<open>Files by name\<close>

text \<open>\<open>opened\<close> says whether \<open>open\<close> gives a descriptor; it cuts the file to nothing for a dump.\<close>

definition list_dump_file :: "'a dump_attrs \<Rightarrow> (nat \<Rightarrow> int) \<Rightarrow> u64 \<Rightarrow> u32 \<Rightarrow> int \<Rightarrow> ('a, 'k) list_t \<Rightarrow> bool \<Rightarrow> bytes \<Rightarrow> (int \<times> nat \<times> bytes) option" where
  "list_dump_file at io stamp rnd junk l opened old =
     (if \<not> opened then Some (-1, 0, old)
      else map_option (\<lambda>(r, n, f). (r, n, content f))
        (list_dump_filedescriptor at io stamp rnd junk l \<lparr>content = [], position = 0, calls = 0\<rparr>))"

definition list_restore_file :: "'a dump_attrs \<Rightarrow> (nat \<Rightarrow> int) \<Rightarrow> nat option list \<Rightarrow> ('a, 'k) list_t \<Rightarrow> bool \<Rightarrow> bytes \<Rightarrow> (int \<times> u32 \<times> ('a, 'k) list_t) option" where
  "list_restore_file at io ms l opened bs =
     (if \<not> opened then Some (-1, 0, l)
      else map_option (\<lambda>(r, n, l, f). (r, n, l)) (list_restore_filedescriptor at io ms l \<lparr>content = bs, position = 0, calls = 0\<rparr>))"

section \<open>Information\<close>

record dump_info =
  version :: u16
  timestamp :: u64
  list_size :: u32
  list_numels :: u32
  list_hash_value :: u32
  consistent :: bool

text \<open>The elements are skipped, not read: without a common length the lengths before them are not counted, as \<open>elemlen\<close> is 0 then.\<close>

definition list_dump_getinfo_filedescriptor :: "(nat \<Rightarrow> int) \<Rightarrow> file_t \<Rightarrow> int \<times> dump_info option \<times> file_t" where
  "list_dump_getinfo_filedescriptor io f =
     (let fail = (\<lambda>f. (-1, None, f)) in
      READ_ERRCHECK io 2 f fail (\<lambda>ver f.
      if SIMCLIST_DUMPFORMAT_VERSION < of_nat (be_val ver) then fail f
      else
        READ_ERRCHECK io 8 f fail (\<lambda>stamp f.
        READ_ERRCHECK io 4 f fail (\<lambda>head_term f.
        READ_ERRCHECK io 4 f fail (\<lambda>size_field f.
        READ_ERRCHECK io 4 f fail (\<lambda>num f.
        READ_ERRCHECK io 4 f fail (\<lambda>elemlen f.
        READ_ERRCHECK io 4 f fail (\<lambda>listhash f.
        let size = of_nat (be_val size_field) :: u32; len = of_nat (be_val elemlen) :: u32; n = of_nat (be_val num) :: u32;
            hop = (if len > 0 then size else size + len * n);
            (r, f) = lseek io (position f + unat hop) f in
        if r = -1 then fail f
        else READ_ERRCHECK io 4 f fail (\<lambda>tail_term f.
          (0, Some \<lparr>version = of_nat (be_val ver), timestamp = of_nat (be_val stamp), list_size = size, list_numels = n,
             list_hash_value = of_nat (be_val listhash), consistent = (be_val head_term = be_val tail_term)\<rparr>, f))))))))))"

end
