(* ===== verification/SimcDumpSpec.thy ===== *)
theory SimcDumpSpec
  imports SimcDump SimcSpec
begin

text \<open>
  A list that is dumped to a file is read back by \<open>list_restore_file\<close> when its elements have one length, or where \<open>size_t\<close> has four bytes.
\<close>

section \<open>Calls that succeed\<close>

definition full :: "(nat \<Rightarrow> int) \<Rightarrow> bool" where
  "full io \<longleftrightarrow> (\<forall>k. 2 ^ 32 \<le> io k)"

definition wrote :: "bytes \<Rightarrow> file_t \<Rightarrow> file_t" where
  "wrote bs f = f\<lparr>calls := calls f + 1, content := overwrite (position f) bs (content f), position := position f + length bs\<rparr>"

definition moved :: "nat \<Rightarrow> file_t \<Rightarrow> file_t" where
  "moved n f = f\<lparr>calls := calls f + 1, position := position f + n\<rparr>"

definition sought :: "nat \<Rightarrow> file_t \<Rightarrow> file_t" where
  "sought p f = f\<lparr>calls := calls f + 1, position := p\<rparr>"

definition ahead :: "file_t \<Rightarrow> bytes" where
  "ahead f = drop (position f) (content f)"

lemma full_call:
  assumes "full io"
  shows "\<not> io k < 0" "n < 2 ^ 32 \<Longrightarrow> n \<le> nat (io k)"
proof -
  have "2 ^ 32 \<le> io k" using assms by (simp add: full_def)
  then show "\<not> io k < 0" "n < 2 ^ 32 \<Longrightarrow> n \<le> nat (io k)" by auto
qed

lemma write_full: "full io \<Longrightarrow> length bs < 2 ^ 32 \<Longrightarrow> WRITE_ERRCHECK io bs f fail k = k (wrote bs f)"
  using full_call(1) [of io "calls f"] full_call(2) [of io "length bs" "calls f"] by (simp add: WRITE_ERRCHECK_def write_fd_def wrote_def Let_def)

lemma seek_full: "full io \<Longrightarrow> lseek io p f = (int p, sought p f)"
  using full_call(1) [of io "calls f"] by (simp add: lseek_def sought_def Let_def)

lemma read_full:
  assumes "full io" "ahead f = a @ rest" "length a = n" "n < 2 ^ 32"
  shows "READ_ERRCHECK io n f fail k = k a (moved n f)" "ahead (moved n f) = rest" "content (moved n f) = content f"
proof -
  have "min n (nat (io (calls f))) = n" using full_call(2) [OF assms(1,4), of "calls f"] by simp
  moreover have "take n (drop (position f) (content f)) = a" using assms(2,3) by (simp add: ahead_def)
  ultimately show "READ_ERRCHECK io n f fail k = k a (moved n f)"
    using full_call(1) [OF assms(1)] assms(3) by (simp add: READ_ERRCHECK_def read_fd_def moved_def Let_def)
  have "ahead (moved n f) = drop n (ahead f)" by (simp add: ahead_def moved_def add.commute)
  then show "ahead (moved n f) = rest" using assms(2,3) by simp
  show "content (moved n f) = content f" by (simp add: moved_def)
qed

section \<open>Bytes written one after the other\<close>

lemma overwrite_append: "overwrite (p + length a) b (overwrite p a c) = overwrite p (a @ b) c"
  by (cases "p \<le> length c") (auto simp: overwrite_def add_ac min_def)

lemma overwrite_longer: "length a \<le> length b \<Longrightarrow> overwrite p b (overwrite p a c) = overwrite p b c"
  by (cases "p \<le> length c") (auto simp: overwrite_def add_ac min_def)

definition written :: "nat \<Rightarrow> bytes \<Rightarrow> bytes \<Rightarrow> file_t \<Rightarrow> bool" where
  "written p c w f \<longleftrightarrow> content f = overwrite p w c \<and> position f = p + length w"

lemma written_wrote: "written p c w f \<Longrightarrow> written p c (w @ bs) (wrote bs f)"
  by (simp add: written_def wrote_def overwrite_append)

section \<open>The loop of the dump\<close>

definition entry :: "bytes \<Rightarrow> bytes" where
  "entry buf = NetLayer.le32 (uint (of_nat (length buf) :: u32)) @ buf"

lemma of_nat_u32: "k < 2 ^ 32 \<Longrightarrow> unat (of_nat k :: u32) = k"
  by (simp add: unsigned_of_nat take_bit_nat_eq_self)

lemma of_nat_u32_eq: "j < 2 ^ 32 \<Longrightarrow> k < 2 ^ 32 \<Longrightarrow> (of_nat j :: u32) = of_nat k \<longleftrightarrow> j = k"
  using of_nat_u32 by metis

lemma dump_same_length:
  assumes io: "full io" and k: "k \<noteq> 0" "k < 2 ^ 32"
  shows "linked (nxt l) p (D @ [tail_sentinel l]) \<Longrightarrow> tail_sentinel l \<notin> set D \<Longrightarrow> \<forall>a \<in> set D. live l a \<and> length (ser (dat l a)) = k \<Longrightarrow>
    written q c w f \<Longrightarrow>
    \<exists>f'. rounds (dump_round io sz rw ser l) (Some (hd (D @ [tail_sentinel l])), of_nat k, tot, f) =
      Some (0, of_nat k, tot + of_nat (length (concat (map (\<lambda>a. ser (dat l a)) D))), f') \<and> written q c (w @ concat (map (\<lambda>a. ser (dat l a)) D)) f'"
proof (induction D arbitrary: tot w f)
  case Nil
  then show ?case by (subst rounds_leave) (auto simp: dump_round_def)
next
  case (Cons a D)
  let ?b = "ser (dat l a)"
  have lk: "linked (nxt l) p (D @ [tail_sentinel l])" and na: "nxt l a = Some (hd (D @ [tail_sentinel l]))"
    using Cons.prems(1) by (cases D; simp)+
  have b: "length ?b = k" "live l a" "a \<noteq> tail_sentinel l" using Cons.prems(2,3) by auto
  have kw: "(of_nat k :: u32) \<noteq> 0" using of_nat_u32_eq [of k 0] k by simp
  have "dump_round io sz rw ser l (Some (hd ((a # D) @ [tail_sentinel l])), of_nat k, tot, f) =
      Some (Inr (Some (hd (D @ [tail_sentinel l])), of_nat k, tot + of_nat k, wrote ?b f))"
    using b na kw k(2) by (simp add: dump_round_def Let_def write_full [OF io])
  then have r: "rounds (dump_round io sz rw ser l) (Some (hd ((a # D) @ [tail_sentinel l])), of_nat k, tot, f) =
      rounds (dump_round io sz rw ser l) (Some (hd (D @ [tail_sentinel l])), of_nat k, tot + of_nat k, wrote ?b f)" by (rule rounds_on)
  show ?case unfolding r using Cons.IH [OF lk _ _ written_wrote [OF Cons.prems(4), of ?b], of "tot + of_nat k"] Cons.prems(2,3) b(1)
    by (simp add: add.assoc)
qed

lemma dump_entries:
  assumes io: "full io" and sz: "sz = 4"
  shows "linked (nxt l) p (D @ [tail_sentinel l]) \<Longrightarrow> tail_sentinel l \<notin> set D \<Longrightarrow> \<forall>a \<in> set D. live l a \<and> length (ser (dat l a)) < 2 ^ 32 \<Longrightarrow>
    written q c w f \<Longrightarrow>
    \<exists>f'. rounds (dump_round io sz rw ser l) (Some (hd (D @ [tail_sentinel l])), 0, tot, f) =
      Some (0, 0, tot + of_nat (length (concat (map (\<lambda>a. ser (dat l a)) D))), f') \<and> written q c (w @ concat (map (\<lambda>a. entry (ser (dat l a))) D)) f'"
proof (induction D arbitrary: tot w f)
  case Nil
  then show ?case by (subst rounds_leave) (auto simp: dump_round_def)
next
  case (Cons a D)
  let ?b = "ser (dat l a)"
  let ?h = "NetLayer.le32 (uint (of_nat (length ?b) :: u32))"
  have lk: "linked (nxt l) p (D @ [tail_sentinel l])" and na: "nxt l a = Some (hd (D @ [tail_sentinel l]))"
    using Cons.prems(1) by (cases D; simp)+
  have b: "length ?b < 2 ^ 32" "live l a" "a \<noteq> tail_sentinel l" using Cons.prems(2,3) by auto
  have "dump_round io sz rw ser l (Some (hd ((a # D) @ [tail_sentinel l])), 0, tot, f) =
      Some (Inr (Some (hd (D @ [tail_sentinel l])), 0, tot + of_nat (length ?b), wrote ?b (wrote ?h f)))"
    using b na by (simp add: dump_round_def Let_def size_bytes_def sz write_full [OF io])
  then have r: "rounds (dump_round io sz rw ser l) (Some (hd ((a # D) @ [tail_sentinel l])), 0, tot, f) =
      rounds (dump_round io sz rw ser l) (Some (hd (D @ [tail_sentinel l])), 0, tot + of_nat (length ?b), wrote ?b (wrote ?h f))" by (rule rounds_on)
  show ?case unfolding r
    using Cons.IH [OF lk _ _ written_wrote [OF written_wrote [OF Cons.prems(4), of ?h], of ?b], of "tot + of_nat (length ?b)"] Cons.prems(2,3)
    by (simp add: add.assoc entry_def)
qed

text \<open>Elements of one length before one of another: the loop begins again, back in the file.\<close>

lemma dump_restart:
  assumes io: "full io" and k: "k \<noteq> 0" "k < 2 ^ 32" and h: "live l (head_sentinel l)"
  shows "linked (nxt l) p (D @ b # E @ [tail_sentinel l]) \<Longrightarrow> tail_sentinel l \<notin> set (D @ [b]) \<Longrightarrow> \<forall>a \<in> set D. live l a \<and> length (ser (dat l a)) = k \<Longrightarrow>
    live l b \<Longrightarrow> length (ser (dat l b)) \<noteq> k \<Longrightarrow> length (ser (dat l b)) < 2 ^ 32 \<Longrightarrow> written q c w f \<Longrightarrow>
    \<exists>f'. rounds (dump_round io sz True ser l) (Some (hd (D @ [b])), of_nat k, tot, f) =
      rounds (dump_round io sz True ser l) (nxt l (head_sentinel l), 0, 0, f') \<and> content f' = overwrite q (w @ concat (map (\<lambda>a. ser (dat l a)) D)) c \<and>
      position f' = SIMCLIST_DUMPFORMAT_HEADERLEN"
proof (induction D arbitrary: tot w f)
  case Nil
  have "(of_nat k :: u32) \<noteq> 0" "(of_nat k :: u32) \<noteq> of_nat (length (ser (dat l b)))"
    using of_nat_u32_eq [of k 0] of_nat_u32_eq [of k "length (ser (dat l b))"] k Nil.prems(5,6) by simp_all
  then have "dump_round io sz True ser l (Some b, of_nat k, tot, f) = Some (Inr (nxt l (head_sentinel l), 0, 0, sought SIMCLIST_DUMPFORMAT_HEADERLEN f))"
    using Nil.prems(2,4) h seek_full [OF io] by (simp add: dump_round_def Let_def)
  from rounds_on [where body = "dump_round io sz True ser l", OF this] show ?case using Nil.prems(7) by (auto simp: written_def sought_def)
next
  case (Cons a D)
  let ?b = "ser (dat l a)"
  have lk: "linked (nxt l) p (D @ b # E @ [tail_sentinel l])" and na: "nxt l a = Some (hd (D @ [b]))"
    using Cons.prems(1) by (cases D; simp)+
  have b: "length ?b = k" "live l a" "a \<noteq> tail_sentinel l" using Cons.prems(2,3) by auto
  have kw: "(of_nat k :: u32) \<noteq> 0" using of_nat_u32_eq [of k 0] k by simp
  have "dump_round io sz True ser l (Some (hd ((a # D) @ [b])), of_nat k, tot, f) = Some (Inr (Some (hd (D @ [b])), of_nat k, tot + of_nat k, wrote ?b f))"
    using b na kw k(2) by (simp add: dump_round_def Let_def write_full [OF io])
  then have r: "rounds (dump_round io sz True ser l) (Some (hd ((a # D) @ [b])), of_nat k, tot, f) =
      rounds (dump_round io sz True ser l) (Some (hd (D @ [b])), of_nat k, tot + of_nat k, wrote ?b f)" by (rule rounds_on)
  show ?case unfolding r using Cons.IH [OF lk _ _ _ _ _ written_wrote [OF Cons.prems(7), of ?b], of "tot + of_nat k"] Cons.prems(2-6)
    by (simp add: append_assoc)
qed

definition coded :: "u32 \<Rightarrow> bytes \<Rightarrow> bytes" where
  "coded elemlen b = (if elemlen \<noteq> 0 then b else entry b)"

lemma length_concat_mono: "(\<And>x. x \<in> set xs \<Longrightarrow> length (g x) \<le> length (h x)) \<Longrightarrow> length (concat (map g xs)) \<le> length (concat (map h xs))"
  by (induction xs) (auto intro: add_mono)

text \<open>The elements in the file, behind the place of the header.\<close>

lemma dump_content_written:
  assumes io: "full io" and r: "rep l as" and ser: "serializer at = Some ser" and small: "\<forall>x \<in> set (contents l as). length (ser (Some x)) < 2 ^ 32"
    and sz: "size_t_len at = 4 \<or> (\<exists>k > 0. \<forall>x \<in> set (contents l as). length (ser (Some x)) = k)"
    and f: "content f = []" "position f = SIMCLIST_DUMPFORMAT_HEADERLEN" and bufs: "bufs = map (\<lambda>x. ser (Some x)) (contents l as)"
  shows "\<exists>f' el. dump_content at io l f = Some (0, el, of_nat (length (concat bufs)), f') \<and>
    written SIMCLIST_DUMPFORMAT_HEADERLEN [] (concat (map (coded el) bufs)) f' \<and> (el \<noteq> 0 \<longrightarrow> (\<forall>b \<in> set bufs. length b = unat el))"
proof (cases as)
  case Nil
  then have "dump_content at io l f = Some (0, 0, 0, f)" using r by (simp add: dump_content_def rep_def)
  then show ?thesis using Nil f bufs by (simp add: contents_def written_def overwrite_def)
next
  case (Cons a D)
  define g where "g = (\<lambda>a. ser (dat l a))"
  have lk: "linked (nxt l) (prv l) (head_sentinel l # as @ [tail_sentinel l])" and lv: "live l (head_sentinel l)" "\<forall>a \<in> set as. live l a"
    and tn: "tail_sentinel l \<notin> set as" and nn: "numels l > 0" using r Cons by (simp_all add: rep_def cells_def)
  have hd: "nxt l (head_sentinel l) = Some (hd (as @ [tail_sentinel l]))" "hd (as @ [tail_sentinel l]) = a" "linked (nxt l) (prv l) (as @ [tail_sentinel l])"
    using lk Cons by simp_all
  have bg: "bufs = map g as" using r unfolding bufs contents_def g_def by (auto simp: rep_def)
  have all: "(\<forall>x \<in> set (contents l as). P (ser (Some x))) \<longleftrightarrow> (\<forall>b \<in> set as. P (g b))" for P :: "bytes \<Rightarrow> bool"
  proof -
    have "(\<forall>x \<in> set (contents l as). P (ser (Some x))) \<longleftrightarrow> (\<forall>b \<in> set bufs. P b)" unfolding bufs by simp
    then show ?thesis unfolding bg by simp
  qed
  have sm: "\<forall>a \<in> set as. length (g a) < 2 ^ 32" using small all [of "\<lambda>b. length b < 2 ^ 32"] by simp
  have szg: "size_t_len at = 4 \<or> (\<exists>k > 0. \<forall>b \<in> set as. length (g b) = k)" using sz all [of "\<lambda>b. length b = k" for k] by simp
  let ?k = "length (g a)"
  have start: "dump_content at io l f = rounds (dump_round io (size_t_len at) True ser l) (Some a, of_nat ?k, 0, f)"
    using nn lv Cons hd by (simp add: dump_content_def ser g_def)
  have w0: "written SIMCLIST_DUMPFORMAT_HEADERLEN [] [] f" using f by (simp add: written_def overwrite_def)
  have k32: "?k < 2 ^ 32" using sm Cons by simp
  have entries: "\<exists>f'. rounds (dump_round io (size_t_len at) True ser l) (Some a, 0, 0, f1) = Some (0, 0, of_nat (length (concat bufs)), f') \<and>
      written SIMCLIST_DUMPFORMAT_HEADERLEN [] (concat (map (coded 0) bufs)) f'"
    if s4: "size_t_len at = 4" and w1: "written SIMCLIST_DUMPFORMAT_HEADERLEN c [] f1" and le: "c = overwrite SIMCLIST_DUMPFORMAT_HEADERLEN d []"
      "length d \<le> length (concat (map (coded 0) bufs))" for f1 c d
  proof -
    have "\<forall>a \<in> set as. live l a \<and> length (ser (dat l a)) < 2 ^ 32" using lv(2) sm by (simp add: g_def)
    from dump_entries [OF io s4 hd(3) tn this w1, of True 0]
    have "\<exists>f'. rounds (dump_round io (size_t_len at) True ser l) (Some a, 0, 0, f1) = Some (0, 0, of_nat (length (concat bufs)), f') \<and>
        written SIMCLIST_DUMPFORMAT_HEADERLEN c (concat (map (coded 0) bufs)) f'"
      using hd(2) by (simp add: bg g_def coded_def comp_def)
    then show ?thesis using overwrite_longer [OF le(2)] unfolding written_def le(1) by auto
  qed
  show ?thesis
  proof (cases "?k = 0")
    case True
    then have "size_t_len at = 4" using szg Cons by auto
    then show ?thesis using entries [OF _ w0, of "[]"] start True by (auto simp: overwrite_def)
  next
    case k0: False
    have ku: "(of_nat ?k :: u32) \<noteq> 0" using of_nat_u32_eq [of ?k 0] k0 k32 by simp
    show ?thesis
    proof (cases "\<forall>b \<in> set as. length (g b) = ?k")
      case True
      then have "\<forall>b \<in> set as. live l b \<and> length (ser (dat l b)) = ?k" using lv(2) by (simp add: g_def)
      from dump_same_length [OF io k0 k32 hd(3) tn this w0, of "size_t_len at" True 0]
      have "\<exists>f'. rounds (dump_round io (size_t_len at) True ser l) (Some a, of_nat ?k, 0, f) = Some (0, of_nat ?k, of_nat (length (concat bufs)), f') \<and>
          written SIMCLIST_DUMPFORMAT_HEADERLEN [] (concat (map (coded (of_nat ?k)) bufs)) f'"
        using hd(2) ku by (simp add: bg g_def coded_def [abs_def])
      moreover have "\<forall>b \<in> set bufs. length b = unat (of_nat ?k :: u32)" using True of_nat_u32 [OF k32] by (simp add: bg)
      ultimately show ?thesis unfolding start by blast
    next
      case False
      then have s4: "size_t_len at = 4" using szg Cons by auto
      obtain P b E where sp: "as = P @ b # E" "length (g b) \<noteq> ?k" "\<forall>c \<in> set P. length (g c) = ?k"
        using False split_list_first_prop [of as "\<lambda>b. length (g b) \<noteq> ?k"] by auto
      have lkp: "linked (nxt l) (prv l) (P @ b # E @ [tail_sentinel l])" using hd(3) sp(1) by simp
      have hp: "hd (P @ [b]) = a" using hd(2) sp(1) by (cases P) simp_all
      obtain f1 where f1: "rounds (dump_round io (size_t_len at) True ser l) (Some a, of_nat ?k, 0, f) =
          rounds (dump_round io (size_t_len at) True ser l) (nxt l (head_sentinel l), 0, 0, f1)"
        "content f1 = overwrite SIMCLIST_DUMPFORMAT_HEADERLEN (concat (map g P)) []" "position f1 = SIMCLIST_DUMPFORMAT_HEADERLEN"
        using dump_restart [OF io k0 k32 lv(1) lkp, of ser SIMCLIST_DUMPFORMAT_HEADERLEN "[]" "[]" f "size_t_len at" 0] tn lv(2) sp sm w0 hp
        by (auto simp: g_def)
      have "length (concat (map g P)) \<le> length (concat (map (\<lambda>a. entry (g a)) P))" by (rule length_concat_mono) (simp add: entry_def)
      also have "\<dots> \<le> length (concat (map (coded 0) bufs))" by (simp add: bg sp(1) coded_def comp_def)
      finally have le: "length (concat (map g P)) \<le> length (concat (map (coded 0) bufs))" .
      have "written SIMCLIST_DUMPFORMAT_HEADERLEN (content f1) [] f1" using f1(3) by (simp add: written_def overwrite_def)
      from entries [OF s4 this f1(2) le] obtain f' where
        "rounds (dump_round io (size_t_len at) True ser l) (Some a, 0, 0, f1) = Some (0, 0, of_nat (length (concat bufs)), f')"
        "written SIMCLIST_DUMPFORMAT_HEADERLEN [] (concat (map (coded 0) bufs)) f'" by blast
      then show ?thesis using start f1(1) hd(1,2) by (intro exI [of _ f'] exI [of _ 0]) simp
    qed
  qed
qed

section \<open>The file\<close>

definition dump_header :: "u64 \<Rightarrow> u32 \<Rightarrow> u32 \<Rightarrow> u32 \<Rightarrow> u32 \<Rightarrow> bytes" where
  "dump_header stamp rnd tot n el = be16 SIMCLIST_DUMPFORMAT_VERSION @ be64 stamp @ be32 rnd @ be32 tot @ be32 n @ be32 el @ be32 0"

lemma length_be64 [simp]: "length (be64 w) = 8"
  by (simp add: be64_def)

lemma length_dump_header: "length (dump_header stamp rnd tot n el) = SIMCLIST_DUMPFORMAT_HEADERLEN"
  by (simp add: dump_header_def SIMCLIST_DUMPFORMAT_HEADERLEN_def)

lemma dump_file_written:
  assumes io: "full io" and r: "rep l as" and ser: "serializer at = Some ser" "hasher at = None"
    and small: "\<forall>x \<in> set (contents l as). length (ser (Some x)) < 2 ^ 32"
    and sz: "size_t_len at = 4 \<or> (\<exists>k > 0. \<forall>x \<in> set (contents l as). length (ser (Some x)) = k)"
    and bufs: "bufs = map (\<lambda>x. ser (Some x)) (contents l as)"
  shows "\<exists>el n. list_dump_file at io stamp rnd junk l True old =
      Some (0, n, dump_header stamp rnd (of_nat (length (concat bufs))) (of_nat (length as)) el @ concat (map (coded el) bufs) @ be32 rnd) \<and>
    (el \<noteq> 0 \<longrightarrow> (\<forall>b \<in> set bufs. length b = unat el))"
proof -
  define f where "f = sought SIMCLIST_DUMPFORMAT_HEADERLEN \<lparr>content = [], position = 0, calls = 0\<rparr>"
  have f: "content f = []" "position f = SIMCLIST_DUMPFORMAT_HEADERLEN" by (simp_all add: f_def sought_def)
  obtain f1 el where d: "dump_content at io l f = Some (0, el, of_nat (length (concat bufs)), f1)"
    "written SIMCLIST_DUMPFORMAT_HEADERLEN [] (concat (map (coded el) bufs)) f1" "el \<noteq> 0 \<longrightarrow> (\<forall>b \<in> set bufs. length b = unat el)"
    using dump_content_written [OF io r ser(1) small sz f bufs] by blast
  let ?data = "concat (map (coded el) bufs) @ be32 rnd" and ?tot = "of_nat (length (concat bufs)) :: u32"
  define f2 where "f2 = sought 0 (wrote (be32 rnd) f1)"
  have "content (wrote (be32 rnd) f1) = overwrite SIMCLIST_DUMPFORMAT_HEADERLEN ?data []"
    using written_wrote [OF d(2), of "be32 rnd"] by (simp add: written_def)
  then have c2: "content f2 = replicate SIMCLIST_DUMPFORMAT_HEADERLEN 0 @ ?data" by (simp add: f2_def sought_def overwrite_def be32_def)
  have w2: "written 0 (content f2) [] f2" by (simp add: f2_def written_def overwrite_def sought_def)
  define f3 where "f3 = wrote (be32 0) (wrote (be32 el) (wrote (be32 (word_of_int (numels l))) (wrote (be32 ?tot) (wrote (be32 rnd)
    (wrote (be64 stamp) (wrote (be16 SIMCLIST_DUMPFORMAT_VERSION) f2))))))"
  have nl: "word_of_int (numels l) = (of_nat (length as) :: u32)" using r by (simp add: rep_def)
  have "written 0 (content f2) (dump_header stamp rnd ?tot (of_nat (length as)) el) f3"
    unfolding f3_def dump_header_def nl
    using written_wrote [OF written_wrote [OF written_wrote [OF written_wrote [OF written_wrote [OF written_wrote [OF written_wrote [OF w2]]]]]]] by simp
  then have c3: "content f3 = dump_header stamp rnd ?tot (of_nat (length as)) el @ ?data"
    using length_dump_header [of stamp rnd ?tot "of_nat (length as)" el]
    by (auto simp: written_def overwrite_def c2 SIMCLIST_DUMPFORMAT_HEADERLEN_def)
  have "list_dump_filedescriptor at io stamp rnd junk l \<lparr>content = [], position = 0, calls = 0\<rparr> =
      Some (0, header_struct_len + unat ?tot, f3)"
    unfolding list_dump_filedescriptor_def seek_full [OF io]
    using ser d(1) by (simp add: f_def [symmetric] write_full [OF io] f2_def [symmetric] f3_def [symmetric])
  then show ?thesis using c3 d(3) by (auto simp: list_dump_file_def)
qed

section \<open>Restore\<close>

text \<open>Cells for the elements to come: addresses that are not in use.\<close>

definition cells_ready :: "nat list \<Rightarrow> ('a, 'k) list_t \<Rightarrow> bool" where
  "cells_ready cs l \<longleftrightarrow> distinct cs \<and> (\<forall>c \<in> set cs. \<not> live l c)"

lemma take_cell_live: "take_cell m l = Some (c, l') \<Longrightarrow> live l' a \<Longrightarrow> live l a \<or> m = Some a"
  by (auto simp: take_cell_def split: if_splits)

lemma fix_mid_live: "insert_fix_mid c pos l = Some l' \<Longrightarrow> live l' = live l"
  by (auto simp: insert_fix_mid_def mid_next_def mid_prev_def split: if_splits)

lemma append_live:
  assumes "list_append m l d = Some (r, l')" "live l' a"
  shows "live l a \<or> m = Some a"
proof (cases "iter_active l \<or> numels l < 0 \<or> take_cell m l = None")
  case True
  then have "l' = l" using assms(1) by (auto simp: list_append_def list_insert_at_def split: if_split_asm)
  then show ?thesis using assms(2) by simp
next
  case False
  then obtain c l1 where c: "take_cell m l = Some (c, l1)" by auto
  obtain l2 where "insert_fix_mid c (numels l) l2 = Some l'" "live l2 = live l1"
    using assms(1) False c unfolding list_append_def list_insert_at_def
    by (simp add: bind_eq_Some_conv Let_def) (elim exE conjE, rule that, assumption, simp add: set_nxt_def set_prv_def)
  then show ?thesis using fix_mid_live take_cell_live [OF c] assms(2) by metis
qed

fun made :: "(nat \<Rightarrow> bytes \<Rightarrow> 'a \<times> u32) \<Rightarrow> nat \<Rightarrow> bytes list \<Rightarrow> 'a list" where
  "made new cnt [] = []"
| "made new cnt (b # bs) = fst (new cnt b) # made new (cnt + 1) bs"

lemma restore_all:
  assumes io: "full io"
  shows "holds l ys \<Longrightarrow> cells_ready cs l \<Longrightarrow> length cs = length bufs \<Longrightarrow> ahead f = concat (map (coded el) bufs) @ rest \<Longrightarrow>
    \<forall>b \<in> set bufs. length b < 2 ^ 32 \<Longrightarrow> el \<noteq> 0 \<longrightarrow> (\<forall>b \<in> set bufs. length b = unat el) \<Longrightarrow>
    \<exists>l' tm' f'. restore_elems io new el (length bufs) cnt (map Some cs @ ms) (l, tr, tm, f) = Some (0, l', tr + of_nat (length (concat bufs)), tm', f') \<and>
      holds l' (ys @ made new cnt bufs) \<and> ahead f' = rest \<and> content f' = content f \<and> same_attributes l l'"
proof (induction bufs arbitrary: l ys cs f cnt tr tm)
  case Nil
  then show ?case by (simp add: same_attributes_def)
next
  case (Cons b bufs)
  obtain c cs' where cs: "cs = c # cs'" "length cs' = length bufs" using Cons.prems(3) by (cases cs) auto
  have lb: "length b < 2 ^ 32" "unat (of_nat (length b) :: u32) = length b" using Cons.prems(5) of_nat_u32 by auto
  obtain d size where new: "new cnt b = (d, size)" by (cases "new cnt b")
  have "cell_ok (Some c) l" using Cons.prems(2) cs(1) by (simp add: cell_ok_def cells_ready_def)
  then obtain l1 where l1: "list_append (Some c) l d = Some (1, l1)" "holds l1 (ys @ [d])" "same_attributes l l1"
    using append_holds [OF Cons.prems(1)] by blast
  have ready: "cells_ready cs' l1" using Cons.prems(2) append_live [OF l1(1)] cs(1) by (auto simp: cells_ready_def)
  define f1 where "f1 = (if el \<noteq> 0 then f else moved 4 f)"
  let ?h = "NetLayer.le32 (uint (of_nat (length b) :: u32))" and ?tl = "concat (map (coded el) bufs) @ rest"
  have whole: "ahead f = coded el b @ ?tl" using Cons.prems(4) by simp
  have head: "ahead f = ?h @ b @ ?tl" if "el = 0" using whole that by (simp add: coded_def entry_def)
  have four: "length ?h = 4" "(4 :: nat) < 2 ^ 32" by simp_all
  have ah: "ahead f1 = b @ ?tl" "content f1 = content f"
    using whole read_full(2,3) [OF io head four] by (simp_all add: f1_def coded_def)
  note rd = read_full [OF io ah(1) refl lb(1)]
  have el: "el \<noteq> 0 \<Longrightarrow> unat el = length b" "el \<noteq> 0 \<Longrightarrow> el = of_nat (length b)" using Cons.prems(6) by auto
  have step: "restore_elems io new el (length (b # bufs)) cnt (map Some cs @ ms) (l, tr, tm, f) =
      restore_elems io new el (length bufs) (cnt + 1) (map Some cs' @ ms) (l1, tr + of_nat (length b), tm + size, moved (length b) f1)"
  proof (cases "el = 0")
    case False
    then have "f1 = f" by (simp add: f1_def)
    note rd1 = rd(1) [unfolded this]
    show ?thesis using False el l1(1) new cs(1) \<open>f1 = f\<close> by (simp add: rd1 Let_def)
  next
    case True
    have "READ_ERRCHECK io 4 f fail k = k ?h f1"
      for fail :: "file_t \<Rightarrow> (int \<times> ('a, 'b) list_t \<times> u32 \<times> u32 \<times> file_t) option" and k
      using read_full(1) [OF io head [OF True] four] True by (simp add: f1_def)
    then show ?thesis using l1(1) new cs(1) True lb(2) by (simp add: Let_def le_value_le32 rd(1))
  qed
  obtain l' tm' f' where "restore_elems io new el (length bufs) (cnt + 1) (map Some cs' @ ms) (l1, tr + of_nat (length b), tm + size, moved (length b) f1) =
      Some (0, l', tr + of_nat (length b) + of_nat (length (concat bufs)), tm', f')"
    "holds l' ((ys @ [d]) @ made new (cnt + 1) bufs)" "ahead f' = rest" "content f' = content (moved (length b) f1)" "same_attributes l1 l'"
    using Cons.IH [OF l1(2) ready cs(2) rd(2)] Cons.prems(5,6) by fastforce
  then show ?case unfolding step using new rd(3) ah(2) l1(3) by (auto simp: add.assoc same_attributes_def)
qed

text \<open>A header, the elements and the terminator are read back.\<close>

lemma restore_file_read:
  assumes io: "full io" and l: "holds l ys" "cells_ready cs l" "length cs = length bufs" and n: "length bufs < 2 ^ 32"
    and small: "\<forall>b \<in> set bufs. length b < 2 ^ 32" "el \<noteq> 0 \<longrightarrow> (\<forall>b \<in> set bufs. length b = unat el)" and u: "unserializer at = Some new"
  shows "\<exists>l' tm. list_restore_file at io (map Some cs @ ms) l True
      (dump_header stamp rnd (of_nat (length (concat bufs))) (of_nat (length bufs)) el @ concat (map (coded el) bufs) @ be32 rnd) = Some (0, tm, l') \<and>
    holds l' (ys @ made new 0 bufs) \<and> same_attributes l l'"
proof -
  let ?tot = "of_nat (length (concat bufs)) :: u32" and ?num = "of_nat (length bufs) :: u32"
  let ?rest = "concat (map (coded el) bufs) @ be32 rnd"
  define f0 where "f0 = \<lparr>content = dump_header stamp rnd ?tot ?num el @ ?rest, position = 0, calls = 0\<rparr>"
  have a0: "ahead f0 = be16 SIMCLIST_DUMPFORMAT_VERSION @ be64 stamp @ be32 rnd @ be32 ?tot @ be32 ?num @ be32 el @ be32 0 @ ?rest"
    by (simp add: f0_def ahead_def dump_header_def)
  note r1 = read_full [OF io a0 length_be16] and
    r2 = read_full [OF io read_full(2) [OF io a0 length_be16] length_be64]
  define f1 f2 f3 f4 f5 f6 f7 where f: "f1 = moved 2 f0" "f2 = moved 8 f1" "f3 = moved 4 f2" "f4 = moved 4 f3" "f5 = moved 4 f4" "f6 = moved 4 f5" "f7 = moved 4 f6"
  have small4: "(2 :: nat) < 2 ^ 32" "(4 :: nat) < 2 ^ 32" "(8 :: nat) < 2 ^ 32" by simp_all
  note s1 = read_full [OF io a0 length_be16 small4(1), folded f(1)]
  note s2 = read_full [OF io s1(2) length_be64 small4(3), folded f(2)]
  note s3 = read_full [OF io s2(2) length_be32 small4(2), folded f(3)]
  note s4 = read_full [OF io s3(2) length_be32 small4(2), folded f(4)]
  note s5 = read_full [OF io s4(2) length_be32 small4(2), folded f(5)]
  note s6 = read_full [OF io s5(2) length_be32 small4(2), folded f(6)]
  note s7 = read_full [OF io s6(2) length_be32 small4(2), folded f(7)]
  have num: "unat ?num = length bufs" using of_nat_u32 [OF n] .
  obtain l' tm f8 where e: "restore_elems io new el (length bufs) 0 (map Some cs @ ms) (l, 0, 0, f7) = Some (0, l', ?tot, tm, f8)"
    "holds l' (ys @ made new 0 bufs)" "ahead f8 = be32 rnd" "content f8 = content f7" "same_attributes l l'"
    using restore_all [OF io l s7(2) small, of new 0 ms 0 0] by auto
  have "ahead f8 = be32 rnd @ []" using e(3) by simp
  note s8 = read_full [OF io this length_be32 small4(2)]
  have "length (ahead f8) = 4" using e(3) by simp
  then have "position (moved 4 f8) = length (content (moved 4 f8))" by (simp add: ahead_def moved_def)
  then have "list_restore_filedescriptor at io (map Some cs @ ms) l f0 = Some (0, tm, l', moved 4 f8)"
    unfolding list_restore_filedescriptor_def Let_def u
    using e(1) num by (simp add: s1(1) s2(1) s3(1) s4(1) s5(1) s6(1) s7(1) s8(1))
  then show ?thesis using e(2,5) by (simp add: list_restore_file_def f0_def)
qed

section \<open>There and back\<close>

lemma made_back: "\<forall>x \<in> set xs. \<forall>n. fst (u n (ser (Some x))) = x \<Longrightarrow> made u cnt (map (\<lambda>x. ser (Some x)) xs) = xs"
  by (induction xs arbitrary: cnt) auto

text \<open>Where \<open>size_t\<close> is wider than the variable for the size, a dump that has to write sizes reads beyond it.\<close>

lemma rounds_undefined: "body x = None \<Longrightarrow> rounds body x = None"
  by (simp add: rounds.simps [of body x])

lemma dump_sizes_undefined:
  assumes io: "full io" and r: "rep l as" and ser: "serializer at = Some ser" "hasher at = None"
    and small: "\<forall>x \<in> set (contents l as). length (ser (Some x)) < 2 ^ 32"
    and sz: "size_t_len at = 8" "\<not> (\<exists>k > 0. \<forall>x \<in> set (contents l as). length (ser (Some x)) = k)"
  shows "list_dump_file at io stamp rnd junk l True old = None"
proof -
  have "as \<noteq> []" using sz(2) by (auto simp: contents_def)
  then obtain a D where as: "as = a # D" by (cases as) auto
  have lk: "linked (nxt l) (prv l) (head_sentinel l # as @ [tail_sentinel l])" and lv: "live l (head_sentinel l)" "\<forall>a \<in> set as. live l a"
    and tn: "tail_sentinel l \<notin> set as" and nn: "numels l > 0" using r as by (simp_all add: rep_def cells_def)
  have hd: "nxt l (head_sentinel l) = Some a" "linked (nxt l) (prv l) (as @ [tail_sentinel l])" using lk as by simp_all
  have dt: "\<forall>b \<in> set as. dat l b = Some (the (dat l b))" using r by (auto simp: rep_def)
  let ?k = "length (ser (dat l a))"
  have sm: "\<forall>b \<in> set as. length (ser (dat l b)) < 2 ^ 32" using small dt by (auto simp: contents_def)
  have entry_none: "rounds (dump_round io 8 True ser l) (Some a, 0, tot, f) = None" for tot f
    using as lv tn by (intro rounds_undefined) (auto simp: dump_round_def Let_def size_bytes_def)
  have "rounds (dump_round io 8 True ser l) (Some a, of_nat ?k, 0, f) = None" if f: "content f = []" "position f = SIMCLIST_DUMPFORMAT_HEADERLEN" for f
  proof (cases "?k = 0")
    case True
    then show ?thesis using entry_none by simp
  next
    case k0: False
    have "\<not> (\<forall>b \<in> set as. length (ser (dat l b)) = ?k)"
    proof
      assume same: "\<forall>b \<in> set as. length (ser (dat l b)) = ?k"
      then have "\<forall>x \<in> set (contents l as). length (ser (Some x)) = ?k" using dt by (auto simp: contents_def)
      then show False using sz(2) k0 by blast
    qed
    then obtain P b E where sp: "as = P @ b # E" "length (ser (dat l b)) \<noteq> ?k" "\<forall>c \<in> set P. length (ser (dat l c)) = ?k"
      using split_list_first_prop [of as "\<lambda>b. length (ser (dat l b)) \<noteq> ?k"] by auto
    have lkp: "linked (nxt l) (prv l) (P @ b # E @ [tail_sentinel l])" using hd(2) sp(1) by simp
    have hp: "hd (P @ [b]) = a" using as sp(1) by (cases P) simp_all
    have k32: "?k < 2 ^ 32" using sm as by simp
    have w0: "written SIMCLIST_DUMPFORMAT_HEADERLEN [] [] f" using f by (simp add: written_def overwrite_def)
    obtain f1 where "rounds (dump_round io 8 True ser l) (Some a, of_nat ?k, 0, f) = rounds (dump_round io 8 True ser l) (nxt l (head_sentinel l), 0, 0, f1)"
      using dump_restart [OF io k0 k32 lv(1) lkp, of ser SIMCLIST_DUMPFORMAT_HEADERLEN "[]" "[]" f 8 0] tn lv(2) sp sm w0 hp by auto
    then show ?thesis using entry_none hd(1) by simp
  qed
  then have "dump_content at io l (sought SIMCLIST_DUMPFORMAT_HEADERLEN \<lparr>content = [], position = 0, calls = 0\<rparr>) = None"
    using nn lv hd as by (simp add: dump_content_def ser sz(1) sought_def)
  then show ?thesis using ser by (simp add: list_dump_file_def list_dump_filedescriptor_def seek_full [OF io])
qed

text \<open>
  C36. A list dumped to a file is read back. When all calls on the file succeed and the elements have a serializer with an inverse, the file
  restores the elements, in order, behind those of the list it is restored to, if they all have one length above 0 or \<open>sizeof(size_t)\<close> is 4. Where it
  is 8, any other list cannot be dumped: \<open>sizeof(size_t)\<close> bytes are written from a variable of four.
\<close>

theorem dump_restore_roundtrip:
  assumes "full io" "full io'" "holds l xs" "length xs < 2 ^ 31"
    and "serializer at = Some ser" "hasher at = None" "unserializer at = Some u" "size_t_len at = 4 \<or> size_t_len at = 8"
    and "\<forall>x \<in> set xs. \<forall>n. fst (u n (ser (Some x))) = x" "\<forall>x \<in> set xs. length (ser (Some x)) < 2 ^ 32"
    and "holds l2 ys" "cells_ready cs l2" "length cs = length xs"
  shows "if size_t_len at = 4 \<or> (\<exists>k > 0. \<forall>x \<in> set xs. length (ser (Some x)) = k)
    then \<exists>n bs tm l'. list_dump_file at io stamp rnd junk l True old = Some (0, n, bs) \<and>
      list_restore_file at io' (map Some cs @ ms) l2 True bs = Some (0, tm, l') \<and> holds l' (ys @ xs)
    else list_dump_file at io stamp rnd junk l True old = None"
proof -
  obtain as where r: "rep l as" and xs: "contents l as = xs" using assms(3) by (auto simp: holds_def)
  have len: "length as = length xs" using xs by (auto simp: contents_def)
  let ?bufs = "map (\<lambda>x. ser (Some x)) xs"
  show ?thesis
  proof (cases "size_t_len at = 4 \<or> (\<exists>k > 0. \<forall>x \<in> set xs. length (ser (Some x)) = k)")
    case True
    obtain el n where d: "list_dump_file at io stamp rnd junk l True old = Some (0, n, dump_header stamp rnd (of_nat (length (concat ?bufs)))
        (of_nat (length xs)) el @ concat (map (coded el) ?bufs) @ be32 rnd)" "el \<noteq> 0 \<longrightarrow> (\<forall>b \<in> set ?bufs. length b = unat el)"
      using dump_file_written [OF assms(1) r assms(5,6), unfolded xs len, OF assms(10) True refl, of stamp rnd junk old] by blast
    have "\<forall>b \<in> set ?bufs. length b < 2 ^ 32" "length cs = length ?bufs" "length ?bufs < 2 ^ 32" using assms(4,10,13) by simp_all
    from restore_file_read [OF assms(2,11,12) this(2,3,1) d(2) assms(7), of ms stamp rnd] made_back [OF assms(9), of 0]
    show ?thesis using True d(1) by auto
  next
    case False
    then show ?thesis using dump_sizes_undefined [OF assms(1) r assms(5,6)] assms(8,10) by (simp add: xs)
  qed
qed

definition byte_attrs :: "nat dump_attrs" where
  "byte_attrs = \<lparr>hasher = None, meter = None, serializer = Some (case_option [] (\<lambda>x. [of_nat x])),
     unserializer = Some (\<lambda>n bs. (unat (hd bs), 8)), verbatim = (\<lambda>n bs. 0), size_t_len = 8\<rparr>"

theorem dump_restore_roundtrip_witness:
  "\<exists>n bs tm l'. list_dump_file byte_attrs (\<lambda>k. 2 ^ 32) 7 9 0 (row 3 number_comparator (\<lambda>i. 10 * i)) True [] = Some (0, n, bs) \<and>
     list_restore_file byte_attrs (\<lambda>k. 2 ^ 32) (map Some [2, 3, 4] @ []) list0 True bs = Some (0, tm, l') \<and> holds l' [10, 20, 30]"
proof -
  let ?xs = "[10, 20, 30] :: nat list"
  have io: "full (\<lambda>k. 2 ^ 32)" by (simp add: full_def)
  have l: "holds (row 3 number_comparator (\<lambda>i. 10 * i)) ?xs" using row_holds [of 3 number_comparator "\<lambda>i. 10 * i"] by (simp add: upt_rec)
  have at: "serializer byte_attrs = Some (case_option [] (\<lambda>x. [of_nat x]))" "hasher byte_attrs = None" "unserializer byte_attrs = Some (\<lambda>n bs. (unat (hd bs), 8))"
    "size_t_len byte_attrs = 4 \<or> size_t_len byte_attrs = 8" by (simp_all add: byte_attrs_def)
  have l2: "holds list0 []" "cells_ready [2, 3, 4] list0"
    using list0_holds by (simp_all add: cells_ready_def list0_def list_attributes_seeker_def list_init_def memory0_def)
  have same: "\<exists>k > 0. \<forall>x \<in> set ?xs. length (case_option [] (\<lambda>x. [of_nat x :: u8]) (Some x)) = k" by (intro exI [of _ 1]) simp
  show ?thesis
    using dump_restore_roundtrip [OF io io l _ at _ _ l2, of 7 9 0 "[]" "[]"] same by simp
qed

end
