(* ===== verification/Spec2Isabelle.thy ===== *)
theory Spec2Isabelle
  imports HashFuncs PsSpec RtpSpec RtcpPack LfSteps StreamHash SimcSpec SdpUse NetSpec SendSpec StreamMoudle StreamUse ConfigSpec SipDemo NetTransfer NetSockSpec SimcDumpSpec
begin

text \<open>
  The GB28181 stream server \<open>gb_stream_server\<close>: a SIP server that takes \<open>INVITE\<close> and \<open>BYE\<close> requests of a
  platform, fetches the live stream of a device from a media server (or has it already), packs each frame as an
  MPEG program stream, cuts that into RTP packets and sends them over UDP to every client of the stream.

  \<^bold>\<open>How the parts work together.\<close> A request that the SIP side accepts becomes a node of the session table
  (\<open>sip_hash.c\<close>; its offer is read by \<open>sdp.c\<close>) and a message to the stream side (\<open>stream_moudle.c\<close>), which finds or
  makes the stream of that key (\<open>stream_hash.c\<close>), adds the client and has the receiver
  (\<open>get_frame_from_hbserver.c\<close>) connect to the media server. The receiver puts blocks together to frames and pushes
  them on the stream's queue (\<open>lf_queue.c\<close>); the send task (\<open>send_av_data.c\<close>) pops them, packs them (\<open>ps.c\<close>), cuts them
  (\<open>rtp_pack.c\<close>), reports (\<open>rtcp_pack.c\<close>) and drops the clients that are to be deleted (\<open>client_opt.c\<close>).

  \<^bold>\<open>Theories.\<close>
  \<^item> \<open>Prelude\<close>: bytes, big-endian fields, C strings of a fixed size, memory reads and writes with bounds,
    \<open>int\<close> wrap-around; \<open>CString\<close>, \<open>ListApi\<close>: the C library's text functions and the list calls the clients use;
    \<open>Loops\<close>: loops by their bodies.
  \<^item> \<open>HashFuncs\<close> (\<open>common/hash_table.c\<close>): the string hashes at 32 bits.
  \<^item> \<open>SimcList\<close>, \<open>SimcSpec\<close> (\<open>common/simclist.c\<close>): the doubly linked list as nodes on a heap with sentinels,
    the mid pointer and the spare elements; its refinement of a plain list. The tables and client lists use the plain list.
    \<open>SimcSort\<close>, \<open>SimcSortSpec\<close>: \<open>list_sort\<close>, and that it sorts; \<open>SimcMore\<close>, \<open>SimcMoreSpec\<close>: ranges, clearing and destroying,
    minimum and maximum, concatenation, iteration; \<open>SimcDump\<close>, \<open>SimcDumpSpec\<close>: dump and restore, and that one undoes the other.
  \<^item> \<open>LfQueue\<close> (\<open>common/lf_queue.c\<close>): the bounded queue and its refinement of a FIFO; \<open>LfSteps\<close>: the same calls under two
    threads, one memory access per step.
  \<^item> \<open>ChainTable\<close> (a hash table of chains and its contract as a locale), \<open>SipHash\<close> (\<open>sip_hash.c\<close>), \<open>StreamHash\<close>
    (\<open>stream_hash.c\<close>): the two tables, interpretations of the contract.
  \<^item> \<open>Sdp\<close>, \<open>SdpGet\<close> (\<open>sip_moudle/sdp.c\<close>): parser, accessors; \<open>SdpLines\<close>, \<open>SdpFields\<close>, \<open>SdpRound\<close>, \<open>SdpSpec\<close>,
    \<open>SdpUse\<close>: what it reads back from a printed description, and its behaviour on other input.
  \<^item> \<open>PsMux\<close>, \<open>PsSpec\<close> (\<open>stream/ps.c\<close>): the multiplexer and a demultiplexer of the standard that reads it back.
  \<^item> \<open>ClientOpt\<close> (\<open>stream/client_opt.c\<close>): clients, their release and the trace of effects.
  \<^item> \<open>RtpPack\<close>, \<open>RtpSpec\<close> (\<open>stream/rtp_pack.c\<close>), \<open>RtcpPack\<close> (\<open>stream/rtcp_pack.c\<close>): packets.
  \<^item> \<open>StreamWorld\<close>: the state the stream side runs on; \<open>NetLayer\<close>, \<open>NetSpec\<close>, \<open>HbServer\<close>
    (\<open>get_frame_from_hbserver.c\<close>), \<open>SendTask\<close>, \<open>SendSpec\<close> (\<open>send_av_data.c\<close>), \<open>StreamMoudle\<close> (\<open>stream_moudle.c\<close>).
  \<^item> \<open>StreamRelease\<close>, \<open>StreamTeardown\<close>, \<open>StreamFrame\<close>, \<open>StreamSteps\<close>, \<open>StreamInput\<close>, \<open>StreamCallbacks\<close>,
    \<open>StreamTasks\<close>, \<open>StreamRequests\<close>: what each operation does to the state, and that it keeps the invariant;
    \<open>StreamLife\<close>: the transition system of the stream side; \<open>StreamSafe\<close>, \<open>StreamUse\<close>: its properties.

  \<^item> \<open>Sip\<close> (\<open>sip.c\<close>): the handlers of the SIP side; \<open>SipOffer\<close>, \<open>SipAnswer\<close>: an offer is read and an answer can be read;
    \<open>SipSpec\<close>: the invariant of the SIP side; \<open>SipCall\<close>: a call and the requests that are not survived; \<open>SipServer\<close>: the
    transition system of the whole server and its properties; \<open>SipDemo\<close>: a small run on which they apply.
  \<^item> \<open>Config\<close>, \<open>ConfigSpec\<close> (\<open>common/config_opt.c\<close>, \<open>main.c\<close>): the configuration file, printed and read.

  \<^item> \<open>NetKernel\<close>, \<open>NetXfer\<close>, \<open>NetSock\<close> (\<open>common/net_api.c\<close>): the kernel as a function of the calls made so far, transfers,
    sockets and addresses (\<open>InetAddr\<close>); \<open>NetTransfer\<close>: a message sent is the message received; \<open>NetSockSpec\<close>: descriptors,
    connections, ends of loops. The rest of the program uses of these only the port test, whose answer is an argument there.

  \<^bold>\<open>Conventions.\<close> A \<open>struct\<close> is a record with the names of its fields, a byte a \<open>u8\<close>; \<open>unsigned\<close> values keep their width,
  signed ones are \<open>int\<close> with the wrap written out. Undefined behaviour (an access out of bounds, to freed memory or
  through a null pointer, a double free) is \<open>None\<close>, so \<open>= Some _\<close> in a theorem says that it does not happen. The
  allocator, the kernel, libevent and the thread pool answer through arguments; what is asked of them is in a
  trace. Addresses the allocator gives are fresh.

  \<^bold>\<open>Granularity, bounds.\<close> One callback, one request or one round of a send task is one step; steps of the event loops and tasks
  interleave in any order, but none is interrupted inside. The program holds the bucket's lock where it
  changes the table; within a round the send task works on its own frame. The interleaving inside one push or pop is that of
  \<open>LfSteps\<close>, where every access to the queue's memory is a step; what is left out is the interleaving inside the client list. Fuel appears where a loop's length is known beforehand: \<open>clear_rounds\<close> has one more
  round than the queue has elements, and \<open>None\<close> for want of fuel is excluded by the theorems that give \<open>Some\<close>.

  \<^bold>\<open>Not modelled.\<close> \<open>stream/get_frame_from_box.c\<close> and the parts of other files that are compiled out; the thread of
  \<open>sip.c\<close> that prints statistics; lists that copy their elements (\<open>copy_data\<close> of \<open>simclist.c\<close>, never set) and the list's own checks
  for a debug build; the libraries \<open>osip2\<close>, \<open>libevent\<close>, \<open>stpool\<close>, of which \<open>inc/\<close> has the headers only: a message
  that \<open>osip2\<close> parsed is a record of what the code reads of it, and the library's answers are an argument.
\<close>

end
